(* ===== verification/Prelude.thy ===== *)
theory Prelude
  imports Main "HOL-Library.Word"
begin

text \<open>
  Shared vocabulary of the development: machine integers, the outcome of a Rust computation that
  may panic, slices of bytes, little-endian integers and the ordered maps of the Rust standard
  library (BTreeMap), together with the lemmas and the named collections the component theories
  use.

  Conventions used by every theory:
  \<^item> \<open>Option<T>\<close> is \<open>'a option\<close>, \<open>Result<T, E>\<close> is \<open>'e + 'a\<close> (\<open>Inl\<close> the error);
  \<^item> a function that can panic, touch memory it must not touch, or not return has the result type
    \<open>'a outcome\<close>;
  \<^item> \<open>u8\<close>, \<open>u16\<close>, \<open>u32\<close>, \<open>u64\<close> and \<open>i32\<close> are words of that width; \<open>usize\<close> values that count
    elements of a slice are natural numbers, on a target with 64-bit pointers;
  \<^item> log messages are left out.
\<close>

section \<open>Machine integers\<close>

type_synonym u8 = "8 word"
type_synonym u16 = "16 word"
type_synonym u32 = "32 word"
type_synonym u64 = "64 word"
type_synonym i32 = "32 word"
type_synonym bytes = "u8 list"

definition usize_max :: nat where
  "usize_max = 2 ^ 64 - 1"

definition u32_max :: nat where
  "u32_max = 2 ^ 32 - 1"

text \<open>\<open>usize::try_into::<u32>\<close> and the like: \<open>None\<close> when the value does not fit.\<close>

definition try_u16 :: "nat \<Rightarrow> u16 option" where
  "try_u16 n = (if n < 2 ^ 16 then Some (of_nat n) else None)"

definition try_u32 :: "nat \<Rightarrow> u32 option" where
  "try_u32 n = (if n < 2 ^ 32 then Some (of_nat n) else None)"

definition fits_usize :: "nat \<Rightarrow> bool" where
  "fits_usize n \<longleftrightarrow> n \<le> usize_max"

text \<open>For evaluation: large bounds are compared as integers, which are binary.\<close>

lemma bounds_code [code]:
  "try_u16 n = (if int n < 65536 then Some (of_nat n) else None)"
  "try_u32 n = (if int n < 4294967296 then Some (of_nat n) else None)"
  "fits_usize n \<longleftrightarrow> int n < 18446744073709551616"
  by (auto simp: try_u16_def try_u32_def fits_usize_def usize_max_def)

lemma try_u16_Some: "try_u16 n = Some w \<longleftrightarrow> n < 2 ^ 16 \<and> w = of_nat n"
  by (auto simp: try_u16_def)

lemma try_u32_Some: "try_u32 n = Some w \<longleftrightarrow> n < 2 ^ 32 \<and> w = of_nat n"
  by (auto simp: try_u32_def)

lemma unat_of_nat_u16: "n < 2 ^ 16 \<Longrightarrow> unat (of_nat n :: u16) = n"
  by (simp add: unat_of_nat)

lemma unat_of_nat_u32: "n < 2 ^ 32 \<Longrightarrow> unat (of_nat n :: u32) = n"
  by (simp add: unat_of_nat)

lemma unat_of_nat_u8: "n < 256 \<Longrightarrow> unat (of_nat n :: u8) = n"
  by (simp add: unat_of_nat)

lemma unat_u8_lt: "unat (b :: u8) < 256"
proof -
  have "unat b < 2 ^ LENGTH(8)" by (rule unsigned_less)
  then show ?thesis by simp
qed

lemma unat_u16_lt: "unat (b :: u16) < 65536"
proof -
  have "unat b < 2 ^ LENGTH(16)" by (rule unsigned_less)
  then show ?thesis by simp
qed

lemma unat_u32_lt: "unat (b :: u32) < 2 ^ 32"
proof -
  have "unat b < 2 ^ LENGTH(32)" by (rule unsigned_less)
  then show ?thesis by simp
qed

section \<open>Outcomes\<close>

text \<open>
  \<open>Ret x\<close> is a normal return; \<open>Panic\<close> a Rust panic (a failed \<open>assert!\<close>, \<open>unwrap\<close>, \<open>expect\<close> or
  index); \<open>UB\<close> an access that unsafe code must never make (freed memory, uninitialised bytes);
  \<open>Diverge\<close> says that a loop used up the fuel it was given.
\<close>

datatype 'a outcome = Ret 'a | Panic | UB | Diverge

primrec obind :: "'a outcome \<Rightarrow> ('a \<Rightarrow> 'b outcome) \<Rightarrow> 'b outcome" where
  "obind (Ret x) f = f x"
| "obind Panic f = Panic"
| "obind UB f = UB"
| "obind Diverge f = Diverge"

primrec omap :: "('a \<Rightarrow> 'b) \<Rightarrow> 'a outcome \<Rightarrow> 'b outcome" where
  "omap f (Ret x) = Ret (f x)"
| "omap f Panic = Panic"
| "omap f UB = UB"
| "omap f Diverge = Diverge"

primrec is_ret :: "'a outcome \<Rightarrow> bool" where
  "is_ret (Ret x) = True"
| "is_ret Panic = False"
| "is_ret UB = False"
| "is_ret Diverge = False"

text \<open>\<open>assert!(b); k\<close>\<close>

definition rassert :: "bool \<Rightarrow> 'a outcome \<Rightarrow> 'a outcome" where
  "rassert b k = (if b then k else Panic)"

text \<open>\<open>o.unwrap()\<close> and \<open>o.expect(..)\<close>\<close>

primrec unwrap :: "'a option \<Rightarrow> 'a outcome" where
  "unwrap (Some x) = Ret x"
| "unwrap None = Panic"

fun omap_list :: "('a \<Rightarrow> 'b outcome) \<Rightarrow> 'a list \<Rightarrow> 'b list outcome" where
  "omap_list f [] = Ret []"
| "omap_list f (x # xs) = obind (f x) (\<lambda>y. obind (omap_list f xs) (\<lambda>ys. Ret (y # ys)))"

lemma obind_Ret_iff: "obind m f = Ret y \<longleftrightarrow> (\<exists>x. m = Ret x \<and> f x = Ret y)"
  by (cases m) auto

lemma obind_assoc: "obind (obind m f) g = obind m (\<lambda>x. obind (f x) g)"
  by (cases m) auto

lemma obind_Ret_right [simp]: "obind m Ret = m"
  by (cases m) auto

lemma omap_Ret_iff: "omap f m = Ret y \<longleftrightarrow> (\<exists>x. m = Ret x \<and> y = f x)"
  by (cases m) auto

lemma is_ret_iff: "is_ret m \<longleftrightarrow> (\<exists>x. m = Ret x)"
  by (cases m) auto

lemma rassert_Ret_iff: "rassert b k = Ret y \<longleftrightarrow> b \<and> k = Ret y"
  by (simp add: rassert_def)

lemma rassert_True [simp]: "rassert True k = k"
  by (simp add: rassert_def)

lemma rassert_False [simp]: "rassert False k = Panic"
  by (simp add: rassert_def)

lemma unwrap_Ret_iff: "unwrap r = Ret y \<longleftrightarrow> r = Some y"
  by (cases r) auto

lemma omap_list_Ret:
  "(\<And>x. x \<in> set xs \<Longrightarrow> f x = Ret (g x)) \<Longrightarrow> omap_list f xs = Ret (map g xs)"
  by (induction xs) auto

lemma omap_list_cong:
  "(\<And>x. x \<in> set xs \<Longrightarrow> f x = g x) \<Longrightarrow> omap_list f xs = omap_list g xs"
  by (induction xs) auto

lemmas outcome_Ret_iffs = obind_Ret_iff omap_Ret_iff rassert_Ret_iff unwrap_Ret_iff

section \<open>Slices\<close>

text \<open>\<open>buf[i]\<close>, \<open>&buf[a..]\<close>, \<open>&buf[..b]\<close>, \<open>&buf[a..b]\<close>, \<open>split_at\<close>: out of range is a panic.\<close>

definition index :: "'a list \<Rightarrow> nat \<Rightarrow> 'a outcome" where
  "index xs i = (if i < length xs then Ret (xs ! i) else Panic)"

definition slice_from :: "'a list \<Rightarrow> nat \<Rightarrow> 'a list outcome" where
  "slice_from xs a = (if a \<le> length xs then Ret (drop a xs) else Panic)"

definition slice_to :: "'a list \<Rightarrow> nat \<Rightarrow> 'a list outcome" where
  "slice_to xs b = (if b \<le> length xs then Ret (take b xs) else Panic)"

definition slice_range :: "'a list \<Rightarrow> nat \<Rightarrow> nat \<Rightarrow> 'a list outcome" where
  "slice_range xs a b =
     (if a \<le> b \<and> b \<le> length xs then Ret (take (b - a) (drop a xs)) else Panic)"

definition split_at :: "'a list \<Rightarrow> nat \<Rightarrow> ('a list \<times> 'a list) outcome" where
  "split_at xs i = (if i \<le> length xs then Ret (take i xs, drop i xs) else Panic)"

text \<open>\<open>buf.get(a..b)\<close>: out of range is \<open>None\<close>.\<close>

definition get_range :: "'a list \<Rightarrow> nat \<Rightarrow> nat \<Rightarrow> 'a list option" where
  "get_range xs a b =
     (if a \<le> b \<and> b \<le> length xs then Some (take (b - a) (drop a xs)) else None)"

lemma index_Ret [simp]: "i < length xs \<Longrightarrow> index xs i = Ret (xs ! i)"
  by (simp add: index_def)

lemma slice_from_Ret [simp]: "a \<le> length xs \<Longrightarrow> slice_from xs a = Ret (drop a xs)"
  by (simp add: slice_from_def)

lemma slice_to_Ret [simp]: "b \<le> length xs \<Longrightarrow> slice_to xs b = Ret (take b xs)"
  by (simp add: slice_to_def)

lemma slice_range_Ret [simp]:
  "a \<le> b \<Longrightarrow> b \<le> length xs \<Longrightarrow> slice_range xs a b = Ret (take (b - a) (drop a xs))"
  by (simp add: slice_range_def)

lemma split_at_Ret [simp]: "i \<le> length xs \<Longrightarrow> split_at xs i = Ret (take i xs, drop i xs)"
  by (simp add: split_at_def)

lemma index_Ret_iff: "index xs i = Ret y \<longleftrightarrow> i < length xs \<and> y = xs ! i"
  by (auto simp: index_def)

lemma slice_from_Ret_iff: "slice_from xs a = Ret ys \<longleftrightarrow> a \<le> length xs \<and> ys = drop a xs"
  by (auto simp: slice_from_def)

lemma slice_to_Ret_iff: "slice_to xs a = Ret ys \<longleftrightarrow> a \<le> length xs \<and> ys = take a xs"
  by (auto simp: slice_to_def)

lemma take_two: "i + 2 \<le> length xs \<Longrightarrow> take 2 (drop i xs) = [xs ! i, xs ! Suc i]"
  by (simp add: numeral_2_eq_2 take_Suc_conv_app_nth nth_append)

section \<open>Little-endian integers\<close>

text \<open>\<open>u16::from_le_bytes\<close>, \<open>to_le_bytes\<close> and their 32-bit versions.\<close>

definition u16_from_le_bytes :: "u8 \<Rightarrow> u8 \<Rightarrow> u16" where
  "u16_from_le_bytes lo hi = of_nat (unat lo + 256 * unat hi)"

definition u16_to_le_bytes :: "u16 \<Rightarrow> bytes" where
  "u16_to_le_bytes w = [of_nat (unat w mod 256), of_nat (unat w div 256)]"

definition u32_from_le_bytes :: "u8 \<Rightarrow> u8 \<Rightarrow> u8 \<Rightarrow> u8 \<Rightarrow> u32" where
  "u32_from_le_bytes a b c d =
     of_nat (unat a + 256 * unat b + 65536 * unat c + 16777216 * unat d)"

definition u32_to_le_bytes :: "u32 \<Rightarrow> bytes" where
  "u32_to_le_bytes w =
     [of_nat (unat w mod 256), of_nat (unat w div 256 mod 256),
      of_nat (unat w div 65536 mod 256), of_nat (unat w div 16777216)]"

lemma length_u16_to_le_bytes [simp]: "length (u16_to_le_bytes w) = 2"
  by (simp add: u16_to_le_bytes_def)

lemma length_u32_to_le_bytes [simp]: "length (u32_to_le_bytes w) = 4"
  by (simp add: u32_to_le_bytes_def)

lemma unat_u16_from_le_bytes: "unat (u16_from_le_bytes lo hi) = unat lo + 256 * unat hi"
proof -
  have "unat lo + 256 * unat hi < 65536"
    using unat_u8_lt [of lo] unat_u8_lt [of hi] by linarith
  then show ?thesis unfolding u16_from_le_bytes_def by (intro unat_of_nat_u16) simp
qed

lemma u16_le_roundtrip [simp]:
  "u16_from_le_bytes (u16_to_le_bytes w ! 0) (u16_to_le_bytes w ! Suc 0) = w"
proof -
  have "unat w div 256 < 256" using unat_u16_lt [of w] by (simp add: less_mult_imp_div_less)
  then have "unat (u16_from_le_bytes (u16_to_le_bytes w ! 0) (u16_to_le_bytes w ! Suc 0)) = unat w"
    by (simp add: unat_u16_from_le_bytes u16_to_le_bytes_def unat_of_nat_u8)
  then show ?thesis by (simp only: word_unat_eq_iff)
qed

lemma u16_le_bytes_roundtrip: "u16_to_le_bytes (u16_from_le_bytes a b) = [a, b]"
proof -
  have "unat a < 256" "unat b < 256" by (rule unat_u8_lt)+
  then show ?thesis by (simp add: u16_to_le_bytes_def unat_u16_from_le_bytes)
qed

lemma u16_from_le_bytes_inject:
  "u16_from_le_bytes a b = u16_from_le_bytes c d \<longleftrightarrow> a = c \<and> b = d"
proof
  assume "u16_from_le_bytes a b = u16_from_le_bytes c d"
  then have eq: "unat a + 256 * unat b = unat c + 256 * unat d"
    by (metis unat_u16_from_le_bytes)
  have "unat a = unat c \<and> unat b = unat d"
    using arg_cong [OF eq, of "\<lambda>n. n mod 256"] arg_cong [OF eq, of "\<lambda>n. n div 256"]
      unat_u8_lt [of a] unat_u8_lt [of c] by simp
  then show "a = c \<and> b = d" by (simp add: word_unat_eq_iff)
qed simp

section \<open>Ordered maps\<close>

text \<open>
  The \<open>BTreeMap\<close> of the Rust standard library, as the list of its entries in key order.
\<close>

type_synonym ('k, 'v) btree = "('k \<times> 'v) list"

fun btree_insert :: "'k::linorder \<Rightarrow> 'v \<Rightarrow> ('k, 'v) btree \<Rightarrow> ('k, 'v) btree" where
  "btree_insert k v [] = [(k, v)]"
| "btree_insert k v ((k', v') # m) =
     (if k < k' then (k, v) # (k', v') # m
      else if k = k' then (k', v) # m
      else (k', v') # btree_insert k v m)"

definition btree_get :: "('k, 'v) btree \<Rightarrow> 'k \<Rightarrow> 'v option" where
  "btree_get m k = map_of m k"

lemma btree_get_Nil [simp]: "btree_get [] k = None"
  by (simp add: btree_get_def)

definition btree_remove :: "'k \<Rightarrow> ('k, 'v) btree \<Rightarrow> ('k, 'v) btree" where
  "btree_remove k m = filter (\<lambda>e. fst e \<noteq> k) m"

definition btree_ok :: "('k::linorder, 'v) btree \<Rightarrow> bool" where
  "btree_ok m \<longleftrightarrow> sorted_wrt (<) (map fst m)"

lemma btree_ok_Nil [simp]: "btree_ok []"
  by (simp add: btree_ok_def)

lemma btree_ok_Cons [simp]:
  "btree_ok (e # m) \<longleftrightarrow> (\<forall>k \<in> set (map fst m). fst e < k) \<and> btree_ok m"
  by (simp add: btree_ok_def)

lemma keys_btree_insert: "set (map fst (btree_insert k v m)) = insert k (set (map fst m))"
  by (induction k v m rule: btree_insert.induct) auto

lemma btree_ok_insert: "btree_ok m \<Longrightarrow> btree_ok (btree_insert k v m)"
proof (induction k v m rule: btree_insert.induct)
  case (1 k v)
  show ?case by simp
next
  case (2 k v k' v' m)
  then show ?case
    by (auto simp del: set_map simp: keys_btree_insert)
qed

lemma btree_get_insert:
  "btree_ok m \<Longrightarrow> btree_get (btree_insert k v m) j = (if j = k then Some v else btree_get m j)"
  by (induction k v m rule: btree_insert.induct) (auto simp: btree_get_def map_of_eq_None_iff)

lemma btree_ok_remove: "btree_ok m \<Longrightarrow> btree_ok (btree_remove k m)"
  by (induction m) (auto simp: btree_remove_def)

lemma keys_btree_remove: "set (map fst (btree_remove k m)) = set (map fst m) - {k}"
  by (auto simp: btree_remove_def)

lemma btree_get_remove:
  "btree_get (btree_remove k m) j = (if j = k then None else btree_get m j)"
  by (induction m) (auto simp: btree_remove_def btree_get_def)

lemma btree_ok_distinct: "btree_ok m \<Longrightarrow> distinct (map fst m)"
  by (induction m) auto

lemma btree_ok_tl: "btree_ok m \<Longrightarrow> btree_ok (tl m)"
  by (cases m) auto

text \<open>Collections the component theories fill: facts that rule out panics, and frame facts.\<close>

named_theorems panic_free "operations that return on every input that satisfies their invariant"
named_theorems wf_intros "well-formedness facts"

end
