(* ===== verification/Control.thy ===== *)
theory Control
  imports Prelude
begin

unbundle bit_operations_syntax

text \<open>
  Control requests: src/src/transfer/control.rs. \<open>Direction\<close>, \<open>ControlType\<close> and \<open>Recipient\<close>
  with their discriminants, the two request structures and the 8-byte SETUP packet.
\<close>

section \<open>Directions, types and recipients\<close>

datatype Direction = Out | In

fun direction_u8 :: "Direction \<Rightarrow> u8" where
  "direction_u8 Out = 0"
| "direction_u8 In = 0x80"

definition direction_mask :: u8 where
  "direction_mask = 0x80"

definition direction_from_address :: "u8 \<Rightarrow> Direction" where
  "direction_from_address addr = (if addr AND direction_mask = 0 then Out else In)"

datatype ControlType = Standard | Class | Vendor

fun control_type_u8 :: "ControlType \<Rightarrow> u8" where
  "control_type_u8 Standard = 0"
| "control_type_u8 Class = 1"
| "control_type_u8 Vendor = 2"

datatype Recipient = RecipientDevice | RecipientInterface | RecipientEndpoint | RecipientOther

fun recipient_u8 :: "Recipient \<Rightarrow> u8" where
  "recipient_u8 RecipientDevice = 0"
| "recipient_u8 RecipientInterface = 1"
| "recipient_u8 RecipientEndpoint = 2"
| "recipient_u8 RecipientOther = 3"

section \<open>Requests\<close>

record ControlOut =
  co_control_type :: ControlType
  co_recipient :: Recipient
  co_request :: u8
  co_value :: u16
  co_index :: u16
  co_data :: bytes

record ControlIn =
  ci_control_type :: ControlType
  ci_recipient :: Recipient
  ci_request :: u8
  ci_value :: u16
  ci_index :: u16
  ci_length :: u16

definition setup_packet_size :: nat where
  "setup_packet_size = 8"

definition request_type :: "Direction \<Rightarrow> ControlType \<Rightarrow> Recipient \<Rightarrow> u8" where
  "request_type direction control_type recipient =
     (direction_u8 direction OR push_bit 5 (control_type_u8 control_type)) OR recipient_u8 recipient"

definition pack_setup ::
  "Direction \<Rightarrow> ControlType \<Rightarrow> Recipient \<Rightarrow> u8 \<Rightarrow> u16 \<Rightarrow> u16 \<Rightarrow> u16 \<Rightarrow> bytes" where
  "pack_setup direction control_type recipient request val idx len =
     (let bmrequesttype = request_type direction control_type recipient
      in [bmrequesttype,
          request,
          ucast (val AND 0xFF),
          ucast (drop_bit 8 val),
          ucast (idx AND 0xFF),
          ucast (drop_bit 8 idx),
          ucast (len AND 0xFF),
          ucast (drop_bit 8 len)])"

text \<open>\<open>expect("length must fit in u16")\<close> is the panic of \<open>ControlOut::setup_packet\<close>.\<close>

definition control_out_setup_packet :: "ControlOut \<Rightarrow> bytes outcome" where
  "control_out_setup_packet c =
     obind (unwrap (try_u16 (length (co_data c)))) (\<lambda>len.
       Ret (pack_setup Out (co_control_type c) (co_recipient c) (co_request c)
              (co_value c) (co_index c) len))"

definition control_out_request_type :: "ControlOut \<Rightarrow> u8" where
  "control_out_request_type c = request_type Out (co_control_type c) (co_recipient c)"

definition control_in_setup_packet :: "ControlIn \<Rightarrow> bytes" where
  "control_in_setup_packet c =
     pack_setup In (ci_control_type c) (ci_recipient c) (ci_request c)
       (ci_value c) (ci_index c) (ci_length c)"

definition control_in_request_type :: "ControlIn \<Rightarrow> u8" where
  "control_in_request_type c = request_type In (ci_control_type c) (ci_recipient c)"

section \<open>Specification: reading a SETUP packet back\<close>

text \<open>
  The layout of the USB specification: bit 7 of \<open>bmRequestType\<close> is the direction, bits 5 and 6
  the type, bits 0 to 4 the recipient; the three 16-bit fields are little-endian.
\<close>

definition decode_type :: "u8 \<Rightarrow> ControlType option" where
  "decode_type t =
     (let n = unat t div 32 mod 4
      in if n = 0 then Some Standard else if n = 1 then Some Class
         else if n = 2 then Some Vendor else None)"

definition decode_recipient :: "u8 \<Rightarrow> Recipient option" where
  "decode_recipient t =
     (let n = unat t mod 32
      in if n = 0 then Some RecipientDevice else if n = 1 then Some RecipientInterface
         else if n = 2 then Some RecipientEndpoint else if n = 3 then Some RecipientOther
         else None)"

definition decode_setup ::
  "bytes \<Rightarrow> (Direction \<times> ControlType option \<times> Recipient option \<times> u8 \<times> u16 \<times> u16 \<times> u16)" where
  "decode_setup p =
     (direction_from_address (p ! 0), decode_type (p ! 0), decode_recipient (p ! 0), p ! 1,
      u16_from_le_bytes (p ! 2) (p ! 3), u16_from_le_bytes (p ! 4) (p ! 5),
      u16_from_le_bytes (p ! 6) (p ! 7))"

section \<open>Lemmas\<close>

lemma direction_from_u8: "direction_from_address (direction_u8 d) = d"
  by (cases d) (simp_all add: direction_from_address_def direction_mask_def)

lemma direction_from_request_type: "direction_from_address (request_type d t r) = d"
  by (cases d; cases t; cases r)
    (simp_all add: direction_from_address_def direction_mask_def request_type_def)

lemma decode_type_request_type: "decode_type (request_type d t r) = Some t"
  by (cases d; cases t; cases r) (simp_all add: decode_type_def request_type_def Let_def)

lemma decode_recipient_request_type: "decode_recipient (request_type d t r) = Some r"
  by (cases d; cases t; cases r) (simp_all add: decode_recipient_def request_type_def Let_def)

text \<open>The bytes \<open>(w & 0xFF) as u8\<close> and \<open>(w >> 8) as u8\<close> are \<open>w\<close> in little-endian order.\<close>

lemma unat_low_byte: "unat (ucast (w AND 0xFF) :: u8) = unat (w :: u16) mod 256"
proof -
  have "w AND 0xFF = take_bit 8 w"
    by (simp add: take_bit_eq_mask mask_numeral)
  then show ?thesis
    by (simp add: unsigned_ucast_eq unsigned_take_bit_eq take_bit_eq_mod unat_mod)
qed

lemma unat_high_byte: "unat (ucast (drop_bit 8 w) :: u8) = unat (w :: u16) div 256"
proof -
  have "unat w div 256 < 256" using unat_u16_lt [of w] by (simp add: less_mult_imp_div_less)
  then show ?thesis
    by (simp add: unsigned_ucast_eq unsigned_drop_bit_eq take_bit_eq_mod drop_bit_eq_div unat_div)
qed

lemma u16_from_setup_bytes:
  "u16_from_le_bytes (ucast (w AND 0xFF)) (ucast (drop_bit 8 w)) = w"
  by (simp add: word_unat_eq_iff unat_u16_from_le_bytes unat_low_byte unat_high_byte)

lemma length_pack_setup [simp]: "length (pack_setup d t r q v i l) = setup_packet_size"
  by (simp add: pack_setup_def setup_packet_size_def Let_def)

lemma decode_pack_setup:
  "decode_setup (pack_setup d t r q v i l) = (d, Some t, Some r, q, v, i, l)"
  by (simp add: decode_setup_def pack_setup_def Let_def u16_from_setup_bytes
      direction_from_request_type decode_type_request_type decode_recipient_request_type)

text \<open>
  The SETUP packet of a control IN request is 8 bytes from which every field of the request
  can be read back: no two different requests have the same packet.
\<close>

theorem control_in_setup_roundtrip:
  "length (control_in_setup_packet c) = setup_packet_size \<and>
   decode_setup (control_in_setup_packet c) =
     (In, Some (ci_control_type c), Some (ci_recipient c), ci_request c, ci_value c, ci_index c,
      ci_length c)"
  by (simp add: control_in_setup_packet_def decode_pack_setup)

text \<open>
  The SETUP packet of a control OUT request panics exactly when the data does not fit the
  16-bit length field; otherwise it is 8 bytes that decode to the request's own fields and the
  length of its data.
\<close>

theorem control_out_setup_roundtrip:
  "(if length (co_data c) < 65536
    then (\<exists>p. control_out_setup_packet c = Ret p \<and> length p = setup_packet_size \<and>
           decode_setup p =
             (Out, Some (co_control_type c), Some (co_recipient c), co_request c, co_value c,
              co_index c, of_nat (length (co_data c))))
    else control_out_setup_packet c = Panic)"
  by (simp add: control_out_setup_packet_def try_u16_def decode_pack_setup)

end
