(* ===== verification/Descriptors.thy ===== *)
theory Descriptors
  imports Control
begin

unbundle bit_operations_syntax

text \<open>
  The descriptor parser: src/src/descriptors.rs. A descriptor type of the source is a wrapper
  around a byte slice; here it is the slice itself (\<open>bytes\<close>), and \<open>DeviceDescriptor\<close>, which wraps
  an array of 18 bytes, is a list of that length. Iterators are the functions that compute the
  next item and the new state, and the lists of the items they yield.
\<close>

section \<open>Constants\<close>

definition DESCRIPTOR_TYPE_DEVICE :: u8 where "DESCRIPTOR_TYPE_DEVICE = 0x01"
definition DESCRIPTOR_LEN_DEVICE :: u8 where "DESCRIPTOR_LEN_DEVICE = 18"
definition DESCRIPTOR_TYPE_CONFIGURATION :: u8 where "DESCRIPTOR_TYPE_CONFIGURATION = 0x02"
definition DESCRIPTOR_LEN_CONFIGURATION :: u8 where "DESCRIPTOR_LEN_CONFIGURATION = 9"
definition DESCRIPTOR_TYPE_INTERFACE :: u8 where "DESCRIPTOR_TYPE_INTERFACE = 0x04"
definition DESCRIPTOR_LEN_INTERFACE :: u8 where "DESCRIPTOR_LEN_INTERFACE = 9"
definition DESCRIPTOR_TYPE_ENDPOINT :: u8 where "DESCRIPTOR_TYPE_ENDPOINT = 0x05"
definition DESCRIPTOR_LEN_ENDPOINT :: u8 where "DESCRIPTOR_LEN_ENDPOINT = 7"
definition DESCRIPTOR_TYPE_STRING :: u8 where "DESCRIPTOR_TYPE_STRING = 0x03"
definition US_ENGLISH :: u16 where "US_ENGLISH = 0x0409"

lemmas descriptor_constants =
  DESCRIPTOR_TYPE_DEVICE_def DESCRIPTOR_LEN_DEVICE_def DESCRIPTOR_TYPE_CONFIGURATION_def
  DESCRIPTOR_LEN_CONFIGURATION_def DESCRIPTOR_TYPE_INTERFACE_def DESCRIPTOR_LEN_INTERFACE_def
  DESCRIPTOR_TYPE_ENDPOINT_def DESCRIPTOR_LEN_ENDPOINT_def DESCRIPTOR_TYPE_STRING_def

section \<open>Raw descriptors\<close>

definition descriptor_new :: "bytes \<Rightarrow> bytes option" where
  "descriptor_new buf =
     (if length buf \<ge> 2 \<and> length buf \<ge> unat (buf ! 0) then Some buf else None)"

definition descriptor_len :: "bytes \<Rightarrow> nat outcome" where
  "descriptor_len d = omap unat (index d 0)"

definition descriptor_type :: "bytes \<Rightarrow> u8 outcome" where
  "descriptor_type d = index d 1"

section \<open>Descriptor iterators\<close>

text \<open>
  \<open>split_first\<close>: the three early returns, then \<open>split_at\<close>, which is in range because of the last
  of them. Every index is guarded by the checks before it.
\<close>

definition split_first :: "bytes \<Rightarrow> (bytes \<times> bytes) option" where
  "split_first b =
     (if length b < 2 then None
      else if b ! 0 < 2 then None
      else if unat (b ! 0) > length b then None
      else Some (take (unat (b ! 0)) b, drop (unat (b ! 0)) b))"

text \<open>\<open>DescriptorIter::next\<close>: the item and the rest of the buffer.\<close>

definition descriptor_iter_next :: "bytes \<Rightarrow> bytes option \<times> bytes" where
  "descriptor_iter_next b =
     (case split_first b of Some (cur, rest) \<Rightarrow> (Some cur, rest) | None \<Rightarrow> (None, b))"

lemma split_first_SomeD:
  assumes "split_first b = Some (cur, rest)"
  shows "2 \<le> length b" "2 \<le> unat (b ! 0)" "unat (b ! 0) \<le> length b"
    "cur = take (unat (b ! 0)) b" "rest = drop (unat (b ! 0)) b"
proof -
  have c: "2 \<le> length b" "\<not> b ! 0 < 2" "unat (b ! 0) \<le> length b"
    "cur = take (unat (b ! 0)) b" "rest = drop (unat (b ! 0)) b"
    using assms by (auto simp: split_first_def split: if_splits)
  from c(2) have "2 \<le> unat (b ! 0)" by (simp add: word_less_nat_alt)
  with c show "2 \<le> length b" "2 \<le> unat (b ! 0)" "unat (b ! 0) \<le> length b"
    "cur = take (unat (b ! 0)) b" "rest = drop (unat (b ! 0)) b" by auto
qed

lemma split_first_shrinks: "split_first b = Some (cur, rest) \<Longrightarrow> length rest < length b"
  using split_first_SomeD [of b cur rest] by auto

text \<open>The items an iterator yields: \<open>next\<close> until it returns \<open>None\<close>.\<close>

function descriptor_list :: "bytes \<Rightarrow> bytes list" where
  "descriptor_list b =
     (case descriptor_iter_next b of (None, _) \<Rightarrow> [] | (Some d, rest) \<Rightarrow> d # descriptor_list rest)"
  by pat_completeness auto
termination
  by (relation "measure length")
    (auto simp: descriptor_iter_next_def split: option.splits prod.splits dest: split_first_shrinks)

declare descriptor_list.simps [simp del]

text \<open>
  The closure of \<open>split_by_type\<close>, in its two loops. \<open>seek_type\<close> is the first: it leaves the buffer
  at the first descriptor of the type that is long enough (\<open>True\<close>), or where \<open>split_first\<close> found
  no descriptor (\<open>False\<close>).
\<close>

function seek_type :: "u8 \<Rightarrow> u8 \<Rightarrow> bytes \<Rightarrow> bool \<times> bytes" where
  "seek_type ty min_len b =
     (case split_first b of
        None \<Rightarrow> (False, b)
      | Some (_, rest) \<Rightarrow>
          if b ! 1 = ty \<and> b ! 0 \<ge> min_len then (True, b) else seek_type ty min_len rest)"
  by pat_completeness auto
termination
  by (relation "measure (\<lambda>(ty, m, b). length b)") (auto dest: split_first_shrinks)

declare seek_type.simps [simp del]

text \<open>
  The second loop moves \<open>end\<close> over the descriptors that belong to the first. Its indexes are
  guarded by the first conjunct of its condition.
\<close>

function group_end :: "u8 \<Rightarrow> bytes \<Rightarrow> nat \<Rightarrow> nat" where
  "group_end ty b e =
     (if length b \<ge> e + 2 \<and> b ! e > 2 \<and> b ! (e + 1) \<noteq> ty \<and> length b \<ge> e + unat (b ! e)
      then group_end ty b (e + unat (b ! e))
      else e)"
  by pat_completeness auto
termination
  by (relation "measure (\<lambda>(ty, b, e). length b - e)") (auto simp: word_less_nat_alt)

declare group_end.simps [simp del]

definition split_by_type_next :: "u8 \<Rightarrow> u8 \<Rightarrow> bytes \<Rightarrow> (bytes option \<times> bytes) outcome" where
  "split_by_type_next ty min_len b =
     (case seek_type ty min_len b of
        (False, b') \<Rightarrow> Ret (None, b')
      | (True, b') \<Rightarrow>
          obind (index b' 0) (\<lambda>l.
          obind (split_at b' (group_end ty b' (unat l))) (\<lambda>(r, rest).
            Ret (Some r, rest))))"

lemma seek_type_True:
  "seek_type ty m b = (True, b') \<Longrightarrow>
    2 \<le> length b' \<and> 2 \<le> unat (b' ! 0) \<and> unat (b' ! 0) \<le> length b' \<and> b' ! 1 = ty \<and> m \<le> b' ! 0 \<and>
    (\<exists>p. b = p @ b')"
proof (induction ty m b rule: seek_type.induct)
  case (1 ty m b)
  show ?case
  proof (cases "split_first b")
    case None
    with 1 show ?thesis by (simp add: seek_type.simps [of ty m b])
  next
    case (Some p)
    obtain cur rest where p: "p = (cur, rest)" by (cases p)
    note d = split_first_SomeD [OF Some [unfolded p]]
    show ?thesis
    proof (cases "b ! 1 = ty \<and> b ! 0 \<ge> m")
      case True
      with 1 Some p d show ?thesis by (auto simp: seek_type.simps [of ty m b])
    next
      case False
      with 1 Some p have "seek_type ty m rest = (True, b')"
        by (auto simp: seek_type.simps [of ty m b] split: if_splits)
      from "1.IH" [OF Some [unfolded p] refl False this]
      show ?thesis using d by (metis append_assoc append_take_drop_id)
    qed
  qed
qed

lemma seek_type_suffix: "\<exists>p. b = p @ snd (seek_type ty m b)"
proof (induction ty m b rule: seek_type.induct)
  case (1 ty m b)
  show ?case
  proof (cases "split_first b")
    case None
    then show ?thesis by (simp add: seek_type.simps [of ty m b])
  next
    case (Some p)
    obtain cur rest where p: "p = (cur, rest)" by (cases p)
    note d = split_first_SomeD [OF Some [unfolded p]]
    show ?thesis
    proof (cases "b ! 1 = ty \<and> b ! 0 \<ge> m")
      case True
      with Some p show ?thesis by (auto simp: seek_type.simps [of ty m b])
    next
      case False
      with Some p have eq: "seek_type ty m b = seek_type ty m rest"
        by (auto simp: seek_type.simps [of ty m b])
      from "1.IH" [OF Some [unfolded p] refl False]
      show ?thesis unfolding eq using d by (metis append_assoc append_take_drop_id)
    qed
  qed
qed

lemma group_end_bounds: "e \<le> length b \<Longrightarrow> e \<le> group_end ty b e \<and> group_end ty b e \<le> length b"
proof (induction ty b e rule: group_end.induct)
  case (1 ty b e)
  show ?case
  proof (cases "length b \<ge> e + 2 \<and> b ! e > 2 \<and> b ! (e + 1) \<noteq> ty \<and> length b \<ge> e + unat (b ! e)")
    case True
    with "1.IH" show ?thesis by (subst (1 2) group_end.simps) auto
  next
    case False
    with "1.prems" show ?thesis by (subst (1 2) group_end.simps) auto
  qed
qed

text \<open>The items of \<open>split_by_type\<close>; each one takes bytes off the buffer.\<close>

lemma split_by_type_next_shrinks:
  assumes "split_by_type_next ty m b = Ret (Some r, rest)"
  shows "length rest < length b"
proof -
  obtain b' where s: "seek_type ty m b = (True, b')"
    using assms by (auto simp: split_by_type_next_def split: prod.splits bool.splits)
  from seek_type_True [OF s] have b': "2 \<le> unat (b' ! 0)" "unat (b' ! 0) \<le> length b'" "b' \<noteq> []"
    and le: "length b' \<le> length b" by auto
  have "rest = drop (group_end ty b' (unat (b' ! 0))) b'"
    using assms s b' group_end_bounds [of "unat (b' ! 0)" b' ty]
    by (auto simp: split_by_type_next_def)
  with group_end_bounds [OF b'(2), of ty] b' le show ?thesis by auto
qed

function split_by_type :: "u8 \<Rightarrow> u8 \<Rightarrow> bytes \<Rightarrow> bytes list outcome" where
  "split_by_type ty min_len b =
     (case split_by_type_next ty min_len b of
        Ret (None, _) \<Rightarrow> Ret []
      | Ret (Some r, rest) \<Rightarrow> obind (split_by_type ty min_len rest) (\<lambda>rs. Ret (r # rs))
      | Panic \<Rightarrow> Panic | UB \<Rightarrow> UB | Diverge \<Rightarrow> Diverge)"
  by pat_completeness auto
termination
  by (relation "measure (\<lambda>(ty, m, b). length b)") (auto dest: split_by_type_next_shrinks)

declare split_by_type.simps [simp del]

section \<open>Device descriptors\<close>

text \<open>
  The accessors that the macro \<open>descriptor_fields!\<close> generates: the bytes at a position, read as a
  little-endian integer. The slice panics out of range.
\<close>

definition field_u8 :: "nat \<Rightarrow> bytes \<Rightarrow> u8 outcome" where
  "field_u8 pos d = obind (slice_range d pos (pos + 1)) (\<lambda>s. Ret (s ! 0))"

definition field_u16 :: "nat \<Rightarrow> bytes \<Rightarrow> u16 outcome" where
  "field_u16 pos d = obind (slice_range d pos (pos + 2)) (\<lambda>s. Ret (u16_from_le_bytes (s ! 0) (s ! 1)))"

lemma field_u8_Ret [simp]: "pos < length d \<Longrightarrow> field_u8 pos d = Ret (d ! pos)"
  by (simp add: field_u8_def)

lemma field_u16_Ret [simp]:
  "pos + 1 < length d \<Longrightarrow> field_u16 pos d = Ret (u16_from_le_bytes (d ! pos) (d ! Suc pos))"
  by (simp add: field_u16_def)

text \<open>\<open>NonZeroU8::new\<close>\<close>

definition nonzero_u8 :: "u8 \<Rightarrow> u8 option" where
  "nonzero_u8 n = (if n = 0 then None else Some n)"

type_synonym DeviceDescriptor = bytes

definition device_descriptor_new :: "bytes \<Rightarrow> DeviceDescriptor option" where
  "device_descriptor_new buf =
     (case get_range buf 0 (unat DESCRIPTOR_LEN_DEVICE) of
        None \<Rightarrow> None
      | Some buf \<Rightarrow>
          if buf ! 0 < DESCRIPTOR_LEN_DEVICE then None
          else if buf ! 1 \<noteq> DESCRIPTOR_TYPE_DEVICE then None
          else Some buf)"

definition device_from_fields ::
  "u16 \<Rightarrow> u8 \<Rightarrow> u8 \<Rightarrow> u8 \<Rightarrow> u8 \<Rightarrow> u16 \<Rightarrow> u16 \<Rightarrow> u16 \<Rightarrow> u8 \<Rightarrow> u8 \<Rightarrow> u8 \<Rightarrow> u8 \<Rightarrow> DeviceDescriptor"
where
  "device_from_fields usb_version cls subclass protocol max_packet_size_0 vendor_id product_id
     device_version manufacturer_string_index product_string_index serial_number_string_index
     num_configurations =
     [DESCRIPTOR_LEN_DEVICE,
      DESCRIPTOR_TYPE_DEVICE,
      u16_to_le_bytes usb_version ! 0,
      u16_to_le_bytes usb_version ! 1,
      cls,
      subclass,
      protocol,
      max_packet_size_0,
      u16_to_le_bytes vendor_id ! 0,
      u16_to_le_bytes vendor_id ! 1,
      u16_to_le_bytes product_id ! 0,
      u16_to_le_bytes product_id ! 1,
      u16_to_le_bytes device_version ! 0,
      u16_to_le_bytes device_version ! 1,
      manufacturer_string_index,
      product_string_index,
      serial_number_string_index,
      num_configurations]"

definition device_usb_version :: "DeviceDescriptor \<Rightarrow> u16 outcome" where
  "device_usb_version = field_u16 2"
definition device_class :: "DeviceDescriptor \<Rightarrow> u8 outcome" where
  "device_class = field_u8 4"
definition device_subclass :: "DeviceDescriptor \<Rightarrow> u8 outcome" where
  "device_subclass = field_u8 5"
definition device_protocol :: "DeviceDescriptor \<Rightarrow> u8 outcome" where
  "device_protocol = field_u8 6"
definition device_max_packet_size_0 :: "DeviceDescriptor \<Rightarrow> u8 outcome" where
  "device_max_packet_size_0 = field_u8 7"
definition device_vendor_id :: "DeviceDescriptor \<Rightarrow> u16 outcome" where
  "device_vendor_id = field_u16 8"
definition device_product_id :: "DeviceDescriptor \<Rightarrow> u16 outcome" where
  "device_product_id = field_u16 10"
definition device_device_version :: "DeviceDescriptor \<Rightarrow> u16 outcome" where
  "device_device_version = field_u16 12"
definition device_num_configurations :: "DeviceDescriptor \<Rightarrow> u8 outcome" where
  "device_num_configurations = field_u8 17"

definition device_manufacturer_string_index :: "DeviceDescriptor \<Rightarrow> u8 option outcome" where
  "device_manufacturer_string_index d = omap nonzero_u8 (field_u8 14 d)"
definition device_product_string_index :: "DeviceDescriptor \<Rightarrow> u8 option outcome" where
  "device_product_string_index d = omap nonzero_u8 (field_u8 15 d)"
definition device_serial_number_string_index :: "DeviceDescriptor \<Rightarrow> u8 option outcome" where
  "device_serial_number_string_index d = omap nonzero_u8 (field_u8 16 d)"

lemmas device_accessor_defs =
  device_usb_version_def device_class_def device_subclass_def device_protocol_def
  device_max_packet_size_0_def device_vendor_id_def device_product_id_def
  device_device_version_def device_num_configurations_def
  device_manufacturer_string_index_def device_product_string_index_def
  device_serial_number_string_index_def

section \<open>Configuration descriptors\<close>

type_synonym ConfigurationDescriptor = bytes

text \<open>The early returns in the order of the source; each index is guarded by the length check.\<close>

definition config_new :: "bytes \<Rightarrow> ConfigurationDescriptor option" where
  "config_new buf =
     (if length buf < unat DESCRIPTOR_LEN_CONFIGURATION then None
      else if buf ! 0 < DESCRIPTOR_LEN_CONFIGURATION then None
      else if buf ! 1 \<noteq> DESCRIPTOR_TYPE_CONFIGURATION then None
      else
        (let total_len = unat (u16_from_le_bytes (buf ! 2) (buf ! 3))
         in if total_len < unat (buf ! 0) \<or> total_len > length buf then None
            else Some (take total_len buf)))"

definition config_new_unchecked :: "bytes \<Rightarrow> ConfigurationDescriptor" where
  "config_new_unchecked d = d"

text \<open>\<open>&self.0[self.0[0] as usize..]\<close>, in all three descriptor types.\<close>

definition trailing_descriptors :: "bytes \<Rightarrow> bytes outcome" where
  "trailing_descriptors d = obind (index d 0) (\<lambda>l. slice_from d (unat l))"

definition config_descriptors :: "ConfigurationDescriptor \<Rightarrow> bytes outcome" where
  "config_descriptors d = trailing_descriptors d"

definition interface_alt_settings :: "ConfigurationDescriptor \<Rightarrow> bytes list outcome" where
  "interface_alt_settings d =
     obind (config_descriptors d)
       (split_by_type DESCRIPTOR_TYPE_INTERFACE DESCRIPTOR_LEN_INTERFACE)"

definition config_num_interfaces :: "ConfigurationDescriptor \<Rightarrow> u8 outcome" where
  "config_num_interfaces = field_u8 4"
definition config_configuration_value :: "ConfigurationDescriptor \<Rightarrow> u8 outcome" where
  "config_configuration_value = field_u8 5"
definition config_attributes :: "ConfigurationDescriptor \<Rightarrow> u8 outcome" where
  "config_attributes = field_u8 7"
definition config_max_power :: "ConfigurationDescriptor \<Rightarrow> u8 outcome" where
  "config_max_power = field_u8 8"
definition config_string_index :: "ConfigurationDescriptor \<Rightarrow> u8 option outcome" where
  "config_string_index d = omap nonzero_u8 (field_u8 6 d)"

lemmas config_accessor_defs =
  config_num_interfaces_def config_configuration_value_def config_attributes_def
  config_max_power_def config_string_index_def

section \<open>Interface descriptors\<close>

type_synonym InterfaceDescriptor = bytes

definition interface_descriptors :: "InterfaceDescriptor \<Rightarrow> bytes outcome" where
  "interface_descriptors d = trailing_descriptors d"

definition interface_endpoints :: "InterfaceDescriptor \<Rightarrow> bytes list outcome" where
  "interface_endpoints d =
     obind (interface_descriptors d) (split_by_type DESCRIPTOR_TYPE_ENDPOINT DESCRIPTOR_LEN_ENDPOINT)"

definition interface_number :: "InterfaceDescriptor \<Rightarrow> u8 outcome" where
  "interface_number = field_u8 2"
definition interface_alternate_setting :: "InterfaceDescriptor \<Rightarrow> u8 outcome" where
  "interface_alternate_setting = field_u8 3"
definition interface_num_endpoints :: "InterfaceDescriptor \<Rightarrow> u8 outcome" where
  "interface_num_endpoints = field_u8 4"
definition interface_class :: "InterfaceDescriptor \<Rightarrow> u8 outcome" where
  "interface_class = field_u8 5"
definition interface_subclass :: "InterfaceDescriptor \<Rightarrow> u8 outcome" where
  "interface_subclass = field_u8 6"
definition interface_protocol :: "InterfaceDescriptor \<Rightarrow> u8 outcome" where
  "interface_protocol = field_u8 7"
definition interface_string_index :: "InterfaceDescriptor \<Rightarrow> u8 option outcome" where
  "interface_string_index d = omap nonzero_u8 (field_u8 8 d)"

lemmas interface_accessor_defs =
  interface_number_def interface_alternate_setting_def interface_num_endpoints_def
  interface_class_def interface_subclass_def interface_protocol_def interface_string_index_def

text \<open>
  \<open>interfaces\<close>: the loop that groups the alternate settings by interface number in a \<open>BTreeMap\<close>
  (\<open>entry(n).or_insert_with(Vec::new).push(intf)\<close>), then the map in key order.
\<close>

record InterfaceDescriptors =
  ids_intf_number :: u8
  ids_interfaces :: "InterfaceDescriptor list"

definition btree_push :: "'k::linorder \<Rightarrow> 'v \<Rightarrow> ('k, 'v list) btree \<Rightarrow> ('k, 'v list) btree" where
  "btree_push k v m =
     btree_insert k ((case btree_get m k of None \<Rightarrow> [] | Some vs \<Rightarrow> vs) @ [v]) m"

fun group_interfaces ::
  "InterfaceDescriptor list \<Rightarrow> (u8, InterfaceDescriptor list) btree \<Rightarrow>
   (u8, InterfaceDescriptor list) btree outcome" where
  "group_interfaces [] m = Ret m"
| "group_interfaces (intf # rest) m =
     obind (interface_number intf) (\<lambda>n. group_interfaces rest (btree_push n intf m))"

definition config_interfaces :: "ConfigurationDescriptor \<Rightarrow> InterfaceDescriptors list outcome" where
  "config_interfaces d =
     obind (interface_alt_settings d) (\<lambda>alts.
     obind (group_interfaces alts []) (\<lambda>m.
       Ret (map (\<lambda>(n, intfs). \<lparr>ids_intf_number = n, ids_interfaces = intfs\<rparr>) m)))"

definition ids_interface_number :: "InterfaceDescriptors \<Rightarrow> u8" where
  "ids_interface_number i = ids_intf_number i"

definition ids_alt_settings :: "InterfaceDescriptors \<Rightarrow> InterfaceDescriptor list" where
  "ids_alt_settings i = ids_interfaces i"

definition ids_first_alt_setting :: "InterfaceDescriptors \<Rightarrow> InterfaceDescriptor outcome" where
  "ids_first_alt_setting i = index (ids_interfaces i) 0"

section \<open>Endpoint descriptors\<close>

type_synonym EndpointDescriptor = bytes

datatype TransferType = TControl | TIsochronous | TBulk | TInterrupt

definition endpoint_descriptors :: "EndpointDescriptor \<Rightarrow> bytes outcome" where
  "endpoint_descriptors d = trailing_descriptors d"

definition endpoint_address :: "EndpointDescriptor \<Rightarrow> u8 outcome" where
  "endpoint_address = field_u8 2"
definition endpoint_attributes :: "EndpointDescriptor \<Rightarrow> u8 outcome" where
  "endpoint_attributes = field_u8 3"
definition endpoint_max_packet_size_raw :: "EndpointDescriptor \<Rightarrow> u16 outcome" where
  "endpoint_max_packet_size_raw = field_u16 4"
definition endpoint_interval :: "EndpointDescriptor \<Rightarrow> u8 outcome" where
  "endpoint_interval = field_u8 6"

definition endpoint_direction :: "EndpointDescriptor \<Rightarrow> Direction outcome" where
  "endpoint_direction d = omap direction_from_address (endpoint_address d)"

definition endpoint_transfer_type :: "EndpointDescriptor \<Rightarrow> TransferType outcome" where
  "endpoint_transfer_type d =
     obind (endpoint_attributes d) (\<lambda>a.
       let t = a AND 0x03
       in if t = 0 then Ret TControl else if t = 1 then Ret TIsochronous
          else if t = 2 then Ret TBulk else if t = 3 then Ret TInterrupt
          else Panic)"

definition endpoint_max_packet_size :: "EndpointDescriptor \<Rightarrow> nat outcome" where
  "endpoint_max_packet_size d =
     omap (\<lambda>raw. unat (raw AND (push_bit 11 1 - 1))) (endpoint_max_packet_size_raw d)"

definition endpoint_packets_per_microframe :: "EndpointDescriptor \<Rightarrow> u8 outcome" where
  "endpoint_packets_per_microframe d =
     omap (\<lambda>raw. ucast (drop_bit 11 raw AND 3) + 1) (endpoint_max_packet_size_raw d)"

lemmas endpoint_accessor_defs =
  endpoint_address_def endpoint_attributes_def endpoint_max_packet_size_raw_def
  endpoint_interval_def

section \<open>Concatenated configuration descriptors\<close>

text \<open>The closure: the next configuration and the buffer behind it.\<close>

definition parse_config_next :: "bytes \<Rightarrow> (ConfigurationDescriptor option \<times> bytes) outcome" where
  "parse_config_next buf =
     (case config_new buf of
        None \<Rightarrow> Ret (None, buf)
      | Some desc \<Rightarrow> obind (slice_from buf (length desc)) (\<lambda>rest. Ret (Some desc, rest)))"

lemma config_new_SomeD:
  assumes "config_new buf = Some d"
  shows "9 \<le> length d" "9 \<le> unat (d ! 0)" "unat (d ! 0) \<le> length d" "d ! 1 = 2"
    "unat (u16_from_le_bytes (d ! 2) (d ! 3)) = length d" "d = take (length d) buf"
    "length d \<le> length buf"
proof -
  let ?t = "unat (u16_from_le_bytes (buf ! 2) (buf ! 3))"
  have c: "9 \<le> length buf" "\<not> buf ! 0 < 9" "buf ! 1 = 2" "unat (buf ! 0) \<le> ?t" "?t \<le> length buf"
    "d = take ?t buf"
    using assms by (auto simp: config_new_def descriptor_constants Let_def split: if_splits)
  have n: "9 \<le> unat (buf ! 0)" using c(2) by (simp add: word_less_nat_alt)
  with c have "length d = ?t" "9 \<le> ?t" by auto
  with c n show "9 \<le> length d" "9 \<le> unat (d ! 0)" "unat (d ! 0) \<le> length d" "d ! 1 = 2"
    "unat (u16_from_le_bytes (d ! 2) (d ! 3)) = length d" "d = take (length d) buf"
    "length d \<le> length buf" by auto
qed

lemma parse_config_next_eq:
  "parse_config_next buf =
     Ret (case config_new buf of None \<Rightarrow> (None, buf) | Some d \<Rightarrow> (Some d, drop (length d) buf))"
  by (auto simp: parse_config_next_def config_new_SomeD(7) split: option.splits)

function parse_concatenated_config_descriptors :: "bytes \<Rightarrow> ConfigurationDescriptor list outcome"
where
  "parse_concatenated_config_descriptors buf =
     (case parse_config_next buf of
        Ret (None, _) \<Rightarrow> Ret []
      | Ret (Some d, rest) \<Rightarrow>
          obind (parse_concatenated_config_descriptors rest) (\<lambda>ds. Ret (d # ds))
      | Panic \<Rightarrow> Panic | UB \<Rightarrow> UB | Diverge \<Rightarrow> Diverge)"
  by pat_completeness auto
termination
  by (relation "measure length")
    (auto simp: parse_config_next_eq split: option.splits,
      frule config_new_SomeD(1), frule config_new_SomeD(7), arith)

declare parse_concatenated_config_descriptors.simps [simp del]

end
