(* ===== verification/Errors.thy ===== *)
theory Errors
  imports Prelude
begin

text \<open>
  The error values of the crate: src/src/error.rs (\<open>Error\<close>, \<open>ErrorKind\<close>,
  \<open>ActiveConfigurationError\<close>, \<open>GetDescriptorError\<close>) and \<open>TransferError\<close> of
  src/src/transfer/mod.rs, with their conversions to \<open>std::io::Error\<close> and their messages.
  A \<open>std::io::Error\<close> is the kind of the error together with the value it wraps.
\<close>

section \<open>Kinds\<close>

datatype ErrorKind = KDisconnected | KBusy | KPermissionDenied | KNotFound | KUnsupported | KOther

text \<open>The values of \<open>std::io::ErrorKind\<close> that the crate uses.\<close>

datatype IoErrorKind =
    IoNotConnected | IoOther | IoPermissionDenied | IoNotFound | IoUnsupported | IoInterrupted
  | IoConnectionReset | IoConnectionAborted | IoInvalidInput | IoInvalidData | IoTimedOut
  | IoUnexpectedEof

section \<open>Transfer errors\<close>

datatype TransferError =
    Cancelled | Stall | Disconnected | Fault | InvalidArgument | UnknownError u32

section \<open>Error\<close>

text \<open>\<open>code\<close> is an \<open>Option<NonZeroU32>\<close>: \<open>NonZeroU32::new\<close> maps 0 to \<open>None\<close>.\<close>

record nusb_error =
  err_kind :: ErrorKind
  err_code :: "u32 option"
  err_message :: string

definition nonzero_u32 :: "u32 \<Rightarrow> u32 option" where
  "nonzero_u32 n = (if n = 0 then None else Some n)"

definition error_new :: "ErrorKind \<Rightarrow> string \<Rightarrow> nusb_error" where
  "error_new k m = \<lparr>err_kind = k, err_code = None, err_message = m\<rparr>"

definition os_error :: "nusb_error \<Rightarrow> u32 option" where
  "os_error e = err_code e"

text \<open>Decimal digits, as \<open>format!("{}", n)\<close> prints an unsigned integer.\<close>

fun dec_digits :: "nat \<Rightarrow> string" where
  "dec_digits n =
     (if n < 10 then [char_of (48 + n)] else dec_digits (n div 10) @ [char_of (48 + n mod 10)])"

declare dec_digits.simps [simp del]

text \<open>\<open>Display for Error\<close>; \<open>format_os_error_code\<close> is the platform's printer of error codes.\<close>

definition error_display :: "(u32 \<Rightarrow> string) \<Rightarrow> nusb_error \<Rightarrow> string" where
  "error_display format_os_error_code e =
     err_message e @
     (case err_code e of
        None \<Rightarrow> []
      | Some c \<Rightarrow> '' ('' @ format_os_error_code c @ '')'')"

section \<open>Errors of descriptor reads and of the active configuration\<close>

record ActiveConfigurationError =
  ac_configuration_value :: u8

datatype GetDescriptorError = GdTransfer TransferError | GdInvalidDescriptor

definition active_configuration_display :: "ActiveConfigurationError \<Rightarrow> string" where
  "active_configuration_display e =
     (if ac_configuration_value e = 0 then ''device is not configured''
      else ''no descriptor found for active configuration '' @
           dec_digits (unat (ac_configuration_value e)))"

definition error_of_active_configuration :: "ActiveConfigurationError \<Rightarrow> nusb_error" where
  "error_of_active_configuration e =
     error_new KOther
       (if ac_configuration_value e = 0 then ''device is not configured''
        else ''no descriptor found for active configuration'')"

section \<open>Conversions to std::io::Error\<close>

text \<open>What the \<open>io::Error\<close> wraps: one of the crate's errors, or a plain message.\<close>

datatype io_payload =
    PayError nusb_error
  | PayTransfer TransferError
  | PayActiveConfiguration ActiveConfigurationError
  | PayMessage string

record io_error =
  io_kind :: IoErrorKind
  io_payload :: io_payload

fun io_kind_of_kind :: "ErrorKind \<Rightarrow> IoErrorKind" where
  "io_kind_of_kind KDisconnected = IoNotConnected"
| "io_kind_of_kind KBusy = IoOther"
| "io_kind_of_kind KPermissionDenied = IoPermissionDenied"
| "io_kind_of_kind KNotFound = IoNotFound"
| "io_kind_of_kind KUnsupported = IoUnsupported"
| "io_kind_of_kind KOther = IoOther"

definition io_of_error :: "nusb_error \<Rightarrow> io_error" where
  "io_of_error e = \<lparr>io_kind = io_kind_of_kind (err_kind e), io_payload = PayError e\<rparr>"

fun io_kind_of_transfer_error :: "TransferError \<Rightarrow> IoErrorKind" where
  "io_kind_of_transfer_error Cancelled = IoInterrupted"
| "io_kind_of_transfer_error Stall = IoConnectionReset"
| "io_kind_of_transfer_error Disconnected = IoConnectionAborted"
| "io_kind_of_transfer_error Fault = IoOther"
| "io_kind_of_transfer_error InvalidArgument = IoInvalidInput"
| "io_kind_of_transfer_error (UnknownError n) = IoOther"

definition io_of_transfer_error :: "TransferError \<Rightarrow> io_error" where
  "io_of_transfer_error e =
     \<lparr>io_kind = io_kind_of_transfer_error e, io_payload = PayTransfer e\<rparr>"

definition io_of_active_configuration :: "ActiveConfigurationError \<Rightarrow> io_error" where
  "io_of_active_configuration e = \<lparr>io_kind = IoOther, io_payload = PayActiveConfiguration e\<rparr>"

fun io_of_get_descriptor_error :: "GetDescriptorError \<Rightarrow> io_error" where
  "io_of_get_descriptor_error (GdTransfer e) = io_of_transfer_error e"
| "io_of_get_descriptor_error GdInvalidDescriptor =
     \<lparr>io_kind = IoInvalidData, io_payload = PayMessage ''invalid descriptor''\<rparr>"

fun transfer_error_display :: "(u32 \<Rightarrow> string) \<Rightarrow> TransferError \<Rightarrow> string" where
  "transfer_error_display fmt Cancelled = ''transfer was cancelled''"
| "transfer_error_display fmt Stall = ''endpoint stalled''"
| "transfer_error_display fmt Disconnected = ''device disconnected''"
| "transfer_error_display fmt Fault = ''hardware fault or protocol violation''"
| "transfer_error_display fmt InvalidArgument = ''invalid or unsupported argument''"
| "transfer_error_display fmt (UnknownError n) = ''unknown ('' @ fmt n @ '')''"

fun get_descriptor_error_display :: "(u32 \<Rightarrow> string) \<Rightarrow> GetDescriptorError \<Rightarrow> string" where
  "get_descriptor_error_display fmt (GdTransfer e) = transfer_error_display fmt e"
| "get_descriptor_error_display fmt GdInvalidDescriptor = ''invalid descriptor''"

section \<open>Lemmas\<close>

lemma err_code_error_new [simp]: "err_code (error_new k m) = None"
  by (simp add: error_new_def)

lemma err_kind_error_new [simp]: "err_kind (error_new k m) = k"
  by (simp add: error_new_def)

text \<open>
  Only a cancellation becomes \<open>Interrupted\<close>, the kind the standard library retries on, and only
  a lost device becomes \<open>ConnectionAborted\<close>.
\<close>

lemma io_kind_interrupted_iff: "io_kind_of_transfer_error e = IoInterrupted \<longleftrightarrow> e = Cancelled"
  by (cases e) auto

lemma io_kind_aborted_iff:
  "io_kind_of_transfer_error e = IoConnectionAborted \<longleftrightarrow> e = Disconnected"
  by (cases e) auto

end
