(* ===== verification/Rust_Text.thy ===== *)
theory Rust_Text
  imports Errors
begin

text \<open>
  Strings and paths of the Rust standard library, as far as the enumeration code uses them. A \<open>str\<close> is
  its UTF-8 bytes, a list of 8-bit characters; a path is the same. Number parsing is
  \<open>from_str_radix\<close> and \<open>FromStr\<close> of the unsigned integers.
\<close>

section \<open>Trimming and splitting\<close>

text \<open>The UTF-8 encodings of the characters with the property \<open>White_Space\<close>.\<close>

definition white_space :: "string list" where
  "white_space =
     map (\<lambda>c. [c]) [CHR 0x09, CHR 0x0A, CHR 0x0B, CHR 0x0C, CHR 0x0D, CHR 0x20] @
     [[CHR 0xC2, CHR 0x85], [CHR 0xC2, CHR 0xA0], [CHR 0xE1, CHR 0x9A, CHR 0x80]] @
     map (\<lambda>c. [CHR 0xE2, CHR 0x80, c])
       [CHR 0x80, CHR 0x81, CHR 0x82, CHR 0x83, CHR 0x84, CHR 0x85, CHR 0x86, CHR 0x87, CHR 0x88,
        CHR 0x89, CHR 0x8A, CHR 0xA8, CHR 0xA9, CHR 0xAF] @
     [[CHR 0xE2, CHR 0x81, CHR 0x9F], [CHR 0xE3, CHR 0x80, CHR 0x80]]"

fun is_prefix :: "'a list \<Rightarrow> 'a list \<Rightarrow> bool" where
  "is_prefix [] ys = True"
| "is_prefix (x # xs) [] = False"
| "is_prefix (x # xs) (y # ys) = (x = y \<and> is_prefix xs ys)"

lemma is_prefix_eq: "is_prefix xs ys \<longleftrightarrow> (\<exists>zs. ys = xs @ zs)"
  by (induction xs ys rule: is_prefix.induct) auto

text \<open>Removes encodings of the list \<open>ws\<close> from the front as long as there are any.\<close>

function strip_front :: "string list \<Rightarrow> string \<Rightarrow> string" where
  "strip_front ws s =
     (case find (\<lambda>w. w \<noteq> [] \<and> is_prefix w s) ws of
        None \<Rightarrow> s
      | Some w \<Rightarrow> strip_front ws (drop (length w) s))"
  by pat_completeness auto
termination
proof (relation "measure (length \<circ> snd)")
  fix ws and s w :: string
  assume "find (\<lambda>w. w \<noteq> [] \<and> is_prefix w s) ws = Some w"
  then have "w \<noteq> [] \<and> is_prefix w s" by (auto simp: find_Some_iff)
  then show "((ws, drop (length w) s), ws, s) \<in> measure (length \<circ> snd)"
    by (cases w; cases s) auto
qed simp

declare strip_front.simps [simp del]

definition trim :: "string \<Rightarrow> string" where
  "trim s = rev (strip_front (map rev white_space) (rev (strip_front white_space s)))"

definition strip_prefix :: "string \<Rightarrow> string \<Rightarrow> string option" where
  "strip_prefix p s = (if is_prefix p s then Some (drop (length p) s) else None)"

text \<open>\<open>str::split\<close> with a single ASCII character, or a slice's \<open>split\<close>: always at least one piece.\<close>

fun split_on :: "'a \<Rightarrow> 'a list \<Rightarrow> 'a list list" where
  "split_on c [] = [[]]"
| "split_on c (x # xs) =
     (if x = c then [] # split_on c xs
      else case split_on c xs of p # ps \<Rightarrow> (x # p) # ps | [] \<Rightarrow> [[x]])"

fun split_once :: "'a \<Rightarrow> 'a list \<Rightarrow> ('a list \<times> 'a list) option" where
  "split_once c [] = None"
| "split_once c (x # xs) =
     (if x = c then Some ([], xs) else map_option (\<lambda>(k, v). (x # k, v)) (split_once c xs))"

fun trim_start_matches :: "'a \<Rightarrow> 'a list \<Rightarrow> 'a list" where
  "trim_start_matches c [] = []"
| "trim_start_matches c (x # xs) = (if x = c then trim_start_matches c xs else x # xs)"

section \<open>UTF-8\<close>

text \<open>\<open>str::from_utf8\<close> accepts exactly this; \<open>in_range\<close> is a test of one byte.\<close>

definition in_range :: "int \<Rightarrow> int \<Rightarrow> char \<Rightarrow> bool" where
  "in_range a b c \<longleftrightarrow> a \<le> of_char c \<and> of_char c \<le> b"

abbreviation continuation :: "char \<Rightarrow> bool" where
  "continuation \<equiv> in_range 0x80 0xBF"

definition second_of_three :: "char \<Rightarrow> char \<Rightarrow> bool" where
  "second_of_three a b \<longleftrightarrow>
     in_range 0xE0 0xE0 a \<and> in_range 0xA0 0xBF b \<or> in_range 0xE1 0xEC a \<and> continuation b \<or>
     in_range 0xED 0xED a \<and> in_range 0x80 0x9F b \<or> in_range 0xEE 0xEF a \<and> continuation b"

definition second_of_four :: "char \<Rightarrow> char \<Rightarrow> bool" where
  "second_of_four a b \<longleftrightarrow>
     in_range 0xF0 0xF0 a \<and> in_range 0x90 0xBF b \<or> in_range 0xF1 0xF3 a \<and> continuation b \<or>
     in_range 0xF4 0xF4 a \<and> in_range 0x80 0x8F b"

fun valid_utf8 :: "string \<Rightarrow> bool" where
  "valid_utf8 [] = True"
| "valid_utf8 (a # s) =
     (if in_range 0 0x7F a then valid_utf8 s
      else
        case s of
          [] \<Rightarrow> False
        | b # t \<Rightarrow>
            if in_range 0xC2 0xDF a then continuation b \<and> valid_utf8 t
            else
              case t of
                [] \<Rightarrow> False
              | c # u \<Rightarrow>
                  if second_of_three a b then continuation c \<and> valid_utf8 u
                  else
                    case u of
                      [] \<Rightarrow> False
                    | d # v \<Rightarrow> second_of_four a b \<and> continuation c \<and> continuation d \<and> valid_utf8 v)"

lemma valid_utf8_ascii: "list_all (in_range 0 0x7F) s \<Longrightarrow> valid_utf8 s"
  by (induction s) auto

section \<open>Unsigned integers\<close>

definition to_digit :: "int \<Rightarrow> char \<Rightarrow> int option" where
  "to_digit radix c =
     (let n = of_char c;
          d = (if 48 \<le> n \<and> n \<le> 57 then n - 48
               else if 97 \<le> n \<and> n \<le> 122 then n - 87
               else if 65 \<le> n \<and> n \<le> 90 then n - 55
               else radix)
      in if d < radix then Some d else None)"

text \<open>\<open>checked_mul\<close> and \<open>checked_add\<close> in every step; \<open>limit\<close> is the largest value.\<close>

fun parse_digits :: "int \<Rightarrow> int \<Rightarrow> int \<Rightarrow> string \<Rightarrow> int option" where
  "parse_digits radix limit acc [] = Some acc"
| "parse_digits radix limit acc (c # cs) =
     (case to_digit radix c of
        None \<Rightarrow> None
      | Some d \<Rightarrow>
          if acc * radix > limit then None
          else if acc * radix + d > limit then None
          else parse_digits radix limit (acc * radix + d) cs)"

text \<open>A leading plus sign is skipped if something follows it.\<close>

definition skip_plus :: "string \<Rightarrow> string option" where
  "skip_plus s =
     (case s of
        [] \<Rightarrow> None
      | c # cs \<Rightarrow>
          if (c = CHR ''+'' \<or> c = CHR ''-'') \<and> cs = [] then None
          else if c = CHR ''+'' then Some cs
          else Some s)"

definition from_str_radix :: "int \<Rightarrow> string \<Rightarrow> 'w::len word option" where
  "from_str_radix radix s =
     (case skip_plus s of
        None \<Rightarrow> None
      | Some digits \<Rightarrow>
          map_option word_of_int (parse_digits radix (2 ^ LENGTH('w) - 1) 0 digits))"

section \<open>Paths\<close>

text \<open>\<open>Path::join\<close> on Unix: an absolute path replaces the first one.\<close>

definition path_join :: "string \<Rightarrow> string \<Rightarrow> string" where
  "path_join p q =
     (if is_prefix ''/'' q \<or> p = [] then q
      else if last p = CHR ''/'' then p @ q
      else p @ ''/'' @ q)"

text \<open>The components other than \<open>.\<close>; \<open>file_name\<close> is the last one unless it is \<open>..\<close>.\<close>

definition path_components :: "string \<Rightarrow> string list" where
  "path_components p = filter (\<lambda>c. c \<noteq> [] \<and> c \<noteq> ''.'') (split_on (CHR ''/'') p)"

definition file_name :: "string \<Rightarrow> string option" where
  "file_name p =
     (case rev (path_components p) of
        [] \<Rightarrow> None
      | c # _ \<Rightarrow> if c = ''..'' then None else Some c)"

text \<open>The parent of an absolute path, without its trailing slash.\<close>

fun slash_join :: "string list \<Rightarrow> string" where
  "slash_join [] = []"
| "slash_join [c] = c"
| "slash_join (c # cs) = c @ ''/'' @ slash_join cs"

definition path_parent :: "string \<Rightarrow> string option" where
  "path_parent p =
     (case rev (path_components p) of
        [] \<Rightarrow> None
      | c # cs \<Rightarrow> Some (''/'' @ slash_join (rev cs)))"

section \<open>What parsing accepts\<close>

fun digits_of :: "int \<Rightarrow> string \<Rightarrow> int list option" where
  "digits_of radix [] = Some []"
| "digits_of radix (c # cs) =
     (case to_digit radix c of
        None \<Rightarrow> None
      | Some d \<Rightarrow> map_option (\<lambda>ds. d # ds) (digits_of radix cs))"

definition horner :: "int \<Rightarrow> int \<Rightarrow> int list \<Rightarrow> int" where
  "horner radix acc ds = foldl (\<lambda>a d. a * radix + d) acc ds"

lemma horner_simps [simp]:
  "horner radix acc [] = acc" "horner radix acc (d # ds) = horner radix (acc * radix + d) ds"
  by (simp_all add: horner_def)

lemma to_digit_range: "to_digit radix c = Some d \<Longrightarrow> 0 < radix \<Longrightarrow> 0 \<le> d \<and> d < radix"
  by (auto simp: to_digit_def Let_def split: if_splits)

lemma digits_of_range:
  "digits_of radix s = Some ds \<Longrightarrow> 0 < radix \<Longrightarrow> d \<in> set ds \<Longrightarrow> 0 \<le> d \<and> d < radix"
  by (induction s arbitrary: ds) (auto split: option.splits dest: to_digit_range)

lemma horner_mono:
  assumes "1 \<le> radix" "0 \<le> acc" "\<And>d. d \<in> set ds \<Longrightarrow> 0 \<le> d"
  shows "acc \<le> horner radix acc ds"
  using assms(2,3)
proof (induction ds arbitrary: acc)
  case (Cons d ds)
  have m: "acc * 1 \<le> acc * radix" by (rule mult_left_mono [OF assms(1) Cons.prems(1)])
  have d: "0 \<le> d" using Cons.prems(2) by simp
  have "acc * radix + d \<le> horner radix (acc * radix + d) ds"
    using Cons.IH [of "acc * radix + d"] Cons.prems m d by simp
  with m d show ?case by simp
qed simp

lemma parse_digits_eq:
  assumes "1 \<le> radix" "0 \<le> acc" "acc \<le> limit"
  shows "parse_digits radix limit acc s =
    (case digits_of radix s of
       None \<Rightarrow> None
     | Some ds \<Rightarrow> if horner radix acc ds \<le> limit then Some (horner radix acc ds) else None)"
  using assms(2,3)
proof (induction s arbitrary: acc)
  case (Cons c s)
  show ?case
  proof (cases "to_digit radix c")
    case (Some d)
    then have d: "0 \<le> d" using to_digit_range assms(1) by force
    have p: "0 \<le> acc * radix" using assms(1) Cons.prems(1) by simp
    show ?thesis
    proof (cases "acc * radix + d \<le> limit")
      case True
      then have "acc * radix \<le> limit" using d by linarith
      moreover have "0 \<le> acc * radix + d" using p d by linarith
      ultimately have step: "parse_digits radix limit acc (c # s) = parse_digits radix limit (acc * radix + d) s"
        using Some True by (simp del: mult_le_cancel_right mult_le_cancel_left)
      have "0 \<le> acc * radix + d" using p d by linarith
      from Cons.IH [OF this True] show ?thesis unfolding step
        by (cases "digits_of radix s") (simp_all add: Some)
    next
      case False
      show ?thesis
      proof (cases "digits_of radix s")
        case None
        have "parse_digits radix limit acc (c # s) = None"
          using \<open>to_digit radix c = Some d\<close> False by simp
        with None show ?thesis by (simp add: \<open>to_digit radix c = Some d\<close>)
      next
        case (Some ds)
        have "acc * radix + d \<le> horner radix (acc * radix + d) ds"
        proof (rule horner_mono [OF assms(1)])
          show "0 \<le> acc * radix + d" using p d by linarith
          show "0 \<le> x" if "x \<in> set ds" for x using digits_of_range [OF Some _ that] assms(1) by force
        qed
        then have "\<not> horner radix (acc * radix + d) ds \<le> limit" using False by linarith
        moreover have "parse_digits radix limit acc (c # s) = None"
          using \<open>to_digit radix c = Some d\<close> False by simp
        ultimately show ?thesis using Some by (simp add: \<open>to_digit radix c = Some d\<close>)
      qed
    qed
  qed simp
qed simp

lemma horner_nonneg:
  "digits_of radix s = Some ds \<Longrightarrow> 1 \<le> radix \<Longrightarrow> 0 \<le> horner radix 0 ds"
  by (rule horner_mono) (use digits_of_range [of radix s ds] in auto)

lemma from_str_radix_eq:
  assumes "1 \<le> radix"
  shows "(from_str_radix radix s :: 'w::len word option) =
    (case skip_plus s of
       None \<Rightarrow> None
     | Some digits \<Rightarrow>
         (case digits_of radix digits of
            None \<Rightarrow> None
          | Some ds \<Rightarrow>
              if horner radix 0 ds < 2 ^ LENGTH('w) then Some (word_of_int (horner radix 0 ds)) else None))"
  using assms by (auto simp: from_str_radix_def parse_digits_eq split: option.splits)

text \<open>
  Parsing an unsigned integer of any width never wraps around: it succeeds exactly on a nonempty
  sequence of digits of the radix, after at most one plus sign, whose value fits the type, and gives
  that value; everything else, a larger value included, is an error.
\<close>

theorem from_str_radix_exact:
  assumes "1 \<le> radix"
  shows "(from_str_radix radix s :: 'w::len word option) = Some w \<longleftrightarrow>
    (\<exists>digits ds. (digits = s \<or> s = CHR ''+'' # digits) \<and> digits \<noteq> [] \<and> digits_of radix digits = Some ds \<and>
      uint w = horner radix 0 ds)"
proof -
  have pm: "to_digit radix (CHR ''+'') = None" "to_digit radix (CHR ''-'') = None"
    by (simp_all add: to_digit_def)
  have skip: "skip_plus s = Some digits \<and> digits_of radix digits = Some ds \<longleftrightarrow>
      (digits = s \<or> s = CHR ''+'' # digits) \<and> digits \<noteq> [] \<and> digits_of radix digits = Some ds" for digits ds
    using pm by (cases s) (auto simp: skip_plus_def split: option.splits)
  have val: "(if horner radix 0 ds < 2 ^ LENGTH('w) then Some (word_of_int (horner radix 0 ds)) else None) =
      Some w \<longleftrightarrow> uint w = horner radix 0 ds" if "digits_of radix digits = Some ds" for digits ds
    using horner_nonneg [OF that assms] by (auto simp: unsigned_of_int take_bit_int_eq_self word_of_int_uint)
      (metis word_of_int_uint, metis uint_lt2p)
  have "(from_str_radix radix s :: 'w::len word option) = Some w \<longleftrightarrow>
      (\<exists>digits ds. skip_plus s = Some digits \<and> digits_of radix digits = Some ds \<and> uint w = horner radix 0 ds)"
    using val by (auto simp: from_str_radix_eq [OF assms] split: option.splits)
  with skip show ?thesis by blast
qed

theorem from_str_radix_exact_witness:
  "from_str_radix 10 ''255'' = Some (255 :: u8) \<and> from_str_radix 10 ''256'' \<noteq> Some (w :: u8)"
proof -
  have "from_str_radix 10 ''255'' = Some (255 :: u8)"
    by (subst from_str_radix_exact) (simp_all add: to_digit_def)
  moreover have "(from_str_radix 10 ''256'' :: u8 option) = None" by code_simp
  ultimately show ?thesis by simp
qed

section \<open>Printing\<close>

text \<open>How the kernel and \<open>format!\<close> print unsigned integers, with zeros up to a width.\<close>

definition digit_char :: "nat \<Rightarrow> char" where
  "digit_char d = (if d < 10 then char_of (48 + d) else char_of (87 + d))"

fun radix_digits :: "nat \<Rightarrow> nat \<Rightarrow> string" where
  "radix_digits r n =
     (if n < r \<or> r < 2 then [digit_char n] else radix_digits r (n div r) @ [digit_char (n mod r)])"

declare radix_digits.simps [simp del]

definition pad_zeros :: "nat \<Rightarrow> string \<Rightarrow> string" where
  "pad_zeros width s = replicate (width - length s) (CHR ''0'') @ s"

lemma radix_digits_10: "radix_digits 10 n = dec_digits n"
proof (induction n rule: dec_digits.induct)
  case (1 n)
  then show ?case by (subst radix_digits.simps, subst dec_digits.simps) (simp add: digit_char_def)
qed

lemma of_char_int: "k < 256 \<Longrightarrow> (of_char (char_of k) :: int) = int k"
  by (metis of_char_of of_nat_of_char mod_less)

lemma to_digit_char: "n < r \<Longrightarrow> r \<le> 16 \<Longrightarrow> to_digit (int r) (digit_char n) = Some (int n)"
  using of_char_int [of "48 + n"] of_char_int [of "87 + n"]
  by (cases "n < 10") (simp_all add: to_digit_def digit_char_def Let_def)

lemma digits_of_append:
  "digits_of r (s @ t) =
    (case digits_of r s of
       None \<Rightarrow> None
     | Some a \<Rightarrow> (case digits_of r t of None \<Rightarrow> None | Some b \<Rightarrow> Some (a @ b)))"
  by (induction s) (auto split: option.splits)

lemma horner_append: "horner r a (ds @ es) = horner r (horner r a ds) es"
  by (simp add: horner_def)

lemma radix_digits_value:
  assumes "2 \<le> r" "r \<le> 16"
  shows "\<exists>ds. digits_of (int r) (radix_digits r n) = Some ds \<and> horner (int r) 0 ds = int n"
proof (induction n rule: less_induct)
  case (less n)
  show ?case
  proof (cases "n < r")
    case True
    with assms show ?thesis by (subst (1) radix_digits.simps) (simp add: to_digit_char)
  next
    case False
    then have "n div r < n" using assms by (intro div_less_dividend) auto
    from less [OF this] obtain ds where
      ds: "digits_of (int r) (radix_digits r (n div r)) = Some ds" "horner (int r) 0 ds = int (n div r)" by blast
    have "n mod r < r" using assms by simp
    with ds assms False show ?thesis
      by (subst (1) radix_digits.simps)
        (simp add: digits_of_append to_digit_char horner_append flip: of_nat_mult of_nat_add)
  qed
qed

lemma pad_zeros_value:
  assumes "2 \<le> r" "digits_of r s = Some ds"
  shows "\<exists>es. digits_of r (pad_zeros width s) = Some es \<and> horner r 0 es = horner r 0 ds"
proof -
  have z: "to_digit r (CHR ''0'') = Some 0" using assms(1) by (simp add: to_digit_def)
  have "\<exists>es. digits_of r (replicate k (CHR ''0'') @ s) = Some es \<and> horner r 0 es = horner r 0 ds" for k
  proof (induction k)
    case (Suc k)
    then obtain es where "digits_of r (replicate k (CHR ''0'') @ s) = Some es" "horner r 0 es = horner r 0 ds" by blast
    with z show ?case by auto
  qed (simp add: assms)
  then show ?thesis by (simp add: pad_zeros_def)
qed

lemma radix_digits_not_Nil: "radix_digits r n \<noteq> []"
  by (subst radix_digits.simps) simp

lemma parse_printed:
  assumes "2 \<le> r" "r \<le> 16" "n < 2 ^ LENGTH('w)"
  shows "from_str_radix (int r) (pad_zeros width (radix_digits r n)) = Some (of_nat n :: 'w::len word)"
proof -
  from radix_digits_value [OF assms(1,2)] obtain ds where
    "digits_of (int r) (radix_digits r n) = Some ds" "horner (int r) 0 ds = int n" by blast
  with pad_zeros_value [of "int r" "radix_digits r n" ds width] assms(1) obtain es where
    es: "digits_of (int r) (pad_zeros width (radix_digits r n)) = Some es" "horner (int r) 0 es = int n" by auto
  have "pad_zeros width (radix_digits r n) \<noteq> []" by (simp add: pad_zeros_def radix_digits_not_Nil)
  moreover have "uint (of_nat n :: 'w word) = int n"
    using assms(3) by (simp add: unsigned_of_nat take_bit_nat_eq_self)
  ultimately show ?thesis
    using es assms(1) by (subst from_str_radix_exact) auto
qed

text \<open>Trimming what is printed.\<close>

definition plain :: "char \<Rightarrow> bool" where
  "plain c \<longleftrightarrow> 33 \<le> (of_char c :: nat) \<and> (of_char c :: nat) \<le> 126"

lemma strip_front_plain:
  assumes "list_all (\<lambda>w. w \<noteq> [] \<longrightarrow> hd w \<noteq> c) ws"
  shows "strip_front ws (c # s) = c # s"
proof -
  have "find (\<lambda>w. w \<noteq> [] \<and> is_prefix w (c # s)) ws = None"
    using assms by (auto simp: find_None_iff list_all_iff is_prefix_eq) (metis append_Cons list.sel(1) neq_Nil_conv)
  then show ?thesis by (subst strip_front.simps) simp
qed

lemma white_space_heads:
  "plain c \<Longrightarrow> list_all (\<lambda>w. w \<noteq> [] \<longrightarrow> hd w \<noteq> c) white_space"
  "plain c \<Longrightarrow> list_all (\<lambda>w. w \<noteq> [] \<longrightarrow> hd w \<noteq> c) (map rev white_space)"
  by (auto simp: white_space_def plain_def)

lemma strip_front_step:
  assumes "find (\<lambda>w. w \<noteq> [] \<and> is_prefix w (c # s)) ws = Some [c]"
  shows "strip_front ws (c # s) = strip_front ws s"
  using assms by (subst strip_front.simps) simp

lemma strip_front_blank:
  "strip_front white_space (CHR '' '' # s) = strip_front white_space s"
  "strip_front (map rev white_space) (CHR ''\<newline>'' # s) = strip_front (map rev white_space) s"
  by (rule strip_front_step; simp add: white_space_def)+

definition plain_ends :: "string \<Rightarrow> bool" where
  "plain_ends s \<longleftrightarrow> s \<noteq> [] \<and> plain (hd s) \<and> plain (last s)"

lemma strip_both_plain:
  assumes "plain_ends s"
  shows "strip_front white_space (s @ t) = s @ t"
    "strip_front (map rev white_space) (rev (u @ s)) = rev (u @ s)"
proof -
  from assms obtain a x where a: "s = a # x" "plain a" by (cases s) (auto simp: plain_ends_def)
  from assms obtain y b where b: "s = y @ [b]" "plain b"
    by (cases s rule: rev_cases) (auto simp: plain_ends_def)
  show "strip_front white_space (s @ t) = s @ t"
    using strip_front_plain [OF white_space_heads(1) [OF a(2)]] a(1) by simp
  show "strip_front (map rev white_space) (rev (u @ s)) = rev (u @ s)"
    using strip_front_plain [OF white_space_heads(2) [OF b(2)]] b(1) by simp
qed

text \<open>Spaces in front and line feeds at the end disappear.\<close>

lemma trim_printed:
  assumes "plain_ends s"
  shows "trim (replicate m (CHR '' '') @ s @ replicate n (CHR ''\<newline>'')) = s"
proof -
  have f: "strip_front white_space (replicate m (CHR '' '') @ t) = strip_front white_space t" for t
    by (induction m) (simp_all add: strip_front_blank)
  have b: "strip_front (map rev white_space) (replicate n (CHR ''\<newline>'') @ t) =
      strip_front (map rev white_space) t" for t
    by (induction n) (simp_all add: strip_front_blank)
  show ?thesis
    using strip_both_plain(2) [OF assms, of "[]"] strip_both_plain(1) [OF assms]
    by (simp add: trim_def f b)
qed

end
