(* ===== verification/Descriptor_Debug.thy ===== *)
theory Descriptor_Debug
  imports Descriptors Rust_Text
begin

text \<open>
  The \<open>Debug\<close> output of descriptors (src/src/descriptors.rs), as \<open>{:?}\<close> prints it: it runs all accessors
  and iterators of a configuration, so a panic in one of them would be a panic of a log statement.
\<close>

section \<open>Formatters of the standard library\<close>

text \<open>The items with a separator between them.\<close>

fun separated :: "string \<Rightarrow> string list \<Rightarrow> string" where
  "separated sep [] = []"
| "separated sep [s] = s"
| "separated sep (s # ss) = s @ sep @ separated sep ss"

text \<open>\<open>debug_struct\<close> with at least one field, and \<open>debug_list\<close>; the fields are printed in order.\<close>

definition debug_struct :: "string \<Rightarrow> (string \<times> string outcome) list \<Rightarrow> string outcome" where
  "debug_struct name fs =
     omap (\<lambda>ss. name @ '' { '' @ separated '', '' ss @ '' }'')
       (omap_list (\<lambda>(k, v). omap (\<lambda>s. k @ '': '' @ s) v) fs)"

definition debug_list :: "('a \<Rightarrow> string outcome) \<Rightarrow> 'a list outcome \<Rightarrow> string outcome" where
  "debug_list f items =
     obind items (\<lambda>xs. omap (\<lambda>ss. ''['' @ separated '', '' ss @ '']'') (omap_list f xs))"

definition debug_nat :: "nat \<Rightarrow> string" where
  "debug_nat n = radix_digits 10 n"

definition debug_u8 :: "u8 \<Rightarrow> string" where
  "debug_u8 w = debug_nat (unat w)"

definition debug_option :: "('a \<Rightarrow> string) \<Rightarrow> 'a option \<Rightarrow> string" where
  "debug_option f x = (case x of None \<Rightarrow> ''None'' | Some y \<Rightarrow> ''Some('' @ f y @ '')'')"

text \<open>\<open>0x{:02X}\<close> and \<open>0x{:04X}\<close>\<close>

definition upper_digit :: "char \<Rightarrow> char" where
  "upper_digit c = (if 97 \<le> (of_char c :: nat) then char_of (of_char c - 32 :: nat) else c)"

definition format_hex :: "nat \<Rightarrow> ('a::len) word \<Rightarrow> string" where
  "format_hex width w = ''0x'' @ pad_zeros width (map upper_digit (radix_digits 16 (unat w)))"

section \<open>Descriptors\<close>

fun debug_direction :: "Direction \<Rightarrow> string" where
  "debug_direction Out = ''Out''"
| "debug_direction In = ''In''"

fun debug_transfer_type :: "TransferType \<Rightarrow> string" where
  "debug_transfer_type TControl = ''Control''"
| "debug_transfer_type TIsochronous = ''Isochronous''"
| "debug_transfer_type TBulk = ''Bulk''"
| "debug_transfer_type TInterrupt = ''Interrupt''"

definition device_debug :: "DeviceDescriptor \<Rightarrow> string outcome" where
  "device_debug d =
     debug_struct ''DeviceDescriptor''
       [(''usb_version'', omap (format_hex 4) (device_usb_version d)),
        (''class'', omap (format_hex 2) (device_class d)),
        (''subclass'', omap (format_hex 2) (device_subclass d)),
        (''protocol'', omap (format_hex 2) (device_protocol d)),
        (''max_packet_size_0'', omap debug_u8 (device_max_packet_size_0 d)),
        (''vendor_id'', omap (format_hex 4) (device_vendor_id d)),
        (''product_id'', omap (format_hex 4) (device_product_id d)),
        (''device_version'', omap (format_hex 4) (device_device_version d)),
        (''manufacturer_string_index'', omap (debug_option debug_u8) (device_manufacturer_string_index d)),
        (''product_string_index'', omap (debug_option debug_u8) (device_product_string_index d)),
        (''serial_number_string_index'', omap (debug_option debug_u8) (device_serial_number_string_index d)),
        (''num_configurations'', omap debug_u8 (device_num_configurations d))]"

definition endpoint_debug :: "EndpointDescriptor \<Rightarrow> string outcome" where
  "endpoint_debug e =
     debug_struct ''Endpoint''
       [(''address'', omap (format_hex 2) (endpoint_address e)),
        (''direction'', omap debug_direction (endpoint_direction e)),
        (''transfer_type'', omap debug_transfer_type (endpoint_transfer_type e)),
        (''max_packet_size'', omap debug_nat (endpoint_max_packet_size e)),
        (''packets_per_microframe'', omap debug_u8 (endpoint_packets_per_microframe e)),
        (''interval'', omap debug_u8 (endpoint_interval e))]"

definition interface_debug :: "InterfaceDescriptor \<Rightarrow> string outcome" where
  "interface_debug i =
     debug_struct ''InterfaceAltSetting''
       [(''interface_number'', omap debug_u8 (interface_number i)),
        (''alternate_setting'', omap debug_u8 (interface_alternate_setting i)),
        (''num_endpoints'', omap debug_u8 (interface_num_endpoints i)),
        (''class'', omap debug_u8 (interface_class i)),
        (''subclass'', omap debug_u8 (interface_subclass i)),
        (''protocol'', omap debug_u8 (interface_protocol i)),
        (''string_index'', omap (debug_option debug_u8) (interface_string_index i)),
        (''endpoints'', debug_list endpoint_debug (interface_endpoints i))]"

definition config_debug :: "ConfigurationDescriptor \<Rightarrow> string outcome" where
  "config_debug c =
     debug_struct ''Configuration''
       [(''configuration_value'', omap debug_u8 (config_configuration_value c)),
        (''num_interfaces'', omap debug_u8 (config_num_interfaces c)),
        (''attributes'', omap debug_u8 (config_attributes c)),
        (''max_power'', omap debug_u8 (config_max_power c)),
        (''string_index'', omap (debug_option debug_u8) (config_string_index c)),
        (''interface_alt_settings'', debug_list interface_debug (interface_alt_settings c))]"

section \<open>Printing returns when the accessors do\<close>

lemma is_ret_omap [simp]: "is_ret (omap f m) = is_ret m"
  by (cases m) auto

lemma is_ret_omap_list [simp]: "is_ret (omap_list f xs) \<longleftrightarrow> list_all (\<lambda>x. is_ret (f x)) xs"
proof (induction xs)
  case (Cons x xs)
  then show ?case by (cases "f x"; cases "omap_list f xs") auto
qed simp

lemma is_ret_debug_struct [simp]: "is_ret (debug_struct name fs) \<longleftrightarrow> list_all (\<lambda>(k, v). is_ret v) fs"
  by (simp add: debug_struct_def case_prod_unfold)

lemma is_ret_debug_list [simp]: "is_ret (debug_list f (Ret xs)) \<longleftrightarrow> list_all (\<lambda>x. is_ret (f x)) xs"
  by (simp add: debug_list_def)

text \<open>The root hub of the tests of the source.\<close>

lemma root_hub_debug:
  "config_debug
     [0x09, 0x02, 0x19, 0x00, 0x01, 0x01, 0x00, 0xe0, 0x00,
      0x09, 0x04, 0x00, 0x00, 0x01, 0x09, 0x00, 0x00, 0x00,
      0x07, 0x05, 0x81, 0x03, 0x04, 0x00, 0x0c] =
   Ret (''Configuration { configuration_value: 1, num_interfaces: 1, attributes: 224, max_power: 0, '' @
     ''string_index: None, interface_alt_settings: [InterfaceAltSetting { interface_number: 0, '' @
     ''alternate_setting: 0, num_endpoints: 1, class: 9, subclass: 0, protocol: 0, string_index: None, '' @
     ''endpoints: [Endpoint { address: 0x81, direction: In, transfer_type: Interrupt, max_packet_size: 4, '' @
     ''packets_per_microframe: 1, interval: 12 }] }] }'')"
  by code_simp

end
