(* ===== verification/Descriptor_Theorems.thy ===== *)
theory Descriptor_Theorems
  imports Descriptor_Debug
begin

text \<open>
  What the descriptor parser guarantees: the iterator cuts a buffer into whole descriptors, the
  grouping iterator \<open>split_by_type\<close> finds every descriptor of its type with the descriptors that
  follow it, no accessor of a parsed configuration can panic, and device descriptors and
  concatenated configurations survive a round trip.
\<close>

section \<open>Chains of whole descriptors\<close>

definition desc_ok :: "bytes \<Rightarrow> bool" where
  "desc_ok d \<longleftrightarrow> 2 \<le> length d \<and> unat (d ! 0) = length d"

lemma split_first_append: "desc_ok d \<Longrightarrow> split_first (d @ r) = Some (d, r)"
  by (cases d) (auto simp: desc_ok_def split_first_def word_less_nat_alt)

lemma split_first_SomeE:
  assumes "split_first b = Some (cur, rest)"
  shows "desc_ok cur" "b = cur @ rest" "b ! 0 = cur ! 0" "b ! 1 = cur ! 1"
proof -
  note d = split_first_SomeD [OF assms]
  show c: "desc_ok cur" using d by (auto simp: desc_ok_def)
  show b: "b = cur @ rest" using d by simp
  show "b ! 0 = cur ! 0" "b ! 1 = cur ! 1" using c by (auto simp: b desc_ok_def nth_append)
qed

lemma descriptor_list_rec:
  "descriptor_list b =
     (case split_first b of None \<Rightarrow> [] | Some (cur, rest) \<Rightarrow> cur # descriptor_list rest)"
  by (subst descriptor_list.simps) (auto simp: descriptor_iter_next_def split: option.splits)

lemma descriptor_list_append: "desc_ok d \<Longrightarrow> descriptor_list (d @ r) = d # descriptor_list r"
  by (subst descriptor_list_rec) (simp add: split_first_append)

lemma descriptor_list_Nil [simp]: "descriptor_list [] = []"
  by (subst descriptor_list_rec) (simp add: split_first_def)

lemma descriptor_list_concat:
  "\<forall>d \<in> set ds. desc_ok d \<Longrightarrow> descriptor_list (concat ds @ r) = ds @ descriptor_list r"
  by (induction ds) (auto simp: descriptor_list_append)

lemma descriptor_list_concat_Nil: "\<forall>d \<in> set ds. desc_ok d \<Longrightarrow> descriptor_list (concat ds) = ds"
  using descriptor_list_concat [of ds "[]"] by simp

lemma descriptor_list_cut:
  "\<exists>tail. b = concat (descriptor_list b) @ tail \<and> split_first tail = None \<and>
     (\<forall>d \<in> set (descriptor_list b). desc_ok d)"
proof (induction "length b" arbitrary: b rule: less_induct)
  case less
  show ?case
  proof (cases "split_first b")
    case None
    then show ?thesis by (subst (1 2) descriptor_list_rec) simp
  next
    case (Some p)
    obtain cur rest where p: "p = (cur, rest)" by (cases p)
    note c = split_first_SomeE [OF Some [unfolded p]]
    have "length rest < length b" using Some p by (auto dest: split_first_shrinks)
    from less [OF this] obtain tail where t: "rest = concat (descriptor_list rest) @ tail"
      "split_first tail = None" "\<forall>d \<in> set (descriptor_list rest). desc_ok d" by blast
    have dl: "descriptor_list b = cur # descriptor_list rest"
      by (subst descriptor_list_rec) (simp add: Some p)
    have "b = concat (descriptor_list b) @ tail"
      unfolding dl using c(2) t(1) by (metis append.assoc concat.simps(2))
    with t(2,3) c dl show ?thesis by auto
  qed
qed

text \<open>
  Iterating a buffer cuts a prefix of it into whole descriptors, each exactly as long as its
  \<open>bLength\<close> byte says and at least two bytes, and stops only where no whole descriptor follows.
\<close>

theorem descriptor_iter_partition:
  "\<exists>tail. b = concat (descriptor_list b) @ tail \<and> split_first tail = None \<and>
     list_all (\<lambda>d. 2 \<le> length d \<and> descriptor_len d = Ret (length d)) (descriptor_list b)"
proof -
  obtain tail where t: "b = concat (descriptor_list b) @ tail" "split_first tail = None"
    "\<forall>d \<in> set (descriptor_list b). desc_ok d" using descriptor_list_cut by blast
  from t(3) have "list_all (\<lambda>d. 2 \<le> length d \<and> descriptor_len d = Ret (length d)) (descriptor_list b)"
    by (auto simp: list_all_iff desc_ok_def descriptor_len_def index_def)
  with t show ?thesis by blast
qed

section \<open>Grouping by type\<close>

text \<open>A descriptor that starts a group, and a group: such a descriptor and what belongs to it.\<close>

definition starts_group :: "u8 \<Rightarrow> u8 \<Rightarrow> bytes \<Rightarrow> bool" where
  "starts_group ty m d \<longleftrightarrow> d ! 1 = ty \<and> m \<le> d ! 0"

definition in_group :: "u8 \<Rightarrow> bytes \<Rightarrow> bool" where
  "in_group ty d \<longleftrightarrow> d ! 1 \<noteq> ty \<and> 2 < length d"

definition group_ok :: "u8 \<Rightarrow> u8 \<Rightarrow> bytes \<Rightarrow> bool" where
  "group_ok ty m g \<longleftrightarrow>
     (\<exists>h mids. g = concat (h # mids) \<and> descriptor_list g = h # mids \<and> starts_group ty m h \<and>
        desc_ok h \<and> (\<forall>d \<in> set mids. desc_ok d \<and> in_group ty d))"

text \<open>
  The groups of a list of descriptors: from each descriptor that starts one to the first that does not
  belong to it, which is one of the type or one of two bytes.
\<close>

function descriptor_groups :: "u8 \<Rightarrow> u8 \<Rightarrow> bytes list \<Rightarrow> bytes list list" where
  "descriptor_groups ty m [] = []"
| "descriptor_groups ty m (d # ds) =
     (if starts_group ty m d
      then (d # takeWhile (in_group ty) ds) # descriptor_groups ty m (dropWhile (in_group ty) ds)
      else descriptor_groups ty m ds)"
  by pat_completeness auto
termination
  by (relation "measure (\<lambda>(ty, m, ds). length ds)") (simp_all add: length_dropWhile_le le_imp_less_Suc)

lemma descriptor_groups_skip:
  "\<forall>d \<in> set sk. \<not> starts_group ty m d \<Longrightarrow> descriptor_groups ty m (sk @ ds) = descriptor_groups ty m ds"
  by (induction sk) simp_all

lemma descriptor_groups_take:
  assumes "starts_group ty m h" "\<forall>d \<in> set mids. in_group ty d" "ds = [] \<or> \<not> in_group ty (hd ds)"
  shows "descriptor_groups ty m (h # mids @ ds) = (h # mids) # descriptor_groups ty m ds"
proof -
  have "takeWhile (in_group ty) (mids @ ds) = mids" "dropWhile (in_group ty) (mids @ ds) = ds"
    using assms(2,3) by (cases ds, simp_all add: takeWhile_append dropWhile_append)+
  with assms(1) show ?thesis by simp
qed

text \<open>The groups lie in the buffer one after the other.\<close>

fun in_order :: "bytes list \<Rightarrow> bytes \<Rightarrow> bool" where
  "in_order [] b = True"
| "in_order (g # gs) b = (\<exists>p s. b = p @ g @ s \<and> in_order gs s)"

lemma in_order_prefix: "in_order gs s \<Longrightarrow> in_order gs (p @ s)"
  by (cases gs) (auto, metis append_assoc)

definition group_head :: "bytes \<Rightarrow> bytes" where
  "group_head g = hd (descriptor_list g)"

lemma seek_type_spec:
  "seek_type ty m b = (f, b') \<Longrightarrow>
    \<exists>sk. b = concat sk @ b' \<and> (\<forall>d \<in> set sk. desc_ok d \<and> \<not> starts_group ty m d) \<and>
      (if f then \<exists>h s. split_first b' = Some (h, s) \<and> starts_group ty m h else split_first b' = None)"
proof (induction ty m b rule: seek_type.induct)
  case (1 ty m b)
  show ?case
  proof (cases "split_first b")
    case None
    with "1.prems" show ?thesis
      by (intro exI [where x = "[]"]) (auto simp: seek_type.simps [of ty m b])
  next
    case (Some p)
    obtain cur rest where p: "p = (cur, rest)" by (cases p)
    note c = split_first_SomeE [OF Some [unfolded p]]
    show ?thesis
    proof (cases "b ! 1 = ty \<and> b ! 0 \<ge> m")
      case True
      then have "seek_type ty m b = (True, b)" by (subst seek_type.simps) (simp add: Some p)
      with "1.prems" have "f" "b' = b" by auto
      with True Some p c(3,4) show ?thesis
        by (intro exI [where x = "[]"]) (simp add: starts_group_def)
    next
      case False
      with "1.prems" Some p have "seek_type ty m rest = (f, b')"
        by (auto simp: seek_type.simps [of ty m b])
      from "1.IH" [OF Some [unfolded p] refl False this] obtain sk where
        sk: "rest = concat sk @ b'" "\<forall>d \<in> set sk. desc_ok d \<and> \<not> starts_group ty m d"
        "if f then \<exists>h s. split_first b' = Some (h, s) \<and> starts_group ty m h else split_first b' = None"
        by blast
      with c False show ?thesis
        by (intro exI [where x = "cur # sk"]) (auto simp: starts_group_def)
    qed
  qed
qed

lemma group_end_spec:
  "e \<le> length b \<Longrightarrow>
    (\<exists>mids. take (group_end ty b e - e) (drop e b) = concat mids \<and>
      (\<forall>d \<in> set mids. desc_ok d \<and> in_group ty d)) \<and>
    (let ds = descriptor_list (drop (group_end ty b e) b) in ds = [] \<or> \<not> in_group ty (hd ds))"
proof (induction ty b e rule: group_end.induct)
  case (1 ty b e)
  let ?n = "unat (b ! e)"
  show ?case
  proof (cases "length b \<ge> e + 2 \<and> b ! e > 2 \<and> b ! (e + 1) \<noteq> ty \<and> length b \<ge> e + ?n")
    case True
    then have n: "2 < ?n" by (simp add: word_less_nat_alt)
    have ge: "group_end ty b e = group_end ty b (e + ?n)"
      using True by (subst group_end.simps) simp
    from "1.IH" [OF True] True obtain mids where
      m: "take (group_end ty b (e + ?n) - (e + ?n)) (drop (e + ?n) b) = concat mids"
      "\<forall>d \<in> set mids. desc_ok d \<and> in_group ty d"
      "let ds = descriptor_list (drop (group_end ty b e) b) in ds = [] \<or> \<not> in_group ty (hd ds)"
      unfolding ge by auto
    let ?d = "take ?n (drop e b)"
    have "desc_ok ?d \<and> in_group ty ?d"
      using True n by (auto simp: desc_ok_def in_group_def)
    moreover have "take (group_end ty b e - e) (drop e b) = ?d @ concat mids"
    proof -
      have le: "e + ?n \<le> group_end ty b (e + ?n)"
        using group_end_bounds [of "e + ?n" b ty] True by simp
      then have "group_end ty b e - e = ?n + (group_end ty b (e + ?n) - (e + ?n))"
        unfolding ge by simp
      then show ?thesis using m(1) by (simp add: take_add add.commute)
    qed
    ultimately show ?thesis using m(2,3) by (intro conjI exI [where x = "?d # mids"]) auto
  next
    case False
    have e: "group_end ty b e = e" by (subst group_end.simps) (use False in auto)
    have "let ds = descriptor_list (drop e b) in ds = [] \<or> \<not> in_group ty (hd ds)"
    proof (cases "split_first (drop e b)")
      case None
      then show ?thesis by (subst descriptor_list_rec) simp
    next
      case (Some p)
      obtain cur rest where p: "p = (cur, rest)" by (cases p)
      note d = split_first_SomeD [OF Some [unfolded p]] and c = split_first_SomeE [OF Some [unfolded p]]
      have "b ! e = cur ! 0" "b ! (e + 1) = cur ! 1" using c(3,4) d(1) "1.prems" by simp_all
      then have "\<not> in_group ty cur"
        using False c(1) d(1,3) "1.prems" by (auto simp: in_group_def desc_ok_def word_less_nat_alt)
      with Some p show ?thesis by (subst descriptor_list_rec) simp
    qed
    with e show ?thesis by (intro conjI exI [where x = "[]"]) simp_all
  qed
qed

text \<open>One step of the iterator: skip, then a group that starts at a matching descriptor.\<close>

lemma split_by_type_next_spec:
  "\<exists>sk. (\<forall>d \<in> set sk. desc_ok d \<and> \<not> starts_group ty m d) \<and>
     (case split_by_type_next ty m b of
        Ret (None, s) \<Rightarrow> b = concat sk @ s \<and> split_first s = None
      | Ret (Some g, s) \<Rightarrow> b = concat sk @ g @ s \<and> group_ok ty m g \<and>
          (descriptor_list s = [] \<or> \<not> in_group ty (hd (descriptor_list s)))
      | _ \<Rightarrow> False)"
proof -
  obtain f b' where s: "seek_type ty m b = (f, b')" by fastforce
  from seek_type_spec [OF s] obtain sk where
    sk: "b = concat sk @ b'" "\<forall>d \<in> set sk. desc_ok d \<and> \<not> starts_group ty m d"
    "if f then \<exists>h s. split_first b' = Some (h, s) \<and> starts_group ty m h else split_first b' = None"
    by blast
  show ?thesis
  proof (cases f)
    case False
    with s sk show ?thesis
      by (intro exI [where x = sk]) (auto simp: split_by_type_next_def)
  next
    case True
    with sk(3) obtain h t where h: "split_first b' = Some (h, t)" "starts_group ty m h" by auto
    note d = split_first_SomeD [OF h(1)] and c = split_first_SomeE [OF h(1)]
    let ?n = "unat (b' ! 0)"
    let ?e = "group_end ty b' ?n"
    from group_end_spec [OF d(3), of ty] obtain mids where
      m: "take (?e - ?n) (drop ?n b') = concat mids"
      "\<forall>d \<in> set mids. desc_ok d \<and> in_group ty d" by blast
    have stop: "descriptor_list (drop ?e b') = [] \<or> \<not> in_group ty (hd (descriptor_list (drop ?e b')))"
      using group_end_spec [OF d(3), of ty] by (simp add: Let_def)
    have bd: "?n \<le> ?e" "?e \<le> length b'" using group_end_bounds [OF d(3), of ty] by auto
    have g: "take ?e b' = concat (h # mids)"
    proof -
      have "take ?e b' = take ?n b' @ take (?e - ?n) (drop ?n b')"
        using bd by (metis le_add_diff_inverse take_add)
      then show ?thesis using m(1) d(4) by simp
    qed
    have "descriptor_list (take ?e b') = h # mids"
      unfolding g using m(2) c(1) by (intro descriptor_list_concat_Nil) auto
    with g m(2) h(2) c(1) have "group_ok ty m (take ?e b')"
      unfolding group_ok_def by blast
    moreover have "b' \<noteq> []" using d(1) by auto
    then have "split_by_type_next ty m b = Ret (Some (take ?e b'), drop ?e b')"
      using s True bd by (simp add: split_by_type_next_def)
    ultimately show ?thesis using sk stop by (intro exI [where x = sk]) simp
  qed
qed

lemma group_descriptor_list:
  assumes "group_ok ty m g"
  shows "descriptor_list (g @ s) = descriptor_list g @ descriptor_list s"
    "filter (starts_group ty m) (descriptor_list g) = [group_head g]"
proof -
  from assms obtain h mids where g: "g = concat (h # mids)" "descriptor_list g = h # mids"
    "starts_group ty m h" "desc_ok h" "\<forall>d \<in> set mids. desc_ok d \<and> in_group ty d"
    unfolding group_ok_def by blast
  show "descriptor_list (g @ s) = descriptor_list g @ descriptor_list s"
    using g descriptor_list_concat [of "h # mids" s] by auto
  have "filter (starts_group ty m) mids = []"
    using g(5) by (auto simp: filter_empty_conv starts_group_def in_group_def)
  then show "filter (starts_group ty m) (descriptor_list g) = [group_head g]"
    using g(2,3) by (simp add: group_head_def)
qed

lemma split_by_type_rec:
  "split_by_type ty m b =
     obind (split_by_type_next ty m b) (\<lambda>(r, s).
       case r of None \<Rightarrow> Ret [] | Some g \<Rightarrow> obind (split_by_type ty m s) (\<lambda>gs. Ret (g # gs)))"
  by (subst split_by_type.simps) (auto split: outcome.splits option.splits prod.splits)

lemma split_by_type_total:
  "\<exists>gs. split_by_type ty m b = Ret gs \<and> (\<forall>g \<in> set gs. group_ok ty m g) \<and> in_order gs b \<and>
     map descriptor_list gs = descriptor_groups ty m (descriptor_list b) \<and>
     map group_head gs = filter (starts_group ty m) (descriptor_list b)"
proof (induction "length b" arbitrary: b rule: less_induct)
  case less
  from split_by_type_next_spec [of ty m b] obtain sk where
    sk: "\<forall>d \<in> set sk. desc_ok d \<and> \<not> starts_group ty m d" and
    st: "case split_by_type_next ty m b of
        Ret (None, s) \<Rightarrow> b = concat sk @ s \<and> split_first s = None
      | Ret (Some g, s) \<Rightarrow> b = concat sk @ g @ s \<and> group_ok ty m g \<and>
          (descriptor_list s = [] \<or> \<not> in_group ty (hd (descriptor_list s)))
      | _ \<Rightarrow> False" by blast
  have skip: "filter (starts_group ty m) sk = []" using sk by (auto simp: filter_empty_conv)
  obtain r s where n: "split_by_type_next ty m b = Ret (r, s)"
    using st by (cases "split_by_type_next ty m b") auto
  show ?case
  proof (cases r)
    case None
    with st n have b: "b = concat sk @ s" "split_first s = None" by auto
    have "descriptor_list b = sk @ descriptor_list s"
      unfolding b(1) using sk by (intro descriptor_list_concat) auto
    also have "descriptor_list s = []" by (subst descriptor_list_rec) (simp add: b(2))
    finally show ?thesis using n None skip sk descriptor_groups_skip [of sk ty m "[]"]
      by (subst split_by_type_rec) simp
  next
    case (Some g)
    with st n have b: "b = concat sk @ g @ s" and g: "group_ok ty m g"
      and stop: "descriptor_list s = [] \<or> \<not> in_group ty (hd (descriptor_list s))" by auto
    have "length s < length b" using n Some by (intro split_by_type_next_shrinks) auto
    from less [OF this] obtain gs where gs: "split_by_type ty m s = Ret gs"
      "\<forall>g \<in> set gs. group_ok ty m g" "in_order gs s"
      "map descriptor_list gs = descriptor_groups ty m (descriptor_list s)"
      "map group_head gs = filter (starts_group ty m) (descriptor_list s)" by blast
    have dl: "descriptor_list b = sk @ descriptor_list g @ descriptor_list s"
      unfolding b group_descriptor_list(1) [OF g, symmetric]
      using sk by (intro descriptor_list_concat) auto
    then have "filter (starts_group ty m) (descriptor_list b) = map group_head (g # gs)"
      using skip group_descriptor_list(2) [OF g] gs(5) by simp
    moreover have "map descriptor_list (g # gs) = descriptor_groups ty m (descriptor_list b)"
    proof -
      from g obtain h mids where "descriptor_list g = h # mids" "starts_group ty m h" "\<forall>d \<in> set mids. in_group ty d"
        unfolding group_ok_def by blast
      with descriptor_groups_take [OF this(2,3) stop] gs(4) sk show ?thesis
        by (simp add: dl descriptor_groups_skip)
    qed
    moreover have "split_by_type ty m b = Ret (g # gs)"
      using n Some gs(1) by (subst split_by_type_rec) simp
    moreover have "in_order (g # gs) b" using gs(3) b by auto
    ultimately show ?thesis using g gs(2) by auto
  qed
qed

text \<open>
  C36. Grouping by type never panics and always ends, and its groups are those of the list of
  descriptors that the plain iterator gives: each is a descriptor of the type and the minimum length
  with the descriptors that follow it up to, and without, the first that has the type, that is only two
  bytes long, or where the iterator ends. (That a descriptor of two bytes ends a group is what the code
  does; \<open>DescriptorIter\<close> walks over it.) The groups are disjoint pieces of the buffer in its order, whole
  descriptors laid end to end; and no matching descriptor is missed: the heads of the groups are exactly
  the descriptors that have the type and the minimum length.
\<close>

theorem split_by_type_groups:
  "\<exists>gs. split_by_type ty m b = Ret gs \<and>
     map descriptor_list gs = descriptor_groups ty m (descriptor_list b) \<and>
     list_all (\<lambda>g. g = concat (descriptor_list g)) gs \<and> list_all (group_ok ty m) gs \<and> in_order gs b \<and>
     map group_head gs = filter (starts_group ty m) (descriptor_list b)"
proof -
  from split_by_type_total [of ty m b] obtain gs where gs: "split_by_type ty m b = Ret gs"
    "\<forall>g \<in> set gs. group_ok ty m g" "in_order gs b"
    "map descriptor_list gs = descriptor_groups ty m (descriptor_list b)"
    "map group_head gs = filter (starts_group ty m) (descriptor_list b)" by blast
  from gs(2) have "list_all (\<lambda>g. g = concat (descriptor_list g)) gs"
    by (auto simp: list_all_iff group_ok_def)
  with gs show ?thesis by (auto simp: list_all_iff)
qed

section \<open>No accessor of a parsed configuration panics\<close>

text \<open>
  What the parser relies on: a descriptor whose \<open>bLength\<close> is at least the minimum and at most the
  length of its slice. \<open>ConfigurationDescriptor::new\<close> establishes it for the configuration, the
  grouping iterator for interfaces and endpoints.
\<close>

definition header_ok :: "nat \<Rightarrow> bytes \<Rightarrow> bool" where
  "header_ok n d \<longleftrightarrow> n \<le> unat (d ! 0) \<and> unat (d ! 0) \<le> length d"

definition endpoint_readable :: "EndpointDescriptor \<Rightarrow> bool" where
  "endpoint_readable e \<longleftrightarrow>
     is_ret (endpoint_address e) \<and> is_ret (endpoint_attributes e) \<and>
     is_ret (endpoint_max_packet_size_raw e) \<and> is_ret (endpoint_interval e) \<and>
     is_ret (endpoint_direction e) \<and> is_ret (endpoint_transfer_type e) \<and>
     is_ret (endpoint_max_packet_size e) \<and> is_ret (endpoint_packets_per_microframe e) \<and>
     is_ret (endpoint_descriptors e)"

definition interface_readable :: "InterfaceDescriptor \<Rightarrow> bool" where
  "interface_readable i \<longleftrightarrow>
     is_ret (interface_number i) \<and> is_ret (interface_alternate_setting i) \<and>
     is_ret (interface_num_endpoints i) \<and> is_ret (interface_class i) \<and>
     is_ret (interface_subclass i) \<and> is_ret (interface_protocol i) \<and>
     is_ret (interface_string_index i) \<and> is_ret (interface_descriptors i) \<and>
     (\<exists>es. interface_endpoints i = Ret es \<and> list_all endpoint_readable es)"

definition config_readable :: "ConfigurationDescriptor \<Rightarrow> bool" where
  "config_readable c \<longleftrightarrow>
     is_ret (config_num_interfaces c) \<and> is_ret (config_configuration_value c) \<and>
     is_ret (config_attributes c) \<and> is_ret (config_max_power c) \<and>
     is_ret (config_string_index c) \<and> is_ret (config_descriptors c) \<and>
     (\<exists>as. interface_alt_settings c = Ret as \<and> list_all interface_readable as)"

lemma is_ret_field [simp]:
  "pos < length d \<Longrightarrow> is_ret (field_u8 pos d)" "pos + 1 < length d \<Longrightarrow> is_ret (field_u16 pos d)"
  by simp_all

lemma trailing_descriptors_Ret [panic_free]:
  "header_ok n d \<Longrightarrow> 0 < n \<Longrightarrow> trailing_descriptors d = Ret (drop (unat (d ! 0)) d)"
  by (cases d) (auto simp: header_ok_def trailing_descriptors_def)

lemma and_mask_cases: "a AND 3 = 0 \<or> a AND 3 = 1 \<or> a AND 3 = 2 \<or> a AND 3 = 3" for a :: u8
proof -
  have "a AND 3 = take_bit 2 a" by (simp add: take_bit_eq_mask mask_numeral)
  then have "unat (a AND 3) < 4" by (simp add: unsigned_take_bit_eq take_bit_eq_mod unat_mod)
  then have "unat (a AND 3) = 0 \<or> unat (a AND 3) = 1 \<or> unat (a AND 3) = 2 \<or> unat (a AND 3) = 3"
    by arith
  then show ?thesis by (auto simp: word_unat_eq_iff)
qed

lemma group_ok_header:
  assumes "group_ok ty m g" "n \<le> unat m"
  shows "header_ok n g \<and> g ! 1 = ty \<and> unat (g ! 0) = length (group_head g)"
proof -
  from assms(1) obtain h mids where g: "g = concat (h # mids)" "descriptor_list g = h # mids"
    "starts_group ty m h" "desc_ok h" unfolding group_ok_def by blast
  have "unat m \<le> unat (h ! 0)" using g(3) by (simp add: starts_group_def word_le_nat_alt)
  then show ?thesis
    using g assms(2) by (auto simp: header_ok_def starts_group_def desc_ok_def nth_append group_head_def)
qed

lemma endpoint_readable_header: "header_ok 7 e \<Longrightarrow> endpoint_readable e"
  using trailing_descriptors_Ret [of 7 e] and_mask_cases
  by (fastforce simp: endpoint_readable_def header_ok_def endpoint_accessor_defs
      endpoint_direction_def endpoint_transfer_type_def endpoint_max_packet_size_def
      endpoint_packets_per_microframe_def endpoint_descriptors_def Let_def)

lemma interface_readable_header:
  assumes h: "header_ok 9 i" shows "interface_readable i"
proof -
  have t: "interface_descriptors i = Ret (drop (unat (i ! 0)) i)"
    using trailing_descriptors_Ret [of 9 i] h by (simp add: interface_descriptors_def)
  obtain es where "interface_endpoints i = Ret es"
    "\<forall>g \<in> set es. group_ok DESCRIPTOR_TYPE_ENDPOINT DESCRIPTOR_LEN_ENDPOINT g"
    using split_by_type_total [of DESCRIPTOR_TYPE_ENDPOINT DESCRIPTOR_LEN_ENDPOINT
        "drop (unat (i ! 0)) i"] by (auto simp: interface_endpoints_def t)
  moreover from this have "\<forall>g \<in> set es. endpoint_readable g"
    using group_ok_header [of DESCRIPTOR_TYPE_ENDPOINT DESCRIPTOR_LEN_ENDPOINT _ 7]
    by (auto simp: descriptor_constants intro!: endpoint_readable_header)
  ultimately show ?thesis
    using h t unfolding interface_readable_def
    by (auto simp: header_ok_def interface_accessor_defs list_all_iff)
qed

lemma alt_settings_ok:
  assumes "header_ok 9 c"
  shows "\<exists>as. interface_alt_settings c = Ret as \<and> (\<forall>a \<in> set as. header_ok 9 a)"
proof -
  have "config_descriptors c = Ret (drop (unat (c ! 0)) c)"
    using trailing_descriptors_Ret [of 9 c] assms by (simp add: config_descriptors_def)
  then show ?thesis
    using split_by_type_total [of DESCRIPTOR_TYPE_INTERFACE DESCRIPTOR_LEN_INTERFACE
        "drop (unat (c ! 0)) c"]
      group_ok_header [of DESCRIPTOR_TYPE_INTERFACE DESCRIPTOR_LEN_INTERFACE _ 9]
    by (auto simp: interface_alt_settings_def descriptor_constants)
qed

lemma config_new_header: "config_new buf = Some c \<Longrightarrow> header_ok 9 c"
  by (simp add: header_ok_def config_new_SomeD)

lemma config_readable_header:
  assumes h: "header_ok 9 c" shows "config_readable c"
proof -
  have "config_descriptors c = Ret (drop (unat (c ! 0)) c)"
    using trailing_descriptors_Ret [of 9 c] h by (simp add: config_descriptors_def)
  moreover obtain as where "interface_alt_settings c = Ret as" "\<forall>a \<in> set as. header_ok 9 a"
    using alt_settings_ok [OF h] by blast
  ultimately show ?thesis
    using h unfolding config_readable_def
    by (auto simp: header_ok_def config_accessor_defs list_all_iff interface_readable_header)
qed

text \<open>What is readable can be printed.\<close>

lemma interface_debug_readable: "interface_readable i \<Longrightarrow> is_ret (interface_debug i)"
  by (auto simp: interface_readable_def endpoint_readable_def interface_debug_def endpoint_debug_def
      list_all_iff)

lemma config_debug_readable: "config_readable c \<Longrightarrow> is_ret (config_debug c)"
  by (auto simp: config_readable_def config_debug_def interface_debug_readable list_all_iff)

lemma device_debug_readable: "device_descriptor_new buf = Some d \<Longrightarrow> is_ret (device_debug d)"
  by (auto simp: device_descriptor_new_def device_debug_def device_accessor_defs descriptor_constants
      get_range_def split: if_splits)

section \<open>Interfaces grouped by number\<close>

definition intf_num :: "InterfaceDescriptor \<Rightarrow> u8" where
  "intf_num i = i ! 2"

lemma group_interfaces_spec:
  "btree_ok m \<Longrightarrow> (\<forall>a \<in> set as. header_ok 9 a) \<Longrightarrow>
    \<exists>m'. group_interfaces as m = Ret m' \<and> btree_ok m' \<and>
      (\<forall>k. btree_get m' k =
         (case (case btree_get m k of None \<Rightarrow> [] | Some vs \<Rightarrow> vs) @ filter (\<lambda>a. intf_num a = k) as of
            [] \<Rightarrow> btree_get m k | vs \<Rightarrow> Some vs))"
proof (induction as arbitrary: m)
  case Nil
  then show ?case by (auto split: list.splits option.splits)
next
  case (Cons a as)
  have n: "interface_number a = Ret (intf_num a)"
    using Cons.prems(2) by (simp add: interface_number_def header_ok_def intf_num_def)
  have "btree_ok (btree_push (intf_num a) a m)"
    using Cons.prems(1) by (simp add: btree_push_def btree_ok_insert)
  from Cons.IH [OF this] Cons.prems(2) obtain m' where
    m': "group_interfaces as (btree_push (intf_num a) a m) = Ret m'" "btree_ok m'"
    "\<forall>k. btree_get m' k =
         (case (case btree_get (btree_push (intf_num a) a m) k of None \<Rightarrow> [] | Some vs \<Rightarrow> vs)
             @ filter (\<lambda>a. intf_num a = k) as of
            [] \<Rightarrow> btree_get (btree_push (intf_num a) a m) k | vs \<Rightarrow> Some vs)" by auto
  have push: "btree_get (btree_push (intf_num a) a m) k =
      (if k = intf_num a then Some ((case btree_get m k of None \<Rightarrow> [] | Some vs \<Rightarrow> vs) @ [a])
       else btree_get m k)" for k
    using Cons.prems(1) by (simp add: btree_push_def btree_get_insert)
  show ?case
    using m' n by (auto simp: push split: list.splits)
qed

lemma config_interfaces_spec:
  assumes h: "header_ok 9 c"
  shows "\<exists>as is. interface_alt_settings c = Ret as \<and> config_interfaces c = Ret is \<and>
     sorted_wrt (<) (map ids_interface_number is) \<and>
     (\<forall>k. (\<exists>i \<in> set is. ids_interface_number i = k) \<longleftrightarrow> (\<exists>a \<in> set as. intf_num a = k)) \<and>
     (\<forall>i \<in> set is. ids_alt_settings i \<noteq> [] \<and>
        ids_alt_settings i = filter (\<lambda>a. intf_num a = ids_interface_number i) as)"
proof -
  obtain as where as: "interface_alt_settings c = Ret as" "\<forall>a \<in> set as. header_ok 9 a"
    using alt_settings_ok [OF h] by blast
  from group_interfaces_spec [of "[]", OF _ as(2)] obtain m where
    m: "group_interfaces as [] = Ret m" "btree_ok m" and
    get: "\<And>k. btree_get m k =
      (case filter (\<lambda>a. intf_num a = k) as of [] \<Rightarrow> None | vs \<Rightarrow> Some vs)"
    by (auto cong: list.case_cong)
  define ints where "ints = map (\<lambda>(n, intfs). \<lparr>ids_intf_number = n, ids_interfaces = intfs\<rparr>) m"
  have ints: "config_interfaces c = Ret ints" by (simp add: config_interfaces_def as m ints_def)
  have mem: "(k, vs) \<in> set m \<longleftrightarrow> vs \<noteq> [] \<and> vs = filter (\<lambda>a. intf_num a = k) as" for k vs
  proof -
    have "(k, vs) \<in> set m \<longleftrightarrow> btree_get m k = Some vs"
      using btree_ok_distinct [OF m(2)] by (simp add: btree_get_def)
    then show ?thesis unfolding get by (auto split: list.splits)
  qed
  have "map ids_interface_number ints = map fst m"
    by (auto simp: ints_def ids_interface_number_def)
  then have "sorted_wrt (<) (map ids_interface_number ints)"
    using m(2) by (simp add: btree_ok_def)
  moreover have "(\<exists>i \<in> set ints. ids_interface_number i = k) \<longleftrightarrow> (\<exists>a \<in> set as. intf_num a = k)" for k
  proof -
    have "(\<exists>i \<in> set ints. ids_interface_number i = k) \<longleftrightarrow> (\<exists>vs. (k, vs) \<in> set m)"
      by (force simp: ints_def ids_interface_number_def)
    also have "\<dots> \<longleftrightarrow> filter (\<lambda>a. intf_num a = k) as \<noteq> []" by (auto simp: mem)
    finally show ?thesis by (auto simp: filter_empty_conv)
  qed
  moreover have "\<forall>i \<in> set ints. ids_alt_settings i \<noteq> [] \<and>
      ids_alt_settings i = filter (\<lambda>a. intf_num a = ids_interface_number i) as"
    by (auto simp: ints_def ids_alt_settings_def ids_interface_number_def mem)
  ultimately show ?thesis using as(1) ints by blast
qed

text \<open>A configuration descriptor of the Linux root hub, from the tests of the source.\<close>

definition root_hub_config :: bytes where
  "root_hub_config =
     [0x09, 0x02, 0x19, 0x00, 0x01, 0x01, 0x00, 0xe0, 0x00,
      0x09, 0x04, 0x00, 0x00, 0x01, 0x09, 0x00, 0x00, 0x00,
      0x07, 0x05, 0x81, 0x03, 0x04, 0x00, 0x0c]"

lemma root_hub_config_new: "config_new root_hub_config = Some root_hub_config"
  by code_simp

text \<open>
  C8. A configuration that \<open>ConfigurationDescriptor::new\<close> accepts can be read completely without a
  panic: every accessor of it, of every alternate setting and of every endpoint in it returns,
  and so do the first alternate setting of every interface and the \<open>Debug\<close> output of the whole.
\<close>

theorem parsed_config_never_panics:
  assumes "config_new buf = Some c"
  shows "config_readable c \<and> is_ret (config_debug c) \<and>
    (\<exists>is. config_interfaces c = Ret is \<and>
      list_all (\<lambda>i. is_ret (ids_first_alt_setting i) \<and>
        list_all interface_readable (ids_alt_settings i)) is)"
proof -
  have h: "header_ok 9 c" using assms by (rule config_new_header)
  obtain as where as: "interface_alt_settings c = Ret as" "\<forall>a \<in> set as. header_ok 9 a"
    using alt_settings_ok [OF h] by blast
  obtain ints where i: "config_interfaces c = Ret ints" and
    nz: "\<forall>i \<in> set ints. ids_alt_settings i \<noteq> [] \<and>
      ids_alt_settings i = filter (\<lambda>a. intf_num a = ids_interface_number i) as"
    using config_interfaces_spec [OF h] as(1) by auto
  have "is_ret (ids_first_alt_setting i)" if "i \<in> set ints" for i
    using nz that by (auto simp: ids_first_alt_setting_def ids_alt_settings_def)
  moreover have "list_all interface_readable (ids_alt_settings i)" if "i \<in> set ints" for i
  proof -
    have "set (ids_alt_settings i) \<subseteq> set as" using nz that by (metis filter_is_subset)
    then show ?thesis using as(2) interface_readable_header by (auto simp: list_all_iff)
  qed
  ultimately show ?thesis
    using i config_readable_header [OF h] config_debug_readable by (auto simp: list_all_iff)
qed

theorem parsed_config_never_panics_witness:
  "config_new root_hub_config = Some root_hub_config \<and> config_readable root_hub_config"
  using parsed_config_never_panics [OF root_hub_config_new] root_hub_config_new by blast

text \<open>
  C19. The interfaces of a parsed configuration are its alternate settings grouped by interface
  number: in increasing order without repetition, one for every number that occurs, each with all
  the alternate settings of that number in the order of the descriptor, at least one.
\<close>

theorem interfaces_group_alt_settings:
  assumes "config_new buf = Some c"
  shows "\<exists>as is. interface_alt_settings c = Ret as \<and> config_interfaces c = Ret is \<and>
     sorted_wrt (<) (map ids_interface_number is) \<and>
     set (map ids_interface_number is) = set (map intf_num as) \<and>
     list_all (\<lambda>i. ids_alt_settings i \<noteq> [] \<and>
        ids_alt_settings i = filter (\<lambda>a. intf_num a = ids_interface_number i) as) is"
proof -
  obtain as "is" where i: "interface_alt_settings c = Ret as" "config_interfaces c = Ret is"
    "sorted_wrt (<) (map ids_interface_number is)"
    "\<And>k. (\<exists>i \<in> set is. ids_interface_number i = k) \<longleftrightarrow> (\<exists>a \<in> set as. intf_num a = k)"
    "\<forall>i \<in> set is. ids_alt_settings i \<noteq> [] \<and>
        ids_alt_settings i = filter (\<lambda>a. intf_num a = ids_interface_number i) as"
    using config_interfaces_spec [OF config_new_header [OF assms]] by blast
  have "k \<in> set (map ids_interface_number is) \<longleftrightarrow> k \<in> set (map intf_num as)" for k
    using i(4) [of k] by (auto simp: image_iff eq_commute [of k])
  with i show ?thesis unfolding list_all_iff by blast
qed

theorem interfaces_group_alt_settings_witness:
  "\<exists>as is. interface_alt_settings root_hub_config = Ret as \<and>
     config_interfaces root_hub_config = Ret is \<and>
     set (map ids_interface_number is) = set (map intf_num as)"
  using interfaces_group_alt_settings [OF root_hub_config_new] by blast

section \<open>Round trips\<close>

lemma nth_le_bytes:
  "u16_from_le_bytes (u16_to_le_bytes w ! 0) (u16_to_le_bytes w ! 1) = w"
  using u16_le_roundtrip [of w] by simp

text \<open>
  A device descriptor built from its fields is 18 bytes that \<open>DeviceDescriptor::new\<close> accepts,
  also in front of trailing data, and every accessor gives the field back; a string index of 0 is
  \<open>None\<close>.
\<close>

theorem device_descriptor_roundtrip:
  "(let d = device_from_fields ver cls sub proto mps vid pid dver i_man i_prod i_ser ncfg in
    length d = 18 \<and> device_descriptor_new (d @ rest) = Some d \<and>
    device_usb_version d = Ret ver \<and> device_class d = Ret cls \<and> device_subclass d = Ret sub \<and>
    device_protocol d = Ret proto \<and> device_max_packet_size_0 d = Ret mps \<and>
    device_vendor_id d = Ret vid \<and> device_product_id d = Ret pid \<and>
    device_device_version d = Ret dver \<and>
    device_manufacturer_string_index d = Ret (if i_man = 0 then None else Some i_man) \<and>
    device_product_string_index d = Ret (if i_prod = 0 then None else Some i_prod) \<and>
    device_serial_number_string_index d = Ret (if i_ser = 0 then None else Some i_ser) \<and>
    device_num_configurations d = Ret ncfg)"
  by (simp add: Let_def device_from_fields_def device_descriptor_new_def get_range_def
      descriptor_constants device_accessor_defs nonzero_u8_def)

lemma config_new_append: "config_new c = Some c \<Longrightarrow> config_new (c @ r) = Some c"
proof -
  assume c: "config_new c = Some c"
  note d = config_new_SomeD [OF c]
  have "\<not> c ! 0 < 9" using d(2) by (simp add: word_less_nat_alt)
  then show ?thesis
    using d by (auto simp: config_new_def descriptor_constants Let_def nth_append)
qed

lemma config_new_idem: "config_new buf = Some c \<Longrightarrow> config_new c = Some c"
proof -
  assume c: "config_new buf = Some c"
  note d = config_new_SomeD [OF c]
  have "\<not> c ! 0 < 9" using d(2) by (simp add: word_less_nat_alt)
  then show ?thesis using d by (auto simp: config_new_def descriptor_constants Let_def)
qed

lemma parse_concatenated_rec:
  "parse_concatenated_config_descriptors buf =
     (case config_new buf of None \<Rightarrow> Ret []
      | Some d \<Rightarrow> obind (parse_concatenated_config_descriptors (drop (length d) buf)) (\<lambda>ds. Ret (d # ds)))"
  by (subst parse_concatenated_config_descriptors.simps)
    (simp add: parse_config_next_eq split: option.splits)

lemma parse_concatenated_append:
  "list_all (\<lambda>c. config_new c = Some c) cs \<Longrightarrow> config_new tail = None \<Longrightarrow>
    parse_concatenated_config_descriptors (concat cs @ tail) = Ret cs"
proof (induction cs)
  case Nil
  then show ?case by (subst parse_concatenated_rec) simp
next
  case (Cons c cs)
  then show ?case
    by (subst parse_concatenated_rec) (simp add: config_new_append)
qed

text \<open>
  C37. Parsing concatenated configuration descriptors never panics and cuts the buffer into valid
  configurations, each as long as its \<open>wTotalLength\<close>, up to the first place where none starts;
  and conversely any list of valid configurations followed by something that is not one is parsed
  back to exactly that list.
\<close>

theorem concatenated_configs_roundtrip:
  "(\<exists>cs tail. parse_concatenated_config_descriptors buf = Ret cs \<and> buf = concat cs @ tail \<and>
      config_new tail = None \<and> list_all (\<lambda>c. config_new c = Some c) cs)
   \<and> (if list_all (\<lambda>c. config_new c = Some c) ds \<and> config_new rest = None
      then parse_concatenated_config_descriptors (concat ds @ rest) = Ret ds else True)"
proof
  show "\<exists>cs tail. parse_concatenated_config_descriptors buf = Ret cs \<and> buf = concat cs @ tail \<and>
      config_new tail = None \<and> list_all (\<lambda>c. config_new c = Some c) cs"
  proof (induction "length buf" arbitrary: buf rule: less_induct)
    case less
    show ?case
    proof (cases "config_new buf")
      case None
      then show ?thesis
        by (intro exI [where x = "[]"] exI [where x = buf]) (subst parse_concatenated_rec, simp)
    next
      case (Some d)
      note c = config_new_SomeD [OF Some]
      let ?r = "drop (length d) buf"
      have buf: "buf = d @ ?r" using c(6) by (metis append_take_drop_id)
      have "length ?r < length buf" using c(1,7) by simp
      from less [OF this] obtain cs tail where
        t: "parse_concatenated_config_descriptors ?r = Ret cs" "?r = concat cs @ tail"
        "config_new tail = None" "list_all (\<lambda>c. config_new c = Some c) cs" by blast
      have "parse_concatenated_config_descriptors buf = Ret (d # cs)"
        using Some t(1) by (subst parse_concatenated_rec) simp
      moreover have "buf = concat (d # cs) @ tail"
        using buf t(2) by (metis append.assoc concat.simps(2))
      ultimately show ?thesis using t(3,4) config_new_idem [OF Some] by fastforce
    qed
  qed
qed (simp add: parse_concatenated_append)

section \<open>Descriptors of two bytes\<close>

text \<open>
  The iterator accepts a descriptor of two bytes (\<open>bLength < 2\<close> is refused), but the loop that
  extends a group stops at it (\<open>self.0[end] > 2\<close>). What follows it is then no longer part of the
  interface: here an interface with one endpoint behind a two-byte descriptor loses the endpoint.
\<close>

definition two_byte_config :: bytes where
  "two_byte_config =
     [9, 2, 27, 0, 1, 1, 0, 0, 0,
      9, 4, 0, 0, 1, 0xff, 0, 0, 0,
      2, 0x30,
      7, 5, 0x81, 2, 64, 0, 0]"

text \<open>
  In a configuration whose interface has a two-byte descriptor in front of its endpoint, the
  iterator over all descriptors finds the interface, the two-byte descriptor and the endpoint, but
  the interface found by grouping has no endpoints.
\<close>

theorem two_byte_descriptor_hides_endpoint:
  "config_new two_byte_config = Some two_byte_config \<and>
   omap descriptor_list (config_descriptors two_byte_config) =
     Ret [[9, 4, 0, 0, 1, 0xff, 0, 0, 0], [2, 0x30], [7, 5, 0x81, 2, 64, 0, 0]] \<and>
   obind (interface_alt_settings two_byte_config) (omap_list interface_endpoints) = Ret [[]]"
  by code_simp

end
