(* ===== verification/Strings.thy ===== *)
theory Strings
  imports Descriptors
begin

unbundle bit_operations_syntax

text \<open>
  String descriptors: \<open>validate_string_descriptor\<close> and \<open>decode_string_descriptor\<close> of
  src/src/descriptors.rs, with the UTF-16 decoder of the standard library (\<open>char::decode_utf16\<close>)
  that they use. A \<open>char\<close> of Rust is its scalar value, a natural number; a \<open>String\<close> is a list of
  them.
\<close>

section \<open>UTF-16\<close>

definition is_surrogate :: "u16 \<Rightarrow> bool" where
  "is_surrogate u \<longleftrightarrow> 0xD800 \<le> u \<and> u \<le> 0xDFFF"

definition surrogate_pair :: "u16 \<Rightarrow> u16 \<Rightarrow> nat" where
  "surrogate_pair u u2 = unat (u AND 0x3ff) * 1024 + unat (u2 AND 0x3ff) + 0x10000"

text \<open>
  \<open>DecodeUtf16::next\<close>: \<open>Inr\<close> a scalar value, \<open>Inl\<close> an unpaired surrogate; a unit that was read
  ahead and is not a trailing surrogate is looked at again.
\<close>

fun decode_utf16 :: "u16 list \<Rightarrow> (u16 + nat) list" where
  "decode_utf16 [] = []"
| "decode_utf16 [u] = [if is_surrogate u then Inl u else Inr (unat u)]"
| "decode_utf16 (u # u2 # us) =
     (if \<not> is_surrogate u then Inr (unat u) # decode_utf16 (u2 # us)
      else if 0xDC00 \<le> u then Inl u # decode_utf16 (u2 # us)
      else if u2 < 0xDC00 \<or> 0xDFFF < u2 then Inl u # decode_utf16 (u2 # us)
      else Inr (surrogate_pair u u2) # decode_utf16 us)"

definition REPLACEMENT_CHARACTER :: nat where
  "REPLACEMENT_CHARACTER = 0xFFFD"

text \<open>\<open>chunks_exact(2)\<close> with \<open>u16::from_le_bytes\<close> on every chunk: an odd last byte is left out.\<close>

fun le_units :: "bytes \<Rightarrow> u16 list" where
  "le_units (a # b # r) = u16_from_le_bytes a b # le_units r"
| "le_units r = []"

section \<open>String descriptors\<close>

definition validate_string_descriptor :: "bytes \<Rightarrow> bool" where
  "validate_string_descriptor data \<longleftrightarrow>
     length data \<ge> 2 \<and> unat (data ! 0) = length data \<and> data ! 1 = DESCRIPTOR_TYPE_STRING"

text \<open>\<open>Err(())\<close> is \<open>Ret None\<close>; the slice \<open>data[2..]\<close> could panic on its own.\<close>

definition decode_string_descriptor :: "bytes \<Rightarrow> nat list option outcome" where
  "decode_string_descriptor data =
     (if \<not> validate_string_descriptor data then Ret None
      else obind (slice_from data 2) (\<lambda>d.
        Ret (Some (map (\<lambda>r. case r of Inr c \<Rightarrow> c | Inl _ \<Rightarrow> REPLACEMENT_CHARACTER)
                    (decode_utf16 (le_units d))))))"

section \<open>Encoding, as the specification\<close>

definition scalar :: "nat \<Rightarrow> bool" where
  "scalar c \<longleftrightarrow> c < 0xD800 \<or> 0xE000 \<le> c \<and> c \<le> 0x10FFFF"

definition utf16_of :: "nat \<Rightarrow> u16 list" where
  "utf16_of c =
     (if c < 0x10000 then [of_nat c]
      else [of_nat (0xD800 + (c - 0x10000) div 1024), of_nat (0xDC00 + (c - 0x10000) mod 1024)])"

definition string_descriptor_of :: "nat list \<Rightarrow> bytes" where
  "string_descriptor_of cs =
     (let body = concat (map u16_to_le_bytes (concat (map utf16_of cs)))
      in of_nat (length body + 2) # DESCRIPTOR_TYPE_STRING # body)"

section \<open>Lemmas\<close>

lemma unat_and_3ff: "unat (u AND 0x3ff) = unat u mod 1024" for u :: u16
proof -
  have "u AND 0x3ff = take_bit 10 u" by (simp add: take_bit_eq_mask mask_numeral)
  then show ?thesis by (simp add: unsigned_take_bit_eq take_bit_eq_mod unat_mod)
qed

lemma is_surrogate_nat: "is_surrogate u \<longleftrightarrow> 0xD800 \<le> unat u \<and> unat u \<le> 0xDFFF"
  by (simp add: is_surrogate_def word_le_nat_alt)

lemma surrogate_pair_nat: "surrogate_pair u u2 = unat u mod 1024 * 1024 + unat u2 mod 1024 + 0x10000"
  by (simp add: surrogate_pair_def unat_and_3ff)

lemma scalar_surrogate_pair: "scalar (surrogate_pair u u2)"
proof -
  have "unat u mod 1024 < 1024" "unat u2 mod 1024 < 1024" by simp_all
  then show ?thesis unfolding scalar_def surrogate_pair_nat by linarith
qed

lemma scalar_unit: "\<not> is_surrogate u \<Longrightarrow> scalar (unat u)"
  using unat_u16_lt [of u] by (auto simp: is_surrogate_nat scalar_def)

lemma decode_utf16_scalar: "Inr c \<in> set (decode_utf16 us) \<Longrightarrow> scalar c"
  by (induction us rule: decode_utf16.induct)
    (auto simp: scalar_unit scalar_surrogate_pair split: if_splits)

lemma decode_utf16_unit:
  "\<not> is_surrogate u \<Longrightarrow> decode_utf16 (u # us) = Inr (unat u) # decode_utf16 us"
  by (cases us) auto

lemma decode_utf16_char: "scalar c \<Longrightarrow> decode_utf16 (utf16_of c @ us) = Inr c # decode_utf16 us"
proof (cases "c < 0x10000")
  case True
  assume "scalar c"
  with True have "unat (of_nat c :: u16) = c" "\<not> is_surrogate (of_nat c)"
    by (auto simp: unat_of_nat_u16 is_surrogate_nat scalar_def)
  with True show ?thesis by (simp add: utf16_of_def decode_utf16_unit)
next
  case False
  assume s: "scalar c"
  define q r where "q = (c - 0x10000) div 1024" and "r = (c - 0x10000) mod 1024"
  have q: "q < 1024" and r: "r < 1024" and c: "c = q * 1024 + r + 0x10000"
    using s False by (auto simp: q_def r_def scalar_def)
  have u: "unat (of_nat (0xD800 + q) :: u16) = 0xD800 + q"
    "unat (of_nat (0xDC00 + r) :: u16) = 0xDC00 + r"
    using unat_of_nat_u16 [of "0xD800 + q"] unat_of_nat_u16 [of "0xDC00 + r"] q r
    by (simp_all del: of_nat_add)
  have m: "(0xD800 + q) mod 1024 = q" "(0xDC00 + r) mod 1024 = r" using mod_mult_self1 [of q 54 1024] mod_mult_self1 [of r 55 1024] q r
    by (simp_all add: add.commute)
  have "utf16_of c = [of_nat (0xD800 + q), of_nat (0xDC00 + r)]"
    using False by (simp add: utf16_of_def q_def r_def)
  moreover have "surrogate_pair (of_nat (0xD800 + q)) (of_nat (0xDC00 + r)) = c"
    unfolding surrogate_pair_nat u m by (simp add: c)
  moreover have "is_surrogate (of_nat (0xD800 + q))" "\<not> 0xDC00 \<le> (of_nat (0xD800 + q) :: u16)"
    "\<not> (of_nat (0xDC00 + r) :: u16) < 0xDC00" "\<not> 0xDFFF < (of_nat (0xDC00 + r) :: u16)"
    using q r unfolding is_surrogate_nat word_less_nat_alt word_le_nat_alt u by simp_all
  ultimately show ?thesis by (simp del: of_nat_add)
qed

lemma decode_utf16_string:
  "list_all scalar cs \<Longrightarrow> decode_utf16 (concat (map utf16_of cs)) = map Inr cs"
  by (induction cs) (auto simp: decode_utf16_char)

lemma le_units_le_bytes: "le_units (concat (map u16_to_le_bytes us)) = us"
proof (induction us)
  case (Cons u us)
  have "u16_to_le_bytes u = [u16_to_le_bytes u ! 0, u16_to_le_bytes u ! Suc 0]"
    by (simp add: u16_to_le_bytes_def)
  with Cons show ?case by (metis append_Cons append_Nil concat.simps(2) le_units.simps(1)
      list.simps(9) u16_le_roundtrip)
qed simp

lemma decode_string_descriptor_eq:
  "decode_string_descriptor data =
     Ret (if validate_string_descriptor data
          then Some (map (\<lambda>r. case r of Inr c \<Rightarrow> c | Inl _ \<Rightarrow> REPLACEMENT_CHARACTER)
                 (decode_utf16 (le_units (drop 2 data))))
          else None)"
  by (simp add: decode_string_descriptor_def validate_string_descriptor_def)

section \<open>What a descriptor says\<close>

text \<open>
  A text as UTF-16 units: characters, and surrogates that are not half of a pair. A leading surrogate
  that a trailing one follows is a character, not two surrogates.
\<close>

fun utf16_text :: "(u16 + nat) list \<Rightarrow> bool" where
  "utf16_text [] = True"
| "utf16_text (Inr c # es) = (scalar c \<and> utf16_text es)"
| "utf16_text (Inl u # es) =
     (is_surrogate u \<and> \<not> (u < 0xDC00 \<and> (case es of Inl v # _ \<Rightarrow> 0xDC00 \<le> v | _ \<Rightarrow> False)) \<and> utf16_text es)"

definition text_units :: "(u16 + nat) list \<Rightarrow> u16 list" where
  "text_units es = concat (map (\<lambda>e. case e of Inl u \<Rightarrow> [u] | Inr c \<Rightarrow> utf16_of c) es)"

lemma text_units_simps [simp]:
  "text_units [] = []" "text_units (Inl u # es) = u # text_units es"
  "text_units (Inr c # es) = utf16_of c @ text_units es"
  by (simp_all add: text_units_def)

definition text_char :: "u16 + nat \<Rightarrow> nat" where
  "text_char e = (case e of Inr c \<Rightarrow> c | Inl u \<Rightarrow> 0xFFFD)"

text \<open>The descriptor of a text: its length, its type, the units with the low byte first, and what an odd length adds.\<close>

definition string_text :: "bytes \<Rightarrow> (u16 + nat) list \<Rightarrow> bool" where
  "string_text data es \<longleftrightarrow> length data < 256 \<and> utf16_text es \<and>
     (\<exists>extra. length extra \<le> 1 \<and>
        data = [of_nat (length data), 3] @ concat (map u16_to_le_bytes (text_units es)) @ extra)"

lemma string_textI:
  "\<lbrakk>data = [of_nat (length data), 3] @ concat (map u16_to_le_bytes (text_units es)) @ extra;
    length data < 256; length extra \<le> 1; utf16_text es\<rbrakk> \<Longrightarrow> string_text data es"
  unfolding string_text_def by (intro conjI exI [of _ extra])

lemma utf16_of_not_trailing:
  assumes "scalar c"
  shows "\<exists>u us. utf16_of c = u # us \<and> (u < 0xDC00 \<or> 0xDFFF < u)"
proof (cases "c < 0x10000")
  case True
  with assms have "unat (of_nat c :: u16) = c" "c < 0xDC00 \<or> 0xDFFF < c"
    by (auto simp: unat_of_nat_u16 scalar_def)
  with True show ?thesis by (simp add: utf16_of_def word_less_nat_alt)
next
  case False
  have q: "0xD800 + (c - 0x10000) div 1024 < 0xDC00" using assms False by (simp add: scalar_def)
  then have "unat (of_nat (0xD800 + (c - 0x10000) div 1024) :: u16) = 0xD800 + (c - 0x10000) div 1024"
    by (intro unat_of_nat_u16) simp
  with q False show ?thesis by (simp add: utf16_of_def word_less_nat_alt del: of_nat_add)
qed

text \<open>The decoder finds the one text that the units spell.\<close>

lemma decode_text: "utf16_text es \<Longrightarrow> decode_utf16 (text_units es) = es"
proof (induction es rule: utf16_text.induct)
  case (3 u es)
  then have IH: "decode_utf16 (text_units es) = es" by simp
  show ?case
  proof (cases es)
    case Nil
    with 3 show ?thesis by simp
  next
    case (Cons e es')
    have "\<exists>v vs. text_units es = v # vs \<and> (0xDC00 \<le> u \<or> v < 0xDC00 \<or> 0xDFFF < v)"
    proof (cases e)
      case (Inl v)
      with 3 Cons show ?thesis by (auto simp: not_le not_less)
    next
      case (Inr c)
      with 3 Cons utf16_of_not_trailing [of c] show ?thesis by auto
    qed
    then obtain v vs where v: "text_units es = v # vs" "0xDC00 \<le> u \<or> v < 0xDC00 \<or> 0xDFFF < v" by blast
    have "decode_utf16 (u # v # vs) = Inl u # decode_utf16 (v # vs)"
      using v(2) 3(2) by auto
    with v(1) IH show ?thesis by simp
  qed
qed (simp_all add: decode_utf16_char)

lemma utf16_of_pair:
  assumes "is_surrogate u" "\<not> 0xDC00 \<le> u" "\<not> u2 < 0xDC00" "\<not> 0xDFFF < u2"
  shows "utf16_of (surrogate_pair u u2) = [u, u2]"
proof -
  have split: "n = k + n mod 1024" if "k \<le> n" "n < k + 1024" "k mod 1024 = 0" for n k :: nat
  proof -
    note k = that
    from k(3) obtain q where q: "k = 1024 * q" by (auto simp: mod_eq_0_iff_dvd elim: dvdE)
    obtain r where r: "n = r + 1024 * q" "r < 1024"
      using k(1,2) q by (metis add.commute le_add_diff_inverse nat_add_left_cancel_less)
    then have "n mod 1024 = r" by simp
    with r q show ?thesis by simp
  qed
  have u: "unat u = 0xD800 + unat u mod 1024"
    using assms(1,2) by (intro split) (simp_all add: is_surrogate_nat word_le_nat_alt)
  have u2: "unat u2 = 0xDC00 + unat u2 mod 1024"
    using assms(3,4) by (intro split) (simp_all add: word_less_nat_alt)
  have "(surrogate_pair u u2 - 0x10000) div 1024 = unat u mod 1024"
    "(surrogate_pair u u2 - 0x10000) mod 1024 = unat u2 mod 1024"
    by (simp_all add: surrogate_pair_nat)
  moreover have "of_nat (0xD800 + unat u mod 1024) = u" "of_nat (0xDC00 + unat u2 mod 1024) = u2"
    unfolding u [symmetric] u2 [symmetric] by simp_all
  ultimately show ?thesis by (simp add: utf16_of_def surrogate_pair_nat del: of_nat_add)
qed

lemma decoded_text: "utf16_text (decode_utf16 us) \<and> text_units (decode_utf16 us) = us"
proof (induction us rule: decode_utf16.induct)
  case (2 u)
  then show ?case by (simp add: scalar_unit utf16_of_def unat_u16_lt [simplified])
next
  case (3 u u2 us)
  have head: "decode_utf16 (u2 # us) = Inl v # r \<Longrightarrow> v = u2" for v r
    by (cases us) (auto split: if_splits)
  show ?case
  proof (cases "is_surrogate u")
    case False
    with 3(1) show ?thesis by (simp add: scalar_unit utf16_of_def unat_u16_lt [simplified])
  next
    case True
    show ?thesis
    proof (cases "0xDC00 \<le> u \<or> u2 < 0xDC00 \<or> 0xDFFF < u2")
      case False
      with True 3 show ?thesis by (simp add: scalar_surrogate_pair utf16_of_pair)
    next
      case l: True
      have d: "decode_utf16 (u # u2 # us) = Inl u # decode_utf16 (u2 # us)" using True l by auto
      have IH: "utf16_text (decode_utf16 (u2 # us))" "text_units (decode_utf16 (u2 # us)) = u2 # us"
        using 3 True l by auto
      have "\<not> (u < 0xDC00 \<and> (case decode_utf16 (u2 # us) of Inl v # _ \<Rightarrow> 0xDC00 \<le> v | _ \<Rightarrow> False))"
      proof
        assume a: "u < 0xDC00 \<and> (case decode_utf16 (u2 # us) of Inl v # _ \<Rightarrow> 0xDC00 \<le> v | _ \<Rightarrow> False)"
        then obtain v r where v: "decode_utf16 (u2 # us) = Inl v # r" "0xDC00 \<le> v"
          by (auto split: list.splits sum.splits)
        with head have "v = u2" by simp
        moreover have "is_surrogate v" using IH(1) v(1) by simp
        ultimately show False using a l v(2) by (auto simp: is_surrogate_def)
      qed
      with True IH show ?thesis unfolding d by simp
    qed
  qed
qed simp

lemma le_units_cut: "\<exists>extra. length extra \<le> 1 \<and> b = concat (map u16_to_le_bytes (le_units b)) @ extra"
proof (induction b rule: le_units.induct)
  case (1 a b r)
  have "u16_to_le_bytes (u16_from_le_bytes a b) = [a, b]" by (rule u16_le_bytes_roundtrip)
  with 1 show ?case by auto
qed auto

lemma le_units_text: "length extra \<le> 1 \<Longrightarrow> le_units (concat (map u16_to_le_bytes us) @ extra) = us"
proof (induction us)
  case Nil
  then show ?case by (cases extra) auto
next
  case (Cons u us)
  obtain a b where ab: "u16_to_le_bytes u = [a, b]" by (simp add: u16_to_le_bytes_def)
  with u16_le_roundtrip [of u] have "u16_from_le_bytes a b = u" by simp
  with Cons ab show ?case by simp
qed

text \<open>
  C40. What a string descriptor says. Every sequence of bytes is the descriptor of at most one text: its
  length and its type in front, then UTF-16 units with the low byte first, then at most one extra byte.
  Decoding never panics; it is refused exactly when there is no such text (the length or the type is
  wrong), and otherwise gives the characters of the text in order, each a Unicode scalar value, with
  U+FFFD for each surrogate that is not half of a pair.
\<close>

theorem decode_string_descriptor_text:
  "case decode_string_descriptor data of
     Ret None \<Rightarrow> \<not> (\<exists>es. string_text data es)
   | Ret (Some cs) \<Rightarrow> (\<exists>es. Collect (string_text data) = {es} \<and> cs = map text_char es) \<and> list_all scalar cs
   | _ \<Rightarrow> False"
proof -
  have only: "validate_string_descriptor data \<and> es = decode_utf16 (le_units (drop 2 data))"
    if "string_text data es" for es
  proof -
    from that obtain extra where t: "length data < 256" "utf16_text es" "length extra \<le> 1"
      "data = [of_nat (length data), 3] @ concat (map u16_to_le_bytes (text_units es)) @ extra"
      unfolding string_text_def by blast
    have "drop 2 data = concat (map u16_to_le_bytes (text_units es)) @ extra" by (subst t(4)) simp
    moreover have "data ! 0 = of_nat (length data)" "data ! 1 = 3" "2 \<le> length data" by (subst t(4), simp)+
    ultimately show ?thesis
      using t(1,2,3) by (simp add: validate_string_descriptor_def DESCRIPTOR_TYPE_STRING_def unat_of_nat_u8
          le_units_text decode_text)
  qed
  show ?thesis
  proof (cases "validate_string_descriptor data")
    case False
    with only show ?thesis by (auto simp: decode_string_descriptor_eq)
  next
    case True
    let ?es = "decode_utf16 (le_units (drop 2 data))"
    from le_units_cut [of "drop 2 data"] obtain extra where
      extra: "length extra \<le> 1" "drop 2 data = concat (map u16_to_le_bytes (le_units (drop 2 data))) @ extra" by blast
    have v: "2 \<le> length data" "unat (data ! 0) = length data" "data ! 1 = 3"
      using True by (simp_all add: validate_string_descriptor_def DESCRIPTOR_TYPE_STRING_def)
    then have "data ! 0 = of_nat (length data)" by (metis of_nat_unat ucast_id)
    then have "data = [of_nat (length data), 3] @ drop 2 data"
      using v(1,3) by (cases data; cases "tl data") auto
    also have "\<dots> = [of_nat (length data), 3] @ concat (map u16_to_le_bytes (text_units ?es)) @ extra"
      unfolding conjunct2 [OF decoded_text] by (rule arg_cong [OF extra(2)])
    finally have "data = \<dots>" .
    moreover have "length data < 256" using v(2) unat_u8_lt [of "data ! 0"] by simp
    ultimately have "string_text data ?es"
      using extra(1) conjunct1 [OF decoded_text] by (intro string_textI)
    with only have "Collect (string_text data) = {?es}" by blast
    moreover have "list_all scalar (map text_char ?es)"
      by (auto simp: list_all_iff text_char_def scalar_def split: sum.splits dest!: decode_utf16_scalar)
    moreover have "decode_string_descriptor data = Ret (Some (map text_char ?es))"
      using True by (simp add: decode_string_descriptor_eq text_char_def [abs_def] REPLACEMENT_CHARACTER_def)
    ultimately show ?thesis unfolding \<open>decode_string_descriptor data = _\<close> by (simp only: outcome.case option.case) blast
  qed
qed

text \<open>
  A string descriptor made from Unicode scalar values is decoded back to exactly these
  values, provided the descriptor fits its one-byte length.
\<close>

theorem string_descriptor_roundtrip:
  assumes "list_all scalar cs" "length (string_descriptor_of cs) < 256"
  shows "decode_string_descriptor (string_descriptor_of cs) = Ret (Some cs)"
proof -
  let ?body = "concat (map u16_to_le_bytes (concat (map utf16_of cs)))"
  have len: "length ?body + 2 < 256" using assms(2) by (simp add: string_descriptor_of_def Let_def)
  then have "unat (of_nat (length ?body + 2) :: u8) = length ?body + 2" by (rule unat_of_nat_u8)
  then have "validate_string_descriptor (string_descriptor_of cs)"
    by (simp add: validate_string_descriptor_def string_descriptor_of_def Let_def)
  moreover have "drop 2 (string_descriptor_of cs) = ?body"
    by (simp add: string_descriptor_of_def Let_def)
  ultimately show ?thesis
    using assms(1) by (simp add: decode_string_descriptor_eq le_units_le_bytes decode_utf16_string o_def)
qed

theorem string_descriptor_roundtrip_witness:
  "decode_string_descriptor (string_descriptor_of [0x4E, 0xE9, 0x20AC, 0x1F600]) =
     Ret (Some [0x4E, 0xE9, 0x20AC, 0x1F600])"
  by (rule string_descriptor_roundtrip)
    (simp_all add: scalar_def string_descriptor_of_def utf16_of_def)

end
