(* ===== verification/Buffer.thy ===== *)
theory Buffer
  imports Errors
begin

text \<open>
  Transfer buffers: src/src/transfer/buffer.rs. The memory behind \<open>ptr\<close> is part of the record, a
  list of bytes of which those that were never written are \<open>None\<close>: reading one of them, or any
  access behind the end of the allocation, is \<open>UB\<close>. The integers keep their width; a subtraction
  below zero is a panic (overflow checks are on).
\<close>

section \<open>Raw memory\<close>

text \<open>\<open>slice::from_raw_parts\<close>, read as initialised bytes; \<open>ptr::write\<close> of a run of bytes.\<close>

definition raw_read :: "u8 option list \<Rightarrow> nat \<Rightarrow> nat \<Rightarrow> bytes outcome" where
  "raw_read m a n =
     (if a + n \<le> length m \<and> list_all (\<lambda>b. b \<noteq> None) (take n (drop a m))
      then Ret (map the (take n (drop a m))) else UB)"

definition raw_write :: "u8 option list \<Rightarrow> nat \<Rightarrow> bytes \<Rightarrow> u8 option list outcome" where
  "raw_write m a xs =
     (if a + length xs \<le> length m then Ret (take a m @ map Some xs @ drop (a + length xs) m) else UB)"

text \<open>A \<open>Vec<u8>\<close> (or \<open>Vec<MaybeUninit<u8>>\<close>): its allocation and its length.\<close>

record rvec =
  vec_mem :: "u8 option list"
  vec_len :: nat

definition vec_capacity :: "rvec \<Rightarrow> nat" where
  "vec_capacity v = length (vec_mem v)"

definition vec_of :: "bytes \<Rightarrow> rvec" where
  "vec_of xs = \<lparr>vec_mem = map Some xs, vec_len = length xs\<rparr>"

section \<open>Buffers\<close>

datatype Allocator = AllocDefault | AllocMmap

record Buffer =
  buf_mem :: "u8 option list"
  buf_len :: u32
  buf_requested_len :: u32
  buf_capacity :: u32
  buf_allocator :: Allocator

text \<open>\<open>alloc n\<close> is the capacity the allocator gives to \<open>Vec::with_capacity(n)\<close>.\<close>

definition buffer_new :: "(nat \<Rightarrow> nat) \<Rightarrow> nat \<Rightarrow> Buffer outcome" where
  "buffer_new alloc requested_len =
     obind (unwrap (try_u32 requested_len)) (\<lambda>len_u32.
     obind (unwrap (try_u32 (alloc requested_len))) (\<lambda>cap.
       Ret \<lparr>buf_mem = replicate (alloc requested_len) None, buf_len = 0,
            buf_requested_len = len_u32, buf_capacity = cap, buf_allocator = AllocDefault\<rparr>))"

text \<open>\<open>kmmap len\<close> is the result of the \<open>mmap\<close> system call: an \<open>errno\<close> or the mapped memory.\<close>

definition buffer_mmap :: "(nat \<Rightarrow> i32 + u8 option list) \<Rightarrow> nat \<Rightarrow> (i32 + Buffer) outcome" where
  "buffer_mmap kmmap len =
     obind (unwrap (try_u32 len)) (\<lambda>len_u32.
       Ret (case kmmap len of
              Inl e \<Rightarrow> Inl e
            | Inr m \<Rightarrow> Inr \<lparr>buf_mem = m, buf_len = 0, buf_requested_len = len_u32,
                            buf_capacity = len_u32, buf_allocator = AllocMmap\<rparr>))"

definition buffer_len :: "Buffer \<Rightarrow> nat" where
  "buffer_len b = unat (buf_len b)"

definition buffer_is_empty :: "Buffer \<Rightarrow> bool" where
  "buffer_is_empty b \<longleftrightarrow> buf_len b = 0"

definition buffer_requested_len :: "Buffer \<Rightarrow> nat" where
  "buffer_requested_len b = unat (buf_requested_len b)"

definition buffer_capacity :: "Buffer \<Rightarrow> nat" where
  "buffer_capacity b = unat (buf_capacity b)"

definition buffer_set_requested_len :: "nat \<Rightarrow> Buffer \<Rightarrow> Buffer outcome" where
  "buffer_set_requested_len len b =
     rassert (len \<le> unat (buf_capacity b))
       (obind (unwrap (try_u32 len)) (\<lambda>l. Ret (b\<lparr>buf_requested_len := l\<rparr>)))"

definition buffer_remaining_capacity :: "Buffer \<Rightarrow> nat outcome" where
  "buffer_remaining_capacity b =
     (if buffer_len b \<le> buffer_capacity b then Ret (buffer_capacity b - buffer_len b) else Panic)"

definition buffer_clear :: "Buffer \<Rightarrow> Buffer" where
  "buffer_clear b = b\<lparr>buf_len := 0\<rparr>"

text \<open>\<open>self.len += n as u32\<close>, with the overflow check.\<close>

definition add_len :: "Buffer \<Rightarrow> nat \<Rightarrow> Buffer outcome" where
  "add_len b n =
     (if unat (buf_len b) + unat (of_nat n :: u32) < 2 ^ 32
      then Ret (b\<lparr>buf_len := buf_len b + of_nat n\<rparr>) else Panic)"

lemma add_len_code [code]:
  "add_len b n =
     (if uint (buf_len b) + uint (of_nat n :: u32) < 4294967296
      then Ret (b\<lparr>buf_len := buf_len b + of_nat n\<rparr>) else Panic)"
proof -
  have small: "x + y < m \<longleftrightarrow> int x + int y < int m" for x y m :: nat by linarith
  show ?thesis unfolding add_len_def small by (simp only: uint_nat of_nat_power of_nat_numeral) simp
qed

text \<open>The result is the buffer and the place of the slice that the caller may write to.\<close>

definition buffer_extend_fill :: "nat \<Rightarrow> u8 \<Rightarrow> Buffer \<Rightarrow> (Buffer \<times> bytes) outcome" where
  "buffer_extend_fill len value b =
     obind (buffer_remaining_capacity b) (\<lambda>rem.
     rassert (len \<le> rem) (
     obind (raw_write (buf_mem b) (buffer_len b) (replicate len value)) (\<lambda>m.
     obind (add_len (b\<lparr>buf_mem := m\<rparr>) len) (\<lambda>b'.
     obind (if len \<le> buffer_len b' then Ret (buffer_len b' - len) else Panic) (\<lambda>start.
     obind (raw_read (buf_mem b') start len) (\<lambda>s. Ret (b', s)))))))"

definition buffer_extend_from_slice :: "bytes \<Rightarrow> Buffer \<Rightarrow> Buffer outcome" where
  "buffer_extend_from_slice data b =
     obind (buffer_remaining_capacity b) (\<lambda>rem.
     rassert (length data \<le> rem) (
     obind (raw_write (buf_mem b) (buffer_len b) data) (\<lambda>m.
       add_len (b\<lparr>buf_mem := m\<rparr>) (length data))))"

definition buffer_is_zero_copy :: "Buffer \<Rightarrow> bool" where
  "buffer_is_zero_copy b \<longleftrightarrow> buf_allocator b \<noteq> AllocDefault"

text \<open>\<open>Deref\<close>: the initialised bytes; \<open>DerefMut\<close>, used to write one byte: \<open>buf[i] = v\<close>.\<close>

definition buffer_deref :: "Buffer \<Rightarrow> bytes outcome" where
  "buffer_deref b = raw_read (buf_mem b) 0 (unat (buf_len b))"

definition buffer_deref_mut :: "nat \<Rightarrow> u8 \<Rightarrow> Buffer \<Rightarrow> Buffer outcome" where
  "buffer_deref_mut i v b =
     obind (raw_read (buf_mem b) 0 (unat (buf_len b))) (\<lambda>s.
     rassert (i < length s)
       (obind (raw_write (buf_mem b) i [v]) (\<lambda>m. Ret (b\<lparr>buf_mem := m\<rparr>))))"

definition buffer_into_vec :: "Buffer \<Rightarrow> rvec outcome" where
  "buffer_into_vec b =
     (case buf_allocator b of
        AllocDefault \<Rightarrow> Ret \<lparr>vec_mem = take (unat (buf_capacity b)) (buf_mem b), vec_len = unat (buf_len b)\<rparr>
      | AllocMmap \<Rightarrow> omap vec_of (buffer_deref b))"

definition buffer_from_vec :: "rvec \<Rightarrow> Buffer outcome" where
  "buffer_from_vec v =
     obind (unwrap (try_u32 (vec_len v))) (\<lambda>len.
     obind (unwrap (try_u32 (vec_len v))) (\<lambda>rlen.
     obind (unwrap (try_u32 (vec_capacity v))) (\<lambda>cap.
       Ret \<lparr>buf_mem = vec_mem v, buf_len = len, buf_requested_len = rlen,
            buf_capacity = cap, buf_allocator = AllocDefault\<rparr>)))"

definition buffer_from_slice :: "bytes \<Rightarrow> Buffer outcome" where
  "buffer_from_slice xs = buffer_from_vec (vec_of xs)"

definition buffer_from_uninit_vec :: "rvec \<Rightarrow> Buffer outcome" where
  "buffer_from_uninit_vec v =
     obind (unwrap (try_u32 (vec_len v))) (\<lambda>rlen.
     obind (unwrap (try_u32 (vec_capacity v))) (\<lambda>cap.
       Ret \<lparr>buf_mem = vec_mem v, buf_len = 0, buf_requested_len = rlen,
            buf_capacity = cap, buf_allocator = AllocDefault\<rparr>))"

text \<open>\<open>kmunmap n\<close> is the result of the system call, \<open>Some\<close> an \<open>errno\<close>; it is unwrapped.\<close>

definition buffer_drop :: "(nat \<Rightarrow> i32 option) \<Rightarrow> Buffer \<Rightarrow> unit outcome" where
  "buffer_drop kmunmap b =
     (case buf_allocator b of
        AllocDefault \<Rightarrow> Ret ()
      | AllocMmap \<Rightarrow> (case kmunmap (unat (buf_capacity b)) of None \<Rightarrow> Ret () | Some e \<Rightarrow> Panic))"

section \<open>The invariant\<close>

text \<open>
  The allocation has \<open>capacity\<close> bytes, \<open>len\<close> and \<open>requested_len\<close> stay inside it and the first
  \<open>len\<close> bytes are initialised. The bound on \<open>requested_len\<close> is what keeps the kernel, which writes
  up to that many bytes, inside the allocation.
\<close>

definition buffer_ok :: "Buffer \<Rightarrow> bool" where
  "buffer_ok b \<longleftrightarrow>
     length (buf_mem b) = unat (buf_capacity b) \<and>
     unat (buf_len b) \<le> unat (buf_capacity b) \<and>
     unat (buf_requested_len b) \<le> unat (buf_capacity b) \<and>
     list_all (\<lambda>x. x \<noteq> None) (take (unat (buf_len b)) (buf_mem b))"

definition vec_ok :: "rvec \<Rightarrow> bool" where
  "vec_ok v \<longleftrightarrow> vec_len v \<le> vec_capacity v \<and> list_all (\<lambda>x. x \<noteq> None) (take (vec_len v) (vec_mem v))"

definition buffer_bytes :: "Buffer \<Rightarrow> bytes" where
  "buffer_bytes b = map the (take (unat (buf_len b)) (buf_mem b))"

lemma length_buffer_bytes: "buffer_ok b \<Longrightarrow> length (buffer_bytes b) = buffer_len b"
  by (simp add: buffer_ok_def buffer_bytes_def buffer_len_def)

lemma buffer_deref_ok [panic_free]: "buffer_ok b \<Longrightarrow> buffer_deref b = Ret (buffer_bytes b)"
  by (simp add: buffer_deref_def raw_read_def buffer_ok_def buffer_bytes_def)

lemma map_Some_the: "list_all (\<lambda>x. x \<noteq> None) xs \<Longrightarrow> map Some (map the xs) = xs"
  by (induction xs) auto

lemma buffer_mem_split:
  "buffer_ok b \<Longrightarrow> buf_mem b = map Some (buffer_bytes b) @ drop (buffer_len b) (buf_mem b)"
  unfolding buffer_bytes_def buffer_ok_def buffer_len_def by (simp add: map_Some_the del: map_map)

lemma unat_buf_len_add:
  "unat (buf_len b) + n \<le> unat (buf_capacity b) \<Longrightarrow> unat (buf_len b + of_nat n) = unat (buf_len b) + n"
  using unat_u32_lt [of "buf_capacity b"] by (simp add: unat_word_ariths unat_of_nat)

lemma add_len_ok:
  "unat (buf_len b) + n \<le> unat (buf_capacity b) \<Longrightarrow>
    add_len b n = Ret (b\<lparr>buf_len := buf_len b + of_nat n\<rparr>)"
  using unat_u32_lt [of "buf_capacity b"] unat_of_nat_u32 [of n] by (simp add: add_len_def)

text \<open>Appending: the one computation behind both \<open>extend\<close> operations.\<close>

definition appended :: "bytes \<Rightarrow> Buffer \<Rightarrow> Buffer" where
  "appended xs b =
     b\<lparr>buf_mem := take (buffer_len b) (buf_mem b) @ map Some xs @
          drop (buffer_len b + length xs) (buf_mem b),
       buf_len := buf_len b + of_nat (length xs)\<rparr>"

lemma appended_ok:
  assumes ok: "buffer_ok b" and fit: "buffer_len b + length xs \<le> buffer_capacity b"
  shows "buffer_ok (appended xs b)" "buffer_bytes (appended xs b) = buffer_bytes b @ xs"
    "buffer_len (appended xs b) = buffer_len b + length xs"
proof -
  have len: "unat (buf_len b + of_nat (length xs)) = unat (buf_len b) + length xs"
    using fit by (intro unat_buf_len_add) (simp add: buffer_len_def buffer_capacity_def)
  show "buffer_len (appended xs b) = buffer_len b + length xs"
    using len by (simp add: appended_def buffer_len_def)
  have mem: "length (buf_mem b) = unat (buf_capacity b)" using ok by (simp add: buffer_ok_def)
  show "buffer_bytes (appended xs b) = buffer_bytes b @ xs"
    using len mem ok fit
    by (simp add: appended_def buffer_bytes_def buffer_len_def buffer_ok_def buffer_capacity_def comp_def)
  show "buffer_ok (appended xs b)"
    using len mem ok fit
    by (auto simp: appended_def buffer_ok_def buffer_len_def buffer_capacity_def list_all_iff)
qed

lemma buffer_len_le: "buffer_ok b \<Longrightarrow> buffer_len b \<le> buffer_capacity b"
  by (simp add: buffer_ok_def buffer_len_def buffer_capacity_def)

lemma buffer_remaining_ok:
  "buffer_ok b \<Longrightarrow> buffer_remaining_capacity b = Ret (buffer_capacity b - buffer_len b)"
  by (simp add: buffer_remaining_capacity_def buffer_ok_def buffer_len_def buffer_capacity_def)

lemma buffer_extend_from_slice_eq:
  assumes ok: "buffer_ok b"
  shows "buffer_extend_from_slice xs b =
    (if buffer_len b + length xs \<le> buffer_capacity b then Ret (appended xs b) else Panic)"
proof (cases "buffer_len b + length xs \<le> buffer_capacity b")
  case True
  then have "raw_write (buf_mem b) (buffer_len b) xs =
      Ret (take (buffer_len b) (buf_mem b) @ map Some xs @ drop (buffer_len b + length xs) (buf_mem b))"
    using ok by (simp add: raw_write_def buffer_ok_def buffer_capacity_def)
  with True ok show ?thesis
    by (simp add: buffer_extend_from_slice_def buffer_remaining_ok rassert_def add_len_ok
        buffer_len_def buffer_capacity_def appended_def)
next
  case False
  then have "\<not> length xs \<le> buffer_capacity b - buffer_len b" using buffer_len_le [OF ok] by simp
  with ok show ?thesis
    by (simp add: buffer_extend_from_slice_def buffer_remaining_ok rassert_def)
qed

lemma buffer_extend_fill_eq:
  assumes ok: "buffer_ok b"
  shows "buffer_extend_fill n v b =
    (if buffer_len b + n \<le> buffer_capacity b then Ret (appended (replicate n v) b, replicate n v) else Panic)"
proof (cases "buffer_len b + n \<le> buffer_capacity b")
  case True
  let ?b = "appended (replicate n v) b"
  have mem: "length (buf_mem b) = unat (buf_capacity b)" "unat (buf_len b) \<le> unat (buf_capacity b)"
    using ok by (simp_all add: buffer_ok_def)
  have w: "raw_write (buf_mem b) (buffer_len b) (replicate n v) = Ret (buf_mem ?b)"
    using True mem by (simp add: raw_write_def buffer_capacity_def appended_def)
  have a: "add_len (b\<lparr>buf_mem := buf_mem ?b\<rparr>) n = Ret ?b"
    using True by (simp add: add_len_ok buffer_len_def buffer_capacity_def appended_def)
  have l: "buffer_len ?b = buffer_len b + n"
    using appended_ok(3) [OF ok, of "replicate n v"] True by simp
  have r: "raw_read (buf_mem ?b) (buffer_len b) n = Ret (replicate n v)"
    using True mem
    by (simp add: raw_read_def appended_def buffer_len_def buffer_capacity_def list_all_iff comp_def
        map_replicate_const)
  show ?thesis
    using True by (simp add: buffer_extend_fill_def buffer_remaining_ok [OF ok] rassert_def w a l r)
next
  case False
  then have "\<not> n \<le> buffer_capacity b - buffer_len b" using buffer_len_le [OF ok] by simp
  with ok show ?thesis
    by (simp add: buffer_extend_fill_def buffer_remaining_ok rassert_def)
qed

end
