(* ===== verification/Buffer_Theorems.thy ===== *)
theory Buffer_Theorems
  imports Buffer
begin

text \<open>
  What transfer buffers guarantee: every constructor establishes the invariant, every sequence of
  operations of the public interface keeps it, never touches memory it must not touch and behaves
  like an array of bytes with a capacity (a refinement); conversion from and to \<open>Vec\<close> is the
  identity.
\<close>

section \<open>The contract that writers of a buffer rely on\<close>

locale byte_sink =
  fixes ok :: "'b \<Rightarrow> bool"
    and contents :: "'b \<Rightarrow> bytes"
    and limit :: "'b \<Rightarrow> nat"
    and extend :: "bytes \<Rightarrow> 'b \<Rightarrow> 'b outcome"
    and reset :: "'b \<Rightarrow> 'b"
  assumes extend_fits: "ok b \<Longrightarrow> length (contents b) + length xs \<le> limit b \<Longrightarrow>
      \<exists>b'. extend xs b = Ret b' \<and> ok b' \<and> contents b' = contents b @ xs \<and> limit b' = limit b"
    and extend_full: "ok b \<Longrightarrow> limit b < length (contents b) + length xs \<Longrightarrow> extend xs b = Panic"
    and reset_ok: "ok b \<Longrightarrow> ok (reset b) \<and> contents (reset b) = [] \<and> limit (reset b) = limit b"
    and within: "ok b \<Longrightarrow> length (contents b) \<le> limit b"
begin

text \<open>Appending in pieces is appending the whole, and it panics exactly when the whole does.\<close>

fun extend_all :: "bytes list \<Rightarrow> 'b \<Rightarrow> 'b outcome" where
  "extend_all [] b = Ret b"
| "extend_all (xs # xss) b = obind (extend xs b) (extend_all xss)"

lemma extend_all_fits:
  "ok b \<Longrightarrow> length (contents b) + length (concat xss) \<le> limit b \<Longrightarrow>
    \<exists>b'. extend_all xss b = Ret b' \<and> ok b' \<and> contents b' = contents b @ concat xss \<and> limit b' = limit b"
proof (induction xss arbitrary: b)
  case (Cons xs xss)
  have "length (contents b) + length xs \<le> limit b" using Cons.prems(2) by simp
  from extend_fits [OF Cons.prems(1) this] obtain b1 where
    b1: "extend xs b = Ret b1" "ok b1" "contents b1 = contents b @ xs" "limit b1 = limit b" by blast
  from Cons.IH [OF b1(2)] Cons.prems(2) b1(3,4) obtain b2 where
    "extend_all xss b1 = Ret b2" "ok b2" "contents b2 = contents b1 @ concat xss" "limit b2 = limit b1"
    by auto
  with b1 show ?case by simp
qed simp

lemma extend_all_full:
  "ok b \<Longrightarrow> limit b < length (contents b) + length (concat xss) \<Longrightarrow> extend_all xss b = Panic"
proof (induction xss arbitrary: b)
  case Nil
  then show ?case using within [of b] by simp
next
  case (Cons xs xss)
  show ?case
  proof (cases "length (contents b) + length xs \<le> limit b")
    case True
    from extend_fits [OF Cons.prems(1) True] obtain b1 where
      b1: "extend xs b = Ret b1" "ok b1" "contents b1 = contents b @ xs" "limit b1 = limit b" by blast
    with Cons.IH [OF b1(2)] Cons.prems(2) show ?thesis by simp
  next
    case False
    with extend_full [OF Cons.prems(1), of xs] show ?thesis by simp
  qed
qed

end

lemma buffer_clear_ok: "buffer_ok b \<Longrightarrow> buffer_ok (buffer_clear b)"
  by (simp add: buffer_ok_def buffer_clear_def)

lemma buffer_bytes_clear: "buffer_bytes (buffer_clear b) = []"
  by (simp add: buffer_bytes_def buffer_clear_def)

interpretation sink: byte_sink buffer_ok buffer_bytes buffer_capacity buffer_extend_from_slice buffer_clear
proof unfold_locales
  fix b and xs :: bytes
  assume b: "buffer_ok b" and fit: "length (buffer_bytes b) + length xs \<le> buffer_capacity b"
  have "buffer_capacity (appended xs b) = buffer_capacity b"
    by (simp add: appended_def buffer_capacity_def)
  with appended_ok [OF b, of xs] fit show "\<exists>b'. buffer_extend_from_slice xs b = Ret b' \<and> buffer_ok b' \<and>
      buffer_bytes b' = buffer_bytes b @ xs \<and> buffer_capacity b' = buffer_capacity b"
    by (simp add: buffer_extend_from_slice_eq [OF b] length_buffer_bytes [OF b])
qed (auto simp: buffer_extend_from_slice_eq length_buffer_bytes buffer_clear_ok buffer_bytes_clear
    buffer_len_le, simp add: buffer_clear_def buffer_capacity_def)

section \<open>Sequences of operations\<close>

datatype buffer_op =
    OpSetRequestedLen nat
  | OpClear
  | OpExtendFill nat u8
  | OpExtendFromSlice bytes
  | OpStore nat u8

fun buffer_step :: "buffer_op \<Rightarrow> Buffer \<Rightarrow> Buffer outcome" where
  "buffer_step (OpSetRequestedLen n) b = buffer_set_requested_len n b"
| "buffer_step OpClear b = Ret (buffer_clear b)"
| "buffer_step (OpExtendFill n v) b = omap fst (buffer_extend_fill n v b)"
| "buffer_step (OpExtendFromSlice xs) b = buffer_extend_from_slice xs b"
| "buffer_step (OpStore i v) b = buffer_deref_mut i v b"

fun buffer_run :: "buffer_op list \<Rightarrow> Buffer \<Rightarrow> Buffer outcome" where
  "buffer_run [] b = Ret b"
| "buffer_run (op # ops) b = obind (buffer_step op b) (buffer_run ops)"

text \<open>The specification: contents, requested length and capacity.\<close>

record buffer_spec =
  sp_bytes :: bytes
  sp_requested :: nat
  sp_capacity :: nat

definition buffer_abs :: "Buffer \<Rightarrow> buffer_spec" where
  "buffer_abs b = \<lparr>sp_bytes = buffer_bytes b, sp_requested = buffer_requested_len b,
     sp_capacity = buffer_capacity b\<rparr>"

fun spec_step :: "buffer_op \<Rightarrow> buffer_spec \<Rightarrow> buffer_spec outcome" where
  "spec_step (OpSetRequestedLen n) s =
     (if n \<le> sp_capacity s then Ret (s\<lparr>sp_requested := n\<rparr>) else Panic)"
| "spec_step OpClear s = Ret (s\<lparr>sp_bytes := []\<rparr>)"
| "spec_step (OpExtendFill n v) s =
     (if length (sp_bytes s) + n \<le> sp_capacity s
      then Ret (s\<lparr>sp_bytes := sp_bytes s @ replicate n v\<rparr>) else Panic)"
| "spec_step (OpExtendFromSlice xs) s =
     (if length (sp_bytes s) + length xs \<le> sp_capacity s
      then Ret (s\<lparr>sp_bytes := sp_bytes s @ xs\<rparr>) else Panic)"
| "spec_step (OpStore i v) s =
     (if i < length (sp_bytes s) then Ret (s\<lparr>sp_bytes := (sp_bytes s)[i := v]\<rparr>) else Panic)"

fun spec_run :: "buffer_op list \<Rightarrow> buffer_spec \<Rightarrow> buffer_spec outcome" where
  "spec_run [] s = Ret s"
| "spec_run (op # ops) s = obind (spec_step op s) (spec_run ops)"

lemma buffer_set_requested_len_eq:
  "buffer_set_requested_len n b =
     (if n \<le> buffer_capacity b then Ret (b\<lparr>buf_requested_len := of_nat n\<rparr>) else Panic)"
  using unat_u32_lt [of "buf_capacity b"]
  by (auto simp: buffer_set_requested_len_def rassert_def buffer_capacity_def try_u32_def)

lemma set_requested_len_ok:
  assumes "buffer_ok b" "n \<le> buffer_capacity b"
  shows "buffer_ok (b\<lparr>buf_requested_len := of_nat n\<rparr>)"
    "buffer_requested_len (b\<lparr>buf_requested_len := of_nat n\<rparr>) = n"
  using assms unat_u32_lt [of "buf_capacity b"] unat_of_nat_u32 [of n]
  by (simp_all add: buffer_ok_def buffer_capacity_def buffer_requested_len_def)

lemma raw_write_one:
  "i < length m \<Longrightarrow> raw_write m i [v] = Ret (m[i := Some v])"
  by (simp add: raw_write_def upd_conv_take_nth_drop)

definition stored :: "nat \<Rightarrow> u8 \<Rightarrow> Buffer \<Rightarrow> Buffer" where
  "stored i v b = b\<lparr>buf_mem := (buf_mem b)[i := Some v]\<rparr>"

lemma buffer_deref_mut_eq:
  assumes ok: "buffer_ok b"
  shows "buffer_deref_mut i v b = (if i < buffer_len b then Ret (stored i v b) else Panic)"
proof -
  have r: "raw_read (buf_mem b) 0 (unat (buf_len b)) = Ret (buffer_bytes b)"
    using buffer_deref_ok [OF ok] by (simp add: buffer_deref_def)
  have "i < buffer_len b \<Longrightarrow> i < length (buf_mem b)"
    using ok by (simp add: buffer_ok_def buffer_len_def)
  then show ?thesis
    by (simp add: buffer_deref_mut_def r rassert_def length_buffer_bytes [OF ok] raw_write_one stored_def)
qed

lemma stored_ok:
  assumes "buffer_ok b" "i < buffer_len b"
  shows "buffer_ok (stored i v b)" "buffer_bytes (stored i v b) = (buffer_bytes b)[i := v]"
proof -
  show "buffer_ok (stored i v b)"
    using assms by (auto simp: stored_def buffer_ok_def list_all_iff take_update_swap
        dest!: set_update_subset_insert [THEN subsetD])
  show "buffer_bytes (stored i v b) = (buffer_bytes b)[i := v]"
    by (simp add: stored_def buffer_bytes_def take_update_swap map_update)
qed

lemma buffer_step_refines:
  assumes ok: "buffer_ok b"
  shows "omap buffer_abs (buffer_step op b) = spec_step op (buffer_abs b)"
    "buffer_step op b = Ret b' \<Longrightarrow> buffer_ok b' \<and> buf_allocator b' = buf_allocator b"
proof -
  have ap: "buffer_capacity (appended xs b) = buffer_capacity b"
    "buffer_requested_len (appended xs b) = buffer_requested_len b"
    "buf_allocator (appended xs b) = buf_allocator b" for xs
    by (simp_all add: appended_def buffer_capacity_def buffer_requested_len_def)
  note [simp] = ap length_buffer_bytes [OF ok] appended_ok [OF ok] stored_ok [OF ok]
    buffer_extend_fill_eq [OF ok] buffer_extend_from_slice_eq [OF ok] buffer_deref_mut_eq [OF ok]
    buffer_set_requested_len_eq set_requested_len_ok [OF ok] buffer_clear_ok [OF ok] buffer_bytes_clear
  show "omap buffer_abs (buffer_step op b) = spec_step op (buffer_abs b)"
    by (cases op) (auto simp: buffer_abs_def,
      simp_all add: buffer_clear_def stored_def buffer_capacity_def buffer_requested_len_def buffer_bytes_def)
  show "buffer_step op b = Ret b' \<Longrightarrow> buffer_ok b' \<and> buf_allocator b' = buf_allocator b"
    by (cases op) (auto split: if_splits, simp_all add: buffer_clear_def stored_def)
qed

text \<open>
  C16. Any sequence of operations on a well-formed buffer behaves like the same sequence on an array
  of bytes with a capacity: it panics exactly when an operation would exceed the capacity (or index
  past the contents), it never touches uninitialised memory or memory outside the allocation, and
  it leaves a well-formed buffer with the same allocator.
\<close>

theorem buffer_refines_bounded_array:
  assumes "buffer_ok b"
  shows "omap buffer_abs (buffer_run ops b) = spec_run ops (buffer_abs b) \<and>
    (case buffer_run ops b of
       Ret b' \<Rightarrow> buffer_ok b' \<and> buf_allocator b' = buf_allocator b
     | Panic \<Rightarrow> True | UB \<Rightarrow> False | Diverge \<Rightarrow> False)"
  using assms
proof (induction ops arbitrary: b)
  case (Cons op ops)
  note r = buffer_step_refines [OF Cons.prems, of op]
  show ?case
  proof (cases "buffer_step op b")
    case (Ret b1)
    with r have "spec_step op (buffer_abs b) = Ret (buffer_abs b1)" "buffer_ok b1"
      "buf_allocator b1 = buf_allocator b" by (metis omap.simps(1), blast+)
    with Cons.IH [of b1] Ret show ?thesis by (simp cong: outcome.case_cong)
  next
    case Panic
    with r(1) have "spec_step op (buffer_abs b) = Panic" by (metis omap.simps(2))
    with Panic show ?thesis by simp
  next
    case UB
    with r(1) have "spec_step op (buffer_abs b) = UB" by (metis omap.simps(3))
    then show ?thesis by (cases op) (auto split: if_splits)
  next
    case Diverge
    with r(1) have "spec_step op (buffer_abs b) = Diverge" by (metis omap.simps(4))
    then show ?thesis by (cases op) (auto split: if_splits)
  qed
qed simp

section \<open>Constructors\<close>

lemma buffer_new_ok:
  assumes "n \<le> alloc n" "alloc n < 2 ^ 32"
  shows "\<exists>b. buffer_new alloc n = Ret b \<and> buffer_ok b \<and> buffer_bytes b = [] \<and>
    buffer_requested_len b = n \<and> buffer_capacity b = alloc n"
  using assms unat_of_nat_u32 [of n] unat_of_nat_u32 [of "alloc n"]
  by (simp add: buffer_new_def try_u32_def buffer_ok_def buffer_bytes_def buffer_requested_len_def
      buffer_capacity_def)

text \<open>The conditions under which allocation panics; \<open>with_capacity\<close> gives at least what is asked.\<close>

lemma buffer_new_panic: "n \<le> alloc n \<Longrightarrow> 2 ^ 32 \<le> alloc n \<Longrightarrow> buffer_new alloc n = Panic"
  by (auto simp: buffer_new_def try_u32_def)

lemma buffer_mmap_ok:
  assumes "n < 2 ^ 32" "kmmap n = Inr m" "length m = n"
  shows "\<exists>b. buffer_mmap kmmap n = Ret (Inr b) \<and> buffer_ok b \<and> buffer_bytes b = [] \<and>
    buffer_requested_len b = n \<and> buffer_capacity b = n \<and> buffer_is_zero_copy b"
  using assms unat_of_nat_u32 [of n]
  by (simp add: buffer_mmap_def try_u32_def buffer_ok_def buffer_bytes_def buffer_requested_len_def
      buffer_capacity_def buffer_is_zero_copy_def)

lemma buffer_from_uninit_vec_ok:
  assumes "vec_len v \<le> vec_capacity v" "vec_capacity v < 2 ^ 32"
  shows "\<exists>b. buffer_from_uninit_vec v = Ret b \<and> buffer_ok b \<and> buffer_bytes b = [] \<and>
    buffer_requested_len b = vec_len v \<and> buffer_capacity b = vec_capacity v"
  using assms unat_of_nat_u32 [of "vec_len v"] unat_of_nat_u32 [of "vec_capacity v"]
  by (simp add: buffer_from_uninit_vec_def try_u32_def buffer_ok_def buffer_bytes_def
      buffer_requested_len_def buffer_capacity_def vec_capacity_def)

lemma buffer_from_vec_ok:
  assumes "vec_ok v" "vec_capacity v < 2 ^ 32"
  shows "\<exists>b. buffer_from_vec v = Ret b \<and> buffer_ok b \<and>
    buffer_bytes b = map the (take (vec_len v) (vec_mem v)) \<and>
    buffer_requested_len b = vec_len v \<and> buffer_into_vec b = Ret v"
  using assms unat_of_nat_u32 [of "vec_len v"] unat_of_nat_u32 [of "vec_capacity v"]
  by (simp add: buffer_from_vec_def try_u32_def buffer_ok_def buffer_bytes_def vec_ok_def
      buffer_requested_len_def buffer_into_vec_def vec_capacity_def)

text \<open>
  A \<open>Vec\<close> whose capacity fits 32 bits becomes a well-formed buffer with its bytes as contents
  and its length as the requested length, and converting back gives the same vector, spare capacity
  included; a larger capacity panics.
\<close>

theorem buffer_vec_roundtrip:
  assumes "vec_ok v"
  shows "if vec_capacity v < 2 ^ 32
    then \<exists>b. buffer_from_vec v = Ret b \<and> buffer_ok b \<and>
      buffer_deref b = Ret (map the (take (vec_len v) (vec_mem v))) \<and>
      buffer_requested_len b = vec_len v \<and> buffer_into_vec b = Ret v
    else buffer_from_vec v = Panic"
proof (cases "vec_capacity v < 2 ^ 32")
  case True
  from buffer_from_vec_ok [OF assms this] obtain b where
    "buffer_from_vec v = Ret b" "buffer_ok b" "buffer_bytes b = map the (take (vec_len v) (vec_mem v))"
    "buffer_requested_len b = vec_len v" "buffer_into_vec b = Ret v" by blast
  with True buffer_deref_ok [of b] show ?thesis by auto
next
  case False
  then show ?thesis by (auto simp: buffer_from_vec_def try_u32_def)
qed

theorem buffer_vec_roundtrip_witness:
  "buffer_from_vec \<lparr>vec_mem = [Some 7, Some 8, None], vec_len = 2\<rparr> =
     Ret \<lparr>buf_mem = [Some 7, Some 8, None], buf_len = 2, buf_requested_len = 2, buf_capacity = 3,
          buf_allocator = AllocDefault\<rparr> \<and>
   (if vec_capacity \<lparr>vec_mem = [Some 7, Some 8, None], vec_len = 2\<rparr> < 2 ^ 32
    then \<exists>b. buffer_from_vec \<lparr>vec_mem = [Some 7, Some 8, None], vec_len = 2\<rparr> = Ret b \<and> buffer_ok b \<and>
      buffer_deref b = Ret (map the (take (vec_len \<lparr>vec_mem = [Some 7, Some 8, None], vec_len = 2\<rparr>)
        (vec_mem \<lparr>vec_mem = [Some (7 :: u8), Some 8, None], vec_len = 2\<rparr>))) \<and>
      buffer_requested_len b = vec_len \<lparr>vec_mem = [Some (7 :: u8), Some 8, None], vec_len = 2\<rparr> \<and>
      buffer_into_vec b = Ret \<lparr>vec_mem = [Some 7, Some 8, None], vec_len = 2\<rparr>
    else buffer_from_vec \<lparr>vec_mem = [Some 7, Some 8, None], vec_len = 2\<rparr> = Panic)"
proof (rule conjI)
  show "buffer_from_vec \<lparr>vec_mem = [Some 7, Some 8, None], vec_len = 2\<rparr> =
     Ret \<lparr>buf_mem = [Some 7, Some 8, None], buf_len = 2, buf_requested_len = 2, buf_capacity = 3,
          buf_allocator = AllocDefault\<rparr>"
    by (simp add: buffer_from_vec_def try_u32_def vec_capacity_def)
qed (rule buffer_vec_roundtrip, simp add: vec_ok_def vec_capacity_def)

theorem buffer_refines_bounded_array_witness:
  "omap buffer_abs (buffer_run [OpExtendFill 1 9, OpStore 0 7, OpExtendFromSlice [5, 6]]
      \<lparr>buf_mem = [None, None, None, None], buf_len = 0, buf_requested_len = 0, buf_capacity = 4,
       buf_allocator = AllocDefault\<rparr>) =
   Ret \<lparr>sp_bytes = [7, 5, 6], sp_requested = 0, sp_capacity = 4\<rparr>"
  by (subst buffer_refines_bounded_array [THEN conjunct1])
    (simp_all add: buffer_ok_def buffer_abs_def buffer_bytes_def buffer_requested_len_def
      buffer_capacity_def)

lemma buffer_drop_ok:
  "\<forall>n. kmunmap n = None \<Longrightarrow> buffer_drop kmunmap b = Ret ()"
  by (cases "buf_allocator b") (auto simp: buffer_drop_def)

end
