(* ===== verification/Transfer_State.thy ===== *)
theory Transfer_State
  imports Prelude
begin

text \<open>
  Transfers shared between their owner and the completion handler: src/src/transfer/internal.rs.
  A transfer is a heap block with platform data, an atomic state byte and a reference to the object
  to notify. \<open>Idle\<close> and \<open>Pending\<close> handles are pointers to it. The heap is explicit: a block that
  has been freed is \<open>None\<close> and touching it is \<open>UB\<close>; each function is one of the atomic steps of the
  protocol or a composition of them.
\<close>

section \<open>The heap\<close>

definition STATE_IDLE :: u8 where "STATE_IDLE = 0"
definition STATE_PENDING :: u8 where "STATE_PENDING = 1"
definition STATE_ABANDONED :: u8 where "STATE_ABANDONED = 2"

lemmas state_defs = STATE_IDLE_def STATE_PENDING_def STATE_ABANDONED_def

text \<open>\<open>NotifyState\<close>: nobody waits, a task's waker, a parked thread.\<close>

datatype NotifyState = NotifyNone | NotifyWaker nat | NotifyThread nat

record 'p TransferInner =
  ti_platform_data :: 'p
  ti_state :: u8
  ti_notify :: nat

text \<open>The blocks, the next fresh address and the \<open>Notify\<close> objects.\<close>

record 'p tx_heap =
  th_mem :: "nat \<Rightarrow> 'p TransferInner option"
  th_next :: nat
  th_notify :: "nat \<Rightarrow> NotifyState"

datatype Idle = Idle (idle_ptr: nat)
datatype Pending = Pending (pending_ptr: nat)

definition th_load :: "'p tx_heap \<Rightarrow> nat \<Rightarrow> 'p TransferInner outcome" where
  "th_load h p = (case th_mem h p of None \<Rightarrow> UB | Some i \<Rightarrow> Ret i)"

definition th_store :: "nat \<Rightarrow> 'p TransferInner \<Rightarrow> 'p tx_heap \<Rightarrow> 'p tx_heap" where
  "th_store p i h = h\<lparr>th_mem := (th_mem h)(p := Some i)\<rparr>"

definition th_free :: "nat \<Rightarrow> 'p tx_heap \<Rightarrow> 'p tx_heap outcome" where
  "th_free p h =
     (case th_mem h p of None \<Rightarrow> UB | Some i \<Rightarrow> Ret (h\<lparr>th_mem := (th_mem h)(p := None)\<rparr>))"

text \<open>\<open>AtomicU8::swap\<close> on the state: the old value and the new heap.\<close>

definition state_swap :: "nat \<Rightarrow> u8 \<Rightarrow> 'p tx_heap \<Rightarrow> (u8 \<times> 'p tx_heap) outcome" where
  "state_swap p s h =
     obind (th_load h p) (\<lambda>i. Ret (ti_state i, th_store p (i\<lparr>ti_state := s\<rparr>) h))"

section \<open>Notify\<close>

definition notify_take :: "nat \<Rightarrow> 'p tx_heap \<Rightarrow> NotifyState \<times> 'p tx_heap" where
  "notify_take n h = (th_notify h n, h\<lparr>th_notify := (th_notify h)(n := NotifyNone)\<rparr>)"

definition notify_subscribe :: "nat \<Rightarrow> nat \<Rightarrow> 'p tx_heap \<Rightarrow> 'p tx_heap" where
  "notify_subscribe n waker h = h\<lparr>th_notify := (th_notify h)(n := NotifyWaker waker)\<rparr>"

definition notify_subscribe_thread :: "nat \<Rightarrow> nat \<Rightarrow> 'p tx_heap \<Rightarrow> 'p tx_heap" where
  "notify_subscribe_thread n t h = h\<lparr>th_notify := (th_notify h)(n := NotifyThread t)\<rparr>"

section \<open>Idle handles\<close>

definition idle_new :: "nat \<Rightarrow> 'p \<Rightarrow> 'p tx_heap \<Rightarrow> Idle \<times> 'p tx_heap" where
  "idle_new notify inner h =
     (Idle (th_next h),
      (th_store (th_next h)
         \<lparr>ti_platform_data = inner, ti_state = STATE_IDLE, ti_notify = notify\<rparr> h)
      \<lparr>th_next := th_next h + 1\<rparr>)"

definition idle_deref :: "Idle \<Rightarrow> 'p tx_heap \<Rightarrow> 'p outcome" where
  "idle_deref t h = omap ti_platform_data (th_load h (idle_ptr t))"

definition idle_deref_mut :: "('p \<Rightarrow> 'p) \<Rightarrow> Idle \<Rightarrow> 'p tx_heap \<Rightarrow> 'p tx_heap outcome" where
  "idle_deref_mut f t h =
     obind (th_load h (idle_ptr t)) (\<lambda>i.
       Ret (th_store (idle_ptr t) (i\<lparr>ti_platform_data := f (ti_platform_data i)\<rparr>) h))"

definition pre_submit :: "Idle \<Rightarrow> 'p tx_heap \<Rightarrow> (Pending \<times> 'p tx_heap) outcome" where
  "pre_submit t h =
     obind (state_swap (idle_ptr t) STATE_PENDING h) (\<lambda>(prev, h').
     rassert (prev = STATE_IDLE) (Ret (Pending (idle_ptr t), h')))"

definition simulate_complete :: "Idle \<Rightarrow> Pending" where
  "simulate_complete t = Pending (idle_ptr t)"

definition idle_drop :: "Idle \<Rightarrow> 'p tx_heap \<Rightarrow> 'p tx_heap outcome" where
  "idle_drop t h = th_free (idle_ptr t) h"

section \<open>Pending handles\<close>

definition is_complete :: "Pending \<Rightarrow> 'p tx_heap \<Rightarrow> bool outcome" where
  "is_complete t h =
     obind (th_load h (pending_ptr t)) (\<lambda>i.
       if ti_state i = STATE_PENDING then Ret False
       else if ti_state i = STATE_IDLE then Ret True
       else Panic)"

definition into_idle :: "Pending \<Rightarrow> 'p tx_heap \<Rightarrow> Idle outcome" where
  "into_idle t h = obind (is_complete t h) (\<lambda>c. rassert c (Ret (Idle (pending_ptr t))))"

definition take_completed_from_queue ::
  "Pending list \<Rightarrow> 'p tx_heap \<Rightarrow> (Idle option \<times> Pending list) outcome" where
  "take_completed_from_queue queue h =
     (case queue of
        [] \<Rightarrow> Panic
      | t # rest \<Rightarrow>
          obind (is_complete t h) (\<lambda>c.
            if c then obind (into_idle t h) (\<lambda>i. Ret (Some i, rest)) else Ret (None, queue)))"

definition take_completed_from_option ::
  "Pending option \<Rightarrow> 'p tx_heap \<Rightarrow> (Idle option \<times> Pending option) outcome" where
  "take_completed_from_option opt h =
     (case opt of
        None \<Rightarrow> Ret (None, opt)
      | Some t \<Rightarrow>
          obind (is_complete t h) (\<lambda>c.
            if c then obind (into_idle t h) (\<lambda>i. Ret (Some i, None)) else Ret (None, opt)))"

definition pending_drop :: "Pending \<Rightarrow> 'p tx_heap \<Rightarrow> 'p tx_heap outcome" where
  "pending_drop t h =
     obind (state_swap (pending_ptr t) STATE_ABANDONED h) (\<lambda>(prev, h').
       if prev = STATE_PENDING then Ret h'
       else if prev = STATE_IDLE then th_free (pending_ptr t) h'
       else Panic)"

section \<open>Completion\<close>

text \<open>
  The two atomic steps of \<open>notify_completion\<close>, in the order of the source: the subscriber is taken,
  then the state is swapped. The result is what is to be notified.
\<close>

definition completion_take :: "nat \<Rightarrow> 'p tx_heap \<Rightarrow> (NotifyState \<times> 'p tx_heap) outcome" where
  "completion_take p h = obind (th_load h p) (\<lambda>i. Ret (notify_take (ti_notify i) h))"

definition completion_swap ::
  "nat \<Rightarrow> NotifyState \<Rightarrow> 'p tx_heap \<Rightarrow> (NotifyState \<times> 'p tx_heap) outcome" where
  "completion_swap p wake h =
     obind (state_swap p STATE_IDLE h) (\<lambda>(prev, h').
       if prev = STATE_PENDING then Ret (wake, h')
       else if prev = STATE_ABANDONED then obind (th_free p h') (\<lambda>h''. Ret (NotifyNone, h''))
       else Panic)"

definition notify_completion :: "nat \<Rightarrow> 'p tx_heap \<Rightarrow> (NotifyState \<times> 'p tx_heap) outcome" where
  "notify_completion p h = obind (completion_take p h) (\<lambda>(wake, h'). completion_swap p wake h')"

section \<open>TransferFuture\<close>

record TransferFuture =
  tf_transfer :: "Pending option"
  tf_notify :: nat

text \<open>\<open>submit\<close> is the closure that hands the transfer to the kernel; \<open>n\<close> the new \<open>Notify\<close>.\<close>

definition transfer_future_new ::
  "nat \<Rightarrow> 'p \<Rightarrow> (Idle \<Rightarrow> 'p tx_heap \<Rightarrow> (Pending \<times> 'p tx_heap) outcome) \<Rightarrow> 'p tx_heap \<Rightarrow>
   (TransferFuture \<times> 'p tx_heap) outcome" where
  "transfer_future_new n transfer submit h =
     (case idle_new n transfer (h\<lparr>th_notify := (th_notify h)(n := NotifyNone)\<rparr>) of
        (t, h1) \<Rightarrow> obind (submit t h1) (\<lambda>(pnd, h2).
          Ret (\<lparr>tf_transfer = Some pnd, tf_notify = n\<rparr>, h2)))"

text \<open>\<open>poll\<close> by a task with the given waker: \<open>None\<close> is \<open>Poll::Pending\<close>.\<close>

definition transfer_future_poll ::
  "nat \<Rightarrow> TransferFuture \<Rightarrow> 'p tx_heap \<Rightarrow> (Idle option \<times> TransferFuture \<times> 'p tx_heap) outcome" where
  "transfer_future_poll waker fut h =
     (let h' = notify_subscribe (tf_notify fut) waker h
      in obind (take_completed_from_option (tf_transfer fut) h') (\<lambda>(r, opt).
           Ret (r, fut\<lparr>tf_transfer := opt\<rparr>, h')))"

section \<open>The system\<close>

text \<open>
  The owner holds idle handles and a queue of pending ones, the kernel the pointers of the
  transfers it was given. The two lists at the end record what was submitted and what was taken
  back, in order.
\<close>

record 'p tx_sys =
  sys_heap :: "'p tx_heap"
  sys_idles :: "Idle list"
  sys_queue :: "Pending list"
  sys_kernel :: "nat list"
  sys_submitted :: "nat list"
  sys_returned :: "nat list"

definition sys_init :: "'p tx_sys" where
  "sys_init = \<lparr>sys_heap = \<lparr>th_mem = (\<lambda>p. None), th_next = 0, th_notify = (\<lambda>n. NotifyNone)\<rparr>,
     sys_idles = [], sys_queue = [], sys_kernel = [], sys_submitted = [], sys_returned = []\<rparr>"

text \<open>
  The steps the owner and the completion handler can take. Rust's ownership lets the owner use only
  handles it holds; the kernel completes only transfers it has.
\<close>

definition sys_new :: "nat \<Rightarrow> 'p \<Rightarrow> 'p tx_sys \<Rightarrow> 'p tx_sys outcome" where
  "sys_new notify inner s =
     (case idle_new notify inner (sys_heap s) of
        (t, h) \<Rightarrow> Ret (s\<lparr>sys_heap := h, sys_idles := t # sys_idles s\<rparr>))"

definition sys_submit :: "Idle \<Rightarrow> 'p tx_sys \<Rightarrow> 'p tx_sys outcome" where
  "sys_submit t s =
     obind (pre_submit t (sys_heap s)) (\<lambda>(pnd, h).
       Ret (s\<lparr>sys_heap := h, sys_idles := remove1 t (sys_idles s), sys_queue := sys_queue s @ [pnd],
              sys_kernel := pending_ptr pnd # sys_kernel s,
              sys_submitted := sys_submitted s @ [pending_ptr pnd]\<rparr>))"

definition sys_submit_failed :: "Idle \<Rightarrow> 'p tx_sys \<Rightarrow> 'p tx_sys outcome" where
  "sys_submit_failed t s =
     Ret (s\<lparr>sys_idles := remove1 t (sys_idles s), sys_queue := sys_queue s @ [simulate_complete t],
            sys_submitted := sys_submitted s @ [idle_ptr t]\<rparr>)"

definition sys_take :: "'p tx_sys \<Rightarrow> 'p tx_sys outcome" where
  "sys_take s =
     obind (take_completed_from_queue (sys_queue s) (sys_heap s)) (\<lambda>(r, q).
       case r of
         None \<Rightarrow> Ret (s\<lparr>sys_queue := q\<rparr>)
       | Some t \<Rightarrow> Ret (s\<lparr>sys_queue := q, sys_idles := t # sys_idles s,
                         sys_returned := sys_returned s @ [idle_ptr t]\<rparr>))"

definition sys_write :: "('p \<Rightarrow> 'p) \<Rightarrow> Idle \<Rightarrow> 'p tx_sys \<Rightarrow> 'p tx_sys outcome" where
  "sys_write f t s =
     obind (idle_deref_mut f t (sys_heap s)) (\<lambda>h. Ret (s\<lparr>sys_heap := h\<rparr>))"

definition sys_drop_idle :: "Idle \<Rightarrow> 'p tx_sys \<Rightarrow> 'p tx_sys outcome" where
  "sys_drop_idle t s =
     obind (idle_drop t (sys_heap s)) (\<lambda>h.
       Ret (s\<lparr>sys_heap := h, sys_idles := remove1 t (sys_idles s)\<rparr>))"

definition sys_drop_front :: "'p tx_sys \<Rightarrow> 'p tx_sys outcome" where
  "sys_drop_front s =
     (case sys_queue s of
        [] \<Rightarrow> Ret s
      | t # q \<Rightarrow> obind (pending_drop t (sys_heap s)) (\<lambda>h.
          Ret (s\<lparr>sys_heap := h, sys_queue := q,
                 sys_returned := sys_returned s @ [pending_ptr t]\<rparr>)))"

definition sys_complete :: "nat \<Rightarrow> 'p tx_sys \<Rightarrow> 'p tx_sys outcome" where
  "sys_complete p s =
     obind (notify_completion p (sys_heap s)) (\<lambda>(w, h).
       Ret (s\<lparr>sys_heap := h, sys_kernel := remove1 p (sys_kernel s)\<rparr>))"

definition sys_subscribe :: "nat \<Rightarrow> nat \<Rightarrow> 'p tx_sys \<Rightarrow> 'p tx_sys outcome" where
  "sys_subscribe n w s = Ret (s\<lparr>sys_heap := notify_subscribe n w (sys_heap s)\<rparr>)"

inductive tx_step :: "'p tx_sys \<Rightarrow> 'p tx_sys outcome \<Rightarrow> bool" where
  step_new: "tx_step s (sys_new n d s)"
| step_submit: "t \<in> set (sys_idles s) \<Longrightarrow> tx_step s (sys_submit t s)"
| step_submit_failed: "t \<in> set (sys_idles s) \<Longrightarrow> tx_step s (sys_submit_failed t s)"
| step_take: "sys_queue s \<noteq> [] \<Longrightarrow> tx_step s (sys_take s)"
| step_write: "t \<in> set (sys_idles s) \<Longrightarrow> tx_step s (sys_write f t s)"
| step_drop_idle: "t \<in> set (sys_idles s) \<Longrightarrow> tx_step s (sys_drop_idle t s)"
| step_drop_front: "tx_step s (sys_drop_front s)"
| step_complete: "p \<in> set (sys_kernel s) \<Longrightarrow> tx_step s (sys_complete p s)"
| step_subscribe: "tx_step s (sys_subscribe n w s)"

inductive tx_reach :: "'p tx_sys \<Rightarrow> bool" where
  reach_init: "tx_reach sys_init"
| reach_step: "tx_reach s \<Longrightarrow> tx_step s (Ret s') \<Longrightarrow> tx_reach s'"

inductive_cases tx_stepE: "tx_step s r"

section \<open>The invariant\<close>

text \<open>The state byte of the block at an address, \<open>None\<close> when there is no block.\<close>

definition st_at :: "'p tx_heap \<Rightarrow> nat \<Rightarrow> u8 option" where
  "st_at h p = map_option ti_state (th_mem h p)"

text \<open>
  A transfer belongs to exactly one of: an idle handle (state IDLE, the kernel does not have it),
  the queue (PENDING exactly while the kernel has it, else IDLE), the kernel alone (ABANDONED).
  Nothing else is on the heap.
\<close>

definition expected_state :: "'p tx_sys \<Rightarrow> nat \<Rightarrow> u8 option" where
  "expected_state s p =
     (if Idle p \<in> set (sys_idles s) then Some STATE_IDLE
      else if Pending p \<in> set (sys_queue s)
        then Some (if p \<in> set (sys_kernel s) then STATE_PENDING else STATE_IDLE)
      else if p \<in> set (sys_kernel s) then Some STATE_ABANDONED
      else None)"

definition sys_ok :: "'p tx_sys \<Rightarrow> bool" where
  "sys_ok s \<longleftrightarrow>
     distinct (sys_idles s) \<and> distinct (sys_queue s) \<and> distinct (sys_kernel s) \<and>
     (\<forall>p. \<not> (Idle p \<in> set (sys_idles s) \<and> (Pending p \<in> set (sys_queue s) \<or> p \<in> set (sys_kernel s)))) \<and>
     (\<forall>p. st_at (sys_heap s) p = expected_state s p) \<and>
     (\<forall>p. th_mem (sys_heap s) p \<noteq> None \<longrightarrow> p < th_next (sys_heap s)) \<and>
     sys_submitted s = sys_returned s @ map pending_ptr (sys_queue s)"

lemma st_at_Some: "st_at h p = Some v \<longleftrightarrow> (\<exists>i. th_mem h p = Some i \<and> ti_state i = v)"
  by (auto simp: st_at_def)

lemma st_at_None: "st_at h p = None \<longleftrightarrow> th_mem h p = None"
  by (auto simp: st_at_def)

lemma st_at_store: "st_at (th_store p i h) q = (if q = p then Some (ti_state i) else st_at h q)"
  by (simp add: st_at_def th_store_def)

lemma th_next_store [simp]: "th_next (th_store p i h) = th_next h"
  by (simp add: th_store_def)

lemma th_mem_store: "th_mem (th_store p i h) q = (if q = p then Some i else th_mem h q)"
  by (simp add: th_store_def)

lemma states_distinct [simp]:
  "STATE_IDLE \<noteq> STATE_PENDING" "STATE_PENDING \<noteq> STATE_IDLE" "STATE_ABANDONED \<noteq> STATE_PENDING"
  "STATE_ABANDONED \<noteq> STATE_IDLE" "STATE_IDLE \<noteq> STATE_ABANDONED" "STATE_PENDING \<noteq> STATE_ABANDONED"
  by (simp_all add: state_defs)

lemma sys_init_ok: "sys_ok sys_init"
  by (simp add: sys_ok_def sys_init_def st_at_def expected_state_def)

lemma idle_block:
  assumes "sys_ok s" "t \<in> set (sys_idles s)"
  obtains i where "th_mem (sys_heap s) (idle_ptr t) = Some i" "ti_state i = STATE_IDLE"
    "idle_ptr t \<notin> set (sys_kernel s)" "Pending (idle_ptr t) \<notin> set (sys_queue s)"
proof -
  have t: "t = Idle (idle_ptr t)" by (cases t) simp
  have "expected_state s (idle_ptr t) = Some STATE_IDLE"
    using assms(2) t by (simp add: expected_state_def)
  then have "st_at (sys_heap s) (idle_ptr t) = Some STATE_IDLE"
    using assms(1) by (simp add: sys_ok_def)
  moreover have "idle_ptr t \<notin> set (sys_kernel s)" "Pending (idle_ptr t) \<notin> set (sys_queue s)"
    using assms t unfolding sys_ok_def by metis+
  ultimately show thesis using that by (auto simp: st_at_Some)
qed

lemma kernel_block:
  assumes "sys_ok s" "p \<in> set (sys_kernel s)"
  obtains i where "th_mem (sys_heap s) p = Some i" "Idle p \<notin> set (sys_idles s)"
    "ti_state i = (if Pending p \<in> set (sys_queue s) then STATE_PENDING else STATE_ABANDONED)"
proof -
  have n: "Idle p \<notin> set (sys_idles s)" using assms unfolding sys_ok_def by metis
  then have "expected_state s p =
      Some (if Pending p \<in> set (sys_queue s) then STATE_PENDING else STATE_ABANDONED)"
    using assms(2) by (simp add: expected_state_def)
  then have "st_at (sys_heap s) p =
      Some (if Pending p \<in> set (sys_queue s) then STATE_PENDING else STATE_ABANDONED)"
    using assms(1) by (simp add: sys_ok_def)
  with n show thesis using that by (auto simp: st_at_Some)
qed

lemma queue_block:
  assumes "sys_ok s" "t \<in> set (sys_queue s)"
  obtains i where "th_mem (sys_heap s) (pending_ptr t) = Some i"
    "Idle (pending_ptr t) \<notin> set (sys_idles s)"
    "ti_state i = (if pending_ptr t \<in> set (sys_kernel s) then STATE_PENDING else STATE_IDLE)"
proof -
  have t: "t = Pending (pending_ptr t)" by (cases t) simp
  have n: "Idle (pending_ptr t) \<notin> set (sys_idles s)" using assms t unfolding sys_ok_def by metis
  then have "expected_state s (pending_ptr t) =
      Some (if pending_ptr t \<in> set (sys_kernel s) then STATE_PENDING else STATE_IDLE)"
    using assms(2) t by (simp add: expected_state_def)
  then have "st_at (sys_heap s) (pending_ptr t) =
      Some (if pending_ptr t \<in> set (sys_kernel s) then STATE_PENDING else STATE_IDLE)"
    using assms(1) by (simp add: sys_ok_def)
  with n show thesis using that by (auto simp: st_at_Some)
qed

end
