(* ===== verification/Transfer_Theorems.thy ===== *)
theory Transfer_Theorems
  imports Transfer_State
begin

text \<open>
  The ownership protocol of transfers is safe: in every reachable state every step returns (no
  failed assertion, no panic on the state byte, no access to freed memory, no double free), nothing
  leaks, and transfers come back in the order they were submitted.
\<close>

section \<open>Every step preserves the invariant\<close>

lemma sys_okI:
  assumes "distinct (sys_idles s)" "distinct (sys_queue s)" "distinct (sys_kernel s)"
    "\<And>p. Idle p \<in> set (sys_idles s) \<Longrightarrow> Pending p \<notin> set (sys_queue s) \<and> p \<notin> set (sys_kernel s)"
    "\<And>p. st_at (sys_heap s) p = expected_state s p"
    "\<And>p. th_mem (sys_heap s) p \<noteq> None \<Longrightarrow> p < th_next (sys_heap s)"
    "sys_submitted s = sys_returned s @ map pending_ptr (sys_queue s)"
  shows "sys_ok s"
  using assms by (auto simp: sys_ok_def)

lemma sys_okD:
  assumes "sys_ok s"
  shows "distinct (sys_idles s)" "distinct (sys_queue s)" "distinct (sys_kernel s)"
    "Idle p \<in> set (sys_idles s) \<Longrightarrow> Pending p \<notin> set (sys_queue s) \<and> p \<notin> set (sys_kernel s)"
    "st_at (sys_heap s) p = expected_state s p"
    "th_mem (sys_heap s) p \<noteq> None \<Longrightarrow> p < th_next (sys_heap s)"
    "sys_submitted s = sys_returned s @ map pending_ptr (sys_queue s)"
  using assms unfolding sys_ok_def by blast+

lemma fresh_unused:
  assumes "sys_ok s"
  shows "Idle (th_next (sys_heap s)) \<notin> set (sys_idles s)"
    "Pending (th_next (sys_heap s)) \<notin> set (sys_queue s)" "th_next (sys_heap s) \<notin> set (sys_kernel s)"
proof -
  have "th_mem (sys_heap s) (th_next (sys_heap s)) = None"
    using sys_okD(6) [OF assms, of "th_next (sys_heap s)"] by (metis less_irrefl)
  then have "expected_state s (th_next (sys_heap s)) = None"
    using sys_okD(5) [OF assms] by (metis st_at_None)
  then show "Idle (th_next (sys_heap s)) \<notin> set (sys_idles s)"
    "Pending (th_next (sys_heap s)) \<notin> set (sys_queue s)" "th_next (sys_heap s) \<notin> set (sys_kernel s)"
    by (auto simp: expected_state_def split: if_splits)
qed

lemma sys_new_ok [wf_intros]:
  assumes ok: "sys_ok s"
  shows "\<exists>s'. sys_new n d s = Ret s' \<and> sys_ok s'"
proof -
  let ?p = "th_next (sys_heap s)"
  let ?h = "snd (idle_new n d (sys_heap s))"
  let ?s = "s\<lparr>sys_heap := ?h, sys_idles := Idle ?p # sys_idles s\<rparr>"
  have st: "st_at ?h p = (if p = ?p then Some STATE_IDLE else st_at (sys_heap s) p)" for p
    by (simp add: idle_new_def st_at_def th_store_def)
  have "sys_ok ?s"
  proof (rule sys_okI)
    show "st_at (sys_heap ?s) p = expected_state ?s p" for p
      using st [of p] sys_okD(5) [OF ok, of p] by (auto simp: expected_state_def)
    show "th_mem (sys_heap ?s) p \<noteq> None \<Longrightarrow> p < th_next (sys_heap ?s)" for p
      using sys_okD(6) [OF ok, of p] by (auto simp: idle_new_def th_store_def split: if_splits)
  qed (use fresh_unused [OF ok] sys_okD [OF ok] in auto)
  then show ?thesis by (simp add: sys_new_def idle_new_def)
qed

lemma sys_submit_ok [wf_intros]:
  assumes ok: "sys_ok s" and t: "t \<in> set (sys_idles s)"
  shows "\<exists>s'. sys_submit t s = Ret s' \<and> sys_ok s'"
proof -
  obtain i where i: "th_mem (sys_heap s) (idle_ptr t) = Some i" "ti_state i = STATE_IDLE"
    "idle_ptr t \<notin> set (sys_kernel s)" "Pending (idle_ptr t) \<notin> set (sys_queue s)"
    using idle_block [OF ok t] .
  let ?p = "idle_ptr t"
  let ?h = "th_store ?p (i\<lparr>ti_state := STATE_PENDING\<rparr>) (sys_heap s)"
  let ?s = "s\<lparr>sys_heap := ?h, sys_idles := remove1 t (sys_idles s),
    sys_queue := sys_queue s @ [Pending ?p], sys_kernel := ?p # sys_kernel s,
    sys_submitted := sys_submitted s @ [?p]\<rparr>"
  have r: "sys_submit t s = Ret ?s"
    using i by (simp add: sys_submit_def pre_submit_def state_swap_def th_load_def)
  have tp: "t = Idle ?p" by (cases t) simp
  have idles: "Idle p \<in> set (remove1 t (sys_idles s)) \<longleftrightarrow> Idle p \<in> set (sys_idles s) \<and> p \<noteq> ?p" for p
    using sys_okD(1) [OF ok] tp by (metis Idle.inject Diff_iff empty_iff insert_iff set_remove1_eq)
  have "sys_ok ?s"
  proof (rule sys_okI)
    show "st_at (sys_heap ?s) p = expected_state ?s p" for p
      using sys_okD(5) [OF ok, of p] idles [of p] i
      by (auto simp: expected_state_def st_at_store)
    show "th_mem (sys_heap ?s) p \<noteq> None \<Longrightarrow> p < th_next (sys_heap ?s)" for p
      using sys_okD(6) [OF ok, of p] i by (auto simp: th_mem_store split: if_splits)
    show "Idle p \<in> set (sys_idles ?s) \<Longrightarrow> Pending p \<notin> set (sys_queue ?s) \<and> p \<notin> set (sys_kernel ?s)" for p
      using sys_okD(4) [OF ok, of p] idles [of p] by auto
  qed (use i sys_okD [OF ok] in auto)
  with r show ?thesis by blast
qed

lemma sys_submit_failed_ok [wf_intros]:
  assumes ok: "sys_ok s" and t: "t \<in> set (sys_idles s)"
  shows "\<exists>s'. sys_submit_failed t s = Ret s' \<and> sys_ok s'"
proof -
  obtain i where i: "th_mem (sys_heap s) (idle_ptr t) = Some i" "ti_state i = STATE_IDLE"
    "idle_ptr t \<notin> set (sys_kernel s)" "Pending (idle_ptr t) \<notin> set (sys_queue s)"
    using idle_block [OF ok t] .
  let ?p = "idle_ptr t"
  let ?s = "s\<lparr>sys_idles := remove1 t (sys_idles s), sys_queue := sys_queue s @ [Pending ?p],
    sys_submitted := sys_submitted s @ [?p]\<rparr>"
  have r: "sys_submit_failed t s = Ret ?s" by (simp add: sys_submit_failed_def simulate_complete_def)
  have tp: "t = Idle ?p" by (cases t) simp
  have idles: "Idle p \<in> set (remove1 t (sys_idles s)) \<longleftrightarrow> Idle p \<in> set (sys_idles s) \<and> p \<noteq> ?p" for p
    using sys_okD(1) [OF ok] tp by (metis Idle.inject Diff_iff empty_iff insert_iff set_remove1_eq)
  have "sys_ok ?s"
  proof (rule sys_okI)
    show "st_at (sys_heap ?s) p = expected_state ?s p" for p
      using sys_okD(5) [OF ok, of p] idles [of p] i by (auto simp: expected_state_def st_at_def)
    show "Idle p \<in> set (sys_idles ?s) \<Longrightarrow> Pending p \<notin> set (sys_queue ?s) \<and> p \<notin> set (sys_kernel ?s)" for p
      using sys_okD(4) [OF ok, of p] idles [of p] by auto
  qed (use i sys_okD [OF ok] in auto)
  with r show ?thesis by blast
qed

lemma is_complete_queue:
  assumes "sys_ok s" "t \<in> set (sys_queue s)"
  shows "is_complete t (sys_heap s) = Ret (pending_ptr t \<notin> set (sys_kernel s))"
proof -
  obtain i where "th_mem (sys_heap s) (pending_ptr t) = Some i"
    "ti_state i = (if pending_ptr t \<in> set (sys_kernel s) then STATE_PENDING else STATE_IDLE)"
    using queue_block [OF assms] .
  then show ?thesis by (simp add: is_complete_def th_load_def)
qed

lemma sys_take_eq:
  assumes "sys_ok s" "sys_queue s = t # q"
  shows "sys_take s = Ret (if pending_ptr t \<in> set (sys_kernel s) then s
    else s\<lparr>sys_queue := q, sys_idles := Idle (pending_ptr t) # sys_idles s,
           sys_returned := sys_returned s @ [pending_ptr t]\<rparr>)"
  using is_complete_queue [OF assms(1), of t] assms(2)
  by (simp add: sys_take_def take_completed_from_queue_def into_idle_def)

lemma sys_take_ok [wf_intros]:
  assumes ok: "sys_ok s" and q: "sys_queue s \<noteq> []"
  shows "\<exists>s'. sys_take s = Ret s' \<and> sys_ok s'"
proof -
  obtain t q where tq: "sys_queue s = t # q" using q by (cases "sys_queue s") auto
  show ?thesis
  proof (cases "pending_ptr t \<in> set (sys_kernel s)")
    case True
    with sys_take_eq [OF ok tq] ok show ?thesis by simp
  next
    case False
    let ?p = "pending_ptr t"
    let ?s = "s\<lparr>sys_queue := q, sys_idles := Idle ?p # sys_idles s, sys_returned := sys_returned s @ [?p]\<rparr>"
    have tp: "t = Pending ?p" by (cases t) simp
    have dq: "t \<notin> set q" using sys_okD(2) [OF ok] tq by simp
    have ni: "Idle ?p \<notin> set (sys_idles s)" using queue_block [OF ok, of t] tq by auto
    have pq: "Pending p \<in> set q \<longleftrightarrow> Pending p \<in> set (sys_queue s) \<and> p \<noteq> ?p" for p
      using dq tp unfolding tq by (metis Pending.inject list.set_intros(1,2) set_ConsD)
    have "sys_ok ?s"
    proof (rule sys_okI)
      show "st_at (sys_heap ?s) p = expected_state ?s p" for p
        using sys_okD(5) [OF ok, of p] pq [of p] ni False tp tq
        by (auto simp: expected_state_def)
      show "Idle p \<in> set (sys_idles ?s) \<Longrightarrow> Pending p \<notin> set (sys_queue ?s) \<and> p \<notin> set (sys_kernel ?s)" for p
        using sys_okD(4) [OF ok, of p] pq [of p] False by auto
    qed (use ni tq sys_okD [OF ok] in auto)
    with sys_take_eq [OF ok tq] False show ?thesis by simp
  qed
qed

lemma sys_write_ok [wf_intros]:
  assumes ok: "sys_ok s" and t: "t \<in> set (sys_idles s)"
  shows "\<exists>s'. sys_write f t s = Ret s' \<and> sys_ok s'"
proof -
  obtain i where i: "th_mem (sys_heap s) (idle_ptr t) = Some i" "ti_state i = STATE_IDLE"
    using idle_block [OF ok t] .
  let ?h = "th_store (idle_ptr t) (i\<lparr>ti_platform_data := f (ti_platform_data i)\<rparr>) (sys_heap s)"
  have r: "sys_write f t s = Ret (s\<lparr>sys_heap := ?h\<rparr>)"
    using i by (simp add: sys_write_def idle_deref_mut_def th_load_def)
  have st: "st_at ?h p = st_at (sys_heap s) p" for p using i by (simp add: st_at_def th_mem_store)
  have "sys_ok (s\<lparr>sys_heap := ?h\<rparr>)"
  proof (rule sys_okI)
    show "st_at (sys_heap (s\<lparr>sys_heap := ?h\<rparr>)) p = expected_state (s\<lparr>sys_heap := ?h\<rparr>) p" for p
      using sys_okD(5) [OF ok, of p] st [of p] by (simp add: expected_state_def)
    show "th_mem (sys_heap (s\<lparr>sys_heap := ?h\<rparr>)) p \<noteq> None \<Longrightarrow> p < th_next (sys_heap (s\<lparr>sys_heap := ?h\<rparr>))" for p
      using sys_okD(6) [OF ok, of p] i by (auto simp: th_mem_store split: if_splits)
  qed (use sys_okD [OF ok] in auto)
  with r show ?thesis by blast
qed

lemma sys_drop_idle_ok [wf_intros]:
  assumes ok: "sys_ok s" and t: "t \<in> set (sys_idles s)"
  shows "\<exists>s'. sys_drop_idle t s = Ret s' \<and> sys_ok s'"
proof -
  obtain i where i: "th_mem (sys_heap s) (idle_ptr t) = Some i"
    "idle_ptr t \<notin> set (sys_kernel s)" "Pending (idle_ptr t) \<notin> set (sys_queue s)"
    using idle_block [OF ok t] .
  let ?p = "idle_ptr t"
  let ?h = "(sys_heap s)\<lparr>th_mem := (th_mem (sys_heap s))(?p := None)\<rparr>"
  let ?s = "s\<lparr>sys_heap := ?h, sys_idles := remove1 t (sys_idles s)\<rparr>"
  have r: "sys_drop_idle t s = Ret ?s"
    using i by (simp add: sys_drop_idle_def idle_drop_def th_free_def)
  have tp: "t = Idle ?p" by (cases t) simp
  have idles: "Idle p \<in> set (remove1 t (sys_idles s)) \<longleftrightarrow> Idle p \<in> set (sys_idles s) \<and> p \<noteq> ?p" for p
    using sys_okD(1) [OF ok] tp by (metis Idle.inject Diff_iff empty_iff insert_iff set_remove1_eq)
  have "sys_ok ?s"
  proof (rule sys_okI)
    show "st_at (sys_heap ?s) p = expected_state ?s p" for p
      using sys_okD(5) [OF ok, of p] idles [of p] i
      by (auto simp: expected_state_def st_at_def)
    show "th_mem (sys_heap ?s) p \<noteq> None \<Longrightarrow> p < th_next (sys_heap ?s)" for p
      using sys_okD(6) [OF ok, of p] by (auto split: if_splits)
    show "Idle p \<in> set (sys_idles ?s) \<Longrightarrow> Pending p \<notin> set (sys_queue ?s) \<and> p \<notin> set (sys_kernel ?s)" for p
      using sys_okD(4) [OF ok, of p] idles [of p] by auto
  qed (use sys_okD [OF ok] in auto)
  with r show ?thesis by blast
qed

lemma sys_drop_front_ok [wf_intros]:
  assumes ok: "sys_ok s"
  shows "\<exists>s'. sys_drop_front s = Ret s' \<and> sys_ok s'"
proof (cases "sys_queue s")
  case Nil
  with ok show ?thesis by (simp add: sys_drop_front_def)
next
  case (Cons t q)
  then have tq: "t \<in> set (sys_queue s)" by simp
  obtain i where i: "th_mem (sys_heap s) (pending_ptr t) = Some i"
    "Idle (pending_ptr t) \<notin> set (sys_idles s)"
    "ti_state i = (if pending_ptr t \<in> set (sys_kernel s) then STATE_PENDING else STATE_IDLE)"
    using queue_block [OF ok tq] .
  let ?p = "pending_ptr t"
  let ?h = "th_store ?p (i\<lparr>ti_state := STATE_ABANDONED\<rparr>) (sys_heap s)"
  let ?h' = "if ?p \<in> set (sys_kernel s) then ?h else ?h\<lparr>th_mem := (th_mem ?h)(?p := None)\<rparr>"
  let ?s = "s\<lparr>sys_heap := ?h', sys_queue := q, sys_returned := sys_returned s @ [?p]\<rparr>"
  have r: "sys_drop_front s = Ret ?s"
    using i Cons
    by (simp add: sys_drop_front_def pending_drop_def state_swap_def th_load_def th_free_def th_mem_store)
  have tp: "t = Pending ?p" by (cases t) simp
  have dq: "t \<notin> set q" using sys_okD(2) [OF ok] Cons by simp
  have pq: "Pending p \<in> set q \<longleftrightarrow> Pending p \<in> set (sys_queue s) \<and> p \<noteq> ?p" for p
    using dq tp unfolding Cons by (metis Pending.inject list.set_intros(1,2) set_ConsD)
  have "sys_ok ?s"
  proof (rule sys_okI)
    show "st_at (sys_heap ?s) p = expected_state ?s p" for p
      using sys_okD(5) [OF ok, of p] sys_okD(4) [OF ok, of p] pq [of p] i
      by (auto simp: expected_state_def st_at_def th_mem_store split: if_splits)
    show "th_mem (sys_heap ?s) p \<noteq> None \<Longrightarrow> p < th_next (sys_heap ?s)" for p
      using sys_okD(6) [OF ok, of p] i by (auto simp: th_mem_store split: if_splits)
    show "Idle p \<in> set (sys_idles ?s) \<Longrightarrow> Pending p \<notin> set (sys_queue ?s) \<and> p \<notin> set (sys_kernel ?s)" for p
      using sys_okD(4) [OF ok, of p] pq [of p] by auto
  qed (use Cons sys_okD [OF ok] in auto)
  with r show ?thesis by blast
qed

text \<open>\<open>notify_completion\<close> on a block whose state is PENDING or ABANDONED.\<close>

lemma notify_completion_eq:
  assumes "th_mem h p = Some i" "ti_state i = STATE_PENDING \<or> ti_state i = STATE_ABANDONED"
  shows "notify_completion p h = Ret
    (if ti_state i = STATE_PENDING
     then (th_notify h (ti_notify i),
           h\<lparr>th_mem := (th_mem h)(p := Some (i\<lparr>ti_state := STATE_IDLE\<rparr>)),
             th_notify := (th_notify h)(ti_notify i := NotifyNone)\<rparr>)
     else (NotifyNone,
           h\<lparr>th_mem := (th_mem h)(p := None), th_notify := (th_notify h)(ti_notify i := NotifyNone)\<rparr>))"
  using assms
  by (auto simp: notify_completion_def completion_take_def completion_swap_def th_load_def
      notify_take_def state_swap_def th_store_def th_free_def)

lemma sys_complete_ok [wf_intros]:
  assumes ok: "sys_ok s" and p: "p \<in> set (sys_kernel s)"
  shows "\<exists>s'. sys_complete p s = Ret s' \<and> sys_ok s'"
proof -
  obtain i where i: "th_mem (sys_heap s) p = Some i" "Idle p \<notin> set (sys_idles s)"
    "ti_state i = (if Pending p \<in> set (sys_queue s) then STATE_PENDING else STATE_ABANDONED)"
    using kernel_block [OF ok p] .
  obtain w h where nc: "notify_completion p (sys_heap s) = Ret (w, h)"
    and h: "th_mem h = (th_mem (sys_heap s))
      (p := if Pending p \<in> set (sys_queue s) then Some (i\<lparr>ti_state := STATE_IDLE\<rparr>) else None)"
      "th_next h = th_next (sys_heap s)"
    using notify_completion_eq [OF i(1)] i(3) by (auto split: if_splits)
  let ?s = "s\<lparr>sys_heap := h, sys_kernel := remove1 p (sys_kernel s)\<rparr>"
  have kern: "q \<in> set (remove1 p (sys_kernel s)) \<longleftrightarrow> q \<in> set (sys_kernel s) \<and> q \<noteq> p" for q
    using sys_okD(3) [OF ok] by (simp add: set_remove1_eq)
  have "sys_ok ?s"
  proof (rule sys_okI)
    show "st_at (sys_heap ?s) q = expected_state ?s q" for q
      using sys_okD(5) [OF ok, of q] sys_okD(4) [OF ok, of q] kern [of q] i h(1)
      by (auto simp: expected_state_def st_at_def split: if_splits)
    show "th_mem (sys_heap ?s) q \<noteq> None \<Longrightarrow> q < th_next (sys_heap ?s)" for q
      using sys_okD(6) [OF ok, of q] i h by (auto split: if_splits)
    show "Idle q \<in> set (sys_idles ?s) \<Longrightarrow> Pending q \<notin> set (sys_queue ?s) \<and> q \<notin> set (sys_kernel ?s)" for q
      using sys_okD(4) [OF ok, of q] kern [of q] by auto
  qed (use sys_okD [OF ok] in auto)
  moreover have "sys_complete p s = Ret ?s" by (simp add: sys_complete_def nc)
  ultimately show ?thesis by blast
qed

lemma sys_subscribe_ok [wf_intros]:
  assumes "sys_ok s"
  shows "\<exists>s'. sys_subscribe n w s = Ret s' \<and> sys_ok s'"
  using assms by (simp add: sys_subscribe_def notify_subscribe_def sys_ok_def st_at_def expected_state_def)

lemma tx_step_ok: "sys_ok s \<Longrightarrow> tx_step s r \<Longrightarrow> \<exists>s'. r = Ret s' \<and> sys_ok s'"
  by (erule tx_stepE) (auto dest: wf_intros)

lemma tx_reach_ok: "tx_reach s \<Longrightarrow> sys_ok s"
proof (induction rule: tx_reach.induct)
  case reach_init
  show ?case by (rule sys_init_ok)
next
  case (reach_step s s')
  then show ?case using tx_step_ok by (metis outcome.inject)
qed

section \<open>Properties\<close>

text \<open>
  C6. In every reachable state of the transfer protocol, every step the owner or the completion
  handler can take returns normally: no assertion fails, no state byte is unexpected, no freed
  block is touched or freed again, and the next state is reachable and satisfies the invariant.
\<close>

theorem transfer_protocol_safe:
  assumes "tx_reach s" "tx_step s r"
  shows "\<exists>s'. r = Ret s' \<and> tx_reach s' \<and> sys_ok s'"
  using tx_step_ok [OF tx_reach_ok [OF assms(1)] assms(2)] assms by (auto intro: reach_step)

text \<open>
  C20. Nothing leaks and nothing is freed early: in a reachable state a block is on the heap exactly
  when an idle handle, the queue or the kernel refers to it, so once the owner has dropped all its
  handles and the kernel has completed every transfer, the heap is empty; transfers come back in
  the order of their submission; and a block that the owner can access mutably (an idle handle) is
  never in the hands of the kernel.
\<close>

theorem transfer_protocol_no_leak_fifo:
  assumes "tx_reach s"
  shows "(th_mem (sys_heap s) p \<noteq> None \<longleftrightarrow>
      Idle p \<in> set (sys_idles s) \<or> Pending p \<in> set (sys_queue s) \<or> p \<in> set (sys_kernel s)) \<and>
    sys_submitted s = sys_returned s @ map pending_ptr (sys_queue s) \<and>
    \<not> (Idle p \<in> set (sys_idles s) \<and> p \<in> set (sys_kernel s))"
proof -
  have ok: "sys_ok s" using assms by (rule tx_reach_ok)
  have "th_mem (sys_heap s) p \<noteq> None \<longleftrightarrow> expected_state s p \<noteq> None"
    using sys_okD(5) [OF ok, of p] by (metis st_at_None)
  also have "\<dots> \<longleftrightarrow> Idle p \<in> set (sys_idles s) \<or> Pending p \<in> set (sys_queue s) \<or> p \<in> set (sys_kernel s)"
    by (auto simp: expected_state_def)
  finally show ?thesis using sys_okD(4,7) [OF ok] by blast
qed

text \<open>A run: create a transfer, submit it, and drop it while the kernel still has it.\<close>

definition abandoned_run :: "unit tx_sys outcome" where
  "abandoned_run =
     obind (sys_new 0 () sys_init) (\<lambda>s. obind (sys_submit (Idle 0) s) sys_drop_front)"

lemma abandoned_run_reach:
  "\<exists>s. abandoned_run = Ret s \<and> tx_reach s \<and> sys_kernel s = [0] \<and> sys_queue s = [] \<and> sys_idles s = []"
proof -
  obtain s1 where s1: "sys_new 0 () sys_init = Ret s1" "sys_idles s1 = [Idle 0]"
    by (simp add: sys_new_def idle_new_def sys_init_def)
  have r1: "tx_reach s1" using s1(1) step_new reach_init by (metis reach_step)
  obtain s2 where s2: "sys_submit (Idle 0) s1 = Ret s2"
    using sys_submit_ok [OF tx_reach_ok [OF r1]] s1(2) by fastforce
  have r2: "tx_reach s2" using s2 s1(2) step_submit [of "Idle 0" s1] r1 by (metis list.set_intros(1) reach_step)
  obtain s3 where s3: "sys_drop_front s2 = Ret s3" using sys_drop_front_ok [OF tx_reach_ok [OF r2]] by blast
  have r3: "tx_reach s3" using s3 step_drop_front r2 by (metis reach_step)
  have eq: "abandoned_run = Ret s3" by (simp add: abandoned_run_def s1 s2 s3)
  have "omap sys_kernel abandoned_run = Ret [0]" "omap sys_queue abandoned_run = Ret []"
    "omap sys_idles abandoned_run = Ret []" by code_simp+
  then have "sys_kernel s3 = [0]" "sys_queue s3 = []" "sys_idles s3 = []" unfolding eq by simp_all
  with eq r3 show ?thesis by blast
qed

theorem transfer_protocol_safe_witness:
  "\<exists>s s'. abandoned_run = Ret s \<and> sys_complete 0 s = Ret s' \<and> tx_reach s'"
proof -
  obtain s where s: "abandoned_run = Ret s" "tx_reach s" "sys_kernel s = [0]"
    using abandoned_run_reach by blast
  then have "tx_step s (sys_complete 0 s)" by (simp add: step_complete)
  from transfer_protocol_safe [OF s(2) this] s(1) show ?thesis by blast
qed

theorem transfer_protocol_no_leak_fifo_witness:
  "\<exists>s. abandoned_run = Ret s \<and> th_mem (sys_heap s) 0 \<noteq> None \<and> th_mem (sys_heap s) 1 = None"
proof -
  obtain s where s: "abandoned_run = Ret s" "tx_reach s" "sys_kernel s = [0]" "sys_queue s = []"
    "sys_idles s = []"
    using abandoned_run_reach by blast
  from transfer_protocol_no_leak_fifo [OF s(2), of 0] transfer_protocol_no_leak_fifo [OF s(2), of 1] s
  show ?thesis by auto
qed

end
