(* ===== verification/Wakeup.thy ===== *)
theory Wakeup
  imports Transfer_Theorems
begin

text \<open>
  Waiting for a transfer: \<open>Notify::wait\<close>, \<open>Notify::wait_timeout\<close> and the completion handler of
  src/src/transfer/internal.rs as two threads whose atomic steps interleave in any order. The
  waiter subscribes, checks and parks; the handler takes the subscriber, swaps the state and
  notifies. Parking consumes the token that \<open>unpark\<close> leaves; it may also return without one
  (\<open>std::thread::park\<close> documents spurious wake-ups, and other code may unpark the thread).
\<close>

section \<open>Two threads\<close>

datatype wait_pc = WSubscribe | WCheck | WPark | WDone nat
datatype handler_pc = HTake | HSwap | HNotify | HDone

text \<open>The waiter is thread \<open>me\<close> and waits for one transfer whose \<open>Notify\<close> is \<open>wk_notify\<close>.\<close>

record wk =
  wk_heap :: "unit tx_heap"
  wk_transfer :: "Pending option"
  wk_notify :: nat
  wk_me :: nat
  wk_wpc :: wait_pc
  wk_hpc :: handler_pc
  wk_block :: nat
  wk_wake :: NotifyState
  wk_token :: bool

text \<open>One iteration of the loop of \<open>Notify::wait\<close> is three steps; \<open>None\<close> means blocked in \<open>park\<close>.\<close>

definition wait_step :: "wk \<Rightarrow> wk option outcome" where
  "wait_step s =
     (case wk_wpc s of
        WSubscribe \<Rightarrow>
          Ret (Some (s\<lparr>wk_heap := notify_subscribe_thread (wk_notify s) (wk_me s) (wk_heap s),
                       wk_wpc := WCheck\<rparr>))
      | WCheck \<Rightarrow>
          obind (take_completed_from_option (wk_transfer s) (wk_heap s)) (\<lambda>(r, opt).
            Ret (Some (case r of
                Some t \<Rightarrow> s\<lparr>wk_transfer := opt, wk_wpc := WDone (idle_ptr t)\<rparr>
              | None \<Rightarrow> s\<lparr>wk_transfer := opt, wk_wpc := WPark\<rparr>)))
      | WPark \<Rightarrow> Ret (if wk_token s then Some (s\<lparr>wk_token := False, wk_wpc := WSubscribe\<rparr>) else None)
      | WDone p \<Rightarrow> Ret None)"

text \<open>\<open>NotifyState::notify\<close>: only the waiting thread is modelled.\<close>

definition notify_wake :: "NotifyState \<Rightarrow> wk \<Rightarrow> wk" where
  "notify_wake w s =
     (case w of NotifyThread t \<Rightarrow> if t = wk_me s then s\<lparr>wk_token := True\<rparr> else s | _ \<Rightarrow> s)"

definition handler_step :: "wk \<Rightarrow> wk option outcome" where
  "handler_step s =
     (case wk_hpc s of
        HTake \<Rightarrow>
          obind (completion_take (wk_block s) (wk_heap s)) (\<lambda>(w, h).
            Ret (Some (s\<lparr>wk_heap := h, wk_wake := w, wk_hpc := HSwap\<rparr>)))
      | HSwap \<Rightarrow>
          obind (completion_swap (wk_block s) (wk_wake s) (wk_heap s)) (\<lambda>(w, h).
            Ret (Some (s\<lparr>wk_heap := h, wk_wake := w, wk_hpc := HNotify\<rparr>)))
      | HNotify \<Rightarrow> Ret (Some ((notify_wake (wk_wake s) s)\<lparr>wk_hpc := HDone\<rparr>))
      | HDone \<Rightarrow> Ret None)"

text \<open>\<open>park\<close> returns without a token.\<close>

definition spurious_step :: "wk \<Rightarrow> wk option outcome" where
  "spurious_step s = Ret (if wk_wpc s = WPark then Some (s\<lparr>wk_wpc := WSubscribe\<rparr>) else None)"

text \<open>A schedule: who takes the next step; a blocked or finished thread idles.\<close>

datatype wk_event = Waiter | Handler | Spurious

definition wk_step :: "wk_event \<Rightarrow> wk \<Rightarrow> wk option outcome" where
  "wk_step e = (case e of Waiter \<Rightarrow> wait_step | Handler \<Rightarrow> handler_step | Spurious \<Rightarrow> spurious_step)"

fun run_schedule :: "wk_event list \<Rightarrow> wk \<Rightarrow> wk outcome" where
  "run_schedule [] s = Ret s"
| "run_schedule (e # es) s =
     obind (wk_step e s) (\<lambda>r. run_schedule es (case r of None \<Rightarrow> s | Some s' \<Rightarrow> s'))"

text \<open>A transfer that was submitted and that the kernel has just completed; the waiter is at \<open>pc\<close>.\<close>

definition submitted_heap :: "NotifyState \<Rightarrow> unit tx_heap" where
  "submitted_heap ns =
     \<lparr>th_mem = (\<lambda>p. if p = 0 then Some \<lparr>ti_platform_data = (), ti_state = STATE_PENDING, ti_notify = 0\<rparr>
                    else None),
      th_next = 1, th_notify = (\<lambda>n. if n = 0 then ns else NotifyNone)\<rparr>"

definition wk_start :: "wait_pc \<Rightarrow> NotifyState \<Rightarrow> wk" where
  "wk_start pc ns =
     \<lparr>wk_heap = submitted_heap ns, wk_transfer = Some (Pending 0), wk_notify = 0, wk_me = 7,
      wk_wpc = pc, wk_hpc = HTake, wk_block = 0, wk_wake = NotifyNone, wk_token = False\<rparr>"

section \<open>When the waiter subscribed first\<close>

definition pending_block :: "wk \<Rightarrow> bool" where
  "pending_block s \<longleftrightarrow> st_at (wk_heap s) (wk_block s) = Some STATE_PENDING"

definition idle_block_at :: "wk \<Rightarrow> bool" where
  "idle_block_at s \<longleftrightarrow> st_at (wk_heap s) (wk_block s) = Some STATE_IDLE"

text \<open>
  The invariant: before the swap the waiter has not finished; the handler holds the waiter's
  subscription from the moment it takes it; afterwards a parked waiter has a token.
\<close>

definition wk_inv :: "wk \<Rightarrow> bool" where
  "wk_inv s \<longleftrightarrow>
     (case wk_wpc s of WDone p \<Rightarrow> p = wk_block s | _ \<Rightarrow> wk_transfer s = Some (Pending (wk_block s))) \<and>
     (case wk_hpc s of
        HTake \<Rightarrow> pending_block s \<and> (\<forall>p. wk_wpc s \<noteq> WDone p) \<and> \<not> wk_token s \<and>
          (\<forall>i. th_mem (wk_heap s) (wk_block s) = Some i \<longrightarrow> ti_notify i = wk_notify s) \<and>
          th_notify (wk_heap s) (wk_notify s) = NotifyThread (wk_me s)
      | HSwap \<Rightarrow> pending_block s \<and> (\<forall>p. wk_wpc s \<noteq> WDone p) \<and> \<not> wk_token s \<and>
          wk_wake s = NotifyThread (wk_me s)
      | HNotify \<Rightarrow> idle_block_at s \<and> \<not> wk_token s \<and>
          wk_wake s = NotifyThread (wk_me s)
      | HDone \<Rightarrow> idle_block_at s \<and> (wk_wpc s = WPark \<longrightarrow> wk_token s))"

lemma st_at_notify_subscribe [simp]: "st_at (notify_subscribe_thread n t h) p = st_at h p"
  by (simp add: st_at_def notify_subscribe_thread_def)

lemma take_option_pending:
  "st_at h p = Some STATE_PENDING \<Longrightarrow>
    take_completed_from_option (Some (Pending p)) h = Ret (None, Some (Pending p))"
  by (auto simp: st_at_Some take_completed_from_option_def is_complete_def th_load_def)

lemma take_option_idle:
  "st_at h p = Some STATE_IDLE \<Longrightarrow>
    take_completed_from_option (Some (Pending p)) h = Ret (Some (Idle p), None)"
  by (auto simp: st_at_Some take_completed_from_option_def is_complete_def into_idle_def th_load_def)

lemma wait_step_inv:
  assumes "wk_inv s"
  shows "\<exists>r. wait_step s = Ret r \<and> (case r of None \<Rightarrow> True | Some s' \<Rightarrow> wk_inv s')"
  using assms
  by (cases "wk_wpc s"; cases "wk_hpc s")
    (auto simp: wk_inv_def wait_step_def pending_block_def idle_block_at_def take_option_pending
      take_option_idle notify_subscribe_thread_def st_at_def)

lemma spurious_step_inv:
  "wk_inv s \<Longrightarrow> \<exists>r. spurious_step s = Ret r \<and> (case r of None \<Rightarrow> True | Some s' \<Rightarrow> wk_inv s')"
  by (cases "wk_hpc s") (auto simp: spurious_step_def wk_inv_def pending_block_def idle_block_at_def)

lemma completion_take_eq:
  "th_mem h p = Some i \<Longrightarrow> completion_take p h =
    Ret (th_notify h (ti_notify i), h\<lparr>th_notify := (th_notify h)(ti_notify i := NotifyNone)\<rparr>)"
  by (simp add: completion_take_def th_load_def notify_take_def)

lemma completion_swap_pending:
  "th_mem h p = Some i \<Longrightarrow> ti_state i = STATE_PENDING \<Longrightarrow>
    completion_swap p w h = Ret (w, th_store p (i\<lparr>ti_state := STATE_IDLE\<rparr>) h)"
  by (simp add: completion_swap_def state_swap_def th_load_def)

lemma handler_step_inv:
  assumes inv: "wk_inv s"
  shows "\<exists>r. handler_step s = Ret r \<and> (case r of None \<Rightarrow> True | Some s' \<Rightarrow> wk_inv s')"
proof (cases "wk_hpc s")
  case HTake
  then obtain i where i: "th_mem (wk_heap s) (wk_block s) = Some i" "ti_state i = STATE_PENDING"
    using inv by (auto simp: wk_inv_def pending_block_def st_at_Some)
  with HTake inv show ?thesis
    by (cases "wk_wpc s")
      (auto simp: handler_step_def completion_take_eq wk_inv_def pending_block_def st_at_def)
next
  case HSwap
  then obtain i where i: "th_mem (wk_heap s) (wk_block s) = Some i" "ti_state i = STATE_PENDING"
    using inv by (auto simp: wk_inv_def pending_block_def st_at_Some)
  with HSwap inv show ?thesis
    by (cases "wk_wpc s")
      (auto simp: handler_step_def completion_swap_pending wk_inv_def idle_block_at_def st_at_store)
next
  case HNotify
  with inv show ?thesis
    by (cases "wk_wpc s") (auto simp: handler_step_def notify_wake_def wk_inv_def idle_block_at_def)
next
  case HDone
  then show ?thesis by (simp add: handler_step_def)
qed

lemma run_schedule_inv: "wk_inv s \<Longrightarrow> \<exists>s'. run_schedule es s = Ret s' \<and> wk_inv s'"
proof (induction es arbitrary: s)
  case (Cons e es)
  obtain r where r: "wk_step e s = Ret r" "case r of None \<Rightarrow> True | Some s' \<Rightarrow> wk_inv s'"
    using wait_step_inv [OF Cons.prems] handler_step_inv [OF Cons.prems] spurious_step_inv [OF Cons.prems]
    by (cases e) (auto simp: wk_step_def)
  have "wk_inv (case r of None \<Rightarrow> s | Some s' \<Rightarrow> s')"
    using r(2) Cons.prems by (cases r) auto
  from Cons.IH [OF this] r(1) show ?case by auto
qed simp

lemma wk_start_inv:
  "pc = WCheck \<or> pc = WPark \<Longrightarrow> wk_inv (wk_start pc (NotifyThread 7))"
  by (auto simp: wk_inv_def wk_start_def submitted_heap_def pending_block_def st_at_def)

text \<open>Once the handler is done, the waiter needs at most three steps to return.\<close>

lemma waiter_finishes:
  assumes inv: "wk_inv s" and h: "wk_hpc s = HDone"
  shows "\<exists>s'. run_schedule [Waiter, Waiter, Waiter] s = Ret s' \<and> wk_wpc s' = WDone (wk_block s)"
proof -
  have st: "st_at (wk_heap s) (wk_block s) = Some STATE_IDLE"
    and tok: "wk_wpc s = WPark \<longrightarrow> wk_token s"
    and tr: "case wk_wpc s of WDone p \<Rightarrow> p = wk_block s
      | _ \<Rightarrow> wk_transfer s = Some (Pending (wk_block s))"
    using inv h by (auto simp: wk_inv_def idle_block_at_def)
  show ?thesis
    using st tok tr by (cases "wk_wpc s") (auto simp: wk_step_def wait_step_def take_option_idle)
qed

text \<open>
  C35. No wakeup is lost when the waiter subscribed before the handler took its subscription: for
  every interleaving of \<open>wait\<close> with \<open>notify_completion\<close>, also when \<open>park\<close> wakes up spuriously, nothing
  panics, and as soon as the handler has finished, the waiter returns the transfer within three steps of
  its own.
\<close>

theorem wait_returns_if_subscribed:
  assumes "pc = WCheck \<or> pc = WPark"
  shows "\<exists>s. run_schedule es (wk_start pc (NotifyThread 7)) = Ret s \<and>
    (if wk_hpc s = HDone
     then \<exists>s'. run_schedule [Waiter, Waiter, Waiter] s = Ret s' \<and> wk_wpc s' = WDone (wk_block s) else True)"
proof -
  obtain s where "run_schedule es (wk_start pc (NotifyThread 7)) = Ret s" "wk_inv s"
    using run_schedule_inv [OF wk_start_inv [OF assms]] by blast
  with waiter_finishes [of s] show ?thesis by auto
qed

theorem wait_returns_if_subscribed_witness:
  "\<exists>s. run_schedule [Handler, Spurious, Waiter, Handler, Handler] (wk_start WCheck (NotifyThread 7)) = Ret s \<and>
    (if wk_hpc s = HDone
     then \<exists>s'. run_schedule [Waiter, Waiter, Waiter] s = Ret s' \<and> wk_wpc s' = WDone (wk_block s) else True)"
  by (rule wait_returns_if_subscribed) simp

section \<open>When the waiter subscribes in between\<close>

text \<open>
  The handler reads the subscriber before it marks the transfer as complete. A waiter that subscribes
  after the first and checks before the second sees a pending transfer, and the handler does not know it.
  The number of steps of the waiter before the handler's step number \<open>n\<close>, and whether a wake-up is lost:
  \<open>before\<close> is what was subscribed before the wait.
\<close>

fun waiter_before :: "nat \<Rightarrow> wk_event list \<Rightarrow> nat" where
  "waiter_before n [] = 0"
| "waiter_before n (Waiter # es) = Suc (waiter_before n es)"
| "waiter_before n (Spurious # es) = waiter_before n es"
| "waiter_before 0 (Handler # es) = 0"
| "waiter_before (Suc n) (Handler # es) = waiter_before n es"

definition wakeup_lost :: "NotifyState \<Rightarrow> wk_event list \<Rightarrow> bool" where
  "wakeup_lost before es \<longleftrightarrow> before \<noteq> NotifyThread 7 \<and> waiter_before 0 es = 0 \<and> 2 \<le> waiter_before 1 es"

lemma run_schedule_append: "run_schedule (es @ es') s = obind (run_schedule es s) (run_schedule es')"
proof (induction es arbitrary: s)
  case (Cons e es)
  then show ?case by (cases "wk_step e s") simp_all
qed simp

lemma waiter_before_snoc:
  "waiter_before n (es @ [e]) =
     waiter_before n es + (if e = Waiter \<and> count_list es Handler \<le> n then 1 else 0)"
proof (induction n es rule: waiter_before.induct)
  case (1 n)
  show ?case by (cases n; cases e) simp_all
next
  case (4 es)
  show ?case by simp
qed simp_all

text \<open>
  What is known after the schedule \<open>es\<close> without spurious wake-ups, from the numbers of steps alone: a
  waiter that has checked before the swap is parked.
\<close>

definition waiter_at :: "nat \<Rightarrow> wait_pc" where
  "waiter_at n = (if n = 0 then WSubscribe else if n = 1 then WCheck else WPark)"

definition block_is :: "u8 \<Rightarrow> wk \<Rightarrow> bool" where
  "block_is st s \<longleftrightarrow>
     th_mem (wk_heap s) 0 = Some \<lparr>ti_platform_data = (), ti_state = st, ti_notify = 0\<rparr> \<and>
     wk_notify s = 0 \<and> wk_me s = 7 \<and> wk_block s = 0 \<and>
     (case wk_wpc s of WDone p \<Rightarrow> p = 0 | _ \<Rightarrow> wk_transfer s = Some (Pending 0))"

definition race :: "NotifyState \<Rightarrow> wk_event list \<Rightarrow> wk \<Rightarrow> bool" where
  "race before es s \<longleftrightarrow>
     (let w = count_list es Waiter; taken = (if waiter_before 0 es = 0 then before else NotifyThread 7)
      in case wk_hpc s of
           HTake \<Rightarrow> count_list es Handler = 0 \<and> block_is STATE_PENDING s \<and> \<not> wk_token s \<and>
             wk_wpc s = waiter_at w \<and> waiter_before 0 es = w \<and> waiter_before 1 es = w \<and>
             th_notify (wk_heap s) 0 = (if w = 0 then before else NotifyThread 7)
         | HSwap \<Rightarrow> count_list es Handler = 1 \<and> block_is STATE_PENDING s \<and> \<not> wk_token s \<and>
             wk_wpc s = waiter_at w \<and> waiter_before 1 es = w \<and> wk_wake s = taken
         | HNotify \<Rightarrow> count_list es Handler = 2 \<and> block_is STATE_IDLE s \<and> \<not> wk_token s \<and>
             (if 2 \<le> waiter_before 1 es then wk_wpc s = WPark else wk_wpc s \<noteq> WPark) \<and> wk_wake s = taken
         | HDone \<Rightarrow> 3 \<le> count_list es Handler \<and> block_is STATE_IDLE s \<and>
             (if wakeup_lost before es then wk_wpc s = WPark \<and> \<not> wk_token s
              else wk_wpc s = WPark \<longrightarrow> wk_token s))"

lemma race_start: "race before [] (wk_start WSubscribe before)"
  by (simp add: race_def wk_start_def submitted_heap_def block_is_def waiter_at_def)

lemma block_is_pending: "block_is STATE_PENDING s \<Longrightarrow> st_at (wk_heap s) 0 = Some STATE_PENDING"
  and block_is_idle: "block_is STATE_IDLE s \<Longrightarrow> st_at (wk_heap s) 0 = Some STATE_IDLE"
  by (simp_all add: block_is_def st_at_def)

lemma race_waiter:
  assumes "race before es s"
  shows "\<exists>r. wait_step s = Ret r \<and> race before (es @ [Waiter]) (case r of None \<Rightarrow> s | Some s' \<Rightarrow> s')"
proof -
  note defs = race_def wait_step_def waiter_at_def wakeup_lost_def waiter_before_snoc Let_def
  show ?thesis
  proof (cases "wk_hpc s")
    case HTake
    with assms block_is_pending [of s] show ?thesis
      by (cases "wk_wpc s")
        (auto simp: defs block_is_def take_option_pending notify_subscribe_thread_def split: if_splits)
  next
    case HSwap
    with assms block_is_pending [of s] show ?thesis
      by (cases "wk_wpc s")
        (auto simp: defs block_is_def take_option_pending notify_subscribe_thread_def split: if_splits)
  next
    case HNotify
    with assms block_is_idle [of s] show ?thesis
      by (cases "wk_wpc s")
        (auto simp: defs block_is_def take_option_idle notify_subscribe_thread_def split: if_splits)
  next
    case HDone
    with assms block_is_idle [of s] show ?thesis
      by (cases "wk_wpc s")
        (auto simp: defs block_is_def take_option_idle notify_subscribe_thread_def split: if_splits)
  qed
qed

lemma race_handler:
  assumes "race before es s"
  shows "\<exists>r. handler_step s = Ret r \<and> race before (es @ [Handler]) (case r of None \<Rightarrow> s | Some s' \<Rightarrow> s')"
proof -
  note defs = race_def handler_step_def waiter_at_def wakeup_lost_def waiter_before_snoc Let_def block_is_def
  show ?thesis
  proof (cases "wk_hpc s")
    case HTake
    with assms show ?thesis
      by (auto simp: defs completion_take_eq)
  next
    case HSwap
    with assms show ?thesis
      by (auto simp: defs completion_swap_pending th_mem_store split: if_splits)
  next
    case HNotify
    with assms show ?thesis
      by (cases "wk_wpc s") (auto simp: defs notify_wake_def split: if_splits NotifyState.splits)
  next
    case HDone
    with assms show ?thesis by (auto simp: defs)
  qed
qed

lemma race_run:
  "Spurious \<notin> set es \<Longrightarrow> \<exists>s. run_schedule es (wk_start WSubscribe before) = Ret s \<and> race before es s"
proof (induction es rule: rev_induct)
  case Nil
  then show ?case using race_start by simp
next
  case (snoc e es)
  then obtain s where s: "run_schedule es (wk_start WSubscribe before) = Ret s" "race before es s" by auto
  with race_waiter [OF s(2)] race_handler [OF s(2)] snoc.prems show ?case
    by (cases e) (auto simp: run_schedule_append wk_step_def)
qed

lemma stuck:
  assumes "wk_wpc s = WPark" "\<not> wk_token s" "wk_hpc s = HDone" "Spurious \<notin> set es"
  shows "run_schedule es s = Ret s"
  using assms(4)
proof (induction es)
  case (Cons e es)
  with assms(1-3) show ?case by (cases e) (simp_all add: wk_step_def wait_step_def handler_step_def)
qed simp

text \<open>
  C38. When exactly a wake-up is lost. Let a thread wait for a transfer while its completion is handled,
  in any interleaving that runs the handler to its end, \<open>park\<close> not waking up on its own. Nothing panics,
  and the transfer is complete at the end. If the thread was not subscribed before, took no step before
  the handler took the subscription, but had subscribed and checked before the handler swapped the state,
  then it is parked, and stays so whatever steps follow, until a spurious wake-up, after which it returns.
  In every other interleaving it returns within three steps of its own.
\<close>

theorem wakeup_lost_iff:
  assumes "Spurious \<notin> set es" "3 \<le> count_list es Handler"
  shows "\<exists>s. run_schedule es (wk_start WSubscribe before) = Ret s \<and>
     wk_hpc s = HDone \<and> st_at (wk_heap s) (wk_block s) = Some STATE_IDLE \<and>
     (if wakeup_lost before es
      then wk_wpc s = WPark \<and> (\<forall>es'. run_schedule es' s = Ret s \<or> Spurious \<in> set es') \<and>
        (\<exists>s'. run_schedule [Spurious, Waiter, Waiter] s = Ret s' \<and> wk_wpc s' = WDone (wk_block s))
      else \<exists>s'. run_schedule [Waiter, Waiter, Waiter] s = Ret s' \<and> wk_wpc s' = WDone (wk_block s))"
proof -
  from race_run [OF assms(1)] obtain s where
    s: "run_schedule es (wk_start WSubscribe before) = Ret s" "race before es s" by blast
  with assms(2) have h: "wk_hpc s = HDone" by (cases "wk_hpc s") (auto simp: race_def Let_def)
  with s(2) have d: "block_is STATE_IDLE s"
    "if wakeup_lost before es then wk_wpc s = WPark \<and> \<not> wk_token s else wk_wpc s = WPark \<longrightarrow> wk_token s"
    by (simp_all add: race_def Let_def)
  note idle = block_is_idle [OF d(1)]
  show ?thesis
  proof (cases "wakeup_lost before es")
    case True
    with d(2) have p: "wk_wpc s = WPark" "\<not> wk_token s" by simp_all
    from p d(1) idle have "\<exists>s'. run_schedule [Spurious, Waiter, Waiter] s = Ret s' \<and> wk_wpc s' = WDone 0"
      by (simp add: wk_step_def wait_step_def spurious_step_def block_is_def take_option_idle)
    with True s(1) h idle d(1) p stuck [OF p h] show ?thesis by (auto simp: block_is_def)
  next
    case False
    with d(2) have p: "wk_wpc s = WPark \<longrightarrow> wk_token s" by simp
    from d(1) idle p have "\<exists>s'. run_schedule [Waiter, Waiter, Waiter] s = Ret s' \<and> wk_wpc s' = WDone 0"
      by (cases "wk_wpc s") (auto simp: wk_step_def wait_step_def block_is_def take_option_idle)
    with False s(1) h idle d(1) show ?thesis by (auto simp: block_is_def)
  qed
qed

text \<open>The waiter subscribes and checks between the two steps; or it checks after the second.\<close>

theorem wakeup_lost_iff_witness:
  "(\<exists>s. run_schedule [Handler, Waiter, Waiter, Handler, Handler] (wk_start WSubscribe NotifyNone) = Ret s \<and>
      wk_wpc s = WPark \<and> st_at (wk_heap s) (wk_block s) = Some STATE_IDLE) \<and>
   (\<exists>s s'. run_schedule [Handler, Waiter, Handler, Waiter, Handler] (wk_start WSubscribe NotifyNone) = Ret s \<and>
      run_schedule [Waiter, Waiter, Waiter] s = Ret s' \<and> wk_wpc s' = WDone (wk_block s))"
proof -
  let ?lost = "[Handler, Waiter, Waiter, Handler, Handler]" and ?fine = "[Handler, Waiter, Handler, Waiter, Handler]"
  have l: "wakeup_lost NotifyNone ?lost" "\<not> wakeup_lost NotifyNone ?fine" by (simp_all add: wakeup_lost_def)
  have p: "Spurious \<notin> set ?lost" "3 \<le> count_list ?lost Handler" "Spurious \<notin> set ?fine" "3 \<le> count_list ?fine Handler"
    by simp_all
  from wakeup_lost_iff [OF p(1,2), of NotifyNone] wakeup_lost_iff [OF p(3,4), of NotifyNone] l
  show ?thesis by (simp del: run_schedule.simps) blast
qed

section \<open>wait_timeout\<close>

text \<open>
  The loop of \<open>Notify::wait_timeout\<close> over what each iteration sees: the result of \<open>check\<close> and the
  time elapsed since the start; \<open>None\<close> while it is still parked.
\<close>

fun wait_timeout :: "nat \<Rightarrow> ('r option \<times> nat) list \<Rightarrow> 'r option option" where
  "wait_timeout timeout [] = None"
| "wait_timeout timeout ((c, elapsed) # rest) =
     (case c of
        Some r \<Rightarrow> Some (Some r)
      | None \<Rightarrow> if elapsed \<le> timeout then wait_timeout timeout rest else Some None)"

text \<open>It gives up only after the timeout, and only when the check just before failed.\<close>

lemma wait_timeout_None:
  "wait_timeout t its = Some None \<Longrightarrow>
    \<exists>pre e post. its = pre @ (None, e) # post \<and> t < e \<and> list_all (\<lambda>(c, _). c = None) pre"
proof (induction t its rule: wait_timeout.induct)
  case (2 t c e rest)
  show ?case
  proof (cases "c = None \<and> e \<le> t")
    case True
    with 2 obtain pre e' post where "rest = pre @ (None, e') # post" "t < e'"
      "list_all (\<lambda>(c, _). c = None) pre" by auto
    with True show ?thesis by (intro exI [of _ "(c, e) # pre"]) auto
  next
    case False
    with "2.prems" have "c = None" "t < e" by (auto split: option.splits if_splits)
    then show ?thesis by (intro exI [of _ "[]"]) auto
  qed
qed simp

end
