(* ===== verification/Linux_Usbfs.thy ===== *)
theory Linux_Usbfs
  imports Buffer Descriptors
begin

unbundle bit_operations_syntax

text \<open>
  The system calls of the Linux backend as data: the wrappers of
  src/src/platform/linux_usbfs/usbfs.rs and the error mapping of
  src/src/platform/linux_usbfs/mod.rs. A wrapper builds the request (the \<open>ioctl\<close> and its argument)
  and hands it to the kernel, which is a parameter of the model: a function from the request and the
  kernel's state to the result (\<open>Inl\<close> an \<open>errno\<close>, \<open>Inr\<close> the return value) and the new state.
\<close>

section \<open>Error numbers\<close>

text \<open>\<open>rustix::io::Errno\<close> as the raw (positive) number of the Linux ABI.\<close>

type_synonym errno = i32

definition EPERM :: errno where "EPERM = 1"
definition ENOENT :: errno where "ENOENT = 2"
definition EINTR :: errno where "EINTR = 4"
definition EAGAIN :: errno where "EAGAIN = 11"
definition EACCES :: errno where "EACCES = 13"
definition EBUSY :: errno where "EBUSY = 16"
definition ENODEV :: errno where "ENODEV = 19"
definition EINVAL :: errno where "EINVAL = 22"
definition EPIPE :: errno where "EPIPE = 32"
definition ENODATA :: errno where "ENODATA = 61"
definition ETIME :: errno where "ETIME = 62"
definition ECOMM :: errno where "ECOMM = 70"
definition EPROTO :: errno where "EPROTO = 71"
definition EOVERFLOW :: errno where "EOVERFLOW = 75"
definition EILSEQ :: errno where "EILSEQ = 84"
definition ECONNRESET :: errno where "ECONNRESET = 104"
definition ESHUTDOWN :: errno where "ESHUTDOWN = 108"
definition ETIMEDOUT :: errno where "ETIMEDOUT = 110"

lemmas errno_defs = EPERM_def ENOENT_def EINTR_def EAGAIN_def EACCES_def EBUSY_def ENODEV_def
  EINVAL_def EPIPE_def ENODATA_def ETIME_def ECOMM_def EPROTO_def EOVERFLOW_def EILSEQ_def
  ECONNRESET_def ESHUTDOWN_def ETIMEDOUT_def

definition errno_to_transfer_error :: "errno \<Rightarrow> TransferError" where
  "errno_to_transfer_error e =
     (if e = ENODEV \<or> e = ESHUTDOWN then Disconnected
      else if e = EPIPE then Stall
      else if e = ENOENT \<or> e = ECONNRESET \<or> e = ETIMEDOUT then Cancelled
      else if e = EPROTO \<or> e = EILSEQ \<or> e = EOVERFLOW \<or> e = ECOMM \<or> e = ETIME then Fault
      else if e = EINVAL then InvalidArgument
      else UnknownError e)"

definition format_os_error_code :: "u32 \<Rightarrow> string" where
  "format_os_error_code code = ''errno '' @ dec_digits (unat code)"

definition error_new_os :: "ErrorKind \<Rightarrow> string \<Rightarrow> errno \<Rightarrow> nusb_error" where
  "error_new_os kind message code =
     \<lparr>err_kind = kind, err_code = nonzero_u32 code, err_message = message\<rparr>"

text \<open>\<open>raw\<close> is \<open>err.raw_os_error()\<close> of the \<open>std::io::Error\<close>.\<close>

definition error_new_io :: "ErrorKind \<Rightarrow> string \<Rightarrow> i32 option \<Rightarrow> nusb_error" where
  "error_new_io kind message raw =
     \<lparr>err_kind = kind, err_code = Option.bind raw nonzero_u32, err_message = message\<rparr>"

text \<open>The errors that mean that the device is gone, and only they, become \<open>Disconnected\<close>.\<close>

lemma errno_disconnected_iff:
  "errno_to_transfer_error e = Disconnected \<longleftrightarrow> e = ENODEV \<or> e = ESHUTDOWN"
  by (auto simp: errno_to_transfer_error_def)

lemma errno_cancelled_iff:
  "errno_to_transfer_error e = Cancelled \<longleftrightarrow> e = ENOENT \<or> e = ECONNRESET \<or> e = ETIMEDOUT"
  by (auto simp: errno_to_transfer_error_def errno_defs)

lemma errno_unknown: "errno_to_transfer_error e = UnknownError n \<Longrightarrow> n = e"
  by (auto simp: errno_to_transfer_error_def split: if_splits)

section \<open>Requests\<close>

definition USBDEVFS_URB_TYPE_ISO :: u8 where "USBDEVFS_URB_TYPE_ISO = 0"
definition USBDEVFS_URB_TYPE_INTERRUPT :: u8 where "USBDEVFS_URB_TYPE_INTERRUPT = 1"
definition USBDEVFS_URB_TYPE_CONTROL :: u8 where "USBDEVFS_URB_TYPE_CONTROL = 2"
definition USBDEVFS_URB_TYPE_BULK :: u8 where "USBDEVFS_URB_TYPE_BULK = 3"

text \<open>
  \<open>Urb\<close>: the memory behind \<open>buffer\<close> is part of the record; \<open>usercontext\<close> is the address of the
  transfer, null before submission.
\<close>

record Urb =
  urb_ep_type :: u8
  urb_endpoint :: u8
  urb_status :: i32
  urb_flags :: u32
  urb_buffer :: "u8 option list"
  urb_buffer_length :: i32
  urb_actual_length :: i32
  urb_start_frame :: i32
  urb_number_of_packets_or_stream_id :: u32
  urb_error_count :: i32
  urb_signr :: u32
  urb_usercontext :: "nat option"

record CtrlTransfer =
  ct_bRequestType :: u8
  ct_bRequest :: u8
  ct_wValue :: u16
  ct_wIndex :: u16
  ct_wLength :: u16
  ct_timeout :: u32

record DetachAndClaim =
  dc_interface :: u32
  dc_flags :: u32
  dc_driver :: bytes

datatype ioctl_req =
    USBDEVFS_SETCONFIGURATION u32
  | USBDEVFS_CLAIMINTERFACE u32
  | USBDEVFS_RELEASEINTERFACE u32
  | USBDEVFS_DISCONNECT_CLAIM DetachAndClaim
  | USBDEVFS_IOCTL_DISCONNECT u32
  | USBDEVFS_IOCTL_CONNECT u32
  | USBDEVFS_SETINTERFACE i32 i32
  | USBDEVFS_SUBMITURB nat Urb
  | USBDEVFS_DISCARDURB nat
  | USBDEVFS_RESET
  | USBDEVFS_CONTROL CtrlTransfer
  | USBDEVFS_CLEAR_HALT u32
  | USBDEVFS_GET_SPEED

type_synonym 'k kernel = "ioctl_req \<Rightarrow> 'k \<Rightarrow> (errno + nat) \<times> 'k"

text \<open>The result of a call whose return value is not used: \<open>Some\<close> an error.\<close>

type_synonym 'k call = "'k \<Rightarrow> errno option \<times> 'k"

definition ioctl_unit :: "'k kernel \<Rightarrow> ioctl_req \<Rightarrow> 'k call" where
  "ioctl_unit K req k = (case K req k of (Inl e, k') \<Rightarrow> (Some e, k') | (Inr _, k') \<Rightarrow> (None, k'))"

definition usbfs_set_configuration :: "'k kernel \<Rightarrow> u8 \<Rightarrow> 'k call" where
  "usbfs_set_configuration K configuration = ioctl_unit K (USBDEVFS_SETCONFIGURATION (ucast configuration))"

definition usbfs_claim_interface :: "'k kernel \<Rightarrow> u8 \<Rightarrow> 'k call" where
  "usbfs_claim_interface K interface = ioctl_unit K (USBDEVFS_CLAIMINTERFACE (ucast interface))"

definition usbfs_release_interface :: "'k kernel \<Rightarrow> u8 \<Rightarrow> 'k call" where
  "usbfs_release_interface K interface = ioctl_unit K (USBDEVFS_RELEASEINTERFACE (ucast interface))"

text \<open>The driver name is a field of 256 bytes that holds \<open>usbfs\<close> and a null byte.\<close>

definition usbfs_driver_name :: bytes where
  "usbfs_driver_name = [0x75, 0x73, 0x62, 0x66, 0x73, 0] @ replicate 250 0"

definition usbfs_detach_and_claim_interface :: "'k kernel \<Rightarrow> u8 \<Rightarrow> 'k call" where
  "usbfs_detach_and_claim_interface K interface =
     ioctl_unit K (USBDEVFS_DISCONNECT_CLAIM
       \<lparr>dc_interface = ucast interface, dc_flags = 0x02, dc_driver = usbfs_driver_name\<rparr>)"

definition usbfs_detach_kernel_driver :: "'k kernel \<Rightarrow> u8 \<Rightarrow> 'k call" where
  "usbfs_detach_kernel_driver K interface = ioctl_unit K (USBDEVFS_IOCTL_DISCONNECT (ucast interface))"

definition usbfs_attach_kernel_driver :: "'k kernel \<Rightarrow> u8 \<Rightarrow> 'k call" where
  "usbfs_attach_kernel_driver K interface = ioctl_unit K (USBDEVFS_IOCTL_CONNECT (ucast interface))"

definition usbfs_set_interface :: "'k kernel \<Rightarrow> u8 \<Rightarrow> u8 \<Rightarrow> 'k call" where
  "usbfs_set_interface K interface alt_setting =
     ioctl_unit K (USBDEVFS_SETINTERFACE (ucast interface) (ucast alt_setting))"

text \<open>\<open>p\<close> is the address of the URB.\<close>

definition usbfs_submit_urb :: "'k kernel \<Rightarrow> nat \<Rightarrow> Urb \<Rightarrow> 'k call" where
  "usbfs_submit_urb K p urb = ioctl_unit K (USBDEVFS_SUBMITURB p urb)"

definition usbfs_discard_urb :: "'k kernel \<Rightarrow> nat \<Rightarrow> 'k call" where
  "usbfs_discard_urb K p = ioctl_unit K (USBDEVFS_DISCARDURB p)"

text \<open>
  \<open>REAPURBNDELAY\<close> returns the address of a URB that is done and has written its fields and its
  buffer; the kernel's side of it is a second parameter.
\<close>

type_synonym 'k reaper = "'k \<Rightarrow> (errno + nat \<times> Urb) \<times> 'k"

definition usbfs_reap_urb_ndelay :: "'k reaper \<Rightarrow> 'k \<Rightarrow> (errno + nat \<times> Urb) \<times> 'k" where
  "usbfs_reap_urb_ndelay R k = R k"

definition usbfs_reset :: "'k kernel \<Rightarrow> 'k call" where
  "usbfs_reset K = ioctl_unit K USBDEVFS_RESET"

definition usbfs_control :: "'k kernel \<Rightarrow> CtrlTransfer \<Rightarrow> 'k \<Rightarrow> (errno + nat) \<times> 'k" where
  "usbfs_control K transfer = K (USBDEVFS_CONTROL transfer)"

definition usbfs_clear_halt :: "'k kernel \<Rightarrow> u8 \<Rightarrow> 'k call" where
  "usbfs_clear_halt K endpoint = ioctl_unit K (USBDEVFS_CLEAR_HALT (ucast endpoint))"

definition usbfs_get_speed :: "'k kernel \<Rightarrow> 'k \<Rightarrow> (errno + nat) \<times> 'k" where
  "usbfs_get_speed K = K USBDEVFS_GET_SPEED"

lemma length_usbfs_driver_name: "length usbfs_driver_name = 256"
  by (simp add: usbfs_driver_name_def)

end
