(* ===== verification/Linux_Transfer.thy ===== *)
theory Linux_Transfer
  imports Linux_Usbfs Buffer_Theorems
begin

unbundle bit_operations_syntax

text \<open>
  The platform data of a transfer on Linux: src/src/platform/linux_usbfs/transfer.rs, and
  \<open>Completion\<close> of src/src/transfer/mod.rs. The URB is boxed and owned by the transfer; here it is
  a field of it. A pointer that is replaced by that of an empty \<open>Vec\<close> is empty memory.
\<close>

section \<open>Completions\<close>

record Completion =
  cmp_buffer :: Buffer
  cmp_actual_len :: nat
  cmp_status :: "TransferError + unit"

definition into_result :: "Completion \<Rightarrow> TransferError + Buffer" where
  "into_result c = (case cmp_status c of Inl e \<Rightarrow> Inl e | Inr _ \<Rightarrow> Inr (cmp_buffer c))"

section \<open>TransferData\<close>

record TransferData =
  td_urb :: Urb
  td_capacity :: u32
  td_allocator :: Allocator
  td_deadline :: "nat option"

fun urb_type_of :: "TransferType \<Rightarrow> u8" where
  "urb_type_of TControl = USBDEVFS_URB_TYPE_CONTROL"
| "urb_type_of TInterrupt = USBDEVFS_URB_TYPE_INTERRUPT"
| "urb_type_of TBulk = USBDEVFS_URB_TYPE_BULK"
| "urb_type_of TIsochronous = USBDEVFS_URB_TYPE_ISO"

definition transfer_data_new :: "u8 \<Rightarrow> TransferType \<Rightarrow> TransferData" where
  "transfer_data_new endpoint ep_type =
     \<lparr>td_urb = \<lparr>urb_ep_type = urb_type_of ep_type, urb_endpoint = endpoint, urb_status = 0,
        urb_flags = 0, urb_buffer = [], urb_buffer_length = 0, urb_actual_length = 0,
        urb_start_frame = 0, urb_number_of_packets_or_stream_id = 0, urb_error_count = 0,
        urb_signr = 0, urb_usercontext = None\<rparr>,
      td_capacity = 0, td_allocator = AllocDefault, td_deadline = None\<rparr>"

text \<open>\<open>len as i32\<close> and back keep the bits.\<close>

definition td_set_buffer :: "Buffer \<Rightarrow> TransferData \<Rightarrow> TransferData outcome" where
  "td_set_buffer buf t =
     rassert (td_capacity t = 0)
       (Ret (t\<lparr>td_capacity := buf_capacity buf,
               td_urb := (td_urb t)
                 \<lparr>urb_buffer := buf_mem buf,
                  urb_actual_length := 0,
                  urb_buffer_length :=
                    (case direction_from_address (urb_endpoint (td_urb t)) of
                       Out \<Rightarrow> buf_len buf | In \<Rightarrow> buf_requested_len buf)\<rparr>,
               td_allocator := buf_allocator buf\<rparr>))"

text \<open>\<open>i32::abs\<close>, with the overflow check, and \<open>i32 as usize\<close>.\<close>

definition i32_abs :: "i32 \<Rightarrow> i32 outcome" where
  "i32_abs w = (if w = 0x80000000 then Panic else Ret (if sint w < 0 then - w else w))"

definition i32_as_usize :: "i32 \<Rightarrow> nat" where
  "i32_as_usize w = unat (scast w :: u64)"

text \<open>\<open>from_raw\<close> is \<open>Errno::from_raw_os_error\<close> of rustix, which panics on numbers out of range.\<close>

definition td_status :: "(i32 \<Rightarrow> errno outcome) \<Rightarrow> TransferData \<Rightarrow> (TransferError + unit) outcome" where
  "td_status from_raw t =
     (if urb_status (td_urb t) = 0 then Ret (Inr ())
      else obind (i32_abs (urb_status (td_urb t))) (\<lambda>a.
           omap (\<lambda>e. Inl (errno_to_transfer_error e)) (from_raw a)))"

definition td_take_completion ::
  "(i32 \<Rightarrow> errno outcome) \<Rightarrow> TransferData \<Rightarrow> (Completion \<times> TransferData) outcome" where
  "td_take_completion from_raw t =
     obind (td_status from_raw t) (\<lambda>status.
       let requested_len = urb_buffer_length (td_urb t);
           actual_len = i32_as_usize (urb_actual_length (td_urb t));
           len = (case direction_from_address (urb_endpoint (td_urb t)) of
                    Out \<Rightarrow> urb_buffer_length (td_urb t) | In \<Rightarrow> urb_actual_length (td_urb t));
           ptr = urb_buffer (td_urb t);
           capacity = td_capacity t;
           allocator = td_allocator t
       in Ret (\<lparr>cmp_buffer = \<lparr>buf_mem = ptr, buf_len = len, buf_requested_len = requested_len,
                              buf_capacity = capacity, buf_allocator = allocator\<rparr>,
                cmp_actual_len = actual_len, cmp_status = status\<rparr>,
               t\<lparr>td_urb := (td_urb t)\<lparr>urb_buffer := [], urb_buffer_length := 0,
                                     urb_actual_length := 0\<rparr>,
                 td_capacity := 0, td_allocator := AllocDefault\<rparr>))"

definition td_control_in_data :: "TransferData \<Rightarrow> bytes outcome" where
  "td_control_in_data t =
     rassert (urb_endpoint (td_urb t) = 0x80)
       (raw_read (urb_buffer (td_urb t)) setup_packet_size
          (i32_as_usize (urb_actual_length (td_urb t))))"

text \<open>Dropping a transfer takes the completion, drops its buffer and frees the URB.\<close>

definition td_drop ::
  "(i32 \<Rightarrow> errno outcome) \<Rightarrow> (nat \<Rightarrow> i32 option) \<Rightarrow> TransferData \<Rightarrow> unit outcome" where
  "td_drop from_raw kmunmap t =
     obind (td_take_completion from_raw t) (\<lambda>(c, t'). buffer_drop kmunmap (cmp_buffer c))"

text \<open>\<open>usize::checked_add\<close>\<close>

definition checked_add :: "nat \<Rightarrow> nat \<Rightarrow> nat option" where
  "checked_add a b = (if a + b \<le> usize_max then Some (a + b) else None)"

definition new_control_out :: "(nat \<Rightarrow> nat) \<Rightarrow> ControlOut \<Rightarrow> TransferData outcome" where
  "new_control_out alloc data =
     obind (unwrap (checked_add setup_packet_size (length (co_data data)))) (\<lambda>n.
     obind (buffer_new alloc n) (\<lambda>b0.
     obind (control_out_setup_packet data) (\<lambda>setup.
     obind (buffer_extend_from_slice setup b0) (\<lambda>b1.
     obind (buffer_extend_from_slice (co_data data) b1) (\<lambda>b2.
       td_set_buffer b2 (transfer_data_new 0x00 TControl))))))"

definition new_control_in :: "(nat \<Rightarrow> nat) \<Rightarrow> ControlIn \<Rightarrow> TransferData outcome" where
  "new_control_in alloc data =
     obind (unwrap (checked_add setup_packet_size (unat (ci_length data)))) (\<lambda>n.
     obind (buffer_new alloc n) (\<lambda>b0.
     obind (buffer_extend_from_slice (control_in_setup_packet data) b0) (\<lambda>b1.
       td_set_buffer b1 (transfer_data_new 0x80 TControl))))"

section \<open>What the kernel does to a URB\<close>

text \<open>
  The contract of usbfs: a URB comes back with a status, with \<open>actual_length\<close> at most the length
  that was asked for (for control transfers without the SETUP packet), with the bytes received from
  the start of the data on, and with the rest of the memory as it was.
\<close>

definition urb_done :: "i32 \<Rightarrow> nat \<Rightarrow> bytes \<Rightarrow> Urb \<Rightarrow> Urb" where
  "urb_done status start data u =
     u\<lparr>urb_status := status, urb_actual_length := of_nat (length data),
       urb_buffer := take start (urb_buffer u) @ map Some data @
                     drop (start + length data) (urb_buffer u)\<rparr>"

definition errno_range :: "i32 \<Rightarrow> bool" where
  "errno_range s \<longleftrightarrow> - 4095 \<le> sint s \<and> sint s \<le> 4095"

text \<open>\<open>from_raw_os_error\<close> is the identity on the numbers Linux uses.\<close>

definition from_raw_ok :: "(i32 \<Rightarrow> errno outcome) \<Rightarrow> bool" where
  "from_raw_ok from_raw \<longleftrightarrow> (\<forall>n. 0 < sint n \<and> sint n \<le> 4095 \<longrightarrow> from_raw n = Ret n)"

end
