(* ===== verification/Linux_Transfer_Theorems.thy ===== *)
theory Linux_Transfer_Theorems
  imports Linux_Transfer
begin

text \<open>
  Buffers survive the trip through a transfer: what the kernel received is what the completion
  holds, the buffer that comes back is well-formed, and control transfers put the SETUP packet in
  front of the data.
\<close>

section \<open>Integers\<close>

lemma i32_as_usize_of_nat: "n < 2 ^ 31 \<Longrightarrow> i32_as_usize (of_nat n) = n"
proof -
  assume n: "n < 2 ^ 31"
  have "sint (of_nat n :: i32) = int n"
    using n by (simp add: sint_uint signed_take_bit_int_eq_self unsigned_of_nat take_bit_nat_eq_self
        flip: of_nat_take_bit)
  then have "(scast (of_nat n :: i32) :: u64) = of_nat n" by (simp add: scast_eq)
  then show ?thesis using n by (simp add: i32_as_usize_def unat_of_nat)
qed

lemma i32_abs_range:
  assumes "errno_range s" "s \<noteq> 0"
  shows "\<exists>a. i32_abs s = Ret a \<and> sint a = \<bar>sint s\<bar> \<and> 0 < sint a \<and> sint a \<le> 4095"
proof -
  have r: "- 4095 \<le> sint s" "sint s \<le> 4095" using assms(1) by (auto simp: errno_range_def)
  have "sint (0x80000000 :: i32) = - 2147483648" by simp
  with r have ne: "s \<noteq> 0x80000000" by auto
  have nz: "sint s \<noteq> 0" using assms(2) by (metis signed_0 signed_word_eqI)
  have "sint (- s) = - sint s"
    unfolding sint_word_ariths using r by (intro signed_take_bit_int_eq_self) auto
  with r ne nz show ?thesis by (auto simp: i32_abs_def)
qed

definition i32_magnitude :: "i32 \<Rightarrow> i32" where
  "i32_magnitude s = (if sint s < 0 then - s else s)"

lemma td_status_ok:
  assumes fr: "from_raw_ok from_raw" and s: "errno_range (urb_status (td_urb t))"
  shows "td_status from_raw t = Ret (if urb_status (td_urb t) = 0 then Inr ()
    else Inl (errno_to_transfer_error (i32_magnitude (urb_status (td_urb t)))))"
proof (cases "urb_status (td_urb t) = 0")
  case False
  from i32_abs_range [OF s False] obtain a where
    a: "i32_abs (urb_status (td_urb t)) = Ret a" "0 < sint a" "sint a \<le> 4095" by blast
  then have "from_raw a = Ret a" using fr by (simp add: from_raw_ok_def)
  moreover have "a = i32_magnitude (urb_status (td_urb t))"
    using a(1) by (auto simp: i32_abs_def i32_magnitude_def split: if_splits)
  ultimately show ?thesis using a False by (simp add: td_status_def)
qed (simp add: td_status_def)

section \<open>IN transfers\<close>

lemma td_set_buffer_eq:
  "td_capacity t = 0 \<Longrightarrow> td_set_buffer buf t =
    Ret (t\<lparr>td_capacity := buf_capacity buf,
           td_urb := (td_urb t)
             \<lparr>urb_buffer := buf_mem buf, urb_actual_length := 0,
              urb_buffer_length :=
                (case direction_from_address (urb_endpoint (td_urb t)) of
                   Out \<Rightarrow> buf_len buf | In \<Rightarrow> buf_requested_len buf)\<rparr>,
           td_allocator := buf_allocator buf\<rparr>)"
  by (simp add: td_set_buffer_def)

text \<open>
  A buffer submitted on an IN endpoint comes back with the received bytes as its contents: for
  every well-formed buffer and whatever the kernel received (at most the requested length), taking
  the completion does not panic, the buffer is well-formed with the same memory, allocator and
  requested length, so it can be submitted again, the status is the mapped \<open>errno\<close>, and the
  transfer is ready for the next buffer.
\<close>

theorem in_transfer_roundtrip:
  assumes "from_raw_ok from_raw" "buffer_ok b" "td_capacity t = 0"
    "direction_from_address (urb_endpoint (td_urb t)) = In"
    "errno_range status" "length data \<le> buffer_requested_len b" "length data < 2 ^ 31"
  shows "\<exists>t1 c t2. td_set_buffer b t = Ret t1 \<and>
    td_take_completion from_raw (t1\<lparr>td_urb := urb_done status 0 data (td_urb t1)\<rparr>) = Ret (c, t2) \<and>
    buffer_ok (cmp_buffer c) \<and> buffer_deref (cmp_buffer c) = Ret data \<and>
    cmp_actual_len c = length data \<and> buf_requested_len (cmp_buffer c) = buf_requested_len b \<and>
    buf_capacity (cmp_buffer c) = buf_capacity b \<and> buf_allocator (cmp_buffer c) = buf_allocator b \<and>
    cmp_status c = (if status = 0 then Inr ()
      else Inl (errno_to_transfer_error (i32_magnitude status))) \<and>
    td_capacity t2 = 0"
proof -
  let ?u = "(td_urb t)\<lparr>urb_buffer := buf_mem b, urb_actual_length := 0,
    urb_buffer_length := buf_requested_len b\<rparr>"
  let ?t1 = "t\<lparr>td_capacity := buf_capacity b, td_urb := ?u, td_allocator := buf_allocator b\<rparr>"
  let ?t = "?t1\<lparr>td_urb := urb_done status 0 data (td_urb ?t1)\<rparr>"
  let ?b = "\<lparr>buf_mem = map Some data @ drop (length data) (buf_mem b), buf_len = of_nat (length data),
    buf_requested_len = buf_requested_len b, buf_capacity = buf_capacity b,
    buf_allocator = buf_allocator b\<rparr> :: Buffer"
  let ?st = "if status = 0 then Inr () else Inl (errno_to_transfer_error (i32_magnitude status))"
  have s1: "td_set_buffer b t = Ret ?t1" using assms(3,4) by (simp add: td_set_buffer_eq)
  have st: "td_status from_raw ?t = Ret ?st"
    using td_status_ok [OF assms(1), of ?t] assms(5) by (simp add: urb_done_def)
  have len: "unat (of_nat (length data) :: u32) = length data"
    using assms(7) by (intro unat_of_nat_u32) simp
  have ok: "buffer_ok ?b"
    using assms(2,6) len
    by (auto simp: buffer_ok_def buffer_requested_len_def list_all_iff)
  moreover have "buffer_bytes ?b = data" using len by (simp add: buffer_bytes_def comp_def)
  ultimately have "buffer_deref ?b = Ret data" by (simp add: buffer_deref_ok)
  moreover have "\<exists>t2. td_take_completion from_raw ?t =
      Ret (\<lparr>cmp_buffer = ?b, cmp_actual_len = length data, cmp_status = ?st\<rparr>, t2) \<and> td_capacity t2 = 0"
    unfolding td_take_completion_def st
    using assms(4) i32_as_usize_of_nat [OF assms(7)] by (simp add: urb_done_def Let_def)
  ultimately show ?thesis using s1 ok by fastforce
qed

theorem in_transfer_roundtrip_witness:
  "\<exists>t1 c t2. td_set_buffer
      \<lparr>buf_mem = [None, None, None, None], buf_len = 0, buf_requested_len = 4, buf_capacity = 4,
       buf_allocator = AllocMmap\<rparr> (transfer_data_new 0x81 TBulk) = Ret t1 \<and>
    td_take_completion Ret (t1\<lparr>td_urb := urb_done (- 2) 0 [5, 6] (td_urb t1)\<rparr>) = Ret (c, t2) \<and>
    buffer_deref (cmp_buffer c) = Ret [5, 6]"
  using in_transfer_roundtrip [of Ret
      "\<lparr>buf_mem = [None, None, None, None], buf_len = 0, buf_requested_len = 4, buf_capacity = 4,
       buf_allocator = AllocMmap\<rparr>" "transfer_data_new 0x81 TBulk" "- 2" "[5, 6]"]
  by (auto simp: from_raw_ok_def buffer_ok_def transfer_data_new_def direction_from_address_def
      direction_mask_def errno_range_def buffer_requested_len_def)

text \<open>
  An OUT buffer keeps its contents; \<open>requested_len\<close> of the returned buffer is the number of bytes
  that were to be sent.
\<close>

lemma out_transfer_roundtrip:
  assumes "from_raw_ok from_raw" "buffer_ok b" "td_capacity t = 0"
    "direction_from_address (urb_endpoint (td_urb t)) = Out" "errno_range status" "n < 2 ^ 31"
  shows "\<exists>t1 c t2. td_set_buffer b t = Ret t1 \<and>
    td_take_completion from_raw
      (t1\<lparr>td_urb := (td_urb t1)\<lparr>urb_status := status, urb_actual_length := of_nat n\<rparr>\<rparr>) = Ret (c, t2) \<and>
    buffer_ok (cmp_buffer c) \<and> buffer_bytes (cmp_buffer c) = buffer_bytes b \<and>
    cmp_actual_len c = n \<and> buf_requested_len (cmp_buffer c) = buf_len b \<and> td_capacity t2 = 0"
proof -
  let ?t1 = "t\<lparr>td_capacity := buf_capacity b, td_urb := (td_urb t)\<lparr>urb_buffer := buf_mem b,
    urb_actual_length := 0, urb_buffer_length := buf_len b\<rparr>, td_allocator := buf_allocator b\<rparr>"
  let ?t = "?t1\<lparr>td_urb := (td_urb ?t1)\<lparr>urb_status := status, urb_actual_length := of_nat n\<rparr>\<rparr>"
  have s1: "td_set_buffer b t = Ret ?t1" using assms(3,4) by (simp add: td_set_buffer_eq)
  obtain st where st: "td_status from_raw ?t = Ret st"
    using td_status_ok [OF assms(1), of ?t] assms(5) by simp
  have "\<exists>c t2. td_take_completion from_raw ?t = Ret (c, t2) \<and>
    cmp_buffer c = b\<lparr>buf_requested_len := buf_len b\<rparr> \<and> cmp_actual_len c = n \<and> td_capacity t2 = 0"
    unfolding td_take_completion_def st
    using assms(4) i32_as_usize_of_nat [OF assms(6)] by (simp add: Let_def)
  moreover have "buffer_ok (b\<lparr>buf_requested_len := buf_len b\<rparr>)"
    "buffer_bytes (b\<lparr>buf_requested_len := buf_len b\<rparr>) = buffer_bytes b"
    using assms(2) by (simp_all add: buffer_ok_def buffer_bytes_def)
  ultimately show ?thesis using s1 by fastforce
qed

section \<open>Control transfers\<close>

lemma pack_setup_length: "length (pack_setup d c r req v i l) = 8"
  by (simp add: pack_setup_def Let_def)

text \<open>A fresh buffer filled from the front: the contents and the rest uninitialised.\<close>

lemma fresh_extend:
  assumes "n \<le> alloc n" "alloc n < 2 ^ 32" "length xs \<le> n"
  shows "\<exists>b0 b1. buffer_new alloc n = Ret b0 \<and> buffer_extend_from_slice xs b0 = Ret b1 \<and>
    buffer_ok b1 \<and> buffer_bytes b1 = xs \<and> buffer_requested_len b1 = n \<and> buffer_capacity b1 = alloc n"
proof -
  from buffer_new_ok [of n alloc, OF assms(1,2)] obtain b0 where b0: "buffer_new alloc n = Ret b0" "buffer_ok b0"
    "buffer_bytes b0 = []" "buffer_requested_len b0 = n" "buffer_capacity b0 = alloc n" by blast
  have l0: "buffer_len b0 = 0" using length_buffer_bytes [OF b0(2)] b0(3) by simp
  have fit: "buffer_len b0 + length xs \<le> buffer_capacity b0" using b0(5) assms(1,3) l0 by simp
  have "buffer_requested_len (appended xs b0) = n" "buffer_capacity (appended xs b0) = alloc n"
    using b0(4,5) by (simp_all add: appended_def buffer_requested_len_def buffer_capacity_def)
  with buffer_extend_from_slice_eq [OF b0(2), of xs] appended_ok [OF b0(2) fit] fit b0 show ?thesis
    by auto
qed

text \<open>
  A control IN transfer asks the kernel for the SETUP packet and \<open>length\<close> bytes of data, and when
  the kernel has put any number of received bytes behind the SETUP packet, \<open>control_in_data\<close> is
  exactly these bytes; building it does not panic.
\<close>

theorem control_in_reads_data:
  assumes "8 + unat (ci_length d) \<le> alloc (8 + unat (ci_length d))"
    "alloc (8 + unat (ci_length d)) < 2 ^ 32" "length data \<le> unat (ci_length d)"
  shows "\<exists>t. new_control_in alloc d = Ret t \<and>
    urb_buffer_length (td_urb t) = of_nat (8 + unat (ci_length d)) \<and>
    take 8 (urb_buffer (td_urb t)) = map Some (control_in_setup_packet d) \<and>
    td_control_in_data (t\<lparr>td_urb := urb_done status 8 data (td_urb t)\<rparr>) = Ret data"
proof -
  let ?n = "8 + unat (ci_length d)"
  let ?s = "control_in_setup_packet d"
  have ls: "length ?s = 8" by (simp add: control_in_setup_packet_def pack_setup_length setup_packet_size_def)
  obtain b0 b1 where b: "buffer_new alloc ?n = Ret b0" "buffer_extend_from_slice ?s b0 = Ret b1"
    "buffer_ok b1" "buffer_bytes b1 = ?s" "buffer_requested_len b1 = ?n" "buffer_capacity b1 = alloc ?n"
    using fresh_extend [of ?n alloc ?s, OF assms(1,2)] ls by auto
  let ?t0 = "transfer_data_new 0x80 TControl"
  have dir: "direction_from_address (0x80 :: u8) = In"
    by (simp add: direction_from_address_def direction_mask_def)
  let ?t = "?t0\<lparr>td_capacity := buf_capacity b1, td_urb := (td_urb ?t0)\<lparr>urb_buffer := buf_mem b1,
    urb_actual_length := 0, urb_buffer_length := buf_requested_len b1\<rparr>, td_allocator := buf_allocator b1\<rparr>"
  have lt: "?n < 65544" using unat_u16_lt [of "ci_length d"] by simp
  have add: "checked_add setup_packet_size (unat (ci_length d)) = Some ?n"
    using lt by (simp add: checked_add_def setup_packet_size_def usize_max_def)
  have nt: "new_control_in alloc d = Ret ?t"
    by (simp add: new_control_in_def add b td_set_buffer_eq dir transfer_data_new_def)
  have rl: "buf_requested_len b1 = of_nat ?n"
    using b(5) unat_of_nat_u32 [of ?n] lt by (simp add: buffer_requested_len_def word_unat_eq_iff)
  have mem: "length (buf_mem b1) = alloc ?n" "take 8 (buf_mem b1) = map Some ?s"
    using b(3,4,6) ls length_buffer_bytes [OF b(3)] buffer_mem_split [OF b(3)]
    by (simp_all add: buffer_ok_def buffer_capacity_def) (metis append_eq_conv_conj length_map)
  have dl: "length data < 2 ^ 31" using assms(3) lt by simp
  have "raw_read (take 8 (buf_mem b1) @ map Some data @ drop (8 + length data) (buf_mem b1)) 8 (length data)
      = Ret data"
    using mem ls assms(1,3) by (simp add: raw_read_def list_all_iff comp_def)
  then have "td_control_in_data (?t\<lparr>td_urb := urb_done status 8 data (td_urb ?t)\<rparr>) = Ret data"
    using i32_as_usize_of_nat [OF dl]
    by (simp add: td_control_in_data_def urb_done_def transfer_data_new_def setup_packet_size_def)
  with nt rl mem show ?thesis by fastforce
qed

definition get_device_descriptor_setup :: ControlIn where
  "get_device_descriptor_setup =
     \<lparr>ci_control_type = Standard, ci_recipient = RecipientDevice, ci_request = 6, ci_value = 0x100,
      ci_index = 0, ci_length = 18\<rparr>"

theorem control_in_reads_data_witness:
  "\<exists>t. new_control_in (\<lambda>n. n) get_device_descriptor_setup = Ret t \<and>
    td_control_in_data (t\<lparr>td_urb := urb_done 0 8 [18, 1] (td_urb t)\<rparr>) = Ret [18, 1]"
proof -
  have l: "unat (ci_length get_device_descriptor_setup) = 18" by (simp add: get_device_descriptor_setup_def)
  show ?thesis
    using control_in_reads_data [of get_device_descriptor_setup "\<lambda>n. n" "[18, 1]" 0] by (auto simp: l)
qed

lemma control_out_setup_packet_eq:
  "control_out_setup_packet d =
     (if length (co_data d) < 2 ^ 16
      then Ret (pack_setup Out (co_control_type d) (co_recipient d) (co_request d) (co_value d)
             (co_index d) (of_nat (length (co_data d))))
      else Panic)"
  by (simp add: control_out_setup_packet_def try_u16_def)

text \<open>
  A control OUT transfer sends exactly the SETUP packet followed by the data; data of 65536 or
  more bytes, which \<open>wLength\<close> cannot express, panics instead of being cut.
\<close>

theorem control_out_sends_setup_and_data:
  assumes "8 + length (co_data d) \<le> alloc (8 + length (co_data d))"
    "alloc (8 + length (co_data d)) < 2 ^ 32"
  shows "if length (co_data d) < 2 ^ 16
    then \<exists>t s. new_control_out alloc d = Ret t \<and> control_out_setup_packet d = Ret s \<and>
      urb_buffer_length (td_urb t) = of_nat (8 + length (co_data d)) \<and>
      take (8 + length (co_data d)) (urb_buffer (td_urb t)) = map Some (s @ co_data d)
    else new_control_out alloc d = Panic"
proof -
  let ?n = "8 + length (co_data d)"
  have n32: "?n < 2 ^ 32" using assms by simp
  have add: "checked_add setup_packet_size (length (co_data d)) = Some ?n"
    using n32 by (simp add: checked_add_def setup_packet_size_def usize_max_def)
  show ?thesis
  proof (cases "length (co_data d) < 2 ^ 16")
    case False
    with buffer_new_ok [of ?n alloc, OF assms] add show ?thesis
      by (auto simp: new_control_out_def control_out_setup_packet_eq)
  next
    case True
    obtain s where s: "control_out_setup_packet d = Ret s" "length s = 8"
      using True by (simp add: control_out_setup_packet_eq pack_setup_length setup_packet_size_def)
    obtain b0 b1 where b: "buffer_new alloc ?n = Ret b0" "buffer_extend_from_slice s b0 = Ret b1"
      "buffer_ok b1" "buffer_bytes b1 = s" "buffer_capacity b1 = alloc ?n"
      using fresh_extend [of ?n alloc s, OF assms] s(2) by auto
    have l1: "buffer_len b1 = 8" using length_buffer_bytes [OF b(3)] b(4) s(2) by simp
    have fit: "buffer_len b1 + length (co_data d) \<le> buffer_capacity b1"
      using assms(1) b(5) l1 by simp
    let ?b2 = "appended (co_data d) b1"
    note a = appended_ok [OF b(3) fit]
    have b2: "buffer_extend_from_slice (co_data d) b1 = Ret ?b2"
      using fit by (simp add: buffer_extend_from_slice_eq [OF b(3)])
    have dir: "direction_from_address (0 :: u8) = Out"
      by (simp add: direction_from_address_def direction_mask_def)
    have "buf_len ?b2 = of_nat ?n"
      using a(3) l1 n32 unat_of_nat_u32 [of ?n] by (simp add: buffer_len_def word_unat_eq_iff)
    moreover have "take ?n (buf_mem ?b2) = map Some (s @ co_data d)"
      using buffer_mem_split [OF a(1)] a(2,3) b(4) l1 s(2)
      by (metis add.commute append_eq_conv_conj length_append length_map)
    ultimately show ?thesis
      using True s(1) by (simp add: new_control_out_def add b b2 td_set_buffer_eq transfer_data_new_def dir)
  qed
qed

definition set_line_coding :: ControlOut where
  "set_line_coding =
     \<lparr>co_control_type = Class, co_recipient = RecipientInterface, co_request = 0x20, co_value = 0,
      co_index = 0, co_data = [0, 0xc2, 1, 0, 0, 0, 8]\<rparr>"

theorem control_out_sends_setup_and_data_witness:
  "\<exists>t s. new_control_out (\<lambda>n. n) set_line_coding = Ret t \<and>
    control_out_setup_packet set_line_coding = Ret s \<and>
    take 15 (urb_buffer (td_urb t)) = map Some (s @ [0, 0xc2, 1, 0, 0, 0, 8])"
  using control_out_sends_setup_and_data [of set_line_coding "\<lambda>n. n"]
  by (auto simp: set_line_coding_def)

end
