(* ===== verification/Enumeration.thy ===== *)
theory Enumeration
  imports Rust_Text
begin

text \<open>
  src/src/enumeration.rs: what is known of a device and of a bus without opening it. The fields that
  every desktop platform has are one record; the fields that exist on one platform only extend it.
  The accessors of the Rust types are the selectors of the records.
\<close>

section \<open>Speeds and controllers\<close>

datatype Speed = Low | Full | High | Super | SuperPlus

definition speed_from_str :: "string \<Rightarrow> Speed option" where
  "speed_from_str s =
     (if s = ''low'' \<or> s = ''1.5'' then Some Low
      else if s = ''full'' \<or> s = ''12'' then Some Full
      else if s = ''high'' \<or> s = ''480'' then Some High
      else if s = ''super'' \<or> s = ''5000'' then Some Super
      else if s = ''super+'' \<or> s = ''10000'' then Some SuperPlus
      else None)"

datatype UsbControllerType = XHCI | EHCI | OHCI | UHCI | VHCI

definition to_ascii_lowercase :: "string \<Rightarrow> string" where
  "to_ascii_lowercase s =
     map (\<lambda>c. if 65 \<le> (of_char c :: nat) \<and> (of_char c :: nat) \<le> 90 then char_of (of_char c + 32 :: nat) else c) s"

text \<open>\<open>str::find\<close>: the position of the first occurrence.\<close>

fun find_str :: "string \<Rightarrow> string \<Rightarrow> nat option" where
  "find_str p s =
     (if is_prefix p s then Some 0
      else case s of [] \<Rightarrow> None | c # cs \<Rightarrow> map_option Suc (find_str p cs))"

declare find_str.simps [simp del]

definition controller_from_str :: "string \<Rightarrow> UsbControllerType option" where
  "controller_from_str s =
     (let lower_s = to_ascii_lowercase s in
      case find_str ''hci'' lower_s of
        None \<Rightarrow> None
      | Some i \<Rightarrow>
          if i > 0 then
            (let c = lower_s ! (i - 1) in
             if c = CHR ''x'' then Some XHCI
             else if c = CHR ''e'' then Some EHCI
             else if c = CHR ''o'' then Some OHCI
             else if c = CHR ''v'' then Some VHCI
             else if c = CHR ''u'' then Some UHCI
             else None)
          else None)"

section \<open>Devices\<close>

record InterfaceInfo =
  ii_interface_number :: u8
  ii_class :: u8
  ii_subclass :: u8
  ii_protocol :: u8
  ii_interface_string :: "string option"

record DeviceInfo =
  di_bus_id :: string
  di_device_address :: u8
  di_port_chain :: bytes
  di_vendor_id :: u16
  di_product_id :: u16
  di_device_version :: u16
  di_usb_version :: u16
  di_class :: u8
  di_subclass :: u8
  di_protocol :: u8
  di_speed :: "Speed option"
  di_manufacturer_string :: "string option"
  di_product_string :: "string option"
  di_serial_number :: "string option"
  di_interfaces :: "InterfaceInfo list"

record LinuxDeviceInfo = DeviceInfo +
  di_path :: string
  di_busnum :: u8

record LinuxDeviceId =
  id_bus :: u8
  id_addr :: u8

definition linux_device_id :: "LinuxDeviceInfo \<Rightarrow> LinuxDeviceId" where
  "linux_device_id d = \<lparr>id_bus = di_busnum d, id_addr = di_device_address d\<rparr>"

text \<open>\<open>HotplugEvent\<close> of src/src/hotplug.rs; \<open>'i\<close> is the platform's \<open>DeviceId\<close>.\<close>

datatype ('d, 'i) HotplugEvent = ConnectedEvent 'd | DisconnectedEvent 'i

section \<open>Buses\<close>

record BusInfo =
  bi_driver :: "string option"
  bi_bus_id :: string
  bi_controller_type :: "UsbControllerType option"

record LinuxBusInfo = BusInfo +
  bi_path :: string
  bi_root_hub :: LinuxDeviceInfo
  bi_busnum :: u8

definition linux_system_name :: "LinuxBusInfo \<Rightarrow> string option" where
  "linux_system_name b = di_product_string (bi_root_hub b)"

section \<open>Lemmas\<close>

lemma find_str_Some:
  "find_str p s = Some i \<Longrightarrow> i \<le> length s \<and> is_prefix p (drop i s) \<and> (\<forall>j < i. \<not> is_prefix p (drop j s))"
proof (induction s arbitrary: i)
  case Nil
  then show ?case by (subst (asm) find_str.simps) (auto split: if_splits)
next
  case (Cons c s)
  show ?case
  proof (cases "is_prefix p (c # s)")
    case True
    with Cons.prems show ?thesis by (subst (asm) find_str.simps) auto
  next
    case False
    with Cons.prems obtain k where k: "find_str p s = Some k" "i = Suc k"
      by (subst (asm) find_str.simps) auto
    have "\<not> is_prefix p (drop j (c # s))" if "j < i" for j
      using Cons.IH [OF k(1)] False that k(2) by (cases j) auto
    with Cons.IH [OF k(1)] k(2) show ?thesis by simp
  qed
qed

lemma find_str_None: "find_str p s = None \<Longrightarrow> \<not> is_prefix p (drop j s)"
proof (induction s arbitrary: j)
  case Nil
  then show ?case by (subst (asm) find_str.simps) (auto split: if_splits)
next
  case (Cons c s)
  from Cons.prems have n: "\<not> is_prefix p (c # s)" "find_str p s = None"
    by (subst (asm) find_str.simps; auto split: if_splits)+
  with Cons.IH show ?case by (cases j) auto
qed

end
