(* ===== verification/Linux_Enumeration.thy ===== *)
theory Linux_Enumeration
  imports Enumeration Linux_Usbfs
begin

text \<open>
  src/src/platform/linux_usbfs/enumeration.rs: devices are listed from sysfs. The file system is a
  parameter, the record \<open>sysfs\<close> of the calls of \<open>std::fs\<close> that the code makes; it may answer
  anything, since every path is read at most once.
\<close>

section \<open>The file system\<close>

text \<open>A \<open>std::io::Error\<close> of the operating system: its kind and its raw code.\<close>

record fs_error =
  fe_kind :: IoErrorKind
  fe_raw :: "i32 option"

text \<open>An entry of a directory has a name and says if it is a directory.\<close>

record sysfs =
  fs_read_to_string :: "string \<Rightarrow> fs_error + string"
  fs_read_link :: "string \<Rightarrow> fs_error + string"
  fs_read_dir :: "string \<Rightarrow> fs_error + (fs_error + string \<times> (fs_error + bool)) list"
  fs_canonicalize :: "string \<Rightarrow> fs_error + string"

text \<open>A file system without sysfs.\<close>

definition no_entry :: "string \<Rightarrow> fs_error + 'a" where
  "no_entry p = Inl \<lparr>fe_kind = IoNotFound, fe_raw = Some 2\<rparr>"

definition no_sysfs :: sysfs where
  "no_sysfs =
     \<lparr>fs_read_to_string = no_entry, fs_read_link = no_entry, fs_read_dir = no_entry, fs_canonicalize = no_entry\<rparr>"

section \<open>Attributes\<close>

datatype SysfsErrorKind = SysfsIo fs_error | SysfsParse string

datatype SysfsError = SysfsError string SysfsErrorKind

definition parse_attr :: "sysfs \<Rightarrow> string \<Rightarrow> string \<Rightarrow> (string \<Rightarrow> 'a option) \<Rightarrow> SysfsError + 'a" where
  "parse_attr fs p attr parse =
     (case fs_read_to_string fs (path_join p attr) of
        Inl e \<Rightarrow> Inl (SysfsError (path_join p attr) (SysfsIo e))
      | Inr v \<Rightarrow>
          (case parse (trim v) of
             None \<Rightarrow> Inl (SysfsError (path_join p attr) (SysfsParse v))
           | Some x \<Rightarrow> Inr x))"

definition readlink_attr :: "sysfs \<Rightarrow> string \<Rightarrow> string \<Rightarrow> SysfsError + string" where
  "readlink_attr fs p attr =
     (case fs_read_link fs (path_join p attr) of
        Inl e \<Rightarrow> Inl (SysfsError (path_join p attr) (SysfsIo e))
      | Inr q \<Rightarrow> Inr q)"

text \<open>\<open>read_attr\<close> at \<open>u8\<close> and at \<open>String\<close>, and \<open>read_attr_hex\<close>.\<close>

definition read_attr_u8 :: "sysfs \<Rightarrow> string \<Rightarrow> string \<Rightarrow> SysfsError + u8" where
  "read_attr_u8 fs p attr = parse_attr fs p attr (from_str_radix 10)"

definition read_attr_string :: "sysfs \<Rightarrow> string \<Rightarrow> string \<Rightarrow> SysfsError + string" where
  "read_attr_string fs p attr = parse_attr fs p attr Some"

definition from_hex_str :: "string \<Rightarrow> 'w::len word option" where
  "from_hex_str s = from_str_radix 16 s"

definition read_attr_hex :: "sysfs \<Rightarrow> string \<Rightarrow> string \<Rightarrow> SysfsError + 'w::len word" where
  "read_attr_hex fs p attr =
     parse_attr fs p attr
       (\<lambda>s. from_hex_str (case strip_prefix ''0x'' s of None \<Rightarrow> s | Some t \<Rightarrow> t))"

definition readlink_attr_filename :: "sysfs \<Rightarrow> string \<Rightarrow> string \<Rightarrow> SysfsError + string" where
  "readlink_attr_filename fs p attr =
     (case readlink_attr fs p attr of
        Inl e \<Rightarrow> Inl e
      | Inr q \<Rightarrow>
          (case file_name q of
             Some n \<Rightarrow>
               if valid_utf8 n then Inr n
               else Inl (SysfsError q (SysfsParse (''Failed to read filename for readlink attribute '' @ attr)))
           | None \<Rightarrow>
               Inl (SysfsError q (SysfsParse (''Failed to read filename for readlink attribute '' @ attr)))))"

definition children :: "sysfs \<Rightarrow> string \<Rightarrow> string list" where
  "children fs p =
     (case fs_read_dir fs p of
        Inl e \<Rightarrow> []
      | Inr es \<Rightarrow>
          List.map_filter
            (\<lambda>e. case e of Inr (n, Inr True) \<Rightarrow> Some (path_join p n) | _ \<Rightarrow> None) es)"

section \<open>Probing a device\<close>

definition ok_of :: "'e + 'a \<Rightarrow> 'a option" where
  "ok_of r = (case r of Inl e \<Rightarrow> None | Inr x \<Rightarrow> Some x)"

lemma ok_of_simps [simp]: "ok_of (Inl e) = None" "ok_of (Inr x) = Some x"
  by (simp_all add: ok_of_def)

fun collect_options :: "'a option list \<Rightarrow> 'a list option" where
  "collect_options [] = Some []"
| "collect_options (None # xs) = None"
| "collect_options (Some x # xs) = map_option (\<lambda>ys. x # ys) (collect_options xs)"

definition parse_port_chain :: "string \<Rightarrow> bytes option" where
  "parse_port_chain p = collect_options (map (from_str_radix 10) (split_on (CHR ''.'') p))"

text \<open>\<open>bcdUSB\<close> is printed as \<open>%2x.%02x\<close>; every dot shifts what came before by a byte.\<close>

fun parse_version_from :: "u16 \<Rightarrow> string list \<Rightarrow> u16 option" where
  "parse_version_from a [] = Some a"
| "parse_version_from a (b # bs) =
     (case from_hex_str b of None \<Rightarrow> None | Some n \<Rightarrow> parse_version_from (or (push_bit 8 a) n) bs)"

definition parse_version :: "string \<Rightarrow> u16 option" where
  "parse_version s = parse_version_from 0 (split_on (CHR ''.'') s)"

definition probe_interface :: "sysfs \<Rightarrow> string \<Rightarrow> InterfaceInfo option" where
  "probe_interface fs i =
     (case (ok_of (read_attr_hex fs i ''bInterfaceNumber''), ok_of (read_attr_hex fs i ''bInterfaceClass''),
            ok_of (read_attr_hex fs i ''bInterfaceSubClass''), ok_of (read_attr_hex fs i ''bInterfaceProtocol''))
      of (Some n, Some c, Some s, Some pr) \<Rightarrow>
           Some \<lparr>ii_interface_number = n, ii_class = c, ii_subclass = s, ii_protocol = pr,
                 ii_interface_string = ok_of (read_attr_string fs i ''interface'')\<rparr>
       | _ \<Rightarrow> None)"

text \<open>
  Interfaces have a colon in their name. They are sorted by their number; the order of equal
  numbers, which Rust leaves open, is here the order of the directory.
\<close>

definition interface_dirs :: "sysfs \<Rightarrow> string \<Rightarrow> string list" where
  "interface_dirs fs p =
     filter (\<lambda>i. CHR '':'' \<in> set (case file_name i of None \<Rightarrow> [] | Some n \<Rightarrow> n)) (children fs p)"

definition probe_interfaces :: "sysfs \<Rightarrow> string \<Rightarrow> InterfaceInfo list" where
  "probe_interfaces fs p =
     sort_key ii_interface_number
       (List.map_filter (probe_interface fs) (interface_dirs fs p))"

definition dec_padded :: "nat \<Rightarrow> nat \<Rightarrow> string" where
  "dec_padded width n = pad_zeros width (dec_digits n)"

definition sbind :: "'e + 'a \<Rightarrow> ('a \<Rightarrow> 'e + 'b) \<Rightarrow> 'e + 'b" where
  "sbind r f = (case r of Inl e \<Rightarrow> Inl e | Inr x \<Rightarrow> f x)"

lemma sbind_simps [simp]: "sbind (Inl e) f = Inl e" "sbind (Inr x) f = f x"
  by (simp_all add: sbind_def)

definition probe_device :: "sysfs \<Rightarrow> string \<Rightarrow> SysfsError + LinuxDeviceInfo" where
  "probe_device fs p =
     sbind (read_attr_u8 fs p ''busnum'') (\<lambda>busnum.
     sbind (read_attr_u8 fs p ''devnum'') (\<lambda>device_address.
     let port_chain =
       (case ok_of (read_attr_string fs p ''devpath'') of
          None \<Rightarrow> []
        | Some d \<Rightarrow>
            if d = ''0'' then []
            else case parse_port_chain d of None \<Rightarrow> [] | Some c \<Rightarrow> c) in
     sbind (read_attr_hex fs p ''idVendor'') (\<lambda>vendor_id.
     sbind (read_attr_hex fs p ''idProduct'') (\<lambda>product_id.
     sbind (read_attr_hex fs p ''bcdDevice'') (\<lambda>device_version.
     sbind (parse_attr fs p ''version'' parse_version) (\<lambda>usb_version.
     sbind (read_attr_hex fs p ''bDeviceClass'') (\<lambda>class.
     sbind (read_attr_hex fs p ''bDeviceSubClass'') (\<lambda>subclass.
     sbind (read_attr_hex fs p ''bDeviceProtocol'') (\<lambda>protocol.
       Inr \<lparr>di_bus_id = dec_padded 3 (unat busnum), di_device_address = device_address,
            di_port_chain = port_chain, di_vendor_id = vendor_id, di_product_id = product_id,
            di_device_version = device_version, di_usb_version = usb_version, di_class = class,
            di_subclass = subclass, di_protocol = protocol,
            di_speed = Option.bind (ok_of (read_attr_string fs p ''speed'')) speed_from_str,
            di_manufacturer_string = ok_of (read_attr_string fs p ''manufacturer''),
            di_product_string = ok_of (read_attr_string fs p ''product''),
            di_serial_number = ok_of (read_attr_string fs p ''serial''),
            di_interfaces = probe_interfaces fs p, di_path = p, di_busnum = busnum\<rparr>)))))))))"

section \<open>Listing\<close>

definition devices_dir :: string where
  "devices_dir = ''/sys/bus/usb/devices/''"

definition sysfs_list_usb :: "sysfs \<Rightarrow> nusb_error + (fs_error + string \<times> (fs_error + bool)) list" where
  "sysfs_list_usb fs =
     (case fs_read_dir fs devices_dir of
        Inr es \<Rightarrow> Inr es
      | Inl e \<Rightarrow>
          Inl (if fe_kind e = IoNotFound
               then error_new_io KOther ''/sys/bus/usb/devices/ not found'' (fe_raw e)
               else if fe_kind e = IoPermissionDenied
               then error_new_io KPermissionDenied ''/sys/bus/usb/devices/ permission denied'' (fe_raw e)
               else error_new_io KOther ''failed to open /sys/bus/usb/devices/'' (fe_raw e)))"

text \<open>The path of an entry, if it can be read and \<open>keep\<close> holds of its name.\<close>

definition probe_entry ::
  "sysfs \<Rightarrow> (string \<Rightarrow> bool) \<Rightarrow> fs_error + string \<times> (fs_error + bool) \<Rightarrow> LinuxDeviceInfo option" where
  "probe_entry fs keep entry =
     (case entry of
        Inl e \<Rightarrow> None
      | Inr (n, _) \<Rightarrow>
          (case file_name (path_join devices_dir n) of
             None \<Rightarrow> None
           | Some name \<Rightarrow>
               if \<not> keep name then None
               else
                 (case fs_canonicalize fs (path_join devices_dir n) of
                    Inl e \<Rightarrow> None
                  | Inr q \<Rightarrow> ok_of (probe_device fs q))))"

definition is_device_name :: "string \<Rightarrow> bool" where
  "is_device_name name =
     list_all (\<lambda>c. (48 \<le> (of_char c :: nat) \<and> (of_char c :: nat) \<le> 57) \<or> c = CHR ''-'' \<or> c = CHR ''.'') name"

definition linux_list_devices :: "sysfs \<Rightarrow> nusb_error + LinuxDeviceInfo list" where
  "linux_list_devices fs = map_sum id (List.map_filter (probe_entry fs is_device_name)) (sysfs_list_usb fs)"

definition list_root_hubs :: "sysfs \<Rightarrow> nusb_error + LinuxDeviceInfo list" where
  "list_root_hubs fs = map_sum id (List.map_filter (probe_entry fs (is_prefix ''usb''))) (sysfs_list_usb fs)"

definition bus_of_root_hub :: "sysfs \<Rightarrow> LinuxDeviceInfo \<Rightarrow> LinuxBusInfo option" where
  "bus_of_root_hub fs rh =
     (case path_parent (di_path rh) of
        None \<Rightarrow> None
      | Some parent_path \<Rightarrow>
          (let driver = ok_of (readlink_attr_filename fs parent_path ''driver'') in
           Some \<lparr>bi_driver = driver, bi_bus_id = di_bus_id rh,
                 bi_controller_type = Option.bind driver controller_from_str,
                 bi_path = di_path rh, bi_root_hub = rh, bi_busnum = di_busnum rh\<rparr>))"

definition linux_list_buses :: "sysfs \<Rightarrow> nusb_error + LinuxBusInfo list" where
  "linux_list_buses fs = map_sum id (List.map_filter (bus_of_root_hub fs)) (list_root_hubs fs)"

end
