(* ===== verification/Linux_Device.thy ===== *)
theory Linux_Device
  imports Linux_Transfer Transfer_State Strings Linux_Enumeration
begin

text \<open>
  The device of the Linux backend: \<open>LinuxDevice\<close> of src/src/platform/linux_usbfs/device.rs. Time is
  in nanoseconds since an arbitrary start. The URB of a transfer is boxed and owned by it, so one
  address stands for both. The reader of sysfs attributes, the file of descriptors and the kernel are
  parameters.
\<close>

section \<open>Timeouts\<close>

datatype TimeoutEntry = TimeoutEntry (te_deadline: nat) (te_urb: nat)

text \<open>\<open>#[derive(PartialOrd, Ord)]\<close>: first the deadline, then the pointer.\<close>

instantiation TimeoutEntry :: linorder
begin

definition less_eq_TimeoutEntry :: "TimeoutEntry \<Rightarrow> TimeoutEntry \<Rightarrow> bool" where
  "less_eq_TimeoutEntry a b \<longleftrightarrow>
     te_deadline a < te_deadline b \<or> te_deadline a = te_deadline b \<and> te_urb a \<le> te_urb b"

definition less_TimeoutEntry :: "TimeoutEntry \<Rightarrow> TimeoutEntry \<Rightarrow> bool" where
  "less_TimeoutEntry a b \<longleftrightarrow>
     te_deadline a < te_deadline b \<or> te_deadline a = te_deadline b \<and> te_urb a < te_urb b"

instance
  by standard
    (auto simp: less_eq_TimeoutEntry_def less_TimeoutEntry_def TimeoutEntry.expand)

end

text \<open>\<open>Timespec\<close>, with seconds and nanoseconds as 64-bit integers.\<close>

record Timespec =
  tv_sec :: "64 word"
  tv_nsec :: "64 word"

definition TIMESPEC_ZERO :: Timespec where
  "TIMESPEC_ZERO = \<lparr>tv_sec = 0, tv_nsec = 0\<rparr>"

definition nanos_per_sec :: nat where
  "nanos_per_sec = 1000000000"

definition timespec_of_nanos :: "nat \<Rightarrow> Timespec" where
  "timespec_of_nanos n =
     \<lparr>tv_sec = of_nat (n div nanos_per_sec), tv_nsec = of_nat (n mod nanos_per_sec)\<rparr>"

text \<open>\<open>Instant::checked_duration_since\<close>\<close>

definition checked_duration_since :: "nat \<Rightarrow> nat \<Rightarrow> nat option" where
  "checked_duration_since deadline now = (if now \<le> deadline then Some (deadline - now) else None)"

type_synonym timeouts = "(TimeoutEntry, unit) btree"

text \<open>The value that \<open>update_timeouts\<close> gives to \<open>timerfd_settime\<close>; zero disarms the timer.\<close>

definition update_timeouts :: "timeouts \<Rightarrow> nat \<Rightarrow> Timespec" where
  "update_timeouts timeouts now =
     (case timeouts of
        (TimeoutEntry deadline urb, _) # _ \<Rightarrow>
          timespec_of_nanos (case checked_duration_since deadline now of None \<Rightarrow> 1 | Some d \<Rightarrow> d)
      | [] \<Rightarrow> TIMESPEC_ZERO)"

section \<open>The device\<close>

record LinuxDevice =
  ld_events_id :: nat
  ld_descriptors :: bytes
  ld_sysfs :: "string option"
  ld_active_config :: u8
  ld_timeouts :: timeouts
  ld_timer :: Timespec

text \<open>What the backend works on: the device, the transfers and the kernel.\<close>

record 'k lx =
  lx_dev :: LinuxDevice
  lx_heap :: "TransferData tx_heap"
  lx_kern :: 'k

definition bConfigurationValue :: string where
  "bConfigurationValue = ''bConfigurationValue''"

definition REQUEST_GET_CONFIGURATION :: u8 where
  "REQUEST_GET_CONFIGURATION = 0x08"

text \<open>
  The request and its answer: \<open>dst\<close> is the byte that the kernel writes to, which the kernel
  parameter reports separately.
\<close>

definition request_configuration ::
  "'k kernel \<Rightarrow> ('k \<Rightarrow> u8) \<Rightarrow> 'k \<Rightarrow> (unit + u8) \<times> 'k" where
  "request_configuration K dst k =
     (case usbfs_control K
        \<lparr>ct_bRequestType = request_type In Standard RecipientDevice,
         ct_bRequest = REQUEST_GET_CONFIGURATION, ct_wValue = 0, ct_wIndex = 0, ct_wLength = 1,
         ct_timeout = 50\<rparr> k of
        (Inr n, k') \<Rightarrow> (if n = 1 then Inr (dst k') else Inl (), k')
      | (Inl e, k') \<Rightarrow> (Inl (), k'))"

definition guess_active_configuration ::
  "'k kernel \<Rightarrow> ('k \<Rightarrow> u8) \<Rightarrow> bytes \<Rightarrow> 'k \<Rightarrow> (u8 \<times> 'k) outcome" where
  "guess_active_configuration K dst descriptors k =
     (case request_configuration K dst k of
        (Inr c, k') \<Rightarrow> Ret (c, k')
      | (Inl _, k') \<Rightarrow>
          obind (slice_from descriptors (unat DESCRIPTOR_LEN_DEVICE)) (\<lambda>d.
          obind (parse_config_next d) (\<lambda>(c, _).
            case c of
              Some config \<Rightarrow> omap (\<lambda>v. (v, k')) (config_configuration_value config)
            | None \<Rightarrow> Ret (0, k'))))"

text \<open>
  \<open>create_inner\<close>: \<open>descriptors\<close> is the result of reading the file (\<open>Inl\<close> the raw OS error),
  \<open>timerfd\<close> that of \<open>timerfd_create\<close>, \<open>reg\<close> that of registering with epoll, \<open>ev_id\<close> the slot in the
  table of devices.
\<close>

definition create_inner ::
  "'k kernel \<Rightarrow> ('k \<Rightarrow> u8) \<Rightarrow> sysfs \<Rightarrow> (i32 option + bytes) \<Rightarrow> errno option \<Rightarrow>
   (nat \<Rightarrow> nusb_error option) \<Rightarrow> nat \<Rightarrow> string option \<Rightarrow> 'k \<Rightarrow> ((nusb_error + LinuxDevice) \<times> 'k) outcome"
where
  "create_inner K dst fs descriptors timerfd reg ev_id sysfs k =
     (case descriptors of
        Inl raw \<Rightarrow> Ret (Inl (error_new_io KOther ''failed to read descriptors'' raw), k)
      | Inr descriptors \<Rightarrow>
          (case device_descriptor_new descriptors of
             None \<Rightarrow> Ret (Inl (error_new KOther ''invalid device descriptor''), k)
           | Some _ \<Rightarrow>
               obind
                 (case sysfs of
                    Some path \<Rightarrow>
                      Ret (case read_attr_u8 fs path bConfigurationValue of
                             Inr v \<Rightarrow> Inr v
                           | Inl (SysfsError _ (SysfsParse _)) \<Rightarrow> Inr 0
                           | Inl (SysfsError _ (SysfsIo _)) \<Rightarrow>
                               Inl (error_new KOther ''failed to read sysfs bConfigurationValue''), k)
                  | None \<Rightarrow>
                      omap (\<lambda>(c, k'). (Inr c, k')) (guess_active_configuration K dst descriptors k))
                 (\<lambda>(active, k').
                   Ret (case active of
                          Inl e \<Rightarrow> Inl e
                        | Inr active_config \<Rightarrow>
                            (case timerfd of
                               Some e \<Rightarrow> Inl (error_new_os KOther ''failed to create timerfd'' e)
                             | None \<Rightarrow>
                                 (case reg 0 of
                                    Some e \<Rightarrow> Inl e
                                  | None \<Rightarrow>
                                      (case reg 1 of
                                         Some e \<Rightarrow> Inl e
                                       | None \<Rightarrow>
                                           Inr \<lparr>ld_events_id = ev_id, ld_descriptors = descriptors,
                                                ld_sysfs = sysfs, ld_active_config = active_config,
                                                ld_timeouts = [], ld_timer = TIMESPEC_ZERO\<rparr>))), k'))))"

text \<open>The \<open>errno\<close> of \<open>open\<close> on the device node.\<close>

definition open_error :: "errno \<Rightarrow> nusb_error" where
  "open_error e =
     (if e = ENOENT then error_new_os KDisconnected ''device not found'' e
      else if e = EPERM \<or> e = EACCES then error_new_os KPermissionDenied ''permission denied'' e
      else error_new_os KOther ''failed to open device'' e)"

definition device_device_descriptor :: "LinuxDevice \<Rightarrow> DeviceDescriptor outcome" where
  "device_device_descriptor d = unwrap (device_descriptor_new (ld_descriptors d))"

definition device_configuration_descriptors :: "LinuxDevice \<Rightarrow> ConfigurationDescriptor list outcome" where
  "device_configuration_descriptors d =
     obind (slice_from (ld_descriptors d) (unat DESCRIPTOR_LEN_DEVICE))
       parse_concatenated_config_descriptors"

definition active_configuration_value :: "sysfs \<Rightarrow> LinuxDevice \<Rightarrow> u8 \<times> LinuxDevice" where
  "active_configuration_value fs d =
     (case ld_sysfs d of
        Some path \<Rightarrow>
          (case read_attr_u8 fs path bConfigurationValue of
             Inr v \<Rightarrow> (v, d\<lparr>ld_active_config := v\<rparr>)
           | Inl (SysfsError _ (SysfsParse _)) \<Rightarrow> (0, d\<lparr>ld_active_config := 0\<rparr>)
           | Inl (SysfsError _ (SysfsIo _)) \<Rightarrow> (ld_active_config d, d))
      | None \<Rightarrow> (ld_active_config d, d))"

definition set_configuration ::
  "'k kernel \<Rightarrow> u8 \<Rightarrow> 'k lx \<Rightarrow> (nusb_error + unit) \<times> 'k lx" where
  "set_configuration K configuration s =
     (case usbfs_set_configuration K configuration (lx_kern s) of
        (Some e, k) \<Rightarrow>
          (Inl (if e = EINVAL then error_new_os KNotFound ''configuration not found'' e
                else if e = EBUSY then error_new_os KBusy ''device is busy'' e
                else if e = ENODEV then error_new_os KDisconnected ''device disconnected'' e
                else error_new_os KOther ''failed to set configuration'' e), s\<lparr>lx_kern := k\<rparr>)
      | (None, k) \<Rightarrow>
          (Inr (), s\<lparr>lx_kern := k, lx_dev := (lx_dev s)\<lparr>ld_active_config := configuration\<rparr>\<rparr>))"

definition reset_device :: "'k kernel \<Rightarrow> 'k lx \<Rightarrow> (nusb_error + unit) \<times> 'k lx" where
  "reset_device K s =
     (case usbfs_reset K (lx_kern s) of
        (Some e, k) \<Rightarrow>
          (Inl (if e = EBUSY then error_new_os KBusy ''device is busy'' e
                else if e = ENODEV then error_new_os KDisconnected ''device disconnected'' e
                else error_new_os KOther ''failed to reset device'' e), s\<lparr>lx_kern := k\<rparr>)
      | (None, k) \<Rightarrow> (Inr (), s\<lparr>lx_kern := k\<rparr>))"

definition detach_kernel_driver :: "'k kernel \<Rightarrow> u8 \<Rightarrow> 'k lx \<Rightarrow> (nusb_error + unit) \<times> 'k lx" where
  "detach_kernel_driver K n s =
     (case usbfs_detach_kernel_driver K n (lx_kern s) of
        (Some e, k) \<Rightarrow>
          (Inl (if e = EINVAL then error_new_os KNotFound ''interface not found'' e
                else if e = ENODEV then error_new_os KDisconnected ''device disconnected'' e
                else if e = ENODATA then error_new_os KOther ''no kernel driver attached'' e
                else error_new_os KOther ''failed to detach kernel driver'' e), s\<lparr>lx_kern := k\<rparr>)
      | (None, k) \<Rightarrow> (Inr (), s\<lparr>lx_kern := k\<rparr>))"

definition attach_kernel_driver :: "'k kernel \<Rightarrow> u8 \<Rightarrow> 'k lx \<Rightarrow> (nusb_error + unit) \<times> 'k lx" where
  "attach_kernel_driver K n s =
     (case usbfs_attach_kernel_driver K n (lx_kern s) of
        (Some e, k) \<Rightarrow>
          (Inl (if e = EINVAL then error_new_os KNotFound ''interface not found'' e
                else if e = ENODEV then error_new_os KDisconnected ''device disconnected'' e
                else if e = EBUSY then error_new_os KBusy ''kernel driver already attached'' e
                else error_new_os KOther ''failed to attach kernel driver'' e), s\<lparr>lx_kern := k\<rparr>)
      | (None, k) \<Rightarrow> (Inr (), s\<lparr>lx_kern := k\<rparr>))"

definition linux_speed :: "'k kernel \<Rightarrow> 'k lx \<Rightarrow> Speed option \<times> 'k lx" where
  "linux_speed K s =
     (case usbfs_get_speed K (lx_kern s) of
        (Inl e, k) \<Rightarrow> (None, s\<lparr>lx_kern := k\<rparr>)
      | (Inr raw, k) \<Rightarrow>
          (if raw = 1 then Some Low else if raw = 2 then Some Full else if raw = 3 then Some High
           else if raw = 5 then Some Super else if raw = 6 then Some SuperPlus else None,
           s\<lparr>lx_kern := k\<rparr>))"

section \<open>Submitting\<close>

text \<open>Writing to the URB of a block through its raw pointer.\<close>

definition urb_modify :: "nat \<Rightarrow> (Urb \<Rightarrow> Urb) \<Rightarrow> TransferData tx_heap \<Rightarrow> TransferData tx_heap outcome" where
  "urb_modify p f h =
     obind (th_load h p) (\<lambda>i.
       Ret (th_store p
         (i\<lparr>ti_platform_data := (ti_platform_data i)\<lparr>td_urb := f (td_urb (ti_platform_data i))\<rparr>\<rparr>) h))"

text \<open>
  \<open>submit\<close>: the transfer becomes pending, its address goes into the URB, and the URB to the kernel;
  when the kernel refuses it, it is completed here with the error. The second component of the
  result is what is to be notified.
\<close>

definition device_submit ::
  "'k kernel \<Rightarrow> Idle \<Rightarrow> 'k lx \<Rightarrow> (Pending \<times> NotifyState \<times> 'k lx) outcome" where
  "device_submit K t s =
     obind (pre_submit t (lx_heap s)) (\<lambda>(pnd, h1).
     let p = pending_ptr pnd in
     obind (urb_modify p (\<lambda>u. u\<lparr>urb_usercontext := Some p\<rparr>) h1) (\<lambda>h2.
     obind (th_load h2 p) (\<lambda>i.
     case usbfs_submit_urb K p (td_urb (ti_platform_data i)) (lx_kern s) of
       (Some e, k) \<Rightarrow>
         obind (urb_modify p (\<lambda>u. u\<lparr>urb_actual_length := 0, urb_status := e\<rparr>) h2) (\<lambda>h3.
         obind (notify_completion p h3) (\<lambda>(w, h4).
           Ret (pnd, w, s\<lparr>lx_heap := h4, lx_kern := k\<rparr>)))
     | (None, k) \<Rightarrow> Ret (pnd, NotifyNone, s\<lparr>lx_heap := h2, lx_kern := k\<rparr>))))"

text \<open>The largest \<open>Instant\<close>: adding beyond it panics.\<close>

definition instant_max :: nat where
  "instant_max = (2 ^ 63 - 1) * nanos_per_sec + (nanos_per_sec - 1)"

definition submit_timeout ::
  "'k kernel \<Rightarrow> nat \<Rightarrow> Idle \<Rightarrow> nat \<Rightarrow> 'k lx \<Rightarrow> (Pending \<times> NotifyState \<times> 'k lx) outcome" where
  "submit_timeout K now t timeout s =
     (if now + timeout > instant_max then Panic
      else
        let deadline = now + timeout in
        obind (idle_deref_mut (\<lambda>d. d\<lparr>td_deadline := Some deadline\<rparr>) t (lx_heap s)) (\<lambda>h.
        obind (device_submit K t (s\<lparr>lx_heap := h\<rparr>)) (\<lambda>(pnd, w, s').
        obind (is_complete pnd (lx_heap s')) (\<lambda>c.
          if c then Ret (pnd, w, s')
          else
            let m = btree_insert (TimeoutEntry deadline (idle_ptr t)) () (ld_timeouts (lx_dev s'))
            in Ret (pnd, w, s'\<lparr>lx_dev := (lx_dev s')\<lparr>ld_timeouts := m,
                                                  ld_timer := update_timeouts m now\<rparr>\<rparr>)))))"

definition device_cancel :: "'k kernel \<Rightarrow> Pending \<Rightarrow> 'k lx \<Rightarrow> 'k lx outcome" where
  "device_cancel K pnd s =
     obind (th_load (lx_heap s) (pending_ptr pnd)) (\<lambda>_.
     case usbfs_discard_urb K (pending_ptr pnd) (lx_kern s) of
       (_, k) \<Rightarrow> Ret (s\<lparr>lx_kern := k\<rparr>))"

section \<open>Events\<close>

text \<open>
  \<open>handle_events\<close>: the kernel has written the URB, so the block holds what it left there. The
  result says whether the descriptor is to be unregistered, and what is to be notified.
\<close>

definition handle_events ::
  "'k reaper \<Rightarrow> nat \<Rightarrow> 'k lx \<Rightarrow> (bool \<times> NotifyState \<times> 'k lx) outcome" where
  "handle_events R now s =
     (case usbfs_reap_urb_ndelay R (lx_kern s) of
        (Inr (urb, u), k) \<Rightarrow>
          (case urb_usercontext u of
             None \<Rightarrow> UB
           | Some transfer \<Rightarrow>
               obind (urb_modify transfer (\<lambda>_. u) (lx_heap s)) (\<lambda>h.
               obind (th_load h transfer) (\<lambda>i.
               rassert (transfer = urb) (
               let dev = lx_dev s;
                   dev' = (case td_deadline (ti_platform_data i) of
                             None \<Rightarrow> dev
                           | Some deadline \<Rightarrow>
                               let m = btree_remove (TimeoutEntry deadline urb) (ld_timeouts dev)
                               in dev\<lparr>ld_timeouts := m, ld_timer := update_timeouts m now\<rparr>)
               in obind (notify_completion transfer h) (\<lambda>(w, h').
                    Ret (False, w, s\<lparr>lx_dev := dev', lx_heap := h', lx_kern := k\<rparr>))))))
      | (Inl e, k) \<Rightarrow> Ret (e = ENODEV, NotifyNone, s\<lparr>lx_kern := k\<rparr>))"

text \<open>The loop of \<open>handle_timeouts\<close>: expired entries are removed and their URBs discarded.\<close>

fun expire_timeouts :: "'k kernel \<Rightarrow> nat \<Rightarrow> timeouts \<Rightarrow> 'k \<Rightarrow> timeouts \<times> 'k" where
  "expire_timeouts K now [] k = ([], k)"
| "expire_timeouts K now ((TimeoutEntry deadline urb, u) # m) k =
     (if deadline > now then ((TimeoutEntry deadline urb, u) # m, k)
      else expire_timeouts K now m (snd (usbfs_discard_urb K urb k)))"

text \<open>
  The code reads the timerfd first, to reset its count of expirations; it ignores the result, and nothing
  else depends on the count, so that the read is not in the model.
\<close>

definition handle_timeouts :: "'k kernel \<Rightarrow> nat \<Rightarrow> 'k lx \<Rightarrow> 'k lx" where
  "handle_timeouts K now s =
     (case expire_timeouts K now (ld_timeouts (lx_dev s)) (lx_kern s) of
        (m, k) \<Rightarrow>
          s\<lparr>lx_kern := k,
            lx_dev := (lx_dev s)\<lparr>ld_timeouts := m, ld_timer := update_timeouts m now\<rparr>\<rparr>)"

section \<open>Control transfers\<close>

text \<open>
  \<open>control_in\<close> and \<open>control_out\<close> in two parts: building and submitting the transfer, and the closure
  that runs on the completed one.
\<close>

definition control_in_submit ::
  "'k kernel \<Rightarrow> (nat \<Rightarrow> nat) \<Rightarrow> nat \<Rightarrow> nat \<Rightarrow> ControlIn \<Rightarrow> nat \<Rightarrow> 'k lx \<Rightarrow>
   (TransferFuture \<times> 'k lx) outcome" where
  "control_in_submit K alloc now n data timeout s =
     obind (new_control_in alloc data) (\<lambda>t.
     case idle_new n t ((lx_heap s)\<lparr>th_notify := (th_notify (lx_heap s))(n := NotifyNone)\<rparr>) of
       (idle, h) \<Rightarrow>
         obind (submit_timeout K now idle timeout (s\<lparr>lx_heap := h\<rparr>)) (\<lambda>(pnd, w, s').
           Ret (\<lparr>tf_transfer = Some pnd, tf_notify = n\<rparr>, s')))"

definition control_out_submit ::
  "'k kernel \<Rightarrow> (nat \<Rightarrow> nat) \<Rightarrow> nat \<Rightarrow> nat \<Rightarrow> ControlOut \<Rightarrow> nat \<Rightarrow> 'k lx \<Rightarrow>
   (TransferFuture \<times> 'k lx) outcome" where
  "control_out_submit K alloc now n data timeout s =
     obind (new_control_out alloc data) (\<lambda>t.
     case idle_new n t ((lx_heap s)\<lparr>th_notify := (th_notify (lx_heap s))(n := NotifyNone)\<rparr>) of
       (idle, h) \<Rightarrow>
         obind (submit_timeout K now idle timeout (s\<lparr>lx_heap := h\<rparr>)) (\<lambda>(pnd, w, s').
           Ret (\<lparr>tf_transfer = Some pnd, tf_notify = n\<rparr>, s')))"

definition control_in_finish ::
  "(i32 \<Rightarrow> errno outcome) \<Rightarrow> Idle \<Rightarrow> TransferData tx_heap \<Rightarrow> (TransferError + bytes) outcome" where
  "control_in_finish from_raw t h =
     obind (idle_deref t h) (\<lambda>d.
     obind (td_status from_raw d) (\<lambda>st.
       case st of Inl e \<Rightarrow> Ret (Inl e) | Inr _ \<Rightarrow> omap Inr (td_control_in_data d)))"

definition control_out_finish ::
  "(i32 \<Rightarrow> errno outcome) \<Rightarrow> Idle \<Rightarrow> TransferData tx_heap \<Rightarrow> (TransferError + unit) outcome" where
  "control_out_finish from_raw t h = obind (idle_deref t h) (td_status from_raw)"

end
