(* ===== verification/Ownership.thy ===== *)
theory Ownership
  imports Transfer_Theorems
begin

text \<open>
  The transfer invariant in the form the backends use: who owns which block of the heap, without the
  history of \<open>tx_sys\<close>. Each rule gives the result of one operation of
  src/src/transfer/internal.rs on a heap that satisfies the invariant.
\<close>

definition own_sys :: "'p tx_heap \<Rightarrow> Idle list \<Rightarrow> Pending list \<Rightarrow> nat list \<Rightarrow> 'p tx_sys" where
  "own_sys h ids q ks =
     \<lparr>sys_heap = h, sys_idles = ids, sys_queue = q, sys_kernel = ks,
      sys_submitted = map pending_ptr q, sys_returned = []\<rparr>"

definition own_ok :: "'p tx_heap \<Rightarrow> Idle list \<Rightarrow> Pending list \<Rightarrow> nat list \<Rightarrow> bool" where
  "own_ok h ids q ks \<longleftrightarrow> sys_ok (own_sys h ids q ks)"

lemma own_sys_sel [simp]:
  "sys_heap (own_sys h ids q ks) = h" "sys_idles (own_sys h ids q ks) = ids"
  "sys_queue (own_sys h ids q ks) = q" "sys_kernel (own_sys h ids q ks) = ks"
  "sys_submitted (own_sys h ids q ks) = map pending_ptr q" "sys_returned (own_sys h ids q ks) = []"
  by (simp_all add: own_sys_def)

text \<open>The history does not matter.\<close>

lemma own_okI: "sys_ok s \<Longrightarrow> own_ok (sys_heap s) (sys_idles s) (sys_queue s) (sys_kernel s)"
  unfolding own_ok_def sys_ok_def by (simp add: expected_state_def)

lemma own_ok_empty: "th_mem h = (\<lambda>p. None) \<Longrightarrow> own_ok h [] [] []"
  by (simp add: own_ok_def sys_ok_def st_at_def expected_state_def)

lemma own_frame:
  assumes "own_ok h ids q ks" "\<And>p. st_at h' p = st_at h p" "th_next h' = th_next h"
  shows "own_ok h' ids q ks"
proof -
  have "th_mem h' p \<noteq> None \<longleftrightarrow> th_mem h p \<noteq> None" for p
    using assms(2) [of p] by (metis st_at_None)
  with assms show ?thesis by (simp add: own_ok_def sys_ok_def expected_state_def)
qed

lemma own_distinct:
  assumes "own_ok h ids q ks"
  shows "distinct ids" "distinct q" "distinct ks"
  using assms by (simp_all add: own_ok_def sys_ok_def)

lemma own_idle:
  assumes "own_ok h ids q ks" "t \<in> set ids"
  obtains i where "th_mem h (idle_ptr t) = Some i" "ti_state i = STATE_IDLE"
    "idle_ptr t \<notin> set ks" "Pending (idle_ptr t) \<notin> set q"
  using idle_block [OF assms(1) [unfolded own_ok_def], of t] assms(2) by auto

lemma own_kernel:
  assumes "own_ok h ids q ks" "p \<in> set ks"
  obtains i where "th_mem h p = Some i" "Idle p \<notin> set ids"
    "ti_state i = (if Pending p \<in> set q then STATE_PENDING else STATE_ABANDONED)"
  using kernel_block [OF assms(1) [unfolded own_ok_def], of p] assms(2) by auto

lemma own_queue:
  assumes "own_ok h ids q ks" "t \<in> set q"
  obtains i where "th_mem h (pending_ptr t) = Some i" "Idle (pending_ptr t) \<notin> set ids"
    "ti_state i = (if pending_ptr t \<in> set ks then STATE_PENDING else STATE_IDLE)"
  using queue_block [OF assms(1) [unfolded own_ok_def], of t] assms(2) by auto

lemma own_in_flight:
  assumes "own_ok h ids q ks" "th_mem h p = Some i"
  shows "p \<in> set ks \<longleftrightarrow> ti_state i \<noteq> STATE_IDLE"
proof -
  have "Some (ti_state i) = expected_state (own_sys h ids q ks) p"
    using assms by (metis own_ok_def own_sys_sel(1) st_at_Some sys_okD(5))
  moreover have "Idle p \<in> set ids \<Longrightarrow> p \<notin> set ks"
    using sys_okD(4) [OF assms(1) [unfolded own_ok_def], of p] by simp
  ultimately show ?thesis by (auto simp: expected_state_def split: if_splits)
qed

lemma own_new:
  assumes "own_ok h ids q ks" "idle_new n d h = (t, h')"
  shows "own_ok h' (t # ids) q ks" "idle_ptr t = th_next h"
    "h' = (th_store (th_next h) \<lparr>ti_platform_data = d, ti_state = STATE_IDLE, ti_notify = n\<rparr> h)
      \<lparr>th_next := th_next h + 1\<rparr>"
    "th_mem h (idle_ptr t) = None"
proof -
  obtain s' where s': "sys_new n d (own_sys h ids q ks) = Ret s'" "sys_ok s'"
    using sys_new_ok [OF assms(1) [unfolded own_ok_def]] by blast
  have "sys_heap s' = h'" "sys_idles s' = t # ids" "sys_queue s' = q" "sys_kernel s' = ks"
    using s'(1) assms(2) by (auto simp: sys_new_def)
  with own_okI [OF s'(2)] show "own_ok h' (t # ids) q ks" by simp
  show p: "idle_ptr t = th_next h" using assms(2) by (auto simp: idle_new_def)
  show "h' = (th_store (th_next h) \<lparr>ti_platform_data = d, ti_state = STATE_IDLE, ti_notify = n\<rparr> h)
      \<lparr>th_next := th_next h + 1\<rparr>" using assms(2) by (auto simp: idle_new_def)
  show "th_mem h (idle_ptr t) = None"
    using sys_okD(6) [OF assms(1) [unfolded own_ok_def], of "idle_ptr t"] p by (metis less_irrefl own_sys_sel(1))
qed

lemma own_submit:
  assumes "own_ok h ids q ks" "t \<in> set ids" "th_mem h (idle_ptr t) = Some i"
  shows "pre_submit t h =
      Ret (Pending (idle_ptr t), th_store (idle_ptr t) (i\<lparr>ti_state := STATE_PENDING\<rparr>) h)"
    "own_ok (th_store (idle_ptr t) (i\<lparr>ti_state := STATE_PENDING\<rparr>) h) (remove1 t ids)
      (q @ [Pending (idle_ptr t)]) (idle_ptr t # ks)"
proof -
  have st: "ti_state i = STATE_IDLE" using own_idle [OF assms(1,2)] assms(3) by auto
  show ps: "pre_submit t h =
      Ret (Pending (idle_ptr t), th_store (idle_ptr t) (i\<lparr>ti_state := STATE_PENDING\<rparr>) h)"
    using assms(3) st by (simp add: pre_submit_def state_swap_def th_load_def)
  obtain s' where s': "sys_submit t (own_sys h ids q ks) = Ret s'" "sys_ok s'"
    using sys_submit_ok [OF assms(1) [unfolded own_ok_def], of t] assms(2) by auto
  have "sys_heap s' = th_store (idle_ptr t) (i\<lparr>ti_state := STATE_PENDING\<rparr>) h"
    "sys_idles s' = remove1 t ids" "sys_queue s' = q @ [Pending (idle_ptr t)]" "sys_kernel s' = idle_ptr t # ks"
    using s'(1) ps by (auto simp: sys_submit_def)
  with own_okI [OF s'(2)] show "own_ok (th_store (idle_ptr t) (i\<lparr>ti_state := STATE_PENDING\<rparr>) h)
      (remove1 t ids) (q @ [Pending (idle_ptr t)]) (idle_ptr t # ks)" by simp
qed

lemma own_simulate:
  assumes "own_ok h ids q ks" "t \<in> set ids"
  shows "own_ok h (remove1 t ids) (q @ [simulate_complete t]) ks"
proof -
  obtain s' where s': "sys_submit_failed t (own_sys h ids q ks) = Ret s'" "sys_ok s'"
    using sys_submit_failed_ok [OF assms(1) [unfolded own_ok_def], of t] assms(2) by auto
  have "sys_heap s' = h" "sys_idles s' = remove1 t ids" "sys_queue s' = q @ [simulate_complete t]"
    "sys_kernel s' = ks" using s'(1) by (auto simp: sys_submit_failed_def)
  with own_okI [OF s'(2)] show ?thesis by simp
qed

lemma own_is_complete:
  assumes "own_ok h ids q ks" "t \<in> set q"
  shows "is_complete t h = Ret (pending_ptr t \<notin> set ks)"
  using is_complete_queue [OF assms(1) [unfolded own_ok_def], of t] assms(2) by simp

lemma own_take:
  assumes "own_ok h ids (t # q) ks"
  shows "take_completed_from_queue (t # q) h =
      Ret (if pending_ptr t \<in> set ks then (None, t # q) else (Some (Idle (pending_ptr t)), q))"
    "pending_ptr t \<notin> set ks \<Longrightarrow> own_ok h (Idle (pending_ptr t) # ids) q ks"
proof -
  show "take_completed_from_queue (t # q) h =
      Ret (if pending_ptr t \<in> set ks then (None, t # q) else (Some (Idle (pending_ptr t)), q))"
    using own_is_complete [OF assms, of t]
    by (simp add: take_completed_from_queue_def into_idle_def)
  assume nk: "pending_ptr t \<notin> set ks"
  obtain s' where s': "sys_take (own_sys h ids (t # q) ks) = Ret s'" "sys_ok s'"
    using sys_take_ok [OF assms [unfolded own_ok_def]] by auto
  have "sys_heap s' = h" "sys_idles s' = Idle (pending_ptr t) # ids" "sys_queue s' = q" "sys_kernel s' = ks"
    using s'(1) sys_take_eq [OF assms [unfolded own_ok_def], of t q] nk by auto
  with own_okI [OF s'(2)] show "own_ok h (Idle (pending_ptr t) # ids) q ks" by simp
qed

lemma own_complete:
  assumes "own_ok h ids q ks" "p \<in> set ks"
  shows "\<exists>w h'. notify_completion p h = Ret (w, h') \<and> own_ok h' ids q (remove1 p ks) \<and>
    (\<forall>r. r \<noteq> p \<longrightarrow> th_mem h' r = th_mem h r) \<and>
    (if Pending p \<in> set q
     then \<exists>i. th_mem h p = Some i \<and> th_mem h' p = Some (i\<lparr>ti_state := STATE_IDLE\<rparr>)
     else th_mem h' p = None)"
proof -
  obtain i where i: "th_mem h p = Some i"
    "ti_state i = (if Pending p \<in> set q then STATE_PENDING else STATE_ABANDONED)"
    using own_kernel [OF assms] by metis
  obtain s' where s': "sys_complete p (own_sys h ids q ks) = Ret s'" "sys_ok s'"
    using sys_complete_ok [OF assms(1) [unfolded own_ok_def], of p] assms(2) by auto
  obtain w h' where nc: "notify_completion p h = Ret (w, h')"
    "th_mem h' = (th_mem h)(p := if Pending p \<in> set q then Some (i\<lparr>ti_state := STATE_IDLE\<rparr>) else None)"
    using notify_completion_eq [OF i(1)] i(2) by (auto split: if_splits)
  have "sys_heap s' = h'" "sys_idles s' = ids" "sys_queue s' = q" "sys_kernel s' = remove1 p ks"
    using s'(1) nc(1) by (auto simp: sys_complete_def)
  with own_okI [OF s'(2)] have "own_ok h' ids q (remove1 p ks)" by simp
  with nc i(1) show ?thesis by auto
qed

lemma own_drop_pending:
  assumes "own_ok h ids (t # q) ks"
  shows "\<exists>h'. pending_drop t h = Ret h' \<and> own_ok h' ids q ks \<and>
    (\<forall>r. r \<noteq> pending_ptr t \<longrightarrow> th_mem h' r = th_mem h r) \<and>
    (if pending_ptr t \<in> set ks
     then \<exists>i. th_mem h (pending_ptr t) = Some i \<and>
       th_mem h' (pending_ptr t) = Some (i\<lparr>ti_state := STATE_ABANDONED\<rparr>)
     else th_mem h' (pending_ptr t) = None)"
proof -
  obtain i where i: "th_mem h (pending_ptr t) = Some i"
    "ti_state i = (if pending_ptr t \<in> set ks then STATE_PENDING else STATE_IDLE)"
    using own_queue [OF assms, of t] by (metis list.set_intros(1))
  obtain s' where s': "sys_drop_front (own_sys h ids (t # q) ks) = Ret s'" "sys_ok s'"
    using sys_drop_front_ok [OF assms [unfolded own_ok_def]] by auto
  obtain h' where h': "pending_drop t h = Ret h'"
    "th_mem h' = (th_mem h)(pending_ptr t :=
      if pending_ptr t \<in> set ks then Some (i\<lparr>ti_state := STATE_ABANDONED\<rparr>) else None)"
    using i
    by (cases "pending_ptr t \<in> set ks")
      (simp_all add: pending_drop_def state_swap_def th_load_def th_free_def th_store_def)
  have "sys_heap s' = h'" "sys_idles s' = ids" "sys_queue s' = q" "sys_kernel s' = ks"
    using s'(1) h'(1) by (auto simp: sys_drop_front_def)
  with own_okI [OF s'(2)] have "own_ok h' ids q ks" by simp
  with h' i(1) show ?thesis by auto
qed

lemma own_drop_idle:
  assumes "own_ok h ids q ks" "t \<in> set ids"
  shows "idle_drop t h = Ret (h\<lparr>th_mem := (th_mem h)(idle_ptr t := None)\<rparr>)"
    "own_ok (h\<lparr>th_mem := (th_mem h)(idle_ptr t := None)\<rparr>) (remove1 t ids) q ks"
proof -
  obtain i where i: "th_mem h (idle_ptr t) = Some i" using own_idle [OF assms] by metis
  then show d: "idle_drop t h = Ret (h\<lparr>th_mem := (th_mem h)(idle_ptr t := None)\<rparr>)"
    by (simp add: idle_drop_def th_free_def)
  obtain s' where s': "sys_drop_idle t (own_sys h ids q ks) = Ret s'" "sys_ok s'"
    using sys_drop_idle_ok [OF assms(1) [unfolded own_ok_def], of t] assms(2) by auto
  have "sys_heap s' = h\<lparr>th_mem := (th_mem h)(idle_ptr t := None)\<rparr>" "sys_idles s' = remove1 t ids"
    "sys_queue s' = q" "sys_kernel s' = ks" using s'(1) d by (auto simp: sys_drop_idle_def)
  with own_okI [OF s'(2)]
  show "own_ok (h\<lparr>th_mem := (th_mem h)(idle_ptr t := None)\<rparr>) (remove1 t ids) q ks" by simp
qed

text \<open>Changing the data of a block keeps the invariant.\<close>

lemma own_store_data:
  assumes "own_ok h ids q ks" "th_mem h p = Some i" "ti_state j = ti_state i"
  shows "own_ok (th_store p j h) ids q ks"
  using assms by (intro own_frame [OF assms(1)]) (auto simp: st_at_def th_mem_store)

lemma own_subscribe:
  assumes "own_ok h ids q ks"
  shows "own_ok (notify_subscribe n w h) ids q ks"
  using assms by (intro own_frame [OF assms]) (auto simp: st_at_def notify_subscribe_def)

end
