(* ===== verification/Linux_Device_Theorems.thy ===== *)
theory Linux_Device_Theorems
  imports Linux_Device Ownership
begin

text \<open>
  The Linux device is safe: submission, completion, timeouts and cancellation in any order keep the
  ownership of transfers and the table of timeouts consistent, so that no step panics or touches
  freed memory and a URB is never discarded after its transfer is gone; the timer discards exactly
  the transfers whose deadline has passed; and the one gap of the timer, a deadline equal to now.
\<close>

section \<open>Submission\<close>

text \<open>The block of a transfer that the kernel has accepted, and of one that it has refused.\<close>

definition accepted_block :: "nat \<Rightarrow> TransferData TransferInner \<Rightarrow> TransferData TransferInner" where
  "accepted_block p i =
     i\<lparr>ti_state := STATE_PENDING,
       ti_platform_data := (ti_platform_data i)
         \<lparr>td_urb := (td_urb (ti_platform_data i))\<lparr>urb_usercontext := Some p\<rparr>\<rparr>\<rparr>"

definition refused_block :: "nat \<Rightarrow> errno \<Rightarrow> TransferData TransferInner \<Rightarrow> TransferData TransferInner" where
  "refused_block p e i =
     i\<lparr>ti_platform_data := (ti_platform_data i)
         \<lparr>td_urb := (td_urb (ti_platform_data i))
            \<lparr>urb_usercontext := Some p, urb_actual_length := 0, urb_status := e\<rparr>\<rparr>\<rparr>"

definition submit_result :: "'k kernel \<Rightarrow> nat \<Rightarrow> TransferData TransferInner \<Rightarrow> 'k \<Rightarrow> errno option \<times> 'k" where
  "submit_result K p i k = usbfs_submit_urb K p (td_urb (ti_platform_data (accepted_block p i))) k"

lemma urb_modify_eq:
  "th_mem h p = Some i \<Longrightarrow> urb_modify p f h =
    Ret (th_store p (i\<lparr>ti_platform_data := (ti_platform_data i)
      \<lparr>td_urb := f (td_urb (ti_platform_data i))\<rparr>\<rparr>) h)"
  by (simp add: urb_modify_def th_load_def)

lemma th_store_store [simp]: "th_store p j (th_store p i h) = th_store p j h"
  by (simp add: th_store_def)

lemma device_submit_spec:
  assumes own: "own_ok (lx_heap s) ids q ks" and t: "t \<in> set ids"
    and i: "th_mem (lx_heap s) (idle_ptr t) = Some i"
    and r: "submit_result K (idle_ptr t) i (lx_kern s) = (r, k)"
  shows "\<exists>w h'. device_submit K t s = Ret (Pending (idle_ptr t), w, s\<lparr>lx_heap := h', lx_kern := k\<rparr>) \<and>
    (\<forall>p. p \<noteq> idle_ptr t \<longrightarrow> th_mem h' p = th_mem (lx_heap s) p) \<and>
    (case r of
       None \<Rightarrow> own_ok h' (remove1 t ids) (q @ [Pending (idle_ptr t)]) (idle_ptr t # ks) \<and>
         th_mem h' (idle_ptr t) = Some (accepted_block (idle_ptr t) i)
     | Some e \<Rightarrow> own_ok h' (remove1 t ids) (q @ [Pending (idle_ptr t)]) ks \<and>
         th_mem h' (idle_ptr t) = Some (refused_block (idle_ptr t) e i))"
proof -
  let ?p = "idle_ptr t" and ?h = "lx_heap s"
  let ?h1 = "th_store ?p (i\<lparr>ti_state := STATE_PENDING\<rparr>) ?h"
  let ?h2 = "th_store ?p (accepted_block ?p i) ?h"
  note sub = own_submit [OF own t i]
  have st: "ti_state i = STATE_IDLE" using own_idle [OF own t] i by auto
  have m1: "urb_modify ?p (\<lambda>u. u\<lparr>urb_usercontext := Some ?p\<rparr>) ?h1 = Ret ?h2"
    by (simp add: urb_modify_eq th_mem_store accepted_block_def)
  have own2: "own_ok ?h2 (remove1 t ids) (q @ [Pending ?p]) (?p # ks)"
    using own_store_data [OF sub(2), of ?p "i\<lparr>ti_state := STATE_PENDING\<rparr>" "accepted_block ?p i"]
    by (simp add: th_mem_store accepted_block_def)
  have l2: "th_load ?h2 ?p = Ret (accepted_block ?p i)" by (simp add: th_load_def th_mem_store)
  show ?thesis
  proof (cases r)
    case None
    with sub m1 l2 r own2 show ?thesis
      by (intro exI [where x = NotifyNone] exI [where x = ?h2])
        (simp add: device_submit_def Let_def submit_result_def th_mem_store)
  next
    case (Some e)
    let ?j = "(refused_block ?p e i)\<lparr>ti_state := STATE_PENDING\<rparr>"
    let ?h3 = "th_store ?p ?j ?h"
    have m3: "urb_modify ?p (\<lambda>u. u\<lparr>urb_actual_length := 0, urb_status := e\<rparr>) ?h2 = Ret ?h3"
      by (cases i) (simp add: urb_modify_eq th_mem_store accepted_block_def refused_block_def)
    have own3: "own_ok ?h3 (remove1 t ids) (q @ [Pending ?p]) (?p # ks)"
      using own_store_data [OF own2, of ?p "accepted_block ?p i" ?j]
      by (simp add: th_mem_store accepted_block_def)
    obtain w h' where c: "notify_completion ?p ?h3 = Ret (w, h')"
      "own_ok h' (remove1 t ids) (q @ [Pending ?p]) ks"
      "\<forall>r. r \<noteq> ?p \<longrightarrow> th_mem h' r = th_mem ?h3 r" "th_mem h' ?p = Some (?j\<lparr>ti_state := STATE_IDLE\<rparr>)"
      using own_complete [OF own3, of ?p] by (auto simp: th_mem_store)
    have "?j\<lparr>ti_state := STATE_IDLE\<rparr> = refused_block ?p e i" using st by (simp add: refused_block_def)
    with c Some sub m1 l2 r m3 show ?thesis
      by (intro exI [where x = w] exI [where x = h'])
        (simp add: device_submit_def Let_def submit_result_def th_mem_store)
  qed
qed

section \<open>The system\<close>

text \<open>The device with the handles of its user and the transfers that the kernel has.\<close>

record 'k dev_sys =
  ds_lx :: "'k lx"
  ds_idles :: "Idle list"
  ds_queue :: "Pending list"
  ds_inflight :: "nat list"

definition ds_new :: "nat \<Rightarrow> TransferData \<Rightarrow> 'k dev_sys \<Rightarrow> 'k dev_sys outcome" where
  "ds_new n d s =
     (case idle_new n d (lx_heap (ds_lx s)) of
        (t, h) \<Rightarrow> Ret (s\<lparr>ds_lx := (ds_lx s)\<lparr>lx_heap := h\<rparr>, ds_idles := t # ds_idles s\<rparr>))"

definition ds_submitted :: "Idle \<Rightarrow> Pending \<Rightarrow> 'k lx \<Rightarrow> 'k dev_sys \<Rightarrow> 'k dev_sys outcome" where
  "ds_submitted t pnd x s =
     obind (is_complete pnd (lx_heap x)) (\<lambda>c.
       Ret (s\<lparr>ds_lx := x, ds_idles := remove1 t (ds_idles s), ds_queue := ds_queue s @ [pnd],
              ds_inflight := (if c then ds_inflight s else pending_ptr pnd # ds_inflight s)\<rparr>))"

definition ds_submit :: "'k kernel \<Rightarrow> Idle \<Rightarrow> 'k dev_sys \<Rightarrow> 'k dev_sys outcome" where
  "ds_submit K t s = obind (device_submit K t (ds_lx s)) (\<lambda>(pnd, w, x). ds_submitted t pnd x s)"

definition ds_submit_timeout :: "'k kernel \<Rightarrow> nat \<Rightarrow> Idle \<Rightarrow> nat \<Rightarrow> 'k dev_sys \<Rightarrow> 'k dev_sys outcome" where
  "ds_submit_timeout K now t timeout s =
     obind (submit_timeout K now t timeout (ds_lx s)) (\<lambda>(pnd, w, x). ds_submitted t pnd x s)"

definition ds_cancel :: "'k kernel \<Rightarrow> Pending \<Rightarrow> 'k dev_sys \<Rightarrow> 'k dev_sys outcome" where
  "ds_cancel K t s = obind (device_cancel K t (ds_lx s)) (\<lambda>x. Ret (s\<lparr>ds_lx := x\<rparr>))"

definition ds_events :: "'k reaper \<Rightarrow> nat \<Rightarrow> 'k dev_sys \<Rightarrow> 'k dev_sys outcome" where
  "ds_events R now s =
     obind (handle_events R now (ds_lx s)) (\<lambda>(u, w, x).
       Ret (s\<lparr>ds_lx := x,
              ds_inflight := (case fst (R (lx_kern (ds_lx s))) of
                 Inr (p, _) \<Rightarrow> remove1 p (ds_inflight s) | Inl _ \<Rightarrow> ds_inflight s)\<rparr>))"

definition ds_timer :: "'k kernel \<Rightarrow> nat \<Rightarrow> 'k dev_sys \<Rightarrow> 'k dev_sys outcome" where
  "ds_timer K now s = Ret (s\<lparr>ds_lx := handle_timeouts K now (ds_lx s)\<rparr>)"

definition ds_take :: "'k dev_sys \<Rightarrow> 'k dev_sys outcome" where
  "ds_take s =
     obind (take_completed_from_queue (ds_queue s) (lx_heap (ds_lx s))) (\<lambda>(r, q).
       Ret (case r of
              None \<Rightarrow> s\<lparr>ds_queue := q\<rparr>
            | Some t \<Rightarrow> s\<lparr>ds_queue := q, ds_idles := t # ds_idles s\<rparr>))"

definition ds_write :: "(TransferData \<Rightarrow> TransferData) \<Rightarrow> Idle \<Rightarrow> 'k dev_sys \<Rightarrow> 'k dev_sys outcome" where
  "ds_write f t s =
     obind (idle_deref_mut f t (lx_heap (ds_lx s))) (\<lambda>h. Ret (s\<lparr>ds_lx := (ds_lx s)\<lparr>lx_heap := h\<rparr>\<rparr>))"

definition ds_drop_idle :: "Idle \<Rightarrow> 'k dev_sys \<Rightarrow> 'k dev_sys outcome" where
  "ds_drop_idle t s =
     obind (idle_drop t (lx_heap (ds_lx s))) (\<lambda>h.
       Ret (s\<lparr>ds_lx := (ds_lx s)\<lparr>lx_heap := h\<rparr>, ds_idles := remove1 t (ds_idles s)\<rparr>))"

definition ds_drop_front :: "'k dev_sys \<Rightarrow> 'k dev_sys outcome" where
  "ds_drop_front s =
     (case ds_queue s of
        [] \<Rightarrow> Ret s
      | t # q \<Rightarrow> obind (pending_drop t (lx_heap (ds_lx s))) (\<lambda>h.
          Ret (s\<lparr>ds_lx := (ds_lx s)\<lparr>lx_heap := h\<rparr>, ds_queue := q\<rparr>)))"

text \<open>
  What usbfs promises about reaping: the URB it returns was submitted and not yet returned, and its
  \<open>usercontext\<close> is what it was at submission.
\<close>

definition reap_ok :: "'k reaper \<Rightarrow> 'k dev_sys \<Rightarrow> bool" where
  "reap_ok R s \<longleftrightarrow>
     (case fst (R (lx_kern (ds_lx s))) of
        Inr (p, u) \<Rightarrow> p \<in> set (ds_inflight s) \<and> urb_usercontext u = Some p
      | Inl _ \<Rightarrow> True)"

inductive dev_step :: "'k kernel \<Rightarrow> 'k reaper \<Rightarrow> 'k dev_sys \<Rightarrow> 'k dev_sys outcome \<Rightarrow> bool"
  for K :: "'k kernel" and R :: "'k reaper" where
  dev_new: "dev_step K R s (ds_new n d s)"
| dev_submit: "t \<in> set (ds_idles s) \<Longrightarrow> dev_step K R s (ds_submit K t s)"
| dev_submit_timeout: "t \<in> set (ds_idles s) \<Longrightarrow> now + timeout \<le> instant_max \<Longrightarrow>
    dev_step K R s (ds_submit_timeout K now t timeout s)"
| dev_cancel: "t \<in> set (ds_queue s) \<Longrightarrow> dev_step K R s (ds_cancel K t s)"
| dev_events: "reap_ok R s \<Longrightarrow> dev_step K R s (ds_events R now s)"
| dev_timer: "dev_step K R s (ds_timer K now s)"
| dev_take: "ds_queue s \<noteq> [] \<Longrightarrow> dev_step K R s (ds_take s)"
| dev_write: "t \<in> set (ds_idles s) \<Longrightarrow> dev_step K R s (ds_write f t s)"
| dev_drop_idle: "t \<in> set (ds_idles s) \<Longrightarrow> dev_step K R s (ds_drop_idle t s)"
| dev_drop_front: "dev_step K R s (ds_drop_front s)"

inductive_cases dev_stepE: "dev_step K R s r"

text \<open>
  The invariant: ownership, and every entry of the table of timeouts is for a transfer that the
  kernel has, with the deadline that is stored in the transfer.
\<close>

definition timeouts_ok :: "timeouts \<Rightarrow> TransferData tx_heap \<Rightarrow> nat list \<Rightarrow> bool" where
  "timeouts_ok m h ks \<longleftrightarrow> btree_ok m \<and>
     (\<forall>e \<in> set (map fst m). te_urb e \<in> set ks \<and>
        map_option (\<lambda>i. td_deadline (ti_platform_data i)) (th_mem h (te_urb e)) = Some (Some (te_deadline e)))"

definition dev_ok :: "'k dev_sys \<Rightarrow> bool" where
  "dev_ok s \<longleftrightarrow> own_ok (lx_heap (ds_lx s)) (ds_idles s) (ds_queue s) (ds_inflight s) \<and>
     timeouts_ok (ld_timeouts (lx_dev (ds_lx s))) (lx_heap (ds_lx s)) (ds_inflight s)"

lemma timeouts_ok_heap:
  assumes "timeouts_ok m h ks" "set ks \<subseteq> set ks'"
    "\<And>p. p \<in> set ks \<Longrightarrow> map_option (\<lambda>i. td_deadline (ti_platform_data i)) (th_mem h' p) =
      map_option (\<lambda>i. td_deadline (ti_platform_data i)) (th_mem h p)"
  shows "timeouts_ok m h' ks'"
proof -
  have "te_urb e \<in> set ks' \<and>
      map_option (\<lambda>i. td_deadline (ti_platform_data i)) (th_mem h' (te_urb e)) = Some (Some (te_deadline e))"
    if "e \<in> set (map fst m)" for e
  proof -
    have "te_urb e \<in> set ks \<and>
      map_option (\<lambda>i. td_deadline (ti_platform_data i)) (th_mem h (te_urb e)) = Some (Some (te_deadline e))"
      using assms(1) that by (simp only: timeouts_ok_def)
    with assms(2) assms(3) [of "te_urb e"] show ?thesis by auto
  qed
  with assms(1) show ?thesis by (simp only: timeouts_ok_def) blast
qed

lemma timeouts_ok_other:
  assumes "timeouts_ok m h ks" "set ks \<subseteq> set ks'" "q \<notin> set ks" "\<And>p. p \<noteq> q \<Longrightarrow> th_mem h' p = th_mem h p"
  shows "timeouts_ok m h' ks'"
  using assms by (intro timeouts_ok_heap [OF assms(1,2)]) (metis)

lemma dev_okI:
  "own_ok (lx_heap (ds_lx s)) (ds_idles s) (ds_queue s) (ds_inflight s) \<Longrightarrow>
    timeouts_ok (ld_timeouts (lx_dev (ds_lx s))) (lx_heap (ds_lx s)) (ds_inflight s) \<Longrightarrow> dev_ok s"
  by (simp add: dev_ok_def)

lemma dev_okD:
  assumes "dev_ok s"
  shows "own_ok (lx_heap (ds_lx s)) (ds_idles s) (ds_queue s) (ds_inflight s)"
    "timeouts_ok (ld_timeouts (lx_dev (ds_lx s))) (lx_heap (ds_lx s)) (ds_inflight s)"
  using assms by (simp_all add: dev_ok_def)

lemma ds_new_ok:
  assumes "dev_ok s"
  shows "\<exists>s'. ds_new n d s = Ret s' \<and> dev_ok s'"
proof -
  obtain t h where n: "idle_new n d (lx_heap (ds_lx s)) = (t, h)" by fastforce
  note o = own_new [OF dev_okD(1) [OF assms] n]
  have "idle_ptr t \<notin> set (ds_inflight s)"
    using o(4) own_kernel [OF dev_okD(1) [OF assms], of "idle_ptr t"] by auto
  then have "timeouts_ok (ld_timeouts (lx_dev (ds_lx s))) h (ds_inflight s)"
    using o(2,3) by (intro timeouts_ok_other [OF dev_okD(2) [OF assms], of _ "idle_ptr t"]) (auto simp: th_mem_store)
  with o(1) show ?thesis by (simp add: ds_new_def n dev_ok_def)
qed

lemma ds_submitted_ok:
  assumes own: "own_ok (lx_heap x) (remove1 t (ds_idles s)) (ds_queue s @ [Pending p]) ks"
    and ks: "ks = (if c then ds_inflight s else p # ds_inflight s)" "c \<longleftrightarrow> p \<notin> set ks"
    and tm: "timeouts_ok (ld_timeouts (lx_dev x)) (lx_heap x) ks"
  shows "\<exists>s'. ds_submitted t (Pending p) x s = Ret s' \<and> dev_ok s'"
proof -
  have "is_complete (Pending p) (lx_heap x) = Ret c"
    unfolding ks(2) by (rule own_is_complete [OF own, of "Pending p", simplified])
  then have "ds_submitted t (Pending p) x s =
      Ret (s\<lparr>ds_lx := x, ds_idles := remove1 t (ds_idles s), ds_queue := ds_queue s @ [Pending p],
             ds_inflight := ks\<rparr>)" by (simp add: ds_submitted_def ks(1))
  with own tm show ?thesis by (simp add: dev_ok_def)
qed

lemma ds_submit_ok:
  assumes ok: "dev_ok s" and t: "t \<in> set (ds_idles s)"
  shows "\<exists>s'. ds_submit K t s = Ret s' \<and> dev_ok s'"
proof -
  let ?p = "idle_ptr t"
  obtain i where i: "th_mem (lx_heap (ds_lx s)) ?p = Some i" "?p \<notin> set (ds_inflight s)"
    using own_idle [OF dev_okD(1) [OF ok] t] by metis
  obtain r k where r: "submit_result K ?p i (lx_kern (ds_lx s)) = (r, k)" by fastforce
  from device_submit_spec [OF dev_okD(1) [OF ok] t i(1) r] obtain w h' where
    d: "device_submit K t (ds_lx s) = Ret (Pending ?p, w, (ds_lx s)\<lparr>lx_heap := h', lx_kern := k\<rparr>)"
      "\<forall>p. p \<noteq> ?p \<longrightarrow> th_mem h' p = th_mem (lx_heap (ds_lx s)) p" and
    res: "case r of
       None \<Rightarrow> own_ok h' (remove1 t (ds_idles s)) (ds_queue s @ [Pending ?p]) (?p # ds_inflight s) \<and>
         th_mem h' ?p = Some (accepted_block ?p i)
     | Some e \<Rightarrow> own_ok h' (remove1 t (ds_idles s)) (ds_queue s @ [Pending ?p]) (ds_inflight s) \<and>
         th_mem h' ?p = Some (refused_block ?p e i)" by blast
  have o: "own_ok h' (remove1 t (ds_idles s)) (ds_queue s @ [Pending ?p])
      (if r = None then ?p # ds_inflight s else ds_inflight s)"
    using res by (cases r) auto
  have tm: "timeouts_ok (ld_timeouts (lx_dev (ds_lx s))) h'
      (if r = None then ?p # ds_inflight s else ds_inflight s)"
    using d(2) i(2) by (intro timeouts_ok_other [OF dev_okD(2) [OF ok], of _ ?p]) auto
  let ?x = "(ds_lx s)\<lparr>lx_heap := h', lx_kern := k\<rparr>"
  have "ds_submit K t s = ds_submitted t (Pending ?p) ?x s" by (simp add: ds_submit_def d(1))
  moreover have "\<exists>s'. ds_submitted t (Pending ?p) ?x s = Ret s' \<and> dev_ok s'"
    using ds_submitted_ok [of ?x t s ?p "if r = None then ?p # ds_inflight s else ds_inflight s" "r \<noteq> None"]
      o tm i(2) by (cases r) simp_all
  ultimately show ?thesis by simp
qed

lemma timeouts_ok_insert:
  assumes "timeouts_ok m h ks" "p \<in> set ks"
    "map_option (\<lambda>i. td_deadline (ti_platform_data i)) (th_mem h p) = Some (Some d)"
  shows "timeouts_ok (btree_insert (TimeoutEntry d p) () m) h ks"
  using assms unfolding timeouts_ok_def keys_btree_insert by (auto intro: btree_ok_insert)

lemma ds_submit_timeout_ok:
  assumes ok: "dev_ok s" and t: "t \<in> set (ds_idles s)" and im: "now + timeout \<le> instant_max"
  shows "\<exists>s'. ds_submit_timeout K now t timeout s = Ret s' \<and> dev_ok s'"
proof -
  let ?p = "idle_ptr t" and ?d = "now + timeout"
  let ?h = "lx_heap (ds_lx s)" and ?m = "ld_timeouts (lx_dev (ds_lx s))"
  obtain i where i: "th_mem ?h ?p = Some i" "ti_state i = STATE_IDLE" "?p \<notin> set (ds_inflight s)"
    using own_idle [OF dev_okD(1) [OF ok] t] by metis
  let ?i = "i\<lparr>ti_platform_data := (ti_platform_data i)\<lparr>td_deadline := Some ?d\<rparr>\<rparr>"
  let ?h1 = "th_store ?p ?i ?h" and ?x = "(ds_lx s)\<lparr>lx_heap := th_store (idle_ptr t) ?i (lx_heap (ds_lx s))\<rparr>"
  have m1: "idle_deref_mut (\<lambda>d. d\<lparr>td_deadline := Some ?d\<rparr>) t ?h = Ret ?h1"
    using i by (simp add: idle_deref_mut_def th_load_def)
  have own1: "own_ok (lx_heap ?x) (ds_idles s) (ds_queue s) (ds_inflight s)"
    using own_store_data [OF dev_okD(1) [OF ok] i(1), of ?i] by simp
  have i1: "th_mem (lx_heap ?x) ?p = Some ?i" by (simp add: th_mem_store)
  obtain r k where r: "submit_result K ?p ?i (lx_kern ?x) = (r, k)" by fastforce
  from device_submit_spec [OF own1 t i1 r] obtain w h' where
    d: "device_submit K t ?x = Ret (Pending ?p, w, ?x\<lparr>lx_heap := h', lx_kern := k\<rparr>)"
      "\<forall>p. p \<noteq> ?p \<longrightarrow> th_mem h' p = th_mem (lx_heap ?x) p" and
    res: "case r of
       None \<Rightarrow> own_ok h' (remove1 t (ds_idles s)) (ds_queue s @ [Pending ?p]) (?p # ds_inflight s) \<and>
         th_mem h' ?p = Some (accepted_block ?p ?i)
     | Some e \<Rightarrow> own_ok h' (remove1 t (ds_idles s)) (ds_queue s @ [Pending ?p]) (ds_inflight s) \<and>
         th_mem h' ?p = Some (refused_block ?p e ?i)" by blast
  have tm0: "timeouts_ok ?m h' ks'" if "set (ds_inflight s) \<subseteq> set ks'" for ks'
    using d(2) i(3) that
    by (intro timeouts_ok_other [OF dev_okD(2) [OF ok], of _ ?p]) (auto simp: th_mem_store)
  show ?thesis
  proof (cases r)
    case (Some e)
    with res have own2: "own_ok h' (remove1 t (ds_idles s)) (ds_queue s @ [Pending ?p]) (ds_inflight s)" by simp
    have "is_complete (Pending ?p) h' = Ret True"
      using own_is_complete [OF own2, of "Pending ?p"] i(3) by simp
    then have "submit_timeout K now t timeout (ds_lx s) =
        Ret (Pending ?p, w, ?x\<lparr>lx_heap := h', lx_kern := k\<rparr>)"
      using im by (simp add: submit_timeout_def Let_def m1 d(1))
    with ds_submitted_ok [of "?x\<lparr>lx_heap := h', lx_kern := k\<rparr>" t s ?p "ds_inflight s" True]
      own2 i(3) tm0 show ?thesis by (simp add: ds_submit_timeout_def)
  next
    case None
    let ?ks = "?p # ds_inflight s"
    let ?m' = "btree_insert (TimeoutEntry ?d ?p) () ?m"
    let ?x' = "?x\<lparr>lx_heap := h', lx_kern := k,
      lx_dev := (lx_dev (ds_lx s))\<lparr>ld_timeouts := ?m', ld_timer := update_timeouts ?m' now\<rparr>\<rparr>"
    from None res have own2: "own_ok h' (remove1 t (ds_idles s)) (ds_queue s @ [Pending ?p]) ?ks"
      and b: "th_mem h' ?p = Some (accepted_block ?p ?i)" by auto
    have "is_complete (Pending ?p) h' = Ret False"
      using own_is_complete [OF own2, of "Pending ?p"] by simp
    then have st: "submit_timeout K now t timeout (ds_lx s) = Ret (Pending ?p, w, ?x')"
      using im by (simp add: submit_timeout_def Let_def m1 d(1))
    have "timeouts_ok ?m' h' ?ks"
      using tm0 [of ?ks] b by (intro timeouts_ok_insert) (auto simp: accepted_block_def)
    with ds_submitted_ok [of ?x' t s ?p ?ks False] own2 st show ?thesis
      by (simp add: ds_submit_timeout_def)
  qed
qed

lemma ds_cancel_ok:
  assumes ok: "dev_ok s" and t: "t \<in> set (ds_queue s)"
  shows "\<exists>s'. ds_cancel K t s = Ret s' \<and> dev_ok s'"
proof -
  obtain i where "th_mem (lx_heap (ds_lx s)) (pending_ptr t) = Some i"
    using own_queue [OF dev_okD(1) [OF ok] t] by metis
  with dev_okD [OF ok] show ?thesis
    by (simp add: ds_cancel_def device_cancel_def th_load_def dev_ok_def split: prod.splits)
qed

lemma timeouts_ok_remove:
  assumes tm: "timeouts_ok m h ks" and i: "th_mem h p = Some i"
    and h': "\<And>r. r \<noteq> p \<Longrightarrow> th_mem h' r = th_mem h r" and ks: "distinct ks"
    and m': "m' = (case td_deadline (ti_platform_data i) of None \<Rightarrow> m
      | Some d \<Rightarrow> btree_remove (TimeoutEntry d p) m)"
  shows "timeouts_ok m' h' (remove1 p ks)"
proof -
  have ne: "te_urb e \<noteq> p" and e: "e \<in> set (map fst m)" if "e \<in> set (map fst m')" for e
  proof -
    show e: "e \<in> set (map fst m)"
      using that m' by (auto simp: btree_remove_def split: option.splits)
    show "te_urb e \<noteq> p"
    proof
      assume p: "te_urb e = p"
      with tm e i have d: "td_deadline (ti_platform_data i) = Some (te_deadline e)"
        by (auto simp: timeouts_ok_def)
      then have "m' = btree_remove e m" using m' p by (cases e) auto
      then show False using that by (auto simp: btree_remove_def)
    qed
  qed
  have "btree_ok m'" using tm m' by (auto simp: timeouts_ok_def btree_ok_remove split: option.splits)
  moreover have "te_urb e \<in> set (remove1 p ks) \<and>
      map_option (\<lambda>i. td_deadline (ti_platform_data i)) (th_mem h' (te_urb e)) = Some (Some (te_deadline e))"
    if "e \<in> set (map fst m')" for e
  proof -
    have "te_urb e \<in> set ks \<and>
      map_option (\<lambda>i. td_deadline (ti_platform_data i)) (th_mem h (te_urb e)) = Some (Some (te_deadline e))"
      using tm e [OF that] by (simp only: timeouts_ok_def)
    with ne [OF that] h' ks show ?thesis by (simp add: set_remove1_eq)
  qed
  ultimately show ?thesis by (simp add: timeouts_ok_def)
qed

lemma ds_events_ok:
  assumes ok: "dev_ok s" and R: "reap_ok R s"
  shows "\<exists>s'. ds_events R now s = Ret s' \<and> dev_ok s'"
proof (cases "R (lx_kern (ds_lx s))")
  case (Pair r k)
  show ?thesis
  proof (cases r)
    case (Inl e)
    with Pair dev_okD [OF ok] show ?thesis
      by (simp add: ds_events_def handle_events_def usbfs_reap_urb_ndelay_def dev_ok_def)
  next
    case (Inr pu)
    obtain p u where pu: "pu = (p, u)" by (cases pu)
    have p: "p \<in> set (ds_inflight s)" and u: "urb_usercontext u = Some p"
      using R Pair Inr pu by (simp_all add: reap_ok_def)
    let ?h = "lx_heap (ds_lx s)" and ?dev = "lx_dev (ds_lx s)"
    note own = dev_okD(1) [OF ok]
    obtain i where i: "th_mem ?h p = Some i" using own_kernel [OF own p] by metis
    let ?i = "i\<lparr>ti_platform_data := (ti_platform_data i)\<lparr>td_urb := u\<rparr>\<rparr>"
    let ?h1 = "th_store p ?i ?h"
    have m: "urb_modify p (\<lambda>_. u) ?h = Ret ?h1" using i by (simp add: urb_modify_eq)
    have own1: "own_ok ?h1 (ds_idles s) (ds_queue s) (ds_inflight s)"
      by (rule own_store_data [OF own i]) simp
    obtain w h' where c: "notify_completion p ?h1 = Ret (w, h')"
      "own_ok h' (ds_idles s) (ds_queue s) (remove1 p (ds_inflight s))"
      "\<forall>r. r \<noteq> p \<longrightarrow> th_mem h' r = th_mem ?h1 r"
      using own_complete [OF own1 p] by blast
    let ?m = "case td_deadline (ti_platform_data i) of None \<Rightarrow> ld_timeouts ?dev
      | Some d \<Rightarrow> btree_remove (TimeoutEntry d p) (ld_timeouts ?dev)"
    have tm: "timeouts_ok ?m h' (remove1 p (ds_inflight s))"
      using c(3)
      by (intro timeouts_ok_remove [OF dev_okD(2) [OF ok] i _ own_distinct(3) [OF own] refl])
        (simp add: th_mem_store)
    let ?dev' = "case td_deadline (ti_platform_data i) of None \<Rightarrow> ?dev
      | Some d \<Rightarrow> ?dev\<lparr>ld_timeouts := btree_remove (TimeoutEntry d p) (ld_timeouts ?dev),
          ld_timer := update_timeouts (btree_remove (TimeoutEntry d p) (ld_timeouts ?dev)) now\<rparr>"
    have h: "handle_events R now (ds_lx s) =
        Ret (False, w, (ds_lx s)\<lparr>lx_dev := ?dev', lx_heap := h', lx_kern := k\<rparr>)"
      using c(1)
      by (simp add: handle_events_def usbfs_reap_urb_ndelay_def Pair Inr pu u m th_load_def th_mem_store
          Let_def cong: option.case_cong)
    have d: "ld_timeouts ?dev' = ?m" by (cases "td_deadline (ti_platform_data i)") simp_all
    show ?thesis
      using c(2) tm by (simp add: ds_events_def h Pair Inr pu dev_ok_def d)
  qed
qed

section \<open>Timeouts\<close>

definition expired :: "nat \<Rightarrow> TimeoutEntry \<times> unit \<Rightarrow> bool" where
  "expired now e \<longleftrightarrow> te_deadline (fst e) \<le> now"

definition discard_all :: "'k kernel \<Rightarrow> nat list \<Rightarrow> 'k \<Rightarrow> 'k" where
  "discard_all K ps k = fold (\<lambda>p k. snd (usbfs_discard_urb K p k)) ps k"

lemma expire_timeouts_eq:
  "expire_timeouts K now m k =
    (dropWhile (expired now) m, discard_all K (map (te_urb \<circ> fst) (takeWhile (expired now) m)) k)"
  by (induction K now m k rule: expire_timeouts.induct) (auto simp: expired_def discard_all_def)

lemma btree_ok_dropWhile: "btree_ok m \<Longrightarrow> btree_ok (dropWhile P m)"
  by (induction m) auto

text \<open>In a sorted table everything behind the first entry that has not expired has not expired.\<close>

lemma dropWhile_expired:
  "btree_ok m \<Longrightarrow> dropWhile (expired now) m = filter (\<lambda>e. now < te_deadline (fst e)) m"
proof (induction m)
  case (Cons e m)
  show ?case
  proof (cases "expired now e")
    case True
    with Cons show ?thesis by (simp add: expired_def)
  next
    case False
    have "now < te_deadline (fst x)" if "x \<in> set m" for x
    proof -
      have "fst e < fst x" using Cons.prems that by auto
      with False show ?thesis by (auto simp: expired_def less_TimeoutEntry_def)
    qed
    with False show ?thesis by (simp add: expired_def)
  qed
qed simp

lemma takeWhile_expired:
  "btree_ok m \<Longrightarrow> takeWhile (expired now) m = filter (expired now) m"
proof (induction m)
  case (Cons e m)
  show ?case
  proof (cases "expired now e")
    case True
    with Cons show ?thesis by simp
  next
    case False
    have "\<not> expired now x" if "x \<in> set m" for x
    proof -
      have "fst e < fst x" using Cons.prems that by auto
      with False show ?thesis by (auto simp: expired_def less_TimeoutEntry_def)
    qed
    with False show ?thesis by (simp add: filter_empty_conv)
  qed
qed simp

lemma timeouts_ok_subset:
  assumes "timeouts_ok m h ks" "btree_ok m'" "set m' \<subseteq> set m"
  shows "timeouts_ok m' h ks"
proof -
  have "set (map fst m') \<subseteq> set (map fst m)" using assms(3) by auto
  with assms show ?thesis unfolding timeouts_ok_def by blast
qed

lemma ds_timer_ok:
  assumes ok: "dev_ok s"
  shows "\<exists>s'. ds_timer K now s = Ret s' \<and> dev_ok s'"
proof -
  let ?m = "ld_timeouts (lx_dev (ds_lx s))"
  have bt: "btree_ok ?m" using dev_okD(2) [OF ok] by (simp add: timeouts_ok_def)
  have "timeouts_ok (dropWhile (expired now) ?m) (lx_heap (ds_lx s)) (ds_inflight s)"
    by (rule timeouts_ok_subset [OF dev_okD(2) [OF ok] btree_ok_dropWhile [OF bt]]) (auto dest: set_dropWhileD)
  with dev_okD(1) [OF ok] show ?thesis
    by (simp add: ds_timer_def handle_timeouts_def expire_timeouts_eq dev_ok_def)
qed

lemma ds_take_ok:
  assumes ok: "dev_ok s" and q: "ds_queue s \<noteq> []"
  shows "\<exists>s'. ds_take s = Ret s' \<and> dev_ok s'"
proof -
  obtain t q where tq: "ds_queue s = t # q" using q by (cases "ds_queue s") auto
  note own = dev_okD(1) [OF ok, unfolded tq]
  show ?thesis
    using own_take [OF own] dev_okD [OF ok] by (auto simp: ds_take_def tq dev_ok_def)
qed

lemma ds_write_ok:
  assumes ok: "dev_ok s" and t: "t \<in> set (ds_idles s)"
  shows "\<exists>s'. ds_write f t s = Ret s' \<and> dev_ok s'"
proof -
  obtain i where i: "th_mem (lx_heap (ds_lx s)) (idle_ptr t) = Some i" "idle_ptr t \<notin> set (ds_inflight s)"
    using own_idle [OF dev_okD(1) [OF ok] t] by metis
  let ?h = "th_store (idle_ptr t) (i\<lparr>ti_platform_data := f (ti_platform_data i)\<rparr>) (lx_heap (ds_lx s))"
  have "own_ok ?h (ds_idles s) (ds_queue s) (ds_inflight s)"
    by (rule own_store_data [OF dev_okD(1) [OF ok] i(1)]) simp
  moreover have "timeouts_ok (ld_timeouts (lx_dev (ds_lx s))) ?h (ds_inflight s)"
    using i(2) by (intro timeouts_ok_other [OF dev_okD(2) [OF ok], of _ "idle_ptr t"]) (auto simp: th_mem_store)
  ultimately show ?thesis
    using i(1) by (simp add: ds_write_def idle_deref_mut_def th_load_def dev_ok_def)
qed

lemma ds_drop_idle_ok:
  assumes ok: "dev_ok s" and t: "t \<in> set (ds_idles s)"
  shows "\<exists>s'. ds_drop_idle t s = Ret s' \<and> dev_ok s'"
proof -
  let ?h = "(lx_heap (ds_lx s))\<lparr>th_mem := (th_mem (lx_heap (ds_lx s)))(idle_ptr t := None)\<rparr>"
  have ni: "idle_ptr t \<notin> set (ds_inflight s)" using own_idle [OF dev_okD(1) [OF ok] t] by metis
  have "timeouts_ok (ld_timeouts (lx_dev (ds_lx s))) ?h (ds_inflight s)"
    using ni by (intro timeouts_ok_other [OF dev_okD(2) [OF ok], of _ "idle_ptr t"]) auto
  with own_drop_idle [OF dev_okD(1) [OF ok] t] show ?thesis by (simp add: ds_drop_idle_def dev_ok_def)
qed

lemma ds_drop_front_ok:
  assumes ok: "dev_ok s"
  shows "\<exists>s'. ds_drop_front s = Ret s' \<and> dev_ok s'"
proof (cases "ds_queue s")
  case Nil
  with ok show ?thesis by (simp add: ds_drop_front_def)
next
  case (Cons t q)
  from own_drop_pending [OF dev_okD(1) [OF ok, unfolded Cons]] obtain h' where
    h': "pending_drop t (lx_heap (ds_lx s)) = Ret h'" "own_ok h' (ds_idles s) q (ds_inflight s)"
    "\<forall>r. r \<noteq> pending_ptr t \<longrightarrow> th_mem h' r = th_mem (lx_heap (ds_lx s)) r"
    "if pending_ptr t \<in> set (ds_inflight s)
     then \<exists>i. th_mem (lx_heap (ds_lx s)) (pending_ptr t) = Some i \<and>
       th_mem h' (pending_ptr t) = Some (i\<lparr>ti_state := STATE_ABANDONED\<rparr>)
     else th_mem h' (pending_ptr t) = None" by blast
  have "map_option (\<lambda>i. td_deadline (ti_platform_data i)) (th_mem h' p) =
      map_option (\<lambda>i. td_deadline (ti_platform_data i)) (th_mem (lx_heap (ds_lx s)) p)"
    if "p \<in> set (ds_inflight s)" for p
    using h'(3,4) that by (cases "p = pending_ptr t") auto
  then have "timeouts_ok (ld_timeouts (lx_dev (ds_lx s))) h' (ds_inflight s)"
    by (intro timeouts_ok_heap [OF dev_okD(2) [OF ok]]) auto
  with h'(1,2) show ?thesis by (simp add: ds_drop_front_def Cons dev_ok_def)
qed

lemmas ds_ok = ds_new_ok ds_submit_ok ds_submit_timeout_ok ds_cancel_ok ds_events_ok ds_timer_ok
  ds_take_ok ds_write_ok ds_drop_idle_ok ds_drop_front_ok

lemma dev_step_ok: "dev_ok s \<Longrightarrow> dev_step K R s r \<Longrightarrow> \<exists>s'. r = Ret s' \<and> dev_ok s'"
  by (erule dev_stepE) (auto dest: ds_ok)

text \<open>
  C17. In every state that satisfies the invariant (ownership of transfers, every timeout entry for
  a transfer that the kernel has, with the deadline stored in it), whatever the device does next
  (submit with or without timeout, accepted or refused by the kernel, cancel, reap a completion, run
  the timer, hand back a completed transfer, drop a handle) returns normally and keeps the
  invariant: no panic, no freed transfer is touched, and no stale URB can be discarded later.
\<close>

theorem linux_device_safe:
  assumes "dev_ok s" "dev_step K R s r"
  shows "\<exists>s'. r = Ret s' \<and> dev_ok s' \<and>
    list_all (\<lambda>e. te_urb e \<in> set (ds_inflight s')) (map fst (ld_timeouts (lx_dev (ds_lx s'))))"
  using dev_step_ok [OF assms] by (auto simp: dev_ok_def timeouts_ok_def list_all_iff)

definition dev_init :: "unit dev_sys" where
  "dev_init =
     \<lparr>ds_lx = \<lparr>lx_dev = \<lparr>ld_events_id = 0, ld_descriptors = [], ld_sysfs = None, ld_active_config = 1,
                ld_timeouts = [], ld_timer = TIMESPEC_ZERO\<rparr>,
              lx_heap = \<lparr>th_mem = (\<lambda>p. None), th_next = 0, th_notify = (\<lambda>n. NotifyNone)\<rparr>,
              lx_kern = ()\<rparr>,
      ds_idles = [], ds_queue = [], ds_inflight = []\<rparr>"

lemma dev_init_ok: "dev_ok dev_init"
  by (simp add: dev_ok_def dev_init_def own_ok_empty timeouts_ok_def)

theorem linux_device_safe_witness:
  "\<exists>s. ds_new 0 (transfer_data_new 0x81 TBulk) dev_init = Ret s \<and> dev_ok s"
  using linux_device_safe [OF dev_init_ok dev_new [of "\<lambda>r k. (Inr 0, k)" "\<lambda>k. (Inl EAGAIN, k)"]] by blast

lemma timespec_zero_iff:
  assumes "n \<le> instant_max"
  shows "timespec_of_nanos n = TIMESPEC_ZERO \<longleftrightarrow> n = 0"
proof -
  have sec: "n div nanos_per_sec < 2 ^ 63"
    using assms by (auto simp: instant_max_def nanos_per_sec_def div_less_iff_less_mult)
  have ns: "n mod nanos_per_sec < 2 ^ 63" by (rule less_trans [of _ nanos_per_sec]) (simp_all add: nanos_per_sec_def)
  have "timespec_of_nanos n = TIMESPEC_ZERO \<longleftrightarrow>
      unat (of_nat (n div nanos_per_sec) :: 64 word) = 0 \<and> unat (of_nat (n mod nanos_per_sec) :: 64 word) = 0"
    by (simp add: timespec_of_nanos_def TIMESPEC_ZERO_def unat_eq_0)
  also have "\<dots> \<longleftrightarrow> n div nanos_per_sec = 0 \<and> n mod nanos_per_sec = 0"
    using sec ns by (simp add: unat_of_nat)
  also have "\<dots> \<longleftrightarrow> n = 0" by (metis div_0 div_mult_mod_eq mod_0 mult_0 add_0)
  finally show ?thesis .
qed

text \<open>
  C34. When the timer fires, the entries whose deadline has passed are removed and exactly their URBs
  are discarded, in the order of their deadlines; the others stay; and the timer is set to the time
  until the next deadline, which is not zero, or disarmed when no timeout is left.
\<close>

theorem handle_timeouts_discards_expired:
  assumes "btree_ok (ld_timeouts (lx_dev s))"
    "list_all (\<lambda>e. te_deadline (fst e) \<le> instant_max) (ld_timeouts (lx_dev s))"
  shows "let m = ld_timeouts (lx_dev s); s' = handle_timeouts K now s;
             rest = filter (\<lambda>e. now < te_deadline (fst e)) m
    in ld_timeouts (lx_dev s') = rest \<and>
       lx_kern s' = discard_all K (map (te_urb \<circ> fst) (filter (expired now) m)) (lx_kern s) \<and>
       lx_heap s' = lx_heap s \<and>
       ld_timer (lx_dev s') =
         (if rest = [] then TIMESPEC_ZERO else timespec_of_nanos (te_deadline (fst (hd rest)) - now)) \<and>
       (ld_timer (lx_dev s') = TIMESPEC_ZERO \<longleftrightarrow> rest = [])"
proof -
  let ?m = "ld_timeouts (lx_dev s)"
  let ?rest = "filter (\<lambda>e. now < te_deadline (fst e)) ?m"
  have h: "handle_timeouts K now s = s
    \<lparr>lx_kern := discard_all K (map (te_urb \<circ> fst) (filter (expired now) ?m)) (lx_kern s),
     lx_dev := (lx_dev s)\<lparr>ld_timeouts := ?rest, ld_timer := update_timeouts ?rest now\<rparr>\<rparr>"
    by (simp add: handle_timeouts_def expire_timeouts_eq dropWhile_expired [OF assms(1)]
        takeWhile_expired [OF assms(1)])
  have u: "update_timeouts ?rest now =
      (if ?rest = [] then TIMESPEC_ZERO else timespec_of_nanos (te_deadline (fst (hd ?rest)) - now))"
    and z: "update_timeouts ?rest now = TIMESPEC_ZERO \<longleftrightarrow> ?rest = []"
  proof -
    show u: "update_timeouts ?rest now =
      (if ?rest = [] then TIMESPEC_ZERO else timespec_of_nanos (te_deadline (fst (hd ?rest)) - now))"
    proof (cases ?rest)
      case (Cons e r)
      then have "e \<in> set ?rest" by (metis list.set_intros(1))
      then have lt: "now < te_deadline (fst e)" by simp
      obtain d p where e: "fst e = TimeoutEntry d p" by (cases "fst e")
      with Cons lt show ?thesis
        by (cases e) (simp add: update_timeouts_def checked_duration_since_def)
    qed (simp add: update_timeouts_def)
    show "update_timeouts ?rest now = TIMESPEC_ZERO \<longleftrightarrow> ?rest = []"
    proof (cases "?rest = []")
      case False
      then have "hd ?rest \<in> set ?rest" by (rule hd_in_set)
      then have "now < te_deadline (fst (hd ?rest))" "te_deadline (fst (hd ?rest)) \<le> instant_max"
        using assms(2) by (auto simp: list_all_iff)
      with timespec_zero_iff [of "te_deadline (fst (hd ?rest)) - now"] False show ?thesis
        by (simp add: u)
    qed (simp add: update_timeouts_def)
  qed
  show ?thesis using u z by (simp add: h Let_def)
qed

definition two_timeouts :: "nat list lx" where
  "two_timeouts =
     \<lparr>lx_dev = \<lparr>ld_events_id = 0, ld_descriptors = [], ld_sysfs = None, ld_active_config = 1,
        ld_timeouts = [(TimeoutEntry 5 10, ()), (TimeoutEntry 9 11, ()), (TimeoutEntry 30 12, ())],
        ld_timer = TIMESPEC_ZERO\<rparr>,
      lx_heap = \<lparr>th_mem = (\<lambda>p. None), th_next = 0, th_notify = (\<lambda>n. NotifyNone)\<rparr>,
      lx_kern = []\<rparr>"

definition logging_kernel :: "nat list kernel" where
  "logging_kernel req k =
     (case req of USBDEVFS_DISCARDURB p \<Rightarrow> (Inr 0, k @ [p]) | _ \<Rightarrow> (Inr 0, k))"

theorem handle_timeouts_discards_expired_witness:
  "lx_kern (handle_timeouts logging_kernel 9 two_timeouts) =
     discard_all logging_kernel [10, 11] [] \<and>
   discard_all logging_kernel [10, 11] [] = [10, 11] \<and>
   ld_timer (lx_dev (handle_timeouts logging_kernel 9 two_timeouts)) = timespec_of_nanos 21"
proof -
  have m: "ld_timeouts (lx_dev two_timeouts) =
      [(TimeoutEntry 5 10, ()), (TimeoutEntry 9 11, ()), (TimeoutEntry 30 12, ())]"
    and k: "lx_kern two_timeouts = []" by (simp_all add: two_timeouts_def)
  have "btree_ok (ld_timeouts (lx_dev two_timeouts))" by (simp add: m less_TimeoutEntry_def)
  moreover have "list_all (\<lambda>e. te_deadline (fst e) \<le> instant_max) (ld_timeouts (lx_dev two_timeouts))"
    by (simp add: m instant_max_def nanos_per_sec_def)
  ultimately show ?thesis
    using handle_timeouts_discards_expired [of two_timeouts logging_kernel 9]
    by (simp add: m k Let_def expired_def discard_all_def logging_kernel_def usbfs_discard_urb_def
        ioctl_unit_def)
qed

section \<open>A deadline equal to now\<close>

text \<open>
  \<open>checked_duration_since\<close> is zero, not \<open>None\<close>, when the first deadline equals now, and a zero
  \<open>it_value\<close> disarms the timer. \<open>submit_timeout\<close> with a timeout of zero always gets there.
\<close>

lemma btree_insert_first:
  "btree_ok m \<Longrightarrow> list_all (\<lambda>e. k < fst e) m \<Longrightarrow> btree_insert k v m = (k, v) # m"
  by (cases m) (auto split: prod.splits)

text \<open>
  A control transfer submitted with a timeout of zero while every pending deadline is later
  disarms the timer: the kernel has the transfer and it is in the table, but neither it nor any of
  the other pending transfers will be cancelled by the timer.
\<close>

theorem zero_timeout_disarms_timer:
  assumes "dev_ok s" "t \<in> set (ds_idles s)" "now \<le> instant_max"
    "list_all (\<lambda>e. now < te_deadline (fst e)) (ld_timeouts (lx_dev (ds_lx s)))"
    "\<And>u. fst (usbfs_submit_urb K (idle_ptr t) u (lx_kern (ds_lx s))) = None"
  shows "\<exists>w x. submit_timeout K now t 0 (ds_lx s) = Ret (Pending (idle_ptr t), w, x) \<and>
    ld_timer (lx_dev x) = TIMESPEC_ZERO \<and>
    ld_timeouts (lx_dev x) = (TimeoutEntry now (idle_ptr t), ()) # ld_timeouts (lx_dev (ds_lx s))"
proof -
  let ?p = "idle_ptr t" and ?h = "lx_heap (ds_lx s)"
  obtain i where i: "th_mem ?h ?p = Some i" using own_idle [OF dev_okD(1) [OF assms(1)] assms(2)] by metis
  let ?i = "i\<lparr>ti_platform_data := (ti_platform_data i)\<lparr>td_deadline := Some now\<rparr>\<rparr>"
  let ?x = "(ds_lx s)\<lparr>lx_heap := th_store ?p ?i ?h\<rparr>"
  have m1: "idle_deref_mut (\<lambda>d. d\<lparr>td_deadline := Some now\<rparr>) t ?h = Ret (th_store ?p ?i ?h)"
    using i by (simp add: idle_deref_mut_def th_load_def)
  have own1: "own_ok (lx_heap ?x) (ds_idles s) (ds_queue s) (ds_inflight s)"
    using own_store_data [OF dev_okD(1) [OF assms(1)] i, of ?i] by simp
  have i1: "th_mem (lx_heap ?x) ?p = Some ?i" by (simp add: th_mem_store)
  obtain r k where r: "submit_result K ?p ?i (lx_kern ?x) = (r, k)" by fastforce
  have "r = None" using r assms(5) by (simp add: submit_result_def) (metis fst_conv)
  with device_submit_spec [OF own1 assms(2) i1 r] obtain w h' where
    d: "device_submit K t ?x = Ret (Pending ?p, w, ?x\<lparr>lx_heap := h', lx_kern := k\<rparr>)" and
    own2: "own_ok h' (remove1 t (ds_idles s)) (ds_queue s @ [Pending ?p]) (?p # ds_inflight s)"
    by auto
  have c: "is_complete (Pending ?p) h' = Ret False"
    using own_is_complete [OF own2, of "Pending ?p"] by simp
  have bt: "btree_ok (ld_timeouts (lx_dev (ds_lx s)))"
    using dev_okD(2) [OF assms(1)] by (simp add: timeouts_ok_def)
  have ins: "btree_insert (TimeoutEntry now ?p) () (ld_timeouts (lx_dev (ds_lx s))) =
      (TimeoutEntry now ?p, ()) # ld_timeouts (lx_dev (ds_lx s))"
    using assms(4) by (intro btree_insert_first [OF bt]) (auto simp: list_all_iff less_TimeoutEntry_def)
  show ?thesis
    using assms(3)
    by (simp add: submit_timeout_def Let_def m1 d c ins update_timeouts_def checked_duration_since_def
        timespec_of_nanos_def TIMESPEC_ZERO_def)
qed

theorem zero_timeout_disarms_timer_witness:
  "\<exists>s w x. ds_new 0 (transfer_data_new 0x80 TControl) dev_init = Ret s \<and>
    submit_timeout (\<lambda>r k. (Inr 0, k)) 7 (Idle 0) 0 (ds_lx s) = Ret (Pending 0, w, x) \<and>
    ld_timer (lx_dev x) = TIMESPEC_ZERO \<and> ld_timeouts (lx_dev x) = [(TimeoutEntry 7 0, ())]"
proof -
  obtain s where s: "ds_new 0 (transfer_data_new 0x80 TControl) dev_init = Ret s" "dev_ok s"
    using ds_new_ok [OF dev_init_ok] by blast
  then have i: "Idle 0 \<in> set (ds_idles s)" and m: "ld_timeouts (lx_dev (ds_lx s)) = []"
    by (auto simp: ds_new_def dev_init_def idle_new_def)
  from zero_timeout_disarms_timer [OF s(2) i, of 7 "\<lambda>r k. (Inr 0, k)"] s(1) m show ?thesis
    by (auto simp: usbfs_submit_urb_def ioctl_unit_def instant_max_def nanos_per_sec_def)
qed

end
