(* ===== verification/Bitset.thy ===== *)
theory Bitset
  imports Control
begin

text \<open>
  Bit sets: \<open>EndpointBitSet\<close> of src/src/bitset.rs and \<open>BitSet256\<close> of
  src/src/platform/windows_winusb/device.rs. Both promise the same contract, stated as the locale
  \<open>key_set\<close>: a set of keys of which only the canonical part is told apart. The interfaces use the
  first for the endpoints in use, WinUSB handles use the second for the interfaces claimed.
\<close>

section \<open>The contract\<close>

text \<open>
  \<open>tracks is_set canon s live\<close>: the set \<open>s\<close> holds exactly the keys of the live objects, and no two
  live objects have the same key. This is what an owner that sets a key when it hands an object
  out and clears it when the object is dropped maintains.
\<close>

definition tracks :: "('s \<Rightarrow> 'k \<Rightarrow> bool) \<Rightarrow> ('k \<Rightarrow> nat) \<Rightarrow> 's \<Rightarrow> 'k list \<Rightarrow> bool" where
  "tracks is_set canon s live \<longleftrightarrow>
     distinct (map canon live) \<and> (\<forall>k. is_set s k \<longleftrightarrow> canon k \<in> canon ` set live)"

locale key_set =
  fixes empty :: "'s"
    and is_set :: "'s \<Rightarrow> 'k \<Rightarrow> bool"
    and is_empty :: "'s \<Rightarrow> bool"
    and insert_key :: "'s \<Rightarrow> 'k \<Rightarrow> 's"
    and clear_key :: "'s \<Rightarrow> 'k \<Rightarrow> 's"
    and canon :: "'k \<Rightarrow> nat"
  assumes is_set_empty: "\<not> is_set empty k"
    and is_set_insert: "is_set (insert_key s k) j \<longleftrightarrow> canon j = canon k \<or> is_set s j"
    and is_set_clear: "is_set (clear_key s k) j \<longleftrightarrow> canon j \<noteq> canon k \<and> is_set s j"
    and is_empty_iff: "is_empty s \<longleftrightarrow> (\<forall>k. \<not> is_set s k)"
begin

lemma tracks_empty: "tracks is_set canon empty []"
  by (simp add: tracks_def is_set_empty)

lemma tracks_claim:
  "tracks is_set canon s live \<Longrightarrow> \<not> is_set s k \<Longrightarrow> tracks is_set canon (insert_key s k) (k # live)"
  by (auto simp: tracks_def is_set_insert)

lemma tracks_release:
  assumes tr: "tracks is_set canon s live" and k: "k \<in> set live"
  shows "tracks is_set canon (clear_key s k) (remove1 k live)"
proof -
  have dist: "distinct (map canon live)" and eq: "\<And>j. is_set s j \<longleftrightarrow> canon j \<in> canon ` set live"
    using tr by (auto simp: tracks_def)
  have inj: "inj_on canon (set live)" and dl: "distinct live"
    using dist by (auto simp: distinct_map)
  have rest: "set (remove1 k live) = set live - {k}"
    using dl by (rule set_remove1_eq)
  have img: "canon ` (set live - {k}) = canon ` set live - {canon k}"
    using inj k by (auto dest: inj_onD)
  have "inj_on canon (set live - {k})" using inj by (rule inj_on_diff)
  then have "distinct (map canon (remove1 k live))"
    using dl rest by (simp add: distinct_map)
  then show ?thesis
    unfolding tracks_def using rest img by (auto simp: is_set_clear eq)
qed

lemma tracks_is_empty: "tracks is_set canon s live \<Longrightarrow> is_empty s \<longleftrightarrow> live = []"
  by (cases live) (auto simp: tracks_def is_empty_iff)

lemma tracks_fresh: "tracks is_set canon s live \<Longrightarrow> is_set s k \<longleftrightarrow> (\<exists>j \<in> set live. canon j = canon k)"
  by (auto simp: tracks_def) (metis imageI)

lemma insert_absorb: "is_set (insert_key (insert_key s k) k) j = is_set (insert_key s k) j"
  by (auto simp: is_set_insert)

lemma clear_insert: "\<not> is_set s k \<Longrightarrow> canon j \<noteq> canon k \<Longrightarrow>
    is_set (clear_key (insert_key s k) k) j = is_set s j"
  by (auto simp: is_set_insert is_set_clear)

end

section \<open>Single bits of words\<close>

lemma bit_single: "bit (push_bit n 1 :: 'a::len word) m \<longleftrightarrow> m = n \<and> n < LENGTH('a)"
  by (auto simp: bit_push_bit_iff bit_1_iff simp del: push_bit_of_1)

lemma and_single_bit: "w AND push_bit n 1 \<noteq> 0 \<longleftrightarrow> bit w n"
  for w :: "'a::len word"
proof -
  have "w AND push_bit n 1 = 0 \<longleftrightarrow> (\<forall>m. \<not> bit (w AND push_bit n 1) m)"
    by (auto simp del: push_bit_of_1 intro!: bit_word_eqI)
  then show ?thesis
    by (auto simp: bit_and_iff bit_single simp del: push_bit_of_1 dest: bit_imp_le_length)
qed

lemma bit_or_single: "n < LENGTH('a) \<Longrightarrow> bit (w OR push_bit n 1) m \<longleftrightarrow> m = n \<or> bit w m"
  for w :: "'a::len word"
  by (auto simp: bit_or_iff bit_single simp del: push_bit_of_1)

lemma bit_clear_single: "bit (w AND NOT (push_bit n 1)) m \<longleftrightarrow> m \<noteq> n \<and> bit w m"
  for w :: "'a::len word"
  by (auto simp: bit_and_iff bit_not_iff bit_single simp del: push_bit_of_1 dest: bit_imp_le_length)

section \<open>EndpointBitSet\<close>

type_synonym EndpointBitSet = u32

definition endpoint_bit :: "u8 \<Rightarrow> u8" where
  "endpoint_bit ep = push_bit 1 (ep AND 0x0f) OR drop_bit 7 ep"

text \<open>\<open>1 << bit\<close> is in range (\<open>endpoint_bit_lt\<close> below), so the shift never overflows.\<close>

definition endpoint_mask :: "u8 \<Rightarrow> u32" where
  "endpoint_mask ep = push_bit (unat (endpoint_bit ep)) 1"

definition endpoint_bitset_default :: EndpointBitSet where
  "endpoint_bitset_default = 0"

definition endpoint_is_set :: "EndpointBitSet \<Rightarrow> u8 \<Rightarrow> bool" where
  "endpoint_is_set s b \<longleftrightarrow> s AND endpoint_mask b \<noteq> 0"

definition endpoint_is_empty :: "EndpointBitSet \<Rightarrow> bool" where
  "endpoint_is_empty s \<longleftrightarrow> s = 0"

definition endpoint_set :: "EndpointBitSet \<Rightarrow> u8 \<Rightarrow> EndpointBitSet" where
  "endpoint_set s b = s OR endpoint_mask b"

definition endpoint_clear :: "EndpointBitSet \<Rightarrow> u8 \<Rightarrow> EndpointBitSet" where
  "endpoint_clear s b = s AND NOT (endpoint_mask b)"

text \<open>The canonical key of an address: its endpoint number and its direction.\<close>

definition endpoint_key :: "u8 \<Rightarrow> nat" where
  "endpoint_key ep = 2 * (unat ep mod 16) + unat ep div 128"

lemma unat_endpoint_bit: "unat (endpoint_bit ep) = endpoint_key ep"
proof -
  have num: "unat (ep AND 0x0f) = unat ep mod 16"
  proof -
    have "ep AND 0x0f = take_bit 4 ep" by (simp add: take_bit_eq_mask mask_numeral)
    then show ?thesis by (simp add: unsigned_take_bit_eq take_bit_eq_mod unat_mod)
  qed
  then have lt: "unat (ep AND 0x0f) < 16" by simp
  have dir: "unat (drop_bit 7 ep) = unat ep div 128"
    by (simp add: unat_drop_bit_eq drop_bit_eq_div unat_div)
  have "unat ep div 128 < 2" using unat_u8_lt [of ep] by simp
  then have small: "drop_bit 7 ep = 0 \<or> drop_bit 7 ep = 1"
    unfolding word_unat_eq_iff dir by (auto simp: less_2_cases_iff)
  have even: "unat (push_bit 1 (ep AND 0x0f)) = 2 * (unat ep mod 16)"
    using lt num by (simp add: push_bit_eq_mult unat_word_ariths)
  have "unat (endpoint_bit ep) = unat (push_bit 1 (ep AND 0x0f)) + unat (drop_bit 7 ep)"
  proof -
    have "push_bit 1 (ep AND 0x0f) AND drop_bit 7 ep = 0"
      using small
      by (intro bit_eqI) (auto simp: bit_and_iff bit_push_bit_iff bit_1_iff)
    then have "endpoint_bit ep = push_bit 1 (ep AND 0x0f) + drop_bit 7 ep"
      by (simp add: endpoint_bit_def disjunctive_add_eq_or)
    then show ?thesis
      using even dir \<open>unat ep div 128 < 2\<close> by (simp add: unat_word_ariths)
  qed
  then show ?thesis using even dir by (simp add: endpoint_key_def)
qed

lemma endpoint_key_lt: "endpoint_key ep < 32"
  using unat_u8_lt [of ep] by (simp add: endpoint_key_def)

lemma endpoint_bit_lt: "unat (endpoint_bit ep) < 32"
  by (simp add: unat_endpoint_bit endpoint_key_lt)

lemma endpoint_key_surj:
  assumes "n < 32"
  shows "\<exists>ep. endpoint_key ep = n"
proof -
  define q r where "q = n div 2" and "r = n mod 2"
  have n: "n = 2 * q + r" and q: "q < 16" and r: "r = 0 \<or> r = 1"
    using assms by (auto simp: q_def r_def)
  have "unat (of_nat (q + 128 * r) :: u8) = q + 128 * r"
    using q r by (intro unat_of_nat_u8) auto
  moreover have "(q + 128 * r) mod 16 = q" "(q + 128 * r) div 128 = r"
    using q r by (auto, presburger)
  ultimately have "endpoint_key (of_nat (q + 128 * r)) = n"
    by (simp add: endpoint_key_def n)
  then show ?thesis ..
qed

lemma endpoint_is_set_bit: "endpoint_is_set s ep \<longleftrightarrow> bit s (endpoint_key ep)"
  by (simp add: endpoint_is_set_def endpoint_mask_def and_single_bit unat_endpoint_bit
      del: push_bit_of_1)

interpretation endpoint_keys: key_set endpoint_bitset_default endpoint_is_set endpoint_is_empty
  endpoint_set endpoint_clear endpoint_key
proof unfold_locales
  fix k show "\<not> endpoint_is_set endpoint_bitset_default k"
    by (simp add: endpoint_is_set_bit endpoint_bitset_default_def)
next
  fix s k j
  show "endpoint_is_set (endpoint_set s k) j \<longleftrightarrow> endpoint_key j = endpoint_key k \<or> endpoint_is_set s j"
    by (simp add: endpoint_is_set_bit endpoint_set_def endpoint_mask_def unat_endpoint_bit
        bit_or_single endpoint_key_lt del: push_bit_of_1)
next
  fix s k j
  show "endpoint_is_set (endpoint_clear s k) j \<longleftrightarrow>
      endpoint_key j \<noteq> endpoint_key k \<and> endpoint_is_set s j"
    by (simp add: endpoint_is_set_bit endpoint_clear_def endpoint_mask_def unat_endpoint_bit
        bit_clear_single del: push_bit_of_1)
next
  fix s :: u32
  have "(\<forall>k. \<not> endpoint_is_set s k) \<longleftrightarrow> (\<forall>n < 32. \<not> bit s n)"
    by (metis endpoint_is_set_bit endpoint_key_lt endpoint_key_surj)
  also have "\<dots> \<longleftrightarrow> s = 0"
    by (auto intro!: bit_word_eqI)
  finally show "endpoint_is_empty s \<longleftrightarrow> (\<forall>k. \<not> endpoint_is_set s k)"
    by (simp add: endpoint_is_empty_def)
qed

section \<open>BitSet256\<close>

text \<open>
  An array of four 64-bit words. The index \<open>bit / 64\<close> is always below 4, so it never panics, and
  the shift by \<open>bit % 64\<close> never overflows.
\<close>

datatype BitSet256 = BitSet256 u64 u64 u64 u64

fun array4_get :: "BitSet256 \<Rightarrow> nat \<Rightarrow> u64" where
  "array4_get (BitSet256 a b c d) i = [a, b, c, d] ! i"

fun array4_set :: "BitSet256 \<Rightarrow> nat \<Rightarrow> u64 \<Rightarrow> BitSet256" where
  "array4_set (BitSet256 a b c d) i w =
     (if i = 0 then BitSet256 w b c d else if i = 1 then BitSet256 a w c d
      else if i = 2 then BitSet256 a b w d else BitSet256 a b c w)"

definition bitset256_new :: BitSet256 where
  "bitset256_new = BitSet256 0 0 0 0"

definition bitset256_idx :: "u8 \<Rightarrow> nat" where
  "bitset256_idx b = unat (b div 64)"

definition bitset256_mask :: "u8 \<Rightarrow> u64" where
  "bitset256_mask b = push_bit (unat (b mod 64)) 1"

definition bitset256_is_set :: "BitSet256 \<Rightarrow> u8 \<Rightarrow> bool" where
  "bitset256_is_set s b \<longleftrightarrow> array4_get s (bitset256_idx b) AND bitset256_mask b \<noteq> 0"

definition bitset256_is_empty :: "BitSet256 \<Rightarrow> bool" where
  "bitset256_is_empty s \<longleftrightarrow> s = BitSet256 0 0 0 0"

definition bitset256_set :: "BitSet256 \<Rightarrow> u8 \<Rightarrow> BitSet256" where
  "bitset256_set s b =
     array4_set s (bitset256_idx b) (array4_get s (bitset256_idx b) OR bitset256_mask b)"

definition bitset256_clear :: "BitSet256 \<Rightarrow> u8 \<Rightarrow> BitSet256" where
  "bitset256_clear s b =
     array4_set s (bitset256_idx b) (array4_get s (bitset256_idx b) AND NOT (bitset256_mask b))"

lemma bitset256_idx_eq: "bitset256_idx b = unat b div 64"
  by (simp add: bitset256_idx_def unat_div)

lemma bitset256_idx_lt: "bitset256_idx b < 4"
  using unat_u8_lt [of b] by (simp add: bitset256_idx_eq less_mult_imp_div_less)

lemma array4_get_set:
  "i < 4 \<Longrightarrow> j < 4 \<Longrightarrow> array4_get (array4_set s i w) j = (if j = i then w else array4_get s j)"
  by (cases s) (auto simp: less_Suc_eq numeral_eq_Suc)

lemma array4_eq_iff: "s = BitSet256 0 0 0 0 \<longleftrightarrow> (\<forall>i < 4. array4_get s i = 0)"
  by (cases s) (auto simp: less_Suc_eq numeral_eq_Suc)

text \<open>The bit at position \<open>n\<close> of the 256-bit set.\<close>

definition bitset256_bit :: "BitSet256 \<Rightarrow> nat \<Rightarrow> bool" where
  "bitset256_bit s n \<longleftrightarrow> bit (array4_get s (n div 64)) (n mod 64)"

lemma bitset256_is_set_bit: "bitset256_is_set s b \<longleftrightarrow> bitset256_bit s (unat b)"
  by (simp add: bitset256_is_set_def bitset256_mask_def and_single_bit bitset256_bit_def
      bitset256_idx_eq unat_mod del: push_bit_of_1)

lemma same_bit256: "n div 64 = m div 64 \<Longrightarrow> n mod 64 = m mod 64 \<longleftrightarrow> n = m"
  for n m :: nat
  by (metis div_mult_mod_eq)

interpretation claimed_keys: key_set bitset256_new bitset256_is_set bitset256_is_empty
  bitset256_set bitset256_clear unat
proof unfold_locales
  fix k show "\<not> bitset256_is_set bitset256_new k"
    by (simp add: bitset256_is_set_def bitset256_new_def)
      (use bitset256_idx_lt [of k] in \<open>auto simp: less_Suc_eq numeral_eq_Suc\<close>)
next
  fix s k j
  show "bitset256_is_set (bitset256_set s k) j \<longleftrightarrow> unat j = unat k \<or> bitset256_is_set s j"
    using bitset256_idx_lt [of k] bitset256_idx_lt [of j] same_bit256 [of "unat j" "unat k"]
    by (auto simp: bitset256_is_set_bit bitset256_bit_def bitset256_set_def bitset256_mask_def
        bitset256_idx_eq array4_get_set bit_or_single unat_mod simp del: push_bit_of_1)
next
  fix s k j
  show "bitset256_is_set (bitset256_clear s k) j \<longleftrightarrow> unat j \<noteq> unat k \<and> bitset256_is_set s j"
    using bitset256_idx_lt [of k] bitset256_idx_lt [of j] same_bit256 [of "unat j" "unat k"]
    by (auto simp: bitset256_is_set_bit bitset256_bit_def bitset256_clear_def bitset256_mask_def
        bitset256_idx_eq array4_get_set bit_clear_single unat_mod simp del: push_bit_of_1)
next
  fix s
  have "(\<forall>k. \<not> bitset256_is_set s k) \<longleftrightarrow> (\<forall>n < 256. \<not> bitset256_bit s n)"
    by (metis bitset256_is_set_bit unat_of_nat_u8 unat_u8_lt)
  also have "\<dots> \<longleftrightarrow> (\<forall>i < 4. \<forall>m < 64. \<not> bit (array4_get s i) m)"
  proof safe
    fix i m :: nat
    assume "\<forall>n < 256. \<not> bitset256_bit s n" and "i < 4" "m < 64" "bit (array4_get s i) m"
    then show False
      by (auto simp: bitset256_bit_def dest!: spec [where x = "i * 64 + m"])
  next
    fix n :: nat
    assume "\<forall>i < 4. \<forall>m < 64. \<not> bit (array4_get s i) m" and "n < 256" "bitset256_bit s n"
    then show False
      by (auto simp: bitset256_bit_def less_mult_imp_div_less)
  qed
  also have "\<dots> \<longleftrightarrow> (\<forall>i < 4. array4_get s i = 0)"
    by (auto intro!: bit_word_eqI)
  finally show "bitset256_is_empty s \<longleftrightarrow> (\<forall>k. \<not> bitset256_is_set s k)"
    by (simp add: bitset256_is_empty_def array4_eq_iff)
qed

end
