(* ===== verification/Linux_Endpoint.thy ===== *)
theory Linux_Endpoint
  imports Linux_Device Bitset
begin

unbundle bit_operations_syntax

text \<open>
  Interfaces and endpoints of the Linux backend: \<open>LinuxInterface\<close>, \<open>LinuxEndpoint\<close> and
  \<open>EndpointInner\<close> of src/src/platform/linux_usbfs/device.rs. The device and the heap of transfers are
  the \<open>lx\<close> state; the mutex around \<open>InterfaceState\<close> makes each function one atomic step.
\<close>

section \<open>Interfaces\<close>

record InterfaceState =
  ifs_endpoints :: EndpointBitSet
  ifs_alt_setting :: u8

definition interface_state_default :: InterfaceState where
  "interface_state_default = \<lparr>ifs_endpoints = endpoint_bitset_default, ifs_alt_setting = 0\<rparr>"

record LinuxInterface =
  li_interface_number :: u8
  li_reattach :: bool
  li_state :: InterfaceState

definition handle_claim_interface_result ::
  "u8 \<Rightarrow> errno option \<Rightarrow> bool \<Rightarrow> nusb_error + LinuxInterface" where
  "handle_claim_interface_result n result reattach =
     (case result of
        Some e \<Rightarrow>
          Inl (if e = EINVAL \<or> e = ENOENT then error_new_os KNotFound ''interface not found'' e
               else if e = EBUSY then error_new_os KBusy ''interface is busy'' e
               else if e = ENODEV then error_new_os KDisconnected ''device disconnected'' e
               else error_new_os KOther ''failed to claim interface'' e)
      | None \<Rightarrow>
          Inr \<lparr>li_interface_number = n, li_reattach = reattach,
               li_state = interface_state_default\<rparr>)"

definition claim_interface ::
  "'k kernel \<Rightarrow> u8 \<Rightarrow> 'k lx \<Rightarrow> (nusb_error + LinuxInterface) \<times> 'k lx" where
  "claim_interface K n s =
     (case usbfs_claim_interface K n (lx_kern s) of
        (r, k) \<Rightarrow> (handle_claim_interface_result n r False, s\<lparr>lx_kern := k\<rparr>))"

definition detach_and_claim_interface ::
  "'k kernel \<Rightarrow> u8 \<Rightarrow> 'k lx \<Rightarrow> (nusb_error + LinuxInterface) \<times> 'k lx" where
  "detach_and_claim_interface K n s =
     (case usbfs_detach_and_claim_interface K n (lx_kern s) of
        (r, k) \<Rightarrow> (handle_claim_interface_result n r True, s\<lparr>lx_kern := k\<rparr>))"

definition get_alt_setting :: "LinuxInterface \<Rightarrow> u8" where
  "get_alt_setting i = ifs_alt_setting (li_state i)"

definition set_alt_setting ::
  "'k kernel \<Rightarrow> u8 \<Rightarrow> LinuxInterface \<Rightarrow> 'k lx \<Rightarrow> (nusb_error + unit) \<times> LinuxInterface \<times> 'k lx" where
  "set_alt_setting K alt_setting i s =
     (if \<not> endpoint_is_empty (ifs_endpoints (li_state i))
      then (Inl (error_new KBusy ''can't change alternate setting while endpoints are in use''), i, s)
      else
        (case usbfs_set_interface K (li_interface_number i) alt_setting (lx_kern s) of
           (Some e, k) \<Rightarrow>
             (Inl (if e = EINVAL then error_new_os KNotFound ''alternate setting not found'' e
                   else if e = ENODEV then error_new_os KDisconnected ''device disconnected'' e
                   else error_new_os KOther ''failed to set alternate setting'' e), i, s\<lparr>lx_kern := k\<rparr>)
         | (None, k) \<Rightarrow>
             (Inr (), i\<lparr>li_state := (li_state i)\<lparr>ifs_alt_setting := alt_setting\<rparr>\<rparr>, s\<lparr>lx_kern := k\<rparr>)))"

text \<open>\<open>Drop for LinuxInterface\<close>\<close>

definition interface_drop :: "'k kernel \<Rightarrow> LinuxInterface \<Rightarrow> 'k lx \<Rightarrow> 'k lx" where
  "interface_drop K i s =
     (case usbfs_release_interface K (li_interface_number i) (lx_kern s) of
        (res, k) \<Rightarrow>
          if res = None \<and> li_reattach i
          then s\<lparr>lx_kern := snd (usbfs_attach_kernel_driver K (li_interface_number i) k)\<rparr>
          else s\<lparr>lx_kern := k\<rparr>)"

section \<open>Endpoints\<close>

text \<open>\<open>EndpointInner\<close> and \<open>LinuxEndpoint\<close> in one record; \<open>le_notify\<close> is the \<open>Notify\<close> object.\<close>

record LinuxEndpoint =
  le_address :: u8
  le_ep_type :: TransferType
  le_notify :: nat
  le_max_packet_size :: nat
  le_pending :: "Pending list"
  le_idle_transfer :: "Idle option"

definition interface_endpoint ::
  "nat \<Rightarrow> EndpointDescriptor \<Rightarrow> LinuxInterface \<Rightarrow> ((nusb_error + LinuxEndpoint) \<times> LinuxInterface) outcome"
where
  "interface_endpoint notify descriptor i =
     obind (endpoint_address descriptor) (\<lambda>address.
     obind (endpoint_transfer_type descriptor) (\<lambda>ep_type.
     obind (endpoint_max_packet_size descriptor) (\<lambda>max_packet_size.
       Ret (if endpoint_is_set (ifs_endpoints (li_state i)) address
            then (Inl (error_new KBusy ''endpoint already in use''), i)
            else
              (Inr \<lparr>le_address = address, le_ep_type = ep_type, le_notify = notify,
                    le_max_packet_size = max_packet_size, le_pending = [], le_idle_transfer = None\<rparr>,
               i\<lparr>li_state := (li_state i)
                   \<lparr>ifs_endpoints := endpoint_set (ifs_endpoints (li_state i)) address\<rparr>\<rparr>)))))"

text \<open>\<open>Drop for EndpointInner\<close>, run when the endpoint and all its transfers are gone.\<close>

definition endpoint_inner_drop :: "u8 \<Rightarrow> LinuxInterface \<Rightarrow> LinuxInterface" where
  "endpoint_inner_drop address i =
     i\<lparr>li_state := (li_state i)
         \<lparr>ifs_endpoints := endpoint_clear (ifs_endpoints (li_state i)) address\<rparr>\<rparr>"

definition linux_endpoint_pending :: "LinuxEndpoint \<Rightarrow> nat" where
  "linux_endpoint_pending ep = length (le_pending ep)"

fun cancel_each :: "'k kernel \<Rightarrow> Pending list \<Rightarrow> 'k lx \<Rightarrow> 'k lx outcome" where
  "cancel_each K [] s = Ret s"
| "cancel_each K (t # ts) s = obind (device_cancel K t s) (cancel_each K ts)"

definition endpoint_cancel_all :: "'k kernel \<Rightarrow> LinuxEndpoint \<Rightarrow> 'k lx \<Rightarrow> 'k lx outcome" where
  "endpoint_cancel_all K ep s = cancel_each K (rev (le_pending ep)) s"

definition get_transfer :: "LinuxEndpoint \<Rightarrow> 'k lx \<Rightarrow> Idle \<times> LinuxEndpoint \<times> 'k lx" where
  "get_transfer ep s =
     (case le_idle_transfer ep of
        Some t \<Rightarrow> (t, ep\<lparr>le_idle_transfer := None\<rparr>, s)
      | None \<Rightarrow>
          (case idle_new (le_notify ep) (transfer_data_new (le_address ep) (le_ep_type ep)) (lx_heap s) of
             (t, h) \<Rightarrow> (t, ep, s\<lparr>lx_heap := h\<rparr>)))"

text \<open>\<open>set_buffer\<close> through the handle.\<close>

definition idle_set_buffer :: "Buffer \<Rightarrow> Idle \<Rightarrow> 'k lx \<Rightarrow> 'k lx outcome" where
  "idle_set_buffer data t s =
     obind (idle_deref t (lx_heap s)) (\<lambda>d.
     obind (td_set_buffer data d) (\<lambda>d'.
     obind (idle_deref_mut (\<lambda>_. d') t (lx_heap s)) (\<lambda>h. Ret (s\<lparr>lx_heap := h\<rparr>))))"

definition linux_endpoint_submit ::
  "'k kernel \<Rightarrow> Buffer \<Rightarrow> LinuxEndpoint \<Rightarrow> 'k lx \<Rightarrow> (LinuxEndpoint \<times> 'k lx) outcome" where
  "linux_endpoint_submit K data ep s =
     (case get_transfer ep s of
        (t, ep1, s1) \<Rightarrow>
          obind (idle_set_buffer data t s1) (\<lambda>s2.
          obind (device_submit K t s2) (\<lambda>(pnd, w, s3).
            Ret (ep1\<lparr>le_pending := le_pending ep1 @ [pnd]\<rparr>, s3))))"

definition linux_endpoint_submit_err ::
  "Buffer \<Rightarrow> TransferError \<Rightarrow> LinuxEndpoint \<Rightarrow> 'k lx \<Rightarrow> (LinuxEndpoint \<times> 'k lx) outcome" where
  "linux_endpoint_submit_err data error ep s =
     rassert (error = InvalidArgument)
       (case get_transfer ep s of
          (t, ep1, s1) \<Rightarrow>
            obind (idle_set_buffer data t s1) (\<lambda>s2.
            obind (idle_deref_mut (\<lambda>d. d\<lparr>td_urb := (td_urb d)\<lparr>urb_status := EINVAL\<rparr>\<rparr>) t (lx_heap s2))
              (\<lambda>h. Ret (ep1\<lparr>le_pending := le_pending ep1 @ [simulate_complete t]\<rparr>, s2\<lparr>lx_heap := h\<rparr>))))"

text \<open>
  The body shared by \<open>poll_next_complete\<close> and the closure of \<open>wait_next_complete\<close>: the front
  transfer if it is complete, kept for the next submission. Assigning \<open>idle_transfer\<close> drops the
  transfer that was kept before.
\<close>

definition endpoint_check ::
  "(i32 \<Rightarrow> errno outcome) \<Rightarrow> LinuxEndpoint \<Rightarrow> 'k lx \<Rightarrow> (Completion option \<times> LinuxEndpoint \<times> 'k lx) outcome"
where
  "endpoint_check from_raw ep s =
     obind (take_completed_from_queue (le_pending ep) (lx_heap s)) (\<lambda>(r, q).
       case r of
         None \<Rightarrow> Ret (None, ep\<lparr>le_pending := q\<rparr>, s)
       | Some t \<Rightarrow>
           obind (idle_deref t (lx_heap s)) (\<lambda>d.
           obind (td_take_completion from_raw d) (\<lambda>(c, d').
           obind (idle_deref_mut (\<lambda>_. d') t (lx_heap s)) (\<lambda>h.
           obind (case le_idle_transfer ep of None \<Rightarrow> Ret h | Some old \<Rightarrow> idle_drop old h) (\<lambda>h'.
             Ret (Some c, ep\<lparr>le_pending := q, le_idle_transfer := Some t\<rparr>, s\<lparr>lx_heap := h'\<rparr>))))))"

definition linux_poll_next_complete ::
  "(i32 \<Rightarrow> errno outcome) \<Rightarrow> nat \<Rightarrow> LinuxEndpoint \<Rightarrow> 'k lx \<Rightarrow>
   (Completion option \<times> LinuxEndpoint \<times> 'k lx) outcome" where
  "linux_poll_next_complete from_raw waker ep s =
     endpoint_check from_raw ep (s\<lparr>lx_heap := notify_subscribe (le_notify ep) waker (lx_heap s)\<rparr>)"

text \<open>
  \<open>wait_next_complete\<close> with the event thread: each element of the list is a moment before the
  timeout at which the event thread handles an event and wakes the waiter, which checks again.
\<close>

fun linux_wait_next_complete ::
  "'k reaper \<Rightarrow> (i32 \<Rightarrow> errno outcome) \<Rightarrow> nat list \<Rightarrow> LinuxEndpoint \<Rightarrow> 'k lx \<Rightarrow>
   (Completion option \<times> LinuxEndpoint \<times> 'k lx) outcome" where
  "linux_wait_next_complete R from_raw [] ep s = endpoint_check from_raw ep s"
| "linux_wait_next_complete R from_raw (now # nows) ep s =
     obind (endpoint_check from_raw ep s) (\<lambda>(r, ep', s').
       case r of
         Some c \<Rightarrow> Ret (Some c, ep', s')
       | None \<Rightarrow>
           obind (handle_events R now s') (\<lambda>(u, w, s'').
             linux_wait_next_complete R from_raw nows ep' s''))"

definition linux_clear_halt :: "'k kernel \<Rightarrow> LinuxEndpoint \<Rightarrow> 'k lx \<Rightarrow> (nusb_error + unit) \<times> 'k lx" where
  "linux_clear_halt K ep s =
     (case usbfs_clear_halt K (le_address ep) (lx_kern s) of
        (Some e, k) \<Rightarrow>
          (Inl (if e = ENODEV then error_new_os KDisconnected ''device disconnected'' e
                else error_new_os KOther ''failed to clear halt'' e), s\<lparr>lx_kern := k\<rparr>)
      | (None, k) \<Rightarrow> (Inr (), s\<lparr>lx_kern := k\<rparr>))"

definition linux_allocate :: "(nat \<Rightarrow> i32 + u8 option list) \<Rightarrow> nat \<Rightarrow> (i32 + Buffer) outcome" where
  "linux_allocate kmmap len = buffer_mmap kmmap len"

text \<open>
  \<open>Drop for LinuxEndpoint\<close>, then its fields in their order: the pending transfers, then the idle one.
\<close>

fun drop_pending_all :: "Pending list \<Rightarrow> TransferData tx_heap \<Rightarrow> TransferData tx_heap outcome" where
  "drop_pending_all [] h = Ret h"
| "drop_pending_all (t # ts) h = obind (pending_drop t h) (drop_pending_all ts)"

definition linux_endpoint_drop :: "'k kernel \<Rightarrow> LinuxEndpoint \<Rightarrow> 'k lx \<Rightarrow> 'k lx outcome" where
  "linux_endpoint_drop K ep s =
     obind (if le_pending ep \<noteq> [] then endpoint_cancel_all K ep s else Ret s) (\<lambda>s1.
     obind (drop_pending_all (le_pending ep) (lx_heap s1)) (\<lambda>h.
     obind (case le_idle_transfer ep of None \<Rightarrow> Ret h | Some t \<Rightarrow> idle_drop t h) (\<lambda>h'.
       Ret (s1\<lparr>lx_heap := h'\<rparr>))))"

section \<open>Endpoints in use\<close>

text \<open>A history of an interface: endpoints are opened and their inner state is dropped.\<close>

datatype interface_event =
    OpenEndpoint nat EndpointDescriptor
  | DropInner u8

fun interface_run :: "interface_event list \<Rightarrow> LinuxInterface \<times> u8 list \<Rightarrow> (LinuxInterface \<times> u8 list) outcome"
where
  "interface_run [] s = Ret s"
| "interface_run (OpenEndpoint n d # es) (i, live) =
     obind (interface_endpoint n d i) (\<lambda>(r, i').
       interface_run es (case r of Inl e \<Rightarrow> (i', live) | Inr ep \<Rightarrow> (i', le_address ep # live)))"
| "interface_run (DropInner a # es) (i, live) =
     (if a \<in> set live then interface_run es (endpoint_inner_drop a i, remove1 a live)
      else interface_run es (i, live))"

definition interface_tracks :: "LinuxInterface \<Rightarrow> u8 list \<Rightarrow> bool" where
  "interface_tracks i live \<longleftrightarrow> tracks endpoint_is_set endpoint_key (ifs_endpoints (li_state i)) live"

lemma interface_endpoint_eq:
  assumes "endpoint_address d = Ret a" "endpoint_transfer_type d = Ret ty" "endpoint_max_packet_size d = Ret m"
  shows "interface_endpoint n d i =
    Ret (if endpoint_is_set (ifs_endpoints (li_state i)) a
         then (Inl (error_new KBusy ''endpoint already in use''), i)
         else (Inr \<lparr>le_address = a, le_ep_type = ty, le_notify = n, le_max_packet_size = m,
                    le_pending = [], le_idle_transfer = None\<rparr>,
               i\<lparr>li_state := (li_state i)\<lparr>ifs_endpoints := endpoint_set (ifs_endpoints (li_state i)) a\<rparr>\<rparr>))"
  using assms by (simp add: interface_endpoint_def)

lemma interface_open_tracks:
  assumes "interface_tracks i live" "interface_endpoint n d i = Ret (r, i')"
  shows "interface_tracks i' (case r of Inl e \<Rightarrow> live | Inr ep \<Rightarrow> le_address ep # live)"
  using assms
  by (auto simp: interface_endpoint_def outcome_Ret_iffs interface_tracks_def
      endpoint_keys.tracks_claim split: if_splits)

lemma interface_drop_tracks:
  "interface_tracks i live \<Longrightarrow> a \<in> set live \<Longrightarrow>
    interface_tracks (endpoint_inner_drop a i) (remove1 a live)"
  by (simp add: interface_tracks_def endpoint_inner_drop_def endpoint_keys.tracks_release)

lemma interface_run_open:
  "interface_run (OpenEndpoint n d # es) (i, live) = Ret x \<Longrightarrow>
    \<exists>r i'. interface_endpoint n d i = Ret (r, i') \<and>
      interface_run es (i', case r of Inl e \<Rightarrow> live | Inr ep \<Rightarrow> le_address ep # live) = Ret x"
  by (auto simp: obind_Ret_iff split: sum.splits)

lemma interface_run_tracks:
  "interface_tracks i live \<Longrightarrow> interface_run es (i, live) = Ret (i', live') \<Longrightarrow> interface_tracks i' live'"
proof (induction es arbitrary: i live)
  case (Cons e es)
  show ?case
  proof (cases e)
    case (OpenEndpoint n d)
    with Cons.prems(2) obtain r i1 where r: "interface_endpoint n d i = Ret (r, i1)"
      "interface_run es (i1, case r of Inl e \<Rightarrow> live | Inr ep \<Rightarrow> le_address ep # live) = Ret (i', live')"
      using interface_run_open by blast
    show ?thesis by (rule Cons.IH [OF interface_open_tracks [OF Cons.prems(1) r(1)] r(2)])
  next
    case (DropInner a)
    with Cons show ?thesis by (fastforce dest: interface_drop_tracks split: if_splits)
  qed
qed simp

lemma interface_run_number:
  "interface_run es (j, l) = Ret (i, live) \<Longrightarrow> li_interface_number i = li_interface_number j"
proof (induction es arbitrary: j l)
  case (Cons e es)
  show ?case
  proof (cases e)
    case (OpenEndpoint n d)
    with Cons.prems obtain r i1 where r: "interface_endpoint n d j = Ret (r, i1)"
      "interface_run es (i1, case r of Inl e \<Rightarrow> l | Inr ep \<Rightarrow> le_address ep # l) = Ret (i, live)"
      using interface_run_open by blast
    have "li_interface_number i1 = li_interface_number j"
      using r(1) by (auto simp: interface_endpoint_def outcome_Ret_iffs split: if_splits)
    with Cons.IH [OF r(2)] show ?thesis by simp
  next
    case (DropInner a)
    with Cons show ?thesis by (fastforce simp: endpoint_inner_drop_def split: if_splits)
  qed
qed simp

text \<open>
  C18. An endpoint is never handed out twice: after any history of opening endpoints and dropping
  their state, the endpoints in use have pairwise different number and direction, opening one that
  is in use fails with Busy and leaves the interface unchanged, opening another one succeeds, and
  the alternate setting can be changed exactly when no endpoint is in use (otherwise Busy, without
  a system call).
\<close>

theorem endpoint_exclusive:
  assumes "interface_run es
      (\<lparr>li_interface_number = num, li_reattach = re, li_state = interface_state_default\<rparr>, []) = Ret (i, live)"
    "endpoint_address d = Ret a" "endpoint_transfer_type d = Ret ty" "endpoint_max_packet_size d = Ret m"
  shows "distinct (map endpoint_key live) \<and>
    (if endpoint_key a \<in> endpoint_key ` set live
     then interface_endpoint n d i = Ret (Inl (error_new KBusy ''endpoint already in use''), i)
     else \<exists>ep i'. interface_endpoint n d i = Ret (Inr ep, i') \<and> le_address ep = a) \<and>
    (if live = []
     then fst (set_alt_setting K alt i s) = Inr () \<longleftrightarrow>
       fst (usbfs_set_interface K num alt (lx_kern s)) = None
     else set_alt_setting K alt i s =
       (Inl (error_new KBusy ''can't change alternate setting while endpoints are in use''), i, s))"
proof -
  have "interface_tracks
      \<lparr>li_interface_number = num, li_reattach = re, li_state = interface_state_default\<rparr> []"
    by (simp add: interface_tracks_def interface_state_default_def endpoint_keys.tracks_empty)
  from interface_run_tracks [OF this assms(1)] have tr: "interface_tracks i live" .
  have num: "li_interface_number i = num" using interface_run_number [OF assms(1)] by simp
  have set: "endpoint_is_set (ifs_endpoints (li_state i)) a \<longleftrightarrow> endpoint_key a \<in> endpoint_key ` set live"
    and dist: "distinct (map endpoint_key live)"
    using tr by (auto simp: interface_tracks_def tracks_def)
  have emp: "endpoint_is_empty (ifs_endpoints (li_state i)) \<longleftrightarrow> live = []"
    using tr by (simp add: interface_tracks_def endpoint_keys.tracks_is_empty)
  show ?thesis
    using dist set emp num interface_endpoint_eq [OF assms(2,3,4), of n i]
    by (auto simp: set_alt_setting_def split: prod.splits option.splits)
qed

theorem endpoint_exclusive_witness:
  "\<exists>i. interface_run [OpenEndpoint 0 [7, 5, 0x81, 2, 64, 0, 0], OpenEndpoint 1 [7, 5, 0x02, 2, 64, 0, 0],
        DropInner 0x02]
      (\<lparr>li_interface_number = 3, li_reattach = False, li_state = interface_state_default\<rparr>, []) =
      Ret (i, [0x81]) \<and>
    interface_endpoint 2 [7, 5, 0x81, 2, 64, 0, 0] i =
      Ret (Inl (error_new KBusy ''endpoint already in use''), i)"
proof -
  let ?es = "[OpenEndpoint 0 [7, 5, 0x81, 2, 64, 0, 0], OpenEndpoint 1 [7, 5, 0x02, 2, 64, 0, 0],
        DropInner 0x02]"
  let ?i = "\<lparr>li_interface_number = 3, li_reattach = False, li_state = interface_state_default\<rparr>"
  have "omap snd (interface_run ?es (?i, [])) = Ret [0x81]" by code_simp
  then obtain i where i: "interface_run ?es (?i, []) = Ret (i, [0x81])" by (auto simp: omap_Ret_iff)
  have d: "endpoint_address [7, 5, 0x81, 2, 64, 0, 0] = Ret 0x81"
    "endpoint_transfer_type [7, 5, 0x81, 2, 64, 0, 0] = Ret TBulk"
    "endpoint_max_packet_size [7, 5, 0x81, 2, 64, 0, 0] = Ret 64" by code_simp+
  from endpoint_exclusive [OF i d, of 2] i show ?thesis by auto
qed

end
