(* ===== verification/Backend.thy ===== *)
theory Backend
  imports Linux_Transfer
begin

text \<open>
  What an endpoint of src/src/device.rs and the stream adapters of src/src/io need of the platform:
  the operations of \<open>platform::Endpoint\<close> as a record, and their contract as the locale
  \<open>endpoint_backend\<close>: an endpoint is a queue of buffers that come back in order.
\<close>

section \<open>Operations\<close>

text \<open>\<open>std::time::Duration\<close>\<close>

record Duration =
  dur_secs :: u64
  dur_nanos :: u32

definition duration_max :: Duration where
  "duration_max = \<lparr>dur_secs = 0xFFFFFFFFFFFFFFFF, dur_nanos = 999999999\<rparr>"

definition duration_from_secs :: "u64 \<Rightarrow> Duration" where
  "duration_from_secs n = \<lparr>dur_secs = n, dur_nanos = 0\<rparr>"

text \<open>
  Each operation gives the new state of the endpoint and of everything behind it; \<open>be_wait\<close> has the
  timeout and gives \<open>None\<close> when it expires, \<open>be_poll\<close> has the waker and gives \<open>None\<close> for
  \<open>Poll::Pending\<close>.
\<close>

record 'e backend =
  be_address :: "'e \<Rightarrow> u8"
  be_max_packet_size :: "'e \<Rightarrow> nat"
  be_pending :: "'e \<Rightarrow> nat"
  be_allocate :: "nat \<Rightarrow> 'e \<Rightarrow> (i32 + Buffer) outcome"
  be_submit :: "Buffer \<Rightarrow> 'e \<Rightarrow> 'e outcome"
  be_submit_err :: "Buffer \<Rightarrow> TransferError \<Rightarrow> 'e \<Rightarrow> 'e outcome"
  be_wait :: "Duration \<Rightarrow> 'e \<Rightarrow> (Completion option \<times> 'e) outcome"
  be_poll :: "nat \<Rightarrow> 'e \<Rightarrow> (Completion option \<times> 'e) outcome"
  be_cancel_all :: "'e \<Rightarrow> 'e outcome"

section \<open>The contract\<close>

text \<open>
  What comes back for a buffer, by the direction of the endpoint; \<open>A\<close> are the allocators that the
  platform has.
\<close>

definition returned_for :: "Allocator set \<Rightarrow> Direction \<Rightarrow> Buffer \<Rightarrow> Completion \<Rightarrow> bool" where
  "returned_for A dir b c \<longleftrightarrow>
     buffer_ok (cmp_buffer c) \<and> buf_capacity (cmp_buffer c) = buf_capacity b \<and>
     (buf_allocator b \<in> A \<longrightarrow> buf_allocator (cmp_buffer c) = buf_allocator b) \<and>
     (case dir of
        In \<Rightarrow> buf_requested_len (cmp_buffer c) = buf_requested_len b \<and>
          buffer_len (cmp_buffer c) = cmp_actual_len c \<and>
          cmp_actual_len c \<le> buffer_requested_len b
      | Out \<Rightarrow> buffer_bytes (cmp_buffer c) = buffer_bytes b)"

text \<open>A buffer as it is when it has just been allocated.\<close>

definition fresh_buffer :: "nat \<Rightarrow> Buffer \<Rightarrow> bool" where
  "fresh_buffer n b \<longleftrightarrow> buffer_ok b \<and> buffer_bytes b = [] \<and> buffer_requested_len b = n"

text \<open>
  \<open>queue\<close> are the buffers that are in the hands of the endpoint, \<open>past\<close> the completions it has
  given back, oldest first.
\<close>

locale endpoint_backend =
  fixes A :: "Allocator set"
    and B :: "'e backend"
    and D :: Direction
    and ok :: "'e \<Rightarrow> bool"
    and queue :: "'e \<Rightarrow> Buffer list"
    and past :: "'e \<Rightarrow> Completion list"
  assumes pending_eq: "ok e \<Longrightarrow> be_pending B e = length (queue e)"
    and packet_pos: "ok e \<Longrightarrow> 0 < be_max_packet_size B e"
    and allocate_ok: "ok e \<Longrightarrow> n < 2 ^ 32 \<Longrightarrow>
      \<exists>r. be_allocate B n e = Ret r \<and>
        (case r of Inl err \<Rightarrow> True | Inr b \<Rightarrow> fresh_buffer n b \<and> buffer_capacity b = n)"
    and allocate_large: "2 ^ 32 \<le> n \<Longrightarrow> be_allocate B n e = Panic"
    and submit_ok: "ok e \<Longrightarrow> buffer_ok b \<Longrightarrow>
      \<exists>e'. be_submit B b e = Ret e' \<and> ok e' \<and> queue e' = queue e @ [b] \<and> past e' = past e \<and>
        be_max_packet_size B e' = be_max_packet_size B e"
    and submit_err_ok: "ok e \<Longrightarrow> buffer_ok b \<Longrightarrow>
      \<exists>e'. be_submit_err B b InvalidArgument e = Ret e' \<and> ok e' \<and> queue e' = queue e @ [b] \<and>
        past e' = past e \<and> be_max_packet_size B e' = be_max_packet_size B e"
    and wait_ok: "ok e \<Longrightarrow> queue e = b # bs \<Longrightarrow>
      \<exists>r e'. be_wait B timeout e = Ret (r, e') \<and> ok e' \<and> be_max_packet_size B e' = be_max_packet_size B e \<and>
        (case r of
           None \<Rightarrow> queue e' = queue e \<and> past e' = past e
         | Some c \<Rightarrow> queue e' = bs \<and> past e' = past e @ [c] \<and> returned_for A D b c)"
    and wait_empty: "ok e \<Longrightarrow> queue e = [] \<Longrightarrow> be_wait B timeout e = Panic"
    and poll_ok: "ok e \<Longrightarrow> queue e = b # bs \<Longrightarrow>
      \<exists>r e'. be_poll B n e = Ret (r, e') \<and> ok e' \<and> be_max_packet_size B e' = be_max_packet_size B e \<and>
        (case r of
           None \<Rightarrow> queue e' = queue e \<and> past e' = past e
         | Some c \<Rightarrow> queue e' = bs \<and> past e' = past e @ [c] \<and> returned_for A D b c)"
    and poll_empty: "ok e \<Longrightarrow> queue e = [] \<Longrightarrow> be_poll B n e = Panic"
    and cancel_all_ok: "ok e \<Longrightarrow>
      \<exists>e'. be_cancel_all B e = Ret e' \<and> ok e' \<and> queue e' = queue e \<and> past e' = past e \<and>
        be_max_packet_size B e' = be_max_packet_size B e"

section \<open>Histories\<close>

datatype endpoint_op =
    OpSubmit Buffer
  | OpSubmitErr Buffer
  | OpWait Duration
  | OpPoll nat
  | OpCancelAll

fun op_buffers :: "endpoint_op list \<Rightarrow> Buffer list" where
  "op_buffers [] = []"
| "op_buffers (OpSubmit b # ops) = b # op_buffers ops"
| "op_buffers (OpSubmitErr b # ops) = b # op_buffers ops"
| "op_buffers (OpWait n # ops) = op_buffers ops"
| "op_buffers (OpPoll n # ops) = op_buffers ops"
| "op_buffers (OpCancelAll # ops) = op_buffers ops"

text \<open>A caller that waits only while transfers are pending; the completions it gets, in order.\<close>

definition backend_step :: "'e backend \<Rightarrow> endpoint_op \<Rightarrow> 'e \<Rightarrow> (Completion list \<times> 'e) outcome" where
  "backend_step B op e =
     (case op of
        OpSubmit b \<Rightarrow> obind (be_submit B b e) (\<lambda>e'. Ret ([], e'))
      | OpSubmitErr b \<Rightarrow> obind (be_submit_err B b InvalidArgument e) (\<lambda>e'. Ret ([], e'))
      | OpWait timeout \<Rightarrow>
          if be_pending B e = 0 then Ret ([], e)
          else obind (be_wait B timeout e) (\<lambda>(r, e'). Ret (case r of None \<Rightarrow> [] | Some c \<Rightarrow> [c], e'))
      | OpPoll n \<Rightarrow>
          if be_pending B e = 0 then Ret ([], e)
          else obind (be_poll B n e) (\<lambda>(r, e'). Ret (case r of None \<Rightarrow> [] | Some c \<Rightarrow> [c], e'))
      | OpCancelAll \<Rightarrow> obind (be_cancel_all B e) (\<lambda>e'. Ret ([], e')))"

fun backend_run :: "'e backend \<Rightarrow> endpoint_op list \<Rightarrow> 'e \<Rightarrow> (Completion list \<times> 'e) outcome" where
  "backend_run B [] e = Ret ([], e)"
| "backend_run B (op # ops) e =
     obind (backend_step B op e) (\<lambda>(cs, e'). obind (backend_run B ops e') (\<lambda>(cs', e''). Ret (cs @ cs', e'')))"

context endpoint_backend begin

lemma step_fifo:
  assumes ok: "ok e" and bufs: "list_all buffer_ok (op_buffers [op])"
  shows "\<exists>cs e'. backend_step B op e = Ret (cs, e') \<and> ok e' \<and> length cs \<le> length (queue e) \<and>
    queue e' = drop (length cs) (queue e) @ op_buffers [op] \<and>
    list_all2 (returned_for A D) (take (length cs) (queue e)) cs"
proof -
  have wait: "\<exists>cs e'. (if be_pending B e = 0 then Ret ([], e)
        else obind (w e) (\<lambda>(r, e'). Ret (case r of None \<Rightarrow> [] | Some c \<Rightarrow> [c], e'))) = Ret (cs, e') \<and>
      ok e' \<and> length cs \<le> length (queue e) \<and> queue e' = drop (length cs) (queue e) \<and>
      list_all2 (returned_for A D) (take (length cs) (queue e)) cs"
    if w: "\<And>b bs. queue e = b # bs \<Longrightarrow>
      \<exists>r e'. w e = Ret (r, e') \<and> ok e' \<and> be_max_packet_size B e' = be_max_packet_size B e \<and>
        (case r of
           None \<Rightarrow> queue e' = queue e \<and> past e' = past e
         | Some c \<Rightarrow> queue e' = bs \<and> past e' = past e @ [c] \<and> returned_for A D b c)" for w
  proof (cases "queue e")
    case Nil
    with ok show ?thesis by (simp add: pending_eq)
  next
    case (Cons b bs)
    from w [OF this] obtain r e' where r: "w e = Ret (r, e')" "ok e'"
      "case r of None \<Rightarrow> queue e' = queue e \<and> past e' = past e
       | Some c \<Rightarrow> queue e' = bs \<and> past e' = past e @ [c] \<and> returned_for A D b c" by blast
    then show ?thesis using Cons ok by (cases r) (auto simp: pending_eq)
  qed
  show ?thesis
  proof (cases op)
    case (OpSubmit b)
    with submit_ok [OF ok, of b] bufs show ?thesis by (auto simp: backend_step_def)
  next
    case (OpSubmitErr b)
    with submit_err_ok [OF ok, of b] bufs show ?thesis by (auto simp: backend_step_def)
  next
    case (OpWait t)
    with wait [of "be_wait B t", OF wait_ok [OF ok]] show ?thesis by (simp add: backend_step_def)
  next
    case (OpPoll n)
    with wait [of "be_poll B n", OF poll_ok [OF ok]] show ?thesis by (simp add: backend_step_def)
  next
    case OpCancelAll
    with cancel_all_ok [OF ok] show ?thesis by (auto simp: backend_step_def)
  qed
qed

lemma run_fifo:
  assumes "ok e" "list_all buffer_ok (op_buffers ops)"
  shows "\<exists>cs e'. backend_run B ops e = Ret (cs, e') \<and> ok e' \<and>
    length cs \<le> length (queue e @ op_buffers ops) \<and>
    queue e' = drop (length cs) (queue e @ op_buffers ops) \<and>
    list_all2 (returned_for A D) (take (length cs) (queue e @ op_buffers ops)) cs"
  using assms
proof (induction ops arbitrary: e)
  case (Cons op ops)
  have split: "op_buffers (op # ops) = op_buffers [op] @ op_buffers ops" by (cases op) auto
  with Cons.prems(2) have bufs: "list_all buffer_ok (op_buffers [op])" "list_all buffer_ok (op_buffers ops)"
    by simp_all
  from step_fifo [OF Cons.prems(1) bufs(1)] obtain cs e1 where
    s: "backend_step B op e = Ret (cs, e1)" "ok e1" "length cs \<le> length (queue e)"
      "queue e1 = drop (length cs) (queue e) @ op_buffers [op]"
      "list_all2 (returned_for A D) (take (length cs) (queue e)) cs" by blast
  from Cons.IH [OF s(2) bufs(2)] obtain cs' e2 where
    r: "backend_run B ops e1 = Ret (cs', e2)" "ok e2" "length cs' \<le> length (queue e1 @ op_buffers ops)"
      "queue e2 = drop (length cs') (queue e1 @ op_buffers ops)"
      "list_all2 (returned_for A D) (take (length cs') (queue e1 @ op_buffers ops)) cs'" by blast
  have q: "queue e1 @ op_buffers ops = drop (length cs) (queue e @ op_buffers (op # ops))"
    using s(3,4) split by simp
  have "list_all2 (returned_for A D) (take (length cs + length cs') (queue e @ op_buffers (op # ops))) (cs @ cs')"
    unfolding take_add by (intro list_all2_appendI) (use s(3,5) r(5) q in simp_all)
  with s(1,3) r q show ?case by (auto simp: add.commute)
qed simp

end

end
