(* ===== verification/Loops.thy ===== *)
theory Loops
  imports Prelude
begin

text \<open>
  Iterator adapters whose closures may panic, and loops. A loop runs a step until it gives a result;
  the number of rounds is bounded by fuel, and when the fuel is used up the state is the result, so
  that a theorem can say what the rounds have done.
\<close>

section \<open>Iterators\<close>

text \<open>\<open>Iterator::find\<close> and \<open>Iterator::filter\<close>\<close>

fun ofind :: "('a \<Rightarrow> bool outcome) \<Rightarrow> 'a list \<Rightarrow> 'a option outcome" where
  "ofind P [] = Ret None"
| "ofind P (x # xs) = obind (P x) (\<lambda>b. if b then Ret (Some x) else ofind P xs)"

fun ofilter :: "('a \<Rightarrow> bool outcome) \<Rightarrow> 'a list \<Rightarrow> 'a list outcome" where
  "ofilter P [] = Ret []"
| "ofilter P (x # xs) =
     obind (P x) (\<lambda>b. obind (ofilter P xs) (\<lambda>ys. Ret (if b then x # ys else ys)))"

lemma ofind_eq:
  "(\<And>x. x \<in> set xs \<Longrightarrow> P x = Ret (p x)) \<Longrightarrow> ofind P xs = Ret (find p xs)"
  by (induction xs) auto

lemma ofilter_eq:
  "(\<And>x. x \<in> set xs \<Longrightarrow> P x = Ret (p x)) \<Longrightarrow> ofilter P xs = Ret (filter p xs)"
  by (induction xs) auto

lemma find_Some_iff': "find p xs = Some x \<Longrightarrow> x \<in> set xs \<and> p x"
  by (auto simp: find_Some_iff)

lemma find_None_all: "find p xs = None \<longleftrightarrow> list_all (\<lambda>x. \<not> p x) xs"
  by (auto simp: find_None_iff list_all_iff)

section \<open>Loops\<close>

text \<open>A round gives the state of the next round, \<open>Inl\<close>, or leaves the loop, \<open>Inr\<close>.\<close>

fun oloop :: "nat \<Rightarrow> ('s \<Rightarrow> ('s + 'r) outcome) \<Rightarrow> 's \<Rightarrow> ('s + 'r) outcome" where
  "oloop 0 step s = Ret (Inl s)"
| "oloop (Suc n) step s =
     obind (step s) (\<lambda>x. case x of Inl s' \<Rightarrow> oloop n step s' | Inr r \<Rightarrow> Ret (Inr r))"

text \<open>A loop that must have ended: out of fuel is \<open>Diverge\<close>.\<close>

definition must_end :: "('s + 'r) outcome \<Rightarrow> 'r outcome" where
  "must_end m = obind m (\<lambda>x. case x of Inl s \<Rightarrow> Diverge | Inr r \<Rightarrow> Ret r)"

lemma must_end_Ret [simp]: "must_end (Ret (Inr r)) = Ret r" "must_end (Ret (Inl s)) = Diverge"
  by (simp_all add: must_end_def)

text \<open>An invariant, and a counter that each round increases.\<close>

lemma oloop_rounds:
  assumes "I s"
    and step: "\<And>s. I s \<Longrightarrow> \<exists>x. step s = Ret x \<and>
      (case x of Inl s' \<Rightarrow> I s' \<and> rounds s' = Suc (rounds s) | Inr r \<Rightarrow> post r)"
  shows "\<exists>x. oloop n step s = Ret x \<and>
    (case x of Inl s' \<Rightarrow> I s' \<and> rounds s' = rounds s + n | Inr r \<Rightarrow> post r)"
  using assms(1)
proof (induction n arbitrary: s)
  case (Suc n)
  from step [OF Suc.prems] obtain x where x: "step s = Ret x"
    "case x of Inl s' \<Rightarrow> I s' \<and> rounds s' = Suc (rounds s) | Inr r \<Rightarrow> post r" by blast
  show ?case
  proof (cases x)
    case (Inl s')
    with x Suc.IH [of s'] show ?thesis by (auto split: sum.splits)
  qed (use x in auto)
qed simp

text \<open>A measure that each round decreases bounds the fuel.\<close>

lemma oloop_terminates:
  assumes "I s" "measure_of s < n"
    and step: "\<And>s. I s \<Longrightarrow> \<exists>x. step s = Ret x \<and>
      (case x of Inl s' \<Rightarrow> I s' \<and> measure_of s' < measure_of s | Inr r \<Rightarrow> post r)"
  shows "\<exists>r. oloop n step s = Ret (Inr r) \<and> post r"
  using assms(1,2)
proof (induction n arbitrary: s)
  case (Suc n)
  from step [OF Suc.prems(1)] obtain x where x: "step s = Ret x"
    "case x of Inl s' \<Rightarrow> I s' \<and> measure_of s' < measure_of s | Inr r \<Rightarrow> post r" by blast
  show ?case
  proof (cases x)
    case (Inl s')
    with x Suc.IH [of s'] Suc.prems(2) show ?thesis by auto
  qed (use x in auto)
qed simp

text \<open>More fuel gives the same result.\<close>

lemma oloop_more: "oloop n step s = Ret (Inr r) \<Longrightarrow> oloop (n + m) step s = Ret (Inr r)"
  by (induction n arbitrary: s) (auto simp: obind_Ret_iff split: sum.splits)

end
