(* ===== verification/Endpoint.thy ===== *)
theory Endpoint
  imports Backend Loops
begin

text \<open>
  \<open>Endpoint\<close> of src/src/device.rs: a thin layer over the platform's endpoint, with the check of
  the length of IN transfers and the blocking single transfer. The type parameter for the direction
  is the argument \<open>dir\<close>.
\<close>

section \<open>Operations\<close>

text \<open>\<open>alloc\<close> is the capacity that the global allocator gives to \<open>Vec::with_capacity\<close>.\<close>

definition ep_allocate :: "(nat \<Rightarrow> nat) \<Rightarrow> 'e backend \<Rightarrow> nat \<Rightarrow> 'e \<Rightarrow> Buffer outcome" where
  "ep_allocate alloc B len e =
     obind (be_allocate B len e) (\<lambda>r. case r of Inr b \<Rightarrow> Ret b | Inl err \<Rightarrow> buffer_new alloc len)"

text \<open>\<open>a % b\<close> panics when \<open>b\<close> is zero.\<close>

definition checked_rem :: "nat \<Rightarrow> nat \<Rightarrow> nat outcome" where
  "checked_rem a b = (if b = 0 then Panic else Ret (a mod b))"

definition ep_submit :: "'e backend \<Rightarrow> Direction \<Rightarrow> Buffer \<Rightarrow> 'e \<Rightarrow> 'e outcome" where
  "ep_submit B dir buf e =
     (if dir = In then
        (let req_len = buffer_requested_len buf in
         obind (if req_len = 0 then Ret True
                else omap (\<lambda>r. r \<noteq> 0) (checked_rem req_len (be_max_packet_size B e)))
           (\<lambda>bad. if bad then be_submit_err B buf InvalidArgument e else be_submit B buf e))
      else be_submit B buf e)"

text \<open>The loop after the timeout.\<close>

definition blocking_round :: "'e backend \<Rightarrow> 'e \<Rightarrow> ('e + Completion \<times> 'e) outcome" where
  "blocking_round B e =
     obind (be_wait B (duration_from_secs 1) e) (\<lambda>(r, e').
       Ret (case r of Some completion \<Rightarrow> Inr (completion, e') | None \<Rightarrow> Inl e'))"

definition transfer_blocking ::
  "'e backend \<Rightarrow> Direction \<Rightarrow> nat \<Rightarrow> Buffer \<Rightarrow> Duration \<Rightarrow> 'e \<Rightarrow> ('e + Completion \<times> 'e) outcome" where
  "transfer_blocking B dir fuel buf timeout e =
     rassert (be_pending B e = 0)
       (obind (ep_submit B dir buf e) (\<lambda>e1.
        obind (be_wait B timeout e1) (\<lambda>(r, e2).
          case r of
            Some completion \<Rightarrow> Ret (Inr (completion, e2))
          | None \<Rightarrow> obind (be_cancel_all B e2) (oloop fuel (blocking_round B)))))"

section \<open>On a backend that keeps its contract\<close>

lemma checked_rem_pos [simp]: "0 < b \<Longrightarrow> checked_rem a b = Ret (a mod b)"
  by (simp add: checked_rem_def)

text \<open>The allocator gives at least what is asked for, and that fits a buffer.\<close>

definition size_ok :: "(nat \<Rightarrow> nat) \<Rightarrow> nat \<Rightarrow> bool" where
  "size_ok alloc n \<longleftrightarrow> n \<le> alloc n \<and> alloc n < 2 ^ 32"

lemma size_ok_lt: "size_ok alloc n \<Longrightarrow> n < 2 ^ 32"
  by (simp add: size_ok_def)

context endpoint_backend begin

lemma ep_allocate_ok:
  assumes "ok e" "size_ok alloc n"
  shows "\<exists>b. ep_allocate alloc B n e = Ret b \<and> fresh_buffer n b \<and>
    (buffer_capacity b = n \<or> buffer_capacity b = alloc n)"
proof -
  from allocate_ok [OF assms(1) size_ok_lt [OF assms(2)]] obtain r where r: "be_allocate B n e = Ret r"
    "case r of Inl err \<Rightarrow> True | Inr b \<Rightarrow> fresh_buffer n b \<and> buffer_capacity b = n" by blast
  show ?thesis
  proof (cases r)
    case (Inl err)
    with r(1) buffer_new_ok [where alloc = alloc and n = n] assms(2) show ?thesis by (auto simp: ep_allocate_def fresh_buffer_def size_ok_def)
  next
    case (Inr b)
    with r show ?thesis by (simp add: ep_allocate_def)
  qed
qed

lemma ep_submit_ok:
  assumes "ok e" "buffer_ok b"
  shows "\<exists>e'. ep_submit B dir b e = Ret e' \<and> ok e' \<and> queue e' = queue e @ [b] \<and> past e' = past e \<and>
    be_max_packet_size B e' = be_max_packet_size B e"
  using submit_ok [OF assms] submit_err_ok [OF assms] packet_pos [OF assms(1)]
  by (auto simp: ep_submit_def Let_def)

text \<open>A rejected length goes to the error path, an accepted one to the device.\<close>

lemma ep_submit_eq:
  assumes "ok e"
  shows "ep_submit B dir b e =
    (if dir = In \<and> \<not> (0 < buffer_requested_len b \<and> be_max_packet_size B e dvd buffer_requested_len b)
     then be_submit_err B b InvalidArgument e else be_submit B b e)"
  using packet_pos [OF assms] by (auto simp: ep_submit_def Let_def dvd_eq_mod_eq_0)

lemma blocking_rounds_ok:
  assumes "ok e" "queue e = [b]"
  shows "\<exists>x. oloop fuel (blocking_round B) e = Ret x \<and>
    (case x of
       Inl e' \<Rightarrow> ok e' \<and> queue e' = [b] \<and> past e' = past e
     | Inr (c, e') \<Rightarrow> ok e' \<and> queue e' = [] \<and> past e' = past e @ [c] \<and> returned_for A D b c)"
  using assms
proof (induction fuel arbitrary: e)
  case (Suc fuel)
  from wait_ok [OF Suc.prems, of "duration_from_secs 1"] obtain r e1 where
    w: "be_wait B (duration_from_secs 1) e = Ret (r, e1)" "ok e1"
      "case r of None \<Rightarrow> queue e1 = queue e \<and> past e1 = past e
       | Some c \<Rightarrow> queue e1 = [] \<and> past e1 = past e @ [c] \<and> returned_for A D b c" by blast
  show ?case
  proof (cases r)
    case None
    with w(2,3) Suc.prems(2) have e1: "ok e1" "queue e1 = [b]" "past e1 = past e" by simp_all
    from Suc.IH [OF e1(1,2)] show ?thesis by (simp add: blocking_round_def w(1) None e1(3) cong: sum.case_cong)
  next
    case (Some c)
    with w show ?thesis by (simp add: blocking_round_def)
  qed
qed simp

lemma transfer_blocking_ok:
  assumes "ok e" "buffer_ok b" "queue e = []"
  shows "\<exists>x. transfer_blocking B dir fuel b timeout e = Ret x \<and>
    (case x of
       Inl e' \<Rightarrow> ok e' \<and> queue e' = [b] \<and> past e' = past e
     | Inr (c, e') \<Rightarrow> ok e' \<and> queue e' = [] \<and> past e' = past e @ [c] \<and> returned_for A D b c)"
proof -
  from ep_submit_ok [OF assms(1,2)] obtain e1 where s: "ep_submit B dir b e = Ret e1" "ok e1"
    "queue e1 = [b]" "past e1 = past e" using assms(3) by auto
  from wait_ok [OF s(2,3), of timeout] obtain r e2 where
    w: "be_wait B timeout e1 = Ret (r, e2)" "ok e2"
      "case r of None \<Rightarrow> queue e2 = queue e1 \<and> past e2 = past e1
       | Some c \<Rightarrow> queue e2 = [] \<and> past e2 = past e1 @ [c] \<and> returned_for A D b c" by blast
  have p: "be_pending B e = 0" using assms by (simp add: pending_eq)
  show ?thesis
  proof (cases r)
    case None
    with w s cancel_all_ok [OF w(2)] obtain e3 where c: "be_cancel_all B e2 = Ret e3" "ok e3"
      "queue e3 = [b]" "past e3 = past e" by auto
    from blocking_rounds_ok [OF c(2,3), of fuel] show ?thesis
      by (simp add: transfer_blocking_def p s(1) w(1) None c(1,4) cong: sum.case_cong)
  next
    case (Some c)
    with w s p show ?thesis by (simp add: transfer_blocking_def)
  qed
qed

lemma transfer_blocking_busy: "ok e \<Longrightarrow> queue e \<noteq> [] \<Longrightarrow> transfer_blocking B dir fuel b timeout e = Panic"
  by (simp add: transfer_blocking_def pending_eq)

end

end
