(* ===== verification/Linux_Endpoint_Theorems.thy ===== *)
theory Linux_Endpoint_Theorems
  imports Linux_Endpoint Linux_Device_Theorems Linux_Transfer_Theorems Endpoint
begin

text \<open>
  A Linux endpoint is a queue of buffers: whatever the kernel does within its contract, buffers come
  back one by one in the order they were submitted, each well-formed and with the memory it had,
  and nothing panics. The contract is the locale \<open>endpoint_backend\<close>; the endpoint on top of usbfs is
  its interpretation.
\<close>

section \<open>A kernel within its contract\<close>

text \<open>
  usbfs as a script: the results of the next submissions (\<open>None\<close> accepts; accepted when the script
  ends), and for each reap which of the transfers completes, with which error number (0 none), with
  which received data and how many bytes sent. Every behaviour that the contract allows is one of
  these scripts; lengths are cut to what was asked for, and a length that does not fit 31 bits is
  refused.
\<close>

record usb_script =
  us_inflight :: "(nat \<times> Urb) list"
  us_submits :: "nat option list"
  us_reaps :: "(nat \<times> nat \<times> bytes \<times> nat) list"
  us_discards :: "nat list"

definition script_errno :: "nat \<Rightarrow> errno" where
  "script_errno n = of_nat (Suc (n mod 4095))"

definition script_status :: "nat \<Rightarrow> i32" where
  "script_status n = (if n = 0 then 0 else - script_errno n)"

definition script_accept :: "nat \<Rightarrow> Urb \<Rightarrow> usb_script \<Rightarrow> usb_script" where
  "script_accept p u k = k\<lparr>us_inflight := us_inflight k @ [(p, u)], us_submits := tl (us_submits k)\<rparr>"

definition script_kernel :: "usb_script kernel" where
  "script_kernel req k =
     (case req of
        USBDEVFS_SUBMITURB p u \<Rightarrow>
          (if 0x80000000 \<le> urb_buffer_length u then (Inl EINVAL, k)
           else case us_submits k of
             Some e # r \<Rightarrow> (Inl (script_errno e), k\<lparr>us_submits := r\<rparr>)
           | _ \<Rightarrow> (Inr 0, script_accept p u k))
      | USBDEVFS_DISCARDURB p \<Rightarrow> (Inr 0, k\<lparr>us_discards := p # us_discards k\<rparr>)
      | _ \<Rightarrow> (Inr 0, k))"

definition script_done :: "nat \<times> bytes \<times> nat \<Rightarrow> Urb \<Rightarrow> Urb" where
  "script_done x u =
     (case x of (st, data, sent) \<Rightarrow>
        (case direction_from_address (urb_endpoint u) of
           In \<Rightarrow> urb_done (script_status st) 0 (take (unat (urb_buffer_length u)) data) u
         | Out \<Rightarrow> u\<lparr>urb_status := script_status st,
                   urb_actual_length := of_nat (min sent (unat (urb_buffer_length u)))\<rparr>))"

definition script_reaper :: "usb_script reaper" where
  "script_reaper k =
     (case us_reaps k of
        [] \<Rightarrow> (Inl EAGAIN, k)
      | (ix, x) # r \<Rightarrow>
          (if us_inflight k = [] then (Inl EAGAIN, k\<lparr>us_reaps := r\<rparr>)
           else
             (let j = ix mod length (us_inflight k) in
              case us_inflight k ! j of
                (p, u) \<Rightarrow>
                  (Inr (p, script_done x u),
                   k\<lparr>us_inflight := take j (us_inflight k) @ drop (Suc j) (us_inflight k), us_reaps := r\<rparr>))))"

section \<open>The endpoint with its buffers\<close>

text \<open>
  The endpoint, the device and the moments at which the event thread runs during the next waits;
  whether \<open>mmap\<close> succeeds after so many completions and with so many transfers in the queue; and, for the specification only, the buffers in the queue and the
  completions that came back.
\<close>

record ep_sys =
  es_ep :: LinuxEndpoint
  es_lx :: "usb_script lx"
  es_sched :: "nat list list"
  es_mmap :: "nat \<Rightarrow> nat \<Rightarrow> bool"
  es_bufs :: "Buffer list"
  es_past :: "Completion list"

definition es_submit :: "Buffer \<Rightarrow> ep_sys \<Rightarrow> ep_sys outcome" where
  "es_submit b e =
     obind (linux_endpoint_submit script_kernel b (es_ep e) (es_lx e)) (\<lambda>(ep, s).
       Ret (e\<lparr>es_ep := ep, es_lx := s, es_bufs := es_bufs e @ [b]\<rparr>))"

definition es_submit_err :: "Buffer \<Rightarrow> TransferError \<Rightarrow> ep_sys \<Rightarrow> ep_sys outcome" where
  "es_submit_err b err e =
     obind (linux_endpoint_submit_err b err (es_ep e) (es_lx e)) (\<lambda>(ep, s).
       Ret (e\<lparr>es_ep := ep, es_lx := s, es_bufs := es_bufs e @ [b]\<rparr>))"

definition es_completed :: "ep_sys \<Rightarrow> Completion option \<times> LinuxEndpoint \<times> usb_script lx \<Rightarrow> Completion option \<times> ep_sys"
where
  "es_completed e x =
     (case x of (c, ep, s) \<Rightarrow>
        (c, e\<lparr>es_ep := ep, es_lx := s, es_sched := tl (es_sched e),
              es_bufs := (case c of None \<Rightarrow> es_bufs e | Some _ \<Rightarrow> tl (es_bufs e)),
              es_past := (case c of None \<Rightarrow> es_past e | Some c \<Rightarrow> es_past e @ [c])\<rparr>))"

definition es_moments :: "ep_sys \<Rightarrow> nat list" where
  "es_moments e = (case es_sched e of [] \<Rightarrow> [] | nows # _ \<Rightarrow> nows)"

text \<open>The events that fall into the wait; before a poll, the event thread handles its events.\<close>

definition es_wait :: "Duration \<Rightarrow> ep_sys \<Rightarrow> (Completion option \<times> ep_sys) outcome" where
  "es_wait timeout e =
     omap (es_completed e) (linux_wait_next_complete script_reaper Ret (es_moments e) (es_ep e) (es_lx e))"

fun es_events :: "nat list \<Rightarrow> usb_script lx \<Rightarrow> usb_script lx outcome" where
  "es_events [] s = Ret s"
| "es_events (now # nows) s = obind (handle_events script_reaper now s) (\<lambda>(u, w, s'). es_events nows s')"

definition es_poll :: "nat \<Rightarrow> ep_sys \<Rightarrow> (Completion option \<times> ep_sys) outcome" where
  "es_poll waker e =
     obind (es_events (es_moments e) (es_lx e)) (\<lambda>s.
     omap (es_completed e) (linux_poll_next_complete Ret waker (es_ep e) s))"

definition es_cancel_all :: "ep_sys \<Rightarrow> ep_sys outcome" where
  "es_cancel_all e = omap (\<lambda>s. e\<lparr>es_lx := s\<rparr>) (endpoint_cancel_all script_kernel (es_ep e) (es_lx e))"

definition script_mmap :: "bool \<Rightarrow> nat \<Rightarrow> i32 + u8 option list" where
  "script_mmap success n = (if success then Inr (replicate n (Some 0)) else Inl 12)"

definition es_maps :: "ep_sys \<Rightarrow> bool" where
  "es_maps e = es_mmap e (length (es_past e)) (length (es_bufs e))"

definition es_address :: "ep_sys \<Rightarrow> u8" where
  "es_address e = le_address (es_ep e)"

definition es_max_packet_size :: "ep_sys \<Rightarrow> nat" where
  "es_max_packet_size e = le_max_packet_size (es_ep e)"

definition es_pending :: "ep_sys \<Rightarrow> nat" where
  "es_pending e = linux_endpoint_pending (es_ep e)"

definition es_allocate :: "nat \<Rightarrow> ep_sys \<Rightarrow> (i32 + Buffer) outcome" where
  "es_allocate n e = linux_allocate (script_mmap (es_maps e)) n"

definition linux_backend :: "ep_sys backend" where
  "linux_backend =
     \<lparr>be_address = es_address, be_max_packet_size = es_max_packet_size, be_pending = es_pending,
      be_allocate = es_allocate, be_submit = es_submit, be_submit_err = es_submit_err,
      be_wait = es_wait, be_poll = es_poll, be_cancel_all = es_cancel_all\<rparr>"

lemma linux_backend_sel [simp]:
  "be_address linux_backend e = le_address (es_ep e)"
  "be_max_packet_size linux_backend e = le_max_packet_size (es_ep e)"
  "be_pending linux_backend e = linux_endpoint_pending (es_ep e)"
  "be_allocate linux_backend n e = linux_allocate (script_mmap (es_maps e)) n"
  "be_submit linux_backend = es_submit" "be_submit_err linux_backend = es_submit_err"
  "be_wait linux_backend = es_wait" "be_poll linux_backend = es_poll"
  "be_cancel_all linux_backend = es_cancel_all"
  by (simp_all add: linux_backend_def es_address_def es_max_packet_size_def es_pending_def es_allocate_def)

definition es_dir :: "ep_sys \<Rightarrow> Direction" where
  "es_dir e = direction_from_address (le_address (es_ep e))"

section \<open>The invariant\<close>

text \<open>A transfer of the endpoint without a buffer, and one that holds the buffer \<open>b\<close>.\<close>

definition idle_data :: "u8 \<Rightarrow> TransferData \<Rightarrow> bool" where
  "idle_data addr d \<longleftrightarrow> td_capacity d = 0 \<and> urb_endpoint (td_urb d) = addr \<and> td_deadline d = None \<and>
     errno_range (urb_status (td_urb d))"

definition holds :: "u8 \<Rightarrow> Buffer \<Rightarrow> TransferData \<Rightarrow> bool" where
  "holds addr b d \<longleftrightarrow>
     urb_endpoint (td_urb d) = addr \<and> td_deadline d = None \<and> errno_range (urb_status (td_urb d)) \<and>
     td_capacity d = buf_capacity b \<and> td_allocator d = buf_allocator b \<and>
     length (urb_buffer (td_urb d)) = unat (buf_capacity b) \<and>
     (case direction_from_address addr of
        In \<Rightarrow> urb_buffer_length (td_urb d) = buf_requested_len b \<and>
          (\<exists>n. urb_actual_length (td_urb d) = of_nat n \<and> n < 2 ^ 31 \<and> n \<le> buffer_requested_len b \<and>
            list_all (\<lambda>x. x \<noteq> None) (take n (urb_buffer (td_urb d))))
      | Out \<Rightarrow> urb_buffer_length (td_urb d) = buf_len b \<and> urb_buffer (td_urb d) = buf_mem b \<and>
          (\<exists>n. urb_actual_length (td_urb d) = of_nat n \<and> n < 2 ^ 31))"

definition block_at :: "TransferData tx_heap \<Rightarrow> nat \<Rightarrow> TransferData option" where
  "block_at h p = map_option ti_platform_data (th_mem h p)"

definition blocks_ok ::
  "u8 \<Rightarrow> TransferData tx_heap \<Rightarrow> Idle list \<Rightarrow> Pending list \<Rightarrow> Buffer list \<Rightarrow> (nat \<times> Urb) list \<Rightarrow> bool"
where
  "blocks_ok addr h ids pend bufs infl \<longleftrightarrow>
     list_all buffer_ok bufs \<and>
     (\<forall>t \<in> set ids. \<exists>d. block_at h (idle_ptr t) = Some d \<and> idle_data addr d) \<and>
     list_all2 (\<lambda>t b. \<exists>d. block_at h (pending_ptr t) = Some d \<and> holds addr b d) pend bufs \<and>
     (\<forall>(p, u) \<in> set infl. urb_usercontext u = Some p \<and> unat (urb_buffer_length u) < 2 ^ 31 \<and>
        (\<exists>d. block_at h p = Some d \<and> td_urb d = u))"

definition idles_of :: "LinuxEndpoint \<Rightarrow> Idle list" where
  "idles_of ep = (case le_idle_transfer ep of None \<Rightarrow> [] | Some t \<Rightarrow> [t])"

definition ep_inv :: "LinuxEndpoint \<Rightarrow> usb_script lx \<Rightarrow> Buffer list \<Rightarrow> bool" where
  "ep_inv ep s bufs \<longleftrightarrow>
     own_ok (lx_heap s) (idles_of ep) (le_pending ep) (map fst (us_inflight (lx_kern s))) \<and>
     blocks_ok (le_address ep) (lx_heap s) (idles_of ep) (le_pending ep) bufs (us_inflight (lx_kern s))"

definition es_ok :: "ep_sys \<Rightarrow> bool" where
  "es_ok e \<longleftrightarrow> ep_inv (es_ep e) (es_lx e) (es_bufs e)"

lemma block_at_Some: "block_at h p = Some d \<longleftrightarrow> (\<exists>i. th_mem h p = Some i \<and> ti_platform_data i = d)"
  by (auto simp: block_at_def)

section \<open>Buffers in and out of a transfer\<close>

lemma Ret_from_raw_ok: "from_raw_ok Ret"
  by (simp add: from_raw_ok_def)

lemma idle_data_new: "idle_data addr (transfer_data_new addr ty)"
  by (simp add: idle_data_def transfer_data_new_def errno_range_def)

lemma set_buffer_holds:
  assumes "idle_data addr d" "buffer_ok b"
  shows "\<exists>d'. td_set_buffer b d = Ret d' \<and> holds addr b d'"
  using assms
  by (cases "direction_from_address addr")
    (auto simp: td_set_buffer_eq idle_data_def holds_def buffer_ok_def intro!: exI [where x = 0])

lemma take_completion_holds:
  assumes "holds addr b d" "buffer_ok b"
  shows "\<exists>c d'. td_take_completion Ret d = Ret (c, d') \<and> idle_data addr d' \<and>
    returned_for UNIV (direction_from_address addr) b c"
proof -
  obtain st where st: "td_status Ret d = Ret st"
    using td_status_ok [OF Ret_from_raw_ok, of d] assms(1) by (simp add: holds_def)
  show ?thesis
  proof (cases "direction_from_address addr")
    case In
    with assms(1) obtain n where n: "urb_actual_length (td_urb d) = of_nat n" "n < 2 ^ 31"
      "n \<le> buffer_requested_len b" "list_all (\<lambda>x. x \<noteq> None) (take n (urb_buffer (td_urb d)))"
      by (auto simp: holds_def)
    have un: "unat (of_nat n :: u32) = n" using n(2) by (intro unat_of_nat_u32) simp
    show ?thesis
      using assms n In i32_as_usize_of_nat [OF n(2)] un
      by (simp add: td_take_completion_def st Let_def holds_def idle_data_def returned_for_def
          buffer_ok_def buffer_len_def buffer_requested_len_def)
  next
    case Out
    with assms show ?thesis
      by (simp add: td_take_completion_def st Let_def holds_def idle_data_def returned_for_def
          buffer_ok_def buffer_bytes_def)
  qed
qed

lemma errno_range_script: "errno_range (script_errno n)" "errno_range (script_status n)"
proof -
  have lt: "Suc (n mod 4095) < 2 ^ 31" "Suc (n mod 4095) \<le> 4095" by (simp_all add: Suc_leI)
  have "sint (script_errno n) = int (Suc (n mod 4095))"
    using lt by (simp add: script_errno_def sint_uint unsigned_of_nat signed_take_bit_int_eq_self
        take_bit_nat_eq_self del: of_nat_Suc flip: of_nat_take_bit)
  with lt(2) have r: "0 < sint (script_errno n)" "sint (script_errno n) \<le> 4095" by simp_all
  then show "errno_range (script_errno n)" by (simp add: errno_range_def)
  have "sint (- script_errno n) = - sint (script_errno n)"
    unfolding sint_word_ariths using r by (intro signed_take_bit_int_eq_self) auto
  with r show "errno_range (script_status n)" by (simp add: script_status_def errno_range_def)
qed

lemma script_done_holds:
  assumes "holds addr b d" "buffer_ok b" "unat (urb_buffer_length (td_urb d)) < 2 ^ 31"
  shows "holds addr b (d\<lparr>td_urb := script_done x (td_urb d)\<rparr>)"
proof -
  obtain st data sent where x: "x = (st, data, sent)" by (cases x)
  show ?thesis
  proof (cases "direction_from_address addr")
    case In
    let ?n = "length (take (unat (urb_buffer_length (td_urb d))) data)"
    have "?n < 2 ^ 31" "?n \<le> buffer_requested_len b" "?n \<le> length (urb_buffer (td_urb d))"
      using assms In by (auto simp: holds_def buffer_requested_len_def buffer_ok_def)
    with assms(1) In errno_range_script(2) [of st] show ?thesis
      by (auto simp: holds_def script_done_def x urb_done_def list_all_iff intro!: exI [where x = ?n])
  next
    case Out
    have "min sent (unat (urb_buffer_length (td_urb d))) < 2 ^ 31" using assms(3) by simp
    with assms(1) Out errno_range_script(2) [of st] show ?thesis
      by (auto simp: holds_def script_done_def x)
  qed
qed

section \<open>Changing one block\<close>

definition queue_blocks_ok ::
  "u8 \<Rightarrow> TransferData tx_heap \<Rightarrow> Pending list \<Rightarrow> Buffer list \<Rightarrow> (nat \<times> Urb) list \<Rightarrow> bool" where
  "queue_blocks_ok addr h pend bufs infl \<longleftrightarrow>
     list_all buffer_ok bufs \<and>
     list_all2 (\<lambda>t b. \<exists>d. block_at h (pending_ptr t) = Some d \<and> holds addr b d) pend bufs \<and>
     (\<forall>(p, u) \<in> set infl. urb_usercontext u = Some p \<and> unat (urb_buffer_length u) < 2 ^ 31 \<and>
        (\<exists>d. block_at h p = Some d \<and> td_urb d = u))"

lemma blocks_ok_iff:
  "blocks_ok addr h ids pend bufs infl \<longleftrightarrow> queue_blocks_ok addr h pend bufs infl \<and>
    (\<forall>t \<in> set ids. \<exists>d. block_at h (idle_ptr t) = Some d \<and> idle_data addr d)"
  by (auto simp: blocks_ok_def queue_blocks_ok_def)

lemma queue_blocks_frame:
  assumes "queue_blocks_ok addr h pend bufs infl" "\<And>p. p \<noteq> q \<Longrightarrow> block_at h' p = block_at h p"
    "Pending q \<notin> set pend" "q \<notin> fst ` set infl"
  shows "queue_blocks_ok addr h' pend bufs infl"
proof -
  have "pending_ptr t \<noteq> q" if "t \<in> set pend" for t using that assms(3) by (cases t) auto
  then have "list_all2 (\<lambda>t b. \<exists>d. block_at h' (pending_ptr t) = Some d \<and> holds addr b d) pend bufs"
    using assms(1,2) unfolding queue_blocks_ok_def by (auto elim: list_all2_mono simp: list_all2_conv_all_nth)
  moreover have "block_at h' p = block_at h p" if "(p, u) \<in> set infl" for p u
    using assms(2,4) that by force
  ultimately show ?thesis using assms(1) by (fastforce simp: queue_blocks_ok_def)
qed

lemma block_at_store: "block_at (th_store p i h) q = (if q = p then Some (ti_platform_data i) else block_at h q)"
  by (simp add: block_at_def th_mem_store)

text \<open>A transfer for the next submission.\<close>

lemma get_transfer_ok:
  assumes inv: "ep_inv ep s bufs"
  shows "\<exists>t ep1 s1. get_transfer ep s = (t, ep1, s1) \<and> lx_kern s1 = lx_kern s \<and>
    le_address ep1 = le_address ep \<and> le_max_packet_size ep1 = le_max_packet_size ep \<and> le_pending ep1 = le_pending ep \<and> le_idle_transfer ep1 = None \<and>
    own_ok (lx_heap s1) [t] (le_pending ep) (map fst (us_inflight (lx_kern s))) \<and>
    blocks_ok (le_address ep) (lx_heap s1) [t] (le_pending ep) bufs (us_inflight (lx_kern s))"
proof (cases "le_idle_transfer ep")
  case (Some t)
  with inv show ?thesis by (simp add: get_transfer_def ep_inv_def idles_of_def)
next
  case None
  let ?d = "transfer_data_new (le_address ep) (le_ep_type ep)"
  obtain t h where n: "idle_new (le_notify ep) ?d (lx_heap s) = (t, h)" by fastforce
  have own: "own_ok (lx_heap s) [] (le_pending ep) (map fst (us_inflight (lx_kern s)))"
    and blocks: "queue_blocks_ok (le_address ep) (lx_heap s) (le_pending ep) bufs (us_inflight (lx_kern s))"
    using inv None by (simp_all add: ep_inv_def idles_of_def blocks_ok_iff)
  note new = own_new [OF own n]
  have fresh: "Pending (idle_ptr t) \<notin> set (le_pending ep)" "idle_ptr t \<notin> fst ` set (us_inflight (lx_kern s))"
    using new(4) own_queue [OF own, of "Pending (idle_ptr t)"] own_kernel [OF own, of "idle_ptr t"] by auto
  have "queue_blocks_ok (le_address ep) h (le_pending ep) bufs (us_inflight (lx_kern s))"
    by (rule queue_blocks_frame [OF blocks _ fresh]) (simp add: new(2,3) block_at_def th_mem_store)
  moreover have "block_at h (idle_ptr t) = Some ?d" by (simp add: new(2,3) block_at_def th_mem_store)
  ultimately show ?thesis
    using None n new(1) idle_data_new by (simp add: get_transfer_def blocks_ok_iff)
qed

lemma idle_set_buffer_ok:
  assumes own: "own_ok (lx_heap s) [t] pend (map fst infl)"
    and blocks: "blocks_ok addr (lx_heap s) [t] pend bufs infl" and b: "buffer_ok b"
  shows "\<exists>h i. idle_set_buffer b t s = Ret (s\<lparr>lx_heap := h\<rparr>) \<and> own_ok h [t] pend (map fst infl) \<and>
    queue_blocks_ok addr h pend bufs infl \<and> th_mem h (idle_ptr t) = Some i \<and>
    holds addr b (ti_platform_data i)"
proof -
  obtain i where i: "th_mem (lx_heap s) (idle_ptr t) = Some i" "idle_ptr t \<notin> set (map fst infl)"
    "Pending (idle_ptr t) \<notin> set pend" using own_idle [OF own, of t] by (metis list.set_intros(1))
  from blocks i(1) have id: "idle_data addr (ti_platform_data i)" by (auto simp: blocks_ok_iff block_at_def)
  from set_buffer_holds [OF id b] obtain d' where d': "td_set_buffer b (ti_platform_data i) = Ret d'"
    "holds addr b d'" by blast
  let ?h = "th_store (idle_ptr t) (i\<lparr>ti_platform_data := d'\<rparr>) (lx_heap s)"
  have "idle_set_buffer b t s = Ret (s\<lparr>lx_heap := ?h\<rparr>)"
    using i(1) d'(1) by (simp add: idle_set_buffer_def idle_deref_def idle_deref_mut_def th_load_def)
  moreover have "own_ok ?h [t] pend (map fst infl)" by (rule own_store_data [OF own i(1)]) simp
  moreover have "queue_blocks_ok addr ?h pend bufs infl"
  proof -
    have qb: "queue_blocks_ok addr (lx_heap s) pend bufs infl" using blocks by (simp add: blocks_ok_iff)
    show ?thesis
      by (rule queue_blocks_frame [OF qb _ i(3)]) (use i(2) in \<open>auto simp: block_at_store\<close>)
  qed
  ultimately show ?thesis using d'(2) by (intro exI [where x = ?h]) (simp add: th_mem_store)
qed

lemma holds_accepted: "holds addr b (ti_platform_data i) \<Longrightarrow>
    holds addr b (ti_platform_data (accepted_block p i))"
  by (cases "direction_from_address addr") (auto simp: holds_def accepted_block_def)

lemma holds_refused: "holds addr b (ti_platform_data i) \<Longrightarrow> errno_range e \<Longrightarrow>
    holds addr b (ti_platform_data (refused_block p e i))"
  by (cases "direction_from_address addr")
    (auto simp: holds_def refused_block_def list_all_iff intro: exI [where x = 0])

lemma script_submit_cases:
  assumes "usbfs_submit_urb script_kernel p u k = (r, k')"
  shows "(r = None \<and> us_inflight k' = us_inflight k @ [(p, u)] \<and> unat (urb_buffer_length u) < 2 ^ 31) \<or>
    (\<exists>e. r = Some e \<and> errno_range e \<and> us_inflight k' = us_inflight k)"
proof (cases "0x80000000 \<le> urb_buffer_length u")
  case True
  then have "r = Some EINVAL" "k' = k"
    using assms by (simp_all add: usbfs_submit_urb_def ioctl_unit_def script_kernel_def)
  moreover have "errno_range EINVAL" by (simp add: errno_range_def EINVAL_def)
  ultimately show ?thesis by blast
next
  case False
  then have small: "unat (urb_buffer_length u) < 2 ^ 31" by (simp add: word_le_nat_alt)
  from False have eq: "usbfs_submit_urb script_kernel p u k =
      (case us_submits k of
         Some e # r \<Rightarrow> (Some (script_errno e), k\<lparr>us_submits := r\<rparr>)
       | _ \<Rightarrow> (None, script_accept p u k))"
    by (simp add: usbfs_submit_urb_def ioctl_unit_def script_kernel_def split: list.splits option.splits)
  have acc: "us_inflight (script_accept p u k) = us_inflight k @ [(p, u)]" by (simp add: script_accept_def)
  show ?thesis
  proof (cases "us_submits k")
    case Nil
    with eq assms acc small show ?thesis by auto
  next
    case (Cons x xs)
    with eq assms acc small errno_range_script(1) show ?thesis by (cases x) auto
  qed
qed

lemma own_ok_kernel_order:
  "own_ok h ids q (p # ks) \<Longrightarrow> own_ok h ids q (ks @ [p])"
  by (auto simp: own_ok_def sys_ok_def expected_state_def)

lemma es_submit_ok:
  assumes ok: "es_ok e" and b: "buffer_ok b"
  shows "\<exists>e'. es_submit b e = Ret e' \<and> es_ok e' \<and> es_dir e' = es_dir e \<and>
    es_bufs e' = es_bufs e @ [b] \<and> es_past e' = es_past e \<and>
    le_max_packet_size (es_ep e') = le_max_packet_size (es_ep e)"
proof -
  let ?ep = "es_ep e" and ?s = "es_lx e" and ?addr = "le_address (es_ep e)"
  let ?infl = "us_inflight (lx_kern (es_lx e))" and ?pend = "le_pending (es_ep e)"
  from get_transfer_ok [OF ok [unfolded es_ok_def]] obtain t ep1 s1 where
    g: "get_transfer ?ep ?s = (t, ep1, s1)" "lx_kern s1 = lx_kern ?s" "le_address ep1 = ?addr"
      "le_pending ep1 = ?pend" "le_idle_transfer ep1 = None"
      "own_ok (lx_heap s1) [t] ?pend (map fst ?infl)"
      "blocks_ok ?addr (lx_heap s1) [t] ?pend (es_bufs e) ?infl" "le_max_packet_size ep1 = le_max_packet_size ?ep" by blast
  from idle_set_buffer_ok [OF g(6,7) b] obtain h2 i where
    i: "idle_set_buffer b t s1 = Ret (s1\<lparr>lx_heap := h2\<rparr>)" "own_ok h2 [t] ?pend (map fst ?infl)"
      "queue_blocks_ok ?addr h2 ?pend (es_bufs e) ?infl" "th_mem h2 (idle_ptr t) = Some i"
      "holds ?addr b (ti_platform_data i)" by blast
  let ?p = "idle_ptr t" and ?s2 = "s1\<lparr>lx_heap := h2\<rparr>"
  obtain r k where r: "submit_result script_kernel ?p i (lx_kern ?s2) = (r, k)" by fastforce
  have own2: "own_ok (lx_heap ?s2) [t] ?pend (map fst ?infl)" and t2: "t \<in> set [t]"
    and i2: "th_mem (lx_heap ?s2) ?p = Some i" using i(2,4) by simp_all
  from device_submit_spec [OF own2 t2 i2 r] obtain w h' where
    d: "device_submit script_kernel t ?s2 = Ret (Pending ?p, w, ?s2\<lparr>lx_heap := h', lx_kern := k\<rparr>)"
      "\<forall>p. p \<noteq> ?p \<longrightarrow> th_mem h' p = th_mem (lx_heap ?s2) p" and
    res: "case r of
       None \<Rightarrow> own_ok h' (remove1 t [t]) (?pend @ [Pending ?p]) (?p # map fst ?infl) \<and>
         th_mem h' ?p = Some (accepted_block ?p i)
     | Some e \<Rightarrow> own_ok h' (remove1 t [t]) (?pend @ [Pending ?p]) (map fst ?infl) \<and>
         th_mem h' ?p = Some (refused_block ?p e i)" by blast
  let ?ep' = "ep1\<lparr>le_pending := ?pend @ [Pending ?p]\<rparr>"
  let ?e' = "e\<lparr>es_ep := ?ep', es_lx := ?s2\<lparr>lx_heap := h', lx_kern := k\<rparr>, es_bufs := es_bufs e @ [b]\<rparr>"
  have st: "es_submit b e = Ret ?e'"
    by (simp add: es_submit_def linux_endpoint_submit_def g(1,4) i(1) d(1))
  obtain np: "Pending ?p \<notin> set ?pend" "?p \<notin> fst ` set ?infl"
    using own_idle [OF i(2), of t] by auto
  have rest: "queue_blocks_ok ?addr h' ?pend (es_bufs e) ?infl"
    using d(2) by (intro queue_blocks_frame [OF i(3) _ np]) (simp add: block_at_def)
  have sub: "usbfs_submit_urb script_kernel ?p (td_urb (ti_platform_data (accepted_block ?p i))) (lx_kern ?s) = (r, k)"
    using r g(2) by (simp add: submit_result_def)
  from script_submit_cases [OF sub] have "ep_inv ?ep' (?s2\<lparr>lx_heap := h', lx_kern := k\<rparr>) (es_bufs e @ [b])"
  proof
    let ?u = "td_urb (ti_platform_data (accepted_block ?p i))"
    assume n: "r = None \<and> us_inflight k = ?infl @ [(?p, ?u)] \<and> unat (urb_buffer_length ?u) < 2 ^ 31"
    with res have o: "own_ok h' [] (?pend @ [Pending ?p]) (?p # map fst ?infl)"
      and m: "block_at h' ?p = Some (ti_platform_data (accepted_block ?p i))" by (auto simp: block_at_def)
    have "urb_usercontext ?u = Some ?p" by (simp add: accepted_block_def)
    with rest m b n holds_accepted [OF i(5), of ?p] have
      "queue_blocks_ok ?addr h' (?pend @ [Pending ?p]) (es_bufs e @ [b]) (us_inflight k)"
      by (auto simp: queue_blocks_ok_def list_all2_appendI)
    with own_ok_kernel_order [OF o] n g(3,5) show ?thesis
      by (simp add: ep_inv_def idles_of_def blocks_ok_iff)
  next
    assume "\<exists>err. r = Some err \<and> errno_range err \<and> us_inflight k = ?infl"
    then obtain err where n: "r = Some err" "errno_range err" "us_inflight k = ?infl" by blast
    with res have o: "own_ok h' [] (?pend @ [Pending ?p]) (map fst ?infl)"
      and m: "block_at h' ?p = Some (ti_platform_data (refused_block ?p err i))" by (auto simp: block_at_def)
    with rest b n holds_refused [OF i(5) n(2), of ?p] have
      "queue_blocks_ok ?addr h' (?pend @ [Pending ?p]) (es_bufs e @ [b]) (us_inflight k)"
      by (auto simp: queue_blocks_ok_def list_all2_appendI)
    with o n(3) g(3,5) show ?thesis by (simp add: ep_inv_def idles_of_def blocks_ok_iff)
  qed
  with st g(3,8) show ?thesis by (simp add: es_ok_def es_dir_def)
qed

lemma EINVAL_range: "errno_range EINVAL"
  by (simp add: errno_range_def EINVAL_def)

lemma es_submit_err_ok:
  assumes ok: "es_ok e" and b: "buffer_ok b"
  shows "\<exists>e'. es_submit_err b InvalidArgument e = Ret e' \<and> es_ok e' \<and> es_dir e' = es_dir e \<and>
    es_bufs e' = es_bufs e @ [b] \<and> es_past e' = es_past e \<and>
    le_max_packet_size (es_ep e') = le_max_packet_size (es_ep e)"
proof -
  let ?ep = "es_ep e" and ?s = "es_lx e" and ?addr = "le_address (es_ep e)"
  let ?infl = "us_inflight (lx_kern (es_lx e))" and ?pend = "le_pending (es_ep e)"
  from get_transfer_ok [OF ok [unfolded es_ok_def]] obtain t ep1 s1 where
    g: "get_transfer ?ep ?s = (t, ep1, s1)" "lx_kern s1 = lx_kern ?s" "le_address ep1 = ?addr"
      "le_pending ep1 = ?pend" "le_idle_transfer ep1 = None"
      "own_ok (lx_heap s1) [t] ?pend (map fst ?infl)"
      "blocks_ok ?addr (lx_heap s1) [t] ?pend (es_bufs e) ?infl" "le_max_packet_size ep1 = le_max_packet_size ?ep" by blast
  from idle_set_buffer_ok [OF g(6,7) b] obtain h2 i where
    i: "idle_set_buffer b t s1 = Ret (s1\<lparr>lx_heap := h2\<rparr>)" "own_ok h2 [t] ?pend (map fst ?infl)"
      "queue_blocks_ok ?addr h2 ?pend (es_bufs e) ?infl" "th_mem h2 (idle_ptr t) = Some i"
      "holds ?addr b (ti_platform_data i)" by blast
  let ?p = "idle_ptr t"
  let ?d = "(ti_platform_data i)\<lparr>td_urb := (td_urb (ti_platform_data i))\<lparr>urb_status := EINVAL\<rparr>\<rparr>"
  let ?h = "th_store ?p (i\<lparr>ti_platform_data := ?d\<rparr>) h2"
  let ?ep' = "ep1\<lparr>le_pending := ?pend @ [Pending ?p]\<rparr>"
  let ?e' = "e\<lparr>es_ep := ?ep', es_lx := s1\<lparr>lx_heap := ?h\<rparr>, es_bufs := es_bufs e @ [b]\<rparr>"
  have st: "es_submit_err b InvalidArgument e = Ret ?e'"
    using i(4) by (simp add: es_submit_err_def linux_endpoint_submit_err_def g(1,4) i(1) idle_deref_mut_def
        th_load_def simulate_complete_def)
  obtain np: "Pending ?p \<notin> set ?pend" "?p \<notin> fst ` set ?infl" using own_idle [OF i(2), of t] by auto
  have rest: "queue_blocks_ok ?addr ?h ?pend (es_bufs e) ?infl"
    by (rule queue_blocks_frame [OF i(3) _ np]) (simp add: block_at_store)
  have "holds ?addr b ?d"
    using i(5) EINVAL_range by (cases "direction_from_address ?addr") (auto simp: holds_def)
  with rest b have "queue_blocks_ok ?addr ?h (?pend @ [Pending ?p]) (es_bufs e @ [b]) ?infl"
    by (auto simp: queue_blocks_ok_def list_all2_appendI block_at_store)
  moreover have "own_ok ?h [t] ?pend (map fst ?infl)" by (rule own_store_data [OF i(2,4)]) simp
  then have "own_ok ?h [] (?pend @ [Pending ?p]) (map fst ?infl)"
    using own_simulate [of ?h "[t]" ?pend "map fst ?infl" t] by (simp add: simulate_complete_def)
  ultimately show ?thesis
    using st g(2,3,5,8) by (simp add: es_ok_def ep_inv_def idles_of_def blocks_ok_iff es_dir_def)
qed

section \<open>Completions\<close>

lemma remove1_nth: "distinct xs \<Longrightarrow> j < length xs \<Longrightarrow> remove1 (xs ! j) xs = take j xs @ drop (Suc j) xs"
proof (induction xs arbitrary: j)
  case (Cons x xs)
  then show ?case by (cases j) auto
qed simp

lemma script_done_usercontext [simp]:
  "urb_usercontext (script_done x u) = urb_usercontext u"
  "urb_buffer_length (script_done x u) = urb_buffer_length u"
  by (auto simp: script_done_def urb_done_def split: prod.splits Direction.splits)

lemma handle_events_eq:
  assumes "usbfs_reap_urb_ndelay R (lx_kern s) = (Inr (p, u), k)" "urb_usercontext u = Some p"
    "th_mem (lx_heap s) p = Some i"
    "notify_completion p (th_store p (i\<lparr>ti_platform_data := (ti_platform_data i)\<lparr>td_urb := u\<rparr>\<rparr>) (lx_heap s)) =
      Ret (w, h')"
  shows "\<exists>dev. handle_events R now s = Ret (False, w, s\<lparr>lx_dev := dev, lx_heap := h', lx_kern := k\<rparr>)"
  unfolding handle_events_def
  by (simp add: assms(1-3) urb_modify_eq th_load_def th_mem_store Let_def) (simp add: assms(4), blast)

lemma events_ok:
  assumes inv: "ep_inv ep s bufs"
  shows "\<exists>u w s'. handle_events script_reaper now s = Ret (u, w, s') \<and> ep_inv ep s' bufs"
proof -
  let ?k = "lx_kern s" and ?infl = "us_inflight (lx_kern s)" and ?h = "lx_heap s"
  show ?thesis
  proof (cases "us_reaps ?k = [] \<or> ?infl = []")
    case True
    then have "\<exists>k. script_reaper ?k = (Inl EAGAIN, k) \<and> us_inflight k = ?infl"
      by (auto simp: script_reaper_def split: list.splits)
    with inv show ?thesis
      by (auto simp: handle_events_def usbfs_reap_urb_ndelay_def ep_inv_def)
  next
    case False
    then obtain ix x r where rr: "us_reaps ?k = (ix, x) # r" and ne: "?infl \<noteq> []"
      by (cases "us_reaps ?k") auto
    define j where "j = ix mod length ?infl"
    have j: "j < length ?infl" using ne by (simp add: j_def)
    obtain p u where pu: "?infl ! j = (p, u)" by fastforce
    let ?infl' = "take j ?infl @ drop (Suc j) ?infl"
    let ?k' = "?k\<lparr>us_inflight := ?infl', us_reaps := r\<rparr>"
    have R: "script_reaper ?k = (Inr (p, script_done x u), ?k')"
      using rr ne pu by (simp add: script_reaper_def j_def Let_def)
    have own: "own_ok ?h (idles_of ep) (le_pending ep) (map fst ?infl)"
      and blk: "blocks_ok (le_address ep) ?h (idles_of ep) (le_pending ep) bufs ?infl"
      using inv by (simp_all add: ep_inv_def)
    have mem: "(p, u) \<in> set ?infl" using j pu by (metis nth_mem)
    then have pk: "p \<in> set (map fst ?infl)" by force
    from blk mem obtain d where d: "block_at ?h p = Some d" "td_urb d = u" "urb_usercontext u = Some p"
      "unat (urb_buffer_length u) < 2 ^ 31" by (fastforce simp: blocks_ok_def)
    then obtain i where i: "th_mem ?h p = Some i" "ti_platform_data i = d" by (auto simp: block_at_Some)
    let ?d = "d\<lparr>td_urb := script_done x u\<rparr>"
    let ?h1 = "th_store p (i\<lparr>ti_platform_data := ?d\<rparr>) ?h"
    have own1: "own_ok ?h1 (idles_of ep) (le_pending ep) (map fst ?infl)"
      by (rule own_store_data [OF own i(1)]) simp
    from own_complete [OF own1 pk] obtain w h' where
      c: "notify_completion p ?h1 = Ret (w, h')"
        "own_ok h' (idles_of ep) (le_pending ep) (remove1 p (map fst ?infl))"
        "\<forall>r. r \<noteq> p \<longrightarrow> th_mem h' r = th_mem ?h1 r"
        "if Pending p \<in> set (le_pending ep)
         then \<exists>i. th_mem ?h1 p = Some i \<and> th_mem h' p = Some (i\<lparr>ti_state := STATE_IDLE\<rparr>)
         else th_mem h' p = None" by blast
    have dist: "distinct (map fst ?infl)" by (rule own_distinct(3) [OF own])
    have ks: "map fst ?infl' = remove1 p (map fst ?infl)"
      using remove1_nth [OF dist, of j] j pu by (simp add: take_map drop_map)
    have other: "block_at h' q = block_at ?h q" if "q \<noteq> p" for q
      using c(3) that by (simp add: block_at_def th_mem_store)
    have this_: "Pending p \<in> set (le_pending ep) \<Longrightarrow> block_at h' p = Some ?d"
      using c(4) by (auto simp: block_at_def th_mem_store split: if_splits)
    have q: "list_all2 (\<lambda>t b. \<exists>d. block_at h' (pending_ptr t) = Some d \<and> holds (le_address ep) b d)
        (le_pending ep) bufs"
    proof (rule list_all2_all_nthI)
      show "length (le_pending ep) = length bufs"
        using blk by (auto simp: blocks_ok_def dest: list_all2_lengthD)
      fix n assume n: "n < length (le_pending ep)"
      let ?t = "le_pending ep ! n"
      from blk n obtain d0 where d0: "block_at ?h (pending_ptr ?t) = Some d0" "holds (le_address ep) (bufs ! n) d0"
        "buffer_ok (bufs ! n)"
        by (auto simp: blocks_ok_def list_all2_conv_all_nth list_all_length)
      show "\<exists>d. block_at h' (pending_ptr ?t) = Some d \<and> holds (le_address ep) (bufs ! n) d"
      proof (cases "pending_ptr ?t = p")
        case True
        then have "Pending p \<in> set (le_pending ep)" using n by (metis Pending.collapse nth_mem)
        with True d0 d this_ script_done_holds [of "le_address ep" "bufs ! n" d x] show ?thesis by auto
      qed (use d0 other in auto)
    qed
    have inf: "urb_usercontext v = Some q \<and> unat (urb_buffer_length v) < 2 ^ 31 \<and>
        (\<exists>d. block_at h' q = Some d \<and> td_urb d = v)" if "(q, v) \<in> set ?infl'" for q v
    proof -
      have "q \<in> set (remove1 p (map fst ?infl))" using that unfolding ks [symmetric] by force
      then have "q \<noteq> p" using dist by auto
      moreover have "(q, v) \<in> set ?infl" using that by (auto dest: in_set_takeD in_set_dropD)
      ultimately show ?thesis using blk other by (fastforce simp: blocks_ok_def)
    qed
    have idl: "\<exists>d. block_at h' (idle_ptr t) = Some d \<and> idle_data (le_address ep) d" if "t \<in> set (idles_of ep)" for t
    proof -
      have "idle_ptr t \<noteq> p" using own_idle [OF own that] pk by metis
      with blk that other show ?thesis by (auto simp: blocks_ok_def)
    qed
    have "blocks_ok (le_address ep) h' (idles_of ep) (le_pending ep) bufs ?infl'"
      using q inf idl blk by (auto simp: blocks_ok_def)
    moreover obtain dev where "handle_events script_reaper now s =
        Ret (False, w, s\<lparr>lx_dev := dev, lx_heap := h', lx_kern := ?k'\<rparr>)"
      using handle_events_eq [of script_reaper s p "script_done x u" ?k' i w h' now] R d(3) i c(1)
      by (auto simp: usbfs_reap_urb_ndelay_def)
    ultimately show ?thesis using c(2) ks by (auto simp: ep_inv_def)
  qed
qed

text \<open>The front of the queue, if it is complete; the transfer that was kept is freed.\<close>

lemma endpoint_check_ok:
  assumes inv: "ep_inv ep s (b # bs)"
  shows "\<exists>r ep' s'. endpoint_check Ret ep s = Ret (r, ep', s') \<and> le_address ep' = le_address ep \<and>
    le_max_packet_size ep' = le_max_packet_size ep \<and>
    (case r of
       None \<Rightarrow> ep_inv ep' s' (b # bs)
     | Some c \<Rightarrow> ep_inv ep' s' bs \<and> returned_for UNIV (direction_from_address (le_address ep)) b c)"
proof -
  let ?h = "lx_heap s" and ?infl = "us_inflight (lx_kern s)" and ?addr = "le_address ep"
  have own: "own_ok ?h (idles_of ep) (le_pending ep) (map fst ?infl)"
    and qb: "queue_blocks_ok ?addr ?h (le_pending ep) (b # bs) ?infl"
    using inv by (simp_all add: ep_inv_def blocks_ok_iff)
  from qb obtain t q where tq: "le_pending ep = t # q"
    by (auto simp: queue_blocks_ok_def list_all2_Cons2)
  note own = own [unfolded tq] and qb = qb [unfolded tq]
  let ?p = "pending_ptr t"
  show ?thesis
  proof (cases "?p \<in> set (map fst ?infl)")
    case True
    with own_take(1) [OF own] inv tq show ?thesis
      by (simp add: endpoint_check_def ep_inv_def idles_of_def)
  next
    case False
    from qb obtain d where d: "block_at ?h ?p = Some d" "holds ?addr b d" "buffer_ok b"
      by (auto simp: queue_blocks_ok_def)
    then obtain i where i: "th_mem ?h ?p = Some i" "ti_platform_data i = d" by (auto simp: block_at_Some)
    from take_completion_holds [OF d(2,3)] obtain c d' where
      c: "td_take_completion Ret d = Ret (c, d')" "idle_data ?addr d'"
        "returned_for UNIV (direction_from_address ?addr) b c" by blast
    let ?h1 = "th_store ?p (i\<lparr>ti_platform_data := d'\<rparr>) ?h"
    have o1: "own_ok ?h1 (Idle ?p # idles_of ep) q (map fst ?infl)"
      by (rule own_store_data [OF own_take(2) [OF own False] i(1)]) simp
    have nq: "Pending ?p \<notin> set q" using own_distinct(2) [OF own] by (cases t) simp
    have qb1: "queue_blocks_ok ?addr ?h1 q bs ?infl"
    proof (rule queue_blocks_frame)
      show "queue_blocks_ok ?addr ?h q bs ?infl" using qb by (simp add: queue_blocks_ok_def)
    qed (use nq False in \<open>auto simp: block_at_store\<close>)
    have b1: "block_at ?h1 ?p = Some d'" by (simp add: block_at_store)
    have "\<exists>h'. (case le_idle_transfer ep of None \<Rightarrow> Ret ?h1 | Some old \<Rightarrow> idle_drop old ?h1) = Ret h' \<and>
        own_ok h' [Idle ?p] q (map fst ?infl) \<and> queue_blocks_ok ?addr h' q bs ?infl \<and> block_at h' ?p = Some d'"
    proof (cases "le_idle_transfer ep")
      case None
      with o1 qb1 b1 show ?thesis by (simp add: idles_of_def)
    next
      case (Some old)
      let ?h2 = "?h1\<lparr>th_mem := (th_mem ?h1)(idle_ptr old := None)\<rparr>"
      have o: "own_ok ?h1 [Idle ?p, old] q (map fst ?infl)" using o1 Some by (simp add: idles_of_def)
      have ne: "old \<noteq> Idle ?p" using own_distinct(1) [OF o] by auto
      then have np: "idle_ptr old \<noteq> ?p" by (cases old) auto
      have mem: "old \<in> set [Idle ?p, old]" by simp
      have "own_ok ?h2 [Idle ?p] q (map fst ?infl)" using own_drop_idle(2) [OF o mem] ne by simp
      moreover have "idle_drop old ?h1 = Ret ?h2" by (rule own_drop_idle(1) [OF o mem])
      moreover obtain "idle_ptr old \<notin> set (map fst ?infl)" "Pending (idle_ptr old) \<notin> set q"
        using own_idle [OF o mem] by metis
      then have "queue_blocks_ok ?addr ?h2 q bs ?infl"
        by (intro queue_blocks_frame [OF qb1, of "idle_ptr old"]) (auto simp: block_at_def)
      ultimately show ?thesis using Some b1 np by (auto simp: block_at_def)
    qed
    then obtain h' where h': "(case le_idle_transfer ep of None \<Rightarrow> Ret ?h1 | Some old \<Rightarrow> idle_drop old ?h1) = Ret h'"
      "own_ok h' [Idle ?p] q (map fst ?infl)" "queue_blocks_ok ?addr h' q bs ?infl" "block_at h' ?p = Some d'"
      by blast
    let ?ep' = "ep\<lparr>le_pending := q, le_idle_transfer := Some (Idle ?p)\<rparr>"
    have "endpoint_check Ret ep s = Ret (Some c, ?ep', s\<lparr>lx_heap := h'\<rparr>)"
      using own_take(1) [OF own] False i c(1) h'(1)
      by (simp add: endpoint_check_def tq idle_deref_def idle_deref_mut_def th_load_def)
    moreover have "ep_inv ?ep' (s\<lparr>lx_heap := h'\<rparr>) bs"
      using h' c(2) by (simp add: ep_inv_def idles_of_def blocks_ok_iff)
    ultimately show ?thesis using c(3) by auto
  qed
qed

lemma endpoint_check_empty: "ep_inv ep s [] \<Longrightarrow> endpoint_check Ret ep s = Panic"
  by (simp add: endpoint_check_def ep_inv_def blocks_ok_def take_completed_from_queue_def)

lemma linux_wait_ok:
  assumes "ep_inv ep s (b # bs)"
  shows "\<exists>r ep' s'. linux_wait_next_complete script_reaper Ret nows ep s = Ret (r, ep', s') \<and>
    le_address ep' = le_address ep \<and> le_max_packet_size ep' = le_max_packet_size ep \<and>
    (case r of
       None \<Rightarrow> ep_inv ep' s' (b # bs)
     | Some c \<Rightarrow> ep_inv ep' s' bs \<and> returned_for UNIV (direction_from_address (le_address ep)) b c)"
  using assms
proof (induction nows arbitrary: ep s)
  case Nil
  then show ?case by (simp add: endpoint_check_ok)
next
  case (Cons now nows)
  from endpoint_check_ok [OF Cons.prems] obtain r ep1 s1 where
    c: "endpoint_check Ret ep s = Ret (r, ep1, s1)" "le_address ep1 = le_address ep"
      "le_max_packet_size ep1 = le_max_packet_size ep"
      "case r of
         None \<Rightarrow> ep_inv ep1 s1 (b # bs)
       | Some c \<Rightarrow> ep_inv ep1 s1 bs \<and> returned_for UNIV (direction_from_address (le_address ep)) b c" by blast
  show ?case
  proof (cases r)
    case None
    with c(4) have "ep_inv ep1 s1 (b # bs)" by simp
    from events_ok [OF this, of now] obtain u w s2 where
      e: "handle_events script_reaper now s1 = Ret (u, w, s2)" "ep_inv ep1 s2 (b # bs)" by blast
    from Cons.IH [OF e(2)] obtain r2 ep2 s3 where
      w: "linux_wait_next_complete script_reaper Ret nows ep1 s2 = Ret (r2, ep2, s3)"
        "le_address ep2 = le_address ep1" "le_max_packet_size ep2 = le_max_packet_size ep1"
        "case r2 of
           None \<Rightarrow> ep_inv ep2 s3 (b # bs)
         | Some c \<Rightarrow> ep_inv ep2 s3 bs \<and> returned_for UNIV (direction_from_address (le_address ep1)) b c" by blast
    show ?thesis
      using c(1) None e(1) w by (auto simp: c(2,3) split: option.splits)
  qed (use c in auto)
qed

lemma es_completed_ok:
  assumes "x = Ret (r, ep', s')" "le_address ep' = le_address (es_ep e)"
    "case r of
       None \<Rightarrow> ep_inv ep' s' (b # bs)
     | Some c \<Rightarrow> ep_inv ep' s' bs \<and> returned_for UNIV (es_dir e) b c"
    "le_max_packet_size ep' = le_max_packet_size (es_ep e)" "es_bufs e = b # bs"
  shows "\<exists>r e'. omap (es_completed e) x = Ret (r, e') \<and> es_ok e' \<and> es_dir e' = es_dir e \<and>
    le_max_packet_size (es_ep e') = le_max_packet_size (es_ep e) \<and>
    (case r of
       None \<Rightarrow> es_bufs e' = es_bufs e \<and> es_past e' = es_past e
     | Some c \<Rightarrow> es_bufs e' = bs \<and> es_past e' = es_past e @ [c] \<and> returned_for UNIV (es_dir e) b c)"
  using assms by (cases r) (auto simp: es_completed_def es_ok_def es_dir_def)

lemma es_wait_ok:
  assumes ok: "es_ok e" and bufs: "es_bufs e = b # bs"
  shows "\<exists>r e'. es_wait n e = Ret (r, e') \<and> es_ok e' \<and> es_dir e' = es_dir e \<and>
    le_max_packet_size (es_ep e') = le_max_packet_size (es_ep e) \<and>
    (case r of
       None \<Rightarrow> es_bufs e' = es_bufs e \<and> es_past e' = es_past e
     | Some c \<Rightarrow> es_bufs e' = bs \<and> es_past e' = es_past e @ [c] \<and> returned_for UNIV (es_dir e) b c)"
proof -
  from ok bufs have "ep_inv (es_ep e) (es_lx e) (b # bs)" by (simp add: es_ok_def)
  from linux_wait_ok [OF this, of "es_moments e"] obtain r ep' s' where
    w: "linux_wait_next_complete script_reaper Ret (es_moments e) (es_ep e) (es_lx e) = Ret (r, ep', s')"
      "le_address ep' = le_address (es_ep e)" "le_max_packet_size ep' = le_max_packet_size (es_ep e)"
      "case r of
         None \<Rightarrow> ep_inv ep' s' (b # bs)
       | Some c \<Rightarrow> ep_inv ep' s' bs \<and> returned_for UNIV (direction_from_address (le_address (es_ep e))) b c" by blast
  show ?thesis unfolding es_wait_def
    by (rule es_completed_ok [OF w(1,2) _ w(3) bufs]) (use w(4) in \<open>simp add: es_dir_def cong: option.case_cong\<close>)
qed

lemma es_events_ok: "ep_inv ep s bufs \<Longrightarrow> \<exists>s'. es_events nows s = Ret s' \<and> ep_inv ep s' bufs"
proof (induction nows arbitrary: s)
  case (Cons now nows)
  from events_ok [OF Cons.prems, of now] obtain u w s1 where
    "handle_events script_reaper now s = Ret (u, w, s1)" "ep_inv ep s1 bufs" by blast
  with Cons.IH [of s1] show ?case by auto
qed simp

lemma block_at_subscribe [simp]: "block_at (notify_subscribe n w h) p = block_at h p"
  by (simp add: block_at_def notify_subscribe_def)

lemma ep_inv_subscribe:
  "ep_inv ep s bufs \<Longrightarrow> ep_inv ep (s\<lparr>lx_heap := notify_subscribe n w (lx_heap s)\<rparr>) bufs"
  by (simp add: ep_inv_def own_subscribe blocks_ok_def)

lemma es_poll_ok:
  assumes ok: "es_ok e" and bufs: "es_bufs e = b # bs"
  shows "\<exists>r e'. es_poll n e = Ret (r, e') \<and> es_ok e' \<and> es_dir e' = es_dir e \<and>
    le_max_packet_size (es_ep e') = le_max_packet_size (es_ep e) \<and>
    (case r of
       None \<Rightarrow> es_bufs e' = es_bufs e \<and> es_past e' = es_past e
     | Some c \<Rightarrow> es_bufs e' = bs \<and> es_past e' = es_past e @ [c] \<and> returned_for UNIV (es_dir e) b c)"
proof -
  from ok bufs have "ep_inv (es_ep e) (es_lx e) (b # bs)" by (simp add: es_ok_def)
  from es_events_ok [OF this] obtain s where s: "es_events (es_moments e) (es_lx e) = Ret s"
    "ep_inv (es_ep e) s (b # bs)" by blast
  from endpoint_check_ok [OF ep_inv_subscribe [OF s(2), of "le_notify (es_ep e)" n]] obtain r ep' s' where
    w: "linux_poll_next_complete Ret n (es_ep e) s = Ret (r, ep', s')"
      "le_address ep' = le_address (es_ep e)" "le_max_packet_size ep' = le_max_packet_size (es_ep e)"
      "case r of
         None \<Rightarrow> ep_inv ep' s' (b # bs)
       | Some c \<Rightarrow> ep_inv ep' s' bs \<and> returned_for UNIV (direction_from_address (le_address (es_ep e))) b c"
    unfolding linux_poll_next_complete_def by blast
  show ?thesis unfolding es_poll_def s(1) obind.simps
    by (rule es_completed_ok [OF w(1,2) _ w(3) bufs]) (use w(4) in \<open>simp add: es_dir_def cong: option.case_cong\<close>)
qed

lemma es_wait_empty: "es_ok e \<Longrightarrow> es_bufs e = [] \<Longrightarrow> es_wait n e = Panic"
  by (cases "es_moments e") (simp_all add: es_wait_def es_ok_def endpoint_check_empty)

lemma es_poll_empty:
  assumes "es_ok e" "es_bufs e = []"
  shows "es_poll n e = Panic"
proof -
  from assms have "ep_inv (es_ep e) (es_lx e) []" by (simp add: es_ok_def)
  from es_events_ok [OF this] obtain s where "es_events (es_moments e) (es_lx e) = Ret s"
    "ep_inv (es_ep e) s []" by blast
  then show ?thesis
    using endpoint_check_empty [OF ep_inv_subscribe]
    by (simp add: es_poll_def linux_poll_next_complete_def)
qed

text \<open>Cancelling asks the kernel, for the newest transfer first, and changes nothing else.\<close>

definition lx_discarded :: "nat list \<Rightarrow> usb_script lx \<Rightarrow> usb_script lx" where
  "lx_discarded ps s = s\<lparr>lx_kern := (lx_kern s)\<lparr>us_discards := ps @ us_discards (lx_kern s)\<rparr>\<rparr>"

lemma ep_inv_discarded: "ep_inv ep (lx_discarded ps s) bufs = ep_inv ep s bufs"
  by (simp add: ep_inv_def lx_discarded_def)

lemma cancel_each_ok:
  "ep_inv ep s bufs \<Longrightarrow> set ts \<subseteq> set (le_pending ep) \<Longrightarrow>
    cancel_each script_kernel ts s = Ret (lx_discarded (rev (map pending_ptr ts)) s)"
proof (induction ts arbitrary: s)
  case (Cons t ts)
  from Cons.prems have own: "own_ok (lx_heap s) (idles_of ep) (le_pending ep) (map fst (us_inflight (lx_kern s)))"
    and t: "t \<in> set (le_pending ep)" by (simp_all add: ep_inv_def)
  obtain i where "th_mem (lx_heap s) (pending_ptr t) = Some i" using own_queue [OF own t] by metis
  then have d: "device_cancel script_kernel t s = Ret (lx_discarded [pending_ptr t] s)"
    by (simp add: device_cancel_def th_load_def usbfs_discard_urb_def ioctl_unit_def script_kernel_def
        lx_discarded_def)
  have "cancel_each script_kernel ts (lx_discarded [pending_ptr t] s) =
      Ret (lx_discarded (rev (map pending_ptr ts)) (lx_discarded [pending_ptr t] s))"
    using Cons.prems by (intro Cons.IH) (simp_all add: ep_inv_discarded)
  with d show ?case by (simp add: lx_discarded_def)
qed (simp add: lx_discarded_def)

lemma endpoint_cancel_all_eq:
  assumes "es_ok e"
  shows "endpoint_cancel_all script_kernel (es_ep e) (es_lx e) =
    Ret (lx_discarded (map pending_ptr (le_pending (es_ep e))) (es_lx e))"
  using cancel_each_ok [OF assms [unfolded es_ok_def], of "rev (le_pending (es_ep e))"]
  by (simp add: endpoint_cancel_all_def rev_map)

lemma es_cancel_all_ok:
  assumes "es_ok e"
  shows "\<exists>e'. es_cancel_all e = Ret e' \<and> es_ok e' \<and> es_dir e' = es_dir e \<and> es_bufs e' = es_bufs e \<and>
    es_past e' = es_past e \<and> es_ep e' = es_ep e"
  using assms by (simp add: es_cancel_all_def endpoint_cancel_all_eq es_ok_def es_dir_def ep_inv_discarded)

section \<open>The endpoint is a queue\<close>

definition es_good :: "Direction \<Rightarrow> ep_sys \<Rightarrow> bool" where
  "es_good dir e \<longleftrightarrow> es_ok e \<and> es_dir e = dir \<and> 0 < le_max_packet_size (es_ep e)"

lemma script_allocate_ok:
  assumes "n < 2 ^ 32"
  shows "\<exists>r. linux_allocate (script_mmap m) n = Ret r \<and>
    (case r of Inl err \<Rightarrow> True | Inr b \<Rightarrow> fresh_buffer n b \<and> buffer_capacity b = n)"
proof (cases m)
  case True
  with buffer_mmap_ok [OF assms, of "script_mmap m" "replicate n (Some 0)"] show ?thesis
    by (auto simp: linux_allocate_def script_mmap_def fresh_buffer_def)
next
  case False
  with assms show ?thesis by (simp add: linux_allocate_def buffer_mmap_def script_mmap_def try_u32_def)
qed

interpretation linux: endpoint_backend UNIV linux_backend dir "es_good dir" es_bufs es_past
proof (unfold_locales, goal_cases)
  case (1 e)
  then show ?case
    by (auto simp: es_good_def es_ok_def ep_inv_def blocks_ok_def linux_endpoint_pending_def
        dest: list_all2_lengthD)
next
  case (2 e)
  then show ?case by (simp add: es_good_def)
next
  case (3 e n)
  then show ?case by (simp add: script_allocate_ok)
next
  case (4 n e)
  then show ?case by (simp add: linux_allocate_def buffer_mmap_def try_u32_def)
next
  case (5 e b)
  then show ?case using es_submit_ok [of e b] by (auto simp: es_good_def)
next
  case (6 e b)
  then show ?case using es_submit_err_ok [of e b] by (auto simp: es_good_def)
next
  case (7 e b bs n)
  then show ?case using es_wait_ok [of e b bs n] by (auto simp: es_good_def)
next
  case (8 e n)
  then show ?case by (simp add: es_good_def es_wait_empty)
next
  case (9 e b bs n)
  then show ?case using es_poll_ok [of e b bs n] by (auto simp: es_good_def)
next
  case (10 e n)
  then show ?case by (simp add: es_good_def es_poll_empty)
next
  case (11 e)
  then show ?case using es_cancel_all_ok [of e] by (auto simp: es_good_def)
qed

text \<open>An endpoint just opened, on a kernel with the given script.\<close>

definition es_open ::
  "u8 \<Rightarrow> TransferType \<Rightarrow> nat \<Rightarrow> nat list list \<Rightarrow> nat option list \<Rightarrow> (nat \<times> nat \<times> bytes \<times> nat) list \<Rightarrow> ep_sys"
where
  "es_open addr ty mps sched submits reaps =
     \<lparr>es_ep = \<lparr>le_address = addr, le_ep_type = ty, le_notify = 0, le_max_packet_size = mps,
               le_pending = [], le_idle_transfer = None\<rparr>,
      es_lx = \<lparr>lx_dev = \<lparr>ld_events_id = 0, ld_descriptors = [], ld_sysfs = None, ld_active_config = 1,
                         ld_timeouts = [], ld_timer = TIMESPEC_ZERO\<rparr>,
               lx_heap = \<lparr>th_mem = (\<lambda>p. None), th_next = 0, th_notify = (\<lambda>n. NotifyNone)\<rparr>,
               lx_kern = \<lparr>us_inflight = [], us_submits = submits, us_reaps = reaps, us_discards = []\<rparr>\<rparr>,
      es_sched = sched, es_mmap = (\<lambda>_ _. True), es_bufs = [], es_past = []\<rparr>"

lemma es_open_good:
  "0 < mps \<Longrightarrow> es_good (direction_from_address addr) (es_open addr ty mps sched submits reaps)"
  by (simp add: es_good_def es_open_def es_ok_def es_dir_def ep_inv_def own_ok_empty idles_of_def blocks_ok_def)

lemma es_good_maps: "es_good dir (e\<lparr>es_mmap := maps\<rparr>) \<longleftrightarrow> es_good dir e"
  by (simp add: es_good_def es_ok_def es_dir_def)

lemma es_open_empty [simp]:
  "es_bufs (es_open addr ty mps sched submits reaps) = []"
  "es_past (es_open addr ty mps sched submits reaps) = []"
  by (simp_all add: es_open_def)

text \<open>
  C1. A Linux endpoint is a FIFO queue of buffers. Open an endpoint and let the caller submit
  well-formed buffers, wait, poll and cancel in any order, with any schedule of the event thread and
  any kernel that refuses and completes transfers as it likes: nothing panics and no freed block or
  uninitialised byte is touched; the completions are those of the oldest buffers, one for each, in
  the order of submission; each carries a well-formed buffer with its capacity and allocator, on an
  IN endpoint with the same requested length and as many initialised bytes as the completion reports,
  on an OUT endpoint with the bytes that were sent; and what is not returned yet is what \<open>pending\<close>
  counts. In the state that is reached, \<open>cancel_all\<close> asks the kernel to discard each pending transfer,
  the newest first, and changes nothing else.
\<close>

theorem linux_endpoint_fifo:
  assumes "list_all buffer_ok (op_buffers ops)" "0 < mps"
  shows "\<exists>cs e. backend_run linux_backend ops (es_open addr ty mps sched submits reaps) = Ret (cs, e) \<and>
    length cs \<le> length (op_buffers ops) \<and>
    list_all2 (returned_for UNIV (direction_from_address addr)) (take (length cs) (op_buffers ops)) cs \<and>
    linux_endpoint_pending (es_ep e) = length (op_buffers ops) - length cs \<and>
    endpoint_cancel_all script_kernel (es_ep e) (es_lx e) =
      Ret (lx_discarded (map pending_ptr (le_pending (es_ep e))) (es_lx e))"
proof -
  from linux.run_fifo [OF es_open_good [OF assms(2)] assms(1)] obtain cs e where
    r: "backend_run linux_backend ops (es_open addr ty mps sched submits reaps) = Ret (cs, e)"
      "es_good (direction_from_address addr) e"
      "length cs \<le> length (es_bufs (es_open addr ty mps sched submits reaps) @ op_buffers ops)"
      "es_bufs e = drop (length cs) (es_bufs (es_open addr ty mps sched submits reaps) @ op_buffers ops)"
      "list_all2 (returned_for UNIV (direction_from_address addr))
        (take (length cs) (es_bufs (es_open addr ty mps sched submits reaps) @ op_buffers ops)) cs" by blast
  moreover have "linux_endpoint_pending (es_ep e) = length (es_bufs e)"
    using linux.pending_eq [OF r(2)] by simp
  moreover have "es_ok e" using r(2) by (simp add: es_good_def)
  note endpoint_cancel_all_eq [OF this]
  ultimately show ?thesis by auto
qed

theorem linux_endpoint_fifo_witness:
  "let b = \<lparr>buf_mem = replicate 8 None, buf_len = 0, buf_requested_len = 8, buf_capacity = 8,
            buf_allocator = AllocDefault\<rparr>;
       ops = [OpSubmit b, OpSubmit b, OpWait (duration_from_secs 5), OpWait (duration_from_secs 5)];
       e0 = es_open 0x81 TBulk 8 [[1], [2, 3]] [] [(1, 0, [1, 2], 0), (0, 0, [3], 0)]
   in (\<exists>cs e. backend_run linux_backend ops e0 = Ret (cs, e) \<and>
        length cs \<le> 2 \<and> list_all2 (returned_for UNIV In) (take (length cs) [b, b]) cs \<and>
        linux_endpoint_pending (es_ep e) = 2 - length cs \<and>
        endpoint_cancel_all script_kernel (es_ep e) (es_lx e) =
          Ret (lx_discarded (map pending_ptr (le_pending (es_ep e))) (es_lx e))) \<and>
      omap (\<lambda>(cs, e). map (buffer_bytes \<circ> cmp_buffer) cs) (backend_run linux_backend ops e0) =
        Ret [[3]]"
proof -
  let ?b = "\<lparr>buf_mem = replicate 8 None, buf_len = 0, buf_requested_len = 8, buf_capacity = 8,
            buf_allocator = AllocDefault\<rparr>"
  let ?ops = "[OpSubmit ?b, OpSubmit ?b, OpWait (duration_from_secs 5), OpWait (duration_from_secs 5)]"
  have ok: "list_all buffer_ok (op_buffers ?ops)" by code_simp
  have dir: "direction_from_address 0x81 = In" by code_simp
  have run: "omap (\<lambda>(cs, e). map (buffer_bytes \<circ> cmp_buffer) cs) (backend_run linux_backend ?ops
      (es_open 0x81 TBulk 8 [[1], [2, 3]] [] [(1, 0, [1, 2], 0), (0, 0, [3], 0)])) = Ret [[3]]"
    by code_simp
  have ob: "op_buffers ?ops = [?b, ?b]" and len: "length [?b, ?b] = 2" by simp_all
  from linux_endpoint_fifo [OF ok, where addr = "0x81" and ty = TBulk and mps = 8 and submits = "[]" and
      sched = "[[1], [2, 3]]" and reaps = "[(1, 0, [1, 2], 0), (0, 0, [3], 0)]", unfolded ob len dir] run
  show ?thesis unfolding Let_def by (simp del: backend_run.simps replicate.simps)
qed

end
