(* ===== verification/Device.thy ===== *)
theory Device
  imports Linux_Endpoint Strings Descriptor_Theorems Loops
begin

unbundle bit_operations_syntax

text \<open>
  \<open>Device\<close> and \<open>Interface\<close> of src/src/device.rs on the Linux backend: the active configuration,
  descriptor and string requests, the descriptors of an interface and opening an endpoint.
\<close>

section \<open>Configurations\<close>

definition find_configuration :: "u8 \<Rightarrow> ConfigurationDescriptor list \<Rightarrow> ConfigurationDescriptor option outcome" where
  "find_configuration active cs = ofind (\<lambda>c. omap (\<lambda>v. v = active) (config_configuration_value c)) cs"

definition active_configuration ::
  "sysfs \<Rightarrow> LinuxDevice \<Rightarrow>
   ((ActiveConfigurationError + ConfigurationDescriptor) \<times> LinuxDevice) outcome" where
  "active_configuration fs d =
     (case active_configuration_value fs d of
        (active, d') \<Rightarrow>
          obind (device_configuration_descriptors d') (\<lambda>cs.
          obind (find_configuration active cs) (\<lambda>r.
            Ret (case r of Some c \<Rightarrow> Inr c | None \<Rightarrow> Inl \<lparr>ac_configuration_value = active\<rparr>, d'))))"

section \<open>Descriptor requests\<close>

text \<open>
  \<open>ctl\<close> is the \<open>control_in\<close> of the backend: the request and the timeout give the data that was read
  or the error of the transfer.
\<close>

type_synonym 's control_in = "ControlIn \<Rightarrow> nat \<Rightarrow> 's \<Rightarrow> ((TransferError + bytes) \<times> 's) outcome"

definition STANDARD_REQUEST_GET_DESCRIPTOR :: u8 where
  "STANDARD_REQUEST_GET_DESCRIPTOR = 0x06"

definition get_descriptor_request :: "u8 \<Rightarrow> u8 \<Rightarrow> u16 \<Rightarrow> ControlIn" where
  "get_descriptor_request desc_type desc_index language_id =
     \<lparr>ci_control_type = Standard, ci_recipient = RecipientDevice,
      ci_request = STANDARD_REQUEST_GET_DESCRIPTOR,
      ci_value = push_bit 8 (ucast desc_type) OR ucast desc_index,
      ci_index = language_id, ci_length = 4096\<rparr>"

definition get_descriptor ::
  "'s control_in \<Rightarrow> u8 \<Rightarrow> u8 \<Rightarrow> u16 \<Rightarrow> nat \<Rightarrow> 's \<Rightarrow> ((GetDescriptorError + bytes) \<times> 's) outcome" where
  "get_descriptor ctl desc_type desc_index language_id timeout s =
     omap (\<lambda>(r, s'). (case r of Inl e \<Rightarrow> Inl (GdTransfer e) | Inr data \<Rightarrow> Inr data, s'))
       (ctl (get_descriptor_request desc_type desc_index language_id) timeout s)"

text \<open>The iterator reads two bytes at a time until one of them is missing.\<close>

definition get_string_descriptor_supported_languages ::
  "'s control_in \<Rightarrow> nat \<Rightarrow> 's \<Rightarrow> ((GetDescriptorError + u16 list) \<times> 's) outcome" where
  "get_string_descriptor_supported_languages ctl timeout s =
     omap (\<lambda>(r, s').
        (case r of
           Inl e \<Rightarrow> Inl e
         | Inr data \<Rightarrow>
             if \<not> validate_string_descriptor data then Inl GdInvalidDescriptor
             else Inr (le_units (drop 2 data)), s'))
       (get_descriptor ctl DESCRIPTOR_TYPE_STRING 0 0 timeout s)"

definition get_string_descriptor ::
  "'s control_in \<Rightarrow> u8 \<Rightarrow> u16 \<Rightarrow> nat \<Rightarrow> 's \<Rightarrow> ((GetDescriptorError + nat list) \<times> 's) outcome" where
  "get_string_descriptor ctl desc_index language_id timeout s =
     obind (get_descriptor ctl DESCRIPTOR_TYPE_STRING desc_index language_id timeout s) (\<lambda>(r, s').
       case r of
         Inl e \<Rightarrow> Ret (Inl e, s')
       | Inr data \<Rightarrow>
           omap (\<lambda>d. (case d of None \<Rightarrow> Inl GdInvalidDescriptor | Some str \<Rightarrow> Inr str, s'))
             (decode_string_descriptor data))"

section \<open>Interfaces\<close>

definition interface_alt_descriptors ::
  "sysfs \<Rightarrow> LinuxInterface \<Rightarrow> LinuxDevice \<Rightarrow> (InterfaceDescriptor list \<times> LinuxDevice) outcome" where
  "interface_alt_descriptors fs i d =
     (case active_configuration_value fs d of
        (active, d') \<Rightarrow>
          obind (device_configuration_descriptors d') (\<lambda>cs.
          obind (find_configuration active cs) (\<lambda>configuration.
          obind (case configuration of None \<Rightarrow> Ret [] | Some c \<Rightarrow> interface_alt_settings c) (\<lambda>as.
          obind (ofilter (\<lambda>g. omap (\<lambda>n. n = li_interface_number i) (interface_number g)) as) (\<lambda>gs.
            Ret (gs, d'))))))"

definition interface_descriptor ::
  "sysfs \<Rightarrow> LinuxInterface \<Rightarrow> LinuxDevice \<Rightarrow> (InterfaceDescriptor option \<times> LinuxDevice) outcome" where
  "interface_descriptor fs i d =
     obind (interface_alt_descriptors fs i d) (\<lambda>(gs, d').
     omap (\<lambda>g. (g, d'))
       (ofind (\<lambda>g. omap (\<lambda>a. a = get_alt_setting i) (interface_alternate_setting g)) gs))"

text \<open>\<open>Interface::endpoint\<close>; \<open>dir\<close> and \<open>ty\<close> are the type parameters.\<close>

definition open_endpoint ::
  "sysfs \<Rightarrow> nat \<Rightarrow> TransferType \<Rightarrow> Direction \<Rightarrow> u8 \<Rightarrow> LinuxInterface \<Rightarrow> LinuxDevice \<Rightarrow>
   ((nusb_error + LinuxEndpoint) \<times> LinuxInterface \<times> LinuxDevice) outcome" where
  "open_endpoint fs notify ty dir address i d =
     obind (interface_descriptor fs i d) (\<lambda>(intf_desc, d').
     obind (case intf_desc of
              None \<Rightarrow> Ret None
            | Some desc \<Rightarrow>
                obind (interface_endpoints desc) (ofind (\<lambda>ep. omap (\<lambda>a. a = address) (endpoint_address ep))))
       (\<lambda>ep_desc.
          case ep_desc of
            None \<Rightarrow>
              Ret (Inl (error_new KNotFound ''specified endpoint does not exist on this interface''), i, d')
          | Some ep_desc \<Rightarrow>
              if address AND direction_mask \<noteq> direction_u8 dir
              then Ret (Inl (error_new KOther ''incorrect endpoint direction''), i, d')
              else
                obind (endpoint_transfer_type ep_desc) (\<lambda>t.
                  if t \<noteq> ty then Ret (Inl (error_new KOther ''incorrect endpoint type''), i, d')
                  else omap (\<lambda>(r, i'). (r, i', d')) (interface_endpoint notify ep_desc i))))"

section \<open>The active configuration\<close>

text \<open>What \<open>LinuxDevice::create_inner\<close> has checked.\<close>

definition descriptors_valid :: "LinuxDevice \<Rightarrow> bool" where
  "descriptors_valid d \<longleftrightarrow> device_descriptor_new (ld_descriptors d) \<noteq> None"

lemma descriptors_valid_length: "descriptors_valid d \<Longrightarrow> 18 \<le> length (ld_descriptors d)"
  by (auto simp: descriptors_valid_def device_descriptor_new_def get_range_def descriptor_constants
      split: if_splits)

text \<open>The configurations of a device and the value of one.\<close>

definition device_configs :: "LinuxDevice \<Rightarrow> ConfigurationDescriptor list" where
  "device_configs d =
     (case parse_concatenated_config_descriptors (drop 18 (ld_descriptors d)) of Ret cs \<Rightarrow> cs | _ \<Rightarrow> [])"

definition config_value :: "ConfigurationDescriptor \<Rightarrow> u8" where
  "config_value c = c ! 5"

lemma parse_concatenated_total:
  "\<exists>cs. parse_concatenated_config_descriptors buf = Ret cs \<and> list_all (\<lambda>c. config_new c = Some c) cs"
proof (induction "length buf" arbitrary: buf rule: less_induct)
  case less
  show ?case
  proof (cases "config_new buf")
    case None
    then show ?thesis by (subst parse_concatenated_rec) simp
  next
    case (Some c)
    have "0 < length c" "length c \<le> length buf" using config_new_SomeD [OF Some] by auto
    then have "length (drop (length c) buf) < length buf" unfolding length_drop by linarith
    from less [OF this] obtain cs where
      "parse_concatenated_config_descriptors (drop (length c) buf) = Ret cs"
      "list_all (\<lambda>c. config_new c = Some c) cs" by blast
    with Some config_new_idem [OF Some] show ?thesis by (subst parse_concatenated_rec) simp
  qed
qed

lemma device_configs:
  assumes "descriptors_valid d"
  shows "device_configuration_descriptors d = Ret (device_configs d)"
    "c \<in> set (device_configs d) \<Longrightarrow> header_ok 9 c"
proof -
  obtain cs where cs: "parse_concatenated_config_descriptors (drop 18 (ld_descriptors d)) = Ret cs"
    "list_all (\<lambda>c. config_new c = Some c) cs" using parse_concatenated_total by blast
  with descriptors_valid_length [OF assms]
  show "device_configuration_descriptors d = Ret (device_configs d)"
    by (simp add: device_configuration_descriptors_def device_configs_def DESCRIPTOR_LEN_DEVICE_def)
  show "c \<in> set (device_configs d) \<Longrightarrow> header_ok 9 c"
    using cs config_new_header by (auto simp: device_configs_def list_all_iff)
qed

lemma config_configuration_value_Ret [panic_free]:
  "header_ok 9 c \<Longrightarrow> config_configuration_value c = Ret (config_value c)"
  by (simp add: config_configuration_value_def field_u8_def header_ok_def config_value_def)

lemma find_configuration_eq:
  "descriptors_valid d \<Longrightarrow>
    find_configuration v (device_configs d) = Ret (find (\<lambda>c. config_value c = v) (device_configs d))"
  unfolding find_configuration_def
  by (intro ofind_eq) (simp add: config_configuration_value_Ret device_configs(2))

lemma active_configuration_value_frame:
  assumes "active_configuration_value fs d = (v, d')"
  shows "ld_descriptors d' = ld_descriptors d" "ld_active_config d' = v"
  using assms by (auto simp: active_configuration_value_def split: option.splits sum.splits SysfsError.splits SysfsErrorKind.splits)

lemma frame_valid:
  assumes "active_configuration_value fs d = (v, d')" "descriptors_valid d"
  shows "descriptors_valid d'" "device_configs d' = device_configs d"
  using active_configuration_value_frame [OF assms(1)] assms(2)
  by (simp_all add: descriptors_valid_def device_configs_def)

text \<open>
  Asking for the active configuration never panics on a device whose descriptors were accepted
  when it was opened. The result is a configuration of the device whose value is the one that the
  operating system reports as active; if there is none, the error carries the reported value and no
  configuration of the device has it.
\<close>

theorem active_configuration_found:
  assumes "device_descriptor_new (ld_descriptors d) = Some dd"
  shows "\<exists>r d' cs. active_configuration fs d = Ret (r, d') \<and>
    device_configuration_descriptors d = Ret cs \<and>
    ld_active_config d' = fst (active_configuration_value fs d) \<and>
    (case r of
       Inr c \<Rightarrow> c \<in> set cs \<and> config_configuration_value c = Ret (ld_active_config d')
     | Inl e \<Rightarrow> ac_configuration_value e = ld_active_config d' \<and>
         list_all (\<lambda>c. config_configuration_value c \<noteq> Ret (ld_active_config d')) cs)"
proof -
  have valid: "descriptors_valid d" using assms by (simp add: descriptors_valid_def)
  obtain v d' where v: "active_configuration_value fs d = (v, d')" by fastforce
  note f = frame_valid [OF v valid] and a = active_configuration_value_frame [OF v]
  have eq: "active_configuration fs d =
      Ret (case find (\<lambda>c. config_value c = v) (device_configs d) of
             Some c \<Rightarrow> Inr c | None \<Rightarrow> Inl \<lparr>ac_configuration_value = v\<rparr>, d')"
    using device_configs(1) [OF f(1)] find_configuration_eq [OF f(1)]
    by (simp add: active_configuration_def v f(2))
  have val: "config_configuration_value c = Ret (config_value c)" if "c \<in> set (device_configs d)" for c
    using device_configs(2) [OF valid that] by (rule config_configuration_value_Ret)
  show ?thesis
    using device_configs(1) [OF valid] a val
    by (auto simp: eq v find_None_all list_all_iff dest!: find_Some_iff' split: option.splits)
qed

theorem active_configuration_found_witness:
  "let d = \<lparr>ld_events_id = 0,
            ld_descriptors = [18, 1, 0, 2, 9, 0, 0, 64, 0x6b, 0x1d, 2, 0, 0x10, 5, 3, 2, 1, 1] @ root_hub_config,
            ld_sysfs = None, ld_active_config = 1, ld_timeouts = [], ld_timer = TIMESPEC_ZERO\<rparr>
   in (\<exists>r d' cs. active_configuration no_sysfs d = Ret (r, d') \<and>
        device_configuration_descriptors d = Ret cs \<and>
        (case r of
           Inr c \<Rightarrow> c \<in> set cs \<and> config_configuration_value c = Ret (ld_active_config d')
         | Inl e \<Rightarrow> ac_configuration_value e = ld_active_config d' \<and>
             list_all (\<lambda>c. config_configuration_value c \<noteq> Ret (ld_active_config d')) cs)) \<and>
      omap fst (active_configuration no_sysfs d) = Ret (Inr root_hub_config)"
proof -
  let ?d = "\<lparr>ld_events_id = 0,
            ld_descriptors = [18, 1, 0, 2, 9, 0, 0, 64, 0x6b, 0x1d, 2, 0, 0x10, 5, 3, 2, 1, 1] @ root_hub_config,
            ld_sysfs = None, ld_active_config = 1, ld_timeouts = [], ld_timer = TIMESPEC_ZERO\<rparr>"
  have new: "device_descriptor_new (ld_descriptors ?d) =
      Some [18, 1, 0, 2, 9, 0, 0, 64, 0x6b, 0x1d, 2, 0, 0x10, 5, 3, 2, 1, 1]" by code_simp
  have "omap fst (active_configuration no_sysfs ?d) = Ret (Inr root_hub_config)" by code_simp
  with active_configuration_found [OF new, of no_sysfs] show ?thesis unfolding Let_def by blast
qed

section \<open>String descriptors\<close>

lemma get_descriptor_setup:
  "control_in_setup_packet (get_descriptor_request ty i lang) =
    [0x80, 6, i, ty, ucast (lang AND 0xFF), ucast (drop_bit 8 lang), 0, 0x10]"
proof -
  have r: "request_type In Standard RecipientDevice = 0x80" by code_simp
  have m: "(0xFF :: u16) = mask 8" by code_simp
  have lo: "ucast ((push_bit 8 (ucast ty) OR ucast i :: u16) AND 0xFF) = i"
    unfolding m by (rule bit_word_eqI) (auto simp: bit_simps)
  have hi: "ucast (drop_bit 8 (push_bit 8 (ucast ty) OR ucast i :: u16)) = ty"
    by (rule bit_word_eqI) (auto simp: bit_simps dest: bit_imp_le_length)
  show ?thesis
    by (simp add: control_in_setup_packet_def get_descriptor_request_def pack_setup_def r lo hi [simplified]
        STANDARD_REQUEST_GET_DESCRIPTOR_def)
qed

text \<open>
  Requests for string descriptors ask for what the USB specification says (GET_DESCRIPTOR of
  type 3, with the index and the language, up to 4096 bytes) and handle every answer without a
  panic: an error of the transfer is passed on, an answer that is not a valid string descriptor is
  InvalidDescriptor, and any other answer gives the languages, all the 16-bit units after the
  header, or the text.
\<close>

theorem string_requests_total:
  assumes "ctl (get_descriptor_request DESCRIPTOR_TYPE_STRING i lang) timeout s = Ret (r, s')"
  shows "control_in_setup_packet (get_descriptor_request DESCRIPTOR_TYPE_STRING i lang) =
      [0x80, 6, i, 3, ucast (lang AND 0xFF), ucast (drop_bit 8 lang), 0, 0x10] \<and>
    (case r of
       Inl e \<Rightarrow> get_string_descriptor ctl i lang timeout s = Ret (Inl (GdTransfer e), s')
     | Inr data \<Rightarrow>
         if validate_string_descriptor data
         then \<exists>str. decode_string_descriptor data = Ret (Some str) \<and>
           get_string_descriptor ctl i lang timeout s = Ret (Inr str, s')
         else get_string_descriptor ctl i lang timeout s = Ret (Inl GdInvalidDescriptor, s')) \<and>
    (if i = 0 \<and> lang = 0
     then get_string_descriptor_supported_languages ctl timeout s =
       Ret (case r of
              Inl e \<Rightarrow> Inl (GdTransfer e)
            | Inr data \<Rightarrow>
                if validate_string_descriptor data
                then Inr (map (\<lambda>n. u16_from_le_bytes (data ! (2 * n + 2)) (data ! (2 * n + 3)))
                            [0..<(length data - 2) div 2])
                else Inl GdInvalidDescriptor, s')
     else True)"
proof -
  have units: "le_units xs = map (\<lambda>n. u16_from_le_bytes (xs ! (2 * n)) (xs ! (2 * n + 1))) [0..<length xs div 2]"
    for xs
  proof (induction xs rule: le_units.induct)
    case (1 a b xs)
    have "[0..<length (a # b # xs) div 2] = 0 # map Suc [0..<length xs div 2]"
      by (simp add: upt_conv_Cons map_Suc_upt del: upt_Suc)
    with 1 show ?case by simp
  qed auto
  have "le_units (drop 2 data) =
      map (\<lambda>n. u16_from_le_bytes (data ! (2 * n + 2)) (data ! (2 * n + 3))) [0..<(length data - 2) div 2]"
    if "validate_string_descriptor data" for data
    using that by (auto simp: units validate_string_descriptor_def eval_nat_numeral ac_simps)
  then show ?thesis
    using assms
    by (auto simp: get_descriptor_setup get_string_descriptor_def get_string_descriptor_supported_languages_def
        get_descriptor_def decode_string_descriptor_def validate_string_descriptor_def DESCRIPTOR_TYPE_STRING_def
        slice_from_def split: sum.splits)
qed

theorem string_requests_total_witness:
  "get_string_descriptor_supported_languages (\<lambda>c t s. Ret (Inr [6, 3, 0x09, 0x04, 0x07, 0x04], s)) 5 () =
     Ret (Inr [0x0409, 0x0407], ())"
proof -
  have c: "validate_string_descriptor [6, 3, 0x09, 0x04, 0x07, 0x04]" by code_simp
  have m: "map (\<lambda>n. u16_from_le_bytes ([6, 3, 0x09, 0x04, 0x07, 0x04] ! (2 * n + 2))
      ([6, 3, 0x09, 0x04, 0x07, 0x04] ! (2 * n + 3))) [0..<(length [6, 3, 0x09, 0x04, 0x07, 0x04 :: u8] - 2) div 2] =
      [0x0409, 0x0407]" by code_simp
  show ?thesis
    using string_requests_total [of "\<lambda>c t s. Ret (Inr [6, 3, 0x09, 0x04, 0x07, 0x04], s)" 0 0 5 "()"
        "Inr [6, 3, 0x09, 0x04, 0x07, 0x04]" "()"] c
    unfolding sum.case m by simp
qed

section \<open>Opening an endpoint\<close>

text \<open>The alternate settings of a configuration, the endpoints of a setting, and the current one.\<close>

definition alt_settings_of :: "ConfigurationDescriptor \<Rightarrow> InterfaceDescriptor list" where
  "alt_settings_of c = (case interface_alt_settings c of Ret as \<Rightarrow> as | _ \<Rightarrow> [])"

definition endpoints_of :: "InterfaceDescriptor \<Rightarrow> EndpointDescriptor list" where
  "endpoints_of a = (case interface_endpoints a of Ret es \<Rightarrow> es | _ \<Rightarrow> [])"

definition current_setting :: "u8 \<Rightarrow> LinuxInterface \<Rightarrow> LinuxDevice \<Rightarrow> InterfaceDescriptor option" where
  "current_setting active i d =
     (case find (\<lambda>c. config_value c = active) (device_configs d) of
        None \<Rightarrow> None
      | Some c \<Rightarrow>
          find (\<lambda>a. a ! 2 = li_interface_number i \<and> a ! 3 = get_alt_setting i) (alt_settings_of c))"

definition current_endpoints :: "u8 \<Rightarrow> LinuxInterface \<Rightarrow> LinuxDevice \<Rightarrow> EndpointDescriptor list" where
  "current_endpoints active i d =
     (case current_setting active i d of None \<Rightarrow> [] | Some a \<Rightarrow> endpoints_of a)"

lemma alt_settings_of:
  assumes "header_ok 9 c"
  shows "interface_alt_settings c = Ret (alt_settings_of c)" "a \<in> set (alt_settings_of c) \<Longrightarrow> header_ok 9 a"
  using alt_settings_ok [OF assms] by (auto simp: alt_settings_of_def)

lemma endpoints_of:
  assumes "header_ok 9 a"
  shows "interface_endpoints a = Ret (endpoints_of a)" "e \<in> set (endpoints_of a) \<Longrightarrow> header_ok 7 e"
proof -
  have t: "interface_descriptors a = Ret (drop (unat (a ! 0)) a)"
    using trailing_descriptors_Ret [of 9 a] assms by (simp add: interface_descriptors_def)
  obtain es where es: "interface_endpoints a = Ret es"
    "\<forall>g \<in> set es. group_ok DESCRIPTOR_TYPE_ENDPOINT DESCRIPTOR_LEN_ENDPOINT g"
    using split_by_type_total [of DESCRIPTOR_TYPE_ENDPOINT DESCRIPTOR_LEN_ENDPOINT
        "drop (unat (a ! 0)) a"] by (auto simp: interface_endpoints_def t)
  then show "interface_endpoints a = Ret (endpoints_of a)" by (simp add: endpoints_of_def)
  show "e \<in> set (endpoints_of a) \<Longrightarrow> header_ok 7 e"
    using es group_ok_header [of DESCRIPTOR_TYPE_ENDPOINT DESCRIPTOR_LEN_ENDPOINT _ 7]
    by (auto simp: endpoints_of_def descriptor_constants)
qed

lemma find_filter: "find q (filter p xs) = find (\<lambda>x. p x \<and> q x) xs"
  by (induction xs) auto

lemma interface_descriptor_eq:
  assumes valid: "descriptors_valid d" and v: "active_configuration_value fs d = (active, d')"
  shows "interface_descriptor fs i d = Ret (current_setting active i d, d')"
    "current_setting active i d = Some a \<Longrightarrow> header_ok 9 a"
proof -
  note f = frame_valid [OF v valid]
  let ?conf = "find (\<lambda>c. config_value c = active) (device_configs d)"
  let ?as = "case ?conf of None \<Rightarrow> [] | Some c \<Rightarrow> alt_settings_of c"
  have conf: "header_ok 9 c" if "?conf = Some c" for c
    using find_Some_iff' [OF that] device_configs(2) [OF valid] by simp
  have as: "header_ok 9 g" if "g \<in> set ?as" for g
    using that conf [OF sym] alt_settings_of(2) by (auto split: option.splits)
  have num: "interface_number g = Ret (g ! 2)" "interface_alternate_setting g = Ret (g ! 3)"
    if "g \<in> set ?as" for g
    using as [OF that] by (simp_all add: interface_accessor_defs header_ok_def)
  have "(case ?conf of None \<Rightarrow> Ret [] | Some c \<Rightarrow> interface_alt_settings c) = Ret ?as"
    using conf alt_settings_of(1) by (auto split: option.splits)
  moreover have "ofilter (\<lambda>g. omap (\<lambda>n. n = li_interface_number i) (interface_number g)) ?as =
      Ret (filter (\<lambda>g. g ! 2 = li_interface_number i) ?as)"
    by (intro ofilter_eq) (simp add: num)
  ultimately have "interface_alt_descriptors fs i d =
      Ret (filter (\<lambda>g. g ! 2 = li_interface_number i) ?as, d')"
    using device_configs(1) [OF f(1)] find_configuration_eq [OF f(1)]
    by (simp add: interface_alt_descriptors_def v f(2))
  moreover have "ofind (\<lambda>g. omap (\<lambda>a. a = get_alt_setting i) (interface_alternate_setting g))
      (filter (\<lambda>g. g ! 2 = li_interface_number i) ?as) =
      Ret (find (\<lambda>g. g ! 3 = get_alt_setting i) (filter (\<lambda>g. g ! 2 = li_interface_number i) ?as))"
    by (intro ofind_eq) (simp add: num)
  moreover have "find (\<lambda>g. g ! 3 = get_alt_setting i) (filter (\<lambda>g. g ! 2 = li_interface_number i) ?as) =
      current_setting active i d"
    by (simp add: find_filter current_setting_def split: option.split)
  ultimately show "interface_descriptor fs i d = Ret (current_setting active i d, d')"
    by (simp add: interface_descriptor_def)
  show "current_setting active i d = Some a \<Longrightarrow> header_ok 9 a"
    using as by (auto simp: current_setting_def dest!: find_Some_iff' split: option.splits)
qed

lemma endpoint_fields:
  assumes "header_ok 7 e"
  shows "\<exists>ty m. endpoint_address e = Ret (e ! 2) \<and> endpoint_transfer_type e = Ret ty \<and>
    endpoint_max_packet_size e = Ret m"
proof -
  have "endpoint_readable e" by (rule endpoint_readable_header [OF assms])
  then obtain ty m where "endpoint_transfer_type e = Ret ty" "endpoint_max_packet_size e = Ret m"
    by (auto simp: endpoint_readable_def is_ret_iff)
  moreover have "endpoint_address e = Ret (e ! 2)" using assms by (simp add: endpoint_address_def header_ok_def)
  ultimately show ?thesis by blast
qed

text \<open>
  Opening an endpoint never panics on a device whose descriptors were accepted. It succeeds
  exactly when the active configuration's current alternate setting of the interface has an endpoint
  with that address, the first such endpoint has the requested direction and type, and no handle
  with the same number and direction is open; the endpoint then has the address and the maximum
  packet size of the descriptor and nothing pending. Otherwise the interface is unchanged and the
  error is NotFound if there is no such endpoint, Busy if it is in use and Other for a wrong type or
  direction.
\<close>

theorem open_endpoint_checked:
  assumes "device_descriptor_new (ld_descriptors d) = Some dd"
    "active_configuration_value fs d = (active, d')"
  shows "\<exists>r i'. open_endpoint fs notify ty dir address i d = Ret (r, i', d') \<and>
    (case find (\<lambda>e. endpoint_address e = Ret address) (current_endpoints active i d) of
       None \<Rightarrow> i' = i \<and> (\<exists>m. r = Inl (error_new KNotFound m))
     | Some e \<Rightarrow>
         if address AND 0x80 \<noteq> direction_u8 dir \<or> endpoint_transfer_type e \<noteq> Ret ty
         then i' = i \<and> (\<exists>m. r = Inl (error_new KOther m))
         else if endpoint_is_set (ifs_endpoints (li_state i)) address
         then i' = i \<and> (\<exists>m. r = Inl (error_new KBusy m))
         else \<exists>ep. r = Inr ep \<and> le_address ep = address \<and> le_ep_type ep = ty \<and>
           endpoint_max_packet_size e = Ret (le_max_packet_size ep) \<and> le_pending ep = [])"
proof -
  have valid: "descriptors_valid d" using assms(1) by (simp add: descriptors_valid_def)
  note id = interface_descriptor_eq [OF valid assms(2)]
  let ?es = "current_endpoints active i d"
  have hdr: "header_ok 7 e" if "e \<in> set ?es" for e
    using that id(2) [OF sym] endpoints_of(2) by (auto simp: current_endpoints_def split: option.splits)
  have adr: "endpoint_address e = Ret (e ! 2)" if "e \<in> set ?es" for e
    using endpoint_fields [OF hdr [OF that]] by blast
  have "(case current_setting active i d of None \<Rightarrow> Ret None
      | Some desc \<Rightarrow> obind (interface_endpoints desc) (ofind (\<lambda>ep. omap (\<lambda>a. a = address) (endpoint_address ep)))) =
      ofind (\<lambda>ep. omap (\<lambda>a. a = address) (endpoint_address ep)) ?es"
    using id(2) endpoints_of(1) by (auto simp: current_endpoints_def split: option.splits)
  also have "\<dots> = Ret (find (\<lambda>e. endpoint_address e = Ret address) ?es)"
    by (intro ofind_eq) (simp add: adr)
  finally have sel: "(case current_setting active i d of None \<Rightarrow> Ret None
      | Some desc \<Rightarrow> obind (interface_endpoints desc) (ofind (\<lambda>ep. omap (\<lambda>a. a = address) (endpoint_address ep)))) =
      Ret (find (\<lambda>e. endpoint_address e = Ret address) ?es)" .
  show ?thesis
  proof (cases "find (\<lambda>e. endpoint_address e = Ret address) ?es")
    case None
    then show ?thesis by (auto simp: open_endpoint_def id(1) sel)
  next
    case (Some e)
    from find_Some_iff' [OF this] have e: "e \<in> set ?es" "endpoint_address e = Ret address" by auto
    from endpoint_fields [OF hdr [OF e(1)]] obtain t m where
      t: "endpoint_transfer_type e = Ret t" "endpoint_max_packet_size e = Ret m" by blast
    show ?thesis
      using interface_endpoint_eq [OF e(2) t, of notify i]
      by (auto simp: open_endpoint_def id(1) sel Some t direction_mask_def)
  qed
qed

theorem open_endpoint_checked_witness:
  "let d = \<lparr>ld_events_id = 0,
            ld_descriptors = [18, 1, 0, 2, 9, 0, 0, 64, 0x6b, 0x1d, 2, 0, 0x10, 5, 3, 2, 1, 1] @ root_hub_config,
            ld_sysfs = None, ld_active_config = 1, ld_timeouts = [], ld_timer = TIMESPEC_ZERO\<rparr>;
       i = \<lparr>li_interface_number = 0, li_reattach = False, li_state = interface_state_default\<rparr>
   in \<exists>ep i'. open_endpoint no_sysfs 0 TInterrupt In 0x81 i d = Ret (Inr ep, i', d) \<and>
        le_address ep = 0x81 \<and> le_ep_type ep = TInterrupt \<and> le_max_packet_size ep = 4"
proof -
  let ?d = "\<lparr>ld_events_id = 0,
            ld_descriptors = [18, 1, 0, 2, 9, 0, 0, 64, 0x6b, 0x1d, 2, 0, 0x10, 5, 3, 2, 1, 1] @ root_hub_config,
            ld_sysfs = None, ld_active_config = 1, ld_timeouts = [], ld_timer = TIMESPEC_ZERO\<rparr>"
  let ?i = "\<lparr>li_interface_number = 0, li_reattach = False, li_state = interface_state_default\<rparr>"
  have new: "device_descriptor_new (ld_descriptors ?d) =
      Some [18, 1, 0, 2, 9, 0, 0, 64, 0x6b, 0x1d, 2, 0, 0x10, 5, 3, 2, 1, 1]" by code_simp
  have act: "active_configuration_value no_sysfs ?d = (1, ?d)"
    by (simp add: active_configuration_value_def)
  have e: "find (\<lambda>e. endpoint_address e = Ret 0x81) (current_endpoints 1 ?i ?d) =
      Some [7, 5, 0x81, 3, 4, 0, 12]" by code_simp
  have c: "0x81 AND 0x80 = direction_u8 In" "endpoint_transfer_type [7, 5, 0x81, 3, 4, 0, 12] = Ret TInterrupt"
    "\<not> endpoint_is_set (ifs_endpoints (li_state ?i)) 0x81"
    "endpoint_max_packet_size [7, 5, 0x81, 3, 4, 0, 12] = Ret 4" by code_simp+
  from open_endpoint_checked [OF new act, where notify = 0 and ty = TInterrupt and dir = In and
      address = "0x81" and i = ?i] c(1-3)
  show ?thesis unfolding e Let_def by (auto simp: c(4))
qed

end
