(* ===== verification/Reader.thy ===== *)
theory Reader
  imports Endpoint
begin

text \<open>
  \<open>EndpointRead\<close> and \<open>EndpointReadUntilShortPacket\<close>: src/src/io/read.rs. A read returns the bytes that
  it copies to the destination, whose length is its argument. The \<open>while\<close> loops of \<open>fill_buf\<close> take
  fuel: \<open>Inl\<close> is a call that has not returned after that many completions. \<open>debug_assert!\<close> is
  checked.
\<close>

section \<open>ReadBuffer\<close>

record ReadBuffer =
  rb_pos :: nat
  rb_buf :: Buffer
  rb_status :: "TransferError + unit"

definition rb_error :: "ReadBuffer \<Rightarrow> TransferError option" where
  "rb_error r =
     (case rb_status r of Inr _ \<Rightarrow> None | Inl e \<Rightarrow> if e \<noteq> Cancelled then Some e else None)"

definition rb_has_remaining :: "ReadBuffer \<Rightarrow> bool" where
  "rb_has_remaining r \<longleftrightarrow> rb_pos r < buffer_len (rb_buf r) \<or> rb_error r \<noteq> None"

definition rb_has_remaining_or_short_end :: "ReadBuffer \<Rightarrow> bool" where
  "rb_has_remaining_or_short_end r \<longleftrightarrow>
     rb_pos r < buffer_requested_len (rb_buf r) \<or> rb_error r \<noteq> None"

definition rb_clear_short_packet :: "ReadBuffer \<Rightarrow> ReadBuffer" where
  "rb_clear_short_packet r = r\<lparr>rb_pos := usize_max\<rparr>"

definition rb_remaining :: "ReadBuffer \<Rightarrow> (io_error + bytes) outcome" where
  "rb_remaining r =
     obind (buffer_deref (rb_buf r)) (\<lambda>b.
     obind (slice_from b (rb_pos r)) (\<lambda>remaining.
       Ret (case rb_error r of
              Some e \<Rightarrow> if length remaining = 0 then Inl (io_of_transfer_error e) else Inr remaining
            | None \<Rightarrow> Inr remaining)))"

definition rb_consume :: "nat \<Rightarrow> ReadBuffer \<Rightarrow> ReadBuffer outcome" where
  "rb_consume len r =
     rassert (len \<le> buffer_len (rb_buf r) - rb_pos r)
       (if fits_usize (rb_pos r + len) then Ret (r\<lparr>rb_pos := rb_pos r + len\<rparr>) else Panic)"

definition copy_min :: "nat \<Rightarrow> bytes \<Rightarrow> bytes" where
  "copy_min dest_len src = take (min dest_len (length src)) src"

section \<open>EndpointRead\<close>

record 'e EndpointRead =
  er_endpoint :: 'e
  er_reading :: "ReadBuffer option"
  er_num_transfers :: nat
  er_transfer_size :: nat
  er_read_timeout :: Duration

text \<open>\<open>div_ceil\<close> panics on zero, the product on overflow.\<close>

definition round_up_transfer_size :: "nat \<Rightarrow> nat \<Rightarrow> nat outcome" where
  "round_up_transfer_size transfer_size packet_size =
     (if packet_size = 0 then Panic
      else let n = max ((transfer_size + packet_size - 1) div packet_size) 1 * packet_size
           in if fits_usize n then Ret n else Panic)"

definition reader_new :: "'e backend \<Rightarrow> 'e \<Rightarrow> nat \<Rightarrow> 'e EndpointRead outcome" where
  "reader_new B endpoint transfer_size =
     obind (round_up_transfer_size transfer_size (be_max_packet_size B endpoint)) (\<lambda>transfer_size.
       Ret \<lparr>er_endpoint = endpoint, er_reading = None, er_num_transfers = 1,
            er_transfer_size = transfer_size, er_read_timeout = duration_max\<rparr>)"

text \<open>\<open>while pending() < limit { allocate; submit }\<close>: \<open>limit + 1\<close> rounds are enough.\<close>

definition submit_round :: "(nat \<Rightarrow> nat) \<Rightarrow> 'e backend \<Rightarrow> nat \<Rightarrow> nat \<Rightarrow> 'e \<Rightarrow> ('e + 'e) outcome" where
  "submit_round alloc B transfer_size limit e =
     (if be_pending B e < limit
      then obind (ep_allocate alloc B transfer_size e) (\<lambda>buf. obind (ep_submit B In buf e) (\<lambda>e'. Ret (Inl e')))
      else Ret (Inr e))"

definition submit_until :: "(nat \<Rightarrow> nat) \<Rightarrow> 'e backend \<Rightarrow> nat \<Rightarrow> nat \<Rightarrow> 'e \<Rightarrow> 'e outcome" where
  "submit_until alloc B transfer_size limit e =
     must_end (oloop (Suc limit) (submit_round alloc B transfer_size limit) e)"

definition reader_set_num_transfers ::
  "(nat \<Rightarrow> nat) \<Rightarrow> 'e backend \<Rightarrow> nat \<Rightarrow> 'e EndpointRead \<Rightarrow> 'e EndpointRead outcome" where
  "reader_set_num_transfers alloc B num_transfers r =
     obind (submit_until alloc B (er_transfer_size r) (num_transfers - 1) (er_endpoint r)) (\<lambda>e.
       Ret (r\<lparr>er_num_transfers := num_transfers, er_endpoint := e\<rparr>))"

definition reader_set_read_timeout :: "Duration \<Rightarrow> 'e EndpointRead \<Rightarrow> 'e EndpointRead" where
  "reader_set_read_timeout timeout r = r\<lparr>er_read_timeout := timeout\<rparr>"

definition reader_cancel_all :: "'e backend \<Rightarrow> 'e EndpointRead \<Rightarrow> 'e EndpointRead outcome" where
  "reader_cancel_all B r =
     omap (\<lambda>e. r\<lparr>er_num_transfers := 0, er_endpoint := e\<rparr>) (be_cancel_all B (er_endpoint r))"

definition reader_into_inner :: "'e EndpointRead \<Rightarrow> 'e" where
  "reader_into_inner r = er_endpoint r"

definition has_data :: "'e EndpointRead \<Rightarrow> bool" where
  "has_data r \<longleftrightarrow> (case er_reading r of None \<Rightarrow> False | Some c \<Rightarrow> rb_has_remaining c)"

definition has_data_or_short_end :: "'e EndpointRead \<Rightarrow> bool" where
  "has_data_or_short_end r \<longleftrightarrow>
     (case er_reading r of None \<Rightarrow> False | Some c \<Rightarrow> rb_has_remaining_or_short_end c)"

definition resubmit :: "'e backend \<Rightarrow> 'e EndpointRead \<Rightarrow> 'e EndpointRead outcome" where
  "resubmit B r =
     (case er_reading r of
        None \<Rightarrow> Ret r
      | Some c \<Rightarrow>
          rassert (\<not> rb_has_remaining c)
            (obind (ep_submit B In (rb_buf c) (er_endpoint r)) (\<lambda>e.
               Ret (r\<lparr>er_reading := None, er_endpoint := e\<rparr>))))"

definition start_read ::
  "(nat \<Rightarrow> nat) \<Rightarrow> 'e backend \<Rightarrow> 'e EndpointRead \<Rightarrow> (bool \<times> 'e EndpointRead) outcome" where
  "start_read alloc B r =
     obind (if be_pending B (er_endpoint r) < er_num_transfers r
            then obind (resubmit B r) (\<lambda>r1.
                 obind (submit_until alloc B (er_transfer_size r) (er_num_transfers r) (er_endpoint r1)) (\<lambda>e.
                   Ret (r1\<lparr>er_endpoint := e\<rparr>)))
            else Ret r)
       (\<lambda>r2. Ret (be_pending B (er_endpoint r2) > 0, r2))"

definition reader_remaining :: "'e EndpointRead \<Rightarrow> (io_error + bytes) outcome" where
  "reader_remaining r = obind (unwrap (er_reading r)) rb_remaining"

definition reader_consume :: "nat \<Rightarrow> 'e EndpointRead \<Rightarrow> 'e EndpointRead outcome" where
  "reader_consume len r =
     (case er_reading r of
        Some c \<Rightarrow> omap (\<lambda>c'. r\<lparr>er_reading := Some c'\<rparr>) (rb_consume len c)
      | None \<Rightarrow> rassert (len = 0) (Ret r))"

definition start_buffer :: "Completion \<Rightarrow> ReadBuffer" where
  "start_buffer c = \<lparr>rb_pos = 0, rb_buf = cmp_buffer c, rb_status = cmp_status c\<rparr>"

definition reader_wait ::
  "(nat \<Rightarrow> nat) \<Rightarrow> 'e backend \<Rightarrow> 'e EndpointRead \<Rightarrow> ((io_error + bool) \<times> 'e EndpointRead) outcome" where
  "reader_wait alloc B r =
     obind (start_read alloc B r) (\<lambda>(started, r1).
       if started
       then obind (be_wait B (er_read_timeout r1) (er_endpoint r1)) (\<lambda>(c, e).
         Ret (case c of
                None \<Rightarrow> (Inl \<lparr>io_kind = IoTimedOut, io_payload = PayMessage ''timeout waiting for read''\<rparr>,
                         r1\<lparr>er_endpoint := e\<rparr>)
              | Some c \<Rightarrow> (Inr True, r1\<lparr>er_endpoint := e, er_reading := Some (start_buffer c)\<rparr>)))
       else Ret (Inr False, r1))"

text \<open>\<open>None\<close> is \<open>Poll::Pending\<close>.\<close>

definition reader_poll ::
  "(nat \<Rightarrow> nat) \<Rightarrow> 'e backend \<Rightarrow> nat \<Rightarrow> 'e EndpointRead \<Rightarrow> (bool option \<times> 'e EndpointRead) outcome" where
  "reader_poll alloc B cx r =
     obind (start_read alloc B r) (\<lambda>(started, r1).
       if started
       then obind (be_poll B cx (er_endpoint r1)) (\<lambda>(c, e).
         Ret (case c of
                None \<Rightarrow> (None, r1\<lparr>er_endpoint := e\<rparr>)
              | Some c \<Rightarrow> (Some True, r1\<lparr>er_endpoint := e, er_reading := Some (start_buffer c)\<rparr>)))
       else Ret (Some False, r1))"

section \<open>Reading\<close>

text \<open>The four loops: \<open>ready\<close> is the condition that ends them, \<open>at_end\<close> the result without transfers.\<close>

definition fill_round ::
  "('e EndpointRead \<Rightarrow> bool) \<Rightarrow> (io_error + bytes) \<Rightarrow> (nat \<Rightarrow> nat) \<Rightarrow> 'e backend \<Rightarrow> 'e EndpointRead \<Rightarrow>
   ('e EndpointRead + (io_error + bytes) \<times> 'e EndpointRead) outcome" where
  "fill_round ready at_end alloc B r =
     (if ready r then omap (\<lambda>x. Inr (x, r)) (reader_remaining r)
      else obind (reader_wait alloc B r) (\<lambda>(w, r').
        Ret (case w of
               Inl e \<Rightarrow> Inr (Inl e, r')
             | Inr got \<Rightarrow> if got then Inl r' else Inr (at_end, r'))))"

definition poll_round ::
  "('e EndpointRead \<Rightarrow> bool) \<Rightarrow> (io_error + bytes) \<Rightarrow> (nat \<Rightarrow> nat) \<Rightarrow> 'e backend \<Rightarrow> nat \<Rightarrow> 'e EndpointRead \<Rightarrow>
   ('e EndpointRead + (io_error + bytes) option \<times> 'e EndpointRead) outcome" where
  "poll_round ready at_end alloc B cx r =
     (if ready r then omap (\<lambda>x. Inr (Some x, r)) (reader_remaining r)
      else obind (reader_poll alloc B cx r) (\<lambda>(w, r').
        Ret (case w of
               None \<Rightarrow> Inr (None, r')
             | Some got \<Rightarrow> if got then Inl r' else Inr (Some at_end, r'))))"

definition ended_without_short_packet :: io_error where
  "ended_without_short_packet =
     \<lparr>io_kind = IoUnexpectedEof, io_payload = PayMessage ''ended without short packet''\<rparr>"

definition fill_buf ::
  "(nat \<Rightarrow> nat) \<Rightarrow> 'e backend \<Rightarrow> nat \<Rightarrow> 'e EndpointRead \<Rightarrow>
   ('e EndpointRead + (io_error + bytes) \<times> 'e EndpointRead) outcome" where
  "fill_buf alloc B fuel = oloop fuel (fill_round has_data (Inr []) alloc B)"

definition poll_fill_buf ::
  "(nat \<Rightarrow> nat) \<Rightarrow> 'e backend \<Rightarrow> nat \<Rightarrow> nat \<Rightarrow> 'e EndpointRead \<Rightarrow>
   ('e EndpointRead + (io_error + bytes) option \<times> 'e EndpointRead) outcome" where
  "poll_fill_buf alloc B fuel cx = oloop fuel (poll_round has_data (Inr []) alloc B cx)"

definition poll_fill_buf_until_short ::
  "(nat \<Rightarrow> nat) \<Rightarrow> 'e backend \<Rightarrow> nat \<Rightarrow> nat \<Rightarrow> 'e EndpointRead \<Rightarrow>
   ('e EndpointRead + (io_error + bytes) option \<times> 'e EndpointRead) outcome" where
  "poll_fill_buf_until_short alloc B fuel cx =
     oloop fuel (poll_round has_data_or_short_end (Inl ended_without_short_packet) alloc B cx)"

text \<open>\<open>let remaining = fill_buf()?; copy_min(buf, remaining); consume(len)\<close>\<close>

definition copy_out ::
  "nat \<Rightarrow> ('e EndpointRead + (io_error + bytes) \<times> 'e EndpointRead) \<Rightarrow>
   ('e EndpointRead + (io_error + bytes) \<times> 'e EndpointRead) outcome" where
  "copy_out dest_len x =
     (case x of
        Inr (Inr remaining, r) \<Rightarrow>
          obind (reader_consume (min dest_len (length remaining)) r) (\<lambda>r'.
            Ret (Inr (Inr (copy_min dest_len remaining), r')))
      | _ \<Rightarrow> Ret x)"

definition reader_read ::
  "(nat \<Rightarrow> nat) \<Rightarrow> 'e backend \<Rightarrow> nat \<Rightarrow> nat \<Rightarrow> 'e EndpointRead \<Rightarrow>
   ('e EndpointRead + (io_error + bytes) \<times> 'e EndpointRead) outcome" where
  "reader_read alloc B fuel dest_len r = obind (fill_buf alloc B fuel r) (copy_out dest_len)"

definition poll_copy_out ::
  "nat \<Rightarrow> ('e EndpointRead + (io_error + bytes) option \<times> 'e EndpointRead) \<Rightarrow>
   ('e EndpointRead + (io_error + bytes) option \<times> 'e EndpointRead) outcome" where
  "poll_copy_out dest_len x =
     (case x of
        Inr (Some (Inr remaining), r) \<Rightarrow>
          obind (reader_consume (min dest_len (length remaining)) r) (\<lambda>r'.
            Ret (Inr (Some (Inr (copy_min dest_len remaining)), r')))
      | _ \<Rightarrow> Ret x)"

definition reader_poll_read ::
  "(nat \<Rightarrow> nat) \<Rightarrow> 'e backend \<Rightarrow> nat \<Rightarrow> nat \<Rightarrow> nat \<Rightarrow> 'e EndpointRead \<Rightarrow>
   ('e EndpointRead + (io_error + bytes) option \<times> 'e EndpointRead) outcome" where
  "reader_poll_read alloc B fuel cx dest_len r =
     obind (poll_fill_buf alloc B fuel cx r) (poll_copy_out dest_len)"

section \<open>EndpointReadUntilShortPacket\<close>

definition is_end :: "'e EndpointRead \<Rightarrow> bool" where
  "is_end r \<longleftrightarrow>
     (case er_reading r of
        None \<Rightarrow> False | Some c \<Rightarrow> \<not> rb_has_remaining c \<and> rb_has_remaining_or_short_end c)"

text \<open>\<open>Inl ()\<close> is \<open>ExpectedShortPacket\<close>.\<close>

definition consume_end :: "'e EndpointRead \<Rightarrow> ((unit + unit) \<times> 'e EndpointRead) outcome" where
  "consume_end r =
     (if is_end r
      then obind (unwrap (er_reading r)) (\<lambda>c.
        Ret (Inr (), r\<lparr>er_reading := Some (rb_clear_short_packet c)\<rparr>))
      else Ret (Inl (), r))"

definition short_fill_buf ::
  "(nat \<Rightarrow> nat) \<Rightarrow> 'e backend \<Rightarrow> nat \<Rightarrow> 'e EndpointRead \<Rightarrow>
   ('e EndpointRead + (io_error + bytes) \<times> 'e EndpointRead) outcome" where
  "short_fill_buf alloc B fuel =
     oloop fuel (fill_round has_data_or_short_end (Inl ended_without_short_packet) alloc B)"

definition short_read ::
  "(nat \<Rightarrow> nat) \<Rightarrow> 'e backend \<Rightarrow> nat \<Rightarrow> nat \<Rightarrow> 'e EndpointRead \<Rightarrow>
   ('e EndpointRead + (io_error + bytes) \<times> 'e EndpointRead) outcome" where
  "short_read alloc B fuel dest_len r = obind (short_fill_buf alloc B fuel r) (copy_out dest_len)"

definition short_poll_read ::
  "(nat \<Rightarrow> nat) \<Rightarrow> 'e backend \<Rightarrow> nat \<Rightarrow> nat \<Rightarrow> nat \<Rightarrow> 'e EndpointRead \<Rightarrow>
   ('e EndpointRead + (io_error + bytes) option \<times> 'e EndpointRead) outcome" where
  "short_poll_read alloc B fuel cx dest_len r =
     obind (poll_fill_buf_until_short alloc B fuel cx r) (poll_copy_out dest_len)"

text \<open>\<open>BufRead::consume\<close> of the adapter, with the branches as they are in the source.\<close>

definition short_consume :: "nat \<Rightarrow> 'e EndpointRead \<Rightarrow> 'e EndpointRead outcome" where
  "short_consume len r =
     (if has_data_or_short_end r then rassert (len = 0) (Ret r) else reader_consume len r)"

text \<open>\<open>AsyncBufRead::poll_fill_buf\<close> of the adapter calls the plain one of the reader.\<close>

definition short_poll_fill_buf ::
  "(nat \<Rightarrow> nat) \<Rightarrow> 'e backend \<Rightarrow> nat \<Rightarrow> nat \<Rightarrow> 'e EndpointRead \<Rightarrow>
   ('e EndpointRead + (io_error + bytes) option \<times> 'e EndpointRead) outcome" where
  "short_poll_fill_buf alloc B fuel cx r = poll_fill_buf alloc B fuel cx r"

end
