(* ===== verification/Endpoint_Theorems.thy ===== *)
theory Endpoint_Theorems
  imports Endpoint Reader Linux_Endpoint_Theorems
begin

text \<open>
  Properties of \<open>Endpoint\<close> on the Linux backend: the check of IN lengths, the blocking transfer, and
  what happens on an endpoint whose descriptor gives the packet size zero.
\<close>

lemma backend_run_good:
  assumes "list_all buffer_ok (op_buffers ops)" "0 < mps"
    "backend_run linux_backend ops (es_open addr ty mps sched submits reaps) = Ret (cs, e)"
  shows "es_good (direction_from_address addr) e"
    "linux_endpoint_pending (es_ep e) = length (es_bufs e)"
proof -
  show g: "es_good (direction_from_address addr) e"
    using linux.run_fifo [OF es_open_good [OF assms(2)] assms(1), of addr ty sched submits reaps] assms(3) by auto
  show "linux_endpoint_pending (es_ep e) = length (es_bufs e)"
    using linux.pending_eq [OF g] by simp
qed

lemma idle_set_buffer_kern: "idle_set_buffer b t s = Ret s' \<Longrightarrow> lx_kern s' = lx_kern s"
  by (auto simp: idle_set_buffer_def outcome_Ret_iffs)

lemma get_transfer_kern: "get_transfer ep s = (t, ep', s') \<Longrightarrow> lx_kern s' = lx_kern s"
  by (auto simp: get_transfer_def split: option.splits prod.splits)

lemma es_submit_err_kern:
  "es_submit_err b err e = Ret e' \<Longrightarrow> lx_kern (es_lx e') = lx_kern (es_lx e)"
  by (auto simp: es_submit_err_def linux_endpoint_submit_err_def outcome_Ret_iffs
      dest!: idle_set_buffer_kern get_transfer_kern split: prod.splits)

text \<open>
  Submitting on an IN endpoint, in every state that a caller can reach: a buffer whose requested
  length is not a positive multiple of the maximum packet size never reaches the kernel and is
  queued as a transfer that has failed; every other buffer, and every buffer on an OUT endpoint, is
  submitted as it is. In both cases exactly one transfer is added to the queue, and nothing panics.
\<close>

theorem submit_checks_in_length:
  assumes "list_all buffer_ok (op_buffers ops)" "0 < mps"
    "backend_run linux_backend ops (es_open addr ty mps sched submits reaps) = Ret (cs, e)"
    "buffer_ok b" "dir = direction_from_address addr"
  shows "\<exists>e'. ep_submit linux_backend dir b e = Ret e' \<and>
    linux_endpoint_pending (es_ep e') = Suc (linux_endpoint_pending (es_ep e)) \<and>
    (if dir = In \<and> \<not> (0 < buffer_requested_len b \<and> le_max_packet_size (es_ep e) dvd buffer_requested_len b)
     then es_submit_err b InvalidArgument e = Ret e' \<and> lx_kern (es_lx e') = lx_kern (es_lx e)
     else es_submit b e = Ret e')"
proof -
  note g = backend_run_good [OF assms(1-3)]
  from linux.ep_submit_ok [OF g(1) assms(4), of dir] obtain e' where
    e': "ep_submit linux_backend dir b e = Ret e'" "es_good (direction_from_address addr) e'"
      "es_bufs e' = es_bufs e @ [b]" by blast
  moreover have "linux_endpoint_pending (es_ep e') = length (es_bufs e')"
    using linux.pending_eq [OF e'(2)] by simp
  ultimately show ?thesis
    using linux.ep_submit_eq [OF g(1), of dir b] g(2) es_submit_err_kern [of b InvalidArgument e e']
    by (auto split: if_splits)
qed

theorem submit_checks_in_length_witness:
  "\<exists>e'. ep_submit linux_backend In
      \<lparr>buf_mem = replicate 7 None, buf_len = 0, buf_requested_len = 7, buf_capacity = 7, buf_allocator = AllocDefault\<rparr>
      (es_open 0x81 TBulk 8 [] [] []) = Ret e' \<and>
    us_inflight (lx_kern (es_lx e')) = [] \<and> linux_endpoint_pending (es_ep e') = 1"
proof -
  let ?b = "\<lparr>buf_mem = replicate 7 None, buf_len = 0, buf_requested_len = 7, buf_capacity = 7, buf_allocator = AllocDefault\<rparr>"
  let ?e = "es_open 0x81 TBulk 8 [] [] []"
  have c: "buffer_ok ?b" "In = direction_from_address 0x81" "\<not> 8 dvd buffer_requested_len ?b"
    "linux_endpoint_pending (es_ep ?e) = 0" "us_inflight (lx_kern (es_lx ?e)) = []"
    "le_max_packet_size (es_ep ?e) = 8" by code_simp+
  have run: "backend_run linux_backend [] ?e = Ret ([], ?e)" by simp
  show ?thesis
    using submit_checks_in_length [OF _ _ run c(1,2)] c(3-) by auto
qed

text \<open>
  A blocking transfer, on an endpoint without pending transfers and in every state a caller can
  reach: it never panics; when it returns, with or without the timeout, it has consumed exactly the
  transfer it submitted, its completion is the one for the buffer, and nothing is left pending; when
  it is still in the loop that waits for the cancelled transfer, that transfer is the only one
  pending. With transfers pending it panics, before it submits anything.
\<close>

theorem transfer_blocking_consumes:
  assumes "list_all buffer_ok (op_buffers ops)" "0 < mps"
    "backend_run linux_backend ops (es_open addr ty mps sched submits reaps) = Ret (cs, e)"
    "buffer_ok b"
  shows "if linux_endpoint_pending (es_ep e) = 0
    then \<exists>x. transfer_blocking linux_backend dir fuel b timeout e = Ret x \<and>
      (case x of
         Inl e' \<Rightarrow> linux_endpoint_pending (es_ep e') = 1
       | Inr (c, e') \<Rightarrow> linux_endpoint_pending (es_ep e') = 0 \<and>
           returned_for UNIV (direction_from_address addr) b c)
    else transfer_blocking linux_backend dir fuel b timeout e = Panic"
proof -
  note g = backend_run_good [OF assms(1-3)]
  show ?thesis
  proof (cases "es_bufs e = []")
    case True
    with linux.transfer_blocking_ok [OF g(1) assms(4) True, of dir fuel timeout] obtain x where
      x: "transfer_blocking linux_backend dir fuel b timeout e = Ret x"
        "case x of
           Inl e' \<Rightarrow> es_good (direction_from_address addr) e' \<and> es_bufs e' = [b] \<and> es_past e' = es_past e
         | Inr (c, e') \<Rightarrow> es_good (direction_from_address addr) e' \<and> es_bufs e' = [] \<and>
             es_past e' = es_past e @ [c] \<and> returned_for UNIV (direction_from_address addr) b c" by blast
    have "linux_endpoint_pending (es_ep e') = length (es_bufs e')"
      if "es_good (direction_from_address addr) e'" for e' using linux.pending_eq [OF that] by simp
    with x g(2) True show ?thesis by (auto split: sum.splits prod.splits)
  next
    case False
    with linux.transfer_blocking_busy [OF g(1)] g(2) show ?thesis by simp
  qed
qed

theorem transfer_blocking_consumes_witness:
  "let b = \<lparr>buf_mem = replicate 8 None, buf_len = 0, buf_requested_len = 8, buf_capacity = 8, buf_allocator = AllocDefault\<rparr>;
       e = es_open 0x81 TBulk 8 [[], [1]] [] [(0, 2, [5], 0)]
   in (\<exists>x. transfer_blocking linux_backend In 3 b (duration_from_secs 1) e = Ret x) \<and>
      omap (map_sum es_maps (\<lambda>(c, e). (buffer_bytes (cmp_buffer c), linux_endpoint_pending (es_ep e))))
        (transfer_blocking linux_backend In 3 b (duration_from_secs 1) e) = Ret (Inr ([5], 0))"
proof -
  let ?b = "\<lparr>buf_mem = replicate 8 None, buf_len = 0, buf_requested_len = 8, buf_capacity = 8, buf_allocator = AllocDefault\<rparr>"
  let ?e = "es_open 0x81 TBulk 8 [[], [1]] [] [(0, 2, [5], 0)]"
  have c: "buffer_ok ?b" "linux_endpoint_pending (es_ep ?e) = 0" by code_simp+
  have run: "backend_run linux_backend [] ?e = Ret ([], ?e)" by simp
  have "omap (map_sum es_maps (\<lambda>(c, e). (buffer_bytes (cmp_buffer c), linux_endpoint_pending (es_ep e))))
      (transfer_blocking linux_backend In 3 ?b (duration_from_secs 1) ?e) = Ret (Inr ([5], 0))" by code_simp
  with transfer_blocking_consumes [OF _ _ run c(1), of In 3 "duration_from_secs 1"] c(2)
  show ?thesis unfolding Let_def by auto
qed

section \<open>Packet size zero\<close>

text \<open>
  A device can make a program panic with an endpoint descriptor whose wMaxPacketSize is zero:
  the endpoint is opened with that size, and then every submission of an IN buffer with a nonzero
  requested length, and the creation of every reader, divides by zero.
\<close>

theorem zero_packet_size_panics:
  "endpoint_max_packet_size [7, 5, 0x81, 2, 0, 0, 0] = Ret 0 \<and>
   (if be_max_packet_size B e = 0
    then reader_new B e transfer_size = Panic \<and>
      (if buffer_requested_len b \<noteq> 0 then ep_submit B In b e = Panic else True)
    else True)"
proof -
  have "endpoint_max_packet_size [7, 5, 0x81, 2, 0, 0, 0] = Ret 0" by code_simp
  then show ?thesis
    by (simp add: reader_new_def round_up_transfer_size_def ep_submit_def Let_def checked_rem_def)
qed

end
