(* ===== verification/Reader_Stream.thy ===== *)
theory Reader_Stream
  imports Reader_Theorems
begin

text \<open>
  Histories of a reader and of its short-packet adapter, with the calls of \<open>Read\<close>, \<open>BufRead\<close> and their
  asynchronous counterparts, and the properties of the reader on the Linux backend.
\<close>

section \<open>Histories\<close>

datatype read_op =
    ReadOp nat
  | PollReadOp nat nat
  | ShortReadOp nat
  | ShortPollReadOp nat nat
  | FillBufOp
  | PollFillBufOp nat
  | ConsumeOp nat
  | ShortFillBufOp
  | ShortPollFillBufOp nat
  | ShortConsumeOp nat
  | ConsumeEndOp
  | SetNumTransfersOp nat
  | SetReadTimeoutOp Duration
  | CancelAllOp

text \<open>The bytes that a call gives to the caller and the state after it.\<close>

fun given :: "'e EndpointRead + (io_error + bytes) option \<times> 'e EndpointRead \<Rightarrow> bytes \<times> 'e EndpointRead" where
  "given (Inl r) = ([], r)"
| "given (Inr (Some (Inr out), r)) = (out, r)"
| "given (Inr (Some (Inl e), r)) = ([], r)"
| "given (Inr (None, r)) = ([], r)"

definition given_now :: "'e EndpointRead + (io_error + bytes) \<times> 'e EndpointRead \<Rightarrow> bytes \<times> 'e EndpointRead" where
  "given_now x = given (map_sum id (\<lambda>(y, r). (Some y, r)) x)"

text \<open>
  \<open>fill_buf\<close> shows what is buffered and gives nothing away; \<open>consume\<close> takes the first of these bytes.
  \<open>ConsumeOp\<close> is the \<open>consume\<close> of the reader, which the asynchronous traits of the adapter call too.
\<close>

definition polled_result ::
  "'e EndpointRead + (io_error + bytes) \<times> 'e EndpointRead \<Rightarrow>
   'e EndpointRead + (io_error + bytes) option \<times> 'e EndpointRead" where
  "polled_result x = map_sum id (\<lambda>(y, r). (Some y, r)) x"

definition looked :: "'e EndpointRead + (io_error + bytes) option \<times> 'e EndpointRead \<Rightarrow> bytes \<times> 'e EndpointRead" where
  "looked x = ([], case x of Inl r \<Rightarrow> r | Inr (res, r) \<Rightarrow> r)"

definition read_step ::
  "(nat \<Rightarrow> nat) \<Rightarrow> 'e backend \<Rightarrow> nat \<Rightarrow> read_op \<Rightarrow> 'e EndpointRead \<Rightarrow> (bytes \<times> 'e EndpointRead) outcome" where
  "read_step alloc B fuel op r =
     (case op of
        ReadOp n \<Rightarrow> omap given_now (reader_read alloc B fuel n r)
      | PollReadOp cx n \<Rightarrow> omap given (reader_poll_read alloc B fuel cx n r)
      | ShortReadOp n \<Rightarrow> omap given_now (short_read alloc B fuel n r)
      | ShortPollReadOp cx n \<Rightarrow> omap given (short_poll_read alloc B fuel cx n r)
      | FillBufOp \<Rightarrow> omap (looked \<circ> polled_result) (fill_buf alloc B fuel r)
      | PollFillBufOp cx \<Rightarrow> omap looked (poll_fill_buf alloc B fuel cx r)
      | ConsumeOp n \<Rightarrow> omap (Pair (take n (unread r))) (reader_consume n r)
      | ShortFillBufOp \<Rightarrow> omap (looked \<circ> polled_result) (short_fill_buf alloc B fuel r)
      | ShortPollFillBufOp cx \<Rightarrow> omap looked (short_poll_fill_buf alloc B fuel cx r)
      | ShortConsumeOp n \<Rightarrow> omap (Pair (take n (unread r))) (short_consume n r)
      | ConsumeEndOp \<Rightarrow> omap (\<lambda>(x, r'). ([], r')) (consume_end r)
      | SetNumTransfersOp n \<Rightarrow> omap (\<lambda>r'. ([], r')) (reader_set_num_transfers alloc B n r)
      | SetReadTimeoutOp n \<Rightarrow> Ret ([], reader_set_read_timeout n r)
      | CancelAllOp \<Rightarrow> omap (\<lambda>r'. ([], r')) (reader_cancel_all B r))"

fun read_run ::
  "(nat \<Rightarrow> nat) \<Rightarrow> 'e backend \<Rightarrow> nat \<Rightarrow> read_op list \<Rightarrow> 'e EndpointRead \<Rightarrow> (bytes \<times> 'e EndpointRead) outcome"
where
  "read_run alloc B fuel [] r = Ret ([], r)"
| "read_run alloc B fuel (op # ops) r =
     obind (read_step alloc B fuel op r) (\<lambda>(out, r').
     obind (read_run alloc B fuel ops r') (\<lambda>(out', r''). Ret (out @ out', r'')))"

text \<open>
  The calls that the code refuses with a panic: a \<open>consume\<close> of more than is buffered; through the \<open>BufRead\<close>
  of the adapter, a \<open>consume\<close> of anything.
\<close>

definition bad_consume :: "read_op \<Rightarrow> 'e EndpointRead \<Rightarrow> bool" where
  "bad_consume op r \<longleftrightarrow>
     (case op of ConsumeOp n \<Rightarrow> length (unread r) < n | ShortConsumeOp n \<Rightarrow> 0 < n | _ \<Rightarrow> False)"

fun overconsumes ::
  "(nat \<Rightarrow> nat) \<Rightarrow> 'e backend \<Rightarrow> nat \<Rightarrow> read_op list \<Rightarrow> 'e EndpointRead \<Rightarrow> bool" where
  "overconsumes alloc B fuel [] r \<longleftrightarrow> False"
| "overconsumes alloc B fuel (op # ops) r \<longleftrightarrow>
     bad_consume op r \<or>
     (case read_step alloc B fuel op r of Ret (out, r') \<Rightarrow> overconsumes alloc B fuel ops r' | _ \<Rightarrow> False)"

text \<open>The result of a \<open>fill_buf\<close>: all the bytes that are buffered, an error only when there are none.\<close>

definition shows_unread ::
  "('e EndpointRead + (io_error + bytes) option \<times> 'e EndpointRead) outcome \<Rightarrow> bool" where
  "shows_unread m \<longleftrightarrow>
     (case m of
        Ret (Inr (Some (Inr xs), r)) \<Rightarrow> xs = unread r
      | Ret (Inr (Some (Inl e), r)) \<Rightarrow> unread r = []
      | Ret x \<Rightarrow> True
      | _ \<Rightarrow> False)"

context in_backend begin

lemma looked_post:
  "fill_post alloc P fuel r x \<Longrightarrow> rd_ok alloc (snd (looked x)) \<and> flow r (fst (looked x)) (snd (looked x))"
  by (auto simp: fill_post_def looked_def split: sum.splits)

lemma shows_post: "fill_post alloc P fuel r x \<Longrightarrow> shows_unread (Ret x)"
  by (auto simp: fill_post_def shows_unread_def split: sum.splits option.splits)

lemma fills_ok:
  assumes "rd_ok alloc r"
  shows "\<exists>y. fill_buf alloc B fuel r = Ret y \<and> fill_post alloc rb_has_remaining fuel r (polled_result y)"
    "\<exists>y. short_fill_buf alloc B fuel r = Ret y \<and>
      fill_post alloc rb_has_remaining_or_short_end fuel r (polled_result y)"
    "\<exists>y. poll_fill_buf alloc B fuel cx r = Ret y \<and> fill_post alloc rb_has_remaining fuel r y"
    "\<exists>y. short_poll_fill_buf alloc B fuel cx r = Ret y \<and> fill_post alloc rb_has_remaining fuel r y"
proof -
  have P: "ending rb_has_remaining" "ending rb_has_remaining_or_short_end" by (simp_all add: ending_def)
  have short: "Inl ended_without_short_packet = Inr [] \<or> (\<exists>e. Inl ended_without_short_packet = Inl e)" by simp
  note ok = fill_ok [OF P(1) disjI1 [OF refl] assms, of fuel] fill_ok [OF P(2) short assms, of fuel]
    poll_fill_ok [OF P(1) disjI1 [OF refl] assms, of fuel cx]
  show "\<exists>y. fill_buf alloc B fuel r = Ret y \<and> fill_post alloc rb_has_remaining fuel r (polled_result y)"
    unfolding fill_buf_def ready_for_eq polled_result_def by (rule ok(1))
  show "\<exists>y. short_fill_buf alloc B fuel r = Ret y \<and>
      fill_post alloc rb_has_remaining_or_short_end fuel r (polled_result y)"
    unfolding short_fill_buf_def ready_for_eq polled_result_def by (rule ok(2))
  show poll: "\<exists>y. poll_fill_buf alloc B fuel cx r = Ret y \<and> fill_post alloc rb_has_remaining fuel r y"
    unfolding poll_fill_buf_def ready_for_eq by (rule ok(3))
  then show "\<exists>y. short_poll_fill_buf alloc B fuel cx r = Ret y \<and> fill_post alloc rb_has_remaining fuel r y"
    unfolding short_poll_fill_buf_def .
qed

lemma consume_ok:
  assumes "rd_ok alloc r"
  shows "if length (unread r) < n then reader_consume n r = Panic
    else \<exists>r'. reader_consume n r = Ret r' \<and> rd_ok alloc r' \<and> flow r (take n (unread r)) r'"
proof (cases "length (unread r) < n")
  case True
  then have "reader_consume n r = Panic"
  proof (cases "er_reading r")
    case None
    with True show ?thesis by (simp add: reader_consume_def unread_def)
  next
    case (Some c)
    with assms have "rb_ok c" by (simp add: rd_ok_def)
    then have "length (rb_unread c) = buffer_len (rb_buf c) - rb_pos c"
      by (simp add: rb_unread_def rb_ok_def length_buffer_bytes)
    with Some True show ?thesis by (simp add: reader_consume_def unread_def rb_consume_def)
  qed
  with True show ?thesis by simp
next
  case False
  then have "n \<le> length (unread r)" by simp
  from reader_consume_ok [OF assms this] obtain r' where
    "reader_consume n r = Ret r'" "rd_ok alloc r'" "rd_past r' = rd_past r" "unread r' = drop n (unread r)" by blast
  with False show ?thesis by (auto simp: flow_def received_def)
qed

lemma short_consume_ok:
  assumes "rd_ok alloc r"
  shows "if 0 < n then short_consume n r = Panic
    else \<exists>r'. short_consume n r = Ret r' \<and> rd_ok alloc r' \<and> flow r (take n (unread r)) r'"
proof (cases "has_data_or_short_end r")
  case True
  with assms show ?thesis by (simp add: short_consume_def flow_refl)
next
  case False
  then have "\<not> has_data r"
    using assms not_short_end by (auto simp: rd_ok_def has_data_def has_data_or_short_end_def split: option.splits)
  then have "unread r = []" by (rule not_ready_unread [OF assms])
  with False consume_ok [OF assms, of n] show ?thesis by (cases "0 < n") (simp_all add: short_consume_def)
qed

lemma given_post:
  assumes "read_post alloc P fuel r y"
  shows "rd_ok alloc (snd (given y)) \<and> flow r (fst (given y)) (snd (given y))"
  using assms by (cases y rule: given.cases) (auto simp: read_post_def)

lemma consume_end_ok:
  assumes "rd_ok alloc r"
  shows "\<exists>x r'. consume_end r = Ret (x, r') \<and> rd_ok alloc r' \<and> flow r [] r'"
proof (cases "is_end r")
  case True
  then obtain c where c: "er_reading r = Some c" "\<not> rb_has_remaining c" by (auto simp: is_end_def split: option.splits)
  with assms have ok: "rb_ok c" by (simp add: rd_ok_def)
  have u: "rb_unread c = []" by (rule unread_not_ready [OF ok c(2)])
  have "buffer_len (rb_buf c) \<le> usize_max" using buffer_len_u32(1) [of "rb_buf c"] by (simp add: usize_max_def)
  with c ok u assms True show ?thesis
    by (auto simp: consume_end_def rb_clear_short_packet_def rd_ok_def rb_ok_def rb_has_remaining_def
        rb_error_def rb_unread_def length_buffer_bytes flow_def rd_past_def unread_def received_def
        intro!: exI [where x = "[]"])
next
  case False
  with assms show ?thesis by (simp add: consume_end_def flow_refl)
qed

lemma set_num_transfers_ok:
  assumes "rd_ok alloc r"
  shows "\<exists>r'. reader_set_num_transfers alloc B n r = Ret r' \<and> rd_ok alloc r' \<and> flow r [] r'"
proof -
  from assms have "ok (er_endpoint r)" "size_ok alloc (er_transfer_size r)" by (simp_all add: rd_ok_def)
  from submit_until_ok [OF this, of "n - 1"] obtain e where
    "submit_until alloc B (er_transfer_size r) (n - 1) (er_endpoint r) = Ret e" "ok e" "past e = past (er_endpoint r)"
    by blast
  with assms show ?thesis
    by (auto simp: reader_set_num_transfers_def rd_ok_def rd_past_def unread_def intro!: flow_refl)
qed

lemma reader_cancel_all_ok:
  assumes "rd_ok alloc r"
  shows "\<exists>r'. reader_cancel_all B r = Ret r' \<and> rd_ok alloc r' \<and> flow r [] r' \<and> er_num_transfers r' = 0"
  using assms cancel_all_ok [of "er_endpoint r"]
  by (auto simp: reader_cancel_all_def rd_ok_def rd_past_def unread_def intro!: flow_refl)

lemma read_step_ok:
  assumes "rd_ok alloc r"
  shows "if bad_consume op r then read_step alloc B fuel op r = Panic
    else \<exists>out r'. read_step alloc B fuel op r = Ret (out, r') \<and> rd_ok alloc r' \<and> flow r out r'"
proof (cases op)
  case (ReadOp n)
  from reads_ok(1) [OF assms, of fuel n] given_post show ?thesis
    unfolding ReadOp read_step_def given_now_def by (fastforce simp: omap_Ret_iff prod_eq_iff bad_consume_def)
next
  case (PollReadOp cx n)
  from reads_ok(3) [OF assms, of fuel cx n] given_post show ?thesis
    unfolding PollReadOp read_step_def by (fastforce simp: omap_Ret_iff prod_eq_iff bad_consume_def)
next
  case (ShortReadOp n)
  from reads_ok(2) [OF assms, of fuel n] given_post show ?thesis
    unfolding ShortReadOp read_step_def given_now_def by (fastforce simp: omap_Ret_iff prod_eq_iff bad_consume_def)
next
  case (ShortPollReadOp cx n)
  from reads_ok(4) [OF assms, of fuel cx n] given_post show ?thesis
    unfolding ShortPollReadOp read_step_def by (fastforce simp: omap_Ret_iff prod_eq_iff bad_consume_def)
next
  case FillBufOp
  from fills_ok(1) [OF assms, of fuel] looked_post show ?thesis
    unfolding FillBufOp read_step_def by (fastforce simp: omap_Ret_iff prod_eq_iff bad_consume_def)
next
  case (PollFillBufOp cx)
  from fills_ok(3) [OF assms, of fuel cx] looked_post show ?thesis
    unfolding PollFillBufOp read_step_def by (fastforce simp: omap_Ret_iff prod_eq_iff bad_consume_def)
next
  case (ConsumeOp n)
  with consume_ok [OF assms, of n] show ?thesis by (auto simp: read_step_def bad_consume_def split: if_splits)
next
  case ShortFillBufOp
  from fills_ok(2) [OF assms, of fuel] looked_post show ?thesis
    unfolding ShortFillBufOp read_step_def by (fastforce simp: omap_Ret_iff prod_eq_iff bad_consume_def)
next
  case (ShortPollFillBufOp cx)
  from fills_ok(4) [OF assms, of fuel cx] looked_post show ?thesis
    unfolding ShortPollFillBufOp read_step_def by (fastforce simp: omap_Ret_iff prod_eq_iff bad_consume_def)
next
  case (ShortConsumeOp n)
  with short_consume_ok [OF assms, of n] show ?thesis by (auto simp: read_step_def bad_consume_def split: if_splits)
next
  case ConsumeEndOp
  from consume_end_ok [OF assms] show ?thesis by (auto simp: ConsumeEndOp read_step_def bad_consume_def)
next
  case (SetNumTransfersOp n)
  from set_num_transfers_ok [OF assms, of n] show ?thesis
    by (auto simp: SetNumTransfersOp read_step_def bad_consume_def)
next
  case (SetReadTimeoutOp n)
  with assms show ?thesis
    by (auto simp: read_step_def reader_set_read_timeout_def rd_ok_def rd_past_def unread_def bad_consume_def
        intro!: flow_refl)
next
  case CancelAllOp
  from reader_cancel_all_ok [OF assms] show ?thesis by (auto simp: CancelAllOp read_step_def bad_consume_def)
qed

lemma read_run_outcome:
  "rd_ok alloc r \<Longrightarrow>
    if overconsumes alloc B fuel ops r then read_run alloc B fuel ops r = Panic
    else \<exists>out r'. read_run alloc B fuel ops r = Ret (out, r') \<and> rd_ok alloc r' \<and> flow r out r'"
proof (induction ops arbitrary: r)
  case Nil
  then show ?case by (simp add: flow_refl)
next
  case (Cons op ops)
  show ?case
  proof (cases "bad_consume op r")
    case True
    with read_step_ok [OF Cons.prems, of op fuel] show ?thesis by simp
  next
    case False
    with read_step_ok [OF Cons.prems, of op fuel] obtain o1 r1 where
      s: "read_step alloc B fuel op r = Ret (o1, r1)" "rd_ok alloc r1" "flow r o1 r1" by auto
    show ?thesis
    proof (cases "overconsumes alloc B fuel ops r1")
      case True
      with Cons.IH [OF s(2)] s(1) False show ?thesis by simp
    next
      case no: False
      with Cons.IH [OF s(2)] obtain out r' where
        "read_run alloc B fuel ops r1 = Ret (out, r')" "rd_ok alloc r'" "flow r1 out r'" by auto
      with no s(1) False flow_trans [OF s(3)] show ?thesis by auto
    qed
  qed
qed

lemma read_run_ok:
  assumes "rd_ok alloc r" "read_run alloc B fuel ops r = Ret (out, r')"
  shows "rd_ok alloc r' \<and> flow r out r'"
  using read_run_outcome [OF assms(1), of fuel ops] assms(2) by (auto split: if_splits)

lemma read_run_stream:
  assumes "rd_ok alloc r" "rd_past r = []" "unread r = []"
  shows "if overconsumes alloc B fuel ops r then read_run alloc B fuel ops r = Panic
    else \<exists>out r'. read_run alloc B fuel ops r = Ret (out, r') \<and> out @ unread r' = received (rd_past r') \<and>
      shows_unread (omap polled_result (fill_buf alloc B rounds r')) \<and>
      shows_unread (omap polled_result (short_fill_buf alloc B rounds r')) \<and>
      shows_unread (poll_fill_buf alloc B rounds cx r') \<and> shows_unread (short_poll_fill_buf alloc B rounds cx r')"
proof (cases "overconsumes alloc B fuel ops r")
  case True
  with read_run_outcome [OF assms(1), of fuel ops] show ?thesis by simp
next
  case False
  with read_run_outcome [OF assms(1), of fuel ops] obtain out r' where
    r: "read_run alloc B fuel ops r = Ret (out, r')" "rd_ok alloc r'" "flow r out r'" by auto
  have "shows_unread (omap polled_result (fill_buf alloc B rounds r'))"
    "shows_unread (omap polled_result (short_fill_buf alloc B rounds r'))"
    "shows_unread (poll_fill_buf alloc B rounds cx r')" "shows_unread (short_poll_fill_buf alloc B rounds cx r')"
    using fills_ok [OF r(2), of rounds] shows_post by (metis omap.simps(1))+
  moreover have "out @ unread r' = received (rd_past r')"
    using r(3) assms(2,3) by (auto simp: flow_def)
  ultimately show ?thesis using r(1) False by auto
qed

text \<open>Through the short-packet adapter, an empty read with room in the destination is the end of a packet.\<close>

lemma fill_result_ready:
  "oloop fuel (fill_round (ready_for P) (Inl e) alloc B) r = Ret (Inr (Inr xs, r')) \<Longrightarrow>
    ready_for P r' \<and> reader_remaining r' = Ret (Inr xs)"
proof (induction fuel arbitrary: r)
  case (Suc fuel)
  show ?case
  proof (cases "ready_for P r")
    case True
    with Suc.prems show ?thesis by (cases "reader_remaining r") (auto simp: fill_round_def)
  next
    case False
    obtain w r1 where w: "reader_wait alloc B r = Ret (w, r1)"
      using Suc.prems False by (auto simp: fill_round_def obind_Ret_iff)
    from Suc.prems False w have "w = Inr True"
      by (auto simp: fill_round_def split: sum.splits if_splits)
    with Suc.prems False w Suc.IH [of r1] show ?thesis by (simp add: fill_round_def)
  qed
qed simp

lemma short_fill_result:
  assumes "rd_ok alloc r" "short_fill_buf alloc B fuel r = Ret (Inr (Inr xs, r'))"
  shows "rd_ok alloc r' \<and> has_data_or_short_end r' \<and> xs = unread r' \<and> reader_remaining r' = Ret (Inr xs)"
proof -
  have P: "ending rb_has_remaining_or_short_end" by (simp add: ending_def)
  have short: "Inl ended_without_short_packet = Inr [] \<or> (\<exists>e. Inl ended_without_short_packet = Inl e)" by simp
  from fill_ok [OF P short assms(1), of fuel] assms(2) have "rd_ok alloc r'" "xs = unread r'"
    by (auto simp: short_fill_buf_def ready_for_eq fill_post_def)
  with fill_result_ready assms(2) show ?thesis by (auto simp: short_fill_buf_def ready_for_eq)
qed

lemma short_end_of_packet:
  assumes "rd_ok alloc r" "has_data_or_short_end r" "unread r = []" "reader_remaining r = Ret (Inr [])"
  shows "is_end r"
proof -
  from assms(2) obtain c where c: "er_reading r = Some c" "rb_has_remaining_or_short_end c"
    by (auto simp: has_data_or_short_end_def split: option.splits)
  with assms have ok: "rb_ok c" "rb_unread c = []" by (simp_all add: rd_ok_def unread_def)
  have pos: "rb_pos c \<le> buffer_len (rb_buf c)" using ready_pos [OF ok(1)] c(2) by blast
  have "rb_error c = None"
    using assms(4) c(1) rb_remaining_ok [OF ok(1) pos] ok(2)
    by (auto simp: reader_remaining_def split: option.splits)
  with ok pos c show ?thesis
    by (auto simp: is_end_def rb_has_remaining_def rb_unread_def rb_ok_def length_buffer_bytes)
qed

lemma short_read_empty:
  assumes r: "rd_ok alloc r" and n: "0 < n" and res: "short_read alloc B fuel n r = Ret (Inr (Inr [], r'))"
  shows "is_end r' \<and> (\<exists>c. er_reading r' = Some c \<and> buffer_len (rb_buf c) < buffer_requested_len (rb_buf c)) \<and>
    (\<exists>r''. consume_end r' = Ret (Inr (), r'') \<and> rd_ok alloc r'' \<and> flow r' [] r'' \<and> \<not> has_data_or_short_end r'')"
proof -
  obtain y where y: "short_fill_buf alloc B fuel r = Ret y" "copy_out n y = Ret (Inr (Inr [], r'))"
    using res by (auto simp: short_read_def obind_Ret_iff)
  then obtain xs r1 where xs: "y = Inr (Inr xs, r1)"
    by (auto simp: copy_out_def split: sum.splits prod.splits)
  from short_fill_result [OF r] y(1) xs have f: "rd_ok alloc r1" "has_data_or_short_end r1" "xs = unread r1"
    "reader_remaining r1 = Ret (Inr xs)" by simp_all
  from y(2) xs obtain "copy_min n xs = []" "reader_consume (min n (length xs)) r1 = Ret r'"
    by (auto simp: copy_out_def obind_Ret_iff)
  with n have e: "xs = []" "reader_consume 0 r1 = Ret r'" by (auto simp: copy_min_eq)
  have end1: "is_end r1" using short_end_of_packet f e(1) by simp
  then obtain c where c: "er_reading r1 = Some c" "\<not> rb_has_remaining c" "rb_has_remaining_or_short_end c"
    by (auto simp: is_end_def split: option.splits)
  have ok: "rb_ok c" using f(1) c(1) by (simp add: rd_ok_def)
  have "r' = r1" using e(2) c(1)
    by (cases r1; cases c) (auto simp: reader_consume_def rb_consume_def rassert_def split: if_splits)
  moreover have "buffer_len (rb_buf c) < buffer_requested_len (rb_buf c)"
    using ok c(2,3) by (auto simp: rb_ok_def rb_has_remaining_def rb_has_remaining_or_short_end_def)
  moreover have "buffer_requested_len (rb_buf c) \<le> usize_max"
    using buffer_len_u32(2) [of "rb_buf c"] by (simp add: usize_max_def)
  then have "\<not> has_data_or_short_end (r1\<lparr>er_reading := Some (rb_clear_short_packet c)\<rparr>)"
    using c(2) by (simp add: has_data_or_short_end_def rb_has_remaining_or_short_end_def
        rb_has_remaining_def rb_clear_short_packet_def rb_error_def)
  moreover have "consume_end r1 = Ret (Inr (), r1\<lparr>er_reading := Some (rb_clear_short_packet c)\<rparr>)"
    using end1 c(1) by (simp add: consume_end_def)
  ultimately show ?thesis using end1 c(1) consume_end_ok [OF f(1)] by auto
qed

lemma short_consume_panics:
  assumes "rd_ok alloc r" "short_fill_buf alloc B fuel r = Ret (Inr (Inr xs, r'))" "0 < n"
  shows "short_consume n r' = Panic"
  using short_fill_result [OF assms(1,2)] assms(3) by (simp add: short_consume_def)

lemma short_poll_fill_buf_skips_end:
  assumes "rd_ok alloc r" "is_end r"
  shows "poll_fill_buf_until_short alloc B (Suc fuel) cx r = Ret (Inr (Some (Inr []), r))"
    "short_poll_fill_buf alloc B (Suc fuel) cx r =
      obind (reader_poll alloc B cx r) (\<lambda>(w, r').
        case w of
          None \<Rightarrow> Ret (Inr (None, r'))
        | Some b \<Rightarrow> if b then short_poll_fill_buf alloc B fuel cx r' else Ret (Inr (Some (Inr []), r')))"
proof -
  from assms(2) obtain c where c: "er_reading r = Some c" "\<not> rb_has_remaining c" "rb_has_remaining_or_short_end c"
    by (auto simp: is_end_def split: option.splits)
  have ok: "rb_ok c" using assms(1) c(1) by (simp add: rd_ok_def)
  have "rb_unread c = []" "rb_error c = None"
    using unread_not_ready [OF ok c(2)] c(2) by (simp_all add: rb_has_remaining_def)
  then have "reader_remaining r = Ret (Inr [])"
    using rb_remaining_ok [OF ok] ready_pos [OF ok] c by (simp add: reader_remaining_def)
  with c show "poll_fill_buf_until_short alloc B (Suc fuel) cx r = Ret (Inr (Some (Inr []), r))"
    by (simp add: poll_fill_buf_until_short_def poll_round_def has_data_or_short_end_def)
  have "\<not> has_data r" using c by (simp add: has_data_def)
  then show "short_poll_fill_buf alloc B (Suc fuel) cx r =
      obind (reader_poll alloc B cx r) (\<lambda>(w, r').
        case w of
          None \<Rightarrow> Ret (Inr (None, r'))
        | Some b \<Rightarrow> if b then short_poll_fill_buf alloc B fuel cx r' else Ret (Inr (Some (Inr []), r')))"
    by (cases "reader_poll alloc B cx r")
      (auto simp: short_poll_fill_buf_def poll_fill_buf_def poll_round_def split: option.splits)
qed

end

section \<open>Readers on Linux\<close>

interpretation linux_in: in_backend UNIV linux_backend "es_good In" es_bufs es_past
  by (rule in_backend.intro) (rule linux.endpoint_backend_axioms)

text \<open>A reader on an endpoint that has just been opened; \<open>mmap\<close> fails whenever \<open>maps\<close> says so.\<close>

definition fresh_reader ::
  "(nat \<Rightarrow> nat \<Rightarrow> bool) \<Rightarrow> nat \<Rightarrow> nat \<Rightarrow> nat list list \<Rightarrow> nat option list \<Rightarrow> (nat \<times> nat \<times> bytes \<times> nat) list \<Rightarrow>
   ep_sys EndpointRead outcome" where
  "fresh_reader maps mps transfer_size sched submits reaps =
     reader_new linux_backend ((es_open 0x81 TBulk mps sched submits reaps)\<lparr>es_mmap := maps\<rparr>) transfer_size"

lemma fresh_reader_ok:
  assumes "fresh_reader maps mps n sched submits reaps = Ret r" "size_ok alloc (er_transfer_size r)"
  shows "linux_in.rd_ok alloc r" "es_past (er_endpoint r) = []" "unread r = []"
proof -
  have "mps \<noteq> 0" using assms(1)
    by (auto simp: fresh_reader_def reader_new_def round_up_transfer_size_def es_open_def split: if_splits)
  then have "es_good In ((es_open 0x81 TBulk mps sched submits reaps)\<lparr>es_mmap := maps\<rparr>)"
    using es_open_good [where mps = mps and addr = "0x81" and ty = TBulk and sched = sched and
        submits = submits and reaps = reaps] by (simp add: es_good_maps direction_from_address_def direction_mask_def)
  with assms show "linux_in.rd_ok alloc r" "es_past (er_endpoint r) = []" "unread r = []"
    by (auto simp: fresh_reader_def reader_new_def obind_Ret_iff linux_in.rd_ok_def unread_def)
qed

text \<open>
  C3. A reader on a Linux endpoint returns the received bytes exactly once and in order. Take any sequence
  of reads, polled reads, reads up to a short packet, \<open>fill_buf\<close>, \<open>poll_fill_buf\<close> and \<open>consume\<close> of the reader
  and of its adapter, changes of the number of transfers and of the timeout, and cancellations, with any
  schedule and any kernel within its contract, and an allocator that gives at least the transfer size and
  less than 4 GiB. It panics exactly when some call consumes more than is buffered at that point, or
  consumes anything at all through the adapter's \<open>BufRead\<close> (whose condition is the wrong way round).
  Otherwise every call returns or waits; no internal assertion fails; the bytes given to the caller,
  followed by those still buffered, are the bytes of the completions in the order of their transfers; and
  any \<open>fill_buf\<close> then shows exactly the bytes that are buffered.
\<close>

theorem reader_returns_stream:
  assumes "fresh_reader maps mps n sched submits reaps = Ret r0" "size_ok alloc (er_transfer_size r0)"
  shows "if overconsumes alloc linux_backend fuel ops r0 then read_run alloc linux_backend fuel ops r0 = Panic
    else \<exists>out r. read_run alloc linux_backend fuel ops r0 = Ret (out, r) \<and>
      out @ unread r = received (es_past (er_endpoint r)) \<and>
      shows_unread (omap polled_result (fill_buf alloc linux_backend rounds r)) \<and>
      shows_unread (omap polled_result (short_fill_buf alloc linux_backend rounds r)) \<and>
      shows_unread (poll_fill_buf alloc linux_backend rounds cx r) \<and>
      shows_unread (short_poll_fill_buf alloc linux_backend rounds cx r)"
proof -
  have "linux_in.rd_past r0 = []" using fresh_reader_ok(2) [OF assms] by (simp add: linux_in.rd_past_def)
  from linux_in.read_run_stream [OF fresh_reader_ok(1) [OF assms] this fresh_reader_ok(3) [OF assms],
      of fuel ops rounds cx]
  show ?thesis unfolding linux_in.rd_past_def .
qed

theorem reader_returns_stream_witness:
  "\<exists>r0. fresh_reader (\<lambda>_ _. True) 8 20 [[1], [2], [3]] [] [(0, 0, [1, 2, 3], 0), (0, 0, [4, 5], 0)] = Ret r0 \<and>
    omap fst (read_run id linux_backend 5
      [SetNumTransfersOp 2, ReadOp 2, PollReadOp 7 9, FillBufOp, ConsumeOp 1, ReadOp 9, ReadOp 9] r0) =
      Ret [1, 2, 3, 4, 5] \<and>
    (\<exists>out r. read_run id linux_backend 5
        [SetNumTransfersOp 2, ReadOp 2, PollReadOp 7 9, FillBufOp, ConsumeOp 1, ReadOp 9, ReadOp 9] r0 =
        Ret (out, r) \<and> out @ unread r = received (es_past (er_endpoint r))) \<and>
    read_run id linux_backend 5 [ReadOp 1, ConsumeOp 3] r0 = Panic"
proof -
  let ?ops = "[SetNumTransfersOp 2, ReadOp 2, PollReadOp 7 9, FillBufOp, ConsumeOp 1, ReadOp 9, ReadOp 9]"
  let ?over = "[ReadOp 1, ConsumeOp 3]"
  let ?r0 = "fresh_reader (\<lambda>_ _. True) 8 20 [[1], [2], [3]] [] [(0, 0, [1, 2, 3], 0), (0, 0, [4, 5], 0)]"
  have sz: "omap er_transfer_size ?r0 = Ret 24" by code_simp
  then obtain r0 where r0: "?r0 = Ret r0" "er_transfer_size r0 = 24" by (auto simp: omap_Ret_iff)
  have "obind ?r0 (\<lambda>r. omap fst (read_run id linux_backend 5 ?ops r)) = Ret [1, 2, 3, 4, 5]" by code_simp
  with r0 have out: "omap fst (read_run id linux_backend 5 ?ops r0) = Ret [1, 2, 3, 4, 5]" by simp
  have "omap (\<lambda>r. (overconsumes id linux_backend 5 ?ops r, overconsumes id linux_backend 5 ?over r)) ?r0 =
      Ret (False, True)" by code_simp
  with r0(1) have over: "\<not> overconsumes id linux_backend 5 ?ops r0" "overconsumes id linux_backend 5 ?over r0"
    by (simp_all only: omap.simps outcome.inject prod.inject simp_thms)
  have "size_ok id (er_transfer_size r0)" by (simp add: size_ok_def r0(2))
  note stream = reader_returns_stream [OF r0(1) this, where fuel = 5]
  from stream [where ops = ?ops] over(1) have "\<exists>out r. read_run id linux_backend 5 ?ops r0 = Ret (out, r) \<and>
      out @ unread r = received (es_past (er_endpoint r))" unfolding if_not_P [OF over(1)] by blast
  moreover from stream [where ops = ?over] have "read_run id linux_backend 5 ?over r0 = Panic"
    unfolding if_P [OF over(2)] .
  ultimately show ?thesis using r0(1) out by blast
qed

lemma copy_out_length: "copy_out len x = Ret (Inr (Inr bs, r)) \<Longrightarrow> length bs \<le> len"
proof (cases x)
  case (Inr y)
  moreover assume "copy_out len x = Ret (Inr (Inr bs, r))"
  ultimately show ?thesis
    by (cases y; cases "fst y") (auto simp: copy_out_def copy_min_def obind_Ret_iff)
qed (simp add: copy_out_def)

lemma reached_ok:
  assumes "fresh_reader maps mps n sched submits reaps = Ret r0" "size_ok alloc (er_transfer_size r0)"
    "read_run alloc linux_backend fuel ops r0 = Ret (out, r)"
  shows "linux_in.rd_ok alloc r"
  using linux_in.read_run_ok [OF fresh_reader_ok(1) [OF assms(1,2)] assms(3)] by simp

text \<open>
  C33. A blocking read returns as soon as it can: in every state that a reader can reach, a read that
  is still waiting after a number of completions got only completions without data and without an
  error (other than a cancellation), up to the last one, which it has not looked at; an error is
  reported only when all the data received before it has been given out.
\<close>

theorem read_returns_with_data:
  assumes "fresh_reader maps mps n sched submits reaps = Ret r0" "size_ok alloc (er_transfer_size r0)"
    "read_run alloc linux_backend fuel ops r0 = Ret (out, r)"
  shows "\<exists>y. reader_read alloc linux_backend rounds len r = Ret y \<and>
    (case y of
       Inl r' \<Rightarrow> \<exists>new. es_past (er_endpoint r') = es_past (er_endpoint r) @ new \<and> length new = rounds \<and>
         list_all (\<lambda>c. buffer_len (cmp_buffer c) = 0 \<and> (cmp_status c = Inr () \<or> cmp_status c = Inl Cancelled))
           (butlast new)
     | Inr (Inl e, r') \<Rightarrow> unread r' = []
     | Inr (Inr bytes, r') \<Rightarrow> length bytes \<le> len)"
proof -
  have rd: "linux_in.rd_ok alloc r" by (rule reached_ok [OF assms])
  have one: "buffer_len (cmp_buffer c) = 0 \<and> (cmp_status c = Inr () \<or> cmp_status c = Inl Cancelled)"
    if "\<not> rb_has_remaining (start_buffer c)" for c
    using that by (cases "cmp_status c") (auto simp: rb_has_remaining_def start_buffer_def rb_error_def split: if_splits)
  have unusable: "list_all (\<lambda>c. buffer_len (cmp_buffer c) = 0 \<and> (cmp_status c = Inr () \<or> cmp_status c = Inl Cancelled)) cs"
    if "list_all (\<lambda>c. \<not> rb_has_remaining (start_buffer c)) cs" for cs
    using that one by (simp add: list_all_iff)
  from linux_in.reads_ok(1) [OF rd, of rounds len] obtain y where y:
    "reader_read alloc linux_backend rounds len r = Ret y"
    "linux_in.read_post alloc rb_has_remaining rounds r (map_sum id (\<lambda>(x, r). (Some x, r)) y)" by blast
  show ?thesis
  proof (cases y)
    case (Inl r')
    with y(2) have "linux_in.still_waiting rb_has_remaining rounds r r'"
      by (simp add: linux_in.read_post_def)
    with y(1) Inl unusable show ?thesis
      by (auto simp: linux_in.still_waiting_def linux_in.unusable_def linux_in.rd_past_def)
  next
    case (Inr z)
    obtain res r' where z: "z = (res, r')" by (cases z)
    show ?thesis
    proof (cases res)
      case (Inl e)
      with Inr z y show ?thesis by (simp add: linux_in.read_post_def)
    next
      case (Inr bytes)
      with \<open>y = Inr z\<close> z y(1) have "length bytes \<le> len"
        by (auto simp: reader_read_def obind_Ret_iff dest: copy_out_length)
      with \<open>y = Inr z\<close> z Inr y(1) show ?thesis by simp
    qed
  qed
qed

theorem read_returns_with_data_witness:
  "\<exists>r0. fresh_reader (\<lambda>_ _. True) 8 20 [[1], [2]] [] [(0, 0, [], 0), (0, 0, [9], 0)] = Ret r0 \<and>
    (\<exists>y. reader_read id linux_backend 3 5 r0 = Ret y) \<and>
    omap (map_sum er_num_transfers fst) (reader_read id linux_backend 3 5 r0) = Ret (Inr (Inr [9]))"
proof -
  let ?r0 = "fresh_reader (\<lambda>_ _. True) 8 20 [[1], [2]] [] [(0, 0, [], 0), (0, 0, [9], 0)]"
  have sz: "omap er_transfer_size ?r0 = Ret 24" by code_simp
  then obtain r0 where r0: "?r0 = Ret r0" "er_transfer_size r0 = 24" by (auto simp: omap_Ret_iff)
  have "obind ?r0 (\<lambda>r. omap (map_sum er_num_transfers fst) (reader_read id linux_backend 3 5 r)) =
      Ret (Inr (Inr [9]))" by code_simp
  moreover have "size_ok id (er_transfer_size r0)" by (simp add: size_ok_def r0(2))
  moreover have "read_run id linux_backend 0 [] r0 = Ret ([], r0)" by simp
  ultimately show ?thesis using r0(1) read_returns_with_data [OF r0(1), of id 0 "[]" "[]" r0 3 5] by fastforce
qed

text \<open>
  The short-packet adapter ends a message where the device ended it: when a read through it
  with room in the destination returns zero bytes, the reader is at the end of a buffer that is
  shorter than was requested, \<open>is_end\<close> holds, \<open>consume_end\<close> succeeds without losing data, and after it
  the next read waits for a new transfer.
\<close>

theorem short_read_end_of_message:
  assumes "fresh_reader maps mps n sched submits reaps = Ret r0" "size_ok alloc (er_transfer_size r0)"
    "read_run alloc linux_backend fuel ops r0 = Ret (out, r)"
    "0 < len" "short_read alloc linux_backend rounds len r = Ret (Inr (Inr [], r'))"
  shows "is_end r' \<and>
    (\<exists>c. er_reading r' = Some c \<and> buffer_len (rb_buf c) < buffer_requested_len (rb_buf c)) \<and>
    (\<exists>r''. consume_end r' = Ret (Inr (), r'') \<and> unread r'' = [] \<and> unread r' = [] \<and>
       \<not> has_data_or_short_end r'')"
proof -
  have rd: "linux_in.rd_ok alloc r" by (rule reached_ok [OF assms(1-3)])
  from linux_in.short_read_empty [OF rd assms(4,5)] obtain r'' where e: "is_end r'"
    "\<exists>c. er_reading r' = Some c \<and> buffer_len (rb_buf c) < buffer_requested_len (rb_buf c)"
    "consume_end r' = Ret (Inr (), r'')" "linux_in.rd_ok alloc r''" "\<not> has_data_or_short_end r''" by blast
  have "linux_in.rd_ok alloc r'"
    using linux_in.reads_ok(2) [OF rd, of rounds len] assms(5) by (simp add: linux_in.read_post_def)
  moreover have "\<not> has_data r'" using e(1) by (auto simp: is_end_def has_data_def split: option.splits)
  moreover have "\<not> has_data r''"
    using e(4,5) not_short_end by (auto simp: linux_in.rd_ok_def has_data_def has_data_or_short_end_def split: option.splits)
  ultimately have "unread r' = []" "unread r'' = []" using linux_in.not_ready_unread e(4) by blast+
  with e show ?thesis by blast
qed

lemma short_example:
  "\<exists>r0 r r'. fresh_reader (\<lambda>_ _. True) 8 8 [[1]] [] [(0, 0, [1, 2], 0)] = Ret r0 \<and> er_transfer_size r0 = 8 \<and>
    read_run id linux_backend 2 [ShortReadOp 9] r0 = Ret ([1, 2], r) \<and>
    short_read id linux_backend 1 5 r = Ret (Inr (Inr [], r'))"
proof -
  let ?r0 = "fresh_reader (\<lambda>_ _. True) 8 8 [[1]] [] [(0, 0, [1, 2], 0)]"
  have sz: "omap er_transfer_size ?r0 = Ret 8" by code_simp
  then obtain r0 where r0: "?r0 = Ret r0" "er_transfer_size r0 = 8" by (auto simp: omap_Ret_iff)
  have "obind ?r0 (\<lambda>r. omap fst (read_run id linux_backend 2 [ShortReadOp 9] r)) = Ret [1, 2]" by code_simp
  with r0 obtain r where r: "read_run id linux_backend 2 [ShortReadOp 9] r0 = Ret ([1, 2], r)"
    by (auto simp: omap_Ret_iff)
  have "obind ?r0 (\<lambda>r. obind (read_run id linux_backend 2 [ShortReadOp 9] r) (\<lambda>(out, r).
      omap (map_sum er_num_transfers fst) (short_read id linux_backend 1 5 r))) = Ret (Inr (Inr []))" by code_simp
  then have "omap (map_sum er_num_transfers fst) (short_read id linux_backend 1 5 r) = Ret (Inr (Inr []))"
    unfolding r0(1) obind.simps r prod.case .
  then obtain x where x: "short_read id linux_backend 1 5 r = Ret x" "map_sum er_num_transfers fst x = Inr (Inr [])"
    by (auto simp: omap_Ret_iff)
  then obtain r' where "x = Inr (Inr [], r')" by (cases x) auto
  with r0 r x(1) show ?thesis by blast
qed

theorem short_read_end_of_message_witness:
  "\<exists>r' :: ep_sys EndpointRead. is_end r' \<and> (\<exists>r''. consume_end r' = Ret (Inr (), r'') \<and> \<not> has_data_or_short_end r'')"
proof -
  obtain r0 r r' where r: "fresh_reader (\<lambda>_ _. True) 8 8 [[1]] [] [(0, 0, [1, 2], 0)] = Ret r0" "er_transfer_size r0 = 8"
    "read_run id linux_backend 2 [ShortReadOp 9] r0 = Ret ([1, 2], r)"
    "short_read id linux_backend 1 5 r = Ret (Inr (Inr [], r'))" using short_example by blast
  have "size_ok id (er_transfer_size r0)" by (simp add: size_ok_def r(2))
  from short_read_end_of_message [OF r(1) this r(3) _ r(4)] show ?thesis by (simp, blast)
qed

text \<open>
  \<open>BufRead::consume\<close> of the short-packet adapter refuses what \<open>fill_buf\<close> has just returned: the two
  branches of its condition are exchanged, so that after every successful \<open>fill_buf\<close> a \<open>consume\<close> of
  one or more bytes panics, whatever the data.
\<close>

theorem short_consume_after_fill_buf_panics:
  assumes "fresh_reader maps mps n sched submits reaps = Ret r0" "size_ok alloc (er_transfer_size r0)"
    "read_run alloc linux_backend fuel ops r0 = Ret (out, r)"
    "short_fill_buf alloc linux_backend rounds r = Ret (Inr (Inr bytes, r'))" "0 < amount"
  shows "short_consume amount r' = Panic"
  by (rule linux_in.short_consume_panics [OF reached_ok [OF assms(1-3)] assms(4,5)])

theorem short_consume_after_fill_buf_panics_witness:
  "\<exists>r0 r'. fresh_reader (\<lambda>_ _. True) 8 8 [[1]] [] [(0, 0, [1, 2], 0)] = Ret r0 \<and>
    short_fill_buf id linux_backend 2 r0 = Ret (Inr (Inr [1, 2], r')) \<and> short_consume 2 r' = Panic"
proof -
  let ?r0 = "fresh_reader (\<lambda>_ _. True) 8 8 [[1]] [] [(0, 0, [1, 2], 0)]"
  have sz: "omap er_transfer_size ?r0 = Ret 8" by code_simp
  then obtain r0 where r0: "?r0 = Ret r0" "er_transfer_size r0 = 8" by (auto simp: omap_Ret_iff)
  have "obind ?r0 (\<lambda>r. omap (map_sum er_num_transfers fst) (short_fill_buf id linux_backend 2 r)) =
      Ret (Inr (Inr [1, 2]))" by code_simp
  with r0 obtain x where x: "short_fill_buf id linux_backend 2 r0 = Ret x"
    "map_sum er_num_transfers fst x = Inr (Inr [1, 2])" by (auto simp: omap_Ret_iff)
  then obtain r' where r': "x = Inr (Inr [1, 2], r')" by (cases x) auto
  have "size_ok id (er_transfer_size r0)" by (simp add: size_ok_def r0(2))
  moreover have "read_run id linux_backend 0 [] r0 = Ret ([], r0)" by simp
  ultimately have "short_consume 2 r' = Panic"
    by (rule short_consume_after_fill_buf_panics [OF r0(1) _ _ x(1) [unfolded r']]) simp
  with r0(1) x(1) r' show ?thesis by blast
qed

text \<open>
  The asynchronous \<open>poll_fill_buf\<close> of the short-packet adapter does not see the end of a packet:
  where the polled read through the adapter reports the end with zero bytes, it goes on to poll for
  the next transfer, as the reader without the adapter does.
\<close>

theorem short_poll_fill_buf_ignores_end:
  assumes "fresh_reader maps mps n sched submits reaps = Ret r0" "size_ok alloc (er_transfer_size r0)"
    "read_run alloc linux_backend fuel ops r0 = Ret (out, r)" "is_end r"
  shows "poll_fill_buf_until_short alloc linux_backend (Suc rounds) cx r = Ret (Inr (Some (Inr []), r)) \<and>
    short_poll_fill_buf alloc linux_backend (Suc rounds) cx r =
      obind (reader_poll alloc linux_backend cx r) (\<lambda>(w, r').
        case w of
          None \<Rightarrow> Ret (Inr (None, r'))
        | Some b \<Rightarrow>
            if b then short_poll_fill_buf alloc linux_backend rounds cx r' else Ret (Inr (Some (Inr []), r')))"
  using linux_in.short_poll_fill_buf_skips_end [OF reached_ok [OF assms(1-3)] assms(4)] by simp

theorem short_poll_fill_buf_ignores_end_witness:
  "\<exists>r :: ep_sys EndpointRead. is_end r \<and>
    poll_fill_buf_until_short id linux_backend 1 7 r = Ret (Inr (Some (Inr []), r))"
proof -
  obtain r0 r r' where r: "fresh_reader (\<lambda>_ _. True) 8 8 [[1]] [] [(0, 0, [1, 2], 0)] = Ret r0" "er_transfer_size r0 = 8"
    "read_run id linux_backend 2 [ShortReadOp 9] r0 = Ret ([1, 2], r)"
    "short_read id linux_backend 1 5 r = Ret (Inr (Inr [], r'))" using short_example by blast
  have sz: "size_ok id (er_transfer_size r0)" by (simp add: size_ok_def r(2))
  have "obind (fresh_reader (\<lambda>_ _. True) 8 8 [[1]] [] [(0, 0, [1, 2], 0)]) (\<lambda>r.
      omap (is_end \<circ> snd) (read_run id linux_backend 2 [ShortReadOp 9] r)) = Ret True" by code_simp
  then have "is_end r" unfolding r(1) obind.simps r(3) by simp
  with short_poll_fill_buf_ignores_end [OF r(1) sz r(3), of 0 7] show ?thesis by auto
qed

end
