(* ===== verification/Writer.thy ===== *)
theory Writer
  imports Reader
begin

text \<open>
  \<open>EndpointWrite\<close>: src/src/io/write.rs. The loops take fuel, as in the reader: \<open>Inl\<close> is a call that has
  not returned after that many rounds. The operations that reach a \<open>debug_assert!\<close> have a parameter \<open>dbg\<close>:
  whether the build has debug assertions.
\<close>

section \<open>Debug assertions\<close>

definition dassert :: "bool \<Rightarrow> bool \<Rightarrow> 'a outcome \<Rightarrow> 'a outcome" where
  "dassert dbg b k = (if dbg then rassert b k else k)"

lemma dassert_simps [simp]: "dassert False b k = k" "dassert dbg True k = k" "dassert True False k = Panic"
  by (simp_all add: dassert_def)

section \<open>State\<close>

record 'e EndpointWrite =
  ew_endpoint :: 'e
  ew_writing :: "Buffer option"
  ew_transfer_size :: nat
  ew_num_transfers :: nat
  ew_write_timeout :: Duration

definition writer_new :: "'e backend \<Rightarrow> 'e \<Rightarrow> nat \<Rightarrow> 'e EndpointWrite outcome" where
  "writer_new B endpoint transfer_size =
     obind (round_up_transfer_size transfer_size (be_max_packet_size B endpoint)) (\<lambda>transfer_size.
       Ret \<lparr>ew_endpoint = endpoint, ew_writing = None, ew_transfer_size = transfer_size,
            ew_num_transfers = 1, ew_write_timeout = duration_max\<rparr>)"

definition writer_set_num_transfers :: "nat \<Rightarrow> 'e EndpointWrite \<Rightarrow> 'e EndpointWrite outcome" where
  "writer_set_num_transfers num_transfers w =
     rassert (num_transfers > 0) (Ret (w\<lparr>ew_num_transfers := num_transfers\<rparr>))"

definition writer_set_write_timeout :: "Duration \<Rightarrow> 'e EndpointWrite \<Rightarrow> 'e EndpointWrite" where
  "writer_set_write_timeout timeout w = w\<lparr>ew_write_timeout := timeout\<rparr>"

definition writer_into_inner :: "'e EndpointWrite \<Rightarrow> 'e" where
  "writer_into_inner w = ew_endpoint w"

section \<open>Completions\<close>

definition handle_completion ::
  "bool \<Rightarrow> 'e backend \<Rightarrow> Completion \<Rightarrow> 'e EndpointWrite \<Rightarrow> ((io_error + unit) \<times> 'e EndpointWrite) outcome" where
  "handle_completion dbg B c w =
     dassert dbg ((case ew_writing w of None \<Rightarrow> 0 | Some b \<Rightarrow> buffer_len b) = 0)
       (let buf = cmp_buffer c in
        obind (if buffer_capacity buf > 0 \<and> be_pending B (ew_endpoint w) < ew_num_transfers w
               then dassert dbg (buffer_capacity buf = ew_transfer_size w)
                      (Ret (w\<lparr>ew_writing := Some (buffer_clear buf)\<rparr>))
               else Ret w)
          (\<lambda>w'. Ret (case cmp_status c of Inl e \<Rightarrow> Inl (io_of_transfer_error e) | Inr _ \<Rightarrow> Inr (), w')))"

definition wait_one :: "bool \<Rightarrow> 'e backend \<Rightarrow> 'e EndpointWrite \<Rightarrow> ((io_error + unit) \<times> 'e EndpointWrite) outcome" where
  "wait_one dbg B w =
     obind (be_wait B (ew_write_timeout w) (ew_endpoint w)) (\<lambda>(t, e).
       case t of
         None \<Rightarrow> Ret (Inl \<lparr>io_kind = IoTimedOut, io_payload = PayMessage ''write timeout''\<rparr>, w\<lparr>ew_endpoint := e\<rparr>)
       | Some c \<Rightarrow> handle_completion dbg B c (w\<lparr>ew_endpoint := e\<rparr>))"

text \<open>\<open>None\<close> is \<open>Poll::Pending\<close>.\<close>

definition poll_one ::
  "bool \<Rightarrow> 'e backend \<Rightarrow> nat \<Rightarrow> 'e EndpointWrite \<Rightarrow> ((io_error + unit) option \<times> 'e EndpointWrite) outcome" where
  "poll_one dbg B cx w =
     obind (be_poll B cx (ew_endpoint w)) (\<lambda>(t, e).
       case t of
         None \<Rightarrow> Ret (None, w\<lparr>ew_endpoint := e\<rparr>)
       | Some c \<Rightarrow> omap (\<lambda>(r, w'). (Some r, w')) (handle_completion dbg B c (w\<lparr>ew_endpoint := e\<rparr>)))"

section \<open>Writing\<close>

text \<open>
  \<open>one\<close> waits for or polls one completion: \<open>None\<close> leaves the call as \<open>Pending\<close>. The result is the
  number of bytes of \<open>src\<close> that were taken.
\<close>

definition write_round ::
  "(nat \<Rightarrow> nat) \<Rightarrow> 'e backend \<Rightarrow> ('e EndpointWrite \<Rightarrow> ((io_error + unit) option \<times> 'e EndpointWrite) outcome) \<Rightarrow>
   bytes \<Rightarrow> 'e EndpointWrite \<Rightarrow>
   ('e EndpointWrite + (io_error + nat) option \<times> 'e EndpointWrite) outcome" where
  "write_round alloc B one src w =
     (case ew_writing w of
        Some buf \<Rightarrow>
          obind (buffer_remaining_capacity buf) (\<lambda>room.
          let len = min (length src) room in
          obind (buffer_extend_from_slice (take len src) buf) (\<lambda>buf'.
          obind (buffer_remaining_capacity buf') (\<lambda>room'.
            if room' = 0
            then obind (ep_submit B Out buf' (ew_endpoint w)) (\<lambda>e.
                   Ret (Inr (Some (Inr len), w\<lparr>ew_writing := None, ew_endpoint := e\<rparr>)))
            else Ret (Inr (Some (Inr len), w\<lparr>ew_writing := Some buf'\<rparr>)))))
      | None \<Rightarrow>
          if be_pending B (ew_endpoint w) < ew_num_transfers w
          then obind (ep_allocate alloc B (ew_transfer_size w) (ew_endpoint w)) (\<lambda>buf.
                 Ret (Inl (w\<lparr>ew_writing := Some buf\<rparr>)))
          else obind (one w) (\<lambda>(r, w').
                 Ret (case r of
                        None \<Rightarrow> Inr (None, w')
                      | Some (Inl e) \<Rightarrow> Inr (Some (Inl e), w')
                      | Some (Inr _) \<Rightarrow> Inl w')))"

definition blocking_one ::
  "bool \<Rightarrow> 'e backend \<Rightarrow> 'e EndpointWrite \<Rightarrow> ((io_error + unit) option \<times> 'e EndpointWrite) outcome" where
  "blocking_one dbg B w = omap (\<lambda>(r, w'). (Some r, w')) (wait_one dbg B w)"

definition writer_write ::
  "bool \<Rightarrow> (nat \<Rightarrow> nat) \<Rightarrow> 'e backend \<Rightarrow> nat \<Rightarrow> bytes \<Rightarrow> 'e EndpointWrite \<Rightarrow>
   ('e EndpointWrite + (io_error + nat) option \<times> 'e EndpointWrite) outcome" where
  "writer_write dbg alloc B fuel src = oloop fuel (write_round alloc B (blocking_one dbg B) src)"

definition writer_poll_write ::
  "bool \<Rightarrow> (nat \<Rightarrow> nat) \<Rightarrow> 'e backend \<Rightarrow> nat \<Rightarrow> nat \<Rightarrow> bytes \<Rightarrow> 'e EndpointWrite \<Rightarrow>
   ('e EndpointWrite + (io_error + nat) option \<times> 'e EndpointWrite) outcome" where
  "writer_poll_write dbg alloc B fuel cx src = oloop fuel (write_round alloc B (poll_one dbg B cx) src)"

definition writer_submit :: "'e backend \<Rightarrow> 'e EndpointWrite \<Rightarrow> 'e EndpointWrite outcome" where
  "writer_submit B w =
     (case ew_writing w of
        Some b \<Rightarrow>
          if \<not> buffer_is_empty b
          then obind (ep_submit B Out b (ew_endpoint w)) (\<lambda>e. Ret (w\<lparr>ew_writing := None, ew_endpoint := e\<rparr>))
          else Ret w
      | None \<Rightarrow> Ret w)"

text \<open>\<open>Buffer::new(0)\<close> is the zero-length packet.\<close>

definition submit_end ::
  "(nat \<Rightarrow> nat) \<Rightarrow> 'e backend \<Rightarrow> 'e EndpointWrite \<Rightarrow> 'e EndpointWrite outcome" where
  "submit_end alloc B w =
     obind (case ew_writing w of
              Some t \<Rightarrow>
                obind (ep_submit B Out t (ew_endpoint w)) (\<lambda>e.
                obind (if buffer_len t \<noteq> 0
                       then omap (\<lambda>r. r = 0) (checked_rem (buffer_len t) (be_max_packet_size B e))
                       else Ret False) (\<lambda>zlp.
                  Ret (zlp, w\<lparr>ew_writing := None, ew_endpoint := e\<rparr>)))
            | None \<Rightarrow> Ret (True, w))
       (\<lambda>(zlp, w1).
          if zlp
          then obind (buffer_new alloc 0) (\<lambda>b.
               obind (ep_submit B Out b (ew_endpoint w1)) (\<lambda>e. Ret (w1\<lparr>ew_endpoint := e\<rparr>)))
          else Ret w1)"

section \<open>Flushing\<close>

definition flush_round ::
  "'e backend \<Rightarrow> ('e EndpointWrite \<Rightarrow> ((io_error + unit) option \<times> 'e EndpointWrite) outcome) \<Rightarrow>
   'e EndpointWrite \<Rightarrow> ('e EndpointWrite + (io_error + unit) option \<times> 'e EndpointWrite) outcome" where
  "flush_round B one w =
     (if be_pending B (ew_endpoint w) > 0
      then obind (one w) (\<lambda>(r, w').
             Ret (case r of
                    None \<Rightarrow> Inr (None, w')
                  | Some (Inl e) \<Rightarrow> Inr (Some (Inl e), w')
                  | Some (Inr _) \<Rightarrow> Inl w'))
      else Ret (Inr (Some (Inr ()), w)))"

text \<open>A round more than there are pending transfers is always enough.\<close>

definition wait_all ::
  "'e backend \<Rightarrow> ('e EndpointWrite \<Rightarrow> ((io_error + unit) option \<times> 'e EndpointWrite) outcome) \<Rightarrow>
   'e EndpointWrite \<Rightarrow> ((io_error + unit) option \<times> 'e EndpointWrite) outcome" where
  "wait_all B one w = must_end (oloop (Suc (be_pending B (ew_endpoint w))) (flush_round B one) w)"

definition flush_blocking ::
  "bool \<Rightarrow> 'e backend \<Rightarrow> 'e EndpointWrite \<Rightarrow> ((io_error + unit) option \<times> 'e EndpointWrite) outcome" where
  "flush_blocking dbg B w = obind (writer_submit B w) (wait_all B (blocking_one dbg B))"

definition flush_end ::
  "bool \<Rightarrow> (nat \<Rightarrow> nat) \<Rightarrow> 'e backend \<Rightarrow> 'e EndpointWrite \<Rightarrow> ((io_error + unit) option \<times> 'e EndpointWrite) outcome" where
  "flush_end dbg alloc B w = obind (submit_end alloc B w) (wait_all B (blocking_one dbg B))"

definition writer_poll_flush ::
  "bool \<Rightarrow> 'e backend \<Rightarrow> nat \<Rightarrow> 'e EndpointWrite \<Rightarrow> ((io_error + unit) option \<times> 'e EndpointWrite) outcome" where
  "writer_poll_flush dbg B cx w = obind (writer_submit B w) (wait_all B (poll_one dbg B cx))"

text \<open>
  \<open>flush_end_async\<close>: the future is polled with the wakers of the list; the first poll submits, a poll
  that is \<open>Pending\<close> is followed by the next one, and \<open>None\<close> says that it is still pending at the end
  of the list, where it may be dropped.
\<close>

fun flush_polls ::
  "bool \<Rightarrow> 'e backend \<Rightarrow> nat list \<Rightarrow> (io_error + unit) option \<times> 'e EndpointWrite \<Rightarrow>
   ((io_error + unit) option \<times> 'e EndpointWrite) outcome" where
  "flush_polls dbg B [] x = Ret x"
| "flush_polls dbg B (cx # cxs) (None, w) = obind (wait_all B (poll_one dbg B cx) w) (flush_polls dbg B cxs)"
| "flush_polls dbg B (cx # cxs) (Some r, w) = Ret (Some r, w)"

definition flush_end_async ::
  "bool \<Rightarrow> (nat \<Rightarrow> nat) \<Rightarrow> 'e backend \<Rightarrow> nat list \<Rightarrow> 'e EndpointWrite \<Rightarrow>
   ((io_error + unit) option \<times> 'e EndpointWrite) outcome" where
  "flush_end_async dbg alloc B cxs w =
     (if cxs = [] then Ret (None, w)
      else obind (submit_end alloc B w) (\<lambda>w1. flush_polls dbg B cxs (None, w1)))"

end
