(* ===== verification/Writer_Theorems.thy ===== *)
theory Writer_Theorems
  imports Writer Linux_Endpoint_Theorems
begin

text \<open>
  What a writer promises on a backend that keeps its contract: every byte it accepts is handed to the
  endpoint exactly once and in order or is still in its buffer, flushing ends, and the end of a message
  is a short packet. Without debug assertions nothing panics, whatever capacity the allocator gives; with
  them the same holds if it gives exactly what is asked, and otherwise a build with debug assertions does
  what a build without them does, or panics.
\<close>

section \<open>The invariant\<close>

text \<open>The bytes that were handed to the endpoint: those of past transfers, then those of pending ones.\<close>

definition sent :: "Completion list \<Rightarrow> Buffer list \<Rightarrow> bytes" where
  "sent cs bs = concat (map buffer_bytes (map cmp_buffer cs @ bs))"

lemma sent_submit [simp]: "sent cs (bs @ [b]) = sent cs bs @ buffer_bytes b"
  by (simp add: sent_def)

lemma sent_complete: "returned_for A Out b c \<Longrightarrow> sent (cs @ [c]) bs = sent cs (b # bs)"
  by (simp add: sent_def returned_for_def)

text \<open>Bytes in the buffer that is being written.\<close>

definition buffered :: "'e EndpointWrite \<Rightarrow> bytes" where
  "buffered w = (case ew_writing w of None \<Rightarrow> [] | Some b \<Rightarrow> buffer_bytes b)"

text \<open>
  \<open>Vec::with_capacity\<close> promises at least what is asked (\<open>size_ok\<close>). An allocator that gives exactly what is
  asked, for transfers and for zero-length packets, is what the debug assertion of \<open>handle_completion\<close>
  expects.
\<close>

definition exact_alloc :: "(nat \<Rightarrow> nat) \<Rightarrow> nat \<Rightarrow> bool" where
  "exact_alloc alloc n \<longleftrightarrow> alloc 0 = 0 \<and> alloc n = n"

fun writing_ok :: "Buffer option \<Rightarrow> bool" where
  "writing_ok None \<longleftrightarrow> True"
| "writing_ok (Some b) \<longleftrightarrow> buffer_ok b \<and> buffer_len b < buffer_capacity b"

definition exact_capacity :: "nat \<Rightarrow> Buffer \<Rightarrow> bool" where
  "exact_capacity n b \<longleftrightarrow> buffer_capacity b = 0 \<or> buffer_capacity b = n"

text \<open>A short packet: its length is zero or not a multiple of the packet size.\<close>

definition short_packet :: "nat \<Rightarrow> Buffer \<Rightarrow> bool" where
  "short_packet packet b \<longleftrightarrow> buffer_len b = 0 \<or> \<not> packet dvd buffer_len b"

section \<open>Debug assertions\<close>

text \<open>The first outcome is the second one, unless it is a panic.\<close>

definition or_panics :: "'a outcome \<Rightarrow> 'a outcome \<Rightarrow> bool" where
  "or_panics m m' \<longleftrightarrow> m = Panic \<or> m = m'"

lemma or_panics_refl [simp]: "or_panics m m"
  by (simp add: or_panics_def)

lemma or_panics_dassert: "or_panics m m' \<Longrightarrow> or_panics (dassert dbg b m) m'"
  by (auto simp: or_panics_def dassert_def rassert_def)

lemma or_panics_bind: "or_panics m m' \<Longrightarrow> (\<And>x. or_panics (f x) (f' x)) \<Longrightarrow> or_panics (obind m f) (obind m' f')"
  unfolding or_panics_def by (cases m) (force+)

lemma or_panics_map: "or_panics m m' \<Longrightarrow> or_panics (omap f m) (omap f m')"
  by (auto simp: or_panics_def)

lemma or_panics_loop: "(\<And>s. or_panics (step s) (step' s)) \<Longrightarrow> or_panics (oloop n step s) (oloop n step' s)"
proof (induction n arbitrary: s)
  case (Suc n)
  show ?case by (simp, rule or_panics_bind [OF Suc.prems]) (auto split: sum.split intro: Suc)
qed simp

lemma or_panics_must_end: "or_panics m m' \<Longrightarrow> or_panics (must_end m) (must_end m')"
  by (auto simp: must_end_def or_panics_def)

text \<open>A build with debug assertions does what one without them does, or panics.\<close>

lemma debug_one:
  "or_panics (handle_completion True B c w) (handle_completion False B c w)"
  "or_panics (poll_one True B cx w) (poll_one False B cx w)"
  "or_panics (blocking_one True B w) (blocking_one False B w)"
proof -
  show hc: "or_panics (handle_completion True B c w) (handle_completion False B c w)" for c w
    unfolding handle_completion_def Let_def dassert_simps(1)
    by (intro or_panics_dassert or_panics_bind or_panics_refl) (auto intro: or_panics_dassert)
  show "or_panics (poll_one True B cx w) (poll_one False B cx w)"
    unfolding poll_one_def by (rule or_panics_bind) (auto split: option.split intro!: or_panics_map hc)
  show "or_panics (blocking_one True B w) (blocking_one False B w)"
    unfolding blocking_one_def wait_one_def
    by (intro or_panics_map or_panics_bind) (auto split: option.split intro!: hc)
qed

lemma debug_write_round:
  assumes "\<And>w. or_panics (one w) (one' w)"
  shows "or_panics (write_round alloc B one src w) (write_round alloc B one' src w)"
  unfolding write_round_def by (auto split: option.split intro: or_panics_bind assms)

lemma debug_wait_all:
  assumes "\<And>w. or_panics (one w) (one' w)"
  shows "or_panics (wait_all B one w) (wait_all B one' w)"
  unfolding wait_all_def flush_round_def
  by (intro or_panics_must_end or_panics_loop) (auto intro: or_panics_bind assms)

lemma debug_writes:
  "or_panics (writer_write True alloc B fuel src w) (writer_write False alloc B fuel src w)"
  "or_panics (writer_poll_write True alloc B fuel cx src w) (writer_poll_write False alloc B fuel cx src w)"
  unfolding writer_write_def writer_poll_write_def by (intro or_panics_loop debug_write_round debug_one)+

lemma debug_flush_polls: "or_panics (flush_polls True B cxs x) (flush_polls False B cxs x)"
  by (induction "True" B cxs x rule: flush_polls.induct) (simp_all add: or_panics_bind debug_wait_all debug_one)

lemma debug_flushes:
  "or_panics (flush_blocking True B w) (flush_blocking False B w)"
  "or_panics (flush_end True alloc B w) (flush_end False alloc B w)"
  "or_panics (writer_poll_flush True B cx w) (writer_poll_flush False B cx w)"
  "or_panics (flush_end_async True alloc B cxs w) (flush_end_async False alloc B cxs w)"
  unfolding flush_blocking_def flush_end_def writer_poll_flush_def flush_end_async_def
  by (auto intro!: or_panics_bind debug_wait_all debug_one debug_flush_polls)

section \<open>Writers on a backend\<close>

locale out_backend = endpoint_backend A B Out ok queue past
  for A and B :: "'e backend" and ok queue past
begin

text \<open>With debug assertions the capacities of the buffers that may come back matter.\<close>

definition wr_ok :: "bool \<Rightarrow> (nat \<Rightarrow> nat) \<Rightarrow> 'e EndpointWrite \<Rightarrow> bool" where
  "wr_ok dbg alloc w \<longleftrightarrow> ok (ew_endpoint w) \<and> size_ok alloc (ew_transfer_size w) \<and> size_ok alloc 0 \<and>
     0 < ew_transfer_size w \<and> 0 < ew_num_transfers w \<and> writing_ok (ew_writing w) \<and>
     (dbg \<longrightarrow> exact_alloc alloc (ew_transfer_size w) \<and>
        list_all (exact_capacity (ew_transfer_size w)) (queue (ew_endpoint w)) \<and>
        pred_option (exact_capacity (ew_transfer_size w)) (ew_writing w))"

definition wr_sent :: "'e EndpointWrite \<Rightarrow> bytes" where
  "wr_sent w = sent (past (ew_endpoint w)) (queue (ew_endpoint w))"

text \<open>Between two states the writer has taken the bytes \<open>xs\<close>.\<close>

definition took :: "'e EndpointWrite \<Rightarrow> bytes \<Rightarrow> 'e EndpointWrite \<Rightarrow> bool" where
  "took w xs w' \<longleftrightarrow> wr_sent w' @ buffered w' = wr_sent w @ buffered w @ xs"

lemma took_refl: "wr_sent w' = wr_sent w \<Longrightarrow> buffered w' = buffered w \<Longrightarrow> took w [] w'"
  by (simp add: took_def)

lemma took_trans: "took w xs w1 \<Longrightarrow> took w1 ys w2 \<Longrightarrow> took w (xs @ ys) w2"
  unfolding took_def by (metis append.assoc)

lemma buffered_len: "buffer_ok b \<Longrightarrow> buffer_len b = 0 \<longleftrightarrow> buffer_bytes b = []"
  by (metis length_0_conv length_buffer_bytes)

lemma handle_completion_ok:
  assumes w: "wr_ok dbg alloc w" and empty: "buffered w = []" and c: "buffer_ok (cmp_buffer c)"
    "dbg \<longrightarrow> exact_capacity (ew_transfer_size w) (cmp_buffer c)"
  shows "\<exists>r w'. handle_completion dbg B c w = Ret (r, w') \<and> wr_ok dbg alloc w' \<and> ew_endpoint w' = ew_endpoint w \<and>
    buffered w' = [] \<and> ew_num_transfers w' = ew_num_transfers w \<and> (r = Inr () \<longleftrightarrow> cmp_status c = Inr ())"
proof -
  have len: "(case ew_writing w of None \<Rightarrow> 0 | Some b \<Rightarrow> buffer_len b) = 0"
    using w empty buffered_len by (auto simp: wr_ok_def buffered_def split: option.splits)
  show ?thesis
  proof (cases "buffer_capacity (cmp_buffer c) > 0 \<and> be_pending B (ew_endpoint w) < ew_num_transfers w")
    case True
    have clear: "buffer_capacity (buffer_clear (cmp_buffer c)) = buffer_capacity (cmp_buffer c)"
      "buffer_len (buffer_clear (cmp_buffer c)) = 0"
      by (simp_all add: buffer_clear_def buffer_capacity_def buffer_len_def)
    have cap: "dbg \<longrightarrow> buffer_capacity (cmp_buffer c) = ew_transfer_size w"
      using True c(2) by (simp add: exact_capacity_def)
    then have "dassert dbg (buffer_capacity (cmp_buffer c) = ew_transfer_size w) k = k"
      for k :: "'e EndpointWrite outcome" by (cases dbg) simp_all
    with True clear cap c(1) w len show ?thesis
      by (auto simp: handle_completion_def Let_def wr_ok_def buffered_def buffer_clear_ok buffer_bytes_clear
          exact_capacity_def split: sum.splits)
  next
    case False
    with w empty len show ?thesis
      by (auto simp: handle_completion_def Let_def split: sum.splits)
  qed
qed

text \<open>Taking one completion, blocking or polled.\<close>

definition one_ok ::
  "bool \<Rightarrow> (nat \<Rightarrow> nat) \<Rightarrow> ('e EndpointWrite \<Rightarrow> ((io_error + unit) option \<times> 'e EndpointWrite) outcome) \<Rightarrow> bool" where
  "one_ok dbg alloc one \<longleftrightarrow>
     (\<forall>w. wr_ok dbg alloc w \<and> buffered w = [] \<and> queue (ew_endpoint w) \<noteq> [] \<longrightarrow>
        (\<exists>r w'. one w = Ret (r, w') \<and> wr_ok dbg alloc w' \<and> wr_sent w' = wr_sent w \<and> buffered w' = [] \<and>
           length (queue (ew_endpoint w')) \<le> length (queue (ew_endpoint w)) \<and>
           (r = Some (Inr ()) \<longrightarrow> length (queue (ew_endpoint w')) < length (queue (ew_endpoint w)))))"

lemma completed_ok:
  assumes w: "wr_ok dbg alloc w" and empty: "buffered w = []" and q: "queue (ew_endpoint w) = b # bs"
    and e: "ok e" "queue e = bs" "past e = past (ew_endpoint w) @ [c]" "returned_for A Out b c"
  shows "\<exists>r w'. handle_completion dbg B c (w\<lparr>ew_endpoint := e\<rparr>) = Ret (r, w') \<and> wr_ok dbg alloc w' \<and>
    wr_sent w' = wr_sent w \<and> buffered w' = [] \<and> queue (ew_endpoint w') = bs"
proof -
  have "wr_ok dbg alloc (w\<lparr>ew_endpoint := e\<rparr>)" using w q e by (simp add: wr_ok_def)
  moreover have "buffered (w\<lparr>ew_endpoint := e\<rparr>) = []" using empty by (simp add: buffered_def)
  moreover have "buffer_ok (cmp_buffer c)" using e(4) by (simp add: returned_for_def)
  moreover have "dbg \<longrightarrow> exact_capacity (ew_transfer_size (w\<lparr>ew_endpoint := e\<rparr>)) (cmp_buffer c)"
    using w q e(4) by (auto simp: wr_ok_def returned_for_def exact_capacity_def buffer_capacity_def)
  ultimately obtain r w' where "handle_completion dbg B c (w\<lparr>ew_endpoint := e\<rparr>) = Ret (r, w')" "wr_ok dbg alloc w'"
    "ew_endpoint w' = e" "buffered w' = []"
    using handle_completion_ok [of dbg alloc "w\<lparr>ew_endpoint := e\<rparr>" c] by auto
  with e q sent_complete [OF e(4)] show ?thesis by (auto simp: wr_sent_def)
qed

lemma blocking_one_ok: "one_ok dbg alloc (blocking_one dbg B)"
  unfolding one_ok_def
proof (intro allI impI)
  fix w assume a: "wr_ok dbg alloc w \<and> buffered w = [] \<and> queue (ew_endpoint w) \<noteq> []"
  then have w: "wr_ok dbg alloc w" "buffered w = []" "ok (ew_endpoint w)" by (simp_all add: wr_ok_def)
  from a obtain b bs where q: "queue (ew_endpoint w) = b # bs" by (cases "queue (ew_endpoint w)") auto
  from wait_ok [OF w(3) q, of "ew_write_timeout w"] obtain t e where
    t: "be_wait B (ew_write_timeout w) (ew_endpoint w) = Ret (t, e)" "ok e"
      "case t of None \<Rightarrow> queue e = queue (ew_endpoint w) \<and> past e = past (ew_endpoint w)
       | Some c \<Rightarrow> queue e = bs \<and> past e = past (ew_endpoint w) @ [c] \<and> returned_for A Out b c" by blast
  show "\<exists>r w'. blocking_one dbg B w = Ret (r, w') \<and> wr_ok dbg alloc w' \<and> wr_sent w' = wr_sent w \<and> buffered w' = [] \<and>
      length (queue (ew_endpoint w')) \<le> length (queue (ew_endpoint w)) \<and>
      (r = Some (Inr ()) \<longrightarrow> length (queue (ew_endpoint w')) < length (queue (ew_endpoint w)))"
  proof (cases t)
    case None
    with t w show ?thesis by (simp add: blocking_one_def wait_one_def wr_ok_def wr_sent_def buffered_def)
  next
    case (Some c)
    with t(2,3) completed_ok [OF w(1,2) q] obtain r w' where
      "handle_completion dbg B c (w\<lparr>ew_endpoint := e\<rparr>) = Ret (r, w')" "wr_ok dbg alloc w'" "wr_sent w' = wr_sent w"
      "buffered w' = []" "queue (ew_endpoint w') = bs" by (auto, blast)
    with t(1) Some q show ?thesis by (simp add: blocking_one_def wait_one_def)
  qed
qed

lemma poll_one_ok: "one_ok dbg alloc (poll_one dbg B cx)"
  unfolding one_ok_def
proof (intro allI impI)
  fix w assume a: "wr_ok dbg alloc w \<and> buffered w = [] \<and> queue (ew_endpoint w) \<noteq> []"
  then have w: "wr_ok dbg alloc w" "buffered w = []" "ok (ew_endpoint w)" by (simp_all add: wr_ok_def)
  from a obtain b bs where q: "queue (ew_endpoint w) = b # bs" by (cases "queue (ew_endpoint w)") auto
  from poll_ok [OF w(3) q, of cx] obtain t e where
    t: "be_poll B cx (ew_endpoint w) = Ret (t, e)" "ok e"
      "case t of None \<Rightarrow> queue e = queue (ew_endpoint w) \<and> past e = past (ew_endpoint w)
       | Some c \<Rightarrow> queue e = bs \<and> past e = past (ew_endpoint w) @ [c] \<and> returned_for A Out b c" by blast
  show "\<exists>r w'. poll_one dbg B cx w = Ret (r, w') \<and> wr_ok dbg alloc w' \<and> wr_sent w' = wr_sent w \<and> buffered w' = [] \<and>
      length (queue (ew_endpoint w')) \<le> length (queue (ew_endpoint w)) \<and>
      (r = Some (Inr ()) \<longrightarrow> length (queue (ew_endpoint w')) < length (queue (ew_endpoint w)))"
  proof (cases t)
    case None
    with t w show ?thesis by (simp add: poll_one_def wr_ok_def wr_sent_def buffered_def)
  next
    case (Some c)
    with t(2,3) completed_ok [OF w(1,2) q] obtain r w' where
      "handle_completion dbg B c (w\<lparr>ew_endpoint := e\<rparr>) = Ret (r, w')" "wr_ok dbg alloc w'" "wr_sent w' = wr_sent w"
      "buffered w' = []" "queue (ew_endpoint w') = bs" by (auto, blast)
    with t(1) Some q show ?thesis by (simp add: poll_one_def)
  qed
qed

text \<open>Handing a buffer over.\<close>

lemma submit_buffer_ok:
  assumes "wr_ok dbg alloc w" "buffer_ok b" "dbg \<longrightarrow> exact_capacity (ew_transfer_size w) b"
  shows "\<exists>e. ep_submit B Out b (ew_endpoint w) = Ret e \<and> wr_ok dbg alloc (w\<lparr>ew_writing := None, ew_endpoint := e\<rparr>) \<and>
    queue e = queue (ew_endpoint w) @ [b] \<and> be_max_packet_size B e = be_max_packet_size B (ew_endpoint w) \<and>
    wr_sent (w\<lparr>ew_writing := None, ew_endpoint := e\<rparr>) = wr_sent w @ buffer_bytes b"
  using ep_submit_ok [of "ew_endpoint w" b Out] assms by (auto simp: wr_ok_def wr_sent_def)

section \<open>Writing\<close>

lemma extend_fresh:
  assumes "buffer_ok b" "buffer_capacity b = n" "buffer_len b < n"
  shows "\<exists>b'. buffer_extend_from_slice (take (min (length src) (n - buffer_len b)) src) b = Ret b' \<and>
    buffer_ok b' \<and> buffer_capacity b' = n \<and>
    buffer_bytes b' = buffer_bytes b @ take (min (length src) (n - buffer_len b)) src"
proof -
  have "length (buffer_bytes b) + length (take (min (length src) (n - buffer_len b)) src) \<le> buffer_capacity b"
    using assms by (simp add: length_buffer_bytes)
  from sink.extend_fits [OF assms(1) this] assms(2) show ?thesis by auto
qed

lemma remaining_capacity_ok:
  "buffer_ok b \<Longrightarrow> buffer_remaining_capacity b = Ret (buffer_capacity b - buffer_len b)"
  by (simp add: buffer_remaining_capacity_def buffer_ok_def buffer_len_def buffer_capacity_def)

definition write_post ::
  "bool \<Rightarrow> (nat \<Rightarrow> nat) \<Rightarrow> bytes \<Rightarrow> 'e EndpointWrite \<Rightarrow> (io_error + nat) option \<times> 'e EndpointWrite \<Rightarrow> bool" where
  "write_post dbg alloc src w x \<longleftrightarrow> wr_ok dbg alloc (snd x) \<and>
     (case fst x of
        Some (Inr n) \<Rightarrow> n \<le> length src \<and> (src \<noteq> [] \<longrightarrow> 0 < n) \<and> took w (take n src) (snd x)
      | _ \<Rightarrow> took w [] (snd x))"

lemma write_some_ok:
  assumes w: "wr_ok dbg alloc w" and b: "ew_writing w = Some b"
  shows "\<exists>x. write_round alloc B one src w = Ret (Inr x) \<and> write_post dbg alloc src w x"
proof -
  let ?n = "buffer_capacity b" and ?len = "min (length src) (buffer_capacity b - buffer_len b)"
  from w b have ok: "buffer_ok b" "buffer_len b < ?n" "dbg \<longrightarrow> exact_capacity (ew_transfer_size w) b"
    by (simp_all add: wr_ok_def)
  from extend_fresh [OF ok(1) refl ok(2), of src] obtain b' where
    b': "buffer_extend_from_slice (take ?len src) b = Ret b'" "buffer_ok b'" "buffer_capacity b' = ?n"
      "buffer_bytes b' = buffer_bytes b @ take ?len src" by blast
  have len: "buffer_len b' \<le> ?n"
    using b'(2,3) by (simp add: buffer_ok_def buffer_len_def buffer_capacity_def)
  show ?thesis
  proof (cases "buffer_len b' = ?n")
    case True
    have "dbg \<longrightarrow> exact_capacity (ew_transfer_size w) b'" using ok(3) b'(3) by (simp add: exact_capacity_def)
    from submit_buffer_ok [OF w b'(2) this] obtain e where e: "ep_submit B Out b' (ew_endpoint w) = Ret e"
      "wr_ok dbg alloc (w\<lparr>ew_writing := None, ew_endpoint := e\<rparr>)"
      "wr_sent (w\<lparr>ew_writing := None, ew_endpoint := e\<rparr>) = wr_sent w @ buffer_bytes b'" by blast
    with True b b' ok show ?thesis
      by (auto simp: write_round_def remaining_capacity_ok Let_def write_post_def took_def buffered_def)
  next
    case False
    with len b b' ok w show ?thesis
      by (auto simp: write_round_def remaining_capacity_ok Let_def write_post_def took_def buffered_def
          wr_ok_def wr_sent_def exact_capacity_def)
  qed
qed

lemma write_none_ok:
  assumes w: "wr_ok dbg alloc w" and n: "ew_writing w = None" and one: "one_ok dbg alloc one"
  shows "\<exists>x. write_round alloc B one src w = Ret x \<and>
    (case x of Inl w' \<Rightarrow> wr_ok dbg alloc w' \<and> took w [] w' | Inr x \<Rightarrow> write_post dbg alloc src w x)"
proof (cases "be_pending B (ew_endpoint w) < ew_num_transfers w")
  case True
  from w have ok: "ok (ew_endpoint w)" "size_ok alloc (ew_transfer_size w)" "0 < ew_transfer_size w"
    by (simp_all add: wr_ok_def)
  from ep_allocate_ok [OF ok(1,2)] obtain b where
    b: "ep_allocate alloc B (ew_transfer_size w) (ew_endpoint w) = Ret b" "fresh_buffer (ew_transfer_size w) b"
      "buffer_capacity b = ew_transfer_size w \<or> buffer_capacity b = alloc (ew_transfer_size w)" by blast
  have "dbg \<longrightarrow> exact_capacity (ew_transfer_size w) b"
    using b(3) w by (auto simp: wr_ok_def exact_alloc_def exact_capacity_def)
  moreover have "0 < buffer_capacity b" using b(3) ok(2,3) by (auto simp: size_ok_def)
  moreover have "buffer_len b = 0" "buffer_ok b" "buffer_bytes b = []"
    using b(2) buffered_len by (auto simp: fresh_buffer_def)
  ultimately show ?thesis using True n b(1) w
    by (auto simp: write_round_def wr_ok_def took_def wr_sent_def buffered_def)
next
  case False
  have e: "buffered w = []" using n by (simp add: buffered_def)
  have q: "queue (ew_endpoint w) \<noteq> []" using False w by (auto simp: wr_ok_def pending_eq)
  from one w e q obtain r w' where r: "one w = Ret (r, w')" "wr_ok dbg alloc w'" "wr_sent w' = wr_sent w"
    "buffered w' = []" unfolding one_ok_def by blast
  then have "took w [] w'" using e by (simp add: took_def)
  with False n r show ?thesis
    by (auto simp: write_round_def write_post_def split: option.splits sum.splits)
qed

lemma write_loop_ok:
  assumes w: "wr_ok dbg alloc w" and one: "one_ok dbg alloc one"
  shows "\<exists>x. oloop fuel (write_round alloc B one src) w = Ret x \<and>
    (case x of Inl w' \<Rightarrow> wr_ok dbg alloc w' \<and> took w [] w' | Inr x \<Rightarrow> write_post dbg alloc src w x)"
  using w
proof (induction fuel arbitrary: w)
  case 0
  then show ?case by (simp add: took_refl)
next
  case (Suc fuel)
  show ?case
  proof (cases "ew_writing w")
    case None
    from write_none_ok [OF Suc.prems None one, of src] obtain x where x: "write_round alloc B one src w = Ret x"
      "case x of Inl w' \<Rightarrow> wr_ok dbg alloc w' \<and> took w [] w' | Inr x \<Rightarrow> write_post dbg alloc src w x" by blast
    show ?thesis
    proof (cases x)
      case (Inl w1)
      with x(2) have w1: "wr_ok dbg alloc w1" "took w [] w1" by simp_all
      from Suc.IH [OF w1(1)] obtain y where y: "oloop fuel (write_round alloc B one src) w1 = Ret y"
        "case y of Inl w' \<Rightarrow> wr_ok dbg alloc w' \<and> took w1 [] w' | Inr x \<Rightarrow> write_post dbg alloc src w1 x" by blast
      have tr: "took w zs w2" if "took w1 zs w2" for zs w2 using took_trans [OF w1(2) that] by simp
      have "write_post dbg alloc src w z" if "write_post dbg alloc src w1 z" for z
        using that tr by (auto simp: write_post_def split: option.splits sum.splits)
      with x(1) Inl y tr show ?thesis by (auto split: sum.splits)
    qed (use x in simp)
  next
    case (Some b)
    from write_some_ok [OF Suc.prems this, of one src] show ?thesis by auto
  qed
qed

section \<open>Submitting and flushing\<close>

lemma writer_submit_ok:
  assumes "wr_ok dbg alloc w"
  shows "\<exists>w'. writer_submit B w = Ret w' \<and> wr_ok dbg alloc w' \<and> took w [] w' \<and> buffered w' = []"
proof (cases "ew_writing w")
  case None
  with assms show ?thesis by (simp add: writer_submit_def took_refl buffered_def)
next
  case (Some b)
  with assms have b: "buffer_ok b" "dbg \<longrightarrow> exact_capacity (ew_transfer_size w) b" by (simp_all add: wr_ok_def)
  have e: "buffer_is_empty b \<longleftrightarrow> buffer_bytes b = []"
    using buffered_len [OF b(1)] by (simp add: buffer_is_empty_def buffer_len_def unat_eq_0)
  from submit_buffer_ok [OF assms b] Some assms e show ?thesis
    by (cases "buffer_is_empty b") (auto simp: writer_submit_def took_def buffered_def)
qed

lemma submit_end_ok:
  assumes "wr_ok dbg alloc w"
  shows "\<exists>w' bs. submit_end alloc B w = Ret w' \<and> wr_ok dbg alloc w' \<and> took w [] w' \<and> buffered w' = [] \<and>
    queue (ew_endpoint w') = queue (ew_endpoint w) @ bs \<and> bs \<noteq> [] \<and>
    concat (map buffer_bytes bs) = buffered w \<and>
    short_packet (be_max_packet_size B (ew_endpoint w)) (last bs) \<and>
    list_all (\<lambda>b. \<not> short_packet (be_max_packet_size B (ew_endpoint w)) b) (butlast bs)"
proof -
  let ?m = "be_max_packet_size B (ew_endpoint w)"
  have alloc: "size_ok alloc 0" "0 < ?m" "dbg \<longrightarrow> alloc 0 = 0"
    using assms packet_pos by (simp_all add: wr_ok_def exact_alloc_def)
  from buffer_new_ok [where alloc = alloc and n = 0] alloc(1,3) obtain z where
    z: "buffer_new alloc 0 = Ret z" "buffer_ok z" "buffer_bytes z = []" "dbg \<longrightarrow> exact_capacity (ew_transfer_size w) z"
    by (auto simp: size_ok_def exact_capacity_def)
  have zs: "short_packet ?m z" using buffered_len [OF z(2)] z(3) by (simp add: short_packet_def)
  show ?thesis
  proof (cases "ew_writing w")
    case None
    from submit_buffer_ok [OF assms z(2,4)] obtain e where e: "ep_submit B Out z (ew_endpoint w) = Ret e"
      "wr_ok dbg alloc (w\<lparr>ew_writing := None, ew_endpoint := e\<rparr>)" "queue e = queue (ew_endpoint w) @ [z]"
      "wr_sent (w\<lparr>ew_writing := None, ew_endpoint := e\<rparr>) = wr_sent w @ buffer_bytes z" by blast
    have w': "w\<lparr>ew_writing := None, ew_endpoint := e\<rparr> = w\<lparr>ew_endpoint := e\<rparr>" using None by (cases w) simp
    show ?thesis
      using e z None zs unfolding w'
      by (auto simp: submit_end_def took_def buffered_def intro!: exI [where x = "[z]"])
  next
    case (Some b)
    with assms have b: "buffer_ok b" "dbg \<longrightarrow> exact_capacity (ew_transfer_size w) b" by (simp_all add: wr_ok_def)
    from submit_buffer_ok [OF assms b] obtain e where e: "ep_submit B Out b (ew_endpoint w) = Ret e"
      "wr_ok dbg alloc (w\<lparr>ew_writing := None, ew_endpoint := e\<rparr>)" "queue e = queue (ew_endpoint w) @ [b]"
      "be_max_packet_size B e = ?m"
      "wr_sent (w\<lparr>ew_writing := None, ew_endpoint := e\<rparr>) = wr_sent w @ buffer_bytes b" by blast
    let ?w1 = "w\<lparr>ew_writing := None, ew_endpoint := e\<rparr>"
    show ?thesis
    proof (cases "short_packet ?m b")
      case True
      with e Some alloc(2) show ?thesis
        by (intro exI [where x = ?w1] exI [where x = "[b]"])
          (auto simp: submit_end_def short_packet_def took_def buffered_def dvd_eq_mod_eq_0)
    next
      case False
      from submit_buffer_ok [OF e(2) z(2)] z(4) obtain e2 where
        e2: "ep_submit B Out z e = Ret e2" "wr_ok dbg alloc (?w1\<lparr>ew_writing := None, ew_endpoint := e2\<rparr>)"
          "queue e2 = queue e @ [z]"
          "wr_sent (?w1\<lparr>ew_writing := None, ew_endpoint := e2\<rparr>) = wr_sent ?w1 @ buffer_bytes z" by auto
      show ?thesis
        using e e2 Some False zs alloc(2) z
        by (intro exI [where x = "w\<lparr>ew_writing := None, ew_endpoint := e2\<rparr>"] exI [where x = "[b, z]"])
          (auto simp: submit_end_def short_packet_def took_def buffered_def dvd_eq_mod_eq_0)
    qed
  qed
qed

text \<open>Waiting for everything ends, and without an error nothing is pending afterwards.\<close>

lemma wait_all_ok:
  assumes w: "wr_ok dbg alloc w" "buffered w = []" and one: "one_ok dbg alloc one"
  shows "\<exists>r w'. wait_all B one w = Ret (r, w') \<and> wr_ok dbg alloc w' \<and> took w [] w' \<and> buffered w' = [] \<and>
    (r = Some (Inr ()) \<longrightarrow> queue (ew_endpoint w') = [])"
proof -
  let ?I = "\<lambda>s. wr_ok dbg alloc s \<and> buffered s = [] \<and> wr_sent s = wr_sent w"
  have "\<exists>x. oloop (Suc (be_pending B (ew_endpoint w))) (flush_round B one) w = Ret (Inr x) \<and>
      (?I (snd x) \<and> (fst x = Some (Inr ()) \<longrightarrow> queue (ew_endpoint (snd x)) = []))"
  proof (rule oloop_terminates [where I = ?I and measure_of = "\<lambda>s. length (queue (ew_endpoint s))"])
    show "length (queue (ew_endpoint w)) < Suc (be_pending B (ew_endpoint w))"
      using w(1) by (simp add: wr_ok_def pending_eq)
    fix s assume s: "?I s"
    then have p: "be_pending B (ew_endpoint s) = length (queue (ew_endpoint s))"
      by (simp add: wr_ok_def pending_eq)
    show "\<exists>x. flush_round B one s = Ret x \<and>
      (case x of
         Inl s' \<Rightarrow> ?I s' \<and> length (queue (ew_endpoint s')) < length (queue (ew_endpoint s))
       | Inr x \<Rightarrow> ?I (snd x) \<and> (fst x = Some (Inr ()) \<longrightarrow> queue (ew_endpoint (snd x)) = []))"
    proof (cases "queue (ew_endpoint s) = []")
      case True
      with s p show ?thesis by (simp add: flush_round_def)
    next
      case False
      with one s obtain r s' where r: "one s = Ret (r, s')" "wr_ok dbg alloc s'" "wr_sent s' = wr_sent s" "buffered s' = []"
        "r = Some (Inr ()) \<longrightarrow> length (queue (ew_endpoint s')) < length (queue (ew_endpoint s))"
        unfolding one_ok_def by blast
      with False p s show ?thesis by (auto simp: flush_round_def split: option.splits sum.splits)
    qed
  qed (use w in simp)
  then show ?thesis using w(2) by (auto simp: wait_all_def took_def)
qed

end

end
