(* ===== verification/Writer_Stream.thy ===== *)
theory Writer_Stream
  imports Writer_Theorems
begin

text \<open>
  Histories of a writer and the properties of the writer on the Linux backend.
\<close>

section \<open>Histories\<close>

datatype write_op =
    WriteOp bytes
  | PollWriteOp nat bytes
  | SubmitOp
  | SubmitEndOp
  | FlushOp
  | FlushEndOp
  | PollFlushOp nat
  | FlushEndAsyncOp "nat list"
  | SetWriteTransfersOp nat
  | SetWriteTimeoutOp Duration

text \<open>The bytes that a call takes from the caller and the state after it.\<close>

fun accepted ::
  "bytes \<Rightarrow> 'e EndpointWrite + (io_error + nat) option \<times> 'e EndpointWrite \<Rightarrow> bytes \<times> 'e EndpointWrite" where
  "accepted src (Inl w) = ([], w)"
| "accepted src (Inr (Some (Inr n), w)) = (take n src, w)"
| "accepted src (Inr (Some (Inl e), w)) = ([], w)"
| "accepted src (Inr (None, w)) = ([], w)"

definition write_step ::
  "bool \<Rightarrow> (nat \<Rightarrow> nat) \<Rightarrow> 'e backend \<Rightarrow> nat \<Rightarrow> write_op \<Rightarrow> 'e EndpointWrite \<Rightarrow> (bytes \<times> 'e EndpointWrite) outcome" where
  "write_step dbg alloc B fuel op w =
     (case op of
        WriteOp src \<Rightarrow> omap (accepted src) (writer_write dbg alloc B fuel src w)
      | PollWriteOp cx src \<Rightarrow> omap (accepted src) (writer_poll_write dbg alloc B fuel cx src w)
      | SubmitOp \<Rightarrow> omap (Pair []) (writer_submit B w)
      | SubmitEndOp \<Rightarrow> omap (Pair []) (submit_end alloc B w)
      | FlushOp \<Rightarrow> omap (\<lambda>(x, w'). ([], w')) (flush_blocking dbg B w)
      | FlushEndOp \<Rightarrow> omap (\<lambda>(x, w'). ([], w')) (flush_end dbg alloc B w)
      | PollFlushOp cx \<Rightarrow> omap (\<lambda>(x, w'). ([], w')) (writer_poll_flush dbg B cx w)
      | FlushEndAsyncOp cxs \<Rightarrow> omap (\<lambda>(x, w'). ([], w')) (flush_end_async dbg alloc B cxs w)
      | SetWriteTransfersOp n \<Rightarrow> omap (Pair []) (writer_set_num_transfers n w)
      | SetWriteTimeoutOp d \<Rightarrow> Ret ([], writer_set_write_timeout d w))"

fun write_run ::
  "bool \<Rightarrow> (nat \<Rightarrow> nat) \<Rightarrow> 'e backend \<Rightarrow> nat \<Rightarrow> write_op list \<Rightarrow> 'e EndpointWrite \<Rightarrow> (bytes \<times> 'e EndpointWrite) outcome"
where
  "write_run dbg alloc B fuel [] w = Ret ([], w)"
| "write_run dbg alloc B fuel (op # ops) w =
     obind (write_step dbg alloc B fuel op w) (\<lambda>(taken, w').
     obind (write_run dbg alloc B fuel ops w') (\<lambda>(taken', w''). Ret (taken @ taken', w'')))"

definition keeps_transfers :: "write_op \<Rightarrow> bool" where
  "keeps_transfers op \<longleftrightarrow> op \<noteq> SetWriteTransfersOp 0"

lemma debug_write_step: "or_panics (write_step True alloc B fuel op w) (write_step False alloc B fuel op w)"
  unfolding write_step_def by (cases op) (simp_all add: or_panics_map debug_writes debug_flushes)

lemma debug_write_run: "or_panics (write_run True alloc B fuel ops w) (write_run False alloc B fuel ops w)"
proof (induction ops arbitrary: w)
  case (Cons op ops)
  show ?case unfolding write_run.simps
    by (rule or_panics_bind [OF debug_write_step]) (auto intro: or_panics_bind Cons)
qed simp

context out_backend begin

lemma accepted_post:
  assumes "case x of Inl w' \<Rightarrow> wr_ok dbg alloc w' \<and> took w [] w' | Inr y \<Rightarrow> write_post dbg alloc src w y"
  shows "wr_ok dbg alloc (snd (accepted src x)) \<and> took w (fst (accepted src x)) (snd (accepted src x))"
  using assms by (cases "(src, x)" rule: accepted.cases) (auto simp: write_post_def)

lemma flush_blocking_ok:
  assumes "wr_ok dbg alloc w"
  shows "\<exists>r w'. flush_blocking dbg B w = Ret (r, w') \<and> wr_ok dbg alloc w' \<and> took w [] w' \<and> buffered w' = [] \<and>
    (r = Some (Inr ()) \<longrightarrow> queue (ew_endpoint w') = [])"
proof -
  from writer_submit_ok [OF assms] obtain w1 where w1: "writer_submit B w = Ret w1" "wr_ok dbg alloc w1"
    "took w [] w1" "buffered w1 = []" by blast
  from wait_all_ok [OF w1(2,4) blocking_one_ok] took_trans [OF w1(3)] w1(1) show ?thesis
    by (fastforce simp: flush_blocking_def)
qed

lemma poll_flush_ok:
  assumes "wr_ok dbg alloc w"
  shows "\<exists>r w'. writer_poll_flush dbg B cx w = Ret (r, w') \<and> wr_ok dbg alloc w' \<and> took w [] w' \<and> buffered w' = [] \<and>
    (r = Some (Inr ()) \<longrightarrow> queue (ew_endpoint w') = [])"
proof -
  from writer_submit_ok [OF assms] obtain w1 where w1: "writer_submit B w = Ret w1" "wr_ok dbg alloc w1"
    "took w [] w1" "buffered w1 = []" by blast
  from wait_all_ok [OF w1(2,4) poll_one_ok] took_trans [OF w1(3)] w1(1) show ?thesis
    by (fastforce simp: writer_poll_flush_def)
qed

lemma flush_end_ok:
  assumes "wr_ok dbg alloc w"
  shows "\<exists>r w'. flush_end dbg alloc B w = Ret (r, w') \<and> wr_ok dbg alloc w' \<and> took w [] w' \<and> buffered w' = [] \<and>
    (r = Some (Inr ()) \<longrightarrow> queue (ew_endpoint w') = [])"
proof -
  from submit_end_ok [OF assms] obtain w1 where w1: "submit_end alloc B w = Ret w1" "wr_ok dbg alloc w1"
    "took w [] w1" "buffered w1 = []" by blast
  from wait_all_ok [OF w1(2,4) blocking_one_ok] took_trans [OF w1(3)] w1(1) show ?thesis
    by (fastforce simp: flush_end_def)
qed

lemma flush_polls_ok:
  assumes "wr_ok dbg alloc w" "buffered w = []" "r = Some (Inr ()) \<longrightarrow> queue (ew_endpoint w) = []"
  shows "\<exists>r' w'. flush_polls dbg B cxs (r, w) = Ret (r', w') \<and> wr_ok dbg alloc w' \<and> took w [] w' \<and> buffered w' = [] \<and>
    (r' = Some (Inr ()) \<longrightarrow> queue (ew_endpoint w') = [])"
  using assms
proof (induction cxs arbitrary: r w)
  case Nil
  then show ?case by (simp add: took_refl)
next
  case (Cons cx cxs)
  show ?case
  proof (cases r)
    case None
    from wait_all_ok [OF Cons.prems(1,2) poll_one_ok [where cx = cx]] obtain r1 w1 where
      w1: "wait_all B (poll_one dbg B cx) w = Ret (r1, w1)" "wr_ok dbg alloc w1" "took w [] w1" "buffered w1 = []"
        "r1 = Some (Inr ()) \<longrightarrow> queue (ew_endpoint w1) = []" by blast
    from Cons.IH [OF w1(2,4,5)] took_trans [OF w1(3)] w1(1) None show ?thesis by fastforce
  next
    case (Some x)
    with Cons.prems show ?thesis by (simp add: took_refl)
  qed
qed

lemma flush_end_async_ok:
  assumes "wr_ok dbg alloc w"
  shows "\<exists>r w'. flush_end_async dbg alloc B cxs w = Ret (r, w') \<and> wr_ok dbg alloc w' \<and> took w [] w' \<and>
    (r = Some (Inr ()) \<longrightarrow> buffered w' = [] \<and> queue (ew_endpoint w') = [])"
proof (cases "cxs = []")
  case True
  with assms show ?thesis by (simp add: flush_end_async_def took_refl)
next
  case False
  from submit_end_ok [OF assms] obtain w1 where w1: "submit_end alloc B w = Ret w1" "wr_ok dbg alloc w1"
    "took w [] w1" "buffered w1 = []" by blast
  from flush_polls_ok [OF w1(2,4), of None cxs] took_trans [OF w1(3)] w1(1) False show ?thesis
    by (fastforce simp: flush_end_async_def)
qed

lemma write_step_ok:
  assumes "wr_ok dbg alloc w" "keeps_transfers op"
  shows "\<exists>taken w'. write_step dbg alloc B fuel op w = Ret (taken, w') \<and> wr_ok dbg alloc w' \<and> took w taken w'"
proof (cases op)
  case (WriteOp src)
  from write_loop_ok [OF assms(1) blocking_one_ok, of fuel src] accepted_post show ?thesis
    unfolding WriteOp write_step_def writer_write_def by (fastforce simp: omap_Ret_iff prod_eq_iff)
next
  case (PollWriteOp cx src)
  from write_loop_ok [OF assms(1) poll_one_ok [where cx = cx], of fuel src] accepted_post show ?thesis
    unfolding PollWriteOp write_step_def writer_poll_write_def by (fastforce simp: omap_Ret_iff prod_eq_iff)
next
  case SubmitOp
  from writer_submit_ok [OF assms(1)] show ?thesis by (auto simp: SubmitOp write_step_def)
next
  case SubmitEndOp
  from submit_end_ok [OF assms(1)] show ?thesis by (auto simp: SubmitEndOp write_step_def)
next
  case FlushOp
  from flush_blocking_ok [OF assms(1)] show ?thesis by (auto simp: FlushOp write_step_def)
next
  case FlushEndOp
  from flush_end_ok [OF assms(1)] show ?thesis by (auto simp: FlushEndOp write_step_def)
next
  case (PollFlushOp cx)
  from poll_flush_ok [OF assms(1), of cx] show ?thesis by (auto simp: PollFlushOp write_step_def)
next
  case (FlushEndAsyncOp cxs)
  from flush_end_async_ok [OF assms(1), of cxs] show ?thesis by (auto simp: FlushEndAsyncOp write_step_def)
next
  case (SetWriteTransfersOp n)
  with assms show ?thesis
    by (auto simp: write_step_def writer_set_num_transfers_def keeps_transfers_def wr_ok_def wr_sent_def
        buffered_def intro!: took_refl)
next
  case (SetWriteTimeoutOp d)
  with assms show ?thesis
    by (auto simp: write_step_def writer_set_write_timeout_def wr_ok_def wr_sent_def buffered_def intro!: took_refl)
qed

lemma no_transfers_panics: "\<not> keeps_transfers op \<Longrightarrow> write_step dbg alloc B fuel op w = Panic"
  by (simp add: keeps_transfers_def write_step_def writer_set_num_transfers_def)

lemma write_run_outcome:
  "wr_ok dbg alloc w \<Longrightarrow>
    if list_all keeps_transfers ops
    then \<exists>taken w'. write_run dbg alloc B fuel ops w = Ret (taken, w') \<and> wr_ok dbg alloc w' \<and> took w taken w'
    else write_run dbg alloc B fuel ops w = Panic"
proof (induction ops arbitrary: w)
  case Nil
  then show ?case by (simp add: took_refl)
next
  case (Cons op ops)
  show ?case
  proof (cases "keeps_transfers op")
    case True
    from write_step_ok [OF Cons.prems this] obtain t1 w1 where
      s: "write_step dbg alloc B fuel op w = Ret (t1, w1)" "wr_ok dbg alloc w1" "took w t1 w1" by blast
    with Cons.IH [OF s(2)] True took_trans [OF s(3)] show ?thesis by (auto split: if_splits)
  next
    case False
    then show ?thesis by (simp add: no_transfers_panics)
  qed
qed

lemma write_run_ok:
  assumes "wr_ok dbg alloc w" "write_run dbg alloc B fuel ops w = Ret (taken, w')"
  shows "wr_ok dbg alloc w' \<and> took w taken w'"
  using write_run_outcome [OF assms(1), of ops fuel] assms(2) by (auto split: if_splits)

text \<open>A write ends: every round but the last two takes a transfer out of the queue.\<close>

lemma write_ends:
  assumes w: "wr_ok dbg alloc w" and one: "one_ok dbg alloc one" and fuel: "length (queue (ew_endpoint w)) + 1 < fuel"
  shows "\<exists>x. oloop fuel (write_round alloc B one src) w = Ret (Inr x) \<and> write_post dbg alloc src w x"
proof -
  let ?m = "\<lambda>s. length (queue (ew_endpoint s)) + (if ew_writing s = None then 1 else 0)"
  have "\<exists>x. oloop fuel (write_round alloc B one src) w = Ret (Inr x) \<and> True"
  proof (rule oloop_terminates [where I = "wr_ok dbg alloc" and measure_of = ?m])
    show "?m w < fuel" using fuel by simp
    fix s assume s: "wr_ok dbg alloc s"
    show "\<exists>x. write_round alloc B one src s = Ret x \<and>
      (case x of Inl s' \<Rightarrow> wr_ok dbg alloc s' \<and> ?m s' < ?m s | Inr x \<Rightarrow> True)"
    proof (cases "ew_writing s")
      case (Some b)
      from write_some_ok [OF s Some, of one src] show ?thesis by auto
    next
      case None
      show ?thesis
      proof (cases "be_pending B (ew_endpoint s) < ew_num_transfers s")
        case True
        from write_none_ok [OF s None one, of src] obtain x where x: "write_round alloc B one src s = Ret x"
          "case x of Inl w' \<Rightarrow> wr_ok dbg alloc w' \<and> took s [] w' | Inr x \<Rightarrow> write_post dbg alloc src s x" by blast
        have n: "ew_endpoint s' = ew_endpoint s \<and> ew_writing s' \<noteq> None" if "x = Inl s'" for s'
          using x(1) None True that by (auto simp: write_round_def obind_Ret_iff)
        show ?thesis
        proof (cases x)
          case (Inl s')
          have "?m s' < ?m s" using n [OF Inl] None by simp
          with x Inl show ?thesis by simp
        next
          case (Inr y)
          with x(1) show ?thesis by simp
        qed
      next
        case False
        then have q: "queue (ew_endpoint s) \<noteq> []" using s by (auto simp: wr_ok_def pending_eq)
        have "buffered s = []" using None by (simp add: buffered_def)
        with one s q obtain r s' where r: "one s = Ret (r, s')" "wr_ok dbg alloc s'"
          "r = Some (Inr ()) \<longrightarrow> length (queue (ew_endpoint s')) < length (queue (ew_endpoint s))"
          unfolding one_ok_def by blast
        with None False show ?thesis by (auto simp: write_round_def split: option.splits sum.splits)
      qed
    qed
  qed (use w in simp)
  then obtain x where x: "oloop fuel (write_round alloc B one src) w = Ret (Inr x)" by blast
  from write_loop_ok [OF w one, of fuel src] have "write_post dbg alloc src w x" unfolding x by simp
  with x show ?thesis by simp
qed

end

section \<open>Writers on Linux\<close>

interpretation linux_out: out_backend UNIV linux_backend "es_good Out" es_bufs es_past
  by (rule out_backend.intro) (rule linux.endpoint_backend_axioms)

text \<open>A writer on an endpoint that has just been opened; \<open>mmap\<close> fails whenever \<open>maps\<close> says so.\<close>

definition fresh_writer ::
  "(nat \<Rightarrow> nat \<Rightarrow> bool) \<Rightarrow> nat \<Rightarrow> nat \<Rightarrow> nat list list \<Rightarrow> nat option list \<Rightarrow> (nat \<times> nat \<times> bytes \<times> nat) list \<Rightarrow>
   ep_sys EndpointWrite outcome" where
  "fresh_writer maps mps transfer_size sched submits reaps =
     writer_new linux_backend ((es_open 0x02 TBulk mps sched submits reaps)\<lparr>es_mmap := maps\<rparr>) transfer_size"

lemma fresh_writer_ok:
  assumes "fresh_writer maps mps n sched submits reaps = Ret w" "size_ok alloc (ew_transfer_size w)" "size_ok alloc 0"
  shows "dbg \<longrightarrow> exact_alloc alloc (ew_transfer_size w) \<Longrightarrow> linux_out.wr_ok dbg alloc w"
    "linux_out.wr_sent w = []" "buffered w = []" "be_max_packet_size linux_backend (ew_endpoint w) = mps"
proof -
  have pos: "mps \<noteq> 0" "0 < ew_transfer_size w" using assms(1)
    by (auto simp: fresh_writer_def writer_new_def round_up_transfer_size_def es_open_def Let_def split: if_splits)
  then have "es_good Out ((es_open 0x02 TBulk mps sched submits reaps)\<lparr>es_mmap := maps\<rparr>)"
    using es_open_good [where mps = mps and addr = "0x02" and ty = TBulk and sched = sched and
        submits = submits and reaps = reaps] by (simp add: es_good_maps direction_from_address_def direction_mask_def)
  with assms pos(2) show "dbg \<longrightarrow> exact_alloc alloc (ew_transfer_size w) \<Longrightarrow> linux_out.wr_ok dbg alloc w"
    "linux_out.wr_sent w = []" "buffered w = []" "be_max_packet_size linux_backend (ew_endpoint w) = mps"
    by (auto simp: fresh_writer_def writer_new_def obind_Ret_iff linux_out.wr_ok_def linux_out.wr_sent_def
        buffered_def sent_def es_open_def)
qed

lemma writer_reached_ok:
  assumes "fresh_writer maps mps n sched submits reaps = Ret w0" "size_ok alloc (ew_transfer_size w0)" "size_ok alloc 0"
    "write_run dbg alloc linux_backend fuel ops w0 = Ret (taken, w)"
  shows "linux_out.wr_ok False alloc w"
    "exact_alloc alloc (ew_transfer_size w0) \<Longrightarrow> linux_out.wr_ok True alloc w"
proof -
  have runs: "write_run False alloc linux_backend fuel ops w0 = Ret (taken, w)"
    using assms(4) debug_write_run [of alloc linux_backend fuel ops w0] by (cases dbg) (auto simp: or_panics_def)
  have "linux_out.wr_ok False alloc w0" by (rule fresh_writer_ok(1) [OF assms(1-3)]) simp
  from linux_out.write_run_ok [OF this runs] show "linux_out.wr_ok False alloc w" by simp
  assume "exact_alloc alloc (ew_transfer_size w0)"
  then have ok: "linux_out.wr_ok True alloc w0" using fresh_writer_ok(1) [OF assms(1-3)] by simp
  from linux_out.write_run_outcome [OF this, of ops fuel] debug_write_run [of alloc linux_backend fuel ops w0] runs
  have "write_run True alloc linux_backend fuel ops w0 = Ret (taken, w)"
    using linux_out.write_run_outcome [OF fresh_writer_ok(1) [OF assms(1-3)], where dbg = False and fuel = fuel and ops = ops]
    by (auto simp: or_panics_def split: if_splits)
  from linux_out.write_run_ok [OF ok this] show "linux_out.wr_ok True alloc w" by simp
qed

text \<open>
  C4. A writer on a Linux endpoint sends what it accepts. Take any sequence of writes, polled writes,
  submissions, flushes and flushes up to the end of a message, blocking or not, and of changes of the
  number of transfers and of the timeout, with any schedule and any kernel within its contract, and an
  allocator that gives at least what is asked and less than 4 GiB. Without debug assertions the calls
  panic exactly when one of them sets the number of transfers to zero; otherwise no buffer overflows, and
  the bytes taken from the caller are the contents of the transfers in the order they were submitted,
  followed by the bytes that are still buffered. With debug assertions the calls do exactly the same if
  the allocator gives exactly what is asked; if it gives more, they do the same or panic.
\<close>

theorem writer_sends_stream:
  assumes "fresh_writer maps mps n sched submits reaps = Ret w0" "size_ok alloc (ew_transfer_size w0)" "size_ok alloc 0"
  shows "(if list_all keeps_transfers ops
      then \<exists>taken w. write_run False alloc linux_backend fuel ops w0 = Ret (taken, w) \<and>
        taken = sent (es_past (ew_endpoint w)) (es_bufs (ew_endpoint w)) @ buffered w
      else write_run False alloc linux_backend fuel ops w0 = Panic) \<and>
    (write_run True alloc linux_backend fuel ops w0 = write_run False alloc linux_backend fuel ops w0 \<or>
     write_run True alloc linux_backend fuel ops w0 = Panic \<and> \<not> exact_alloc alloc (ew_transfer_size w0))"
proof (rule conjI)
  note start = fresh_writer_ok(2,3) [OF assms]
  from linux_out.write_run_outcome [OF fresh_writer_ok(1) [OF assms], where dbg = False and fuel = fuel and ops = ops]
  show "if list_all keeps_transfers ops
      then \<exists>taken w. write_run False alloc linux_backend fuel ops w0 = Ret (taken, w) \<and>
        taken = sent (es_past (ew_endpoint w)) (es_bufs (ew_endpoint w)) @ buffered w
      else write_run False alloc linux_backend fuel ops w0 = Panic"
    using start by (auto simp: linux_out.took_def linux_out.wr_sent_def split: if_splits)
  show "write_run True alloc linux_backend fuel ops w0 = write_run False alloc linux_backend fuel ops w0 \<or>
     write_run True alloc linux_backend fuel ops w0 = Panic \<and> \<not> exact_alloc alloc (ew_transfer_size w0)"
    using debug_write_run [of alloc linux_backend fuel ops w0]
      linux_out.write_run_outcome [OF fresh_writer_ok(1) [OF assms], where dbg = True and fuel = fuel and ops = ops]
      linux_out.write_run_outcome [OF fresh_writer_ok(1) [OF assms], where dbg = False and fuel = fuel and ops = ops]
    by (cases "exact_alloc alloc (ew_transfer_size w0)") (auto simp: or_panics_def split: if_splits)
qed

theorem writer_sends_stream_witness:
  "\<exists>w0. fresh_writer (\<lambda>_ _. True) 2 4 [[1], [2], [3]] [] [(0, 0, [], 4), (0, 0, [], 2)] = Ret w0 \<and>
    omap fst (write_run True id linux_backend 5
      [WriteOp [1, 2, 3], WriteOp [4, 5], WriteOp [5, 6], FlushEndOp] w0) = Ret [1, 2, 3, 4, 5, 6] \<and>
    (\<exists>taken w. write_run True id linux_backend 5
        [WriteOp [1, 2, 3], WriteOp [4, 5], WriteOp [5, 6], FlushEndOp] w0 = Ret (taken, w) \<and>
      taken = sent (es_past (ew_endpoint w)) (es_bufs (ew_endpoint w)) @ buffered w)"
proof -
  let ?ops = "[WriteOp [1, 2, 3], WriteOp [4, 5], WriteOp [5, 6], FlushEndOp]"
  let ?w0 = "fresh_writer (\<lambda>_ _. True) 2 4 [[1], [2], [3]] [] [(0, 0, [], 4), (0, 0, [], 2)]"
  have sz: "omap ew_transfer_size ?w0 = Ret 4" by code_simp
  then obtain w0 where w0: "?w0 = Ret w0" "ew_transfer_size w0 = 4" by (auto simp: omap_Ret_iff)
  have "obind ?w0 (\<lambda>w. omap fst (write_run True id linux_backend 5 ?ops w)) = Ret [1, 2, 3, 4, 5, 6]" by code_simp
  with w0 have out: "omap fst (write_run True id linux_backend 5 ?ops w0) = Ret [1, 2, 3, 4, 5, 6]" by simp
  have ok: "size_ok id (ew_transfer_size w0)" "size_ok id 0" "exact_alloc id (ew_transfer_size w0)"
    "list_all keeps_transfers ?ops" by (simp_all add: size_ok_def exact_alloc_def keeps_transfers_def w0(2))
  from writer_sends_stream [OF w0(1) ok(1,2), where ops = ?ops and fuel = 5] ok(3,4) out w0(1) show ?thesis by auto
qed

text \<open>
  C32. Writing and flushing end. In every state a writer can reach, with an allocator that gives at least
  what is asked and less than 4 GiB, a blocking write returns within two rounds more than there are
  pending transfers, having taken at least one byte unless there was none or an error is reported; a
  flush returns within one round more than there are pending transfers, and a flush that succeeds leaves
  nothing pending and nothing buffered. That is so without debug assertions, and with them if the
  allocator gives exactly what is asked; if it gives more, the debug assertion of \<open>handle_completion\<close> may
  panic instead.
\<close>

theorem writer_calls_terminate:
  assumes "fresh_writer maps mps n sched submits reaps = Ret w0" "size_ok alloc (ew_transfer_size w0)" "size_ok alloc 0"
    "write_run dbg alloc linux_backend fuel ops w0 = Ret (taken, w)"
    "linux_endpoint_pending (es_ep (ew_endpoint w)) + 1 < rounds"
  shows "(\<exists>res w'. writer_write False alloc linux_backend rounds src w = Ret (Inr (res, w')) \<and>
      (\<forall>k. res = Some (Inr k) \<longrightarrow> k \<le> length src \<and> (src \<noteq> [] \<longrightarrow> 0 < k))) \<and>
    (\<exists>res w'. flush_blocking False linux_backend w = Ret (res, w') \<and>
      (res = Some (Inr ()) \<longrightarrow> linux_endpoint_pending (es_ep (ew_endpoint w')) = 0 \<and> buffered w' = [])) \<and>
    (writer_write True alloc linux_backend rounds src w = writer_write False alloc linux_backend rounds src w \<or>
      writer_write True alloc linux_backend rounds src w = Panic \<and> \<not> exact_alloc alloc (ew_transfer_size w0)) \<and>
    (flush_blocking True linux_backend w = flush_blocking False linux_backend w \<or>
      flush_blocking True linux_backend w = Panic \<and> \<not> exact_alloc alloc (ew_transfer_size w0))"
proof (intro conjI)
  note reached = writer_reached_ok [OF assms(1-4)]
  have room: "length (es_bufs (ew_endpoint w)) + 1 < rounds"
    using assms(5) reached(1) linux.pending_eq [of Out "ew_endpoint w"] by (simp add: linux_out.wr_ok_def)
  note written = linux_out.write_ends [OF _ linux_out.blocking_one_ok room, where alloc = alloc and src = src, folded writer_write_def]
  from written [OF reached(1)]
  show "\<exists>res w'. writer_write False alloc linux_backend rounds src w = Ret (Inr (res, w')) \<and>
      (\<forall>k. res = Some (Inr k) \<longrightarrow> k \<le> length src \<and> (src \<noteq> [] \<longrightarrow> 0 < k))"
    by (auto simp: linux_out.write_post_def)
  from linux_out.flush_blocking_ok [OF reached(1)] obtain r w' where
    r: "flush_blocking False linux_backend w = Ret (r, w')"
      "linux_out.wr_ok False alloc w'" "buffered w' = []" "r = Some (Inr ()) \<longrightarrow> es_bufs (ew_endpoint w') = []"
    by blast
  then have "r = Some (Inr ()) \<longrightarrow> linux_endpoint_pending (es_ep (ew_endpoint w')) = 0"
    using linux.pending_eq [of Out "ew_endpoint w'"] by (simp add: linux_out.wr_ok_def)
  with r show "\<exists>res w'. flush_blocking False linux_backend w = Ret (res, w') \<and>
      (res = Some (Inr ()) \<longrightarrow> linux_endpoint_pending (es_ep (ew_endpoint w')) = 0 \<and> buffered w' = [])" by blast
  show "writer_write True alloc linux_backend rounds src w = writer_write False alloc linux_backend rounds src w \<or>
      writer_write True alloc linux_backend rounds src w = Panic \<and> \<not> exact_alloc alloc (ew_transfer_size w0)"
    using written [OF reached(2)] debug_writes(1) [of alloc linux_backend rounds src w] by (auto simp: or_panics_def)
  show "flush_blocking True linux_backend w = flush_blocking False linux_backend w \<or>
      flush_blocking True linux_backend w = Panic \<and> \<not> exact_alloc alloc (ew_transfer_size w0)"
    using linux_out.flush_blocking_ok [OF reached(2)] debug_flushes(1) [of linux_backend w]
    by (auto simp: or_panics_def)
qed

theorem writer_calls_terminate_witness:
  "\<exists>w0 w'. fresh_writer (\<lambda>_ _. True) 2 4 [[1], [2], [3]] [] [(0, 0, [], 4), (0, 0, [], 2)] = Ret w0 \<and>
    writer_write True id linux_backend 2 [1, 2, 3] w0 = Ret (Inr (Some (Inr 3), w')) \<and>
    (\<exists>res w'. flush_blocking True linux_backend w0 = Ret (res, w'))"
proof -
  let ?w0 = "fresh_writer (\<lambda>_ _. True) 2 4 [[1], [2], [3]] [] [(0, 0, [], 4), (0, 0, [], 2)]"
  have sz: "omap ew_transfer_size ?w0 = Ret 4" by code_simp
  then obtain w0 where w0: "?w0 = Ret w0" "ew_transfer_size w0 = 4" by (auto simp: omap_Ret_iff)
  have p: "omap (linux_endpoint_pending \<circ> es_ep \<circ> ew_endpoint) ?w0 = Ret 0" by code_simp
  have "obind ?w0 (\<lambda>w. omap (map_sum ew_num_transfers fst) (writer_write True id linux_backend 2 [1, 2, 3] w)) =
      Ret (Inr (Some (Inr 3)))" by code_simp
  with w0 obtain x where x: "writer_write True id linux_backend 2 [1, 2, 3] w0 = Ret x"
    "map_sum ew_num_transfers fst x = Inr (Some (Inr 3))" by (auto simp: omap_Ret_iff)
  then obtain w' where w': "x = Inr (Some (Inr 3), w')" by (cases x) auto
  have a: "size_ok id (ew_transfer_size w0)" "size_ok id 0" "exact_alloc id (ew_transfer_size w0)"
    by (simp_all add: exact_alloc_def size_ok_def w0(2))
  have "linux_endpoint_pending (es_ep (ew_endpoint w0)) + 1 < 2" using p w0(1) by simp
  from writer_calls_terminate [OF w0(1) a(1,2), where dbg = True and fuel = 0 and ops = "[]" and taken = "[]" and w = w0 and src = "[1, 2, 3]" and rounds = 2]  this a(3) w0(1) x(1) w'
  show ?thesis by auto
qed

text \<open>
  An allocation that is larger than asked, which \<open>Vec::with_capacity\<close> and \<open>Buffer::new\<close> allow, is
  refused by the debug assertion when the buffer comes back; without debug assertions it is used.
\<close>

lemma larger_allocation_panics:
  "obind (fresh_writer (\<lambda>_ _. False) 2 4 [[1], [2]] [] [(0, 0, [], 5)]) (\<lambda>w.
      omap fst (write_run False (\<lambda>n. if n = 0 then 0 else n + 1) linux_backend 5
        [WriteOp [1, 2, 3, 4, 5], WriteOp [6]] w)) = Ret [1, 2, 3, 4, 5, 6]"
  "obind (fresh_writer (\<lambda>_ _. False) 2 4 [[1], [2]] [] [(0, 0, [], 5)])
(\<lambda>w.
      omap fst (write_run True (\<lambda>n. if n = 0 then 0 else n + 1) linux_backend 5
        [WriteOp [1, 2, 3, 4, 5], WriteOp [6]] w)) = Panic"
  by code_simp+

text \<open>
  The end of a message is a short packet: in every state a writer can reach, \<open>submit_end\<close> hands over
  what is buffered in at least one transfer, the last of which is empty or not a multiple of the
  packet size and no other of which is, so that the device sees exactly one end.
\<close>

theorem submit_end_short_packet:
  assumes "fresh_writer maps mps n sched submits reaps = Ret w0" "size_ok alloc (ew_transfer_size w0)" "size_ok alloc 0"
    "write_run dbg alloc linux_backend fuel ops w0 = Ret (taken, w)"
  shows "\<exists>w' bs. submit_end alloc linux_backend w = Ret w' \<and>
    es_bufs (ew_endpoint w') = es_bufs (ew_endpoint w) @ bs \<and> bs \<noteq> [] \<and>
    concat (map buffer_bytes bs) = buffered w \<and> buffered w' = [] \<and>
    short_packet (le_max_packet_size (es_ep (ew_endpoint w))) (last bs) \<and>
    list_all (\<lambda>b. \<not> short_packet (le_max_packet_size (es_ep (ew_endpoint w))) b) (butlast bs)"
  using linux_out.submit_end_ok [OF writer_reached_ok(1) [OF assms]] by auto

theorem submit_end_short_packet_witness:
  "\<exists>w0 w w'. fresh_writer (\<lambda>_ _. True) 2 4 [[1]] [] [] = Ret w0 \<and>
    write_run True id linux_backend 5 [WriteOp [1, 2]] w0 = Ret ([1, 2], w) \<and> buffered w = [1, 2] \<and>
    submit_end id linux_backend w = Ret w' \<and> map buffer_bytes (es_bufs (ew_endpoint w')) = [[1, 2], []]"
proof -
  let ?w0 = "fresh_writer (\<lambda>_ _. True) 2 4 [[1]] [] []"
  have sz: "omap ew_transfer_size ?w0 = Ret 4" by code_simp
  then obtain w0 where w0: "?w0 = Ret w0" "ew_transfer_size w0 = 4" by (auto simp: omap_Ret_iff)
  have "obind ?w0 (\<lambda>w. omap (\<lambda>(t, w). (t, buffered w)) (write_run True id linux_backend 5 [WriteOp [1, 2]] w)) =
      Ret ([1, 2], [1, 2])" by code_simp
  with w0 obtain w where w: "write_run True id linux_backend 5 [WriteOp [1, 2]] w0 = Ret ([1, 2], w)"
    "buffered w = [1, 2]" by (auto simp: omap_Ret_iff)
  have a: "size_ok id (ew_transfer_size w0)" "size_ok id 0" by (simp_all add: size_ok_def w0(2))
  have "obind ?w0 (\<lambda>w. obind (write_run True id linux_backend 5 [WriteOp [1, 2]] w) (\<lambda>(t, w).
      omap (\<lambda>w. map buffer_bytes (es_bufs (ew_endpoint w))) (submit_end id linux_backend w))) = Ret [[1, 2], []]"
    by code_simp
  with w0 w have "omap (\<lambda>w. map buffer_bytes (es_bufs (ew_endpoint w))) (submit_end id linux_backend w) =
      Ret [[1, 2], []]" by simp
  with submit_end_short_packet [OF w0(1) a w(1)] w0(1) w show ?thesis by (auto simp: omap_Ret_iff)
qed

end
