(* ===== verification/Linux_Enumeration_Theorems.thy ===== *)
theory Linux_Enumeration_Theorems
  imports Linux_Enumeration "HOL-Library.Multiset"
begin

text \<open>
  What sysfs shows of a device is what the enumeration reads back: the formats in which the Linux
  kernel prints the attributes are the specification, and \<open>probe_device\<close> inverts them.
\<close>

section \<open>Printing attributes\<close>

definition line :: "string \<Rightarrow> string" where
  "line s = s @ [CHR ''\<newline>'']"

definition show_hex :: "nat \<Rightarrow> 'w::len word \<Rightarrow> string" where
  "show_hex width w = line (pad_zeros width (radix_digits 16 (unat w)))"

definition show_dec :: "'w::len word \<Rightarrow> string" where
  "show_dec w = line (radix_digits 10 (unat w))"

text \<open>\<open>%2x.%02x\<close>\<close>

definition show_version :: "u16 \<Rightarrow> string" where
  "show_version v =
     (let major = radix_digits 16 (unat v div 256) in
      line (replicate (2 - length major) (CHR '' '') @ major @ ''.'' @
            pad_zeros 2 (radix_digits 16 (unat v mod 256))))"

fun show_ports :: "bytes \<Rightarrow> string" where
  "show_ports [] = ''0''"
| "show_ports [p] = radix_digits 10 (unat p)"
| "show_ports (p # ps) = radix_digits 10 (unat p) @ ''.'' @ show_ports ps"

fun show_speed :: "Speed \<Rightarrow> string" where
  "show_speed Low = ''1.5''"
| "show_speed Full = ''12''"
| "show_speed High = ''480''"
| "show_speed Super = ''5000''"
| "show_speed SuperPlus = ''10000''"

section \<open>Reading them back\<close>

lemma plain_char_of: "33 \<le> k \<Longrightarrow> k \<le> 126 \<Longrightarrow> plain (char_of (k :: nat))"
  by (simp add: plain_def)

lemma plain_digit_char: "d < 16 \<Longrightarrow> plain (digit_char d)"
  by (simp add: digit_char_def plain_char_of)

lemma radix_digits_plain:
  assumes "2 \<le> r" "r \<le> 16"
  shows "list_all plain (radix_digits r n)"
proof (induction n rule: less_induct)
  case (less n)
  show ?case
  proof (cases "n < r")
    case True
    with assms show ?thesis by (subst radix_digits.simps) (simp add: plain_digit_char)
  next
    case False
    then have "n div r < n" using assms by (intro div_less_dividend) auto
    moreover have "n mod r < 16" using assms mod_less_divisor [of r n] by linarith
    ultimately show ?thesis using less False assms by (subst radix_digits.simps) (simp add: plain_digit_char)
  qed
qed

lemma plain_ends_all: "list_all plain s \<Longrightarrow> s \<noteq> [] \<Longrightarrow> plain_ends s"
  by (simp add: plain_ends_def list_all_iff)

lemma plain_zero: "plain (CHR ''0'')" "list_all plain (replicate k (CHR ''0''))"
  by (simp_all add: plain_def list_all_iff)

lemma trim_line: "plain_ends s \<Longrightarrow> trim (line s) = s"
  using trim_printed [of s 0 1] by (simp add: line_def)

lemma padded_plain: "2 \<le> r \<Longrightarrow> r \<le> 16 \<Longrightarrow> plain_ends (pad_zeros width (radix_digits r n))"
  by (rule plain_ends_all) (simp_all add: pad_zeros_def radix_digits_plain radix_digits_not_Nil plain_zero)

lemma not_hex_prefix:
  "digits_of 16 s = Some ds \<Longrightarrow> strip_prefix ''0x'' s = None"
  by (cases s; cases "tl s") (auto simp: strip_prefix_def to_digit_def split: if_splits)

lemma read_hex:
  fixes w :: "'w::len word"
  assumes "s = trim (show_hex width w)"
  shows "from_hex_str (case strip_prefix ''0x'' s of None \<Rightarrow> s | Some t \<Rightarrow> t) = Some w"
proof -
  have s: "s = pad_zeros width (radix_digits 16 (unat w))"
    using assms trim_line [OF padded_plain] by (simp add: show_hex_def)
  obtain ds where "digits_of (int 16) (radix_digits 16 (unat w)) = Some ds"
    using radix_digits_value [of 16] by auto
  from pad_zeros_value [OF _ this, of width] obtain es where "digits_of 16 s = Some es" using s by auto
  from not_hex_prefix [OF this] parse_printed [of 16 "unat w", where 'w = 'w and width = width] unsigned_less [of w] s
  show ?thesis by (simp add: from_hex_str_def)
qed

lemma read_attr_hex_shown:
  assumes "fs_read_to_string fs (path_join p attr) = Inr (show_hex width (w :: 'w::len word))"
  shows "read_attr_hex fs p attr = Inr w"
  using read_hex [OF refl, of width w] assms by (simp add: read_attr_hex_def parse_attr_def)

lemma read_attr_u8_shown:
  assumes "fs_read_to_string fs (path_join p attr) = Inr (show_dec w)"
  shows "read_attr_u8 fs p attr = Inr w"
proof -
  have "trim (show_dec w) = radix_digits 10 (unat w)"
    using trim_line [OF padded_plain, of 10 0 "unat w"] by (simp add: show_dec_def pad_zeros_def)
  with parse_printed [of 10 "unat w" 0, where 'w = 8] unat_u8_lt [of w] assms show ?thesis
    by (simp add: read_attr_u8_def parse_attr_def pad_zeros_def)
qed

lemma read_attr_string_shown:
  assumes "fs_read_to_string fs (path_join p attr) = Inr (line s)" "plain_ends s"
  shows "read_attr_string fs p attr = Inr s"
  using assms by (simp add: read_attr_string_def parse_attr_def trim_line)

lemma split_on_none: "c \<notin> set s \<Longrightarrow> split_on c s = [s]"
  by (induction s) auto

lemma split_on_not_Nil: "split_on c s \<noteq> []"
  by (cases s) (auto split: list.splits)

lemma split_on_append: "c \<notin> set s \<Longrightarrow> split_on c (s @ c # t) = s # split_on c t"
  by (induction s) auto

lemma digit_char_not_dot: "d < 16 \<Longrightarrow> digit_char d \<noteq> CHR ''.''"
proof (cases "d < 10")
  case True
  then have "of_char (digit_char d) = 48 + d"
    by (simp add: digit_char_def take_bit_nat_eq_self del: of_char_mod_256)
  then show ?thesis by auto
next
  case False
  assume "d < 16"
  with False have "of_char (digit_char d) = 87 + d"
    by (simp add: digit_char_def take_bit_nat_eq_self)
  then show ?thesis using False by auto
qed

lemma radix_digits_no_dot:
  assumes "2 \<le> r" "r \<le> 16"
  shows "CHR ''.'' \<notin> set (radix_digits r n)"
proof (induction n rule: less_induct)
  case (less n)
  show ?case
  proof (cases "n < r")
    case True
    with assms show ?thesis using digit_char_not_dot [of n] by (subst radix_digits.simps) auto
  next
    case False
    then have "n div r < n" using assms by (intro div_less_dividend) auto
    moreover have "n mod r < 16" using assms mod_less_divisor [of r n] by linarith
    ultimately show ?thesis using less False assms digit_char_not_dot [of "n mod r"]
      by (subst radix_digits.simps) auto
  qed
qed

lemma parse_version_shown: "parse_version (trim (show_version v)) = Some v"
proof -
  let ?a = "radix_digits 16 (unat v div 256)" and ?b = "pad_zeros 2 (radix_digits 16 (unat v mod 256))"
  let ?s = "?a @ ''.'' @ ?b"
  have plain: "list_all plain ?a" "list_all plain ?b"
    by (simp_all add: pad_zeros_def radix_digits_plain plain_zero)
  then have "plain_ends ?s"
    by (intro plain_ends_all) (simp_all add: plain_def)
  then have t: "trim (show_version v) = ?s"
    using trim_printed [of ?s "2 - length ?a" 1] by (simp add: show_version_def line_def Let_def)
  have dots: "CHR ''.'' \<notin> set ?a" "CHR ''.'' \<notin> set ?b"
    using radix_digits_no_dot [of 16] by (auto simp: pad_zeros_def)
  have sp: "split_on (CHR ''.'') ?s = [?a, ?b]"
    using split_on_append [OF dots(1)] split_on_none [OF dots(2)] by simp
  have lt: "unat v div 256 < 256" using unat_u16_lt [of v] by linarith
  have p: "from_hex_str ?a = Some (of_nat (unat v div 256) :: u16)" "from_hex_str ?b = Some (of_nat (unat v mod 256) :: u16)"
    using parse_printed [of 16 "unat v div 256" 0, where 'w = 16] parse_printed [of 16 "unat v mod 256" 2, where 'w = 16] lt
    by (simp_all add: from_hex_str_def pad_zeros_def)
  have hi: "(of_nat (unat v div 256) :: u16) = drop_bit 8 v"
    by (rule word_unat_eq_iff [THEN iffD2]) (use lt in \<open>simp add: drop_bit_eq_div unat_of_nat unat_div\<close>)
  have lo: "(of_nat (unat v mod 256) :: u16) = take_bit 8 v"
    by (rule word_unat_eq_iff [THEN iffD2]) (simp add: take_bit_eq_mod unat_of_nat unat_mod)
  have "or (push_bit 8 (drop_bit 8 v)) (take_bit 8 v) = v"
    by (rule bit_word_eqI) (auto simp: bit_simps)
  then show ?thesis
    unfolding t parse_version_def sp by (simp add: p hi lo)
qed

lemma collect_options_Some: "collect_options (map Some xs) = Some xs"
  by (induction xs) auto

lemma split_show_ports:
  "ps \<noteq> [] \<Longrightarrow> split_on (CHR ''.'') (show_ports ps) = map (\<lambda>p. radix_digits 10 (unat p)) ps"
  by (induction ps rule: show_ports.induct)
    (simp_all add: split_on_none radix_digits_no_dot split_on_append)

lemma parse_port_chain_shown: "ps \<noteq> [] \<Longrightarrow> parse_port_chain (show_ports ps) = Some ps"
proof -
  assume ps: "ps \<noteq> []"
  have "from_str_radix 10 (radix_digits 10 (unat p)) = Some p" for p :: u8
    using parse_printed [of 10 "unat p" 0, where 'w = 8] unat_u8_lt [of p] by (simp add: pad_zeros_def)
  then have "map (from_str_radix 10 \<circ> (\<lambda>p. radix_digits 10 (unat p))) ps = map Some ps" by simp
  then show ?thesis
    unfolding parse_port_chain_def split_show_ports [OF ps] map_map by (simp only: collect_options_Some)
qed

lemma show_ports_plain: "plain_ends (show_ports ps)"
proof -
  have dot: "plain (CHR ''.'')" by (simp add: plain_def)
  have "list_all plain (show_ports ps) \<and> show_ports ps \<noteq> []"
    by (induction ps rule: show_ports.induct)
      (simp_all add: plain_zero radix_digits_plain radix_digits_not_Nil dot)
  then show ?thesis using plain_ends_all by blast
qed

lemma speed_shown: "speed_from_str (show_speed s) = Some s" "plain_ends (show_speed s)"
  by (cases s; simp add: speed_from_str_def plain_ends_def plain_def)+

section \<open>A device in sysfs\<close>

text \<open>An attribute that is there with its value, or not there.\<close>

fun shows_optional :: "sysfs \<Rightarrow> string \<Rightarrow> string \<Rightarrow> string option \<Rightarrow> bool" where
  "shows_optional fs p attr (Some s) \<longleftrightarrow> fs_read_to_string fs (path_join p attr) = Inr (line s) \<and> plain_ends s"
| "shows_optional fs p attr None \<longleftrightarrow> isl (fs_read_to_string fs (path_join p attr))"

definition shows_interface :: "sysfs \<Rightarrow> string \<Rightarrow> InterfaceInfo \<Rightarrow> bool" where
  "shows_interface fs i ii \<longleftrightarrow>
     fs_read_to_string fs (path_join i ''bInterfaceNumber'') = Inr (show_hex 2 (ii_interface_number ii)) \<and>
     fs_read_to_string fs (path_join i ''bInterfaceClass'') = Inr (show_hex 2 (ii_class ii)) \<and>
     fs_read_to_string fs (path_join i ''bInterfaceSubClass'') = Inr (show_hex 2 (ii_subclass ii)) \<and>
     fs_read_to_string fs (path_join i ''bInterfaceProtocol'') = Inr (show_hex 2 (ii_protocol ii)) \<and>
     shows_optional fs i ''interface'' (ii_interface_string ii)"

text \<open>
  The directory of the device \<open>d\<close>; its interfaces are the directories \<open>map fst is\<close>, in any order. Port
  numbers start at one.
\<close>

definition shows_device :: "sysfs \<Rightarrow> LinuxDeviceInfo \<Rightarrow> (string \<times> InterfaceInfo) list \<Rightarrow> bool" where
  "shows_device fs d is \<longleftrightarrow> (let p = di_path d in
     fs_read_to_string fs (path_join p ''busnum'') = Inr (show_dec (di_busnum d)) \<and>
     fs_read_to_string fs (path_join p ''devnum'') = Inr (show_dec (di_device_address d)) \<and>
     fs_read_to_string fs (path_join p ''devpath'') = Inr (line (show_ports (di_port_chain d))) \<and>
     list_all (\<lambda>n. n \<noteq> 0) (di_port_chain d) \<and>
     fs_read_to_string fs (path_join p ''idVendor'') = Inr (show_hex 4 (di_vendor_id d)) \<and>
     fs_read_to_string fs (path_join p ''idProduct'') = Inr (show_hex 4 (di_product_id d)) \<and>
     fs_read_to_string fs (path_join p ''bcdDevice'') = Inr (show_hex 4 (di_device_version d)) \<and>
     fs_read_to_string fs (path_join p ''version'') = Inr (show_version (di_usb_version d)) \<and>
     fs_read_to_string fs (path_join p ''bDeviceClass'') = Inr (show_hex 2 (di_class d)) \<and>
     fs_read_to_string fs (path_join p ''bDeviceSubClass'') = Inr (show_hex 2 (di_subclass d)) \<and>
     fs_read_to_string fs (path_join p ''bDeviceProtocol'') = Inr (show_hex 2 (di_protocol d)) \<and>
     shows_optional fs p ''speed'' (map_option show_speed (di_speed d)) \<and>
     shows_optional fs p ''manufacturer'' (di_manufacturer_string d) \<and>
     shows_optional fs p ''product'' (di_product_string d) \<and>
     shows_optional fs p ''serial'' (di_serial_number d) \<and>
     interface_dirs fs p = map fst is \<and> list_all (\<lambda>(i, ii). shows_interface fs i ii) is \<and>
     mset (map snd is) = mset (di_interfaces d) \<and>
     sorted (map ii_interface_number (di_interfaces d)) \<and> distinct (map ii_interface_number (di_interfaces d)) \<and>
     di_bus_id d = dec_padded 3 (unat (di_busnum d)))"

lemma shows_optional_read: "shows_optional fs p attr s \<Longrightarrow> ok_of (read_attr_string fs p attr) = s"
  by (cases s; cases "fs_read_to_string fs (path_join p attr)")
    (auto simp: read_attr_string_def parse_attr_def trim_line)

lemma probe_interface_shown: "shows_interface fs i ii \<Longrightarrow> probe_interface fs i = Some ii"
  by (simp add: shows_interface_def probe_interface_def read_attr_hex_shown shows_optional_read)

lemma map_filter_shown:
  "list_all (\<lambda>(i, ii). shows_interface fs i ii) is \<Longrightarrow>
    List.map_filter (probe_interface fs) (map fst is) = map snd is"
  by (induction "is") (auto simp: List.map_filter_simps probe_interface_shown split: prod.splits)

lemma sort_key_unique:
  assumes "mset xs = mset ys" "sorted (map f ys)" "distinct (map f ys)"
  shows "sort_key f xs = ys"
proof (rule properties_for_sort_key)
  show "mset ys = mset xs" using assms(1) by simp
  show "sorted (map f ys)" by (rule assms(2))
  fix k assume "k \<in> set ys"
  have "filter (\<lambda>y. f k = f y) zs = [k]" if "distinct (map f zs)" "k \<in> set zs" for zs
    using that by (induction zs) (auto simp: filter_empty_conv image_iff)
  moreover have "distinct (map f xs)"
    using assms(1,3) by (metis distinct_map mset_eq_imp_distinct_iff mset_eq_setD mset_map)
  moreover have "k \<in> set xs" using \<open>k \<in> set ys\<close> assms(1) by (metis mset_eq_setD)
  ultimately show "filter (\<lambda>y. f k = f y) ys = filter (\<lambda>y. f k = f y) xs"
    using assms(3) \<open>k \<in> set ys\<close> by metis
qed

text \<open>
  C22. Enumeration reads back what the kernel shows: for every device whose attributes sysfs prints in
  the kernel's formats, with its interfaces in any order of the directory, \<open>probe_device\<close> gives exactly
  that device: numbers in decimal and hexadecimal, the version with its dot, the chain of ports, the
  speed, the strings that are there, and the interfaces sorted by number.
\<close>

theorem probe_device_roundtrip:
  assumes "shows_device fs d is"
  shows "probe_device fs (di_path d) = Inr d"
proof -
  note s = assms [unfolded shows_device_def Let_def]
  have devpath: "ok_of (read_attr_string fs (di_path d) ''devpath'') = Some (show_ports (di_port_chain d))"
    using s by (simp add: read_attr_string_shown show_ports_plain)
  have ports: "(case ok_of (read_attr_string fs (di_path d) ''devpath'') of None \<Rightarrow> []
      | Some t \<Rightarrow> if t = ''0'' then [] else case parse_port_chain t of None \<Rightarrow> [] | Some c \<Rightarrow> c) = di_port_chain d"
  proof (cases "di_port_chain d = []")
    case True
    with devpath show ?thesis by simp
  next
    case False
    have "show_ports (di_port_chain d) \<noteq> ''0''"
    proof
      assume z: "show_ports (di_port_chain d) = ''0''"
      then have "parse_port_chain ''0'' = Some (di_port_chain d)" using parse_port_chain_shown [OF False] by simp
      moreover have "parse_port_chain ''0'' = Some [0]" by code_simp
      ultimately have "di_port_chain d = [0]" by simp
      moreover have "list_all (\<lambda>n. n \<noteq> 0) (di_port_chain d)" using s by blast
      ultimately show False by simp
    qed
    with devpath parse_port_chain_shown [OF False] show ?thesis by simp
  qed
  have speed: "Option.bind (ok_of (read_attr_string fs (di_path d) ''speed'')) speed_from_str = di_speed d"
  proof -
    have "shows_optional fs (di_path d) ''speed'' (map_option show_speed (di_speed d))" using s by blast
    from shows_optional_read [OF this] speed_shown(1) show ?thesis by (cases "di_speed d") simp_all
  qed
  have ifs: "probe_interfaces fs (di_path d) = di_interfaces d"
    using s by (simp add: probe_interfaces_def map_filter_shown sort_key_unique)
  have version: "parse_attr fs (di_path d) ''version'' parse_version = Inr (di_usb_version d)"
    using s by (simp add: parse_attr_def parse_version_shown)
  show ?thesis
    unfolding probe_device_def ports speed ifs version
    using s by (simp add: read_attr_u8_shown read_attr_hex_shown shows_optional_read)
qed

text \<open>A keyboard as sysfs shows it; its interfaces are listed out of order.\<close>

definition example_files :: "(string \<times> string) list" where
  "example_files =
     map (\<lambda>(a, s). (''/sys/d/'' @ a, line s))
       [(''busnum'', ''1''), (''devnum'', ''17''), (''devpath'', ''6.4''), (''idVendor'', ''046d''),
        (''idProduct'', ''c31c''), (''bcdDevice'', ''6400''), (''version'', '' 2.10''), (''bDeviceClass'', ''00''),
        (''bDeviceSubClass'', ''00''), (''bDeviceProtocol'', ''00''), (''speed'', ''1.5''),
        (''product'', ''USB Keyboard''),
        (''1-6.4:1.1/bInterfaceNumber'', ''01''), (''1-6.4:1.1/bInterfaceClass'', ''03''),
        (''1-6.4:1.1/bInterfaceSubClass'', ''00''), (''1-6.4:1.1/bInterfaceProtocol'', ''00''),
        (''1-6.4:1.0/bInterfaceNumber'', ''00''), (''1-6.4:1.0/bInterfaceClass'', ''03''),
        (''1-6.4:1.0/bInterfaceSubClass'', ''01''), (''1-6.4:1.0/bInterfaceProtocol'', ''01'')]"

definition example_read :: "string \<Rightarrow> fs_error + string" where
  "example_read p = (case map_of example_files p of Some s \<Rightarrow> Inr s | None \<Rightarrow> no_entry p)"

definition example_read_dir :: "string \<Rightarrow> fs_error + (fs_error + string \<times> (fs_error + bool)) list" where
  "example_read_dir p =
     (if p = ''/sys/d''
      then Inr [Inr (''power'', Inr True), Inr (''1-6.4:1.1'', Inr True), Inr (''1-6.4:1.0'', Inr True),
                Inr (''busnum'', Inr False)]
      else no_entry p)"

definition example_sysfs :: sysfs where
  "example_sysfs =
     \<lparr>fs_read_to_string = example_read, fs_read_link = no_entry, fs_read_dir = example_read_dir,
      fs_canonicalize = Inr\<rparr>"

definition example_interface :: "u8 \<Rightarrow> u8 \<Rightarrow> InterfaceInfo" where
  "example_interface n b =
     \<lparr>ii_interface_number = n, ii_class = 3, ii_subclass = b, ii_protocol = b, ii_interface_string = None\<rparr>"

definition example_device :: LinuxDeviceInfo where
  "example_device =
     \<lparr>di_bus_id = ''001'', di_device_address = 17, di_port_chain = [6, 4], di_vendor_id = 0x046d,
      di_product_id = 0xc31c, di_device_version = 0x6400, di_usb_version = 0x0210, di_class = 0,
      di_subclass = 0, di_protocol = 0, di_speed = Some Low, di_manufacturer_string = None,
      di_product_string = Some ''USB Keyboard'', di_serial_number = None,
      di_interfaces = [example_interface 0 1, example_interface 1 0], di_path = ''/sys/d'', di_busnum = 1\<rparr>"

definition example_interfaces :: "(string \<times> InterfaceInfo) list" where
  "example_interfaces =
     [(''/sys/d/1-6.4:1.1'', example_interface 1 0), (''/sys/d/1-6.4:1.0'', example_interface 0 1)]"

lemma digit_char_table:
  "digit_char 0 = CHR ''0''" "digit_char (Suc 0) = CHR ''1''" "digit_char 2 = CHR ''2''" "digit_char 3 = CHR ''3''"
  "digit_char 4 = CHR ''4''" "digit_char 6 = CHR ''6''" "digit_char 7 = CHR ''7''" "digit_char 12 = CHR ''c''"
  "digit_char 13 = CHR ''d''"
  by code_simp+

lemma replicate_two: "replicate 2 x = [x, x]"
  by (simp add: numeral_2_eq_2)

lemma example_printed:
  "show_hex 4 (0x046d :: u16) = line ''046d''" "show_hex 4 (0xc31c :: u16) = line ''c31c''"
  "show_hex 4 (0x6400 :: u16) = line ''6400''" "show_hex 2 (0 :: u8) = line ''00''"
  "show_hex 2 (1 :: u8) = line ''01''" "show_hex 2 (3 :: u8) = line ''03''"
  "show_dec (1 :: u8) = line ''1''" "show_dec (17 :: u8) = line ''17''"
  "show_version 0x0210 = line '' 2.10''" "show_ports [6, 4] = ''6.4''" "dec_padded 3 (Suc 0) = ''001''"
  by (simp_all add: show_hex_def show_dec_def show_version_def dec_padded_def pad_zeros_def digit_char_table
      radix_digits.simps replicate_two flip: radix_digits_10)

lemma example_attributes:
  "map (\<lambda>a. fs_read_to_string example_sysfs (path_join ''/sys/d'' a))
     [''busnum'', ''devnum'', ''devpath'', ''idVendor'', ''idProduct'', ''bcdDevice'', ''version'',
      ''bDeviceClass'', ''bDeviceSubClass'', ''bDeviceProtocol'', ''speed'', ''product''] =
   map Inr [line ''1'', line ''17'', line ''6.4'', line ''046d'', line ''c31c'', line ''6400'', line '' 2.10'',
      line ''00'', line ''00'', line ''00'', line ''1.5'', line ''USB Keyboard'']"
  "list_all (\<lambda>a. isl (fs_read_to_string example_sysfs (path_join ''/sys/d'' a))) [''manufacturer'', ''serial'']"
  "interface_dirs example_sysfs ''/sys/d'' = map fst example_interfaces"
  "list_all (\<lambda>(i, ii). shows_interface example_sysfs i ii) example_interfaces"
  by code_simp+

lemma example_shown: "shows_device example_sysfs example_device example_interfaces"
  using example_attributes
  by (simp add: shows_device_def example_device_def example_printed [simplified] example_interfaces_def example_interface_def
      plain_ends_def plain_def radix_digits.simps digit_char_table)

theorem probe_device_roundtrip_witness: "probe_device example_sysfs ''/sys/d'' = Inr example_device"
  using probe_device_roundtrip [OF example_shown] by (simp add: example_device_def)

end
