(* ===== verification/Linux_Hotplug.thy ===== *)
theory Linux_Hotplug
  imports Linux_Enumeration
begin

text \<open>
  src/src/platform/linux_usbfs/hotplug.rs: the udev netlink socket. A message is parsed into at most
  one hotplug event; reading the socket, the file system and the registration with epoll are
  parameters.
\<close>

section \<open>Properties\<close>

definition str_of_bytes :: "bytes \<Rightarrow> string" where
  "str_of_bytes bs = map (\<lambda>b. char_of (unat b)) bs"

definition UDEV_MAGIC :: bytes where
  "UDEV_MAGIC = [0x6c, 0x69, 0x62, 0x75, 0x64, 0x65, 0x76, 0, 0xfe, 0xed, 0xca, 0xfe]"

definition UDEV_MULTICAST_GROUP :: u32 where
  "UDEV_MULTICAST_GROUP = 2"

text \<open>Entries that are not UTF-8 or have no equals sign are left out.\<close>

definition parse_entry :: "bytes \<Rightarrow> (string \<times> string) option" where
  "parse_entry entry =
     (let s = str_of_bytes entry in if valid_utf8 s then split_once (CHR ''='') s else None)"

definition parse_properties :: "bytes \<Rightarrow> (string \<times> string) list" where
  "parse_properties buf = List.map_filter parse_entry (split_on 0 buf)"

section \<open>A packet\<close>

record uevent =
  ue_is_add :: "bool option"
  ue_busnum :: "u8 option"
  ue_devnum :: "u8 option"
  ue_devpath :: "string option"

definition uevent_empty :: uevent where
  "uevent_empty = \<lparr>ue_is_add = None, ue_busnum = None, ue_devnum = None, ue_devpath = None\<rparr>"

text \<open>One round of the loop; \<open>None\<close> is an early return.\<close>

definition uevent_property :: "string \<Rightarrow> string \<Rightarrow> uevent \<Rightarrow> uevent option" where
  "uevent_property k v e =
     (if k = ''SUBSYSTEM'' \<and> v \<noteq> ''usb'' then None
      else if k = ''DEVTYPE'' \<and> v \<noteq> ''usb_device'' then None
      else if k = ''ACTION'' then
        (if v = ''add'' then Some (e\<lparr>ue_is_add := Some True\<rparr>)
         else if v = ''remove'' then Some (e\<lparr>ue_is_add := Some False\<rparr>)
         else None)
      else if k = ''BUSNUM'' then Some (e\<lparr>ue_busnum := from_str_radix 10 v\<rparr>)
      else if k = ''DEVNUM'' then Some (e\<lparr>ue_devnum := from_str_radix 10 v\<rparr>)
      else if k = ''DEVPATH'' then Some (e\<lparr>ue_devpath := Some v\<rparr>)
      else Some e)"

fun uevent_properties :: "(string \<times> string) list \<Rightarrow> uevent \<Rightarrow> uevent option" where
  "uevent_properties [] e = Some e"
| "uevent_properties ((k, v) # kvs) e =
     (case uevent_property k v e of None \<Rightarrow> None | Some e' \<Rightarrow> uevent_properties kvs e')"

definition uevent_event :: "sysfs \<Rightarrow> uevent \<Rightarrow> (LinuxDeviceInfo, LinuxDeviceId) HotplugEvent option" where
  "uevent_event fs e =
     (case (ue_is_add e, ue_busnum e, ue_devnum e, ue_devpath e) of
        (Some is_add, Some busnum, Some devnum, Some devpath) \<Rightarrow>
          if is_add
          then map_option ConnectedEvent
                 (ok_of (probe_device fs (path_join ''/sys/'' (trim_start_matches (CHR ''/'') devpath))))
          else Some (DisconnectedEvent \<lparr>id_bus = busnum, id_addr = devnum\<rparr>)
      | _ \<Rightarrow> None)"

text \<open>
  \<open>buf.get(a..b)\<close> is \<open>None\<close> out of range. The sum of the two offsets cannot overflow a \<open>usize\<close> of
  64 bits; the index expressions could panic. The target is little-endian.
\<close>

definition u32_at :: "bytes \<Rightarrow> nat \<Rightarrow> u32 outcome" where
  "u32_at buf i =
     omap (\<lambda>s. u32_from_le_bytes (s ! 0) (s ! 1) (s ! 2) (s ! 3)) (slice_range buf i (i + 4))"

definition parse_packet :: "sysfs \<Rightarrow> bytes \<Rightarrow> (LinuxDeviceInfo, LinuxDeviceId) HotplugEvent option outcome" where
  "parse_packet fs buf =
     (if length buf < 24 then Ret None
      else if \<not> is_prefix UDEV_MAGIC buf then Ret None
      else
        obind (u32_at buf 16) (\<lambda>off.
        obind (u32_at buf 20) (\<lambda>len.
          if \<not> fits_usize (unat off + unat len) then Panic
          else
            (case get_range buf (unat off) (unat off + unat len) of
               None \<Rightarrow> Ret None
             | Some properties_buf \<Rightarrow>
                 Ret (case uevent_properties (parse_properties properties_buf) uevent_empty of
                        None \<Rightarrow> None
                      | Some e \<Rightarrow> uevent_event fs e)))))"

section \<open>The socket\<close>

text \<open>
  \<open>recvfrom\<close>: an \<open>errno\<close>, or the data with the multicast groups of a netlink sender; \<open>None\<close> is a
  message with no address or one of another family.
\<close>

datatype received = ReceiveError errno | ReceivedData bytes "u32 option"

definition try_receive_event ::
  "sysfs \<Rightarrow> received \<Rightarrow> (LinuxDeviceInfo, LinuxDeviceId) HotplugEvent option outcome" where
  "try_receive_event fs r =
     (case r of
        ReceiveError e \<Rightarrow> Ret None
      | ReceivedData data src \<Rightarrow>
          if src = Some UDEV_MULTICAST_GROUP then parse_packet fs (take 8192 data) else Ret None)"

text \<open>
  \<open>poll_next\<close>: the event that is \<open>Ready\<close>, or \<open>Pending\<close> after the waker was registered (an error of the
  registration is only logged). \<open>'w\<close> is the state of the event loop.
\<close>

definition hotplug_poll_next ::
  "('w \<Rightarrow> nat \<Rightarrow> 'w) \<Rightarrow> sysfs \<Rightarrow> received \<Rightarrow> nat \<Rightarrow> 'w \<Rightarrow>
   ((LinuxDeviceInfo, LinuxDeviceId) HotplugEvent option \<times> 'w) outcome" where
  "hotplug_poll_next register fs r waker w =
     obind (try_receive_event fs r) (\<lambda>event.
       Ret (case event of Some ev \<Rightarrow> (Some ev, w) | None \<Rightarrow> (None, register w waker)))"

section \<open>Packets as udev sends them\<close>

definition bytes_of_str :: "string \<Rightarrow> bytes" where
  "bytes_of_str s = map (\<lambda>c. of_nat (of_char c)) s"

definition properties_block :: "(string \<times> string) list \<Rightarrow> bytes" where
  "properties_block kvs = concat (map (\<lambda>(k, v). bytes_of_str (k @ ''='' @ v) @ [0]) kvs)"

text \<open>\<open>struct udev_monitor_netlink_header\<close>: 40 bytes, followed by the properties.\<close>

definition udev_packet :: "(string \<times> string) list \<Rightarrow> bytes" where
  "udev_packet kvs =
     UDEV_MAGIC @ u32_to_le_bytes 40 @ u32_to_le_bytes 40 @
     u32_to_le_bytes (of_nat (length (properties_block kvs))) @ replicate 16 0 @ properties_block kvs"

definition property_ok :: "string \<times> string \<Rightarrow> bool" where
  "property_ok kv \<longleftrightarrow> CHR ''='' \<notin> set (fst kv) \<and> CHR 0x00 \<notin> set (fst kv @ snd kv) \<and>
     valid_utf8 (fst kv @ ''='' @ snd kv)"

text \<open>What the properties mean, as a map.\<close>

definition uevent_spec ::
  "sysfs \<Rightarrow> (string \<rightharpoonup> string) \<Rightarrow> (LinuxDeviceInfo, LinuxDeviceId) HotplugEvent option" where
  "uevent_spec fs m =
     (if m ''SUBSYSTEM'' \<notin> {None, Some ''usb''} \<or> m ''DEVTYPE'' \<notin> {None, Some ''usb_device''} then None
      else
        (case (m ''ACTION'', Option.bind (m ''BUSNUM'') (from_str_radix 10),
               Option.bind (m ''DEVNUM'') (from_str_radix 10), m ''DEVPATH'') of
           (Some act, Some b, Some d, Some devpath) \<Rightarrow>
             if act = ''add''
             then map_option ConnectedEvent
                    (ok_of (probe_device fs (path_join ''/sys/'' (trim_start_matches (CHR ''/'') devpath))))
             else if act = ''remove'' then Some (DisconnectedEvent \<lparr>id_bus = b, id_addr = d\<rparr>)
             else None
         | _ \<Rightarrow> None))"

lemma byte_of_char: "unat (of_nat (of_char c) :: u8) = of_char c"
  by (rule unat_of_nat_u8) simp

lemma str_of_bytes_of_str: "str_of_bytes (bytes_of_str s) = s"
  by (simp add: str_of_bytes_def bytes_of_str_def comp_def byte_of_char)

lemma bytes_of_str_zero: "CHR 0x00 \<notin> set s \<Longrightarrow> 0 \<notin> set (bytes_of_str s)"
proof
  assume "CHR 0x00 \<notin> set s" "0 \<in> set (bytes_of_str s)"
  then obtain c where c: "c \<in> set s" "(of_nat (of_char c) :: u8) = 0" by (auto simp: bytes_of_str_def)
  then have "(of_char c :: nat) = of_char (CHR 0x00)" using byte_of_char [of c] by simp
  then have "c = CHR 0x00" by (simp only: of_char_eq_iff)
  with c(1) \<open>CHR 0x00 \<notin> set s\<close> show False by simp
qed

lemma split_once_key: "c \<notin> set k \<Longrightarrow> split_once c (k @ c # v) = Some (k, v)"
  by (induction k) auto

lemma split_on_append_sep: "c \<notin> set s \<Longrightarrow> split_on c (s @ c # t) = s # split_on c t"
  by (induction s) auto

lemma parse_properties_block:
  "list_all property_ok kvs \<Longrightarrow> parse_properties (properties_block kvs) = kvs"
proof (induction kvs)
  case Nil
  then show ?case
    by (simp add: parse_properties_def properties_block_def parse_entry_def str_of_bytes_def List.map_filter_simps)
next
  case (Cons kv kvs)
  obtain k v where kv: "kv = (k, v)" by (cases kv)
  have ok: "CHR ''='' \<notin> set k" "CHR 0x00 \<notin> set (k @ ''='' @ v)" "valid_utf8 (k @ ''='' @ v)"
    using Cons.prems by (simp_all add: kv property_ok_def)
  have "parse_entry (bytes_of_str (k @ ''='' @ v)) = Some (k, v)"
    using ok split_once_key [OF ok(1)] by (simp add: parse_entry_def str_of_bytes_of_str)
  then show ?case
    using Cons split_on_append_sep [OF bytes_of_str_zero [OF ok(2)]]
    by (simp add: kv parse_properties_def properties_block_def List.map_filter_simps)
qed

text \<open>The loop over distinct keys, for one that is already in progress.\<close>

definition refused :: "(string \<rightharpoonup> string) \<Rightarrow> bool" where
  "refused m \<longleftrightarrow> m ''SUBSYSTEM'' \<notin> {None, Some ''usb''} \<or> m ''DEVTYPE'' \<notin> {None, Some ''usb_device''} \<or>
     m ''ACTION'' \<notin> {None, Some ''add'', Some ''remove''}"

definition uevent_update :: "(string \<rightharpoonup> string) \<Rightarrow> uevent \<Rightarrow> uevent" where
  "uevent_update m e =
     \<lparr>ue_is_add = (case m ''ACTION'' of None \<Rightarrow> ue_is_add e | Some v \<Rightarrow> Some (v = ''add'')),
      ue_busnum = (case m ''BUSNUM'' of None \<Rightarrow> ue_busnum e | Some v \<Rightarrow> from_str_radix 10 v),
      ue_devnum = (case m ''DEVNUM'' of None \<Rightarrow> ue_devnum e | Some v \<Rightarrow> from_str_radix 10 v),
      ue_devpath = (case m ''DEVPATH'' of None \<Rightarrow> ue_devpath e | Some v \<Rightarrow> Some v)\<rparr>"

lemma one_of_six:
  obtains "k = a" | "k = b" | "k = c" | "k = d" | "k = e" | "k = f"
    | "k \<noteq> a \<and> k \<noteq> b \<and> k \<noteq> c \<and> k \<noteq> d \<and> k \<noteq> e \<and> k \<noteq> f"
  by blast

lemma uevent_properties_eq:
  "distinct (map fst kvs) \<Longrightarrow>
    uevent_properties kvs e = (if refused (map_of kvs) then None else Some (uevent_update (map_of kvs) e))"
proof (induction kvs arbitrary: e)
  case Nil
  then show ?case by (simp add: refused_def uevent_update_def)
next
  case (Cons kv kvs)
  obtain k v where kv: "kv = (k, v)" by (cases kv)
  have n: "map_of kvs k = None" using Cons.prems by (simp add: kv map_of_eq_None_iff)
  have IH: "uevent_properties kvs e' = (if refused (map_of kvs) then None else Some (uevent_update (map_of kvs) e'))"
    for e' using Cons by simp
  consider "k = ''SUBSYSTEM''" | "k = ''DEVTYPE''" | "k = ''ACTION''" | "k = ''BUSNUM''" | "k = ''DEVNUM''" |
    "k = ''DEVPATH''" |
    "k \<noteq> ''SUBSYSTEM'' \<and> k \<noteq> ''DEVTYPE'' \<and> k \<noteq> ''ACTION'' \<and> k \<noteq> ''BUSNUM'' \<and> k \<noteq> ''DEVNUM'' \<and> k \<noteq> ''DEVPATH''"
    by (rule one_of_six)
  then show ?case
  proof (cases)
    case 1
    with n show ?thesis by (simp add: kv uevent_property_def IH refused_def uevent_update_def cong: option.case_cong)
  next
    case 2
    with n show ?thesis by (simp add: kv uevent_property_def IH refused_def uevent_update_def cong: option.case_cong)
  next
    case 3
    with n show ?thesis by (simp add: kv uevent_property_def IH refused_def uevent_update_def cong: option.case_cong)
  next
    case 4
    with n show ?thesis by (simp add: kv uevent_property_def IH refused_def uevent_update_def cong: option.case_cong)
  next
    case 5
    with n show ?thesis by (simp add: kv uevent_property_def IH refused_def uevent_update_def cong: option.case_cong)
  next
    case 6
    with n show ?thesis by (simp add: kv uevent_property_def IH refused_def uevent_update_def cong: option.case_cong)
  next
    case 7
    then have k: "k \<noteq> ''SUBSYSTEM''" "k \<noteq> ''DEVTYPE''" "k \<noteq> ''ACTION''" "k \<noteq> ''BUSNUM''" "k \<noteq> ''DEVNUM''"
      "k \<noteq> ''DEVPATH''" by iprover+
    have p: "uevent_property k v e = Some e" unfolding uevent_property_def by (simp only: k simp_thms if_False)
    have m: "(map_of (kv # kvs)) x = map_of kvs x" if "k \<noteq> x" for x using that by (simp add: kv)
    have r: "refused (map_of (kv # kvs)) = refused (map_of kvs)"
      "uevent_update (map_of (kv # kvs)) e = uevent_update (map_of kvs) e"
      unfolding refused_def uevent_update_def by (simp_all only: m [OF k(1)] m [OF k(2)] m [OF k(3)] m [OF k(4)] m [OF k(5)] m [OF k(6)])
    show ?thesis unfolding r by (simp add: kv p IH)
  qed
qed

lemma uevent_event_spec:
  assumes "distinct (map fst kvs)"
  shows "(case uevent_properties kvs uevent_empty of None \<Rightarrow> None | Some e \<Rightarrow> uevent_event fs e) =
    uevent_spec fs (map_of kvs)"
proof -
  define m where "m = map_of kvs"
  have "(if refused m then None else uevent_event fs (uevent_update m uevent_empty)) = uevent_spec fs m"
  proof (cases "refused m")
    case True
    then show ?thesis
      by (cases "m ''ACTION''") (auto simp: refused_def uevent_spec_def split: option.splits)
  next
    case False
    then have a: "m ''ACTION'' = None \<or> m ''ACTION'' = Some ''add'' \<or> m ''ACTION'' = Some ''remove''"
      and r: "\<not> (m ''SUBSYSTEM'' \<notin> {None, Some ''usb''} \<or> m ''DEVTYPE'' \<notin> {None, Some ''usb_device''})"
      by (simp_all add: refused_def)
    have b: "ue_busnum (uevent_update m uevent_empty) = Option.bind (m ''BUSNUM'') (from_str_radix 10)"
      "ue_devnum (uevent_update m uevent_empty) = Option.bind (m ''DEVNUM'') (from_str_radix 10)"
      "ue_devpath (uevent_update m uevent_empty) = m ''DEVPATH''"
      "ue_is_add (uevent_update m uevent_empty) = map_option (\<lambda>v. v = ''add'') (m ''ACTION'')"
      by (simp_all add: uevent_update_def uevent_empty_def split: option.split)
    from a show ?thesis
      unfolding uevent_spec_def if_not_P [OF r] if_not_P [OF False] uevent_event_def b
      by (elim disjE) (simp_all split: option.splits)
  qed
  then show ?thesis unfolding uevent_properties_eq [OF assms] m_def by (simp split: if_splits)
qed

lemma u32_le_roundtrip:
  "u32_from_le_bytes (u32_to_le_bytes w ! 0) (u32_to_le_bytes w ! 1) (u32_to_le_bytes w ! 2) (u32_to_le_bytes w ! 3) = w"
proof -
  define n where "n = unat w"
  have n: "n < 2 ^ 32" unfolding n_def by (rule unat_u32_lt)
  have d: "n div 65536 = n div 256 div 256" "n div 16777216 = n div 256 div 256 div 256"
    by (simp_all add: div_mult2_eq [symmetric])
  have "n div 16777216 < 256" using n by simp
  then have "u32_from_le_bytes (u32_to_le_bytes w ! 0) (u32_to_le_bytes w ! 1) (u32_to_le_bytes w ! 2)
      (u32_to_le_bytes w ! 3) =
    of_nat (n mod 256 + 256 * (n div 256 mod 256) + 65536 * (n div 65536 mod 256) + 16777216 * (n div 16777216))"
    by (simp add: u32_from_le_bytes_def u32_to_le_bytes_def unat_of_nat n_def del: of_nat_add of_nat_mult)
  also have "n mod 256 + 256 * (n div 256 mod 256) + 65536 * (n div 65536 mod 256) + 16777216 * (n div 16777216) = n"
    unfolding d
    using div_mult_mod_eq [of n 256] div_mult_mod_eq [of "n div 256" 256] div_mult_mod_eq [of "n div 256 div 256" 256]
    by linarith
  finally show ?thesis by (simp add: n_def)
qed

lemma slice_word:
  assumes "i + 4 \<le> length xs"
  shows "u32_at (xs @ ys) i = u32_at xs i"
  using assms by (simp add: u32_at_def slice_range_def)

text \<open>
  Parsing a netlink message never panics, whatever the bytes are: the header that is too short,
  has another magic or points outside of the message is refused, and every event comes from a block
  of properties inside of the message.
\<close>

theorem parse_packet_total:
  "\<exists>r. parse_packet fs buf = Ret r \<and>
    (case r of
       None \<Rightarrow> True
     | Some ev \<Rightarrow>
         \<exists>off len e. take 12 buf = UDEV_MAGIC \<and> u32_at buf 16 = Ret off \<and> u32_at buf 20 = Ret len \<and>
           unat off + unat len \<le> length buf \<and>
           uevent_properties (parse_properties (take (unat len) (drop (unat off) buf))) uevent_empty = Some e \<and>
           uevent_event fs e = Some ev)"
proof (cases "length buf < 24 \<or> \<not> is_prefix UDEV_MAGIC buf")
  case True
  then show ?thesis by (auto simp: parse_packet_def)
next
  case False
  then obtain off len where u: "u32_at buf 16 = Ret off" "u32_at buf 20 = Ret len"
    by (simp add: u32_at_def slice_range_def)
  have "unat off < 2 ^ 32" "unat len < 2 ^ 32" by (rule unat_u32_lt)+
  then have fits: "fits_usize (unat off + unat len)" by (simp add: fits_usize_def usize_max_def)
  have magic: "take 12 buf = UDEV_MAGIC" using False by (auto simp: is_prefix_eq UDEV_MAGIC_def)
  show ?thesis
  proof (cases "unat off + unat len \<le> length buf")
    case True
    let ?u = "uevent_properties (parse_properties (take (unat len) (drop (unat off) buf))) uevent_empty"
    have "parse_packet fs buf = Ret (case ?u of None \<Rightarrow> None | Some e \<Rightarrow> uevent_event fs e)"
      using False u fits True by (simp add: parse_packet_def get_range_def take_drop)
    with magic u True show ?thesis by (cases ?u) (auto split: option.split)
  next
    case out: False
    with False u fits show ?thesis by (simp add: parse_packet_def get_range_def)
  qed
qed

text \<open>
  C23. A message as udev sends it is understood: for any properties with distinct keys, as long as
  their text is UTF-8 and the message fits the receive buffer, the event is the one that the
  properties describe as a map, in whatever order they come. Only messages of the usb subsystem about
  whole devices count; \<open>add\<close> probes the device at its path in sysfs and \<open>remove\<close> names bus and
  address, the identifier that the enumeration gave to the device.
\<close>

theorem udev_packet_roundtrip:
  assumes "list_all property_ok kvs" "distinct (map fst kvs)" "length (properties_block kvs) \<le> 8152"
  shows "try_receive_event fs (ReceivedData (udev_packet kvs) (Some UDEV_MULTICAST_GROUP)) =
    Ret (uevent_spec fs (map_of kvs))"
proof -
  let ?n = "length (properties_block kvs)"
  have len: "length (udev_packet kvs) = 40 + ?n" by (simp add: udev_packet_def UDEV_MAGIC_def)
  have n: "unat (of_nat ?n :: u32) = ?n" using assms(3) by (intro unat_of_nat_u32) simp
  have w: "u32_from_le_bytes (u32_to_le_bytes v ! 0) (u32_to_le_bytes v ! Suc 0) (u32_to_le_bytes v ! 2)
      (u32_to_le_bytes v ! 3) = v" for v using u32_le_roundtrip [of v] by simp
  have at: "u32_at (xs @ u32_to_le_bytes v @ ys) (length xs) = Ret v" for xs v ys
    by (simp add: u32_at_def slice_range_def w)
  have off: "u32_at (udev_packet kvs) 16 = Ret 40"
    using at [of "UDEV_MAGIC @ u32_to_le_bytes 40" 40] by (simp add: udev_packet_def UDEV_MAGIC_def)
  have size: "u32_at (udev_packet kvs) 20 = Ret (of_nat ?n)"
    using at [of "UDEV_MAGIC @ u32_to_le_bytes 40 @ u32_to_le_bytes 40" "of_nat ?n"]
    by (simp add: udev_packet_def UDEV_MAGIC_def)
  have magic: "is_prefix UDEV_MAGIC (udev_packet kvs)" by (auto simp: is_prefix_eq udev_packet_def)
  have block: "get_range (udev_packet kvs) 40 (40 + ?n) = Some (properties_block kvs)"
    by (simp add: get_range_def udev_packet_def UDEV_MAGIC_def)
  have fits: "fits_usize (40 + ?n)" using assms(3) by (simp add: fits_usize_def usize_max_def)
  have "take 8192 (udev_packet kvs) = udev_packet kvs" using len assms(3) by simp
  then show ?thesis
    using len off size magic block fits n uevent_event_spec [OF assms(2)]
    by (simp add: try_receive_event_def parse_packet_def parse_properties_block [OF assms(1)])
qed

theorem udev_packet_roundtrip_witness:
  "\<forall>fs. try_receive_event fs (ReceivedData (udev_packet
     [(''ACTION'', ''remove''), (''DEVPATH'', ''/devices/usb1/1-6''), (''SUBSYSTEM'', ''usb''),
      (''DEVTYPE'', ''usb_device''), (''BUSNUM'', ''001''), (''DEVNUM'', ''017'')]) (Some UDEV_MULTICAST_GROUP)) =
   Ret (Some (DisconnectedEvent \<lparr>id_bus = 1, id_addr = 17\<rparr>))"
proof
  fix fs
  let ?kvs = "[(''ACTION'', ''remove''), (''DEVPATH'', ''/devices/usb1/1-6''), (''SUBSYSTEM'', ''usb''),
      (''DEVTYPE'', ''usb_device''), (''BUSNUM'', ''001''), (''DEVNUM'', ''017'')]"
  have ok: "list_all property_ok ?kvs" "distinct (map fst ?kvs)" by code_simp+
  have len: "length (properties_block ?kvs) \<le> 8152" by (simp add: properties_block_def bytes_of_str_def)
  have n: "(from_str_radix 10 ''001'' :: u8 option) = Some 1" "(from_str_radix 10 ''017'' :: u8 option) = Some 17"
    by code_simp+
  have "uevent_spec fs (map_of ?kvs) = Some (DisconnectedEvent \<lparr>id_bus = 1, id_addr = 17\<rparr>)"
    by (simp add: uevent_spec_def n)
  with udev_packet_roundtrip [OF ok len]
  show "try_receive_event fs (ReceivedData (udev_packet ?kvs) (Some UDEV_MULTICAST_GROUP)) =
    Ret (Some (DisconnectedEvent \<lparr>id_bus = 1, id_addr = 17\<rparr>))" by simp
qed

end
