(* ===== verification/Linux_Events.thy ===== *)
theory Linux_Events
  imports Linux_Usbfs
begin

unbundle bit_operations_syntax

text \<open>
  The event loop of the Linux backend: src/src/platform/linux_usbfs/events.rs and the table of open
  devices of device.rs. The tables are slabs of the crate \<open>slab\<close>, a parameter of the model; devices,
  wakers and file descriptors are numbers.
\<close>

section \<open>Slabs\<close>

record ('a, 's) slab =
  slab_insert :: "'a \<Rightarrow> 's \<Rightarrow> nat \<times> 's"
  slab_get :: "nat \<Rightarrow> 's \<Rightarrow> 'a option"
  slab_set :: "nat \<Rightarrow> 'a \<Rightarrow> 's \<Rightarrow> 's"
  slab_remove :: "nat \<Rightarrow> 's \<Rightarrow> ('a \<times> 's) outcome"

text \<open>
  What the documentation promises: an insertion takes a vacant key and changes no other, \<open>get_mut\<close>
  gives access to the value of its key, and \<open>remove\<close> panics on a vacant key.
\<close>

definition slab_ok :: "('a, 's) slab \<Rightarrow> bool" where
  "slab_ok S \<longleftrightarrow>
     (\<forall>x s. slab_get S (fst (slab_insert S x s)) s = None \<and>
        slab_get S (fst (slab_insert S x s)) (snd (slab_insert S x s)) = Some x \<and>
        (\<forall>k. k \<noteq> fst (slab_insert S x s) \<longrightarrow> slab_get S k (snd (slab_insert S x s)) = slab_get S k s)) \<and>
     (\<forall>k x s. slab_get S k s \<noteq> None \<longrightarrow>
        slab_get S k (slab_set S k x s) = Some x \<and>
        (\<forall>j. j \<noteq> k \<longrightarrow> slab_get S j (slab_set S k x s) = slab_get S j s)) \<and>
     (\<forall>k s. case slab_get S k s of
        None \<Rightarrow> slab_remove S k s = Panic
      | Some x \<Rightarrow> \<exists>s'. slab_remove S k s = Ret (x, s') \<and> slab_get S k s' = None \<and>
          (\<forall>j. j \<noteq> k \<longrightarrow> slab_get S j s' = slab_get S j s))"

section \<open>Tags\<close>

datatype Tag = TagDevice nat | TagDeviceTimer nat | TagWaker nat

definition TAG_DEVICE :: u64 where "TAG_DEVICE = 1"
definition TAG_DEVICE_TIMER :: u64 where "TAG_DEVICE_TIMER = 2"
definition TAG_WAKER :: u64 where "TAG_WAKER = 3"

fun as_event_data :: "Tag \<Rightarrow> u64" where
  "as_event_data (TagDevice n) = push_bit 3 (of_nat n) OR TAG_DEVICE"
| "as_event_data (TagDeviceTimer n) = push_bit 3 (of_nat n) OR TAG_DEVICE_TIMER"
| "as_event_data (TagWaker n) = push_bit 3 (of_nat n) OR TAG_WAKER"

definition from_event_data :: "u64 \<Rightarrow> Tag outcome" where
  "from_event_data data =
     (let n = unat (drop_bit 3 data);
          tag = data AND 7
      in if tag = TAG_DEVICE then Ret (TagDevice n)
         else if tag = TAG_DEVICE_TIMER then Ret (TagDeviceTimer n)
         else if tag = TAG_WAKER then Ret (TagWaker n)
         else Panic)"

section \<open>Registration\<close>

text \<open>
  \<open>ev_epoll\<close> is \<open>None\<close> until the epoll instance exists; then it is the set of watched descriptors with
  the data and the flags of each.
\<close>

record ('d, 'w) events =
  ev_epoll :: "(nat \<Rightarrow> (u64 \<times> u32) option) option"
  ev_thread :: bool
  ev_devices :: 'd
  ev_wakers :: 'w

definition EPOLL_IN :: u32 where "EPOLL_IN = 1"
definition EPOLL_OUT :: u32 where "EPOLL_OUT = 4"
definition EPOLL_ONESHOT :: u32 where "EPOLL_ONESHOT = 0x40000000"

text \<open>The answers of the operating system: creating the instance, starting the thread, adding a watch.\<close>

record epoll_answers =
  ea_create :: "errno option"
  ea_spawn :: bool
  ea_add :: "errno option"

definition add_watch ::
  "epoll_answers \<Rightarrow> nat \<Rightarrow> Tag \<Rightarrow> u32 \<Rightarrow> ('d, 'w) events \<Rightarrow> (nusb_error + unit) \<times> ('d, 'w) events" where
  "add_watch a fd tag flags s =
     (case ea_add a of
        Some e \<Rightarrow> (Inl (error_new_os KOther ''failed to add epoll watch'' e), s)
      | None \<Rightarrow>
          (Inr (), s\<lparr>ev_epoll := map_option (\<lambda>m. m(fd := Some (as_event_data tag, flags))) (ev_epoll s)\<rparr>))"

definition register_fd ::
  "epoll_answers \<Rightarrow> nat \<Rightarrow> Tag \<Rightarrow> u32 \<Rightarrow> ('d, 'w) events \<Rightarrow> ((nusb_error + unit) \<times> ('d, 'w) events) outcome" where
  "register_fd a fd tag flags s =
     (case ev_epoll s of
        Some _ \<Rightarrow> Ret (add_watch a fd tag flags s)
      | None \<Rightarrow>
          (case ea_create a of
             Some e \<Rightarrow> Ret (Inl (error_new_os KOther ''failed to initialize epoll'' e), s)
           | None \<Rightarrow>
               if ea_spawn a
               then Ret (add_watch a fd tag flags (s\<lparr>ev_epoll := Some (\<lambda>_. None), ev_thread := True\<rparr>))
               else Panic))"

text \<open>An error of the deletion is ignored.\<close>

definition unregister_fd :: "nat \<Rightarrow> ('d, 'w) events \<Rightarrow> ('d, 'w) events outcome" where
  "unregister_fd fd s =
     (case ev_epoll s of
        None \<Rightarrow> Panic
      | Some m \<Rightarrow> Ret (s\<lparr>ev_epoll := Some (m(fd := None))\<rparr>))"

section \<open>Devices\<close>

text \<open>\<open>Drop for LinuxDevice\<close>, and the end of \<open>create_inner\<close>, where an error drops the device.\<close>

definition linux_device_drop ::
  "(nat, 'd) slab \<Rightarrow> nat \<Rightarrow> nat \<Rightarrow> nat \<Rightarrow> ('d, 'w) events \<Rightarrow> ('d, 'w) events outcome" where
  "linux_device_drop S events_id fd timerfd s =
     obind (unregister_fd fd s) (\<lambda>s1.
     obind (unregister_fd timerfd s1) (\<lambda>s2.
     omap (\<lambda>(_, d). s2\<lparr>ev_devices := d\<rparr>) (slab_remove S events_id (ev_devices s2))))"

definition open_registered ::
  "(nat, 'd) slab \<Rightarrow> epoll_answers \<Rightarrow> epoll_answers \<Rightarrow> nat \<Rightarrow> nat \<Rightarrow> nat \<Rightarrow> ('d, 'w) events \<Rightarrow>
   ((nusb_error + nat) \<times> ('d, 'w) events) outcome" where
  "open_registered S a1 a2 dev fd timerfd s =
     (case slab_insert S dev (ev_devices s) of
        (events_id, d) \<Rightarrow>
          obind (register_fd a1 fd (TagDevice events_id) EPOLL_OUT (s\<lparr>ev_devices := d\<rparr>)) (\<lambda>(r, s1).
            case r of
              Inl e \<Rightarrow> omap (\<lambda>s2. (Inl e, s2)) (linux_device_drop S events_id fd timerfd s1)
            | Inr _ \<Rightarrow>
                obind (register_fd a2 timerfd (TagDeviceTimer events_id) EPOLL_IN s1) (\<lambda>(r, s2).
                  case r of
                    Inl e \<Rightarrow> omap (\<lambda>s3. (Inl e, s3)) (linux_device_drop S events_id fd timerfd s2)
                  | Inr _ \<Rightarrow> Ret (Inr events_id, s2))))"

text \<open>
  \<open>handle_usb_epoll\<close> and \<open>handle_timer_epoll\<close>: the device that handles the event, if the weak
  reference in the table can be upgraded. \<open>alive\<close> says which devices have a strong reference.
\<close>

definition epoll_device :: "(nat, 'd) slab \<Rightarrow> (nat \<Rightarrow> bool) \<Rightarrow> nat \<Rightarrow> ('d, 'w) events \<Rightarrow> nat option" where
  "epoll_device S alive n s =
     (case slab_get S n (ev_devices s) of
        None \<Rightarrow> None
      | Some w \<Rightarrow> if alive w then Some w else None)"

section \<open>The loop\<close>

datatype action = HandleEvents nat | HandleTimeouts nat | WakeUp nat

definition dispatch ::
  "(nat, 'd) slab \<Rightarrow> (nat option, 'w) slab \<Rightarrow> (nat \<Rightarrow> bool) \<Rightarrow> u64 \<Rightarrow> ('d, 'w) events \<Rightarrow>
   (action list \<times> ('d, 'w) events) outcome" where
  "dispatch S W alive data s =
     obind (from_event_data data) (\<lambda>tag.
       Ret (case tag of
              TagDevice n \<Rightarrow> (case epoll_device S alive n s of None \<Rightarrow> ([], s) | Some d \<Rightarrow> ([HandleEvents d], s))
            | TagDeviceTimer n \<Rightarrow>
                (case epoll_device S alive n s of None \<Rightarrow> ([], s) | Some d \<Rightarrow> ([HandleTimeouts d], s))
            | TagWaker n \<Rightarrow>
                (case slab_get W n (ev_wakers s) of
                   Some (Some w) \<Rightarrow> ([WakeUp w], s\<lparr>ev_wakers := slab_set W n None (ev_wakers s)\<rparr>)
                 | _ \<Rightarrow> ([], s))))"

fun dispatch_all ::
  "(nat, 'd) slab \<Rightarrow> (nat option, 'w) slab \<Rightarrow> (nat \<Rightarrow> bool) \<Rightarrow> u64 list \<Rightarrow> ('d, 'w) events \<Rightarrow>
   (action list \<times> ('d, 'w) events) outcome" where
  "dispatch_all S W alive [] s = Ret ([], s)"
| "dispatch_all S W alive (d # ds) s =
     obind (dispatch S W alive d s) (\<lambda>(as, s1).
     obind (dispatch_all S W alive ds s1) (\<lambda>(bs, s2). Ret (as @ bs, s2)))"

text \<open>One round: \<open>epoll::wait\<close> fails or gives at most four events.\<close>

definition event_loop_round ::
  "(nat, 'd) slab \<Rightarrow> (nat option, 'w) slab \<Rightarrow> (nat \<Rightarrow> bool) \<Rightarrow> errno + u64 list \<Rightarrow> ('d, 'w) events \<Rightarrow>
   (action list \<times> ('d, 'w) events) outcome" where
  "event_loop_round S W alive r s =
     (case r of
        Inl e \<Rightarrow> if e = EINTR then Ret ([], s) else Panic
      | Inr ds \<Rightarrow> dispatch_all S W alive (take 4 ds) s)"

section \<open>Asynchronous descriptors\<close>

record Async =
  async_inner :: nat
  async_id :: nat

definition async_new ::
  "(nat option, 'w) slab \<Rightarrow> epoll_answers \<Rightarrow> nat \<Rightarrow> ('d, 'w) events \<Rightarrow>
   ((nusb_error + Async) \<times> ('d, 'w) events) outcome" where
  "async_new W a inner s =
     (case slab_insert W None (ev_wakers s) of
        (n, w) \<Rightarrow>
          obind (register_fd a inner (TagWaker n) EPOLL_ONESHOT (s\<lparr>ev_wakers := w\<rparr>)) (\<lambda>(r, s1).
            Ret (case r of Inl e \<Rightarrow> (Inl e, s1) | Inr _ \<Rightarrow> (Inr \<lparr>async_inner = inner, async_id = n\<rparr>, s1))))"

definition async_register ::
  "(nat option, 'w) slab \<Rightarrow> errno option \<Rightarrow> Async \<Rightarrow> nat \<Rightarrow> ('d, 'w) events \<Rightarrow>
   ((nusb_error + unit) \<times> ('d, 'w) events) outcome" where
  "async_register W modify_err a waker s =
     (case slab_get W (async_id a) (ev_wakers s) of
        None \<Rightarrow> Panic
      | Some _ \<Rightarrow>
          (let s1 = s\<lparr>ev_wakers := slab_set W (async_id a) (Some waker) (ev_wakers s)\<rparr> in
           case ev_epoll s1 of
             None \<Rightarrow> Panic
           | Some m \<Rightarrow>
               Ret (case modify_err of
                      Some e \<Rightarrow> (Inl (error_new_os KOther ''failed to modify epoll watch'' e), s1)
                    | None \<Rightarrow>
                        (Inr (), s1\<lparr>ev_epoll :=
                           Some (m(async_inner a := Some (as_event_data (TagWaker (async_id a)),
                                     EPOLL_ONESHOT OR EPOLL_IN)))\<rparr>))))"

definition async_drop :: "(nat option, 'w) slab \<Rightarrow> Async \<Rightarrow> ('d, 'w) events \<Rightarrow> ('d, 'w) events outcome" where
  "async_drop W a s =
     obind (unregister_fd (async_inner a) s) (\<lambda>s1.
     omap (\<lambda>(_, w). s1\<lparr>ev_wakers := w\<rparr>) (slab_remove W (async_id a) (ev_wakers s1)))"

end
