(* ===== verification/Linux_Events_Theorems.thy ===== *)
theory Linux_Events_Theorems
  imports Linux_Events
begin

unbundle bit_operations_syntax

text \<open>
  The event loop routes events: tags survive the trip through the kernel, and whatever is opened,
  closed, disconnected and delivered, an event of a watched descriptor reaches its owner and nothing
  panics.
\<close>

section \<open>Tags\<close>

fun tag_id :: "Tag \<Rightarrow> nat" where
  "tag_id (TagDevice n) = n"
| "tag_id (TagDeviceTimer n) = n"
| "tag_id (TagWaker n) = n"

lemma tag_bits:
  fixes w t :: u64
  assumes t: "take_bit 3 t = t"
  shows "drop_bit 3 (push_bit 3 w OR t) = take_bit 61 w" "(push_bit 3 w OR t) AND 7 = t"
proof -
  have m: "(7 :: u64) = mask 3" by code_simp
  have "\<not> bit t n" if "3 \<le> n" for n using t that by (metis bit_take_bit_iff not_le)
  then show "drop_bit 3 (push_bit 3 w OR t) = take_bit 61 w"
    by (intro bit_word_eqI) (auto simp: bit_simps)
  show "(push_bit 3 w OR t) AND 7 = t"
    unfolding m by (subst (2) t [symmetric], rule bit_word_eqI) (auto simp: bit_simps)
qed

lemma tag_constants:
  "take_bit 3 TAG_DEVICE = TAG_DEVICE" "take_bit 3 TAG_DEVICE_TIMER = TAG_DEVICE_TIMER"
  "take_bit 3 TAG_WAKER = TAG_WAKER" "TAG_DEVICE \<noteq> TAG_DEVICE_TIMER" "TAG_DEVICE \<noteq> TAG_WAKER"
  "TAG_DEVICE_TIMER \<noteq> TAG_WAKER"
  by code_simp+

lemma id_bits: "unat (take_bit 61 (of_nat n :: u64)) = n mod 2 ^ 61"
proof -
  have "unat (take_bit 61 (of_nat n :: u64)) = take_bit 61 (take_bit 64 n)"
    by (simp only: unsigned_take_bit_eq unsigned_of_nat) simp
  also have "\<dots> = take_bit 61 n" by (simp add: take_bit_take_bit min_def)
  finally show ?thesis by (simp only: take_bit_eq_mod)
qed

lemma from_as_event_data:
  "from_event_data (as_event_data (TagDevice n)) = Ret (TagDevice (n mod 2 ^ 61))"
  "from_event_data (as_event_data (TagDeviceTimer n)) = Ret (TagDeviceTimer (n mod 2 ^ 61))"
  "from_event_data (as_event_data (TagWaker n)) = Ret (TagWaker (n mod 2 ^ 61))"
  unfolding from_event_data_def as_event_data.simps Let_def tag_bits [OF tag_constants(1)]
    tag_bits [OF tag_constants(2)] tag_bits [OF tag_constants(3)] id_bits
  using tag_constants(4-6) by auto

text \<open>
  The data of an epoll event gives back the tag it was made from, for every kind of tag, as long as
  the key fits the 61 bits that the encoding leaves for it; a larger key loses its upper bits and names
  another slot. Decoding data that the crate has registered never panics.
\<close>

theorem event_tag_bounds:
  "\<exists>t'. from_event_data (as_event_data t) = Ret t' \<and> tag_id t' = tag_id t mod 2 ^ 61 \<and>
    (t' = t \<longleftrightarrow> tag_id t < 2 ^ 61)"
proof -
  have m: "n mod 2 ^ 61 = n \<longleftrightarrow> n < 2 ^ 61" for n :: nat
    by (metis mod_less mod_less_divisor zero_less_numeral zero_less_power)
  show ?thesis
    by (cases t) (simp_all only: from_as_event_data tag_id.simps Tag.inject m outcome.inject simp_thms ex_simps)
qed

declare as_event_data.simps [simp del]

section \<open>Histories\<close>

text \<open>The open devices (device, key, descriptor, timer descriptor), and the asynchronous descriptors.\<close>

record open_dev =
  od_dev :: nat
  od_id :: nat
  od_fd :: nat
  od_timer :: nat

record ('d, 'w) ev_world =
  wd_events :: "('d, 'w) events"
  wd_devs :: "open_dev list"
  wd_asyncs :: "Async list"

datatype ev_op =
    EvOpen epoll_answers epoll_answers nat nat nat
  | EvClose open_dev
  | EvDisconnect open_dev
  | EvAsyncNew epoll_answers nat
  | EvAsyncRegister "errno option" Async nat
  | EvAsyncDrop Async
  | EvRound "Tag list"
  | EvInterrupted

definition wd_fds :: "('d, 'w) ev_world \<Rightarrow> nat list" where
  "wd_fds w = concat (map (\<lambda>x. [od_fd x, od_timer x]) (wd_devs w)) @ map async_inner (wd_asyncs w)"

definition is_alive :: "('d, 'w) ev_world \<Rightarrow> nat \<Rightarrow> bool" where
  "is_alive w d \<longleftrightarrow> d \<in> set (map od_dev (wd_devs w))"

definition ev_init :: "'d \<Rightarrow> 'w \<Rightarrow> ('d, 'w) ev_world" where
  "ev_init d w =
     \<lparr>wd_events = \<lparr>ev_epoll = None, ev_thread = False, ev_devices = d, ev_wakers = w\<rparr>, wd_devs = [], wd_asyncs = []\<rparr>"

text \<open>
  What the operating system and the owners of the handles guarantee: descriptors and devices are new
  when they are opened and open when they are used, the tables have fewer than \<open>2 ^ 61\<close> slots, and the
  first epoll instance and its thread can be created; \<open>epoll_wait\<close> fails only with \<open>EINTR\<close>, since the code
  unwraps every other error. Events may be late: any tag can come.
\<close>

fun ev_enabled :: "(nat, 'd) slab \<Rightarrow> (nat option, 'w) slab \<Rightarrow> ev_op \<Rightarrow> ('d, 'w) ev_world \<Rightarrow> bool" where
  "ev_enabled S W (EvOpen a1 a2 dev fd timer) w \<longleftrightarrow>
     ea_create a1 = None \<and> ea_spawn a1 \<and> fd \<noteq> timer \<and> fd \<notin> set (wd_fds w) \<and> timer \<notin> set (wd_fds w) \<and>
     \<not> is_alive w dev \<and> fst (slab_insert S dev (ev_devices (wd_events w))) < 2 ^ 61"
| "ev_enabled S W (EvClose x) w \<longleftrightarrow> x \<in> set (wd_devs w)"
| "ev_enabled S W (EvDisconnect x) w \<longleftrightarrow> x \<in> set (wd_devs w)"
| "ev_enabled S W (EvAsyncNew a fd) w \<longleftrightarrow>
     ea_spawn a \<and> fd \<notin> set (wd_fds w) \<and> fst (slab_insert W None (ev_wakers (wd_events w))) < 2 ^ 61"
| "ev_enabled S W (EvAsyncRegister e x n) w \<longleftrightarrow> x \<in> set (wd_asyncs w)"
| "ev_enabled S W (EvAsyncDrop x) w \<longleftrightarrow> x \<in> set (wd_asyncs w)"
| "ev_enabled S W (EvRound ts) w \<longleftrightarrow> True"
| "ev_enabled S W EvInterrupted w \<longleftrightarrow> True"

fun ev_step ::
  "(nat, 'd) slab \<Rightarrow> (nat option, 'w) slab \<Rightarrow> ev_op \<Rightarrow> ('d, 'w) ev_world \<Rightarrow> (action list \<times> ('d, 'w) ev_world) outcome"
where
  "ev_step S W (EvOpen a1 a2 dev fd timer) w =
     omap (\<lambda>(r, s).
       ([], case r of
              Inl e \<Rightarrow> w\<lparr>wd_events := s\<rparr>
            | Inr n \<Rightarrow> w\<lparr>wd_events := s,
                wd_devs := \<lparr>od_dev = dev, od_id = n, od_fd = fd, od_timer = timer\<rparr> # wd_devs w\<rparr>))
       (open_registered S a1 a2 dev fd timer (wd_events w))"
| "ev_step S W (EvClose x) w =
     omap (\<lambda>s. ([], w\<lparr>wd_events := s, wd_devs := remove1 x (wd_devs w)\<rparr>))
       (linux_device_drop S (od_id x) (od_fd x) (od_timer x) (wd_events w))"
| "ev_step S W (EvDisconnect x) w = omap (\<lambda>s. ([], w\<lparr>wd_events := s\<rparr>)) (unregister_fd (od_fd x) (wd_events w))"
| "ev_step S W (EvAsyncNew a fd) w =
     omap (\<lambda>(r, s).
       ([], case r of
              Inl e \<Rightarrow> w\<lparr>wd_events := s\<rparr>
            | Inr x \<Rightarrow> w\<lparr>wd_events := s, wd_asyncs := x # wd_asyncs w\<rparr>))
       (async_new W a fd (wd_events w))"
| "ev_step S W (EvAsyncRegister e x n) w =
     omap (\<lambda>(r, s). ([], w\<lparr>wd_events := s\<rparr>)) (async_register W e x n (wd_events w))"
| "ev_step S W (EvAsyncDrop x) w =
     omap (\<lambda>s. ([], w\<lparr>wd_events := s, wd_asyncs := remove1 x (wd_asyncs w)\<rparr>)) (async_drop W x (wd_events w))"
| "ev_step S W (EvRound ts) w =
     omap (\<lambda>(as, s). (as, w\<lparr>wd_events := s\<rparr>))
       (event_loop_round S W (is_alive w) (Inr (map as_event_data ts)) (wd_events w))"
| "ev_step S W EvInterrupted w =
     omap (\<lambda>(as, s). (as, w\<lparr>wd_events := s\<rparr>)) (event_loop_round S W (is_alive w) (Inl EINTR) (wd_events w))"

inductive ev_reach ::
  "(nat, 'd) slab \<Rightarrow> (nat option, 'w) slab \<Rightarrow> ('d, 'w) ev_world \<Rightarrow> bool"
  for S :: "(nat, 'd) slab" and W :: "(nat option, 'w) slab" where
  reach_init: "ev_reach S W (ev_init d v)"
| reach_step: "ev_reach S W w \<Longrightarrow> ev_enabled S W op w \<Longrightarrow> ev_step S W op w = Ret (as, w') \<Longrightarrow> ev_reach S W w'"

section \<open>The invariant\<close>

definition watched :: "('d, 'w) events \<Rightarrow> nat \<Rightarrow> (u64 \<times> u32) option" where
  "watched s = (case ev_epoll s of None \<Rightarrow> (\<lambda>_. None) | Some m \<Rightarrow> m)"

lemma watched_update [simp]:
  "watched (s\<lparr>ev_devices := d\<rparr>) = watched s" "watched (s\<lparr>ev_wakers := v\<rparr>) = watched s"
  by (simp_all add: watched_def)

text \<open>The owner of a watched descriptor and the data it is watched with.\<close>

definition owned :: "('d, 'w) ev_world \<Rightarrow> nat \<Rightarrow> u64 \<Rightarrow> bool" where
  "owned w fd data \<longleftrightarrow>
     (\<exists>x \<in> set (wd_devs w). fd = od_fd x \<and> data = as_event_data (TagDevice (od_id x)) \<or>
        fd = od_timer x \<and> data = as_event_data (TagDeviceTimer (od_id x))) \<or>
     (\<exists>x \<in> set (wd_asyncs w). fd = async_inner x \<and> data = as_event_data (TagWaker (async_id x)))"

definition ev_inv :: "(nat, 'd) slab \<Rightarrow> (nat option, 'w) slab \<Rightarrow> ('d, 'w) ev_world \<Rightarrow> bool" where
  "ev_inv S W w \<longleftrightarrow>
     (ev_epoll (wd_events w) = None \<longrightarrow> wd_devs w = [] \<and> wd_asyncs w = []) \<and>
     (\<forall>x \<in> set (wd_devs w). slab_get S (od_id x) (ev_devices (wd_events w)) = Some (od_dev x) \<and> od_id x < 2 ^ 61) \<and>
     (\<forall>x \<in> set (wd_asyncs w). slab_get W (async_id x) (ev_wakers (wd_events w)) \<noteq> None \<and> async_id x < 2 ^ 61) \<and>
     distinct (map od_id (wd_devs w)) \<and> distinct (map od_dev (wd_devs w)) \<and> distinct (map async_id (wd_asyncs w)) \<and>
     distinct (wd_fds w) \<and>
     (\<forall>fd data fl. watched (wd_events w) fd = Some (data, fl) \<longrightarrow> owned w fd data)"

lemma slab_insert_get:
  assumes "slab_ok S" "slab_insert S x s = (k, s')"
  shows "slab_get S k s = None" "slab_get S j s' = (if j = k then Some x else slab_get S j s)"
  using assms by (auto simp: slab_ok_def) (metis fst_conv snd_conv)+

lemma slab_set_get:
  assumes "slab_ok S" "slab_get S k s \<noteq> None"
  shows "slab_get S j (slab_set S k x s) = (if j = k then Some x else slab_get S j s)"
  using assms unfolding slab_ok_def by metis

lemma slab_remove_get:
  assumes "slab_ok S" "slab_get S k s = Some x"
  shows "\<exists>s'. slab_remove S k s = Ret (x, s') \<and> (\<forall>j. slab_get S j s' = (if j = k then None else slab_get S j s))"
proof -
  have "case slab_get S k s of None \<Rightarrow> slab_remove S k s = Panic
      | Some x \<Rightarrow> \<exists>s'. slab_remove S k s = Ret (x, s') \<and> slab_get S k s' = None \<and>
          (\<forall>j. j \<noteq> k \<longrightarrow> slab_get S j s' = slab_get S j s)"
    using assms(1) unfolding slab_ok_def by blast
  then show ?thesis using assms(2) by auto
qed

text \<open>Registering and unregistering.\<close>

lemma register_fd_ok:
  assumes "ev_epoll s \<noteq> None \<or> ea_create a = None \<and> ea_spawn a"
  shows "\<exists>r s'. register_fd a fd tag fl s = Ret (r, s') \<and> ev_epoll s' \<noteq> None \<and>
    ev_devices s' = ev_devices s \<and> ev_wakers s' = ev_wakers s \<and>
    watched s' = (if r = Inr () then (watched s)(fd := Some (as_event_data tag, fl)) else watched s)"
  using assms
  by (auto simp: register_fd_def add_watch_def watched_def split: option.splits)

lemma unregister_fd_ok:
  assumes "ev_epoll s \<noteq> None"
  shows "\<exists>s'. unregister_fd fd s = Ret s' \<and> ev_epoll s' \<noteq> None \<and> ev_devices s' = ev_devices s \<and>
    ev_wakers s' = ev_wakers s \<and> watched s' = (watched s)(fd := None)"
  using assms by (auto simp: unregister_fd_def watched_def)

lemma linux_device_drop_ok:
  assumes "slab_ok S" "ev_epoll s \<noteq> None" "slab_get S n (ev_devices s) = Some d"
  shows "\<exists>s'. linux_device_drop S n fd timer s = Ret s' \<and> ev_epoll s' \<noteq> None \<and> ev_wakers s' = ev_wakers s \<and>
    watched s' = (watched s)(fd := None, timer := None) \<and>
    (\<forall>j. slab_get S j (ev_devices s') = (if j = n then None else slab_get S j (ev_devices s)))"
proof -
  from unregister_fd_ok [OF assms(2), of fd] obtain s1 where s1: "unregister_fd fd s = Ret s1" "ev_epoll s1 \<noteq> None"
    "ev_devices s1 = ev_devices s" "ev_wakers s1 = ev_wakers s" "watched s1 = (watched s)(fd := None)" by blast
  from unregister_fd_ok [OF s1(2), of timer] obtain s2 where s2: "unregister_fd timer s1 = Ret s2" "ev_epoll s2 \<noteq> None"
    "ev_devices s2 = ev_devices s1" "ev_wakers s2 = ev_wakers s1" "watched s2 = (watched s1)(timer := None)" by blast
  from slab_remove_get [OF assms(1), of n "ev_devices s2" d] assms(3) s1(3) s2(3) obtain t where
    "slab_remove S n (ev_devices s2) = Ret (d, t)"
    "\<forall>j. slab_get S j t = (if j = n then None else slab_get S j (ev_devices s))" by auto
  with s1 s2 show ?thesis by (simp add: linux_device_drop_def watched_def)
qed

lemma open_registered_ok:
  assumes S: "slab_ok S" and os: "ea_create a1 = None" "ea_spawn a1"
    and new: "slab_insert S dev (ev_devices s) = (n, d)" "watched s fd = None" "watched s timer = None" "fd \<noteq> timer"
  shows "\<exists>r s'. open_registered S a1 a2 dev fd timer s = Ret (r, s') \<and> ev_epoll s' \<noteq> None \<and>
    ev_wakers s' = ev_wakers s \<and>
    (case r of
       Inl e \<Rightarrow> watched s' = watched s \<and> (\<forall>j. slab_get S j (ev_devices s') = slab_get S j (ev_devices s))
     | Inr k \<Rightarrow> k = n \<and>
         watched s' = (watched s)(fd := Some (as_event_data (TagDevice n), EPOLL_OUT),
                                  timer := Some (as_event_data (TagDeviceTimer n), EPOLL_IN)) \<and>
         (\<forall>j. slab_get S j (ev_devices s') = (if j = n then Some dev else slab_get S j (ev_devices s))))"
proof -
  let ?s0 = "s\<lparr>ev_devices := d\<rparr>"
  note get = slab_insert_get [OF S new(1)]
  have undo: "(watched s)(fd := None, timer := None) = watched s" using new by auto
  from register_fd_ok [of ?s0 a1 fd "TagDevice n" EPOLL_OUT] os obtain r1 s1 where
    r1: "register_fd a1 fd (TagDevice n) EPOLL_OUT ?s0 = Ret (r1, s1)" "ev_epoll s1 \<noteq> None" "ev_devices s1 = d"
      "ev_wakers s1 = ev_wakers s"
      "watched s1 = (if r1 = Inr () then (watched s)(fd := Some (as_event_data (TagDevice n), EPOLL_OUT)) else watched s)"
    by auto
  show ?thesis
  proof (cases r1)
    case (Inl e)
    from linux_device_drop_ok [OF S r1(2), of n dev fd timer] r1(3) get(2) obtain s2 where
      "linux_device_drop S n fd timer s1 = Ret s2" "ev_epoll s2 \<noteq> None" "ev_wakers s2 = ev_wakers s1"
      "watched s2 = (watched s1)(fd := None, timer := None)"
      "\<forall>j. slab_get S j (ev_devices s2) = (if j = n then None else slab_get S j d)" by auto
    with Inl r1 get new(1) undo show ?thesis by (simp add: open_registered_def)
  next
    case (Inr u)
    from register_fd_ok [of s1 a2 timer "TagDeviceTimer n" EPOLL_IN] r1(2) obtain r2 s2 where
      r2: "register_fd a2 timer (TagDeviceTimer n) EPOLL_IN s1 = Ret (r2, s2)" "ev_epoll s2 \<noteq> None"
        "ev_devices s2 = ev_devices s1" "ev_wakers s2 = ev_wakers s1"
        "watched s2 = (if r2 = Inr () then (watched s1)(timer := Some (as_event_data (TagDeviceTimer n), EPOLL_IN))
                       else watched s1)" by blast
    show ?thesis
    proof (cases r2)
      case (Inl e)
      from linux_device_drop_ok [OF S r2(2), of n dev fd timer] r1(3) r2(3) get(2) obtain s3 where
        "linux_device_drop S n fd timer s2 = Ret s3" "ev_epoll s3 \<noteq> None" "ev_wakers s3 = ev_wakers s2"
        "watched s3 = (watched s2)(fd := None, timer := None)"
        "\<forall>j. slab_get S j (ev_devices s3) = (if j = n then None else slab_get S j d)" by auto
      with Inl Inr r1 r2 get new(1) undo show ?thesis by (simp add: open_registered_def)
    next
      case (Inr v)
      with \<open>r1 = Inr u\<close> r1 r2 get new(1) show ?thesis by (simp add: open_registered_def)
    qed
  qed
qed

text \<open>A descriptor without an owner is not watched.\<close>

lemma fresh_not_watched:
  assumes "ev_inv S W w" "fd \<notin> set (wd_fds w)"
  shows "watched (wd_events w) fd = None"
proof (cases "watched (wd_events w) fd")
  case (Some x)
  obtain data fl where "x = (data, fl)" by (cases x)
  with Some assms(1) have "owned w fd data" by (auto simp: ev_inv_def)
  with assms(2) show ?thesis by (auto simp: owned_def wd_fds_def)
qed

lemma ev_inv_init: "ev_inv S W (ev_init d v)"
  by (simp add: ev_inv_def ev_init_def wd_fds_def watched_def)

lemma open_keeps:
  assumes S: "slab_ok S" and w: "ev_inv S W w" and en: "ev_enabled S W (EvOpen a1 a2 dev fd timer) w"
  shows "\<exists>w'. ev_step S W (EvOpen a1 a2 dev fd timer) w = Ret ([], w') \<and> ev_inv S W w'"
proof -
  obtain n d where ins: "slab_insert S dev (ev_devices (wd_events w)) = (n, d)" by fastforce
  note get = slab_insert_get [OF S ins]
  from en ins have e: "ea_create a1 = None" "ea_spawn a1" "fd \<noteq> timer" "fd \<notin> set (wd_fds w)"
    "timer \<notin> set (wd_fds w)" "\<not> is_alive w dev" "n < 2 ^ 61" by simp_all
  have other: "od_id x \<noteq> n" if "x \<in> set (wd_devs w)" for x using get(1) w that by (auto simp: ev_inv_def)
  from open_registered_ok [OF S e(1,2) ins fresh_not_watched [OF w e(4)] fresh_not_watched [OF w e(5)] e(3), of a2]
  obtain r s where r: "open_registered S a1 a2 dev fd timer (wd_events w) = Ret (r, s)" "ev_epoll s \<noteq> None"
    "ev_wakers s = ev_wakers (wd_events w)"
    "case r of
       Inl e \<Rightarrow> watched s = watched (wd_events w) \<and>
         (\<forall>j. slab_get S j (ev_devices s) = slab_get S j (ev_devices (wd_events w)))
     | Inr k \<Rightarrow> k = n \<and>
         watched s = (watched (wd_events w))(fd := Some (as_event_data (TagDevice n), EPOLL_OUT),
                        timer := Some (as_event_data (TagDeviceTimer n), EPOLL_IN)) \<and>
         (\<forall>j. slab_get S j (ev_devices s) = (if j = n then Some dev else slab_get S j (ev_devices (wd_events w))))"
    by blast
  show ?thesis
  proof (cases r)
    case (Inl err)
    with r w show ?thesis by (auto simp: ev_inv_def owned_def wd_fds_def)
  next
    case (Inr k)
    let ?x = "\<lparr>od_dev = dev, od_id = n, od_fd = fd, od_timer = timer\<rparr>"
    let ?w = "w\<lparr>wd_events := s, wd_devs := ?x # wd_devs w\<rparr>"
    have own: "owned ?w g data" if "owned w g data" for g data using that by (auto simp: owned_def)
    have own': "owned ?w fd (as_event_data (TagDevice n))" "owned ?w timer (as_event_data (TagDeviceTimer n))"
      by (auto simp: owned_def)
    have "ev_inv S W ?w"
      unfolding ev_inv_def
    proof (intro conjI allI impI)
      fix g data fl assume "watched (wd_events ?w) g = Some (data, fl)"
      then show "owned ?w g data"
        using r(4) Inr w own own' by (auto simp: ev_inv_def split: if_splits)
    qed (use r Inr w e other in \<open>auto simp: ev_inv_def wd_fds_def is_alive_def\<close>)
    with r(1,4) Inr show ?thesis by simp
  qed
qed

lemma distinct_fds_remove:
  assumes "x \<in> set ds" "distinct (concat (map (\<lambda>x. [od_fd x, od_timer x]) ds) @ map async_inner as)"
  shows "distinct (concat (map (\<lambda>x. [od_fd x, od_timer x]) (remove1 x ds)) @ map async_inner as)"
    "y \<in> set (remove1 x ds) \<Longrightarrow> od_fd y \<noteq> od_fd x \<and> od_fd y \<noteq> od_timer x \<and> od_timer y \<noteq> od_fd x \<and> od_timer y \<noteq> od_timer x"
    "a \<in> set as \<Longrightarrow> async_inner a \<noteq> od_fd x \<and> async_inner a \<noteq> od_timer x"
proof -
  obtain us vs where ds: "ds = us @ x # vs" "x \<notin> set us" using split_list_first [OF assms(1)] by blast
  then have r: "remove1 x ds = us @ vs" by (simp add: remove1_append)
  show "distinct (concat (map (\<lambda>x. [od_fd x, od_timer x]) (remove1 x ds)) @ map async_inner as)"
    using assms(2) [unfolded ds(1)] unfolding r by auto
  show "y \<in> set (remove1 x ds) \<Longrightarrow> od_fd y \<noteq> od_fd x \<and> od_fd y \<noteq> od_timer x \<and> od_timer y \<noteq> od_fd x \<and> od_timer y \<noteq> od_timer x"
    using assms(2) [unfolded ds(1)] unfolding r by auto
  show "a \<in> set as \<Longrightarrow> async_inner a \<noteq> od_fd x \<and> async_inner a \<noteq> od_timer x"
    using assms(2) unfolding ds(1) by (auto, (metis image_eqI)+)
qed

lemma close_keeps:
  assumes S: "slab_ok S" and w: "ev_inv S W w" and en: "ev_enabled S W (EvClose x) w"
  shows "\<exists>w'. ev_step S W (EvClose x) w = Ret ([], w') \<and> ev_inv S W w'"
proof -
  from en have x: "x \<in> set (wd_devs w)" by simp
  with w have ep: "ev_epoll (wd_events w) \<noteq> None"
    and g: "slab_get S (od_id x) (ev_devices (wd_events w)) = Some (od_dev x)"
    by (auto simp: ev_inv_def)
  from linux_device_drop_ok [OF S ep g, of "od_fd x" "od_timer x"] obtain s where
    s: "linux_device_drop S (od_id x) (od_fd x) (od_timer x) (wd_events w) = Ret s" "ev_epoll s \<noteq> None"
      "ev_wakers s = ev_wakers (wd_events w)"
      "watched s = (watched (wd_events w))(od_fd x := None, od_timer x := None)"
      "\<forall>j. slab_get S j (ev_devices s) = (if j = od_id x then None else slab_get S j (ev_devices (wd_events w)))"
    by blast
  let ?w = "w\<lparr>wd_events := s, wd_devs := remove1 x (wd_devs w)\<rparr>"
  have dist: "distinct (map od_id (wd_devs w))" "distinct (map od_dev (wd_devs w))" "distinct (wd_fds w)"
    using w by (simp_all add: ev_inv_def)
  note fds = distinct_fds_remove [OF x dist(3) [unfolded wd_fds_def]]
  have other: "y \<in> set (wd_devs w)" "od_id y \<noteq> od_id x" if "y \<in> set (remove1 x (wd_devs w))" for y
  proof -
    from that show y: "y \<in> set (wd_devs w)" by (rule set_mp [OF set_remove1_subset])
    have "y \<noteq> x" using that dist(1) by (auto simp: distinct_map)
    with dist(1) x y show "od_id y \<noteq> od_id x" by (auto simp: distinct_map dest: inj_onD)
  qed
  have "ev_inv S W ?w"
    unfolding ev_inv_def
  proof (intro conjI allI impI)
    show "distinct (wd_fds ?w)" using fds(1) by (simp add: wd_fds_def)
    show "distinct (map od_id (wd_devs ?w))" "distinct (map od_dev (wd_devs ?w))"
      using dist by (simp_all add: distinct_map distinct_remove1 inj_on_def)
    fix g data fl assume a: "watched (wd_events ?w) g = Some (data, fl)"
    then have "owned w g data" "g \<noteq> od_fd x" "g \<noteq> od_timer x"
      using s(4) w by (auto simp: ev_inv_def split: if_splits)
    moreover have "y \<in> set (remove1 x (wd_devs w))" if "y \<in> set (wd_devs w)" "g = od_fd y \<or> g = od_timer y" for y
      using that \<open>g \<noteq> od_fd x\<close> \<open>g \<noteq> od_timer x\<close> by (subst in_set_remove1) auto
    ultimately show "owned ?w g data" unfolding owned_def by auto
  next
    show "\<forall>y\<in>set (wd_devs ?w). slab_get S (od_id y) (ev_devices (wd_events ?w)) = Some (od_dev y) \<and> od_id y < 2 ^ 61"
      using s(5) w other by (auto simp: ev_inv_def)
  qed (use s w in \<open>auto simp: ev_inv_def\<close>)
  with s(1) show ?thesis by simp
qed

lemma disconnect_keeps:
  assumes w: "ev_inv S W w" and en: "ev_enabled S W (EvDisconnect x) w"
  shows "\<exists>w'. ev_step S W (EvDisconnect x) w = Ret ([], w') \<and> ev_inv S W w'"
proof -
  from w en have "ev_epoll (wd_events w) \<noteq> None" by (auto simp: ev_inv_def)
  from unregister_fd_ok [OF this, of "od_fd x"] obtain s where
    s: "unregister_fd (od_fd x) (wd_events w) = Ret s" "ev_epoll s \<noteq> None" "ev_devices s = ev_devices (wd_events w)"
      "ev_wakers s = ev_wakers (wd_events w)" "watched s = (watched (wd_events w))(od_fd x := None)" by blast
  have "ev_inv S W (w\<lparr>wd_events := s\<rparr>)"
    using s w by (auto simp: ev_inv_def wd_fds_def owned_def)
  with s(1) show ?thesis by simp
qed

lemma async_new_keeps:
  assumes W: "slab_ok W" and w: "ev_inv S W w" and en: "ev_enabled S W (EvAsyncNew a fd) w"
  shows "\<exists>w'. ev_step S W (EvAsyncNew a fd) w = Ret ([], w') \<and> ev_inv S W w'"
proof -
  obtain n v where ins: "slab_insert W None (ev_wakers (wd_events w)) = (n, v)" by fastforce
  note get = slab_insert_get [OF W ins]
  from en ins have e: "ea_spawn a" "fd \<notin> set (wd_fds w)" "n < 2 ^ 61" by simp_all
  have other: "async_id x \<noteq> n" if "x \<in> set (wd_asyncs w)" for x using get(1) w that by (auto simp: ev_inv_def)
  let ?s0 = "(wd_events w)\<lparr>ev_wakers := v\<rparr>"
  show ?thesis
  proof (cases "ev_epoll (wd_events w) = None \<and> ea_create a \<noteq> None")
    case True
    then have "\<exists>err. register_fd a fd (TagWaker n) EPOLL_ONESHOT ?s0 = Ret (Inl err, ?s0)"
      by (auto simp: register_fd_def split: option.splits)
    with ins True w show ?thesis
      by (auto simp: async_new_def ev_inv_def wd_fds_def owned_def)
  next
    case False
    with e(1) have "ev_epoll ?s0 \<noteq> None \<or> ea_create a = None \<and> ea_spawn a" by simp
    from register_fd_ok [OF this, of fd "TagWaker n" EPOLL_ONESHOT] obtain r s where
      r: "register_fd a fd (TagWaker n) EPOLL_ONESHOT ?s0 = Ret (r, s)" "ev_epoll s \<noteq> None"
        "ev_devices s = ev_devices (wd_events w)" "ev_wakers s = v"
        "watched s = (if r = Inr () then (watched (wd_events w))(fd := Some (as_event_data (TagWaker n), EPOLL_ONESHOT))
                      else watched (wd_events w))" by auto
    show ?thesis
    proof (cases r)
      case (Inl err)
      with ins r w get(2) show ?thesis by (auto simp: async_new_def ev_inv_def wd_fds_def owned_def)
    next
      case (Inr u)
      let ?w = "w\<lparr>wd_events := s, wd_asyncs := \<lparr>async_inner = fd, async_id = n\<rparr> # wd_asyncs w\<rparr>"
      have own: "owned ?w g data" if "owned w g data" for g data using that by (auto simp: owned_def)
      have own': "owned ?w fd (as_event_data (TagWaker n))" by (auto simp: owned_def)
      have "ev_inv S W ?w"
        unfolding ev_inv_def
      proof (intro conjI allI impI)
        fix g data fl assume "watched (wd_events ?w) g = Some (data, fl)"
        then show "owned ?w g data"
          using r(5) Inr w own own' by (auto simp: ev_inv_def split: if_splits)
      qed (use r w e other get(2) in \<open>auto simp: ev_inv_def wd_fds_def\<close>)
      with ins r(1) Inr show ?thesis by (simp add: async_new_def)
    qed
  qed
qed

lemma async_register_keeps:
  assumes W: "slab_ok W" and w: "ev_inv S W w" and en: "ev_enabled S W (EvAsyncRegister e x n) w"
  shows "\<exists>w'. ev_step S W (EvAsyncRegister e x n) w = Ret ([], w') \<and> ev_inv S W w'"
proof -
  from en w have x: "x \<in> set (wd_asyncs w)" "slab_get W (async_id x) (ev_wakers (wd_events w)) \<noteq> None"
    "ev_epoll (wd_events w) \<noteq> None" by (auto simp: ev_inv_def)
  note set = slab_set_get [OF W x(2)]
  have own: "owned w (async_inner x) (as_event_data (TagWaker (async_id x)))" using x(1) by (auto simp: owned_def)
  have dev: "owned (w\<lparr>wd_events := s\<rparr>) = owned w" for s by (simp add: owned_def fun_eq_iff)
  obtain m v where m: "ev_epoll (wd_events w) = Some m" "slab_get W (async_id x) (ev_wakers (wd_events w)) = Some v"
    using x by blast
  let ?s1 = "(wd_events w)\<lparr>ev_wakers := slab_set W (async_id x) (Some n) (ev_wakers (wd_events w))\<rparr>"
  let ?s2 = "?s1\<lparr>ev_epoll :=
    Some (m(async_inner x := Some (as_event_data (TagWaker (async_id x)), EPOLL_ONESHOT OR EPOLL_IN)))\<rparr>"
  have "ev_inv S W (w\<lparr>wd_events := ?s1\<rparr>)" "ev_inv S W (w\<lparr>wd_events := ?s2\<rparr>)"
    using w m set own by (simp_all add: ev_inv_def wd_fds_def dev watched_def)
  moreover have "async_register W e x n (wd_events w) =
      Ret (case e of Some err \<Rightarrow> (Inl (error_new_os KOther ''failed to modify epoll watch'' err), ?s1)
           | None \<Rightarrow> (Inr (), ?s2))"
    using m by (simp add: async_register_def Let_def split: option.splits)
  ultimately show ?thesis by (cases e) simp_all
qed

lemma async_drop_keeps:
  assumes W: "slab_ok W" and w: "ev_inv S W w" and en: "ev_enabled S W (EvAsyncDrop x) w"
  shows "\<exists>w'. ev_step S W (EvAsyncDrop x) w = Ret ([], w') \<and> ev_inv S W w'"
proof -
  from en w obtain v where x: "x \<in> set (wd_asyncs w)" "slab_get W (async_id x) (ev_wakers (wd_events w)) = Some v"
    "ev_epoll (wd_events w) \<noteq> None" by (auto simp: ev_inv_def)
  from unregister_fd_ok [OF x(3), of "async_inner x"] obtain s1 where
    s1: "unregister_fd (async_inner x) (wd_events w) = Ret s1" "ev_epoll s1 \<noteq> None"
      "ev_devices s1 = ev_devices (wd_events w)" "ev_wakers s1 = ev_wakers (wd_events w)"
      "watched s1 = (watched (wd_events w))(async_inner x := None)" by blast
  from slab_remove_get [OF W x(2)] obtain t where t: "slab_remove W (async_id x) (ev_wakers (wd_events w)) = Ret (v, t)"
    "\<forall>j. slab_get W j t = (if j = async_id x then None else slab_get W j (ev_wakers (wd_events w)))" by blast
  let ?w = "w\<lparr>wd_events := s1\<lparr>ev_wakers := t\<rparr>, wd_asyncs := remove1 x (wd_asyncs w)\<rparr>"
  have dist: "distinct (map async_id (wd_asyncs w))" "distinct (wd_fds w)" using w by (simp_all add: ev_inv_def)
  have other: "y \<in> set (wd_asyncs w) \<and> async_id y \<noteq> async_id x" if "y \<in> set (remove1 x (wd_asyncs w))" for y
  proof -
    have y: "y \<in> set (wd_asyncs w)" using that by (rule set_mp [OF set_remove1_subset])
    have "y \<noteq> x" using that dist(1) by (auto simp: distinct_map)
    with dist(1) x y show ?thesis by (auto simp: distinct_map dest: inj_onD)
  qed
  have "ev_inv S W ?w"
    unfolding ev_inv_def
  proof (intro conjI allI impI)
    show "distinct (map async_id (wd_asyncs ?w))"
      using dist by (simp add: distinct_map distinct_remove1 inj_on_def)
    have "set (map async_inner (remove1 x (wd_asyncs w))) \<subseteq> set (map async_inner (wd_asyncs w))"
      using set_remove1_subset by fastforce
    moreover have "distinct (map async_inner (remove1 x (wd_asyncs w)))"
      using dist(2) by (simp add: wd_fds_def distinct_map distinct_remove1 inj_on_def)
    ultimately show "distinct (wd_fds ?w)"
      using dist(2) unfolding wd_fds_def by (simp, blast)
    fix g data fl assume a: "watched (wd_events ?w) g = Some (data, fl)"
    then have "owned w g data" "g \<noteq> async_inner x"
      using s1(5) w by (auto simp: ev_inv_def split: if_splits)
    moreover have "y \<in> set (remove1 x (wd_asyncs w))" if "y \<in> set (wd_asyncs w)" "g = async_inner y" for y
      using that \<open>g \<noteq> async_inner x\<close> by (subst in_set_remove1) auto
    ultimately show "owned ?w g data" unfolding owned_def by auto
  next
    show "\<forall>y\<in>set (wd_asyncs ?w). slab_get W (async_id y) (ev_wakers (wd_events ?w)) \<noteq> None \<and> async_id y < 2 ^ 61"
      using t(2) w other by (auto simp: ev_inv_def)
  qed (use s1 w in \<open>auto simp: ev_inv_def\<close>)
  with s1 t(1) show ?thesis by (simp add: async_drop_def)
qed

text \<open>What a round may do: only devices that are open handle events.\<close>

fun action_ok :: "('d, 'w) ev_world \<Rightarrow> action \<Rightarrow> bool" where
  "action_ok w (HandleEvents d) = is_alive w d"
| "action_ok w (HandleTimeouts d) = is_alive w d"
| "action_ok w (WakeUp n) = True"

lemma dispatch_ok:
  assumes W: "slab_ok W"
  shows "\<exists>as s'. dispatch S W alive (as_event_data t) s = Ret (as, s') \<and> ev_epoll s' = ev_epoll s \<and>
    ev_devices s' = ev_devices s \<and> (\<forall>k. slab_get W k (ev_wakers s') = None \<longleftrightarrow> slab_get W k (ev_wakers s) = None) \<and>
    list_all (\<lambda>a. case a of HandleEvents d \<Rightarrow> alive d | HandleTimeouts d \<Rightarrow> alive d | WakeUp n \<Rightarrow> True) as"
proof -
  have set: "slab_get W j (slab_set W k x v) = None \<longleftrightarrow> slab_get W j v = None" if "slab_get W k v \<noteq> None" for j k x v
    using slab_set_get [OF W that, of j x] that by auto
  show ?thesis
    using set by (cases t) (auto simp: dispatch_def from_as_event_data epoll_device_def split: option.splits)
qed

lemma dispatch_all_ok:
  assumes W: "slab_ok W"
  shows "\<exists>as s'. dispatch_all S W alive (map as_event_data ts) s = Ret (as, s') \<and> ev_epoll s' = ev_epoll s \<and>
    ev_devices s' = ev_devices s \<and> (\<forall>k. slab_get W k (ev_wakers s') = None \<longleftrightarrow> slab_get W k (ev_wakers s) = None) \<and>
    list_all (\<lambda>a. case a of HandleEvents d \<Rightarrow> alive d | HandleTimeouts d \<Rightarrow> alive d | WakeUp n \<Rightarrow> True) as"
proof (induction ts arbitrary: s)
  case (Cons t ts)
  from dispatch_ok [OF W, of S alive t s] obtain as s1 where
    d: "dispatch S W alive (as_event_data t) s = Ret (as, s1)" "ev_epoll s1 = ev_epoll s"
      "ev_devices s1 = ev_devices s" "\<forall>k. slab_get W k (ev_wakers s1) = None \<longleftrightarrow> slab_get W k (ev_wakers s) = None"
      "list_all (\<lambda>a. case a of HandleEvents d \<Rightarrow> alive d | HandleTimeouts d \<Rightarrow> alive d | WakeUp n \<Rightarrow> True) as" by blast
  with Cons.IH [of s1] show ?case by auto
qed simp

lemma round_keeps:
  assumes W: "slab_ok W" and w: "ev_inv S W w"
  shows "\<exists>as w'. ev_step S W (EvRound ts) w = Ret (as, w') \<and> ev_inv S W w' \<and> list_all (action_ok w) as"
proof -
  from dispatch_all_ok [OF W, of S "is_alive w" "take 4 ts" "wd_events w"] obtain as s where
    d: "dispatch_all S W (is_alive w) (take 4 (map as_event_data ts)) (wd_events w) = Ret (as, s)"
      "ev_epoll s = ev_epoll (wd_events w)" "ev_devices s = ev_devices (wd_events w)"
      "\<forall>k. slab_get W k (ev_wakers s) = None \<longleftrightarrow> slab_get W k (ev_wakers (wd_events w)) = None"
      "list_all (\<lambda>a. case a of HandleEvents d \<Rightarrow> is_alive w d | HandleTimeouts d \<Rightarrow> is_alive w d | WakeUp n \<Rightarrow> True) as"
    by (auto simp: take_map)
  have "(case a of HandleEvents d \<Rightarrow> is_alive w d | HandleTimeouts d \<Rightarrow> is_alive w d | WakeUp n \<Rightarrow> True) = action_ok w a"
    for a by (cases a) simp_all
  with d(5) have acts: "list_all (action_ok w) as" by (simp add: list_all_iff)
  have dev: "owned (w\<lparr>wd_events := s\<rparr>) = owned w" by (simp add: owned_def fun_eq_iff)
  have "ev_inv S W (w\<lparr>wd_events := s\<rparr>)"
    using w d(2-4) by (simp add: ev_inv_def wd_fds_def dev watched_def)
  with d(1) acts show ?thesis by (simp add: event_loop_round_def)
qed

lemma ev_step_keeps:
  assumes S: "slab_ok S" and W: "slab_ok W" and w: "ev_inv S W w" and en: "ev_enabled S W op w"
  shows "\<exists>as w'. ev_step S W op w = Ret (as, w') \<and> ev_inv S W w' \<and> list_all (action_ok w) as"
proof (cases op)
  case (EvOpen a1 a2 dev fd timer)
  with open_keeps [OF S w] en show ?thesis by fastforce
next
  case (EvClose x)
  with close_keeps [OF S w] en show ?thesis by fastforce
next
  case (EvDisconnect x)
  with disconnect_keeps [OF w] en show ?thesis by fastforce
next
  case (EvAsyncNew a fd)
  with async_new_keeps [OF W w] en show ?thesis by fastforce
next
  case (EvAsyncRegister e x n)
  with async_register_keeps [OF W w] en show ?thesis by fastforce
next
  case (EvAsyncDrop x)
  with async_drop_keeps [OF W w] en show ?thesis by fastforce
next
  case (EvRound ts)
  with round_keeps [OF W w] show ?thesis by blast
next
  case EvInterrupted
  with w show ?thesis by (simp add: event_loop_round_def)
qed

section \<open>Routing\<close>

lemma ev_reach_inv: "ev_reach S W w \<Longrightarrow> slab_ok S \<Longrightarrow> slab_ok W \<Longrightarrow> ev_inv S W w"
proof (induction rule: ev_reach.induct)
  case (reach_init d v)
  show ?case by (rule ev_inv_init)
next
  case (reach_step w op as w')
  from ev_step_keeps [OF reach_step.prems reach_step.IH [OF reach_step.prems] reach_step.hyps(2)] reach_step.hyps(3)
  show ?case by auto
qed

lemma device_owner:
  assumes w: "ev_inv S W w" and x: "x \<in> set (wd_devs w)"
  shows "watched (wd_events w) (od_fd x) = Some (data, fl) \<Longrightarrow> data = as_event_data (TagDevice (od_id x))"
    "watched (wd_events w) (od_timer x) = Some (data, fl) \<Longrightarrow> data = as_event_data (TagDeviceTimer (od_id x))"
proof -
  have dist: "distinct (wd_fds w)" using w by (simp add: ev_inv_def)
  note fds = distinct_fds_remove [OF x dist [unfolded wd_fds_def]]
  have self: "od_fd x \<noteq> od_timer x" using dist x by (auto simp: wd_fds_def dest!: split_list)
  have same: "y = x" if "y \<in> set (wd_devs w)" "od_fd y \<in> {od_fd x, od_timer x} \<or> od_timer y \<in> {od_fd x, od_timer x}" for y
  proof (rule ccontr)
    assume "y \<noteq> x"
    then have "y \<in> set (remove1 x (wd_devs w))" using that(1) by (subst in_set_remove1)
    with fds(2) that(2) show False by auto
  qed
  have own: "owned w g data" if "watched (wd_events w) g = Some (data, fl)" for g
    using w that by (auto simp: ev_inv_def)
  show "watched (wd_events w) (od_fd x) = Some (data, fl) \<Longrightarrow> data = as_event_data (TagDevice (od_id x))"
    using own [of "od_fd x"] same fds(3) self by (auto simp: owned_def dest: sym)
  show "watched (wd_events w) (od_timer x) = Some (data, fl) \<Longrightarrow> data = as_event_data (TagDeviceTimer (od_id x))"
    using own [of "od_timer x"] same fds(3) self by (auto simp: owned_def dest: sym)
qed

lemma dispatch_device:
  assumes w: "ev_inv S W w" and x: "x \<in> set (wd_devs w)"
  shows "dispatch S W (is_alive w) (as_event_data (TagDevice (od_id x))) (wd_events w) =
      Ret ([HandleEvents (od_dev x)], wd_events w)"
    "dispatch S W (is_alive w) (as_event_data (TagDeviceTimer (od_id x))) (wd_events w) =
      Ret ([HandleTimeouts (od_dev x)], wd_events w)"
proof -
  have "od_id x mod 2 ^ 61 = od_id x" using w x by (auto simp: ev_inv_def)
  moreover have "slab_get S (od_id x) (ev_devices (wd_events w)) = Some (od_dev x)" using w x by (auto simp: ev_inv_def)
  moreover have "is_alive w (od_dev x)" using x by (auto simp: is_alive_def)
  ultimately show "dispatch S W (is_alive w) (as_event_data (TagDevice (od_id x))) (wd_events w) =
      Ret ([HandleEvents (od_dev x)], wd_events w)"
    "dispatch S W (is_alive w) (as_event_data (TagDeviceTimer (od_id x))) (wd_events w) =
      Ret ([HandleTimeouts (od_dev x)], wd_events w)"
    by (simp_all add: dispatch_def from_as_event_data epoll_device_def del: power_numeral)
qed

text \<open>
  C21. The event loop never fails and never confuses devices, on a system that can create the epoll instance
  and whose \<open>epoll_wait\<close> fails only with \<open>EINTR\<close>. In every state that opening, closing and
  disconnecting devices, asynchronous descriptors and rounds of events, late ones included, can reach:
  every step returns without a panic and only devices that are open handle events; and an event of a
  watched descriptor is handled by the device that owns it, by \<open>handle_events\<close> for its USB descriptor
  and by \<open>handle_timeouts\<close> for its timer.
\<close>

theorem events_routed:
  assumes "slab_ok S" "slab_ok W" "ev_reach S W w"
  shows "(ev_enabled S W op w \<longrightarrow> (\<exists>as w'. ev_step S W op w = Ret (as, w') \<and> list_all (action_ok w) as)) \<and>
    (\<forall>x \<in> set (wd_devs w). \<forall>m data fl. ev_epoll (wd_events w) = Some m \<longrightarrow>
       (m (od_fd x) = Some (data, fl) \<longrightarrow>
          dispatch S W (is_alive w) data (wd_events w) = Ret ([HandleEvents (od_dev x)], wd_events w)) \<and>
       (m (od_timer x) = Some (data, fl) \<longrightarrow>
          dispatch S W (is_alive w) data (wd_events w) = Ret ([HandleTimeouts (od_dev x)], wd_events w)))"
proof -
  have w: "ev_inv S W w" by (rule ev_reach_inv [OF assms(3,1,2)])
  show ?thesis
    using ev_step_keeps [OF assms(1,2) w] device_owner [OF w] dispatch_device [OF w]
    by (force simp: watched_def)
qed

text \<open>A slab as a list of slots.\<close>

fun first_vacant :: "'a option list \<Rightarrow> nat" where
  "first_vacant [] = 0"
| "first_vacant (None # s) = 0"
| "first_vacant (Some x # s) = Suc (first_vacant s)"

definition slots_insert :: "'a \<Rightarrow> 'a option list \<Rightarrow> nat \<times> 'a option list" where
  "slots_insert x s =
     (first_vacant s, if first_vacant s < length s then s[first_vacant s := Some x] else s @ [Some x])"

definition slots_get :: "nat \<Rightarrow> 'a option list \<Rightarrow> 'a option" where
  "slots_get k s = (if k < length s then s ! k else None)"

definition slots_set :: "nat \<Rightarrow> 'a \<Rightarrow> 'a option list \<Rightarrow> 'a option list" where
  "slots_set k x s = s[k := Some x]"

definition slots_remove :: "nat \<Rightarrow> 'a option list \<Rightarrow> ('a \<times> 'a option list) outcome" where
  "slots_remove k s = (case slots_get k s of None \<Rightarrow> Panic | Some x \<Rightarrow> Ret (x, s[k := None]))"

definition slots :: "('a, 'a option list) slab" where
  "slots = \<lparr>slab_insert = slots_insert, slab_get = slots_get, slab_set = slots_set, slab_remove = slots_remove\<rparr>"

lemma first_vacant_le: "first_vacant s \<le> length s"
  by (induction s rule: first_vacant.induct) auto

lemma first_vacant_None: "first_vacant s < length s \<Longrightarrow> s ! first_vacant s = None"
  by (induction s rule: first_vacant.induct) auto

lemma slots_ok: "slab_ok slots"
proof -
  have full: "length s = first_vacant s" if "\<not> first_vacant s < length s" for s :: "'a option list"
    using first_vacant_le [of s] that by simp
  show ?thesis
    using full by (auto simp: slab_ok_def slots_def slots_insert_def slots_get_def slots_set_def slots_remove_def
        first_vacant_None first_vacant_le less_Suc_eq_le nth_append nth_list_update split: option.splits if_splits)
qed

theorem events_routed_witness:
  "let a = \<lparr>ea_create = None, ea_spawn = True, ea_add = None\<rparr>;
       w = ev_init [] []
   in \<exists>w'. ev_step slots slots (EvOpen a a 7 3 4) w = Ret ([], w') \<and>
        ev_step slots slots (EvRound [TagDevice 0, TagDeviceTimer 0, TagDevice 5]) w' =
          Ret ([HandleEvents 7, HandleTimeouts 7], w') \<and>
        (\<exists>as w''. ev_step slots slots (EvRound [TagDevice 0, TagDeviceTimer 0, TagDevice 5]) w' = Ret (as, w'') \<and>
           list_all (action_ok w') as)"
proof -
  let ?a = "\<lparr>ea_create = None, ea_spawn = True, ea_add = None\<rparr>"
  let ?w = "ev_init [] [] :: (nat option list, nat option option list) ev_world"
  let ?ts = "[TagDevice 0, TagDeviceTimer 0, TagDevice 5]"
  have en: "ev_enabled slots slots (EvOpen ?a ?a 7 3 4) ?w"
    by (simp add: ev_init_def wd_fds_def is_alive_def slots_def slots_insert_def)
  obtain w' where w': "ev_step slots slots (EvOpen ?a ?a 7 3 4) ?w = Ret ([], w')"
    using open_keeps [OF slots_ok ev_inv_init en] by blast
  have r: "ev_reach slots slots w'" by (rule reach_step [OF reach_init en w'])
  from w' have run: "ev_step slots slots (EvRound ?ts) w' = Ret ([HandleEvents 7, HandleTimeouts 7], w')"
    by (auto simp: ev_init_def open_registered_def slots_def slots_insert_def register_fd_def add_watch_def
        event_loop_round_def dispatch_def from_as_event_data epoll_device_def slots_get_def is_alive_def)
  from events_routed [OF slots_ok slots_ok r, of "EvRound ?ts"] w' run show ?thesis by (simp add: Let_def)
qed

text \<open>
  A failure to create the epoll instance is not reported but panics: the error of the first
  registration drops the half-open device, whose destructor unregisters its descriptors and unwraps the
  epoll instance that does not exist.
\<close>

theorem epoll_create_failure_panics:
  assumes "ev_epoll s = None" "ea_create a1 = Some e"
  shows "open_registered S a1 a2 dev fd timer s = Panic"
  using assms
  by (simp add: open_registered_def register_fd_def linux_device_drop_def unregister_fd_def split: prod.split)

theorem epoll_create_failure_panics_witness:
  "open_registered slots \<lparr>ea_create = Some 24, ea_spawn = True, ea_add = None\<rparr>
     \<lparr>ea_create = None, ea_spawn = True, ea_add = None\<rparr> 7 3 4
     \<lparr>ev_epoll = None, ev_thread = False, ev_devices = [], ev_wakers = ()\<rparr> = Panic"
  by (rule epoll_create_failure_panics) simp_all

end
