(* ===== verification/Maybe_Future.thy ===== *)
theory Maybe_Future
  imports Prelude
begin

text \<open>
  src/src/maybe_future.rs: actions that run when they are waited for or when they are awaited. An
  action reads and changes a world \<open>'w\<close>; all results have one type \<open>'r\<close>. The thread pool of the
  runtime (\<open>smol\<close> or \<open>tokio\<close>) is a parameter.
\<close>

section \<open>The thread pool\<close>

text \<open>What polling the handle of a task of the pool gives.\<close>

datatype 'r joined = JoinPending | JoinOk 'r | JoinCancelled | JoinPanicked | JoinFailed

record ('t, 'w, 'r) pool =
  pool_spawn :: "('w \<Rightarrow> ('r \<times> 'w) outcome) \<Rightarrow> 'w \<Rightarrow> 't \<times> 'w"
  pool_poll :: "'t \<Rightarrow> 'w \<Rightarrow> 'r joined \<times> 't \<times> 'w"

text \<open>Which of the features of the crate is enabled; \<open>smol\<close> wins if both are.\<close>

datatype runtime = Smol | Tokio | NoRuntime

section \<open>Actions\<close>

text \<open>\<open>Ready\<close>, \<open>Blocking\<close> and \<open>Map\<close>; a closure may panic.\<close>

datatype ('w, 'r) maybe_future =
    Ready 'r
  | Blocking "'w \<Rightarrow> ('r \<times> 'w) outcome"
  | Map "('w, 'r) maybe_future" "'r \<Rightarrow> 'w \<Rightarrow> ('r \<times> 'w) outcome"

primrec mf_wait :: "('w, 'r) maybe_future \<Rightarrow> 'w \<Rightarrow> ('r \<times> 'w) outcome" where
  "mf_wait (Ready x) w = Ret (x, w)"
| "mf_wait (Blocking f) w = f w"
| "mf_wait (Map m func) w = obind (mf_wait m w) (\<lambda>(x, w'). func x w')"

definition mf_map ::
  "('w, 'r) maybe_future \<Rightarrow> ('r \<Rightarrow> 'w \<Rightarrow> ('r \<times> 'w) outcome) \<Rightarrow> ('w, 'r) maybe_future" where
  "mf_map m f = Map m f"

section \<open>Futures\<close>

text \<open>\<open>std::future::Ready\<close>, \<open>BlockingTask\<close> and \<open>MapFut\<close>.\<close>

datatype ('t, 'w, 'r) future =
    ReadyFut "'r option"
  | BlockingTask 't
  | MapFut "('t, 'w, 'r) future" "('r \<Rightarrow> 'w \<Rightarrow> ('r \<times> 'w) outcome) option"

definition task_spawn ::
  "('t, 'w, 'r) pool \<Rightarrow> runtime \<Rightarrow> ('w \<Rightarrow> ('r \<times> 'w) outcome) \<Rightarrow> 'w \<Rightarrow> ('t \<times> 'w) outcome" where
  "task_spawn P rt f w =
     (case rt of
        Smol \<Rightarrow> Ret (pool_spawn P f w)
      | Tokio \<Rightarrow> Ret (pool_spawn P f w)
      | NoRuntime \<Rightarrow> Panic)"

text \<open>
  \<open>None\<close> is \<open>Poll::Pending\<close>. A \<open>tokio\<close> task that was cancelled by the shutdown of the runtime stays
  pending; a task of \<open>smol\<close> that panicked panics when it is polled.
\<close>

definition task_poll ::
  "('t, 'w, 'r) pool \<Rightarrow> runtime \<Rightarrow> 't \<Rightarrow> 'w \<Rightarrow> ('r option \<times> 't \<times> 'w) outcome" where
  "task_poll P rt t w =
     (case rt of
        NoRuntime \<Rightarrow> Panic
      | Smol \<Rightarrow>
          (case pool_poll P t w of
             (JoinOk r, t', w') \<Rightarrow> Ret (Some r, t', w')
           | (JoinPending, t', w') \<Rightarrow> Ret (None, t', w')
           | _ \<Rightarrow> Panic)
      | Tokio \<Rightarrow>
          (case pool_poll P t w of
             (JoinPending, t', w') \<Rightarrow> Ret (None, t', w')
           | (JoinOk r, t', w') \<Rightarrow> Ret (Some r, t', w')
           | (JoinCancelled, t', w') \<Rightarrow> Ret (None, t', w')
           | (JoinPanicked, t', w') \<Rightarrow> Panic
           | (JoinFailed, t', w') \<Rightarrow> Panic))"

primrec into_future ::
  "('t, 'w, 'r) pool \<Rightarrow> runtime \<Rightarrow> ('w, 'r) maybe_future \<Rightarrow> 'w \<Rightarrow> (('t, 'w, 'r) future \<times> 'w) outcome" where
  "into_future P rt (Ready x) w = Ret (ReadyFut (Some x), w)"
| "into_future P rt (Blocking f) w = omap (\<lambda>(t, w'). (BlockingTask t, w')) (task_spawn P rt f w)"
| "into_future P rt (Map m func) w =
     omap (\<lambda>(fut, w'). (MapFut fut (Some func), w')) (into_future P rt m w)"

primrec fut_poll ::
  "('t, 'w, 'r) pool \<Rightarrow> runtime \<Rightarrow> ('t, 'w, 'r) future \<Rightarrow> 'w \<Rightarrow>
   ('r option \<times> ('t, 'w, 'r) future \<times> 'w) outcome" where
  "fut_poll P rt (ReadyFut x) w =
     (case x of None \<Rightarrow> Panic | Some r \<Rightarrow> Ret (Some r, ReadyFut None, w))"
| "fut_poll P rt (BlockingTask t) w = omap (\<lambda>(r, t', w'). (r, BlockingTask t', w')) (task_poll P rt t w)"
| "fut_poll P rt (MapFut fut func) w =
     obind (fut_poll P rt fut w) (\<lambda>(r, fut', w').
       case r of
         None \<Rightarrow> Ret (None, MapFut fut' func, w')
       | Some output \<Rightarrow>
           (case func of
              None \<Rightarrow> Panic
            | Some f \<Rightarrow> omap (\<lambda>(y, w''). (Some y, MapFut fut' None, w'')) (f output w')))"

section \<open>Awaiting\<close>

text \<open>Polls until the future is ready, at most \<open>n\<close> times; \<open>Inl\<close> is still pending.\<close>

fun poll_until ::
  "('t, 'w, 'r) pool \<Rightarrow> runtime \<Rightarrow> nat \<Rightarrow> ('t, 'w, 'r) future \<Rightarrow> 'w \<Rightarrow>
   (('t, 'w, 'r) future \<times> 'w + 'r \<times> ('t, 'w, 'r) future \<times> 'w) outcome" where
  "poll_until P rt 0 fut w = Ret (Inl (fut, w))"
| "poll_until P rt (Suc n) fut w =
     obind (fut_poll P rt fut w) (\<lambda>(r, fut', w').
       case r of None \<Rightarrow> poll_until P rt n fut' w' | Some x \<Rightarrow> Ret (Inr (x, fut', w')))"

definition await ::
  "('t, 'w, 'r) pool \<Rightarrow> runtime \<Rightarrow> nat \<Rightarrow> ('w, 'r) maybe_future \<Rightarrow> 'w \<Rightarrow>
   (('t, 'w, 'r) future \<times> 'w + 'r \<times> ('t, 'w, 'r) future \<times> 'w) outcome" where
  "await P rt n m w = obind (into_future P rt m w) (\<lambda>(fut, w'). poll_until P rt n fut w')"

text \<open>
  A pool that works: a task that was spawned is pending for at most \<open>k\<close> polls and then gives the
  result of the closure, run once on the world; a closure that panics is reported.
\<close>

fun task_resolves :: "('t, 'w, 'r) pool \<Rightarrow> nat \<Rightarrow> 't \<Rightarrow> 'w \<Rightarrow> ('r \<times> 'w) outcome \<Rightarrow> bool" where
  "task_resolves P 0 t w res \<longleftrightarrow>
     (case res of
        Ret (r, v) \<Rightarrow> \<exists>t'. pool_poll P t w = (JoinOk r, t', v)
      | _ \<Rightarrow> \<exists>t' v. pool_poll P t w = (JoinPanicked, t', v))"
| "task_resolves P (Suc k) t w res \<longleftrightarrow>
     task_resolves P 0 t w res \<or>
     (\<exists>t' w'. pool_poll P t w = (JoinPending, t', w') \<and> task_resolves P k t' w' res)"

definition pool_ok :: "('t, 'w, 'r) pool \<Rightarrow> nat \<Rightarrow> bool" where
  "pool_ok P k \<longleftrightarrow>
     (\<forall>f w. task_resolves P k (fst (pool_spawn P f w)) (snd (pool_spawn P f w)) (f w))"

text \<open>A future that is ready after at most \<open>k\<close> pending polls, with the result \<open>res\<close>.\<close>

fun fut_resolves ::
  "('t, 'w, 'r) pool \<Rightarrow> runtime \<Rightarrow> nat \<Rightarrow> ('t, 'w, 'r) future \<Rightarrow> 'w \<Rightarrow> ('r \<times> 'w) outcome \<Rightarrow> bool" where
  "fut_resolves P rt 0 fut w res \<longleftrightarrow>
     (\<exists>x. fut_poll P rt fut w = x \<and>
        (case res of Ret (r, v) \<Rightarrow> \<exists>fut'. x = Ret (Some r, fut', v) | _ \<Rightarrow> \<not> is_ret x))"
| "fut_resolves P rt (Suc k) fut w res \<longleftrightarrow>
     fut_resolves P rt 0 fut w res \<or>
     (\<exists>fut' w'. fut_poll P rt fut w = Ret (None, fut', w') \<and> fut_resolves P rt k fut' w' res)"

lemma map_resolves:
  "fut_resolves P rt k fut w res \<Longrightarrow>
    fut_resolves P rt k (MapFut fut (Some func)) w (obind res (\<lambda>(x, w'). func x w'))"
proof (induction k arbitrary: fut w)
  case 0
  then show ?case
    by (cases res) (auto simp: omap_Ret_iff is_ret_iff obind_Ret_iff split: outcome.splits prod.splits option.splits)
next
  case (Suc k)
  from Suc.prems consider "fut_resolves P rt 0 fut w res"
    | fut' w' where "fut_poll P rt fut w = Ret (None, fut', w')" "fut_resolves P rt k fut' w' res" by auto
  then show ?case
  proof cases
    case 1
    then have "fut_resolves P rt 0 (MapFut fut (Some func)) w (obind res (\<lambda>(x, w'). func x w'))"
      by (cases res) (auto simp: omap_Ret_iff is_ret_iff obind_Ret_iff split: outcome.splits prod.splits option.splits)
    then show ?thesis by simp
  next
    case 2
    with Suc.IH show ?thesis by auto
  qed
qed

lemma task_fut_resolves:
  assumes "rt \<noteq> NoRuntime"
  shows "task_resolves P k t w res \<Longrightarrow> fut_resolves P rt k (BlockingTask t) w res"
proof (induction k arbitrary: t w)
  case 0
  with assms show ?case
    by (cases rt; cases res) (auto simp: task_poll_def)
next
  case (Suc k)
  have now: "fut_resolves P rt 0 (BlockingTask t) w res" if "task_resolves P 0 t w res"
    using assms that by (cases rt; cases res) (auto simp: task_poll_def)
  have later: "fut_poll P rt (BlockingTask t) w = Ret (None, BlockingTask t', w')"
    if "pool_poll P t w = (JoinPending, t', w')" for t' w'
    using assms that by (cases rt) (auto simp: task_poll_def)
  from Suc.prems consider "task_resolves P 0 t w res"
    | t' w' where "pool_poll P t w = (JoinPending, t', w')" "task_resolves P k t' w' res" by auto
  then show ?case
  proof cases
    case 1
    with now show ?thesis by simp
  next
    case 2
    with later Suc.IH [OF 2(2)] show ?thesis by auto
  qed
qed

lemma ready_at_once: "fut_resolves P rt 0 fut w res \<Longrightarrow> fut_resolves P rt k fut w res"
  by (cases k) auto

lemma into_future_resolves:
  assumes "pool_ok P k" "rt \<noteq> NoRuntime"
  shows "\<exists>fut w1. into_future P rt m w = Ret (fut, w1) \<and> fut_resolves P rt k fut w1 (mf_wait m w)"
proof (induction m)
  case (Ready x)
  have "fut_resolves P rt 0 (ReadyFut (Some x)) w (Ret (x, w))" by simp
  from ready_at_once [OF this] show ?case by simp
next
  case (Blocking f)
  have "task_resolves P k (fst (pool_spawn P f w)) (snd (pool_spawn P f w)) (f w)"
    using assms(1) by (simp add: pool_ok_def)
  from task_fut_resolves [OF assms(2) this] assms(2) show ?case
    by (cases rt; cases "pool_spawn P f w") (simp_all add: task_spawn_def)
next
  case (Map m func)
  then obtain fut w1 where "into_future P rt m w = Ret (fut, w1)" "fut_resolves P rt k fut w1 (mf_wait m w)" by blast
  with map_resolves [of P rt k fut w1 "mf_wait m w" func] show ?case by (simp del: fut_resolves.simps)
qed

text \<open>A finished \<open>await\<close> with the result and the world of \<open>wait\<close>, or a panic where \<open>wait\<close> panics.\<close>

fun same_result :: "('r \<times> 'w) outcome \<Rightarrow> ('f \<times> 'w + 'r \<times> 'f \<times> 'w) outcome \<Rightarrow> bool" where
  "same_result (Ret (r, v)) x \<longleftrightarrow> (\<exists>fut. x = Ret (Inr (r, fut, v)))"
| "same_result Panic x \<longleftrightarrow> \<not> is_ret x"
| "same_result UB x \<longleftrightarrow> \<not> is_ret x"
| "same_result Diverge x \<longleftrightarrow> \<not> is_ret x"

lemma poll_until_resolves:
  "fut_resolves P rt k fut w res \<Longrightarrow> k < n \<Longrightarrow> same_result res (poll_until P rt n fut w)"
proof (induction k arbitrary: fut w n)
  case 0
  then obtain m where "n = Suc m" by (cases n) auto
  with 0 show ?case
    by (cases res; cases "fut_poll P rt fut w") (auto split: outcome.splits)
next
  case (Suc k)
  then obtain m where n: "n = Suc m" "k < m" by (cases n) auto
  from Suc.prems(1) consider "fut_resolves P rt 0 fut w res"
    | fut' w' where "fut_poll P rt fut w = Ret (None, fut', w')" "fut_resolves P rt k fut' w' res" by auto
  then show ?case
  proof cases
    case 1
    with n show ?thesis by (cases res; cases "fut_poll P rt fut w") (auto split: outcome.splits)
  next
    case 2
    with Suc.IH [OF 2(2) n(2)] n(1) show ?thesis by simp
  qed
qed

text \<open>
  C31. Waiting and awaiting are the same: for every action built from ready values, blocking closures
  and \<open>map\<close>, on either runtime and with any thread pool that runs its tasks within \<open>k\<close> polls, awaiting
  gives the result that \<open>wait\<close> gives, after the same effects, each performed once; it panics exactly
  when \<open>wait\<close> panics.
\<close>

theorem await_equals_wait:
  assumes "pool_ok P k" "rt \<noteq> NoRuntime" "k < n"
  shows "same_result (mf_wait m w) (await P rt n m w)"
proof -
  from into_future_resolves [OF assms(1,2), of m w] obtain fut w1 where
    f: "into_future P rt m w = Ret (fut, w1)" "fut_resolves P rt k fut w1 (mf_wait m w)" by blast
  from poll_until_resolves [OF f(2) assms(3)] show ?thesis
    by (simp add: await_def f(1))
qed

text \<open>A pool that runs a closure when its handle is polled for the second time.\<close>

fun second_poll ::
  "nat \<times> ('w \<Rightarrow> ('r \<times> 'w) outcome) \<Rightarrow> 'w \<Rightarrow> 'r joined \<times> (nat \<times> ('w \<Rightarrow> ('r \<times> 'w) outcome)) \<times> 'w" where
  "second_poll (Suc n, f) w = (JoinPending, (n, f), w)"
| "second_poll (0, f) w =
     (case f w of Ret (r, v) \<Rightarrow> (JoinOk r, (0, f), v) | _ \<Rightarrow> (JoinPanicked, (0, f), w))"

definition second_pool :: "(nat \<times> ('w \<Rightarrow> ('r \<times> 'w) outcome), 'w, 'r) pool" where
  "second_pool = \<lparr>pool_spawn = (\<lambda>f w. ((1, f), w)), pool_poll = second_poll\<rparr>"

lemma second_pool_ok: "pool_ok second_pool 1"
  by (auto simp: pool_ok_def second_pool_def split: outcome.splits)

theorem await_equals_wait_witness:
  "let m = Map (Blocking (\<lambda>w. Ret (w, w + 1))) (\<lambda>r w. Ret (2 * r, w)) :: (nat, nat) maybe_future
   in mf_wait m 21 = Ret (42, 22) \<and> (\<exists>fut. await second_pool Tokio 2 m 21 = Ret (Inr (42, fut, 22)))"
proof -
  let ?m = "Map (Blocking (\<lambda>w. Ret (w, w + 1))) (\<lambda>r w. Ret (2 * r, w)) :: (nat, nat) maybe_future"
  have "mf_wait ?m 21 = Ret (42, 22)" by simp
  with await_equals_wait [OF second_pool_ok, of Tokio 2 ?m 21] show ?thesis by simp
qed

text \<open>Whether some part of an action is blocking.\<close>

primrec blocks :: "('w, 'r) maybe_future \<Rightarrow> bool" where
  "blocks (Ready x) = False"
| "blocks (Blocking f) = True"
| "blocks (Map m func) = blocks m"

lemma no_runtime_resolves:
  "(blocks m \<longrightarrow> into_future P NoRuntime m w = Panic) \<and>
   (\<not> blocks m \<longrightarrow> (\<exists>fut w1. into_future P NoRuntime m w = Ret (fut, w1) \<and> fut_resolves P NoRuntime 0 fut w1 (mf_wait m w)))"
proof (induction m)
  case (Map m func)
  show ?case
  proof (cases "blocks m")
    case False
    with Map obtain fut w1 where
      "into_future P NoRuntime m w = Ret (fut, w1)" "fut_resolves P NoRuntime 0 fut w1 (mf_wait m w)" by blast
    with map_resolves [of P NoRuntime 0 fut w1 "mf_wait m w" func] False show ?thesis
      by (simp del: fut_resolves.simps)
  qed (use Map in simp)
qed (simp_all add: task_spawn_def)

text \<open>
  Without a runtime an action can be awaited only if no part of it is blocking: then it is ready at
  the first poll with the result of \<open>wait\<close>, and otherwise awaiting panics, whatever the pool is.
\<close>

theorem await_without_runtime:
  "if blocks m then await P NoRuntime (Suc n) m w = Panic
   else same_result (mf_wait m w) (await P NoRuntime (Suc n) m w)"
proof (cases "blocks m")
  case True
  with no_runtime_resolves [of m P w] show ?thesis by (simp add: await_def)
next
  case False
  with no_runtime_resolves [of m P w] obtain fut w1 where
    f: "into_future P NoRuntime m w = Ret (fut, w1)" "fut_resolves P NoRuntime 0 fut w1 (mf_wait m w)" by blast
  from poll_until_resolves [OF f(2), of "Suc n"] False show ?thesis
    by (simp add: await_def f(1))
qed

end
