(* ===== verification/Windows_Text.thy ===== *)
theory Windows_Text
  imports Strings Enumeration
begin

text \<open>
  Text of the Windows backend: the wide strings of src/src/platform/windows_winusb/util.rs
  (\<open>WCString\<close>, \<open>WCStr\<close>, \<open>NulSepList\<close>) and the parsers of hardware IDs and location paths of
  src/src/platform/windows_winusb/enumeration.rs. An \<open>OsString\<close> is a list of UTF-16 code units that
  need not be well-formed; a \<open>str\<close> is its UTF-8 bytes.
\<close>

type_synonym os_string = "u16 list"

section \<open>Strings of the operating system\<close>

definition utf8_of :: "nat \<Rightarrow> string" where
  "utf8_of c =
     map char_of
       (if c < 0x80 then [c]
        else if c < 0x800 then [0xC0 + c div 64, 0x80 + c mod 64]
        else if c < 0x10000 then [0xE0 + c div 4096, 0x80 + c div 64 mod 64, 0x80 + c mod 64]
        else [0xF0 + c div 262144, 0x80 + c div 4096 mod 64, 0x80 + c div 64 mod 64, 0x80 + c mod 64])"

text \<open>\<open>OsString::into_string\<close> and \<open>OsStr::to_str\<close>: refused when a surrogate is unpaired.\<close>

fun string_of_chars :: "('e + nat) list \<Rightarrow> string option" where
  "string_of_chars [] = Some []"
| "string_of_chars (Inl e # cs) = None"
| "string_of_chars (Inr c # cs) = map_option (\<lambda>s. utf8_of c @ s) (string_of_chars cs)"

definition os_to_str :: "os_string \<Rightarrow> string option" where
  "os_to_str s = string_of_chars (decode_utf16 s)"

text \<open>\<open>to_string_lossy\<close>\<close>

definition os_to_string_lossy :: "os_string \<Rightarrow> string" where
  "os_to_string_lossy s =
     concat (map (\<lambda>r. utf8_of (case r of Inr c \<Rightarrow> c | Inl _ \<Rightarrow> REPLACEMENT_CHARACTER)) (decode_utf16 s))"

definition eq_ignore_ascii_case :: "string \<Rightarrow> string \<Rightarrow> bool" where
  "eq_ignore_ascii_case s t \<longleftrightarrow> to_ascii_lowercase s = to_ascii_lowercase t"

text \<open>\<open>OsStr::eq_ignore_ascii_case\<close> with an ASCII string.\<close>

definition os_eq_ignore_ascii_case :: "os_string \<Rightarrow> string \<Rightarrow> bool" where
  "os_eq_ignore_ascii_case s t \<longleftrightarrow>
     map (\<lambda>u. if 65 \<le> u \<and> u \<le> 90 then u + 32 else u) s = map of_char (to_ascii_lowercase t)"

section \<open>Strings that end in a zero\<close>

text \<open>\<open>WCString::from(&OsStr)\<close>\<close>

definition wc_from_os :: "os_string \<Rightarrow> u16 list" where
  "wc_from_os s = s @ [0]"

text \<open>\<open>Iterator::position\<close>\<close>

fun position :: "('a \<Rightarrow> bool) \<Rightarrow> 'a list \<Rightarrow> nat option" where
  "position p [] = None"
| "position p (x # xs) = (if p x then Some 0 else map_option Suc (position p xs))"

text \<open>\<open>debug_assert_eq!(s.last().copied(), Some(0))\<close>\<close>

definition wc_from_slice_unchecked :: "u16 list \<Rightarrow> u16 list outcome" where
  "wc_from_slice_unchecked s = rassert (s \<noteq> [] \<and> last s = 0) (Ret s)"

text \<open>The memory behind the pointer; reading past its end is undefined.\<close>

definition wc_from_ptr :: "u16 list \<Rightarrow> u16 list outcome" where
  "wc_from_ptr memory =
     (case position (\<lambda>x. x = 0) memory of
        None \<Rightarrow> UB
      | Some len \<Rightarrow> wc_from_slice_unchecked (take (len + 1) memory))"

definition wc_from_slice_until_nul :: "u16 list \<Rightarrow> u16 list outcome" where
  "wc_from_slice_until_nul s =
     obind (unwrap (position (\<lambda>x. x = 0) s)) (\<lambda>nul.
     obind (slice_to s (nul + 1)) wc_from_slice_unchecked)"

definition wc_as_slice_without_nul :: "u16 list \<Rightarrow> u16 list outcome" where
  "wc_as_slice_without_nul s = rassert (s \<noteq> []) (slice_to s (length s - 1))"

text \<open>\<open>OsString::from(&WCStr)\<close>\<close>

definition os_from_wc :: "u16 list \<Rightarrow> os_string outcome" where
  "os_from_wc s = rassert (s \<noteq> [] \<and> last s = 0) (slice_to s (length s - 1))"

text \<open>\<open>Display for WCStr\<close>\<close>

definition wc_display :: "u16 list \<Rightarrow> string outcome" where
  "wc_display s = omap os_to_string_lossy (wc_as_slice_without_nul s)"

section \<open>Lists of strings\<close>

text \<open>\<open>NulSepListIter::next\<close>: the item and the rest of the buffer.\<close>

definition nul_sep_next :: "u16 list \<Rightarrow> (u16 list option \<times> u16 list) outcome" where
  "nul_sep_next xs =
     (case position (\<lambda>x. x = 0) xs of
        Some next_nul \<Rightarrow>
          obind (split_at xs (next_nul + 1)) (\<lambda>(i, next).
            if length i \<le> 1 then Ret (None, next)
            else omap (\<lambda>s. (Some s, next)) (wc_from_slice_unchecked i))
      | None \<Rightarrow> Ret (None, xs))"

lemma position_Some:
  "position p xs = Some n \<longleftrightarrow> n < length xs \<and> p (xs ! n) \<and> (\<forall>m < n. \<not> p (xs ! m))"
proof (induction xs arbitrary: n)
  case (Cons x xs)
  show ?case
  proof (cases n)
    case (Suc k)
    have "(\<forall>m < Suc k. \<not> p ((x # xs) ! m)) \<longleftrightarrow> \<not> p x \<and> (\<forall>m < k. \<not> p (xs ! m))"
      by (auto simp: nth_Cons split: nat.splits)
    with Cons Suc show ?thesis by auto
  qed auto
qed simp

lemma position_append: "\<forall>x \<in> set xs. \<not> p x \<Longrightarrow> p y \<Longrightarrow> position p (xs @ y # ys) = Some (length xs)"
  by (induction xs) auto

lemma position_None: "position p xs = None \<longleftrightarrow> (\<forall>x \<in> set xs. \<not> p x)"
  by (induction xs) auto

lemma nul_sep_next_shorter: "nul_sep_next xs = Ret (Some s, ys) \<Longrightarrow> length ys < length xs"
  by (auto simp: nul_sep_next_def position_Some outcome_Ret_iffs split: option.splits if_splits)

text \<open>The items that a loop over the iterator sees.\<close>

function nul_sep_list :: "u16 list \<Rightarrow> u16 list list outcome" where
  "nul_sep_list xs =
     (case nul_sep_next xs of
        Ret (Some s, next) \<Rightarrow> omap (\<lambda>ss. s # ss) (nul_sep_list next)
      | Ret (None, next) \<Rightarrow> Ret []
      | Panic \<Rightarrow> Panic | UB \<Rightarrow> UB | Diverge \<Rightarrow> Diverge)"
  by pat_completeness auto
termination
  by (relation "measure length") (auto simp: nul_sep_next_shorter)

declare nul_sep_list.simps [simp del]

section \<open>Identifiers\<close>

text \<open>\<open>str::split_once\<close> and \<open>rsplit_once\<close> with a string.\<close>

definition split_once_str :: "string \<Rightarrow> string \<Rightarrow> (string \<times> string) option" where
  "split_once_str p s = map_option (\<lambda>i. (take i s, drop (i + length p) s)) (find_str p s)"

fun rfind_str :: "string \<Rightarrow> string \<Rightarrow> nat option" where
  "rfind_str p [] = (if p = [] then Some 0 else None)"
| "rfind_str p (c # cs) =
     (case rfind_str p cs of
        Some i \<Rightarrow> Some (Suc i)
      | None \<Rightarrow> if is_prefix p (c # cs) then Some 0 else None)"

definition rsplit_once_str :: "string \<Rightarrow> string \<Rightarrow> (string \<times> string) option" where
  "rsplit_once_str p s = map_option (\<lambda>i. (take i s, drop (i + length p) s)) (rfind_str p s)"

text \<open>\<open>s.get(0..n)\<close> on a string: \<open>None\<close> out of range and inside of a character.\<close>

definition str_get_to :: "string \<Rightarrow> nat \<Rightarrow> string option" where
  "str_get_to s n =
     (if n < length s \<and> \<not> continuation (s ! n) \<or> n = length s then Some (take n s) else None)"

definition parse_hardware_id :: "os_string \<Rightarrow> u8 option" where
  "parse_hardware_id os =
     Option.bind (os_to_str os) (\<lambda>s.
     Option.bind (rsplit_once_str ''&MI_'' s) (\<lambda>(_, s).
     Option.bind (str_get_to s 2) (from_str_radix 16)))"

text \<open>The ports behind the root, as long as there are any.\<close>

lemma split_once_str_shorter:
  assumes "split_once_str p s = Some (a, b)" "p \<noteq> []"
  shows "length b < length s"
proof -
  from assms(1) obtain i where i: "find_str p s = Some i" "b = drop (i + length p) s"
    by (auto simp: split_once_str_def)
  from find_str_Some [OF i(1)] obtain zs where "drop i s = p @ zs" by (auto simp: is_prefix_eq)
  then have "length s - i = length p + length zs" by (metis length_drop length_append)
  with i(2) assms(2) show ?thesis by (cases p) auto
qed

function parse_ports :: "string \<Rightarrow> bytes option" where
  "parse_ports s =
     (case split_once_str ''#USB('' s of
        None \<Rightarrow> Some []
      | Some (_, next) \<Rightarrow>
          (case split_once_str '')'' next of
             None \<Rightarrow> None
           | Some (port_num, next) \<Rightarrow>
               (case from_str_radix 10 port_num of
                  None \<Rightarrow> None
                | Some n \<Rightarrow> map_option (\<lambda>path. n # path) (parse_ports next))))"
  by pat_completeness auto
termination
  by (relation "measure length") (auto dest!: split_once_str_shorter)

declare parse_ports.simps [simp del]

definition parse_location_path :: "os_string \<Rightarrow> (string \<times> bytes) option" where
  "parse_location_path os =
     Option.bind (os_to_str os) (\<lambda>s.
       let usbroot = ''#USBROOT('' in
       Option.bind (find_str usbroot s) (\<lambda>start_i.
       Option.bind (find_str '')'' (drop (start_i + length usbroot) s)) (\<lambda>close_i.
         let i = start_i + length usbroot + close_i + 1 in
         map_option (\<lambda>path. (take i s, path)) (parse_ports (drop i s)))))"

section \<open>Lists of strings are read as they were written\<close>

definition plain_wide :: "os_string \<Rightarrow> bool" where
  "plain_wide s \<longleftrightarrow> s \<noteq> [] \<and> 0 \<notin> set s"

lemma nul_sep_next_string:
  assumes "plain_wide s"
  shows "nul_sep_next (wc_from_os s @ xs) = Ret (Some (wc_from_os s), xs)"
proof -
  have "position (\<lambda>x. x = 0) (s @ 0 # xs) = Some (length s)"
    using assms by (intro position_append) (auto simp: plain_wide_def)
  with assms show ?thesis
    by (simp add: nul_sep_next_def wc_from_os_def wc_from_slice_unchecked_def plain_wide_def)
qed

lemma nul_sep_next_cases:
  obtains (string) s ys where "plain_wide s" "xs = wc_from_os s @ ys"
  | (stop) ys where "nul_sep_next xs = Ret (None, ys)" "xs = [] \<or> hd xs = 0 \<or> 0 \<notin> set xs"
proof (cases "position (\<lambda>x. x = 0) xs")
  case None
  then have "nul_sep_next xs = Ret (None, xs)" by (simp add: nul_sep_next_def)
  moreover have "0 \<notin> set xs" using None by (auto simp: position_None)
  ultimately show thesis by (intro stop) simp_all
next
  case (Some n)
  then have n: "n < length xs" "xs ! n = 0" "\<forall>m < n. xs ! m \<noteq> 0" by (auto simp: position_Some)
  then have xs: "xs = wc_from_os (take n xs) @ drop (Suc n) xs"
    by (metis wc_from_os_def append_Cons append_Nil append_assoc id_take_nth_drop)
  show thesis
  proof (cases "n = 0")
    case True
    with n obtain ys where ys: "xs = 0 # ys" by (cases xs) auto
    then have "nul_sep_next xs = Ret (None, ys)" by (simp add: nul_sep_next_def)
    with ys show thesis by (intro stop) simp_all
  next
    case False
    with n have "plain_wide (take n xs)" by (auto simp: plain_wide_def in_set_conv_nth)
    with xs show thesis by (rule string [rotated])
  qed
qed

lemma nul_sep_list_read:
  "list_all plain_wide ss \<Longrightarrow>
    nul_sep_list (concat (map wc_from_os ss) @ xs) = omap (\<lambda>r. map wc_from_os ss @ r) (nul_sep_list xs)"
proof (induction ss)
  case Nil
  then show ?case by (cases "nul_sep_list xs") auto
next
  case (Cons s ss)
  then show ?case
    by (subst nul_sep_list.simps) (cases "nul_sep_list xs"; simp add: nul_sep_next_string)
qed

text \<open>
  A list of zero-terminated strings of the operating system is read without a panic, whatever is
  in the buffer: the items are strings without a zero inside and none of them empty, they are what
  the buffer begins with, in order, and reading stops only at an empty string, at the end of the
  buffer or where no zero follows.
\<close>

theorem nul_sep_list_reads:
  "\<exists>ss rest. nul_sep_list xs = Ret (map wc_from_os ss) \<and> xs = concat (map wc_from_os ss) @ rest \<and>
    list_all plain_wide ss \<and> (rest = [] \<or> hd rest = 0 \<or> 0 \<notin> set rest)"
proof (induction xs rule: length_induct)
  case (1 xs)
  show ?case
  proof (cases xs rule: nul_sep_next_cases)
    case (string s ys)
    then have "length ys < length xs" by (simp add: wc_from_os_def)
    with 1 obtain ss rest where "nul_sep_list ys = Ret (map wc_from_os ss)"
      "ys = concat (map wc_from_os ss) @ rest" "list_all plain_wide ss"
      "rest = [] \<or> hd rest = 0 \<or> 0 \<notin> set rest" by blast
    with string nul_sep_list_read [of "[s]" ys] show ?thesis
      by (intro exI [where x = "s # ss"] exI [where x = rest]) simp
  next
    case (stop ys)
    then have "nul_sep_list xs = Ret (map wc_from_os [])" by (subst nul_sep_list.simps) simp
    with stop show ?thesis by (intro exI [where x = "[]"] exI [where x = xs]) simp
  qed
qed

section \<open>Location paths\<close>

lemma find_str_at:
  assumes "\<And>j. j < length a \<Longrightarrow> \<not> is_prefix p (drop j (a @ s))" "is_prefix p s"
  shows "find_str p (a @ s) = Some (length a)"
  using assms
proof (induction a)
  case Nil
  then show ?case by (subst find_str.simps) simp
next
  case (Cons c a)
  have "find_str p (a @ s) = Some (length a)"
    using Cons.IH Cons.prems(1) [of "Suc j" for j] Cons.prems(2) by simp
  with Cons.prems(1) [of 0] show ?case by (subst find_str.simps) simp
qed

lemma find_char_at:
  assumes "c \<notin> set a"
  shows "find_str [c] (a @ c # s) = Some (length a)"
proof (rule find_str_at)
  fix j assume j: "j < length a"
  then have "a ! j \<noteq> c" using assms nth_mem by blast
  with j show "\<not> is_prefix [c] (drop j (a @ c # s))"
    by (cases "drop j a") (auto simp: is_prefix_eq dest: nth_via_drop)
qed simp

text \<open>A pattern whose first character does not come again in it cannot straddle its own occurrence.\<close>

lemma find_str_first:
  assumes "find_str (c # p) a = None" "c \<notin> set p"
  shows "find_str (c # p) (a @ (c # p) @ s) = Some (length a)"
proof (rule find_str_at)
  fix j assume j: "j < length a"
  show "\<not> is_prefix (c # p) (drop j (a @ (c # p) @ s))"
  proof
    assume "is_prefix (c # p) (drop j (a @ (c # p) @ s))"
    then obtain zs where z: "drop j a @ (c # p) @ s = (c # p) @ zs" using j by (auto simp: is_prefix_eq)
    show False
    proof (cases "length (c # p) \<le> length (drop j a)")
      case True
      with arg_cong [OF z, of "take (length (c # p))"] have "take (length (c # p)) (drop j a) = c # p"
        by simp
      then have "is_prefix (c # p) (drop j a)" unfolding is_prefix_eq by (metis append_take_drop_id)
      with find_str_None [OF assms(1)] show False by blast
    next
      case False
      obtain d ds where d: "drop j a = d # ds" using j by (cases "drop j a") auto
      with z have "ds @ c # (p @ s) = p @ zs" by simp
      moreover have "length ds < length p" using False d by simp
      ultimately have "c = p ! length ds" by (metis nth_append nth_append_length)
      with \<open>length ds < length p\<close> assms(2) show False by (metis nth_mem)
    qed
  qed
qed (simp add: is_prefix_eq)

definition show_port :: "u8 \<Rightarrow> string" where
  "show_port p = ''#USB('' @ dec_digits (unat p) @ '')''"

lemma dec_digits_no_paren: "CHR '')'' \<notin> set (dec_digits n)"
proof (induction n rule: dec_digits.induct)
  case (1 n)
  have "char_of (48 + d) \<noteq> CHR '')''" if "d < 10" for d :: nat
  proof
    assume "char_of (48 + d) = CHR '')''"
    then have "(of_char (char_of (48 + d) :: char) :: nat) = of_char (CHR '')'')" by (rule arg_cong)
    with that show False by (simp add: of_char_of)
  qed
  from this [of n] this [of "n mod 10"] 1 show ?case by (subst dec_digits.simps) auto
qed

lemma parse_ports_show: "parse_ports (concat (map show_port ps)) = Some ps"
proof (induction ps)
  case Nil
  have "find_str ''#USB('' '''' = None" by code_simp
  then show ?case by (subst parse_ports.simps) (simp add: split_once_str_def)
next
  case (Cons p ps)
  let ?r = "concat (map show_port ps)"
  have f: "find_str ''#USB('' (''#USB('' @ t) = Some 0" for t by (subst find_str.simps) simp
  have g: "find_str '')'' (dec_digits (unat p) @ '')'' @ ?r) = Some (length (dec_digits (unat p)))"
    using find_char_at [OF dec_digits_no_paren, of "unat p" ?r] by simp
  have n: "from_str_radix 10 (dec_digits (unat p)) = Some p"
    using parse_printed [where 'w = 8, of 10 "unat p" 0] unat_u8_lt [of p]
    by (simp add: radix_digits_10 pad_zeros_def)
  have "concat (map show_port (p # ps)) = ''#USB('' @ dec_digits (unat p) @ '')'' @ ?r"
    by (simp add: show_port_def)
  then show ?case
    using f [of "dec_digits (unat p) @ '')'' @ ?r"] g n Cons
    by (subst parse_ports.simps) (simp add: split_once_str_def)
qed

text \<open>
  A location path names the bus and the ports: for every path that is a prefix, the root hub and
  the ports from there to the device, the bus is everything up to the root hub and the port chain is
  exactly these ports, however many there are.
\<close>

theorem location_path_roundtrip:
  assumes "os_to_str os = Some (pre @ ''#USBROOT('' @ root @ '')'' @ concat (map show_port ps))"
    "find_str ''#USBROOT('' pre = None" "CHR '')'' \<notin> set root"
  shows "parse_location_path os = Some (pre @ ''#USBROOT('' @ root @ '')'', ps)"
proof -
  let ?r = "concat (map show_port ps)"
  have f: "find_str ''#USBROOT('' (pre @ ''#USBROOT('' @ root @ '')'' @ ?r) = Some (length pre)"
    by (rule find_str_first) (use assms(2) in simp_all)
  have g: "find_str '')'' (root @ '')'' @ ?r) = Some (length root)"
    using find_char_at [OF assms(3), of ?r] by simp
  define u where "u = ''#USBROOT(''"
  let ?b = "pre @ u @ root @ '')''"
  have s: "os_to_str os = Some (?b @ ?r)" using assms(1) by (simp add: u_def)
  have f': "find_str u (?b @ ?r) = Some (length pre)" using f by (simp add: u_def)
  have d: "drop (length pre + length u) (?b @ ?r) = root @ '')'' @ ?r" by simp
  have i: "length pre + length u + length root + 1 = length ?b" by simp
  have "parse_location_path os = Some (?b, ps)"
    unfolding parse_location_path_def Let_def u_def [symmetric] s Option.bind.bind_lunit f' d g i
    by (simp add: parse_ports_show)
  then show ?thesis by (simp add: u_def)
qed

theorem location_path_roundtrip_witness:
  "parse_location_path (map of_char ''PCIROOT(0)#PCI(0201)#USBROOT(0)#USB(23)#USB(2)'') =
     Some (''PCIROOT(0)#PCI(0201)#USBROOT(0)'', [23, 2])"
proof -
  have s: "os_to_str (map of_char ''PCIROOT(0)#PCI(0201)#USBROOT(0)#USB(23)#USB(2)'') =
      Some (''PCIROOT(0)#PCI(0201)'' @ ''#USBROOT('' @ ''0'' @ '')'' @ concat (map show_port [23, 2]))"
    by code_simp
  have n: "find_str ''#USBROOT('' ''PCIROOT(0)#PCI(0201)'' = None" by code_simp
  from location_path_roundtrip [OF s n] show ?thesis by simp
qed

text \<open>The examples of the repository's own tests.\<close>

lemma hardware_id_examples:
  "parse_hardware_id (map of_char '''') = None"
  "parse_hardware_id (map of_char (''USB'' @ [CHR 0x5C] @ ''VID_1234&PID_5678&MI_0A'')) = Some 10"
  by code_simp+

end
