(* ===== verification/Windows_System.thy ===== *)
theory Windows_System
  imports Windows_Text
begin

text \<open>
  The wrappers of the Windows system calls that enumeration is made of: the device tree
  (src/src/platform/windows_winusb/cfgmgr32.rs), hubs (hub.rs) and error codes (mod.rs). The system
  itself is a parameter: the record \<open>winsys\<close> has one function per call.
\<close>

section \<open>The system\<close>

text \<open>The device properties that are asked for, and their values by type; a GUID by its name.\<close>

datatype DevPropKey =
    KeyInstanceId | KeyParent | KeyAddress | KeyService | KeyDeviceDesc | KeyBusReportedDeviceDesc
  | KeyHardwareIds | KeyLocationPaths

datatype DevProperty = PropU32 u32 | PropString "u16 list" | PropStringList "u16 list" | PropOther

datatype Guid = GUID_DEVINTERFACE_USB_DEVICE | GUID_DEVINTERFACE_USB_HUB | OtherGuid nat

text \<open>
  The result of one round of \<open>CM_Get_Device_Interface_List_SizeW\<close> and
  \<open>CM_Get_Device_Interface_ListW\<close>: the size, or that it failed; what was written, that the list has
  grown in between, or that it failed.
\<close>

datatype list_result = ListOk "u16 list" | ListBufferSmall | ListError

record connection_info =
  ci_status :: u32
  ci_device_descriptor :: bytes
  ci_speed :: u8
  ci_device_address :: u16
  ci_current_configuration :: u8

text \<open>
  \<open>ws_property\<close> is \<open>None\<close> unless \<open>CR_SUCCESS\<close>; \<open>ws_interface_list\<close> the rounds in order; a hub is its
  path; \<open>ws_hub_descriptor\<close> is the request for a descriptor by port, type, index, language and length,
  with the bytes of the request structure that came back.
\<close>

record winsys =
  ws_property :: "u32 \<Rightarrow> DevPropKey \<Rightarrow> DevProperty option"
  ws_interface_property :: "u16 list \<Rightarrow> DevPropKey \<Rightarrow> DevProperty option"
  ws_locate :: "u16 list \<Rightarrow> u32 option"
  ws_parent :: "u32 \<Rightarrow> u32 option"
  ws_child :: "u32 \<Rightarrow> u32 option"
  ws_sibling :: "u32 \<Rightarrow> u32 option"
  ws_interface_list :: "Guid \<Rightarrow> u16 list option \<Rightarrow> (u32 option \<times> list_result) list"
  ws_registry :: "u32 \<Rightarrow> (string \<Rightarrow> nusb_error + Guid) option"
  ws_create_file :: "u16 list \<Rightarrow> u32 + unit"
  ws_hub_connection :: "u16 list \<Rightarrow> u32 \<Rightarrow> u32 + connection_info"
  ws_hub_connection_v2 :: "u16 list \<Rightarrow> u32 \<Rightarrow> u32 + u32"
  ws_hub_descriptor :: "u16 list \<Rightarrow> u32 \<Rightarrow> u8 \<Rightarrow> u8 \<Rightarrow> u16 \<Rightarrow> nat \<Rightarrow> u32 + bytes"

text \<open>\<open>Error::new_os\<close> and the printer of error codes\<close>

definition windows_error_new_os :: "ErrorKind \<Rightarrow> string \<Rightarrow> u32 \<Rightarrow> nusb_error" where
  "windows_error_new_os k m code = \<lparr>err_kind = k, err_code = nonzero_u32 code, err_message = m\<rparr>"

definition windows_format_os_error_code :: "u32 \<Rightarrow> string" where
  "windows_format_os_error_code code = ''error '' @ dec_digits (unat code)"

section \<open>Properties\<close>

text \<open>\<open>?\<close> on an \<open>Option\<close> inside of a function that may panic.\<close>

definition otry :: "'a option outcome \<Rightarrow> ('a \<Rightarrow> 'b option outcome) \<Rightarrow> 'b option outcome" where
  "otry m f = obind m (\<lambda>r. case r of None \<Rightarrow> Ret None | Some x \<Rightarrow> f x)"

text \<open>The buffer of 1024 units, all zero before the call; what does not fit is refused by the system.\<close>

definition filled_buffer :: "u16 list \<Rightarrow> u16 list option" where
  "filled_buffer data =
     (if length data \<le> 1024 then Some (data @ replicate (1024 - length data) 0) else None)"

definition property_u32 :: "DevProperty option \<Rightarrow> u32 option" where
  "property_u32 r = (case r of Some (PropU32 n) \<Rightarrow> Some n | _ \<Rightarrow> None)"

definition property_wcstring :: "DevProperty option \<Rightarrow> u16 list option outcome" where
  "property_wcstring r =
     (case r of
        Some (PropString data) \<Rightarrow>
          (case filled_buffer data of
             None \<Rightarrow> Ret None
           | Some b \<Rightarrow> omap Some (wc_from_slice_until_nul b))
      | _ \<Rightarrow> Ret None)"

definition property_os_string :: "DevProperty option \<Rightarrow> os_string option outcome" where
  "property_os_string r = otry (property_wcstring r) (\<lambda>s. omap Some (os_from_wc s))"

definition property_os_strings :: "DevProperty option \<Rightarrow> os_string list option outcome" where
  "property_os_strings r =
     (case r of
        Some (PropStringList data) \<Rightarrow>
          (case filled_buffer data of
             None \<Rightarrow> Ret None
           | Some b \<Rightarrow> omap Some (obind (nul_sep_list b) (omap_list os_from_wc)))
      | _ \<Rightarrow> Ret None)"

definition get_property_os_string :: "winsys \<Rightarrow> u32 \<Rightarrow> DevPropKey \<Rightarrow> os_string option outcome" where
  "get_property_os_string W d k = property_os_string (ws_property W d k)"

definition instance_id :: "winsys \<Rightarrow> u32 \<Rightarrow> u16 list outcome" where
  "instance_id W d = obind (property_wcstring (ws_property W d KeyInstanceId)) unwrap"

section \<open>The device tree\<close>

text \<open>The siblings from the first child on; the tree is walked for at most \<open>n\<close> nodes.\<close>

fun walk_siblings :: "nat \<Rightarrow> winsys \<Rightarrow> u32 option \<Rightarrow> u32 list outcome" where
  "walk_siblings n W None = Ret []"
| "walk_siblings 0 W (Some d) = Diverge"
| "walk_siblings (Suc n) W (Some d) = omap (\<lambda>ds. d # ds) (walk_siblings n W (ws_sibling W d))"

definition devinst_children :: "nat \<Rightarrow> winsys \<Rightarrow> u32 \<Rightarrow> u32 list outcome" where
  "devinst_children n W d = walk_siblings n W (ws_child W d)"

text \<open>\<open>list_interfaces\<close>: \<open>buf.resize\<close>, then the system writes into the buffer.\<close>

definition resize :: "u16 list \<Rightarrow> nat \<Rightarrow> u16 list" where
  "resize buf n = take n buf @ replicate (n - length buf) 0"

fun interface_list_loop :: "u16 list \<Rightarrow> (u32 option \<times> list_result) list \<Rightarrow> u16 list outcome" where
  "interface_list_loop buf [] = Diverge"
| "interface_list_loop buf ((None, r) # rs) = Ret []"
| "interface_list_loop buf ((Some len, ListOk data) # rs) =
     (let b = resize buf (unat len)
      in if length data \<le> length b then Ret (data @ drop (length data) b) else UB)"
| "interface_list_loop buf ((Some len, ListBufferSmall) # rs) =
     interface_list_loop (resize buf (unat len)) rs"
| "interface_list_loop buf ((Some len, ListError) # rs) = Ret []"

definition list_interfaces :: "winsys \<Rightarrow> Guid \<Rightarrow> u16 list option \<Rightarrow> u16 list list outcome" where
  "list_interfaces W guid iid =
     obind (interface_list_loop [] (ws_interface_list W guid iid)) nul_sep_list"

definition devinst_interfaces :: "winsys \<Rightarrow> u32 \<Rightarrow> Guid \<Rightarrow> u16 list list outcome" where
  "devinst_interfaces W d guid = obind (instance_id W d) (\<lambda>iid. list_interfaces W guid (Some iid))"

section \<open>Hubs\<close>

definition DeviceConnected :: u32 where "DeviceConnected = 1"
definition ERROR_GEN_FAILURE :: u32 where "ERROR_GEN_FAILURE = 31"

record HubPort =
  hp_path :: "u16 list"
  hp_port_number :: u32

record HubDeviceInfo =
  hd_device_desc :: bytes
  hd_speed :: "Speed option"
  hd_address :: u8
  hd_active_config :: u8

definition hub_by_devinst :: "winsys \<Rightarrow> u32 \<Rightarrow> u16 list option outcome" where
  "hub_by_devinst W d =
     obind (devinst_interfaces W d GUID_DEVINTERFACE_USB_HUB) (\<lambda>paths.
       case paths of
         [] \<Rightarrow> Ret None
       | path # _ \<Rightarrow> Ret (case ws_create_file W path of Inl e \<Rightarrow> None | Inr u \<Rightarrow> Some path))"

definition hub_port_by_child_devinst :: "winsys \<Rightarrow> u32 \<Rightarrow> (nusb_error + HubPort) outcome" where
  "hub_port_by_child_devinst W d =
     (case ws_parent W d of
        None \<Rightarrow> Ret (Inl (error_new KDisconnected ''failed to find parent hub''))
      | Some parent_hub \<Rightarrow>
          obind (hub_by_devinst W parent_hub) (\<lambda>h. Ret
            (case h of
               None \<Rightarrow> Inl (error_new KDisconnected ''failed to open parent hub'')
             | Some path \<Rightarrow>
                 (case property_u32 (ws_property W d KeyAddress) of
                    None \<Rightarrow> Inl (error_new KDisconnected ''Could not find hub port number'')
                  | Some n \<Rightarrow> Inr \<lparr>hp_path = path, hp_port_number = n\<rparr>))))"

definition get_node_connection_info :: "winsys \<Rightarrow> HubPort \<Rightarrow> (nusb_error + connection_info) outcome" where
  "get_node_connection_info W p =
     (case ws_hub_connection W (hp_path p) (hp_port_number p) of
        Inl e \<Rightarrow> Ret (Inl (windows_error_new_os KOther ''hub DeviceIoControl failed'' e))
      | Inr info \<Rightarrow>
          if ci_status info \<noteq> DeviceConnected then Ret (Inl (error_new KDisconnected ''device disconnected''))
          else
            obind (index (ci_device_descriptor info) 1) (\<lambda>ty. Ret
              (if ty \<noteq> DESCRIPTOR_TYPE_DEVICE
               then Inl (error_new KOther
                 ''IOCTL_USB_GET_NODE_CONNECTION_INFORMATION_EX returned an invalid device descriptor'')
               else Inr info)))"

definition get_node_connection_info_v2 :: "winsys \<Rightarrow> HubPort \<Rightarrow> nusb_error + u32" where
  "get_node_connection_info_v2 W p =
     (case ws_hub_connection_v2 W (hp_path p) (hp_port_number p) of
        Inl e \<Rightarrow> Inl (windows_error_new_os KOther ''hub DeviceIoControl failed'' e)
      | Inr flags \<Rightarrow> Inr flags)"

text \<open>The flags of the second structure, then the speed of the first.\<close>

definition SUPER_PLUS :: u32 where "SUPER_PLUS = 0x04 OR 0x08"
definition SUPER :: u32 where "SUPER = 0x01 OR 0x02"

definition hub_speed :: "u8 \<Rightarrow> u32 \<Rightarrow> Speed option" where
  "hub_speed speed v2_flags =
     (if v2_flags AND SUPER_PLUS = SUPER_PLUS then Some SuperPlus
      else if v2_flags AND SUPER = SUPER then Some Super
      else if speed = 2 then Some High
      else if speed = 1 then Some Full
      else if speed = 0 then Some Low
      else None)"

definition hub_get_info :: "winsys \<Rightarrow> HubPort \<Rightarrow> (nusb_error + HubDeviceInfo) outcome" where
  "hub_get_info W p =
     obind (get_node_connection_info W p) (\<lambda>r. Ret
       (case r of
          Inl e \<Rightarrow> Inl e
        | Inr info \<Rightarrow>
            (case get_node_connection_info_v2 W p of
               Inl e \<Rightarrow> Inl e
             | Inr v2_flags \<Rightarrow>
                 Inr \<lparr>hd_device_desc = ci_device_descriptor info,
                      hd_speed = hub_speed (ci_speed info) v2_flags,
                      hd_address = ucast (ci_device_address info),
                      hd_active_config = ci_current_configuration info\<rparr>)))"

text \<open>
  The structure that comes back has 12 bytes in front of the descriptor; a shorter one would give the
  slice a length below zero.
\<close>

definition hub_get_descriptor ::
  "winsys \<Rightarrow> HubPort \<Rightarrow> u8 \<Rightarrow> u8 \<Rightarrow> u16 \<Rightarrow> (nusb_error + bytes) outcome" where
  "hub_get_descriptor W p ty ix lang =
     (let len = 4095 in
      case ws_hub_descriptor W (hp_path p) (hp_port_number p) ty ix lang len of
        Inr req \<Rightarrow> if length req < 12 then UB else Ret (Inr (drop 12 req))
      | Inl err \<Rightarrow>
          Ret (Inl
            (if err = ERROR_GEN_FAILURE
             then windows_error_new_os KOther ''descriptor request failed: device might be suspended.'' err
             else windows_error_new_os KOther ''descriptor request failed'' err)))"

section \<open>Lemmas\<close>

text \<open>A property that fits its buffer and ends in it is read as the system stored it.\<close>

lemma wc_until_nul_string:
  "0 \<notin> set s \<Longrightarrow> wc_from_slice_until_nul (s @ 0 # t) = Ret (wc_from_os s)"
proof -
  assume "0 \<notin> set s"
  then have "position (\<lambda>x. x = 0) (s @ 0 # t) = Some (length s)" by (intro position_append) auto
  then show ?thesis
    by (simp add: wc_from_slice_until_nul_def wc_from_slice_unchecked_def wc_from_os_def)
qed

lemma os_from_wc_string [simp]: "os_from_wc (wc_from_os s) = Ret s"
  by (simp add: os_from_wc_def wc_from_os_def)

lemma filled_buffer_zero:
  "length data < 1024 \<Longrightarrow> filled_buffer data = Some (data @ 0 # replicate (1023 - length data) 0)"
  by (simp add: filled_buffer_def replicate_Suc [symmetric] Suc_diff_Suc del: replicate_Suc)

lemma property_string_read:
  assumes "0 \<notin> set s" "length s < 1024"
  shows "property_wcstring (Some (PropString (wc_from_os s))) = Ret (Some (wc_from_os s))"
    "property_os_string (Some (PropString (wc_from_os s))) = Ret (Some s)"
proof -
  have "filled_buffer (wc_from_os s) = Some (s @ 0 # replicate (1023 - length s) 0)"
    using assms(2) by (simp add: filled_buffer_def wc_from_os_def)
  then show "property_wcstring (Some (PropString (wc_from_os s))) = Ret (Some (wc_from_os s))"
    using assms(1) by (simp add: property_wcstring_def wc_until_nul_string)
  then show "property_os_string (Some (PropString (wc_from_os s))) = Ret (Some s)"
    by (simp add: property_os_string_def otry_def)
qed

lemma nul_sep_list_zero: "nul_sep_list (0 # xs) = Ret []"
  by (subst nul_sep_list.simps) (simp add: nul_sep_next_def)

lemma os_list_from_wc: "omap_list os_from_wc (map wc_from_os ss) = Ret ss"
  by (induction ss) auto

lemma property_strings_read:
  assumes "list_all plain_wide ss" "length (concat (map wc_from_os ss)) < 1024"
  shows "property_os_strings (Some (PropStringList (concat (map wc_from_os ss)))) = Ret (Some ss)"
  using assms(1)
  by (simp add: property_os_strings_def filled_buffer_zero [OF assms(2)] nul_sep_list_read
      nul_sep_list_zero os_list_from_wc)

text \<open>The walk over the children of a node sees all of them when the tree is finite.\<close>

fun sibling_chain :: "winsys \<Rightarrow> u32 option \<Rightarrow> u32 list \<Rightarrow> bool" where
  "sibling_chain W r [] \<longleftrightarrow> r = None"
| "sibling_chain W r (d # ds) \<longleftrightarrow> r = Some d \<and> sibling_chain W (ws_sibling W d) ds"

lemma walk_siblings_chain: "sibling_chain W r ds \<Longrightarrow> length ds \<le> n \<Longrightarrow> walk_siblings n W r = Ret ds"
proof (induction ds arbitrary: n r)
  case (Cons d ds)
  then obtain m where "n = Suc m" by (cases n) auto
  with Cons show ?case by auto
qed (cases n; simp)

end
