(* ===== verification/Windows_Enumeration.thy ===== *)
theory Windows_Enumeration
  imports Windows_System
begin

text \<open>
  src/src/platform/windows_winusb/enumeration.rs: probing devices and buses in the device tree,
  and finding the path to open for an interface. The number \<open>n\<close> bounds the walk over the children of
  a node.
\<close>

section \<open>Data\<close>

record WindowsDeviceInfo = DeviceInfo +
  di_instance_id :: os_string
  di_location_paths :: "os_string list"
  di_parent_instance_id :: os_string
  di_port_number :: u32
  di_devinst :: u32
  di_driver :: "string option"

record WindowsBusInfo = BusInfo +
  bi_instance_id :: os_string
  bi_location_paths :: "os_string list"
  bi_devinst :: u32
  bi_root_hub_description :: string
  bi_parent_instance_id :: os_string

section \<open>Nodes of the device tree\<close>

definition get_driver_name :: "winsys \<Rightarrow> u32 \<Rightarrow> string outcome" where
  "get_driver_name W d =
     obind (get_property_os_string W d KeyService) (\<lambda>s. Ret
       (case Option.bind s os_to_str of None \<Rightarrow> [] | Some t \<Rightarrow> t))"

fun find_map :: "('a \<Rightarrow> 'b option) \<Rightarrow> 'a list \<Rightarrow> 'b option" where
  "find_map f [] = None"
| "find_map f (x # xs) = (case f x of None \<Rightarrow> find_map f xs | Some y \<Rightarrow> Some y)"

definition get_interface_number :: "winsys \<Rightarrow> u32 \<Rightarrow> u8 option outcome" where
  "get_interface_number W d =
     obind (property_os_strings (ws_property W d KeyHardwareIds)) (\<lambda>hw_ids. Ret
       (find_map parse_hardware_id (case hw_ids of None \<Rightarrow> [] | Some ids \<Rightarrow> ids)))"

text \<open>\<open>filter_map\<close> with a function that may panic.\<close>

fun ofilter_map :: "('a \<Rightarrow> 'b option outcome) \<Rightarrow> 'a list \<Rightarrow> 'b list outcome" where
  "ofilter_map f [] = Ret []"
| "ofilter_map f (x # xs) =
     obind (f x) (\<lambda>r. omap (case r of None \<Rightarrow> (\<lambda>ys. ys) | Some y \<Rightarrow> (\<lambda>ys. y # ys)) (ofilter_map f xs))"

text \<open>\<open>max_by_key\<close>: the last one of the greatest.\<close>

fun max_by_key :: "('a \<Rightarrow> 'k::linorder) \<Rightarrow> 'a list \<Rightarrow> 'a option" where
  "max_by_key k [] = None"
| "max_by_key k (x # xs) =
     (case max_by_key k xs of
        None \<Rightarrow> Some x
      | Some y \<Rightarrow> if k x \<le> k y then Some y else Some x)"

definition find_usbccgp_child :: "nat \<Rightarrow> winsys \<Rightarrow> u32 \<Rightarrow> u8 \<Rightarrow> (u8 \<times> u32) option outcome" where
  "find_usbccgp_child n W d interface =
     obind (devinst_children n W d) (\<lambda>ds.
     obind (ofilter_map (\<lambda>child. otry (get_interface_number W child) (\<lambda>i. Ret (Some (i, child)))) ds) (\<lambda>xs.
       Ret (max_by_key fst (filter (\<lambda>(i, _). i \<le> interface) xs))))"

section \<open>Paths to open\<close>

definition get_winusb_device_path :: "winsys \<Rightarrow> u32 \<Rightarrow> (nusb_error + u16 list) outcome" where
  "get_winusb_device_path W d =
     obind (devinst_interfaces W d GUID_DEVINTERFACE_USB_DEVICE) (\<lambda>paths. Ret
       (case paths of
          [] \<Rightarrow> Inl (error_new KOther ''failed to find device path for WinUSB device'')
        | path # _ \<Rightarrow> Inr path))"

definition get_usbccgp_winusb_device_path :: "winsys \<Rightarrow> u32 \<Rightarrow> (nusb_error + u16 list) outcome" where
  "get_usbccgp_winusb_device_path W child =
     obind (get_property_os_string W child KeyService) (\<lambda>r.
       case r of
         None \<Rightarrow> Ret (Inl (error_new KUnsupported ''could not determine driver for interface''))
       | Some driver \<Rightarrow>
           if \<not> os_eq_ignore_ascii_case driver ''winusb''
           then Ret (Inl (error_new KUnsupported ''incompatible driver is installed for this interface''))
           else
             obind (unwrap (ws_registry W child)) (\<lambda>reg_key.
               let missing = error_new KUnsupported
                 ''Could not find DeviceInterfaceGUIDs in registry. WinUSB driver may not be correctly installed for this interface.'' in
               case (case reg_key ''DeviceInterfaceGUIDs'' of
                       Inr s \<Rightarrow> Inr s
                     | Inl e \<Rightarrow> (case reg_key ''DeviceInterfaceGUID'' of Inr s \<Rightarrow> Inr s | Inl f \<Rightarrow> Inl missing)) of
                 Inl e \<Rightarrow> Ret (Inl e)
               | Inr guid \<Rightarrow>
                   obind (devinst_interfaces W child guid) (\<lambda>paths. Ret
                     (case paths of
                        [] \<Rightarrow> Inl (error_new KUnsupported ''failed to find device path for WinUSB interface'')
                      | path # _ \<Rightarrow> Inr path))))"

section \<open>Probing\<close>

definition ROOT_HUB_PREFIX :: string where
  "ROOT_HUB_PREFIX = ''USB'' @ [CHR 0x5C] @ ''ROOT_HUB''"

definition list_interfaces_from_desc :: "winsys \<Rightarrow> HubPort \<Rightarrow> u8 \<Rightarrow> InterfaceInfo list option outcome" where
  "list_interfaces_from_desc W p active_config =
     obind (hub_get_descriptor W p DESCRIPTOR_TYPE_CONFIGURATION
              (if active_config = 0 then 0 else active_config - 1) 0) (\<lambda>r.
       case r of
         Inl e \<Rightarrow> Ret None
       | Inr buf \<Rightarrow>
           (case config_new buf of
              None \<Rightarrow> Ret None
            | Some desc \<Rightarrow>
                obind (config_configuration_value desc) (\<lambda>v.
                  if v \<noteq> active_config then Ret None
                  else
                    obind (config_interfaces desc) (\<lambda>is.
                      omap Some (omap_list (\<lambda>i.
                        obind (ids_first_alt_setting i) (\<lambda>i_desc.
                        obind (interface_class i_desc) (\<lambda>cl.
                        obind (interface_subclass i_desc) (\<lambda>sub.
                        obind (interface_protocol i_desc) (\<lambda>proto.
                          Ret \<lparr>ii_interface_number = ids_interface_number i, ii_class = cl,
                               ii_subclass = sub, ii_protocol = proto,
                               ii_interface_string = None\<rparr>)))))
                        is)))))"

text \<open>\<open>iter_mut().find\<close> on the interface number, then the assignment.\<close>

fun set_interface_string :: "u8 \<Rightarrow> os_string \<Rightarrow> InterfaceInfo list \<Rightarrow> InterfaceInfo list" where
  "set_interface_string num s [] = []"
| "set_interface_string num s (i # is) =
     (if ii_interface_number i = num then i\<lparr>ii_interface_string := os_to_str s\<rparr> # is
      else i # set_interface_string num s is)"

definition interface_strings :: "nat \<Rightarrow> winsys \<Rightarrow> u32 \<Rightarrow> (u8 \<times> os_string) list outcome" where
  "interface_strings n W d =
     obind (devinst_children n W d)
       (ofilter_map (\<lambda>intf.
          otry (get_interface_number W intf) (\<lambda>num.
          otry (get_property_os_string W intf KeyBusReportedDeviceDesc) (\<lambda>s. Ret (Some (num, s))))))"

definition device_serial_number :: "winsys \<Rightarrow> HubPort \<Rightarrow> u8 \<Rightarrow> string option outcome" where
  "device_serial_number W p ix =
     (if ix = 0 then Ret None
      else
        obind (hub_get_descriptor W p DESCRIPTOR_TYPE_STRING ix US_ENGLISH) (\<lambda>r.
          case r of
            Inl e \<Rightarrow> Ret None
          | Inr data \<Rightarrow>
              omap (map_option (\<lambda>cs. concat (map utf8_of cs))) (decode_string_descriptor data)))"

text \<open>\<open>find_map\<close> over the location paths, then \<open>unwrap_or_default\<close>.\<close>

definition bus_and_ports :: "os_string list \<Rightarrow> string \<times> bytes" where
  "bus_and_ports location_paths =
     (case find_map parse_location_path location_paths of None \<Rightarrow> ([], []) | Some r \<Rightarrow> r)"

definition windows_probe_device :: "nat \<Rightarrow> winsys \<Rightarrow> u32 \<Rightarrow> WindowsDeviceInfo option outcome" where
  "windows_probe_device n W d =
     otry (get_property_os_string W d KeyInstanceId) (\<lambda>iid.
       if is_prefix ROOT_HUB_PREFIX (os_to_string_lossy iid) then Ret None
       else
         otry (get_property_os_string W d KeyParent) (\<lambda>parent_iid.
         otry (Ret (property_u32 (ws_property W d KeyAddress))) (\<lambda>port_number.
         otry (omap (case_sum (\<lambda>e. None) Some) (hub_port_by_child_devinst W d)) (\<lambda>hub_port.
         otry (omap (case_sum (\<lambda>e. None) Some) (hub_get_info W hub_port)) (\<lambda>info.
         let desc = hd_device_desc info in
         obind (get_property_os_string W d KeyBusReportedDeviceDesc) (\<lambda>product.
         obind (index desc 16) (\<lambda>serial_ix.
         obind (device_serial_number W hub_port serial_ix) (\<lambda>serial.
         obind (get_driver_name W d) (\<lambda>driver.
         obind (list_interfaces_from_desc W hub_port (hd_active_config info)) (\<lambda>ifs.
         obind (if eq_ignore_ascii_case driver ''usbccgp'' then interface_strings n W d else Ret []) (\<lambda>strs.
         obind (property_os_strings (ws_property W d KeyLocationPaths)) (\<lambda>lps.
         obind (device_vendor_id desc) (\<lambda>vid.
         obind (device_product_id desc) (\<lambda>pid.
         obind (device_device_version desc) (\<lambda>dver.
         obind (device_usb_version desc) (\<lambda>uver.
         obind (device_class desc) (\<lambda>cl.
         obind (device_subclass desc) (\<lambda>sub.
         obind (device_protocol desc) (\<lambda>proto.
         let location_paths = (case lps of None \<Rightarrow> [] | Some l \<Rightarrow> l) in
         Ret (Some
           \<lparr>di_bus_id = fst (bus_and_ports location_paths), di_device_address = hd_address info,
            di_port_chain = snd (bus_and_ports location_paths), di_vendor_id = vid,
            di_product_id = pid, di_device_version = dver, di_usb_version = uver, di_class = cl,
            di_subclass = sub, di_protocol = proto, di_speed = hd_speed info,
            di_manufacturer_string = None, di_product_string = Option.bind product os_to_str,
            di_serial_number = serial,
            di_interfaces = fold (\<lambda>(num, s). set_interface_string num s) strs
              (case ifs of None \<Rightarrow> [] | Some l \<Rightarrow> l),
            di_instance_id = iid, di_location_paths = location_paths,
            di_parent_instance_id = parent_iid, di_port_number = port_number, di_devinst = d,
            di_driver = (if driver = [] then None else Some driver)\<rparr>))))))))))))))))))))"

definition windows_probe_bus :: "winsys \<Rightarrow> u32 \<Rightarrow> WindowsBusInfo option outcome" where
  "windows_probe_bus W d =
     otry (get_property_os_string W d KeyInstanceId) (\<lambda>iid.
       if \<not> is_prefix ROOT_HUB_PREFIX (os_to_string_lossy iid) then Ret None
       else
         otry (property_wcstring (ws_property W d KeyParent)) (\<lambda>parent_iid.
         otry (Ret (ws_locate W parent_iid)) (\<lambda>parent.
         obind (get_property_os_string W parent KeyService) (\<lambda>service.
         otry (get_property_os_string W d KeyDeviceDesc) (\<lambda>description.
         obind (get_driver_name W d) (\<lambda>driver.
         obind (property_os_strings (ws_property W d KeyLocationPaths)) (\<lambda>lps.
         obind (os_from_wc parent_iid) (\<lambda>parent_os.
         let location_paths = (case lps of None \<Rightarrow> [] | Some l \<Rightarrow> l) in
         Ret (Some
           \<lparr>bi_driver = (if driver = [] then None else Some driver),
            bi_bus_id = fst (bus_and_ports location_paths),
            bi_controller_type = Option.bind service (\<lambda>s. controller_from_str (os_to_string_lossy s)),
            bi_instance_id = iid, bi_location_paths = location_paths, bi_devinst = d,
            bi_root_hub_description = os_to_string_lossy description,
            bi_parent_instance_id = parent_os\<rparr>)))))))))"

definition interface_devinst :: "winsys \<Rightarrow> u16 list \<Rightarrow> u32 option outcome" where
  "interface_devinst W i =
     otry (property_wcstring (ws_interface_property W i KeyInstanceId)) (\<lambda>iid. Ret (ws_locate W iid))"

definition windows_list_devices :: "nat \<Rightarrow> winsys \<Rightarrow> WindowsDeviceInfo list outcome" where
  "windows_list_devices n W =
     obind (list_interfaces W GUID_DEVINTERFACE_USB_DEVICE None) (\<lambda>devices.
     obind (list_interfaces W GUID_DEVINTERFACE_USB_HUB None) (\<lambda>hubs.
       ofilter_map (\<lambda>i. otry (interface_devinst W i) (windows_probe_device n W)) (devices @ hubs)))"

definition windows_list_buses :: "winsys \<Rightarrow> WindowsBusInfo list outcome" where
  "windows_list_buses W =
     obind (list_interfaces W GUID_DEVINTERFACE_USB_HUB None) (\<lambda>hubs.
       ofilter_map (\<lambda>i. otry (interface_devinst W i) (windows_probe_bus W)) hubs)"

section \<open>The child of an interface\<close>

lemma max_by_key_Some:
  "max_by_key k xs = Some x \<Longrightarrow> x \<in> set xs \<and> (\<forall>y \<in> set xs. k y \<le> k x)"
proof (induction xs arbitrary: x)
  case (Cons y ys)
  show ?case
  proof (cases "max_by_key k ys")
    case None
    then have "ys = []" by (cases ys) (auto split: option.splits if_splits)
    with Cons.prems show ?thesis by simp
  next
    case (Some z)
    with Cons.IH have z: "z \<in> set ys" "\<forall>w \<in> set ys. k w \<le> k z" by auto
    show ?thesis
    proof (cases "k y \<le> k z")
      case True
      with Cons.prems Some z show ?thesis by auto
    next
      case False
      then have "k z \<le> k y" by simp
      with Cons.prems Some z False show ?thesis by (auto intro: order_trans)
    qed
  qed
qed simp

lemma max_by_key_None: "max_by_key k xs = None \<longleftrightarrow> xs = []"
  by (cases xs) (auto split: option.splits)

text \<open>The interface numbers of the children, as far as their hardware IDs give one.\<close>

lemma ofilter_map_Ret:
  "(\<And>x. x \<in> set xs \<Longrightarrow> f x = Ret (g x)) \<Longrightarrow> ofilter_map f xs = Ret (List.map_filter g xs)"
  by (induction xs) (auto simp: List.map_filter_simps split: option.splits)

text \<open>
  The child device of an interface: with a finite device tree, a claim looks for the child with
  the highest interface number that is not above the interface, and finds one whenever there is one.
  So the first interface of the file that is opened is never above the interface to be claimed.
\<close>

theorem usbccgp_child_highest:
  assumes "sibling_chain W (ws_child W d) ds" "length ds \<le> n"
    "\<And>c. c \<in> set ds \<Longrightarrow> get_interface_number W c = Ret (num c)"
  shows "\<exists>r. find_usbccgp_child n W d i = Ret r \<and>
    (case r of
       None \<Rightarrow> \<forall>c \<in> set ds. \<forall>k. num c = Some k \<longrightarrow> i < k
     | Some (k, c) \<Rightarrow>
         c \<in> set ds \<and> num c = Some k \<and> k \<le> i \<and>
         (\<forall>c' \<in> set ds. \<forall>k'. num c' = Some k' \<longrightarrow> k' \<le> i \<longrightarrow> k' \<le> k))"
proof -
  let ?g = "\<lambda>c. map_option (\<lambda>k. (k, c)) (num c)"
  let ?xs = "filter (\<lambda>(k, _). k \<le> i) (List.map_filter ?g ds)"
  have g: "otry (get_interface_number W c) (\<lambda>i. Ret (Some (i, c))) = Ret (?g c)" if "c \<in> set ds" for c
    using assms(3) [OF that] by (simp add: otry_def split: option.split)
  have "ofilter_map (\<lambda>c. otry (get_interface_number W c) (\<lambda>i. Ret (Some (i, c)))) ds =
      Ret (List.map_filter ?g ds)"
    by (rule ofilter_map_Ret [OF g])
  with walk_siblings_chain [OF assms(1,2)]
  have f: "find_usbccgp_child n W d i = Ret (max_by_key fst ?xs)"
    by (simp add: find_usbccgp_child_def devinst_children_def)
  have mem: "(k, c) \<in> set ?xs \<longleftrightarrow> c \<in> set ds \<and> num c = Some k \<and> k \<le> i" for k c
    by (auto simp: map_filter_def image_iff)
  show ?thesis
  proof (cases "max_by_key fst ?xs")
    case None
    then have "set ?xs = {}" by (simp add: max_by_key_None)
    then have "\<not> k \<le> i" if "c \<in> set ds" "num c = Some k" for c k
      using mem [of k c] that by auto
    with f None show ?thesis by (auto simp: not_le)
  next
    case (Some x)
    obtain k c where x: "x = (k, c)" by (cases x)
    from max_by_key_Some [OF Some] have m: "(k, c) \<in> set ?xs" "\<And>y. y \<in> set ?xs \<Longrightarrow> fst y \<le> k"
      by (auto simp: x)
    have "k' \<le> k" if "c' \<in> set ds" "num c' = Some k'" "k' \<le> i" for c' k'
      using m(2) [of "(k', c')"] mem [of k' c'] that by simp
    with f Some x mem [of k c] m(1) show ?thesis by auto
  qed
qed

text \<open>A composite device with the functions 0 and 2; interface 3 belongs to the second one.\<close>

definition composite_system :: winsys where
  "composite_system =
     \<lparr>ws_property = (\<lambda>d k. if k = KeyHardwareIds
        then Some (PropStringList (wc_from_os (map of_char
          (if d = 11 then ''USB_MI&MI_00'' else ''USB_MI&MI_02''))))
        else None),
      ws_interface_property = (\<lambda>i k. None), ws_locate = (\<lambda>i. None),
      ws_parent = (\<lambda>d. None), ws_child = (\<lambda>d. if d = 10 then Some 11 else None),
      ws_sibling = (\<lambda>d. if d = 11 then Some 12 else None),
      ws_interface_list = (\<lambda>g i. []), ws_registry = (\<lambda>d. None),
      ws_create_file = (\<lambda>p. Inl 2), ws_hub_connection = (\<lambda>p n. Inl 2),
      ws_hub_connection_v2 = (\<lambda>p n. Inl 2), ws_hub_descriptor = (\<lambda>p n t i l len. Inl 2)\<rparr>"

theorem usbccgp_child_highest_witness:
  "find_usbccgp_child 5 composite_system 10 3 = Ret (Some (2, 12))"
proof -
  have chain: "sibling_chain composite_system (ws_child composite_system 10) [11, 12]"
    by (simp add: composite_system_def)
  have num: "get_interface_number composite_system c = Ret (Some (if c = 11 then 0 else 2))"
    if "c \<in> set [11, 12]" for c
  proof -
    have "get_interface_number composite_system 11 = Ret (Some 0)"
      "get_interface_number composite_system 12 = Ret (Some 2)" by code_simp+
    with that show ?thesis by auto
  qed
  from usbccgp_child_highest [OF chain _ num, of 5 3] obtain r where
    r: "find_usbccgp_child 5 composite_system 10 3 = Ret r"
      "case r of
         None \<Rightarrow> \<forall>c \<in> set [11, 12 :: u32]. \<forall>k. Some (if c = 11 then 0 else 2 :: u8) = Some k \<longrightarrow> 3 < k
       | Some (k, c) \<Rightarrow>
           c \<in> set [11, 12] \<and> Some (if c = 11 then 0 else 2) = Some k \<and> k \<le> 3 \<and>
           (\<forall>c' \<in> set [11, 12 :: u32]. \<forall>k'. Some (if c' = 11 then 0 else 2) = Some k' \<longrightarrow> k' \<le> 3 \<longrightarrow> k' \<le> k)"
    by auto
  then show ?thesis by (cases r) (auto split: if_splits)
qed

end
