(* ===== verification/Windows_Device.thy ===== *)
theory Windows_Device
  imports Windows_Enumeration Bitset
begin

text \<open>
  Devices and interfaces of the Windows backend: \<open>WindowsDevice\<close>, \<open>WinusbFileHandle\<close> and
  \<open>WindowsInterface\<close> of src/src/platform/windows_winusb/device.rs. One file handle is shared by all
  interfaces of a function of the device; it is opened with the first claim and closed when the last
  interface is dropped. The mutex around \<open>handles\<close> makes each claim and each drop one step.
\<close>

section \<open>WinUSB\<close>

text \<open>
  The calls that use or make handles, with a handle as a number. A call gives \<open>Inl\<close> of
  \<open>GetLastError\<close> when it fails, else a handle or 0.
\<close>

datatype pipe_policy = PIPE_TRANSFER_TIMEOUT u32 | RAW_IO u8

datatype win_call =
    CreateFileW "u16 list"
  | CloseHandle nat
  | CreateThreadpoolIo nat
  | CloseThreadpoolIo nat
  | WinUsb_Initialize nat
  | WinUsb_GetAssociatedInterface nat u8
  | WinUsb_Free nat
  | WinUsb_SetPipePolicy nat u8 pipe_policy
  | WinUsb_SetCurrentAlternateSetting nat u8
  | WinUsb_ResetPipe nat u8

type_synonym 'k windows = "win_call \<Rightarrow> 'k \<Rightarrow> (u32 + nat) \<times> 'k"

definition ERROR_NO_MORE_ITEMS :: u32 where "ERROR_NO_MORE_ITEMS = 259"
definition ERROR_NOT_FOUND :: u32 where "ERROR_NOT_FOUND = 1168"
definition ERROR_BAD_COMMAND :: u32 where "ERROR_BAD_COMMAND = 22"

section \<open>Data\<close>

record WinusbFileHandle =
  fh_first_interface :: u8
  fh_handle :: nat
  fh_threadpool_io :: nat
  fh_winusb_handle :: nat
  fh_claimed_interfaces :: BitSet256

record WindowsInterfaceState =
  wis_alt_setting :: u8
  wis_endpoints :: EndpointBitSet

definition windows_interface_state_default :: WindowsInterfaceState where
  "windows_interface_state_default = \<lparr>wis_alt_setting = 0, wis_endpoints = endpoint_bitset_default\<rparr>"

record WindowsInterface =
  wi_handle :: nat
  wi_threadpool_io :: nat
  wi_first_interface_number :: u8
  wi_interface_number :: u8
  wi_winusb_handle :: nat
  wi_state :: WindowsInterfaceState

record WindowsDevice =
  wd_device_descriptor :: bytes
  wd_config_descriptors :: "bytes list"
  wd_active_config :: u8
  wd_speed :: "Speed option"
  wd_devinst :: u32
  wd_handles :: "(u8, WinusbFileHandle) btree"

section \<open>Opening a device\<close>

fun valid_configs :: "winsys \<Rightarrow> HubPort \<Rightarrow> u8 list \<Rightarrow> bytes list outcome" where
  "valid_configs W p [] = Ret []"
| "valid_configs W p (i # is) =
     obind (hub_get_descriptor W p DESCRIPTOR_TYPE_CONFIGURATION i 0) (\<lambda>r.
     omap (case r of
             Inl e \<Rightarrow> (\<lambda>ds. ds)
           | Inr d \<Rightarrow> (\<lambda>ds. if config_new d = None then ds else d # ds))
       (valid_configs W p is))"

definition windows_from_device_info :: "winsys \<Rightarrow> u32 \<Rightarrow> (nusb_error + WindowsDevice) outcome" where
  "windows_from_device_info W devinst =
     obind (hub_port_by_child_devinst W devinst) (\<lambda>r.
       case r of
         Inl e \<Rightarrow> Ret (Inl e)
       | Inr hub_port \<Rightarrow>
           obind (hub_get_info W hub_port) (\<lambda>r.
             case r of
               Inl e \<Rightarrow> Ret (Inl e)
             | Inr info \<Rightarrow>
                 (case device_descriptor_new (hd_device_desc info) of
                    None \<Rightarrow> Ret (Inl (error_new KOther ''invalid device descriptor''))
                  | Some desc \<Rightarrow>
                      obind (index (hd_device_desc info) 17) (\<lambda>num.
                      omap (\<lambda>configs. Inr
                        \<lparr>wd_device_descriptor = desc, wd_config_descriptors = configs,
                         wd_active_config = hd_active_config info, wd_speed = hd_speed info,
                         wd_devinst = devinst, wd_handles = []\<rparr>)
                        (valid_configs W hub_port (map of_nat [0 ..< unat num]))))))"

definition windows_configuration_descriptors :: "WindowsDevice \<Rightarrow> ConfigurationDescriptor list" where
  "windows_configuration_descriptors d = map config_new_unchecked (wd_config_descriptors d)"

definition windows_set_configuration :: "u8 \<Rightarrow> nusb_error + unit" where
  "windows_set_configuration c = Inl (error_new KUnsupported ''set_configuration not supported by WinUSB'')"

definition windows_reset :: "nusb_error + unit" where
  "windows_reset = Inl (error_new KUnsupported ''reset not supported by WinUSB'')"

definition windows_to_transfer_error :: "nusb_error \<Rightarrow> TransferError" where
  "windows_to_transfer_error e =
     (if err_kind e = KDisconnected then Disconnected
      else UnknownError (case os_error e of None \<Rightarrow> 0 | Some c \<Rightarrow> c))"

definition windows_get_descriptor ::
  "winsys \<Rightarrow> WindowsDevice \<Rightarrow> u8 \<Rightarrow> u8 \<Rightarrow> u16 \<Rightarrow> (TransferError + bytes) outcome" where
  "windows_get_descriptor W d ty ix lang =
     obind (hub_port_by_child_devinst W (wd_devinst d)) (\<lambda>r.
       case r of
         Inl e \<Rightarrow> Ret (Inl (windows_to_transfer_error e))
       | Inr p \<Rightarrow> omap (map_sum windows_to_transfer_error (\<lambda>b. b)) (hub_get_descriptor W p ty ix lang))"

section \<open>File handles\<close>

text \<open>The last error after one more call: a call that fails sets it, one that succeeds leaves it.\<close>

definition last_error :: "u32 \<Rightarrow> u32 + 'a \<Rightarrow> u32" where
  "last_error e r = (case r of Inl e' \<Rightarrow> e' | Inr x \<Rightarrow> e)"

text \<open>
  \<open>WinusbFileHandle::new\<close>; on an error the handles that exist already are dropped, and when
  \<open>WinUsb_Initialize\<close> fails the last error is read after \<open>CloseThreadpoolIo\<close>. A failure of
  \<open>WinUsb_SetPipePolicy\<close> is only logged.
\<close>

definition winusb_file_handle_new ::
  "'k windows \<Rightarrow> u16 list \<Rightarrow> u8 \<Rightarrow> 'k \<Rightarrow> (nusb_error + WinusbFileHandle) \<times> 'k" where
  "winusb_file_handle_new K path first_interface k =
     (case K (CreateFileW path) k of
        (Inl e, k) \<Rightarrow> (Inl (windows_error_new_os KOther ''failed to open device'' e), k)
      | (Inr h, k) \<Rightarrow>
          (case K (CreateThreadpoolIo h) k of
             (Inl e, k) \<Rightarrow>
               (Inl (windows_error_new_os KOther ''CreateThreadpoolIo failed'' e), snd (K (CloseHandle h) k))
           | (Inr io, k) \<Rightarrow>
               (case K (WinUsb_Initialize h) k of
                  (Inl e, k) \<Rightarrow>
                    (case K (CloseThreadpoolIo io) k of
                       (r, k) \<Rightarrow>
                         (Inl (windows_error_new_os KOther ''failed to initialize WinUSB'' (last_error e r)),
                          snd (K (CloseHandle h) k)))
                | (Inr w, k) \<Rightarrow>
                    (Inr \<lparr>fh_first_interface = first_interface, fh_handle = h, fh_threadpool_io = io,
                          fh_winusb_handle = w, fh_claimed_interfaces = bitset256_new\<rparr>,
                     snd (K (WinUsb_SetPipePolicy w 0 (PIPE_TRANSFER_TIMEOUT 0)) k)))))"

text \<open>\<open>Drop for WinusbFileHandle\<close>, then its field \<open>handle\<close>.\<close>

definition file_handle_drop :: "'k windows \<Rightarrow> WinusbFileHandle \<Rightarrow> 'k \<Rightarrow> 'k" where
  "file_handle_drop K fh k =
     (let k = snd (K (CloseThreadpoolIo (fh_threadpool_io fh)) k);
          k = snd (K (WinUsb_Free (fh_winusb_handle fh)) k)
      in snd (K (CloseHandle (fh_handle fh)) k))"

definition file_handle_claim_interface ::
  "'k windows \<Rightarrow> u8 \<Rightarrow> WinusbFileHandle \<Rightarrow> 'k \<Rightarrow>
   ((nusb_error + WindowsInterface) \<times> WinusbFileHandle \<times> 'k) outcome" where
  "file_handle_claim_interface K num fh k =
     rassert (fh_first_interface fh \<le> num)
       (if bitset256_is_set (fh_claimed_interfaces fh) num
        then Ret (Inl (error_new KBusy ''interface is already claimed''), fh, k)
        else
          (case (if fh_first_interface fh = num then (Inr (fh_winusb_handle fh), k)
                 else K (WinUsb_GetAssociatedInterface (fh_winusb_handle fh)
                          (num - fh_first_interface fh - 1)) k) of
             (Inl err, k) \<Rightarrow>
               Ret (Inl (if err = ERROR_NO_MORE_ITEMS
                         then windows_error_new_os KNotFound ''interface not found'' err
                         else windows_error_new_os KOther
                           ''failed to initialize WinUSB for associated interface'' err), fh, k)
           | (Inr w, k) \<Rightarrow>
               Ret (Inr \<lparr>wi_handle = fh_handle fh, wi_threadpool_io = fh_threadpool_io fh,
                         wi_first_interface_number = fh_first_interface fh, wi_interface_number = num,
                         wi_winusb_handle = w, wi_state = windows_interface_state_default\<rparr>,
                    fh\<lparr>fh_claimed_interfaces := bitset256_set (fh_claimed_interfaces fh) num\<rparr>, k)))"

section \<open>Claiming an interface\<close>

text \<open>
  Which file has the interface: the first interface of its function and how to find the path. A
  device bound to WinUSB is one function that starts at interface 0; a composite device has a child
  for each function.
\<close>

definition claim_route :: "nat \<Rightarrow> winsys \<Rightarrow> u32 \<Rightarrow> u8 \<Rightarrow> (nusb_error + u8 \<times> u32 option) outcome" where
  "claim_route n W d num =
     obind (get_driver_name W d) (\<lambda>driver.
       if eq_ignore_ascii_case driver ''winusb'' then Ret (Inr (0, None))
       else if eq_ignore_ascii_case driver ''usbccgp'' then
         omap (\<lambda>r. case r of
                     None \<Rightarrow> Inl (error_new KNotFound ''Interface not found'')
                   | Some (first_interface, child) \<Rightarrow> Inr (first_interface, Some child))
           (find_usbccgp_child n W d num)
       else Ret (Inl (error_new KUnsupported ''incompatible driver is installed for this device'')))"

definition route_path :: "winsys \<Rightarrow> u32 \<Rightarrow> u32 option \<Rightarrow> (nusb_error + u16 list) outcome" where
  "route_path W d child =
     (case child of
        None \<Rightarrow> get_winusb_device_path W d
      | Some c \<Rightarrow> get_usbccgp_winusb_device_path W c)"

definition windows_claim_interface ::
  "'k windows \<Rightarrow> nat \<Rightarrow> winsys \<Rightarrow> u8 \<Rightarrow> WindowsDevice \<Rightarrow> 'k \<Rightarrow>
   ((nusb_error + WindowsInterface) \<times> WindowsDevice \<times> 'k) outcome" where
  "windows_claim_interface K n W num d k =
     obind (claim_route n W (wd_devinst d) num) (\<lambda>r.
       case r of
         Inl e \<Rightarrow> Ret (Inl e, d, k)
       | Inr (first, child) \<Rightarrow>
           (case btree_get (wd_handles d) first of
              Some fh \<Rightarrow>
                omap (\<lambda>(r, fh, k). (r, d\<lparr>wd_handles := btree_insert first fh (wd_handles d)\<rparr>, k))
                  (file_handle_claim_interface K num fh k)
            | None \<Rightarrow>
                obind (route_path W (wd_devinst d) child) (\<lambda>r.
                  case r of
                    Inl e \<Rightarrow> Ret (Inl e, d, k)
                  | Inr path \<Rightarrow>
                      (case winusb_file_handle_new K path first k of
                         (Inl e, k) \<Rightarrow> Ret (Inl e, d, k)
                       | (Inr fh, k) \<Rightarrow>
                           obind (file_handle_claim_interface K num fh k) (\<lambda>(r, fh, k).
                             case r of
                               Inl e \<Rightarrow> Ret (Inl e, d, file_handle_drop K fh k)
                             | Inr i \<Rightarrow>
                                 Ret (Inr i, d\<lparr>wd_handles := btree_insert first fh (wd_handles d)\<rparr>, k))))))"

text \<open>\<open>Drop for WindowsInterface\<close>\<close>

definition windows_interface_drop ::
  "'k windows \<Rightarrow> WindowsInterface \<Rightarrow> WindowsDevice \<Rightarrow> 'k \<Rightarrow> (WindowsDevice \<times> 'k) outcome" where
  "windows_interface_drop K i d k =
     (let is_first_interface = (wi_interface_number i = wi_first_interface_number i);
          k = (if is_first_interface then k else snd (K (WinUsb_Free (wi_winusb_handle i)) k))
      in
        case btree_get (wd_handles d) (wi_first_interface_number i) of
          None \<Rightarrow> Panic
        | Some fh \<Rightarrow>
            (let fh = fh\<lparr>fh_claimed_interfaces :=
                          bitset256_clear (fh_claimed_interfaces fh) (wi_interface_number i)\<rparr>
             in
               if bitset256_is_empty (fh_claimed_interfaces fh)
               then Ret (d\<lparr>wd_handles := btree_remove (wi_first_interface_number i) (wd_handles d)\<rparr>,
                         file_handle_drop K fh k)
               else Ret (d\<lparr>wd_handles := btree_insert (wi_first_interface_number i) fh (wd_handles d)\<rparr>, k)))"

section \<open>Interfaces\<close>

definition windows_set_alt_setting ::
  "'k windows \<Rightarrow> u8 \<Rightarrow> WindowsInterface \<Rightarrow> 'k \<Rightarrow> (nusb_error + unit) \<times> WindowsInterface \<times> 'k" where
  "windows_set_alt_setting K alt_setting i k =
     (if \<not> endpoint_is_empty (wis_endpoints (wi_state i))
      then (Inl (error_new KBusy ''can't change alternate setting while endpoints are in use''), i, k)
      else
        (case K (WinUsb_SetCurrentAlternateSetting (wi_winusb_handle i) alt_setting) k of
           (Inr _, k) \<Rightarrow>
             (Inr (), i\<lparr>wi_state := (wi_state i)\<lparr>wis_alt_setting := alt_setting\<rparr>\<rparr>, k)
         | (Inl e, k) \<Rightarrow>
             (Inl (if e = ERROR_NOT_FOUND
                   then windows_error_new_os KNotFound ''alternate setting not found'' e
                   else if e = ERROR_BAD_COMMAND
                   then windows_error_new_os KDisconnected ''device disconnected'' e
                   else windows_error_new_os KOther ''failed to set alternate setting'' e), i, k)))"

definition windows_get_alt_setting :: "WindowsInterface \<Rightarrow> u8" where
  "windows_get_alt_setting i = wis_alt_setting (wi_state i)"

definition windows_clear_halt :: "'k windows \<Rightarrow> WindowsInterface \<Rightarrow> u8 \<Rightarrow> 'k \<Rightarrow> (nusb_error + unit) \<times> 'k" where
  "windows_clear_halt K i address k =
     (case K (WinUsb_ResetPipe (wi_winusb_handle i) address) k of
        (Inr _, k) \<Rightarrow> (Inr (), k)
      | (Inl e, k) \<Rightarrow> (Inl (windows_error_new_os KOther ''failed to clear halt'' e), k))"

end
