(* ===== verification/Handles.thy ===== *)
theory Handles
  imports Prelude "HOL-Library.Multiset"
begin

text \<open>
  An operating system that keeps track of its handles, for the Windows and the macOS backend.
\<close>

section \<open>Handles of the system\<close>

text \<open>
  A system that gives out fresh handles, none of them 0, knows which are open and notes every use of a
  handle that is not; \<open>os_answers\<close> says which of the next calls fail, with which error.
\<close>

record 'h handle_os =
  os_next :: nat
  os_open :: "('h \<times> nat) list"
  os_answers :: "u32 option list"
  os_bad :: bool

definition os_reply :: "('h handle_os \<Rightarrow> nat \<times> 'h handle_os) \<Rightarrow> 'h handle_os \<Rightarrow> (u32 + nat) \<times> 'h handle_os" where
  "os_reply f s =
     (case os_answers s of
        Some e # r \<Rightarrow> (Inl e, s\<lparr>os_answers := r\<rparr>)
      | _ \<Rightarrow> map_prod Inr (\<lambda>s. s) (f (s\<lparr>os_answers := tl (os_answers s)\<rparr>)))"

definition os_fresh :: "'h \<Rightarrow> 'h handle_os \<Rightarrow> nat \<times> 'h handle_os" where
  "os_fresh kind s =
     (os_next s + 1, s\<lparr>os_open := (kind, os_next s + 1) # os_open s, os_next := os_next s + 1\<rparr>)"

definition os_acquire :: "'h \<Rightarrow> 'h handle_os \<Rightarrow> (u32 + nat) \<times> 'h handle_os" where
  "os_acquire kind = os_reply (os_fresh kind)"

definition os_using ::
  "'h \<times> nat \<Rightarrow> ('h handle_os \<Rightarrow> (u32 + nat) \<times> 'h handle_os) \<Rightarrow> 'h handle_os \<Rightarrow> (u32 + nat) \<times> 'h handle_os" where
  "os_using x f s = (if x \<in> set (os_open s) then f s else (Inl 6, s\<lparr>os_bad := True\<rparr>))"

definition os_release :: "'h \<times> nat \<Rightarrow> 'h handle_os \<Rightarrow> (u32 + nat) \<times> 'h handle_os" where
  "os_release x = os_using x (\<lambda>s. (Inr 0, s\<lparr>os_open := remove1 x (os_open s)\<rparr>))"

definition os_init :: "u32 option list \<Rightarrow> 'h handle_os" where
  "os_init answers = \<lparr>os_next = 0, os_open = [], os_answers = answers, os_bad = False\<rparr>"

text \<open>Exactly the handles \<open>H\<close> are open and nothing went wrong.\<close>

definition os_has :: "('h \<times> nat) multiset \<Rightarrow> 'h handle_os \<Rightarrow> bool" where
  "os_has H s \<longleftrightarrow> \<not> os_bad s \<and> distinct (os_open s) \<and> (\<forall>x \<in> set (os_open s). snd x \<le> os_next s) \<and>
     mset (os_open s) = H"

lemma os_has_init: "os_has {#} (os_init answers)"
  by (simp add: os_has_def os_init_def)

lemma os_has_open: "os_has H s \<Longrightarrow> x \<in> set (os_open s) \<longleftrightarrow> x \<in># H"
  by (metis os_has_def set_mset_mset)

lemma os_reply_unit:
  assumes "os_has H s"
  obtains r s' where "os_reply (\<lambda>s. (v, s)) s = (r, s')" "os_has H s'"
proof -
  have "os_has H (snd (os_reply (\<lambda>s. (v, s)) s))"
    using assms by (auto simp: os_reply_def os_has_def split: list.splits option.splits)
  then show thesis using that by (metis prod.collapse)
qed

lemma os_fresh_has:
  assumes "os_has H s"
  obtains h s' where "os_fresh kind s = (h, s')" "os_has (add_mset (kind, h) H) s'" "0 < h"
  using assms that by (force simp: os_has_def os_fresh_def)

lemma os_acquire_cases:
  assumes "os_has H s"
  obtains (fails) e s' where "os_acquire kind s = (Inl e, s')" "os_has H s'"
  | (opens) h s' where "os_acquire kind s = (Inr h, s')" "os_has (add_mset (kind, h) H) s'" "0 < h"
proof (cases "\<exists>e r. os_answers s = Some e # r")
  case True
  then obtain e r where "os_answers s = Some e # r" by blast
  with assms show thesis
    by (intro fails [of e "s\<lparr>os_answers := r\<rparr>"]) (simp_all add: os_acquire_def os_reply_def os_has_def)
next
  case False
  let ?s = "s\<lparr>os_answers := tl (os_answers s)\<rparr>"
  have "os_has H ?s" using assms by (simp add: os_has_def)
  from os_fresh_has [OF this] obtain h s' where
    h: "os_fresh kind ?s = (h, s')" "os_has (add_mset (kind, h) H) s'" "0 < h" by blast
  have "os_acquire kind s = (Inr h, s')"
    using False h(1) by (auto simp: os_acquire_def os_reply_def split: list.splits option.splits)
  from opens [OF this h(2,3)] show thesis .
qed

lemma os_has_once:
  assumes "os_has (add_mset x H) s"
  shows "x \<notin># H"
proof -
  from assms have "distinct (os_open s)" "mset (os_open s) = add_mset x H" by (simp_all add: os_has_def)
  then have "count (add_mset x H) x \<le> 1" by (metis distinct_count_atmost_1 le_refl zero_le)
  then show ?thesis by (simp add: not_in_iff)
qed

lemma os_using_open: "os_has H s \<Longrightarrow> x \<in># H \<Longrightarrow> os_using x f s = f s"
  by (simp add: os_using_def os_has_open)

lemma os_release_open:
  assumes "os_has (add_mset x H) s"
  obtains s' where "os_release x s = (Inr 0, s')" "os_has H s'"
proof
  have x: "x \<in> set (os_open s)" using os_has_open [OF assms] by simp
  then show "os_release x s = (Inr 0, s\<lparr>os_open := remove1 x (os_open s)\<rparr>)"
    by (simp add: os_release_def os_using_def)
  show "os_has H (s\<lparr>os_open := remove1 x (os_open s)\<rparr>)"
    using assms by (auto simp: os_has_def dest: notin_set_remove1 in_set_remove1 [THEN iffD1, rotated] set_remove1_subset [THEN subsetD])
qed

end
