(* ===== verification/Windows_Device_Theorems.thy ===== *)
theory Windows_Device_Theorems
  imports Windows_Device Handles
begin

text \<open>
  Claiming interfaces on Windows: the table of file handles always agrees with the interfaces that
  are alive, and every handle of the system is used only while it is open and closed exactly once.
\<close>

section \<open>Handles of the system\<close>

datatype handle_kind = HFile | HIo | HWinusb

type_synonym win_os = "handle_kind handle_os"

fun win_os_call :: "win_os windows" where
  "win_os_call (CreateFileW path) = os_acquire HFile"
| "win_os_call (CloseHandle h) = os_release (HFile, h)"
| "win_os_call (CreateThreadpoolIo h) = os_using (HFile, h) (os_acquire HIo)"
| "win_os_call (CloseThreadpoolIo io) = os_release (HIo, io)"
| "win_os_call (WinUsb_Initialize h) = os_using (HFile, h) (os_acquire HWinusb)"
| "win_os_call (WinUsb_GetAssociatedInterface w i) = os_using (HWinusb, w) (os_acquire HWinusb)"
| "win_os_call (WinUsb_Free w) = os_release (HWinusb, w)"
| "win_os_call (WinUsb_SetPipePolicy w ep p) = os_using (HWinusb, w) (os_reply (\<lambda>s. (0, s)))"
| "win_os_call (WinUsb_SetCurrentAlternateSetting w a) = os_using (HWinusb, w) (os_reply (\<lambda>s. (0, s)))"
| "win_os_call (WinUsb_ResetPipe w ep) = os_using (HWinusb, w) (os_reply (\<lambda>s. (0, s)))"

section \<open>File handles\<close>

definition file_handles :: "WinusbFileHandle \<Rightarrow> (handle_kind \<times> nat) multiset" where
  "file_handles fh =
     {#(HFile, fh_handle fh), (HIo, fh_threadpool_io fh), (HWinusb, fh_winusb_handle fh)#}"

lemma file_handles_claimed [simp]:
  "file_handles (fh\<lparr>fh_claimed_interfaces := c\<rparr>) = file_handles fh"
  by (simp add: file_handles_def)

lemma winusb_file_handle_new_cases:
  assumes "os_has H s"
  obtains (fails) e s' where "winusb_file_handle_new win_os_call path first s = (Inl e, s')" "os_has H s'"
  | (opens) fh s' where "winusb_file_handle_new win_os_call path first s = (Inr fh, s')"
      "os_has (H + file_handles fh) s'" "fh_first_interface fh = first"
      "fh_claimed_interfaces fh = bitset256_new"
  using assms
proof (cases rule: os_acquire_cases [where kind = HFile])
  case (fails e s1)
  then show thesis by (intro that(1)) (simp_all add: winusb_file_handle_new_def)
next
  case (opens h s1)
  note fil = opens
  have u1: "os_using (HFile, h) f s1 = f s1" for f by (rule os_using_open [OF fil(2)]) simp
  show thesis
    using fil(2)
  proof (cases rule: os_acquire_cases [where kind = HIo])
    case (fails e s2)
    from os_release_open [OF fails(2)] obtain s3 where
      "os_release (HFile, h) s2 = (Inr 0, s3)" "os_has H s3" by blast
    with fil fails u1 show thesis by (intro that(1)) (simp_all add: winusb_file_handle_new_def)
  next
    case (opens io s2)
    note io = opens
    have u2: "os_using (HFile, h) f s2 = f s2" for f by (rule os_using_open [OF io(2)]) simp
    show thesis
      using io(2)
    proof (cases rule: os_acquire_cases [where kind = HWinusb])
      case (fails e s3)
      from os_release_open [OF fails(2)] obtain s4 where
        s4: "os_release (HIo, io) s3 = (Inr 0, s4)" "os_has (add_mset (HFile, h) H) s4" by blast
      from os_release_open [OF s4(2)] obtain s5 where
        "os_release (HFile, h) s4 = (Inr 0, s5)" "os_has H s5" by blast
      with fil io fails u1 u2 s4 show thesis by (intro that(1)) (simp_all add: winusb_file_handle_new_def)
    next
      case (opens w s3)
      have u3: "os_using (HWinusb, w) f s3 = f s3" for f by (rule os_using_open [OF opens(2)]) simp
      from os_reply_unit [OF opens(2)] obtain r s4 where
        s4: "os_reply (\<lambda>s. (0, s)) s3 = (r, s4)"
          "os_has (add_mset (HWinusb, w) (add_mset (HIo, io) (add_mset (HFile, h) H))) s4" by blast
      have m: "add_mset (HWinusb, w) (add_mset (HIo, io) (add_mset (HFile, h) H)) =
          H + {#(HFile, h), (HIo, io), (HWinusb, w)#}"
        by (simp add: add_mset_commute)
      show thesis
        by (rule that(2) [where fh = "\<lparr>fh_first_interface = first, fh_handle = h, fh_threadpool_io = io,
              fh_winusb_handle = w, fh_claimed_interfaces = bitset256_new\<rparr>" and s' = s4])
          (use fil io opens u1 u2 u3 s4 m in
            \<open>simp_all add: winusb_file_handle_new_def file_handles_def\<close>)
    qed
  qed
qed

lemma file_handle_drop_closes:
  assumes "os_has (H + file_handles fh) s"
  shows "os_has H (file_handle_drop win_os_call fh s)"
proof -
  have "H + file_handles fh = add_mset (HIo, fh_threadpool_io fh)
      (add_mset (HWinusb, fh_winusb_handle fh) (add_mset (HFile, fh_handle fh) H))"
    by (simp add: file_handles_def add_mset_commute)
  with assms obtain s1 where
    s1: "os_release (HIo, fh_threadpool_io fh) s = (Inr 0, s1)"
      "os_has (add_mset (HWinusb, fh_winusb_handle fh) (add_mset (HFile, fh_handle fh) H)) s1"
    by (metis os_release_open)
  from os_release_open [OF s1(2)] obtain s2 where
    s2: "os_release (HWinusb, fh_winusb_handle fh) s1 = (Inr 0, s2)"
      "os_has (add_mset (HFile, fh_handle fh) H) s2" by blast
  from os_release_open [OF s2(2)] obtain s3 where
    "os_release (HFile, fh_handle fh) s2 = (Inr 0, s3)" "os_has H s3" by blast
  with s1 s2 show ?thesis by (simp add: file_handle_drop_def)
qed

section \<open>Which interfaces are claimed\<close>

definition intf_handles :: "WindowsInterface \<Rightarrow> (handle_kind \<times> nat) multiset" where
  "intf_handles i =
     (if wi_interface_number i = wi_first_interface_number i then {#}
      else {#(HWinusb, wi_winusb_handle i)#})"

definition table_handles :: "(u8, WinusbFileHandle) btree \<Rightarrow> (handle_kind \<times> nat) multiset" where
  "table_handles m = sum_list (map (file_handles \<circ> snd) m)"

definition live_handles :: "WindowsInterface list \<Rightarrow> (handle_kind \<times> nat) multiset" where
  "live_handles live = sum_list (map intf_handles live)"

text \<open>The claimed interface numbers of the function that starts at \<open>f\<close>.\<close>

definition claimed :: "u8 \<Rightarrow> WindowsInterface list \<Rightarrow> u8 list" where
  "claimed f live = map wi_interface_number (filter (\<lambda>i. wi_first_interface_number i = f) live)"

definition entry_ok :: "u8 \<Rightarrow> WinusbFileHandle \<Rightarrow> WindowsInterface list \<Rightarrow> bool" where
  "entry_ok f fh live \<longleftrightarrow> fh_first_interface fh = f \<and>
     tracks bitset256_is_set unat (fh_claimed_interfaces fh) (claimed f live) \<and> claimed f live \<noteq> []"

definition intf_of :: "WinusbFileHandle \<Rightarrow> WindowsInterface \<Rightarrow> bool" where
  "intf_of fh i \<longleftrightarrow> wi_handle i = fh_handle fh \<and> wi_threadpool_io i = fh_threadpool_io fh \<and>
     wi_first_interface_number i \<le> wi_interface_number i \<and>
     (wi_interface_number i = wi_first_interface_number i \<longrightarrow> wi_winusb_handle i = fh_winusb_handle fh)"

definition table_ok :: "(u8, WinusbFileHandle) btree \<Rightarrow> WindowsInterface list \<Rightarrow> bool" where
  "table_ok m live \<longleftrightarrow> btree_ok m \<and>
     (\<forall>f fh. btree_get m f = Some fh \<longrightarrow> entry_ok f fh live) \<and>
     (\<forall>i \<in> set live. \<exists>fh. btree_get m (wi_first_interface_number i) = Some fh \<and> intf_of fh i)"

definition claims_ok :: "WindowsDevice \<Rightarrow> WindowsInterface list \<Rightarrow> win_os \<Rightarrow> bool" where
  "claims_ok d live s \<longleftrightarrow> table_ok (wd_handles d) live \<and>
     os_has (table_handles (wd_handles d) + live_handles live) s"

lemma table_handles_insert_new:
  "btree_get m f = None \<Longrightarrow> table_handles (btree_insert f fh m) = file_handles fh + table_handles m"
  by (induction f fh m rule: btree_insert.induct)
    (auto simp: table_handles_def btree_get_def ac_simps split: if_splits)

lemma map_of_above: "map_of m k = Some v \<Longrightarrow> \<forall>x \<in> set m. k' < fst x \<Longrightarrow> k' < (k :: 'k::linorder)"
  by (metis fst_conv map_of_SomeD)

lemma table_handles_insert_same:
  "btree_ok m \<Longrightarrow> btree_get m f = Some fh \<Longrightarrow> file_handles fh' = file_handles fh \<Longrightarrow>
    table_handles (btree_insert f fh' m) = table_handles m"
proof (induction f fh' m rule: btree_insert.induct)
  case (2 k v k' v' m)
  then show ?case
    by (auto simp: table_handles_def btree_get_def split: if_splits dest: map_of_above)
qed (simp add: btree_get_def)

lemma table_handles_remove:
  "btree_ok m \<Longrightarrow> btree_get m f = Some fh \<Longrightarrow>
    table_handles m = table_handles (btree_remove f m) + file_handles fh"
proof (induction m)
  case (Cons e m)
  show ?case
  proof (cases "fst e = f")
    case True
    with Cons.prems have "btree_remove f m = m" "snd e = fh"
      by (auto simp: btree_remove_def btree_get_def filter_id_conv)
    with True show ?thesis by (simp add: btree_remove_def table_handles_def)
  next
    case False
    with Cons show ?thesis by (auto simp: btree_remove_def btree_get_def table_handles_def)
  qed
qed (simp add: btree_get_def)

lemma table_handles_member:
  "btree_get m f = Some fh \<Longrightarrow> x \<in># file_handles fh \<Longrightarrow> x \<in># table_handles m"
  by (induction m) (auto simp: table_handles_def btree_get_def split: if_splits)

lemma btree_insert_same: "btree_ok m \<Longrightarrow> btree_get m f = Some fh \<Longrightarrow> btree_insert f fh m = m"
proof (induction f fh m rule: btree_insert.induct)
  case (2 k v k' v' m)
  then show ?case by (auto simp: btree_get_def split: if_splits dest: map_of_above)
qed (simp add: btree_get_def)

lemma claimed_Cons:
  "claimed f (i # live) =
    (if wi_first_interface_number i = f then wi_interface_number i # claimed f live else claimed f live)"
  by (simp add: claimed_def)

lemma claimed_append: "claimed f (xs @ ys) = claimed f xs @ claimed f ys"
  by (simp add: claimed_def)

lemma claimed_Nil: "claimed f [] = []"
  by (simp add: claimed_def)

section \<open>Claiming\<close>

lemma route_first_le:
  assumes "claim_route n W d num = Ret (Inr (f, c))"
  shows "f \<le> num"
proof -
  have "f \<le> num" if "find_usbccgp_child n W d num = Ret (Some (f, ch))" for ch
    using that max_by_key_Some [of fst _ "(f, ch)"]
    by (fastforce simp: find_usbccgp_child_def outcome_Ret_iffs)
  with assms show ?thesis
    by (auto simp: claim_route_def outcome_Ret_iffs split: if_splits option.splits)
qed

text \<open>The claim on an open file: Busy, an error of the system, or the interface.\<close>

lemma file_handle_claim_cases:
  assumes "os_has H s" "(HWinusb, fh_winusb_handle fh) \<in># H" "fh_first_interface fh \<le> num"
  obtains (busy) "bitset256_is_set (fh_claimed_interfaces fh) num"
      "file_handle_claim_interface win_os_call num fh s =
        Ret (Inl (error_new KBusy ''interface is already claimed''), fh, s)"
  | (fails) e s' where "\<not> bitset256_is_set (fh_claimed_interfaces fh) num"
      "file_handle_claim_interface win_os_call num fh s = Ret (Inl e, fh, s')" "os_has H s'"
  | (claims) i s' where "\<not> bitset256_is_set (fh_claimed_interfaces fh) num"
      "file_handle_claim_interface win_os_call num fh s =
        Ret (Inr i, fh\<lparr>fh_claimed_interfaces := bitset256_set (fh_claimed_interfaces fh) num\<rparr>, s')"
      "os_has (H + intf_handles i) s'" "intf_of fh i" "wi_interface_number i = num"
      "wi_first_interface_number i = fh_first_interface fh"
proof (cases "bitset256_is_set (fh_claimed_interfaces fh) num")
  case True
  with assms(3) show thesis by (intro busy) (simp_all add: file_handle_claim_interface_def)
next
  case free: False
  show thesis
  proof (cases "fh_first_interface fh = num")
    case True
    with free assms show thesis
      by (intro claims [OF free, where s' = s])
        (auto simp: file_handle_claim_interface_def intf_handles_def intf_of_def)
  next
    case other: False
    have u: "os_using (HWinusb, fh_winusb_handle fh) f s = f s" for f
      by (rule os_using_open [OF assms(1,2)])
    show thesis
      using assms(1)
    proof (cases rule: os_acquire_cases [where kind = HWinusb])
      case (fails e s')
      with free other assms(3) u show thesis
        by (intro that(2) [OF free, where s' = s']) (auto simp: file_handle_claim_interface_def)
    next
      case (opens w s')
      with free other assms(3) u show thesis
        by (intro claims [OF free, where s' = s'])
          (auto simp: file_handle_claim_interface_def intf_handles_def intf_of_def)
    qed
  qed
qed

lemma table_ok_claim:
  assumes "table_ok m live" "btree_get m f = Some fh" "wi_first_interface_number i = f"
    "\<not> bitset256_is_set (fh_claimed_interfaces fh) (wi_interface_number i)" "intf_of fh i"
  shows "table_ok (btree_insert f
      (fh\<lparr>fh_claimed_interfaces := bitset256_set (fh_claimed_interfaces fh) (wi_interface_number i)\<rparr>) m)
    (i # live)"
  using assms
  by (auto simp: table_ok_def btree_get_insert btree_ok_insert entry_ok_def claimed_Cons
      claimed_keys.tracks_claim intf_of_def)

lemma table_ok_new:
  assumes "table_ok m live" "btree_get m f = None" "wi_first_interface_number i = f"
    "fh_first_interface fh = f" "fh_claimed_interfaces fh = bitset256_new" "intf_of fh i"
  shows "table_ok (btree_insert f
      (fh\<lparr>fh_claimed_interfaces := bitset256_set (fh_claimed_interfaces fh) (wi_interface_number i)\<rparr>) m)
    (i # live)"
proof -
  have "claimed f live = []"
    using assms(1,2) by (fastforce simp: table_ok_def claimed_def filter_empty_conv)
  moreover have "tracks bitset256_is_set unat (bitset256_set bitset256_new (wi_interface_number i))
      [wi_interface_number i]"
    by (intro claimed_keys.tracks_claim claimed_keys.tracks_empty claimed_keys.is_set_empty)
  ultimately show ?thesis
    using assms
    by (auto simp: table_ok_def btree_get_insert btree_ok_insert entry_ok_def claimed_Cons intf_of_def)
qed


lemma claim_ok:
  assumes ok: "claims_ok d live s"
    and route: "claim_route n W (wd_devinst d) num = Ret r"
    and path: "\<And>c. is_ret (route_path W (wd_devinst d) c)"
  shows "\<exists>res d' s'. windows_claim_interface win_os_call n W num d s = Ret (res, d', s') \<and>
    wd_devinst d' = wd_devinst d \<and>
    (case res of
       Inl e \<Rightarrow> claims_ok d' live s'
     | Inr i \<Rightarrow> claims_ok d' (i # live) s' \<and> wi_interface_number i = num)"
proof (cases r)
  case (Inl e)
  with route ok show ?thesis by (simp add: windows_claim_interface_def)
next
  case (Inr fc)
  obtain f c where fc: "fc = (f, c)" by (cases fc)
  have le: "f \<le> num" using route Inr fc by (auto intro: route_first_le)
  let ?m = "wd_handles d"
  let ?H = "table_handles ?m + live_handles live"
  have t: "table_ok ?m live" and h: "os_has ?H s" using ok by (simp_all add: claims_ok_def)
  then have bt: "btree_ok ?m" by (simp add: table_ok_def)
  show ?thesis
  proof (cases "btree_get ?m f")
    case (Some fh)
    then have first: "fh_first_interface fh = f" using t by (simp add: table_ok_def entry_ok_def)
    have w: "(HWinusb, fh_winusb_handle fh) \<in># ?H"
      using table_handles_member [OF Some] by (simp add: file_handles_def)
    have same: "d\<lparr>wd_handles := btree_insert f fh ?m\<rparr> = d" by (simp add: btree_insert_same [OF bt Some])
    note step = route Inr fc Some
    show ?thesis
      using h w le [folded first]
    proof (cases rule: file_handle_claim_cases)
      case busy
      with ok same step show ?thesis by (simp add: windows_claim_interface_def)
    next
      case (fails e s')
      with t same step show ?thesis by (simp add: windows_claim_interface_def claims_ok_def)
    next
      case (claims i s')
      have "table_handles (btree_insert f
          (fh\<lparr>fh_claimed_interfaces := bitset256_set (fh_claimed_interfaces fh) num\<rparr>) ?m) = table_handles ?m"
        by (rule table_handles_insert_same [OF bt Some]) simp
      moreover have "table_ok (btree_insert f
          (fh\<lparr>fh_claimed_interfaces := bitset256_set (fh_claimed_interfaces fh) num\<rparr>) ?m) (i # live)"
        using table_ok_claim [OF t Some, of i] claims first by simp
      moreover have "os_has (table_handles ?m + live_handles (i # live)) s'"
        using claims(3) by (simp add: live_handles_def ac_simps)
      ultimately show ?thesis
        using claims step by (simp add: windows_claim_interface_def claims_ok_def)
    qed
  next
    case None
    obtain pr where pr: "route_path W (wd_devinst d) c = Ret pr" using path [of c] by (auto simp: is_ret_iff)
    note step = route Inr fc None pr
    show ?thesis
    proof (cases pr)
      case (Inl e)
      with step ok show ?thesis by (simp add: windows_claim_interface_def)
    next
      case path: (Inr p)
      show ?thesis
        using h
      proof (cases rule: winusb_file_handle_new_cases [where path = p and first = f])
        case (fails e s1)
        with step path t show ?thesis by (simp add: windows_claim_interface_def claims_ok_def)
      next
        case (opens fh s1)
        have w: "(HWinusb, fh_winusb_handle fh) \<in># ?H + file_handles fh" by (simp add: file_handles_def)
        show ?thesis
          using opens(2) w le [folded opens(3)]
        proof (cases rule: file_handle_claim_cases)
          case busy
          with opens(4) claimed_keys.is_set_empty show ?thesis by simp
        next
          case (fails e s2)
          with file_handle_drop_closes [OF fails(3)] step path opens(1) t show ?thesis
            by (simp add: windows_claim_interface_def claims_ok_def)
        next
          case (claims i s2)
          have "table_ok (btree_insert f
              (fh\<lparr>fh_claimed_interfaces := bitset256_set (fh_claimed_interfaces fh) num\<rparr>) ?m) (i # live)"
            using table_ok_new [OF t None, of i fh] claims opens(3,4) by simp
          moreover have "os_has (file_handles fh + table_handles ?m + live_handles (i # live)) s2"
            using claims(3) by (simp add: live_handles_def ac_simps)
          ultimately show ?thesis
            using claims step path opens(1)
            by (simp add: windows_claim_interface_def claims_ok_def table_handles_insert_new [OF None])
        qed
      qed
    qed
  qed
qed

section \<open>Dropping an interface\<close>

lemma tracks_drop_middle:
  assumes "tracks bitset256_is_set unat c (xs @ n # ys)"
  shows "tracks bitset256_is_set unat (bitset256_clear c n) (xs @ ys)"
proof -
  from assms have "n \<notin> set xs" by (auto simp: tracks_def)
  then have "remove1 n (xs @ n # ys) = xs @ ys" by (simp add: remove1_append)
  with claimed_keys.tracks_release [OF assms, of n] show ?thesis by simp
qed

lemma claimed_middle:
  "claimed f (xs @ i # ys) =
    (if wi_first_interface_number i = f
     then claimed f xs @ wi_interface_number i # claimed f ys else claimed f (xs @ ys))"
  by (simp add: claimed_def)

lemma drop_ok:
  assumes ok: "claims_ok d (xs @ i # ys) s"
  shows "\<exists>d' s'. windows_interface_drop win_os_call i d s = Ret (d', s') \<and>
    wd_devinst d' = wd_devinst d \<and> claims_ok d' (xs @ ys) s'"
proof -
  let ?m = "wd_handles d" and ?f = "wi_first_interface_number i" and ?n = "wi_interface_number i"
  from ok have t: "table_ok ?m (xs @ i # ys)"
    and h: "os_has (table_handles ?m + live_handles (xs @ ys) + intf_handles i) s"
    by (simp_all add: claims_ok_def live_handles_def ac_simps)
  obtain s1 where s1: "(if ?n = ?f then s else snd (win_os_call (WinUsb_Free (wi_winusb_handle i)) s)) = s1"
    "os_has (table_handles ?m + live_handles (xs @ ys)) s1"
  proof (cases "?n = ?f")
    case True
    with h that show thesis by (simp add: intf_handles_def)
  next
    case False
    with h have "os_has (add_mset (HWinusb, wi_winusb_handle i) (table_handles ?m + live_handles (xs @ ys))) s"
      by (simp add: intf_handles_def)
    from os_release_open [OF this] obtain s' where "os_release (HWinusb, wi_winusb_handle i) s = (Inr 0, s')"
      "os_has (table_handles ?m + live_handles (xs @ ys)) s'" by blast
    with False show thesis by (intro that [of s']) simp_all
  qed
  from t obtain fh where fh: "btree_get ?m ?f = Some fh" and bt: "btree_ok ?m"
    by (auto simp: table_ok_def)
  from t fh have entry: "entry_ok ?f fh (xs @ i # ys)" by (simp add: table_ok_def)
  let ?c = "bitset256_clear (fh_claimed_interfaces fh) ?n"
  let ?fh = "fh\<lparr>fh_claimed_interfaces := ?c\<rparr>"
  from entry have tr: "tracks bitset256_is_set unat ?c (claimed ?f (xs @ ys))"
    by (simp add: entry_ok_def claimed_append claimed_Cons tracks_drop_middle)
  then have empty: "bitset256_is_empty ?c \<longleftrightarrow> claimed ?f (xs @ ys) = []" by (rule claimed_keys.tracks_is_empty)
  have rest: "entry_ok f g (xs @ ys)" if "btree_get ?m f = Some g" "f \<noteq> ?f" for f g
  proof -
    from t that(1) have "entry_ok f g (xs @ i # ys)" by (simp add: table_ok_def)
    with that(2) show ?thesis by (simp add: entry_ok_def claimed_append claimed_Cons)
  qed
  have intf: "\<exists>g. btree_get ?m (wi_first_interface_number j) = Some g \<and> intf_of g j" if "j \<in> set (xs @ ys)" for j
    using t that by (auto simp: table_ok_def)
  show ?thesis
  proof (cases "bitset256_is_empty ?c")
    case True
    have "table_ok (btree_remove ?f ?m) (xs @ ys)"
      unfolding table_ok_def
    proof (intro conjI ballI allI impI)
      show "btree_ok (btree_remove ?f ?m)" using bt by (rule btree_ok_remove)
      show "entry_ok f g (xs @ ys)" if "btree_get (btree_remove ?f ?m) f = Some g" for f g
        using that rest by (simp add: btree_get_remove split: if_splits)
      fix j assume j: "j \<in> set (xs @ ys)"
      with True empty have "wi_first_interface_number j \<noteq> ?f" by (auto simp: claimed_def filter_empty_conv)
      with intf [OF j] show "\<exists>g. btree_get (btree_remove ?f ?m) (wi_first_interface_number j) = Some g \<and> intf_of g j"
        by (simp add: btree_get_remove)
    qed
    moreover have "os_has (table_handles (btree_remove ?f ?m) + live_handles (xs @ ys) + file_handles ?fh) s1"
      using s1(2) table_handles_remove [OF bt fh] by (simp add: ac_simps)
    ultimately show ?thesis
      using file_handle_drop_closes [of _ ?fh s1] True fh s1(1)
      by (simp add: windows_interface_drop_def Let_def claims_ok_def)
  next
    case False
    have "table_ok (btree_insert ?f ?fh ?m) (xs @ ys)"
      unfolding table_ok_def
    proof (intro conjI ballI allI impI)
      show "btree_ok (btree_insert ?f ?fh ?m)" using bt by (rule btree_ok_insert)
      show "entry_ok f g (xs @ ys)" if "btree_get (btree_insert ?f ?fh ?m) f = Some g" for f g
        using that rest tr False empty entry by (auto simp: btree_get_insert [OF bt] entry_ok_def split: if_splits)
      fix j assume j: "j \<in> set (xs @ ys)"
      from intf [OF j] fh show "\<exists>g. btree_get (btree_insert ?f ?fh ?m) (wi_first_interface_number j) = Some g \<and> intf_of g j"
        by (auto simp: btree_get_insert [OF bt] intf_of_def)
    qed
    moreover have "table_handles (btree_insert ?f ?fh ?m) = table_handles ?m"
      by (rule table_handles_insert_same [OF bt fh]) simp
    ultimately show ?thesis
      using s1 False fh by (simp add: windows_interface_drop_def Let_def claims_ok_def)
  qed
qed

section \<open>Histories\<close>

text \<open>
  What the owners of a device and its interfaces do: claim an interface, with what the system says
  about the device at that moment; change the alternate setting; clear a halt; drop an interface. The
  numbers are positions in the list of live interfaces.
\<close>

datatype claim_event =
    ClaimInterface nat winsys u8
  | SetAltSetting nat u8
  | ClearHalt nat u8
  | DropInterface nat

definition claim_step ::
  "claim_event \<Rightarrow> WindowsDevice \<times> WindowsInterface list \<times> win_os \<Rightarrow>
   (WindowsDevice \<times> WindowsInterface list \<times> win_os) outcome" where
  "claim_step e w =
     (case w of (d, live, s) \<Rightarrow>
        (case e of
           ClaimInterface n W num \<Rightarrow>
             omap (\<lambda>(r, d, s). (d, case r of Inl err \<Rightarrow> live | Inr i \<Rightarrow> i # live, s))
               (windows_claim_interface win_os_call n W num d s)
         | SetAltSetting j alt \<Rightarrow>
             Ret (if j < length live
                  then (case windows_set_alt_setting win_os_call alt (live ! j) s of
                          (r, i, s) \<Rightarrow> (d, live[j := i], s))
                  else w)
         | ClearHalt j ep \<Rightarrow>
             Ret (if j < length live then (d, live, snd (windows_clear_halt win_os_call (live ! j) ep s)) else w)
         | DropInterface j \<Rightarrow>
             if j < length live
             then omap (\<lambda>(d, s). (d, take j live @ drop (Suc j) live, s))
                    (windows_interface_drop win_os_call (live ! j) d s)
             else Ret w))"

fun claim_run ::
  "claim_event list \<Rightarrow> WindowsDevice \<times> WindowsInterface list \<times> win_os \<Rightarrow>
   (WindowsDevice \<times> WindowsInterface list \<times> win_os) outcome" where
  "claim_run [] w = Ret w"
| "claim_run (e # es) w = obind (claim_step e w) (claim_run es)"

text \<open>
  The system answers what is asked about the device, whatever it answers: the look-ups return. They panic
  where the code unwraps, as for the registry key of a device that is gone.
\<close>

definition event_answers :: "u32 \<Rightarrow> claim_event \<Rightarrow> bool" where
  "event_answers devinst e =
     (case e of
        ClaimInterface n W num \<Rightarrow>
          is_ret (claim_route n W devinst num) \<and> (\<forall>c. is_ret (route_path W devinst c))
      | _ \<Rightarrow> True)"

text \<open>A changed state of an interface does not matter.\<close>

lemma claims_ok_update:
  assumes "claims_ok d live s" "j < length live"
  shows "claims_ok d (live[j := (live ! j)\<lparr>wi_state := st\<rparr>]) s"
proof -
  let ?l = "live[j := (live ! j)\<lparr>wi_state := st\<rparr>]"
  have c: "claimed f ?l = claimed f live" for f
  proof -
    have "claimed f live = claimed f (take j live @ live ! j # drop (Suc j) live)"
      using id_take_nth_drop [OF assms(2)] by simp
    then show ?thesis by (simp add: upd_conv_take_nth_drop assms(2) claimed_append claimed_Cons)
  qed
  have m: "map intf_handles ?l = map intf_handles live"
    using assms(2) by (auto simp: map_update intf_handles_def intro!: list_update_id [symmetric] nth_equalityI)
       (auto simp: nth_list_update intf_handles_def)
  have e: "entry_ok f fh ?l = entry_ok f fh live" for f fh by (simp add: entry_ok_def c)
  have i: "\<exists>fh. btree_get (wd_handles d) (wi_first_interface_number i) = Some fh \<and> intf_of fh i"
    if "i \<in> set ?l" for i
  proof -
    from that obtain k where k: "k < length live" "i = ?l ! k" by (auto simp: in_set_conv_nth)
    then have "live ! k \<in> set live" by simp
    with assms(1) obtain fh where "btree_get (wd_handles d) (wi_first_interface_number (live ! k)) = Some fh"
      "intf_of fh (live ! k)" by (auto simp: claims_ok_def table_ok_def)
    with k show ?thesis by (cases "k = j") (auto simp: intf_of_def)
  qed
  from assms(1) i show ?thesis
    unfolding claims_ok_def table_ok_def live_handles_def m e by blast
qed

lemma live_handle_open:
  assumes "claims_ok d live s" "i \<in> set live"
  shows "os_using (HWinusb, wi_winusb_handle i) f s = f s"
proof (rule os_using_open)
  let ?H = "table_handles (wd_handles d) + live_handles live"
  show "os_has ?H s" using assms(1) by (simp add: claims_ok_def)
  show "(HWinusb, wi_winusb_handle i) \<in># ?H"
  proof (cases "wi_interface_number i = wi_first_interface_number i")
    case True
    with assms obtain fh where fh: "btree_get (wd_handles d) (wi_first_interface_number i) = Some fh"
      "wi_winusb_handle i = fh_winusb_handle fh"
      by (auto simp: claims_ok_def table_ok_def intf_of_def)
    with table_handles_member [OF fh(1)] show ?thesis by (simp add: file_handles_def)
  next
    case False
    then have "(HWinusb, wi_winusb_handle i) \<in># intf_handles i" by (simp add: intf_handles_def)
    with assms(2) have "(HWinusb, wi_winusb_handle i) \<in># live_handles live"
      unfolding live_handles_def by (induction live) auto
    then show ?thesis by simp
  qed
qed

lemma claims_ok_answer:
  assumes "claims_ok d live s"
  obtains r s' where "os_reply (\<lambda>s. (0, s)) s = (r, s')" "claims_ok d live s'"
proof -
  from assms have "os_has (table_handles (wd_handles d) + live_handles live) s" by (simp add: claims_ok_def)
  from os_reply_unit [OF this] obtain r s' where "os_reply (\<lambda>s. (0, s)) s = (r, s')"
    "os_has (table_handles (wd_handles d) + live_handles live) s'" by blast
  with assms show thesis by (intro that) (simp_all add: claims_ok_def)
qed

lemma claim_step_ok:
  assumes ok: "claims_ok d live s" and ans: "event_answers (wd_devinst d) e"
  shows "\<exists>d' live' s'. claim_step e (d, live, s) = Ret (d', live', s') \<and> wd_devinst d' = wd_devinst d \<and>
    claims_ok d' live' s'"
proof (cases e)
  case (ClaimInterface n W num)
  with ans obtain r where "claim_route n W (wd_devinst d) num = Ret r"
    "\<And>c. is_ret (route_path W (wd_devinst d) c)" by (auto simp: event_answers_def is_ret_iff)
  from claim_ok [OF ok this] obtain res d' s' where
    "windows_claim_interface win_os_call n W num d s = Ret (res, d', s')" "wd_devinst d' = wd_devinst d"
    "case res of Inl e \<Rightarrow> claims_ok d' live s' | Inr i \<Rightarrow> claims_ok d' (i # live) s' \<and> wi_interface_number i = num"
    by blast
  with ClaimInterface show ?thesis by (cases res) (simp_all add: claim_step_def)
next
  case (SetAltSetting j alt)
  show ?thesis
  proof (cases "j < length live \<and> endpoint_is_empty (wis_endpoints (wi_state (live ! j)))")
    case True
    from claims_ok_answer [OF ok] obtain r s' where r: "os_reply (\<lambda>s. (0, s)) s = (r, s')" "claims_ok d live s'" .
    have "live ! j \<in> set live" using True by simp
    with r live_handle_open [OF ok] have
      "win_os_call (WinUsb_SetCurrentAlternateSetting (wi_winusb_handle (live ! j)) alt) s = (r, s')" by simp
    with True SetAltSetting r(2) claims_ok_update [OF r(2), of j] show ?thesis
      by (cases r) (simp_all add: claim_step_def windows_set_alt_setting_def)
  next
    case False
    with SetAltSetting ok show ?thesis by (auto simp: claim_step_def windows_set_alt_setting_def)
  qed
next
  case (ClearHalt j ep)
  show ?thesis
  proof (cases "j < length live")
    case True
    from claims_ok_answer [OF ok] obtain r s' where r: "os_reply (\<lambda>s. (0, s)) s = (r, s')" "claims_ok d live s'" .
    have "live ! j \<in> set live" using True by simp
    with r live_handle_open [OF ok] have "win_os_call (WinUsb_ResetPipe (wi_winusb_handle (live ! j)) ep) s = (r, s')" by simp
    with True ClearHalt r(2) show ?thesis by (cases r) (simp_all add: claim_step_def windows_clear_halt_def)
  qed (use ClearHalt ok in \<open>simp add: claim_step_def\<close>)
next
  case (DropInterface j)
  show ?thesis
  proof (cases "j < length live")
    case True
    then have "live = take j live @ live ! j # drop (Suc j) live" by (rule id_take_nth_drop)
    with drop_ok [of d "take j live" "live ! j" "drop (Suc j) live" s] ok obtain d' s' where
      "windows_interface_drop win_os_call (live ! j) d s = Ret (d', s')" "wd_devinst d' = wd_devinst d"
      "claims_ok d' (take j live @ drop (Suc j) live) s'" by auto
    with True DropInterface show ?thesis by (simp add: claim_step_def)
  qed (use DropInterface ok in \<open>simp add: claim_step_def\<close>)
qed

lemma claim_run_ok:
  assumes "claims_ok d live s" "list_all (event_answers (wd_devinst d)) es"
  shows "\<exists>d' live' s'. claim_run es (d, live, s) = Ret (d', live', s') \<and> wd_devinst d' = wd_devinst d \<and>
    claims_ok d' live' s'"
  using assms
proof (induction es arbitrary: d live s)
  case (Cons e es)
  from Cons.prems claim_step_ok [of d live s e] obtain d1 l1 s1 where
    "claim_step e (d, live, s) = Ret (d1, l1, s1)" "wd_devinst d1 = wd_devinst d" "claims_ok d1 l1 s1" by auto
  with Cons.IH [of d1 l1 s1] Cons.prems show ?case by simp
qed simp

lemma claimed_distinct:
  "\<forall>f. distinct (claimed f live) \<Longrightarrow>
    distinct (map (\<lambda>i. (wi_first_interface_number i, wi_interface_number i)) live)"
proof (induction live)
  case (Cons i live)
  have "distinct (claimed f live)" for f
    using Cons.prems [rule_format, of f] by (simp add: claimed_Cons split: if_splits)
  moreover have "wi_interface_number i \<notin> set (claimed (wi_first_interface_number i) live)"
    using Cons.prems [rule_format, of "wi_first_interface_number i"] by (simp add: claimed_Cons)
  ultimately show ?case using Cons.IH by (auto simp: claimed_def)
qed simp

lemma claims_ok_distinct:
  assumes "claims_ok d live s"
  shows "distinct (claimed f live)" "btree_get (wd_handles d) f = None \<longleftrightarrow> claimed f live = []"
proof -
  from assms have t: "table_ok (wd_handles d) live" by (simp add: claims_ok_def)
  show n: "btree_get (wd_handles d) f = None \<longleftrightarrow> claimed f live = []"
  proof (cases "btree_get (wd_handles d) f")
    case None
    with t have "wi_first_interface_number i \<noteq> f" if "i \<in> set live" for i using that by (fastforce simp: table_ok_def)
    with None show ?thesis by (auto simp: claimed_def filter_empty_conv)
  next
    case (Some fh)
    with t show ?thesis by (simp add: table_ok_def entry_ok_def)
  qed
  show "distinct (claimed f live)"
  proof (cases "btree_get (wd_handles d) f")
    case (Some fh)
    with t have "distinct (map unat (claimed f live))" by (simp add: table_ok_def entry_ok_def tracks_def)
    then show ?thesis by (simp add: distinct_map)
  qed (use n in simp)
qed

lemma claim_busy:
  assumes ok: "claims_ok d live s" and route: "claim_route n W (wd_devinst d) num = Ret (Inr (f, c))"
    and num: "num \<in> set (claimed f live)"
  shows "windows_claim_interface K n W num d k =
    Ret (Inl (error_new KBusy ''interface is already claimed''), d, k)"
proof -
  from ok have t: "table_ok (wd_handles d) live" by (simp add: claims_ok_def)
  from num obtain fh where fh: "btree_get (wd_handles d) f = Some fh"
    using claims_ok_distinct(2) [OF ok, of f] by (cases "btree_get (wd_handles d) f") auto
  with t have e: "entry_ok f fh live" and bt: "btree_ok (wd_handles d)" by (simp_all add: table_ok_def)
  then have "bitset256_is_set (fh_claimed_interfaces fh) num" using num by (auto simp: entry_ok_def tracks_def)
  with e route_first_le [OF route] btree_insert_same [OF bt fh] fh route show ?thesis
    by (simp add: windows_claim_interface_def file_handle_claim_interface_def entry_ok_def)
qed

text \<open>
  C12. Claiming interfaces on Windows is safe: whatever is claimed, changed and dropped in whatever
  order, whatever calls fail and whatever the system says about the device (so long as its look-ups in the
  device tree return: the code unwraps the registry key of the device), nothing panics; a handle
  is used only while it is open and closed exactly once; the open handles are those of the functions
  with a claimed interface and of the associated interfaces that are alive, so none is left when no
  interface is; no interface of a function is given out twice, and claiming one that is given out
  fails with Busy, without a call and without a change.
\<close>

theorem windows_claims_safe:
  assumes "wd_handles d = []" "list_all (event_answers (wd_devinst d)) es"
  shows "\<exists>d' live s. claim_run es (d, [], os_init answers) = Ret (d', live, s) \<and> \<not> os_bad s \<and>
    mset (os_open s) = table_handles (wd_handles d') + live_handles live \<and>
    set (map fst (wd_handles d')) = set (map wi_first_interface_number live) \<and>
    distinct (map (\<lambda>i. (wi_first_interface_number i, wi_interface_number i)) live) \<and>
    (\<forall>n W num f c. claim_route n W (wd_devinst d) num = Ret (Inr (f, c)) \<longrightarrow>
      (f, num) \<in> set (map (\<lambda>i. (wi_first_interface_number i, wi_interface_number i)) live) \<longrightarrow>
      windows_claim_interface win_os_call n W num d' s =
        Ret (Inl (error_new KBusy ''interface is already claimed''), d', s))"
proof -
  have "claims_ok d [] (os_init answers)"
    using assms(1) by (simp add: claims_ok_def table_ok_def table_handles_def live_handles_def os_has_init)
  from claim_run_ok [OF this assms(2)] obtain d' live s where
    r: "claim_run es (d, [], os_init answers) = Ret (d', live, s)" "wd_devinst d' = wd_devinst d"
      "claims_ok d' live s" by blast
  have keys: "set (map fst (wd_handles d')) = set (map wi_first_interface_number live)"
  proof (intro set_eqI)
    fix f
    have "f \<in> set (map fst (wd_handles d')) \<longleftrightarrow> btree_get (wd_handles d') f \<noteq> None"
      by (simp add: btree_get_def map_of_eq_None_iff)
    also have "\<dots> \<longleftrightarrow> f \<in> set (map wi_first_interface_number live)"
      using claims_ok_distinct(2) [OF r(3), of f] by (auto simp: claimed_def filter_empty_conv)
    finally show "f \<in> set (map fst (wd_handles d')) \<longleftrightarrow> f \<in> set (map wi_first_interface_number live)" .
  qed
  have busy: "windows_claim_interface win_os_call n W num d' s =
      Ret (Inl (error_new KBusy ''interface is already claimed''), d', s)"
    if "claim_route n W (wd_devinst d) num = Ret (Inr (f, c))"
      "(f, num) \<in> set (map (\<lambda>i. (wi_first_interface_number i, wi_interface_number i)) live)" for n W num f c
    using that r(2) by (intro claim_busy [OF r(3), of n W num f c]) (auto simp: claimed_def)
  have "os_has (table_handles (wd_handles d') + live_handles live) s" using r(3) by (simp add: claims_ok_def)
  then show ?thesis
    using r(1) keys busy claimed_distinct [of live] claims_ok_distinct(1) [OF r(3)] by (auto simp: os_has_def)
qed

text \<open>A device bound to WinUSB as a whole, with the path \<open>A\<close>.\<close>

definition winusb_system :: winsys where
  "winusb_system =
     \<lparr>ws_property = (\<lambda>d k. if k = KeyService then Some (PropString (wc_from_os (map of_char ''WinUSB'')))
        else if k = KeyInstanceId then Some (PropString [88, 0]) else None),
      ws_interface_property = (\<lambda>i k. None), ws_locate = (\<lambda>i. None),
      ws_parent = (\<lambda>d. None), ws_child = (\<lambda>d. None), ws_sibling = (\<lambda>d. None),
      ws_interface_list = (\<lambda>g i. [(Some 3, ListOk [65, 0, 0])]),
      ws_registry = (\<lambda>d. Some (\<lambda>s. Inr (OtherGuid 0))),
      ws_create_file = (\<lambda>p. Inl 2), ws_hub_connection = (\<lambda>p n. Inl 2),
      ws_hub_connection_v2 = (\<lambda>p n. Inl 2), ws_hub_descriptor = (\<lambda>p n t i l len. Inl 2)\<rparr>"

lemma winusb_system_answers:
  "is_ret (claim_route n winusb_system d num)" "is_ret (route_path winusb_system d c)"
proof -
  have p: "ws_property winusb_system d = ws_property winusb_system 0" for d :: u32
    by (simp add: winusb_system_def fun_eq_iff)
  have l: "ws_interface_list winusb_system g i = ws_interface_list winusb_system (OtherGuid 0) None" for g i
    by (simp add: winusb_system_def)
  have "get_property_os_string winusb_system 0 KeyService = Ret (Some (map of_char ''WinUSB''))"
    "get_driver_name winusb_system 0 = Ret ''WinUSB''" "instance_id winusb_system 0 = Ret [88, 0]"
    "list_interfaces winusb_system (OtherGuid 0) None = Ret [[65, 0]]" by code_simp+
  then have f: "get_property_os_string winusb_system d KeyService = Ret (Some (map of_char ''WinUSB''))"
    "get_driver_name winusb_system d = Ret ''WinUSB''"
    "devinst_interfaces winusb_system d g = Ret [[65, 0]]" for d g
    using p [of d] l [of g "Some [88, 0]"]
    by (simp_all add: get_property_os_string_def get_driver_name_def instance_id_def
        devinst_interfaces_def list_interfaces_def)
  have e: "eq_ignore_ascii_case ''WinUSB'' ''winusb''" by code_simp
  then show "is_ret (claim_route n winusb_system d num)" by (simp add: claim_route_def f)
  have g: "ws_registry winusb_system d = Some (\<lambda>s. Inr (OtherGuid 0))" for d by (simp add: winusb_system_def)
  show "is_ret (route_path winusb_system d c)"
    by (cases c) (simp_all add: route_path_def get_winusb_device_path_def get_usbccgp_winusb_device_path_def f g Let_def)
qed

theorem windows_claims_safe_witness:
  "\<exists>d s. claim_run [ClaimInterface 1 winusb_system 0, ClaimInterface 1 winusb_system 2,
        ClaimInterface 1 winusb_system 2, SetAltSetting 0 1, DropInterface 1, DropInterface 0]
      (\<lparr>wd_device_descriptor = [], wd_config_descriptors = [], wd_active_config = 1, wd_speed = None,
        wd_devinst = 7, wd_handles = []\<rparr>, [], os_init []) = Ret (d, [], s) \<and>
    \<not> os_bad s \<and> os_next s = 4 \<and> os_open s = []"
proof -
  let ?d = "\<lparr>wd_device_descriptor = [], wd_config_descriptors = [], wd_active_config = 1, wd_speed = None,
        wd_devinst = 7, wd_handles = []\<rparr>"
  let ?es = "[ClaimInterface 1 winusb_system 0, ClaimInterface 1 winusb_system 2,
        ClaimInterface 1 winusb_system 2, SetAltSetting 0 1, DropInterface 1, DropInterface 0]"
  have ans: "list_all (event_answers (wd_devinst ?d)) ?es"
    by (simp add: event_answers_def winusb_system_answers)
  have run: "omap (\<lambda>(d, live, s). (wd_handles d, live, os_next s)) (claim_run ?es (?d, [], os_init [])) =
      Ret ([], [], 4)" by code_simp
  have h: "wd_handles ?d = []" by simp
  from windows_claims_safe [OF h ans, of "[]"] obtain d' live s where
    r: "claim_run ?es (?d, [], os_init []) = Ret (d', live, s)" "\<not> os_bad s"
      "mset (os_open s) = table_handles (wd_handles d') + live_handles live" by blast
  from run [unfolded r(1)] have "wd_handles d' = []" "live = []" "os_next s = 4" by simp_all
  with r(3) have "os_open s = []" by (simp add: table_handles_def live_handles_def)
  with r(1,2) \<open>live = []\<close> \<open>os_next s = 4\<close> show ?thesis by blast
qed

end
