(* ===== verification/Transfer_Queue.thy ===== *)
theory Transfer_Queue
  imports Ownership Backend
begin

text \<open>
  The part that the Windows and the macOS endpoint share word for word: a queue of pending transfers
  and one idle transfer that is used again (\<open>make_transfer\<close>, \<open>poll_next_complete\<close> and
  \<open>wait_next_complete\<close> of src/src/platform/windows_winusb/device.rs and
  src/src/platform/macos_iokit/device.rs). What a platform has to promise of its \<open>TransferData\<close> is the
  locale \<open>platform_transfers\<close>.
\<close>

section \<open>Operations\<close>

text \<open>\<open>make_transfer\<close>: the idle transfer or a new one, then \<open>put_buffer\<close>.\<close>

definition queue_make_transfer ::
  "(Buffer \<Rightarrow> 'p \<Rightarrow> 'p outcome) \<Rightarrow> 'p \<Rightarrow> nat \<Rightarrow> Buffer \<Rightarrow> Idle option \<Rightarrow> 'p tx_heap \<Rightarrow>
   (Idle \<times> 'p tx_heap) outcome" where
  "queue_make_transfer put_buffer new notify b idle h =
     (case (case idle of Some t \<Rightarrow> (t, h) | None \<Rightarrow> idle_new notify new h) of
        (t, h) \<Rightarrow>
          obind (idle_deref t h) (\<lambda>d.
          obind (put_buffer b d) (\<lambda>d'.
          obind (idle_deref_mut (\<lambda>_. d') t h) (\<lambda>h'. Ret (t, h')))))"

text \<open>
  The body of \<open>poll_next_complete\<close> and of the closure of \<open>wait_next_complete\<close>; assigning
  \<open>idle_transfer\<close> drops the transfer that was kept before.
\<close>

definition queue_take ::
  "('p \<Rightarrow> (Completion \<times> 'p) outcome) \<Rightarrow> Pending list \<Rightarrow> Idle option \<Rightarrow> 'p tx_heap \<Rightarrow>
   (Completion option \<times> Pending list \<times> Idle option \<times> 'p tx_heap) outcome" where
  "queue_take take_completion pending idle h =
     obind (take_completed_from_queue pending h) (\<lambda>(r, q).
       case r of
         None \<Rightarrow> Ret (None, q, idle, h)
       | Some t \<Rightarrow>
           obind (idle_deref t h) (\<lambda>d.
           obind (take_completion d) (\<lambda>(c, d').
           obind (idle_deref_mut (\<lambda>_. d') t h) (\<lambda>h.
           obind (case idle of None \<Rightarrow> Ret h | Some old \<Rightarrow> idle_drop old h) (\<lambda>h.
             Ret (Some c, q, Some t, h))))))"

text \<open>The handler: the system has changed the data of the block, then \<open>notify_completion\<close>.\<close>

definition complete_with ::
  "('p \<Rightarrow> 'p) \<Rightarrow> nat \<Rightarrow> 'p tx_heap \<Rightarrow> (NotifyState \<times> 'p tx_heap) outcome" where
  "complete_with f p h =
     obind (th_load h p) (\<lambda>i.
       notify_completion p (th_store p (i\<lparr>ti_platform_data := f (ti_platform_data i)\<rparr>) h))"

section \<open>The invariant\<close>

definition data_at :: "'p tx_heap \<Rightarrow> nat \<Rightarrow> 'p option" where
  "data_at h p = map_option ti_platform_data (th_mem h p)"

lemma data_at_Some: "data_at h p = Some d \<longleftrightarrow> (\<exists>i. th_mem h p = Some i \<and> ti_platform_data i = d)"
  by (auto simp: data_at_def)

lemma data_at_store: "data_at (th_store p i h) q = (if q = p then Some (ti_platform_data i) else data_at h q)"
  by (simp add: data_at_def th_mem_store)

lemma data_at_subscribe [simp]: "data_at (notify_subscribe n w h) p = data_at h p"
  by (simp add: data_at_def notify_subscribe_def)

text \<open>The pending transfers hold the buffers of the queue, in order.\<close>

definition pending_hold :: "(Buffer \<Rightarrow> 'p \<Rightarrow> bool) \<Rightarrow> 'p tx_heap \<Rightarrow> Pending list \<Rightarrow> Buffer list \<Rightarrow> bool" where
  "pending_hold holds h pending bufs \<longleftrightarrow>
     list_all buffer_ok bufs \<and>
     list_all2 (\<lambda>t b. \<exists>d. data_at h (pending_ptr t) = Some d \<and> holds b d) pending bufs"

definition queue_ok ::
  "('p \<Rightarrow> bool) \<Rightarrow> (Buffer \<Rightarrow> 'p \<Rightarrow> bool) \<Rightarrow> 'p tx_heap \<Rightarrow> Idle option \<Rightarrow> Pending list \<Rightarrow> Buffer list \<Rightarrow>
   nat list \<Rightarrow> bool" where
  "queue_ok vacant holds h idle pending bufs ks \<longleftrightarrow>
     own_ok h (case idle of None \<Rightarrow> [] | Some t \<Rightarrow> [t]) pending ks \<and>
     (case idle of None \<Rightarrow> True | Some t \<Rightarrow> \<exists>d. data_at h (idle_ptr t) = Some d \<and> vacant d) \<and>
     pending_hold holds h pending bufs"

text \<open>Between \<open>make_transfer\<close> and the submission: \<open>t\<close> holds the new buffer.\<close>

definition filled_ok ::
  "(Buffer \<Rightarrow> 'p \<Rightarrow> bool) \<Rightarrow> 'p tx_heap \<Rightarrow> Idle \<Rightarrow> Buffer \<Rightarrow> Pending list \<Rightarrow> Buffer list \<Rightarrow> nat list \<Rightarrow> bool"
where
  "filled_ok holds h t b pending bufs ks \<longleftrightarrow>
     own_ok h [t] pending ks \<and> buffer_ok b \<and> (\<exists>d. data_at h (idle_ptr t) = Some d \<and> holds b d) \<and>
     pending_hold holds h pending bufs"

lemma own_ok_perm: "own_ok h ids q ks \<Longrightarrow> distinct ks' \<Longrightarrow> set ks' = set ks \<Longrightarrow> own_ok h ids q ks'"
  by (simp add: own_ok_def sys_ok_def expected_state_def)

lemma own_ok_th_mem_Some: "th_mem h p = Some i \<Longrightarrow> data_at h p = Some (ti_platform_data i)"
  by (simp add: data_at_def)

lemma pending_hold_frame:
  assumes "pending_hold holds h pending bufs" "\<And>t. t \<in> set pending \<Longrightarrow> data_at h' (pending_ptr t) = data_at h (pending_ptr t)"
  shows "pending_hold holds h' pending bufs"
  using assms unfolding pending_hold_def by (auto intro: list.rel_mono_strong)

lemma idle_not_queued:
  assumes "own_ok h ids q ks" "t \<in> set ids" "u \<in> set q"
  shows "pending_ptr u \<noteq> idle_ptr t"
proof
  assume "pending_ptr u = idle_ptr t"
  then have "Pending (idle_ptr t) \<in> set q" using assms(3) by (metis Pending.collapse)
  with own_idle [OF assms(1,2)] show False by metis
qed

lemma pending_hold_change:
  assumes "pending_hold holds h pending bufs" "th_mem h p = Some i"
    "\<And>b. holds b (ti_platform_data i) \<Longrightarrow> holds b (ti_platform_data j)"
  shows "pending_hold holds (th_store p j h) pending bufs"
proof -
  have "\<exists>d. data_at (th_store p j h) (pending_ptr t) = Some d \<and> holds b d"
    if "\<exists>d. data_at h (pending_ptr t) = Some d \<and> holds b d" for t b
    using that assms(2,3) by (cases "pending_ptr t = p") (auto simp: data_at_store data_at_Some)
  with assms(1) show ?thesis unfolding pending_hold_def by (auto intro: list.rel_mono_strong)
qed

lemma pending_hold_snoc:
  "pending_hold holds h (pending @ [t]) (bufs @ [b]) \<longleftrightarrow>
    pending_hold holds h pending bufs \<and> buffer_ok b \<and> (\<exists>d. data_at h (pending_ptr t) = Some d \<and> holds b d)"
  if "length pending = length bufs"
  using that by (auto simp: pending_hold_def list_all2_append)

lemma pending_hold_length: "pending_hold holds h pending bufs \<Longrightarrow> length pending = length bufs"
  by (auto simp: pending_hold_def dest: list_all2_lengthD)

section \<open>The contract of the platform\<close>

text \<open>\<open>vacant\<close>: a transfer without a buffer; \<open>holds b\<close>: one that has the buffer \<open>b\<close>.\<close>

locale platform_transfers =
  fixes put_buffer :: "Buffer \<Rightarrow> 'p \<Rightarrow> 'p outcome"
    and take_completion :: "'p \<Rightarrow> (Completion \<times> 'p) outcome"
    and A :: "Allocator set"
    and D :: Direction
    and vacant :: "'p \<Rightarrow> bool"
    and holds :: "Buffer \<Rightarrow> 'p \<Rightarrow> bool"
  assumes put_holds: "vacant d \<Longrightarrow> buffer_ok b \<Longrightarrow> \<exists>d'. put_buffer b d = Ret d' \<and> holds b d'"
    and take_returns: "holds b d \<Longrightarrow> buffer_ok b \<Longrightarrow>
      \<exists>c d'. take_completion d = Ret (c, d') \<and> vacant d' \<and> returned_for A D b c"
begin

abbreviation "q_ok \<equiv> queue_ok vacant holds"
abbreviation "f_ok \<equiv> filled_ok holds"

lemma make_ok:
  assumes ok: "q_ok h idle pending bufs ks" and new: "vacant new" and b: "buffer_ok b"
  shows "\<exists>t h'. queue_make_transfer put_buffer new n b idle h = Ret (t, h') \<and> f_ok h' t b pending bufs ks"
proof -
  obtain t h1 where t: "(case idle of Some t \<Rightarrow> (t, h) | None \<Rightarrow> idle_new n new h) = (t, h1)" by fastforce
  have h1: "own_ok h1 [t] pending ks \<and> (\<exists>d. data_at h1 (idle_ptr t) = Some d \<and> vacant d) \<and>
      pending_hold holds h1 pending bufs"
  proof (cases idle)
    case (Some u)
    with t ok show ?thesis by (simp add: queue_ok_def)
  next
    case None
    from ok None have own: "own_ok h [] pending ks" and hold: "pending_hold holds h pending bufs"
      by (simp_all add: queue_ok_def)
    from t None have new': "idle_new n new h = (t, h1)" by simp
    note o = own_new [OF own new']
    have "data_at h1 q = (if q = idle_ptr t then Some new else data_at h q)" for q
      using o(2,3) by (simp add: data_at_def th_store_def)
    moreover have "pending_ptr u \<noteq> idle_ptr t" if "u \<in> set pending" for u
      using own_queue [OF own that] o(4) by force
    ultimately show ?thesis
      using o(1) \<open>vacant new\<close> hold by (auto intro: pending_hold_frame)
  qed
  then obtain i where i: "th_mem h1 (idle_ptr t) = Some i" "vacant (ti_platform_data i)"
    by (auto simp: data_at_Some)
  from put_holds [OF i(2) b] obtain d' where d': "put_buffer b (ti_platform_data i) = Ret d'" "holds b d'" by blast
  let ?h = "th_store (idle_ptr t) (i\<lparr>ti_platform_data := d'\<rparr>) h1"
  have "own_ok ?h [t] pending ks" using h1 by (intro own_store_data [OF _ i(1)]) simp_all
  moreover have "data_at ?h (pending_ptr u) = data_at h1 (pending_ptr u)" if "u \<in> set pending" for u
    using idle_not_queued [OF conjunct1 [OF h1] _ that, of t] by (simp add: data_at_store)
  with conjunct2 [OF conjunct2 [OF h1]] have "pending_hold holds ?h pending bufs"
    by (rule pending_hold_frame)
  moreover have "queue_make_transfer put_buffer new n b idle h = Ret (t, ?h)"
    unfolding queue_make_transfer_def t using i(1) d'(1) by (simp add: idle_deref_def idle_deref_mut_def th_load_def)
  ultimately show ?thesis using b d'(2) by (auto simp: filled_ok_def data_at_store)
qed

lemma change_filled:
  assumes ok: "f_ok h t b pending bufs ks" and f: "\<And>d. holds b d \<Longrightarrow> holds b (f d)"
  shows "\<exists>h'. idle_deref_mut f t h = Ret h' \<and> f_ok h' t b pending bufs ks"
proof -
  from ok obtain i where i: "th_mem h (idle_ptr t) = Some i" "holds b (ti_platform_data i)"
    by (auto simp: filled_ok_def data_at_Some)
  let ?h = "th_store (idle_ptr t) (i\<lparr>ti_platform_data := f (ti_platform_data i)\<rparr>) h"
  have own: "own_ok h [t] pending ks" using ok by (simp add: filled_ok_def)
  have hold: "pending_hold holds h pending bufs" using ok by (simp add: filled_ok_def)
  have "data_at ?h (pending_ptr u) = data_at h (pending_ptr u)" if "u \<in> set pending" for u
    using idle_not_queued [OF own _ that, of t] by (simp add: data_at_store)
  with hold have "pending_hold holds ?h pending bufs" by (rule pending_hold_frame)
  moreover have "own_ok ?h [t] pending ks" by (rule own_store_data [OF own i(1)]) simp
  ultimately show ?thesis
    using ok i f by (auto simp: filled_ok_def idle_deref_mut_def th_load_def data_at_store)
qed

lemma read_filled:
  assumes "f_ok h t b pending bufs ks"
  shows "\<exists>d. idle_deref t h = Ret d \<and> holds b d"
  using assms by (auto simp: filled_ok_def data_at_Some idle_deref_def th_load_def)

lemma submit_filled:
  assumes ok: "f_ok h t b pending bufs ks"
  shows "\<exists>h'. pre_submit t h = Ret (Pending (idle_ptr t), h') \<and>
    q_ok h' None (pending @ [Pending (idle_ptr t)]) (bufs @ [b]) (idle_ptr t # ks)"
proof -
  from ok obtain i where i: "th_mem h (idle_ptr t) = Some i" "holds b (ti_platform_data i)"
    by (auto simp: filled_ok_def data_at_Some)
  have own: "own_ok h [t] pending ks" using ok by (simp add: filled_ok_def)
  let ?h = "th_store (idle_ptr t) (i\<lparr>ti_state := STATE_PENDING\<rparr>) h"
  note o = own_submit [OF own _ i(1)]
  have hold: "pending_hold holds ?h pending bufs"
    using ok by (intro pending_hold_change [OF _ i(1)]) (simp_all add: filled_ok_def)
  have "pending_hold holds ?h (pending @ [Pending (idle_ptr t)]) (bufs @ [b])"
    unfolding pending_hold_snoc [OF pending_hold_length [OF hold]]
    using hold ok i(2) by (simp add: filled_ok_def data_at_store)
  with o show ?thesis by (simp add: queue_ok_def)
qed

lemma simulate_filled:
  assumes ok: "f_ok h t b pending bufs ks"
  shows "q_ok h None (pending @ [simulate_complete t]) (bufs @ [b]) ks"
proof -
  have own: "own_ok h [t] pending ks" using ok by (simp add: filled_ok_def)
  have hold: "pending_hold holds h pending bufs" using ok by (simp add: filled_ok_def)
  have "pending_hold holds h (pending @ [simulate_complete t]) (bufs @ [b])"
    unfolding pending_hold_snoc [OF pending_hold_length [OF hold]]
    using ok hold by (simp add: filled_ok_def simulate_complete_def)
  with own_simulate [OF own, of t] show ?thesis by (simp add: queue_ok_def)
qed

lemma complete_ok:
  assumes ok: "q_ok h idle pending bufs ks" and p: "p \<in> set ks" and f: "\<And>b d. holds b d \<Longrightarrow> holds b (f d)"
  shows "\<exists>w h'. complete_with f p h = Ret (w, h') \<and> q_ok h' idle pending bufs (remove1 p ks)"
proof -
  let ?ids = "case idle of None \<Rightarrow> [] | Some t \<Rightarrow> [t]"
  have own: "own_ok h ?ids pending ks" and hold: "pending_hold holds h pending bufs"
    using ok by (simp_all add: queue_ok_def)
  from own_kernel [OF own p] obtain i where i: "th_mem h p = Some i" "Idle p \<notin> set ?ids" by blast
  let ?j = "i\<lparr>ti_platform_data := f (ti_platform_data i)\<rparr>"
  let ?h = "th_store p ?j h"
  have own1: "own_ok ?h ?ids pending ks" by (rule own_store_data [OF own i(1)]) simp
  have hold1: "pending_hold holds ?h pending bufs" by (rule pending_hold_change [OF hold i(1)]) (simp add: f)
  from own_complete [OF own1 p] obtain w h' where
    c: "notify_completion p ?h = Ret (w, h')" "own_ok h' ?ids pending (remove1 p ks)"
      "\<And>r. r \<noteq> p \<Longrightarrow> th_mem h' r = th_mem ?h r"
      "if Pending p \<in> set pending
       then \<exists>i. th_mem ?h p = Some i \<and> th_mem h' p = Some (i\<lparr>ti_state := STATE_IDLE\<rparr>)
       else th_mem h' p = None" by blast
  have d: "data_at h' q = data_at ?h q" if "q \<noteq> p \<or> Pending p \<in> set pending" for q
    using c(3,4) that by (cases "q = p") (auto simp: data_at_def split: if_splits)
  have "data_at h' (pending_ptr t) = data_at ?h (pending_ptr t)" if "t \<in> set pending" for t
    using d [of "pending_ptr t"] that by (cases t) auto
  then have "pending_hold holds h' pending bufs" by (rule pending_hold_frame [OF hold1])
  moreover have "\<exists>d. data_at h' (idle_ptr t) = Some d \<and> vacant d" if "idle = Some t" for t
  proof -
    have "idle_ptr t \<noteq> p" using i(2) that by (cases t) auto
    then have "data_at h' (idle_ptr t) = data_at h (idle_ptr t)" using d [of "idle_ptr t"] by (simp add: data_at_store)
    with ok that show ?thesis by (simp add: queue_ok_def)
  qed
  ultimately show ?thesis
    using c(1,2) i(1) by (auto simp: complete_with_def th_load_def queue_ok_def split: option.split)
qed

lemma take_ok:
  assumes ok: "q_ok h idle pending (b # bs) ks"
  shows "\<exists>r pending' idle' h'. queue_take take_completion pending idle h = Ret (r, pending', idle', h') \<and>
    (case r of
       None \<Rightarrow> q_ok h' idle' pending' (b # bs) ks
     | Some c \<Rightarrow> q_ok h' idle' pending' bs ks \<and> returned_for A D b c)"
proof -
  let ?ids = "case idle of None \<Rightarrow> [] | Some t \<Rightarrow> [t]"
  have own: "own_ok h ?ids pending ks" and hold: "pending_hold holds h pending (b # bs)"
    using ok by (simp_all add: queue_ok_def)
  then obtain t q where q: "pending = t # q" by (cases pending) (auto simp: pending_hold_def)
  note tk = own_take [OF own [unfolded q]]
  show ?thesis
  proof (cases "pending_ptr t \<in> set ks")
    case True
    with tk(1) ok q show ?thesis by (auto simp: queue_take_def)
  next
    case False
    have own1: "own_ok h (Idle (pending_ptr t) # ?ids) q ks" by (rule tk(2) [OF False])
    from hold q obtain i where i: "th_mem h (pending_ptr t) = Some i" "holds b (ti_platform_data i)"
      "buffer_ok b" "pending_hold holds h q bs" by (auto simp: pending_hold_def data_at_Some)
    from take_returns [OF i(2,3)] obtain c d' where
      c: "take_completion (ti_platform_data i) = Ret (c, d')" "vacant d'" "returned_for A D b c" by blast
    let ?h = "th_store (pending_ptr t) (i\<lparr>ti_platform_data := d'\<rparr>) h"
    have own2: "own_ok ?h (Idle (pending_ptr t) # ?ids) q ks" by (rule own_store_data [OF own1 i(1)]) simp
    have ne: "pending_ptr u \<noteq> pending_ptr t" if "u \<in> set q" for u
      using idle_not_queued [OF own1 _ that, of "Idle (pending_ptr t)"] by simp
    have hold2: "pending_hold holds ?h q bs"
      using ne by (intro pending_hold_frame [OF i(4)]) (simp add: data_at_store)
    have run: "queue_take take_completion pending idle h =
        obind (case idle of None \<Rightarrow> Ret ?h | Some old \<Rightarrow> idle_drop old ?h) (\<lambda>h. Ret (Some c, q, Some (Idle (pending_ptr t)), h))"
      unfolding queue_take_def q tk(1) using False i(1) c(1)
      by (simp add: idle_deref_def idle_deref_mut_def th_load_def)
    show ?thesis
    proof (cases idle)
      case None
      with run own2 hold2 c show ?thesis by (auto simp: queue_ok_def data_at_store)
    next
      case (Some old)
      from own2 Some have own3: "own_ok ?h [Idle (pending_ptr t), old] q ks" by simp
      note dr = own_drop_idle [OF own3, of old]
      have old: "idle_ptr old \<noteq> pending_ptr t"
        using own_distinct(1) [OF own3] by (cases old) auto
      then have rm: "remove1 old [Idle (pending_ptr t), old] = [Idle (pending_ptr t)]" by auto
      let ?h2 = "?h\<lparr>th_mem := (th_mem ?h)(idle_ptr old := None)\<rparr>"
      have "pending_ptr u \<noteq> idle_ptr old" if "u \<in> set q" for u
        using that by (intro idle_not_queued [OF own3]) simp_all
      then have "pending_hold holds ?h2 q bs"
        by (intro pending_hold_frame [OF hold2]) (simp add: data_at_def)
      moreover have "data_at ?h2 (pending_ptr t) = Some d'" using old by (simp add: data_at_def th_store_def)
      ultimately show ?thesis using run Some dr c rm by (auto simp: queue_ok_def)
    qed
  qed
qed

lemma take_empty: "q_ok h idle pending [] ks \<Longrightarrow> queue_take take_completion pending idle h = Panic"
  by (auto simp: queue_ok_def pending_hold_def queue_take_def take_completed_from_queue_def)

lemma subscribe_ok: "q_ok h idle pending bufs ks \<Longrightarrow> q_ok (notify_subscribe n w h) idle pending bufs ks"
  by (auto simp: queue_ok_def pending_hold_def own_subscribe split: option.splits)

end

end
