(* ===== verification/Queue_Endpoint.thy ===== *)
theory Queue_Endpoint
  imports Transfer_Queue
begin

text \<open>
  The endpoint object that the Windows and the macOS backend share (\<open>WindowsEndpoint\<close> and
  \<open>MacEndpoint\<close>), on top of the queue of transfers, and an operating system that refuses and
  completes transfers as a script tells it. A platform that keeps the contract \<open>scripted_endpoint\<close> is
  a backend with the contract \<open>endpoint_backend\<close>.
\<close>

section \<open>The endpoint\<close>

record QueueEndpoint =
  qe_address :: u8
  qe_notify :: nat
  qe_max_packet_size :: nat
  qe_pending :: "Pending list"
  qe_idle_transfer :: "Idle option"

definition queue_endpoint_pending :: "'m QueueEndpoint_scheme \<Rightarrow> nat" where
  "queue_endpoint_pending ep = length (qe_pending ep)"

text \<open>\<open>submit_err\<close>: \<open>fail\<close> stores the error in the transfer.\<close>

definition queue_submit_err ::
  "(Buffer \<Rightarrow> 'p \<Rightarrow> 'p outcome) \<Rightarrow> 'p \<Rightarrow> ('p \<Rightarrow> 'p) \<Rightarrow> Buffer \<Rightarrow> 'm QueueEndpoint_scheme \<Rightarrow> 'p tx_heap \<Rightarrow>
   ('m QueueEndpoint_scheme \<times> 'p tx_heap) outcome" where
  "queue_submit_err put_buffer new fail b ep h =
     obind (queue_make_transfer put_buffer new (qe_notify ep) b (qe_idle_transfer ep) h) (\<lambda>(t, h).
     obind (idle_deref_mut fail t h) (\<lambda>h.
       Ret (ep\<lparr>qe_idle_transfer := None, qe_pending := qe_pending ep @ [simulate_complete t]\<rparr>, h)))"

definition queue_check ::
  "('p \<Rightarrow> (Completion \<times> 'p) outcome) \<Rightarrow> 'm QueueEndpoint_scheme \<Rightarrow> 'p tx_heap \<Rightarrow>
   (Completion option \<times> 'm QueueEndpoint_scheme \<times> 'p tx_heap) outcome" where
  "queue_check take_completion ep h =
     omap (\<lambda>(r, q, idle, h). (r, ep\<lparr>qe_pending := q, qe_idle_transfer := idle\<rparr>, h))
       (queue_take take_completion (qe_pending ep) (qe_idle_transfer ep) h)"

definition queue_poll ::
  "('p \<Rightarrow> (Completion \<times> 'p) outcome) \<Rightarrow> nat \<Rightarrow> 'm QueueEndpoint_scheme \<Rightarrow> 'p tx_heap \<Rightarrow>
   (Completion option \<times> 'm QueueEndpoint_scheme \<times> 'p tx_heap) outcome" where
  "queue_poll take_completion waker ep h =
     queue_check take_completion ep (notify_subscribe (qe_notify ep) waker h)"

text \<open>
  \<open>wait_next_complete\<close>: the transfer is looked for, then again after each of the completions that
  the thread of the system delivers before the timeout.
\<close>

fun queue_wait ::
  "('p \<Rightarrow> (Completion \<times> 'p) outcome) \<Rightarrow> ('p tx_heap \<times> 'k \<Rightarrow> ('p tx_heap \<times> 'k) outcome) \<Rightarrow> nat \<Rightarrow>
   'm QueueEndpoint_scheme \<Rightarrow> 'p tx_heap \<times> 'k \<Rightarrow>
   (Completion option \<times> 'm QueueEndpoint_scheme \<times> 'p tx_heap \<times> 'k) outcome" where
  "queue_wait take_completion event 0 ep (h, k) =
     omap (\<lambda>(r, ep, h). (r, ep, h, k)) (queue_check take_completion ep h)"
| "queue_wait take_completion event (Suc n) ep (h, k) =
     obind (queue_check take_completion ep h) (\<lambda>(r, ep, h).
       case r of
         Some c \<Rightarrow> Ret (Some c, ep, h, k)
       | None \<Rightarrow> obind (event (h, k)) (queue_wait take_completion event n ep))"

fun drop_pendings :: "Pending list \<Rightarrow> 'p tx_heap \<Rightarrow> 'p tx_heap outcome" where
  "drop_pendings [] h = Ret h"
| "drop_pendings (t # ts) h = obind (pending_drop t h) (drop_pendings ts)"

text \<open>The drop of an endpoint: its \<open>Drop\<close> (\<open>cancel_all\<close>), then the fields in their order.\<close>

definition queue_endpoint_drop ::
  "('m QueueEndpoint_scheme \<Rightarrow> 'k \<Rightarrow> 'k) \<Rightarrow> 'm QueueEndpoint_scheme \<Rightarrow> 'p tx_heap \<times> 'k \<Rightarrow>
   ('p tx_heap \<times> 'k) outcome" where
  "queue_endpoint_drop cancel_all ep s =
     (let k = (if qe_pending ep \<noteq> [] then cancel_all ep (snd s) else snd s)
      in obind (drop_pendings (qe_pending ep) (fst s)) (\<lambda>h.
         obind (case qe_idle_transfer ep of None \<Rightarrow> Ret h | Some t \<Rightarrow> idle_drop t h) (\<lambda>h. Ret (h, k))))"

section \<open>A scripted system\<close>

text \<open>
  The transfers the system has, the requests to cancel it was sent (the last one first: a transfer or a
  pipe), what it answers to the next submissions (a refusal with an error number, or not), and which
  transfer it completes next with which status and data.
\<close>

record tx_script =
  ts_inflight :: "nat list"
  ts_aborts :: "nat list"
  ts_submits :: "nat option list"
  ts_events :: "(nat \<times> nat \<times> bytes) list"

definition ts_accept :: "nat \<Rightarrow> tx_script \<Rightarrow> nat option \<times> tx_script" where
  "ts_accept p k =
     (case ts_submits k of
        Some e # r \<Rightarrow> (Some e, k\<lparr>ts_submits := r\<rparr>)
      | _ \<Rightarrow> (None, k\<lparr>ts_inflight := p # ts_inflight k, ts_submits := tl (ts_submits k)\<rparr>))"

definition ts_event ::
  "(nat \<Rightarrow> bytes \<Rightarrow> nat \<Rightarrow> 'p tx_heap \<times> tx_script \<Rightarrow> ('p tx_heap \<times> tx_script) outcome) \<Rightarrow>
   'p tx_heap \<times> tx_script \<Rightarrow> ('p tx_heap \<times> tx_script) outcome" where
  "ts_event completed s =
     (case s of (h, k) \<Rightarrow>
        (case ts_events k of
           [] \<Rightarrow> Ret (h, k)
         | (ix, status, data) # r \<Rightarrow>
             (if ts_inflight k = [] then Ret (h, k\<lparr>ts_events := r\<rparr>)
              else let p = ts_inflight k ! (ix mod length (ts_inflight k)) in
                completed status data p (h, k\<lparr>ts_inflight := remove1 p (ts_inflight k), ts_events := r\<rparr>))))"

text \<open>The endpoint, the heap, the system, and how many events fall into the next waits.\<close>

record ('p, 'm) qsys =
  qs_ep :: "'m QueueEndpoint_scheme"
  qs_heap :: "'p tx_heap"
  qs_kern :: tx_script
  qs_sched :: "nat list"
  qs_bufs :: "Buffer list"
  qs_past :: "Completion list"

text \<open>What the backends differ in.\<close>

record ('p, 'm) platform =
  pf_submit :: "Buffer \<Rightarrow> 'm QueueEndpoint_scheme \<Rightarrow> 'p tx_heap \<Rightarrow> tx_script \<Rightarrow>
    ('m QueueEndpoint_scheme \<times> 'p tx_heap \<times> tx_script) outcome"
  pf_submit_err :: "Buffer \<Rightarrow> TransferError \<Rightarrow> 'm QueueEndpoint_scheme \<Rightarrow> 'p tx_heap \<Rightarrow>
    ('m QueueEndpoint_scheme \<times> 'p tx_heap) outcome"
  pf_take :: "'m QueueEndpoint_scheme \<Rightarrow> 'p \<Rightarrow> (Completion \<times> 'p) outcome"
  pf_completed :: "nat \<Rightarrow> bytes \<Rightarrow> nat \<Rightarrow> 'p tx_heap \<times> tx_script \<Rightarrow> ('p tx_heap \<times> tx_script) outcome"
  pf_cancel_all :: "'m QueueEndpoint_scheme \<Rightarrow> tx_script \<Rightarrow> tx_script"

definition qs_submit :: "('p, 'm) platform \<Rightarrow> Buffer \<Rightarrow> ('p, 'm) qsys \<Rightarrow> ('p, 'm) qsys outcome" where
  "qs_submit P b e =
     omap (\<lambda>(ep, h, k). e\<lparr>qs_ep := ep, qs_heap := h, qs_kern := k, qs_bufs := qs_bufs e @ [b]\<rparr>)
       (pf_submit P b (qs_ep e) (qs_heap e) (qs_kern e))"

definition qs_submit_err ::
  "('p, 'm) platform \<Rightarrow> Buffer \<Rightarrow> TransferError \<Rightarrow> ('p, 'm) qsys \<Rightarrow> ('p, 'm) qsys outcome" where
  "qs_submit_err P b err e =
     omap (\<lambda>(ep, h). e\<lparr>qs_ep := ep, qs_heap := h, qs_bufs := qs_bufs e @ [b]\<rparr>)
       (pf_submit_err P b err (qs_ep e) (qs_heap e))"

definition qs_completed ::
  "('p, 'm) qsys \<Rightarrow> Completion option \<times> 'm QueueEndpoint_scheme \<times> 'p tx_heap \<times> tx_script \<Rightarrow>
   Completion option \<times> ('p, 'm) qsys" where
  "qs_completed e x =
     (case x of (c, ep, h, k) \<Rightarrow>
        (c, e\<lparr>qs_ep := ep, qs_heap := h, qs_kern := k, qs_sched := tl (qs_sched e),
              qs_bufs := (case c of None \<Rightarrow> qs_bufs e | Some _ \<Rightarrow> tl (qs_bufs e)),
              qs_past := (case c of None \<Rightarrow> qs_past e | Some c \<Rightarrow> qs_past e @ [c])\<rparr>))"

definition qs_moments :: "('p, 'm) qsys \<Rightarrow> nat" where
  "qs_moments e = (case qs_sched e of [] \<Rightarrow> 0 | n # _ \<Rightarrow> n)"

definition qs_wait ::
  "('p, 'm) platform \<Rightarrow> Duration \<Rightarrow> ('p, 'm) qsys \<Rightarrow> (Completion option \<times> ('p, 'm) qsys) outcome" where
  "qs_wait P timeout e =
     omap (qs_completed e)
       (queue_wait (pf_take P (qs_ep e)) (ts_event (pf_completed P)) (qs_moments e) (qs_ep e) (qs_heap e, qs_kern e))"

fun qs_events ::
  "('p, 'm) platform \<Rightarrow> nat \<Rightarrow> 'p tx_heap \<times> tx_script \<Rightarrow> ('p tx_heap \<times> tx_script) outcome" where
  "qs_events P 0 s = Ret s"
| "qs_events P (Suc n) s = obind (ts_event (pf_completed P) s) (qs_events P n)"

definition qs_poll ::
  "('p, 'm) platform \<Rightarrow> nat \<Rightarrow> ('p, 'm) qsys \<Rightarrow> (Completion option \<times> ('p, 'm) qsys) outcome" where
  "qs_poll P waker e =
     obind (qs_events P (qs_moments e) (qs_heap e, qs_kern e)) (\<lambda>(h, k).
     omap (\<lambda>(r, ep, h). qs_completed e (r, ep, h, k)) (queue_poll (pf_take P (qs_ep e)) waker (qs_ep e) h))"

definition qs_cancel_all :: "('p, 'm) platform \<Rightarrow> ('p, 'm) qsys \<Rightarrow> ('p, 'm) qsys outcome" where
  "qs_cancel_all P e = Ret (e\<lparr>qs_kern := pf_cancel_all P (qs_ep e) (qs_kern e)\<rparr>)"

text \<open>
  \<open>Endpoint::allocate\<close> has no branch for these platforms; the length is converted by the
  \<open>Buffer::new\<close> that follows.
\<close>

definition qs_allocate :: "nat \<Rightarrow> ('p, 'm) qsys \<Rightarrow> (i32 + Buffer) outcome" where
  "qs_allocate n e = omap (\<lambda>_. Inl 0) (unwrap (try_u32 n))"

definition queue_backend :: "('p, 'm) platform \<Rightarrow> ('p, 'm) qsys backend" where
  "queue_backend P =
     \<lparr>be_address = qe_address \<circ> qs_ep, be_max_packet_size = qe_max_packet_size \<circ> qs_ep,
      be_pending = queue_endpoint_pending \<circ> qs_ep, be_allocate = qs_allocate, be_submit = qs_submit P,
      be_submit_err = qs_submit_err P, be_wait = qs_wait P, be_poll = qs_poll P,
      be_cancel_all = qs_cancel_all P\<rparr>"

lemma queue_backend_sel [simp]:
  "be_address (queue_backend P) e = qe_address (qs_ep e)"
  "be_max_packet_size (queue_backend P) e = qe_max_packet_size (qs_ep e)"
  "be_pending (queue_backend P) e = queue_endpoint_pending (qs_ep e)"
  "be_allocate (queue_backend P) = qs_allocate" "be_submit (queue_backend P) = qs_submit P"
  "be_submit_err (queue_backend P) = qs_submit_err P" "be_wait (queue_backend P) = qs_wait P"
  "be_poll (queue_backend P) = qs_poll P" "be_cancel_all (queue_backend P) = qs_cancel_all P"
  by (simp_all add: queue_backend_def)

section \<open>The contract\<close>

text \<open>The invariant of an endpoint with the buffers it has and the transfers the system has.\<close>

definition qe_ok ::
  "('p \<Rightarrow> bool) \<Rightarrow> (Buffer \<Rightarrow> 'p \<Rightarrow> bool) \<Rightarrow> 'm QueueEndpoint_scheme \<Rightarrow> 'p tx_heap \<Rightarrow> Buffer list \<Rightarrow> nat list \<Rightarrow> bool"
where
  "qe_ok vacant holds ep h bufs ks \<longleftrightarrow>
     queue_ok vacant holds h (qe_idle_transfer ep) (qe_pending ep) bufs ks"

definition qe_same :: "'m QueueEndpoint_scheme \<Rightarrow> 'm QueueEndpoint_scheme \<Rightarrow> bool" where
  "qe_same ep ep' \<longleftrightarrow>
     qe_address ep' = qe_address ep \<and> qe_max_packet_size ep' = qe_max_packet_size ep \<and>
     QueueEndpoint.more ep' = QueueEndpoint.more ep"

context platform_transfers begin

lemma submit_err_ok:
  assumes ok: "qe_ok vacant holds ep h bufs ks" and "vacant new" "buffer_ok b"
    and fail: "\<And>d. holds b d \<Longrightarrow> holds b (fail d)"
  shows "\<exists>ep' h'. queue_submit_err put_buffer new fail b ep h = Ret (ep', h') \<and> qe_same ep ep' \<and>
    qe_ok vacant holds ep' h' (bufs @ [b]) ks"
proof -
  from make_ok [OF ok [unfolded qe_ok_def] assms(2,3)] obtain t h1 where
    m: "queue_make_transfer put_buffer new (qe_notify ep) b (qe_idle_transfer ep) h = Ret (t, h1)"
      "f_ok h1 t b (qe_pending ep) bufs ks" by blast
  from change_filled [where f = fail, OF m(2) fail] obtain h2 where
    f: "idle_deref_mut fail t h1 = Ret h2" "f_ok h2 t b (qe_pending ep) bufs ks" by blast
  with m(1) simulate_filled [OF f(2)] show ?thesis
    by (simp add: queue_submit_err_def qe_ok_def qe_same_def)
qed

lemma check_ok:
  assumes "qe_ok vacant holds ep h (b # bs) ks"
  shows "\<exists>r ep' h'. queue_check take_completion ep h = Ret (r, ep', h') \<and> qe_same ep ep' \<and>
    (case r of
       None \<Rightarrow> qe_ok vacant holds ep' h' (b # bs) ks
     | Some c \<Rightarrow> qe_ok vacant holds ep' h' bs ks \<and> returned_for A D b c)"
proof -
  from take_ok [OF assms [unfolded qe_ok_def]] obtain r q idle h' where
    t: "queue_take take_completion (qe_pending ep) (qe_idle_transfer ep) h = Ret (r, q, idle, h')"
      "case r of None \<Rightarrow> q_ok h' idle q (b # bs) ks | Some c \<Rightarrow> q_ok h' idle q bs ks \<and> returned_for A D b c"
    by blast
  then show ?thesis
    by (intro exI conjI, simp add: queue_check_def) (auto simp: qe_ok_def qe_same_def cong: option.case_cong)
qed

lemma check_empty: "qe_ok vacant holds ep h [] ks \<Longrightarrow> queue_check take_completion ep h = Panic"
  by (simp add: qe_ok_def queue_check_def take_empty)

lemma endpoint_drop_ok:
  assumes "qe_ok vacant holds ep h bufs ks"
  shows "\<exists>h'. queue_endpoint_drop cancel_all ep (h, k) =
      Ret (h', if qe_pending ep \<noteq> [] then cancel_all ep k else k) \<and> own_ok h' [] [] ks"
proof -
  have drops: "\<exists>h'. drop_pendings q h = Ret h' \<and> own_ok h' ids [] ks" if "own_ok h ids q ks" for q h ids
    using that
  proof (induction q arbitrary: h)
    case (Cons t q)
    from own_drop_pending [OF Cons.prems] obtain h1 where "pending_drop t h = Ret h1" "own_ok h1 ids q ks"
      by blast
    with Cons.IH show ?case by simp
  qed simp
  from assms have own: "own_ok h (case qe_idle_transfer ep of None \<Rightarrow> [] | Some t \<Rightarrow> [t]) (qe_pending ep) ks"
    by (simp add: qe_ok_def queue_ok_def)
  from drops [OF this] obtain h1 where
    h1: "drop_pendings (qe_pending ep) h = Ret h1"
      "own_ok h1 (case qe_idle_transfer ep of None \<Rightarrow> [] | Some t \<Rightarrow> [t]) [] ks" by blast
  show ?thesis
  proof (cases "qe_idle_transfer ep")
    case None
    with h1 show ?thesis by (simp add: queue_endpoint_drop_def Let_def)
  next
    case (Some t)
    with h1(2) have "own_ok h1 [t] [] ks" by simp
    from own_drop_idle [OF this, of t] h1(1) Some show ?thesis by (simp add: queue_endpoint_drop_def Let_def)
  qed
qed

end

locale scripted_endpoint = platform_transfers put_buffer take_completion A D vacant holds
  for put_buffer :: "Buffer \<Rightarrow> 'p \<Rightarrow> 'p outcome" and take_completion A D vacant holds +
  fixes P :: "('p, 'm) platform"
    and good :: "'m QueueEndpoint_scheme \<Rightarrow> bool"
  assumes good_same: "good ep \<Longrightarrow> qe_same ep ep' \<Longrightarrow> good ep'"
    and good_packet: "good ep \<Longrightarrow> 0 < qe_max_packet_size ep"
    and take_eq: "good ep \<Longrightarrow> pf_take P ep = take_completion"
    and platform_submit: "good ep \<Longrightarrow> qe_ok vacant holds ep h bufs (ts_inflight k) \<Longrightarrow> buffer_ok b \<Longrightarrow>
      \<exists>ep' h' k'. pf_submit P b ep h k = Ret (ep', h', k') \<and> qe_same ep ep' \<and>
        qe_ok vacant holds ep' h' (bufs @ [b]) (ts_inflight k')"
    and platform_submit_err: "good ep \<Longrightarrow> qe_ok vacant holds ep h bufs ks \<Longrightarrow> buffer_ok b \<Longrightarrow>
      \<exists>ep' h'. pf_submit_err P b InvalidArgument ep h = Ret (ep', h') \<and> qe_same ep ep' \<and>
        qe_ok vacant holds ep' h' (bufs @ [b]) ks"
    and platform_completed: "queue_ok vacant holds h idle pending bufs ks \<Longrightarrow> p \<in> set ks \<Longrightarrow>
      \<exists>h' k'. pf_completed P st data p (h, k) = Ret (h', k') \<and> ts_inflight k' = ts_inflight k \<and>
        queue_ok vacant holds h' idle pending bufs (remove1 p ks)"
    and platform_cancel: "ts_inflight (pf_cancel_all P ep k) = ts_inflight k"
begin

definition qs_good :: "('p, 'm) qsys \<Rightarrow> bool" where
  "qs_good e \<longleftrightarrow> good (qs_ep e) \<and>
     qe_ok vacant holds (qs_ep e) (qs_heap e) (qs_bufs e) (ts_inflight (qs_kern e))"

abbreviation "e_ok \<equiv> qe_ok vacant holds"

lemma event_ok:
  assumes "e_ok ep h bufs (ts_inflight k)"
  shows "\<exists>h' k'. ts_event (pf_completed P) (h, k) = Ret (h', k') \<and> e_ok ep h' bufs (ts_inflight k')"
proof (cases "ts_events k = [] \<or> ts_inflight k = []")
  case True
  with assms show ?thesis by (auto simp: ts_event_def split: list.split)
next
  case False
  then obtain ix st data r where k: "ts_events k = (ix, st, data) # r" "ts_inflight k \<noteq> []"
    by (cases "ts_events k") auto
  let ?p = "ts_inflight k ! (ix mod length (ts_inflight k))"
  have "?p \<in> set (ts_inflight k)" using k(2) by simp
  from platform_completed [OF assms [unfolded qe_ok_def] this, of st data
      "k\<lparr>ts_inflight := remove1 ?p (ts_inflight k), ts_events := r\<rparr>"] k show ?thesis
    by (auto simp: ts_event_def qe_ok_def Let_def)
qed

lemma wait_ok_queue:
  "e_ok ep h (b # bs) (ts_inflight k) \<Longrightarrow>
    \<exists>r ep' h' k'. queue_wait take_completion (ts_event (pf_completed P)) n ep (h, k) = Ret (r, ep', h', k') \<and>
      qe_same ep ep' \<and>
      (case r of
         None \<Rightarrow> e_ok ep' h' (b # bs) (ts_inflight k')
       | Some c \<Rightarrow> e_ok ep' h' bs (ts_inflight k') \<and> returned_for A D b c)"
proof (induction n arbitrary: ep h k)
  case 0
  from check_ok [OF 0] obtain r ep' h' where
    "queue_check take_completion ep h = Ret (r, ep', h')" "qe_same ep ep'"
    "case r of
       None \<Rightarrow> e_ok ep' h' (b # bs) (ts_inflight k)
     | Some c \<Rightarrow> e_ok ep' h' bs (ts_inflight k) \<and> returned_for A D b c" by blast
  then show ?case by simp
next
  case (Suc n)
  from check_ok [OF Suc.prems] obtain r ep1 h1 where
    c: "queue_check take_completion ep h = Ret (r, ep1, h1)" "qe_same ep ep1"
      "case r of
         None \<Rightarrow> e_ok ep1 h1 (b # bs) (ts_inflight k)
       | Some c \<Rightarrow> e_ok ep1 h1 bs (ts_inflight k) \<and> returned_for A D b c" by blast
  show ?case
  proof (cases r)
    case (Some x)
    with c show ?thesis by simp
  next
    case None
    with c(3) have "e_ok ep1 h1 (b # bs) (ts_inflight k)" by simp
    from event_ok [OF this] obtain h2 k2 where
      e: "ts_event (pf_completed P) (h1, k) = Ret (h2, k2)" "e_ok ep1 h2 (b # bs) (ts_inflight k2)" by blast
    from Suc.IH [OF e(2)] obtain r' ep' h' k' where
      "queue_wait take_completion (ts_event (pf_completed P)) n ep1 (h2, k2) = Ret (r', ep', h', k')"
      "qe_same ep1 ep'"
      "case r' of
         None \<Rightarrow> e_ok ep' h' (b # bs) (ts_inflight k')
       | Some c \<Rightarrow> e_ok ep' h' bs (ts_inflight k') \<and> returned_for A D b c" by blast
    with None c(1,2) e(1) show ?thesis by (simp add: qe_same_def)
  qed
qed

lemma queue_events_ok:
  "e_ok ep h bufs (ts_inflight k) \<Longrightarrow>
    \<exists>h' k'. qs_events P n (h, k) = Ret (h', k') \<and> e_ok ep h' bufs (ts_inflight k')"
proof (induction n arbitrary: h k)
  case (Suc n)
  from event_ok [OF Suc.prems] obtain h1 k1 where
    "ts_event (pf_completed P) (h, k) = Ret (h1, k1)" "e_ok ep h1 bufs (ts_inflight k1)" by blast
  with Suc.IH show ?case by simp
qed simp

lemma subscribe_e_ok: "e_ok ep h bufs ks \<Longrightarrow> e_ok ep (notify_subscribe n w h) bufs ks"
  by (simp add: qe_ok_def subscribe_ok)

lemma completed_good:
  assumes "qs_good e" "qs_bufs e = b # bs" "qe_same (qs_ep e) ep'"
    "case r of
       None \<Rightarrow> e_ok ep' h' (b # bs) (ts_inflight k')
     | Some c \<Rightarrow> e_ok ep' h' bs (ts_inflight k') \<and> returned_for A D b c"
  shows "\<exists>r' e'. qs_completed e (r, ep', h', k') = (r', e') \<and> qs_good e' \<and>
    qe_max_packet_size (qs_ep e') = qe_max_packet_size (qs_ep e) \<and>
    (case r' of
       None \<Rightarrow> qs_bufs e' = qs_bufs e \<and> qs_past e' = qs_past e
     | Some c \<Rightarrow> qs_bufs e' = bs \<and> qs_past e' = qs_past e @ [c] \<and> returned_for A D b c)"
  using assms good_same [OF _ assms(3)]
  by (cases r) (auto simp: qs_completed_def qs_good_def qe_same_def)

lemma qs_wait_ok:
  assumes "qs_good e" "qs_bufs e = b # bs"
  shows "\<exists>r e'. qs_wait P timeout e = Ret (r, e') \<and> qs_good e' \<and>
    qe_max_packet_size (qs_ep e') = qe_max_packet_size (qs_ep e) \<and>
    (case r of
       None \<Rightarrow> qs_bufs e' = qs_bufs e \<and> qs_past e' = qs_past e
     | Some c \<Rightarrow> qs_bufs e' = bs \<and> qs_past e' = qs_past e @ [c] \<and> returned_for A D b c)"
proof -
  from assms have "e_ok (qs_ep e) (qs_heap e) (b # bs) (ts_inflight (qs_kern e))" "good (qs_ep e)"
    by (simp_all add: qs_good_def)
  from wait_ok_queue [OF this(1), of "qs_moments e"] take_eq [OF this(2)]
  obtain r ep' h' k' where
    w: "queue_wait (pf_take P (qs_ep e)) (ts_event (pf_completed P)) (qs_moments e) (qs_ep e)
          (qs_heap e, qs_kern e) = Ret (r, ep', h', k')"
      "qe_same (qs_ep e) ep'"
      "case r of
         None \<Rightarrow> e_ok ep' h' (b # bs) (ts_inflight k')
       | Some c \<Rightarrow> e_ok ep' h' bs (ts_inflight k') \<and> returned_for A D b c" by auto
  from completed_good [OF assms w(2,3)] w(1) show ?thesis unfolding qs_wait_def by auto
qed

lemma qs_poll_ok:
  assumes "qs_good e" "qs_bufs e = b # bs"
  shows "\<exists>r e'. qs_poll P n e = Ret (r, e') \<and> qs_good e' \<and>
    qe_max_packet_size (qs_ep e') = qe_max_packet_size (qs_ep e) \<and>
    (case r of
       None \<Rightarrow> qs_bufs e' = qs_bufs e \<and> qs_past e' = qs_past e
     | Some c \<Rightarrow> qs_bufs e' = bs \<and> qs_past e' = qs_past e @ [c] \<and> returned_for A D b c)"
proof -
  from assms have e: "e_ok (qs_ep e) (qs_heap e) (b # bs) (ts_inflight (qs_kern e))" "good (qs_ep e)"
    by (simp_all add: qs_good_def)
  from queue_events_ok [OF e(1), of "qs_moments e"] obtain h1 k1 where
    ev: "qs_events P (qs_moments e) (qs_heap e, qs_kern e) = Ret (h1, k1)"
      "e_ok (qs_ep e) h1 (b # bs) (ts_inflight k1)" by blast
  from check_ok [OF subscribe_e_ok [OF ev(2), of "qe_notify (qs_ep e)" n]] take_eq [OF e(2)]
  obtain r ep' h' where
    w: "queue_poll (pf_take P (qs_ep e)) n (qs_ep e) h1 = Ret (r, ep', h')" "qe_same (qs_ep e) ep'"
      "case r of
         None \<Rightarrow> e_ok ep' h' (b # bs) (ts_inflight k1)
       | Some c \<Rightarrow> e_ok ep' h' bs (ts_inflight k1) \<and> returned_for A D b c"
    unfolding queue_poll_def by auto
  from completed_good [OF assms w(2,3)] ev(1) w(1) show ?thesis unfolding qs_poll_def by auto
qed

lemma qs_empty:
  assumes "qs_good e" "qs_bufs e = []"
  shows "qs_wait P timeout e = Panic" "qs_poll P n e = Panic"
proof -
  from assms have e: "e_ok (qs_ep e) (qs_heap e) [] (ts_inflight (qs_kern e))" "good (qs_ep e)"
    by (simp_all add: qs_good_def)
  show "qs_wait P timeout e = Panic"
    by (cases "qs_moments e") (simp_all add: qs_wait_def take_eq [OF e(2)] check_empty [OF e(1)])
  from queue_events_ok [OF e(1), of "qs_moments e"] obtain h1 k1 where
    ev: "qs_events P (qs_moments e) (qs_heap e, qs_kern e) = Ret (h1, k1)"
      "e_ok (qs_ep e) h1 [] (ts_inflight k1)" by blast
  then show "qs_poll P n e = Panic"
    by (simp add: qs_poll_def queue_poll_def take_eq [OF e(2)] check_empty [OF subscribe_e_ok])
qed

end

sublocale scripted_endpoint \<subseteq> backend: endpoint_backend A "queue_backend P" D qs_good qs_bufs qs_past
proof (unfold_locales, goal_cases)
  case (1 e)
  then show ?case
    by (auto simp: qs_good_def qe_ok_def queue_ok_def queue_endpoint_pending_def dest: pending_hold_length)
next
  case (2 e)
  then show ?case by (simp add: qs_good_def good_packet)
next
  case (3 e n)
  then show ?case by (simp add: qs_allocate_def try_u32_def)
next
  case (4 n e)
  then show ?case by (simp add: qs_allocate_def try_u32_def)
next
  case (5 e b)
  then have "good (qs_ep e)" "qe_ok vacant holds (qs_ep e) (qs_heap e) (qs_bufs e) (ts_inflight (qs_kern e))"
    by (simp_all add: qs_good_def)
  from platform_submit [OF this 5(2)] good_same [OF this(1)] show ?case
    by (auto simp: qs_submit_def qs_good_def qe_same_def)
next
  case (6 e b)
  then have "good (qs_ep e)" "qe_ok vacant holds (qs_ep e) (qs_heap e) (qs_bufs e) (ts_inflight (qs_kern e))"
    by (simp_all add: qs_good_def)
  from platform_submit_err [OF this 6(2)] good_same [OF this(1)] show ?case
    by (auto simp: qs_submit_err_def qs_good_def qe_same_def)
next
  case (7 e b bs timeout)
  then show ?case using qs_wait_ok [of e b bs timeout] by simp
next
  case (8 e timeout)
  then show ?case by (simp add: qs_empty)
next
  case (9 e b bs n)
  then show ?case using qs_poll_ok [of e b bs n] by simp
next
  case (10 e n)
  then show ?case by (simp add: qs_empty)
next
  case (11 e)
  then show ?case by (simp add: qs_cancel_all_def qs_good_def platform_cancel)
qed

end
