(* ===== verification/Windows_Endpoint.thy ===== *)
theory Windows_Endpoint
  imports Windows_Device Queue_Endpoint
begin

unbundle bit_operations_syntax

text \<open>
  Transfers of the Windows backend: src/src/platform/windows_winusb/transfer.rs and threadpool.rs,
  and the endpoints, submissions and callbacks of device.rs. The \<open>OVERLAPPED\<close> is part of the
  transfer, a status and a number of bytes that the system writes. The system is a function \<open>K\<close> from a
  call to its \<open>BOOL\<close> result, \<open>GetLastError\<close> and the new state of the system.
\<close>

section \<open>Transfers\<close>

record WindowsTransferData =
  wt_internal :: u32
  wt_internal_high :: u32
  wt_buf :: "u8 option list"
  wt_capacity :: u32
  wt_request_len :: u32
  wt_endpoint :: u8
  wt_error_from_submit :: "TransferError + unit"
  wt_timeout :: "nat option"

definition wt_new :: "u8 \<Rightarrow> WindowsTransferData" where
  "wt_new endpoint =
     \<lparr>wt_internal = 0, wt_internal_high = 0, wt_buf = [], wt_capacity = 0, wt_request_len = 0,
      wt_endpoint = endpoint, wt_error_from_submit = Inr (), wt_timeout = None\<rparr>"

definition wt_set_buffer :: "Buffer \<Rightarrow> WindowsTransferData \<Rightarrow> WindowsTransferData outcome" where
  "wt_set_buffer buf t =
     rassert (wt_capacity t = 0)
       (Ret (t\<lparr>wt_capacity := buf_capacity buf, wt_buf := buf_mem buf, wt_internal_high := 0,
               wt_request_len :=
                 (case direction_from_address (wt_endpoint t) of
                    Out \<Rightarrow> buf_len buf | In \<Rightarrow> buf_requested_len buf)\<rparr>))"

definition ERROR_SUCCESS :: u32 where "ERROR_SUCCESS = 0"
definition ERROR_FILE_NOT_FOUND :: u32 where "ERROR_FILE_NOT_FOUND = 2"
definition ERROR_SEM_TIMEOUT :: u32 where "ERROR_SEM_TIMEOUT = 121"
definition ERROR_NO_SUCH_DEVICE :: u32 where "ERROR_NO_SUCH_DEVICE = 433"
definition ERROR_OPERATION_ABORTED :: u32 where "ERROR_OPERATION_ABORTED = 995"
definition ERROR_IO_PENDING :: u32 where "ERROR_IO_PENDING = 997"
definition ERROR_DEVICE_NOT_CONNECTED :: u32 where "ERROR_DEVICE_NOT_CONNECTED = 1167"
definition ERROR_REQUEST_ABORTED :: u32 where "ERROR_REQUEST_ABORTED = 1235"
definition ERROR_TIMEOUT :: u32 where "ERROR_TIMEOUT = 1460"

definition wt_status :: "u32 \<Rightarrow> TransferError + unit" where
  "wt_status e =
     (if e = ERROR_SUCCESS then Inr ()
      else if e = ERROR_GEN_FAILURE then Inl Stall
      else if e \<in> {ERROR_REQUEST_ABORTED, ERROR_TIMEOUT, ERROR_SEM_TIMEOUT, ERROR_OPERATION_ABORTED}
      then Inl Cancelled
      else if e \<in> {ERROR_FILE_NOT_FOUND, ERROR_DEVICE_NOT_CONNECTED, ERROR_NO_SUCH_DEVICE}
      then Inl Disconnected
      else Inl (UnknownError e))"

text \<open>
  \<open>R\<close> is \<open>GetOverlappedResult\<close>: from the status and the number of bytes in the \<open>OVERLAPPED\<close> to the
  number it stores and \<open>GetLastError\<close>.
\<close>

definition wt_take_completion ::
  "(u32 \<Rightarrow> u32 \<Rightarrow> u32 \<times> u32) \<Rightarrow> WindowsTransferData \<Rightarrow> Completion \<times> WindowsTransferData" where
  "wt_take_completion R t =
     (case (case wt_error_from_submit t of
              Inl e \<Rightarrow> (0, Inl e)
            | Inr _ \<Rightarrow> (case R (wt_internal t) (wt_internal_high t) of (n, e) \<Rightarrow> (n, wt_status e))) of
        (actual_len, status) \<Rightarrow>
          (\<lparr>cmp_buffer =
              \<lparr>buf_mem = wt_buf t,
               buf_len = (case direction_from_address (wt_endpoint t) of
                            Out \<Rightarrow> wt_request_len t | In \<Rightarrow> actual_len),
               buf_requested_len = wt_request_len t, buf_capacity = wt_capacity t,
               buf_allocator = AllocDefault\<rparr>,
            cmp_actual_len = unat actual_len, cmp_status = status\<rparr>,
           t\<lparr>wt_buf := [], wt_capacity := 0, wt_request_len := 0, wt_internal_high := 0\<rparr>))"

section \<open>Timers\<close>

text \<open>
  \<open>as_micros\<close>; \<open>try_from\<close> saturates at \<open>i64::MAX\<close>, \<open>saturating_mul(-10)\<close> at \<open>i64::MIN\<close>; then the two
  halves of the 64 bits, low first.
\<close>

definition duration_as_micros :: "Duration \<Rightarrow> int" where
  "duration_as_micros d = uint (dur_secs d) * 1000000 + uint (dur_nanos d) div 1000"

definition i64_max :: int where "i64_max = 9223372036854775807"
definition i64_min :: int where "i64_min = - 9223372036854775808"

definition duration_to_filetime :: "Duration \<Rightarrow> u32 \<times> u32" where
  "duration_to_filetime d =
     (let micros = duration_as_micros d;
          n = (if micros \<le> i64_max then micros else i64_max);
          time = (if n * - 10 < i64_min then i64_min else n * - 10);
          w = (word_of_int time :: 64 word)
      in (ucast (w AND 0xFFFFFFFF), ucast (signed_drop_bit 32 w)))"

section \<open>Calls\<close>

text \<open>A transfer is its address, a buffer the memory at its pointer, a timer a number.\<close>

datatype win_io =
    StartThreadpoolIo
  | CancelThreadpoolIo
  | WinUsb_WritePipe u8 "u8 option list" u32 nat
  | WinUsb_ReadPipe u8 "u8 option list" u32 nat
  | WinUsb_ControlTransfer bytes "u8 option list" u32 nat
  | CancelIoEx nat
  | CreateThreadpoolTimer nat
  | SetThreadpoolTimer nat "(u32 \<times> u32) option"
  | WaitForThreadpoolTimerCallbacks nat bool
  | CloseThreadpoolTimer nat

type_synonym 'k win_os = "win_io \<Rightarrow> 'k \<Rightarrow> (nat \<times> u32) \<times> 'k"

definition timer_new :: "'k win_os \<Rightarrow> nat \<Rightarrow> 'k \<Rightarrow> (unit + nat) \<times> 'k" where
  "timer_new K p k =
     (case K (CreateThreadpoolTimer p) k of
        ((timer, e), k) \<Rightarrow> (if timer = 0 then Inl () else Inr timer, k))"

definition timer_set :: "'k win_os \<Rightarrow> nat \<Rightarrow> Duration \<Rightarrow> 'k \<Rightarrow> 'k" where
  "timer_set K timer timeout k = snd (K (SetThreadpoolTimer timer (Some (duration_to_filetime timeout))) k)"

definition timer_cancel_and_wait :: "'k win_os \<Rightarrow> nat \<Rightarrow> 'k \<Rightarrow> 'k" where
  "timer_cancel_and_wait K timer k =
     snd (K (WaitForThreadpoolTimerCallbacks timer True) (snd (K (SetThreadpoolTimer timer None) k)))"

definition timer_drop :: "'k win_os \<Rightarrow> nat \<Rightarrow> 'k \<Rightarrow> 'k" where
  "timer_drop K timer k = snd (K (CloseThreadpoolTimer timer) k)"

text \<open>\<open>Drop for TransferData\<close> frees the memory, then the field \<open>timeout\<close> is dropped.\<close>

definition wt_drop :: "'k win_os \<Rightarrow> WindowsTransferData \<Rightarrow> 'k \<Rightarrow> 'k" where
  "wt_drop K t k = (case wt_timeout t of None \<Rightarrow> k | Some timer \<Rightarrow> timer_drop K timer k)"

section \<open>Submission\<close>

definition submit_error :: "u32 \<Rightarrow> TransferError" where
  "submit_error e =
     (if e \<in> {ERROR_BAD_COMMAND, ERROR_FILE_NOT_FOUND, ERROR_DEVICE_NOT_CONNECTED, ERROR_NO_SUCH_DEVICE}
      then Disconnected else UnknownError e)"

text \<open>
  \<open>post_submit\<close>: the \<open>BOOL\<close> result only decides about a log message. A transfer that was not submitted
  is completed in place.
\<close>

definition windows_post_submit ::
  "'k win_os \<Rightarrow> u32 \<Rightarrow> Pending \<Rightarrow> WindowsTransferData tx_heap \<times> 'k \<Rightarrow>
   (WindowsTransferData tx_heap \<times> 'k) outcome" where
  "windows_post_submit K err t s =
     (if err = ERROR_IO_PENDING then Ret s
      else
        obind (th_load (fst s) (pending_ptr t)) (\<lambda>i.
          let k = snd (K CancelThreadpoolIo (snd s));
              k = (case wt_timeout (ti_platform_data i) of None \<Rightarrow> k | Some timer \<Rightarrow> timer_cancel_and_wait K timer k)
          in omap (\<lambda>(w, h). (h, k))
               (complete_with (\<lambda>d. d\<lparr>wt_error_from_submit := Inl (submit_error err)\<rparr>) (pending_ptr t) (fst s))))"

text \<open>\<open>t.overlapped = zeroed()\<close> and \<open>t.error_from_submit = Ok(())\<close>\<close>

definition wt_reset :: "WindowsTransferData \<Rightarrow> WindowsTransferData" where
  "wt_reset d = d\<lparr>wt_internal := 0, wt_internal_high := 0, wt_error_from_submit := Inr ()\<rparr>"

definition windows_submit ::
  "'k win_os \<Rightarrow> Idle \<Rightarrow> WindowsTransferData tx_heap \<times> 'k \<Rightarrow>
   (Pending \<times> WindowsTransferData tx_heap \<times> 'k) outcome" where
  "windows_submit K t s =
     obind (idle_deref t (fst s)) (\<lambda>d.
     obind (idle_deref_mut wt_reset t (fst s)) (\<lambda>h.
     obind (pre_submit t h) (\<lambda>(p, h).
       let k = snd (K StartThreadpoolIo (snd s)) in
         case K (case direction_from_address (wt_endpoint d) of
                   Out \<Rightarrow> WinUsb_WritePipe (wt_endpoint d) (wt_buf d) (wt_request_len d) (pending_ptr p)
                 | In \<Rightarrow> WinUsb_ReadPipe (wt_endpoint d) (wt_buf d) (wt_request_len d) (pending_ptr p)) k of
           ((r, err), k) \<Rightarrow> omap (\<lambda>s. (p, s)) (windows_post_submit K err p (h, k)))))"

text \<open>\<open>pkt\<close> are the bytes of the \<open>WINUSB_SETUP_PACKET\<close>, \<open>number\<close> the number of the interface.\<close>

definition windows_submit_control ::
  "'k win_os \<Rightarrow> u8 \<Rightarrow> bytes \<Rightarrow> u16 \<Rightarrow> Duration \<Rightarrow> Idle \<Rightarrow> WindowsTransferData tx_heap \<times> 'k \<Rightarrow>
   (Pending \<times> WindowsTransferData tx_heap \<times> 'k) outcome" where
  "windows_submit_control K number pkt idx timeout t s =
     obind (idle_deref t (fst s)) (\<lambda>d.
     obind (idle_deref_mut wt_reset t (fst s)) (\<lambda>h.
       if hd pkt AND 0x1f = recipient_u8 RecipientInterface \<and> (ucast idx :: u8) \<noteq> number
       then obind (idle_deref_mut (\<lambda>d. d\<lparr>wt_error_from_submit := Inl InvalidArgument\<rparr>) t h) (\<lambda>h.
              Ret (simulate_complete t, h, snd s))
       else
         case timer_new K (idle_ptr t) (snd s) of
           (Inl _, k) \<Rightarrow> Panic
         | (Inr timer, k) \<Rightarrow>
             obind (idle_deref_mut (\<lambda>d. d\<lparr>wt_timeout := Some timer\<rparr>) t h) (\<lambda>h.
             obind (pre_submit t h) (\<lambda>(p, h).
               let k = timer_set K timer timeout k;
                   k = snd (K StartThreadpoolIo k)
               in
                 case K (WinUsb_ControlTransfer pkt (wt_buf d) (wt_request_len d) (pending_ptr p)) k of
                   ((r, err), k) \<Rightarrow> omap (\<lambda>s. (p, s)) (windows_post_submit K err p (h, k))))))"

definition windows_cancel :: "'k win_os \<Rightarrow> Pending \<Rightarrow> 'k \<Rightarrow> 'k" where
  "windows_cancel K t k = snd (K (CancelIoEx (pending_ptr t)) k)"

section \<open>Callbacks\<close>

text \<open>\<open>io_callback\<close>: what it is told of the result is only logged.\<close>

definition windows_io_callback ::
  "'k win_os \<Rightarrow> nat \<Rightarrow> WindowsTransferData tx_heap \<times> 'k \<Rightarrow>
   (NotifyState \<times> WindowsTransferData tx_heap \<times> 'k) outcome" where
  "windows_io_callback K p s =
     obind (th_load (fst s) p) (\<lambda>i.
       let k = (case wt_timeout (ti_platform_data i) of
                  None \<Rightarrow> snd s | Some timer \<Rightarrow> timer_cancel_and_wait K timer (snd s))
       in omap (\<lambda>(w, h). (w, h, k)) (notify_completion p (fst s)))"

definition windows_timer_callback ::
  "'k win_os \<Rightarrow> nat \<Rightarrow> WindowsTransferData tx_heap \<times> 'k \<Rightarrow> 'k outcome" where
  "windows_timer_callback K p s =
     obind (th_load (fst s) p) (\<lambda>i. Ret (snd (K (CancelIoEx p) (snd s))))"

section \<open>Endpoints\<close>

type_synonym WindowsEndpoint = QueueEndpoint

text \<open>
  \<open>WindowsInterface::endpoint\<close>; a failure of \<open>WinUsb_SetPipePolicy\<close> is only logged. The calls of
  \<open>windows\<close> are those of the interface handle.
\<close>

definition windows_interface_endpoint ::
  "'k windows \<Rightarrow> nat \<Rightarrow> EndpointDescriptor \<Rightarrow> WindowsInterface \<Rightarrow> 'k \<Rightarrow>
   ((nusb_error + WindowsEndpoint) \<times> WindowsInterface \<times> 'k) outcome" where
  "windows_interface_endpoint K notify descriptor i k =
     obind (endpoint_address descriptor) (\<lambda>address.
     obind (endpoint_max_packet_size descriptor) (\<lambda>max_packet_size.
       Ret (if endpoint_is_set (wis_endpoints (wi_state i)) address
            then (Inl (error_new KBusy ''endpoint already in use''), i, k)
            else
              (Inr \<lparr>qe_address = address, qe_notify = notify, qe_max_packet_size = max_packet_size,
                    qe_pending = [], qe_idle_transfer = None\<rparr>,
               i\<lparr>wi_state := (wi_state i)
                   \<lparr>wis_endpoints := endpoint_set (wis_endpoints (wi_state i)) address\<rparr>\<rparr>,
               if direction_from_address address = In
               then snd (K (WinUsb_SetPipePolicy (wi_winusb_handle i) address (RAW_IO 1)) k) else k))))"

definition windows_endpoint_inner_drop :: "u8 \<Rightarrow> WindowsInterface \<Rightarrow> WindowsInterface" where
  "windows_endpoint_inner_drop address i =
     i\<lparr>wi_state := (wi_state i)\<lparr>wis_endpoints := endpoint_clear (wis_endpoints (wi_state i)) address\<rparr>\<rparr>"

definition windows_make_transfer ::
  "Buffer \<Rightarrow> WindowsEndpoint \<Rightarrow> WindowsTransferData tx_heap \<Rightarrow> (Idle \<times> WindowsTransferData tx_heap) outcome" where
  "windows_make_transfer buffer ep h =
     queue_make_transfer wt_set_buffer (wt_new (qe_address ep)) (qe_notify ep) buffer (qe_idle_transfer ep) h"

definition windows_endpoint_submit ::
  "'k win_os \<Rightarrow> Buffer \<Rightarrow> WindowsEndpoint \<Rightarrow> WindowsTransferData tx_heap \<Rightarrow> 'k \<Rightarrow>
   (WindowsEndpoint \<times> WindowsTransferData tx_heap \<times> 'k) outcome" where
  "windows_endpoint_submit K buffer ep h k =
     obind (windows_make_transfer buffer ep h) (\<lambda>(t, h).
     obind (windows_submit K t (h, k)) (\<lambda>(p, h, k).
       Ret (ep\<lparr>qe_idle_transfer := None, qe_pending := qe_pending ep @ [p]\<rparr>, h, k)))"

definition windows_endpoint_submit_err ::
  "Buffer \<Rightarrow> TransferError \<Rightarrow> WindowsEndpoint \<Rightarrow> WindowsTransferData tx_heap \<Rightarrow>
   (WindowsEndpoint \<times> WindowsTransferData tx_heap) outcome" where
  "windows_endpoint_submit_err buffer err ep h =
     queue_submit_err wt_set_buffer (wt_new (qe_address ep)) (\<lambda>d. d\<lparr>wt_error_from_submit := Inl err\<rparr>)
       buffer ep h"

definition windows_poll_next_complete ::
  "(u32 \<Rightarrow> u32 \<Rightarrow> u32 \<times> u32) \<Rightarrow> nat \<Rightarrow> WindowsEndpoint \<Rightarrow> WindowsTransferData tx_heap \<Rightarrow>
   (Completion option \<times> WindowsEndpoint \<times> WindowsTransferData tx_heap) outcome" where
  "windows_poll_next_complete R waker ep h = queue_poll (\<lambda>d. Ret (wt_take_completion R d)) waker ep h"

text \<open>The last transfer is cancelled first.\<close>

definition windows_cancel_all :: "'k win_os \<Rightarrow> WindowsEndpoint \<Rightarrow> 'k \<Rightarrow> 'k" where
  "windows_cancel_all K ep k = fold (windows_cancel K) (rev (qe_pending ep)) k"

text \<open>\<open>wait_next_complete\<close> while the thread pool delivers \<open>n\<close> completions.\<close>

definition windows_wait_next_complete ::
  "(u32 \<Rightarrow> u32 \<Rightarrow> u32 \<times> u32) \<Rightarrow>
   (WindowsTransferData tx_heap \<times> 'k \<Rightarrow> (WindowsTransferData tx_heap \<times> 'k) outcome) \<Rightarrow> nat \<Rightarrow>
   WindowsEndpoint \<Rightarrow> WindowsTransferData tx_heap \<times> 'k \<Rightarrow>
   (Completion option \<times> WindowsEndpoint \<times> WindowsTransferData tx_heap \<times> 'k) outcome" where
  "windows_wait_next_complete R = queue_wait (\<lambda>d. Ret (wt_take_completion R d))"

definition windows_endpoint_drop ::
  "'k win_os \<Rightarrow> WindowsEndpoint \<Rightarrow> WindowsTransferData tx_heap \<times> 'k \<Rightarrow>
   (WindowsTransferData tx_heap \<times> 'k) outcome" where
  "windows_endpoint_drop K = queue_endpoint_drop (windows_cancel_all K)"

section \<open>Control transfers\<close>

text \<open>The transfer of a request, with its buffer, and the packet; \<open>alloc\<close> as for \<open>Buffer::new\<close>.\<close>

definition windows_control_in_transfer :: "(nat \<Rightarrow> nat) \<Rightarrow> ControlIn \<Rightarrow> WindowsTransferData outcome" where
  "windows_control_in_transfer alloc data =
     obind (buffer_new alloc (unat (ci_length data))) (\<lambda>b. wt_set_buffer b (wt_new 0x80))"

definition windows_control_out_transfer :: "ControlOut \<Rightarrow> WindowsTransferData outcome" where
  "windows_control_out_transfer data =
     obind (buffer_from_vec (vec_of (co_data data))) (\<lambda>b. wt_set_buffer b (wt_new 0x00))"

definition windows_control_in ::
  "'k win_os \<Rightarrow> (nat \<Rightarrow> nat) \<Rightarrow> u8 \<Rightarrow> nat \<Rightarrow> ControlIn \<Rightarrow> Duration \<Rightarrow> WindowsTransferData tx_heap \<times> 'k \<Rightarrow>
   (Pending \<times> WindowsTransferData tx_heap \<times> 'k) outcome" where
  "windows_control_in K alloc number notify data timeout s =
     obind (windows_control_in_transfer alloc data) (\<lambda>d.
       case idle_new notify d (fst s) of
         (t, h) \<Rightarrow>
           windows_submit_control K number (control_in_setup_packet data) (ci_index data) timeout t (h, snd s))"

definition windows_control_out ::
  "'k win_os \<Rightarrow> u8 \<Rightarrow> nat \<Rightarrow> ControlOut \<Rightarrow> Duration \<Rightarrow> WindowsTransferData tx_heap \<times> 'k \<Rightarrow>
   (Pending \<times> WindowsTransferData tx_heap \<times> 'k) outcome" where
  "windows_control_out K number notify data timeout s =
     obind (windows_control_out_transfer data) (\<lambda>d.
     obind (control_out_setup_packet data) (\<lambda>pkt.
       case idle_new notify d (fst s) of
         (t, h) \<Rightarrow> windows_submit_control K number pkt (co_index data) timeout t (h, snd s)))"

text \<open>What the finished future gives.\<close>

definition windows_control_in_result ::
  "(u32 \<Rightarrow> u32 \<Rightarrow> u32 \<times> u32) \<Rightarrow> WindowsTransferData \<Rightarrow> (TransferError + rvec) outcome" where
  "windows_control_in_result R d =
     (case wt_take_completion R d of
        (c, d) \<Rightarrow>
          (case cmp_status c of Inl e \<Rightarrow> Ret (Inl e) | Inr _ \<Rightarrow> omap Inr (buffer_into_vec (cmp_buffer c))))"

definition windows_control_out_result ::
  "(u32 \<Rightarrow> u32 \<Rightarrow> u32 \<times> u32) \<Rightarrow> WindowsTransferData \<Rightarrow> TransferError + unit" where
  "windows_control_out_result R d = cmp_status (fst (wt_take_completion R d))"

end
