(* ===== verification/Windows_Endpoint_Theorems.thy ===== *)
theory Windows_Endpoint_Theorems
  imports Windows_Endpoint
begin

unbundle bit_operations_syntax

text \<open>
  A Windows endpoint is a queue of buffers: the contract \<open>endpoint_backend\<close> for the endpoint of
  Windows_Endpoint on every system that keeps its own contract, with the completions delivered by
  \<open>io_callback\<close>. Also the results of control transfers and the timer.
\<close>

section \<open>Timers\<close>

lemma halves_of_word:
  "push_bit 32 (ucast (ucast (signed_drop_bit 32 (w :: 64 word)) :: u32)) OR ucast (ucast (w AND 0xFFFFFFFF) :: u32) = w"
proof -
  have m: "w AND 0xFFFFFFFF = take_bit 32 w"
    by (simp add: take_bit_eq_mask mask_numeral)
  show ?thesis unfolding m by (rule bit_word_eqI) (auto simp: bit_simps)
qed

text \<open>How Windows reads a \<open>FILETIME\<close>: 64 bits, negative for a relative time in units of 100 ns.\<close>

definition filetime_ticks :: "u32 \<times> u32 \<Rightarrow> int" where
  "filetime_ticks t = sint (push_bit 32 (ucast (snd t)) OR ucast (fst t) :: 64 word)"

text \<open>
  C39. The due time of a timer is the requested timeout: it is never in the future as an absolute
  time (it is zero or negative, thus relative), it is the timeout in units of 100 ns rounded down to
  whole microseconds, and a timeout that is too long for 64 bits becomes the longest one instead of
  wrapping around.
\<close>

theorem timer_due_relative:
  "filetime_ticks (duration_to_filetime d) = max i64_min (- 10 * duration_as_micros d) \<and>
   filetime_ticks (duration_to_filetime d) \<le> 0"
proof -
  have micros: "0 \<le> duration_as_micros d"
    by (simp add: duration_as_micros_def pos_imp_zdiv_nonneg_iff)
  let ?time = "max i64_min (- 10 * duration_as_micros d)"
  have ft: "duration_to_filetime d =
      (ucast ((word_of_int ?time :: 64 word) AND 0xFFFFFFFF), ucast (signed_drop_bit 32 (word_of_int ?time :: 64 word)))"
    using micros by (auto simp: duration_to_filetime_def Let_def max_def i64_max_def i64_min_def mult.commute)
  have "- (2 ^ 63) \<le> ?time" "?time < 2 ^ 63" using micros by (auto simp: i64_min_def)
  then have "sint (word_of_int ?time :: 64 word) = ?time"
    by (simp add: signed_of_int signed_take_bit_int_eq_self_iff)
  with micros show ?thesis
    unfolding filetime_ticks_def ft fst_conv snd_conv halves_of_word by (simp add: i64_min_def)
qed

section \<open>A system within its contract\<close>

definition win_refusal :: "nat \<Rightarrow> u32" where
  "win_refusal e = (if of_nat e = ERROR_IO_PENDING then ERROR_GEN_FAILURE else of_nat e)"

definition win_accept :: "nat \<Rightarrow> tx_script \<Rightarrow> (nat \<times> u32) \<times> tx_script" where
  "win_accept p k =
     (case ts_accept p k of
        (None, k) \<Rightarrow> ((0, ERROR_IO_PENDING), k)
      | (Some e, k) \<Rightarrow> ((0, win_refusal e), k))"

definition win_script :: "tx_script win_os" where
  "win_script call k =
     (case call of
        WinUsb_WritePipe a m n p \<Rightarrow> win_accept p k
      | WinUsb_ReadPipe a m n p \<Rightarrow> win_accept p k
      | WinUsb_ControlTransfer pkt m n p \<Rightarrow> win_accept p k
      | CancelIoEx p \<Rightarrow> ((1, 0), k\<lparr>ts_aborts := p # ts_aborts k\<rparr>)
      | _ \<Rightarrow> ((1, 0), k))"

text \<open>\<open>GetOverlappedResult\<close> on a completed \<open>OVERLAPPED\<close>.\<close>

definition overlapped_result :: "u32 \<Rightarrow> u32 \<Rightarrow> u32 \<times> u32" where
  "overlapped_result internal internal_high = (internal_high, internal)"

text \<open>What the system writes when a transfer is complete.\<close>

definition win_done :: "nat \<Rightarrow> bytes \<Rightarrow> WindowsTransferData \<Rightarrow> WindowsTransferData" where
  "win_done status data d =
     (let n = min (length data) (unat (wt_request_len d));
          d = d\<lparr>wt_internal := of_nat status, wt_internal_high := of_nat n\<rparr>
      in case direction_from_address (wt_endpoint d) of
           In \<Rightarrow> d\<lparr>wt_buf := map Some (take n data) @ drop n (wt_buf d)\<rparr>
         | Out \<Rightarrow> d)"

definition win_completed ::
  "nat \<Rightarrow> bytes \<Rightarrow> nat \<Rightarrow> WindowsTransferData tx_heap \<times> tx_script \<Rightarrow>
   (WindowsTransferData tx_heap \<times> tx_script) outcome" where
  "win_completed status data p s =
     obind (th_load (fst s) p) (\<lambda>i.
       omap snd (windows_io_callback win_script p
         (th_store p (i\<lparr>ti_platform_data := win_done status data (ti_platform_data i)\<rparr>) (fst s), snd s)))"

definition windows_platform :: "(WindowsTransferData, unit) platform" where
  "windows_platform =
     \<lparr>pf_submit = windows_endpoint_submit win_script, pf_submit_err = windows_endpoint_submit_err,
      pf_take = (\<lambda>ep d. Ret (wt_take_completion overlapped_result d)), pf_completed = win_completed,
      pf_cancel_all = windows_cancel_all win_script\<rparr>"

definition windows_backend :: "(WindowsTransferData, unit) qsys backend" where
  "windows_backend = queue_backend windows_platform"

section \<open>The laws\<close>

definition win_vacant :: "u8 \<Rightarrow> WindowsTransferData \<Rightarrow> bool" where
  "win_vacant addr d \<longleftrightarrow> wt_endpoint d = addr \<and> wt_timeout d = None \<and> wt_capacity d = 0"

definition win_holds :: "u8 \<Rightarrow> Buffer \<Rightarrow> WindowsTransferData \<Rightarrow> bool" where
  "win_holds addr b d \<longleftrightarrow>
     wt_endpoint d = addr \<and> wt_timeout d = None \<and> wt_capacity d = buf_capacity b \<and>
     (case direction_from_address addr of
        In \<Rightarrow> length (wt_buf d) = unat (buf_capacity b) \<and> buffer_requested_len b \<le> length (wt_buf d) \<and>
          wt_request_len d = buf_requested_len b \<and> unat (wt_internal_high d) \<le> buffer_requested_len b \<and>
          list_all (\<lambda>x. x \<noteq> None) (take (unat (wt_internal_high d)) (wt_buf d))
      | Out \<Rightarrow> wt_request_len d = buf_len b \<and> wt_buf d = buf_mem b)"

definition win_good :: "u8 \<Rightarrow> 'm QueueEndpoint_scheme \<Rightarrow> bool" where
  "win_good addr ep \<longleftrightarrow> qe_address ep = addr \<and> 0 < qe_max_packet_size ep"

lemma win_set_buffer_holds:
  assumes "win_vacant addr d" "buffer_ok b"
  shows "\<exists>d'. wt_set_buffer b d = Ret d' \<and> win_holds addr b d'"
  using assms
  by (cases "direction_from_address addr")
    (auto simp: wt_set_buffer_def win_vacant_def win_holds_def buffer_ok_def buffer_requested_len_def)

lemma win_take_holds:
  assumes "win_holds addr b d" "buffer_ok b"
  shows "\<exists>c d'. Ret (wt_take_completion overlapped_result d) = Ret (c, d') \<and> win_vacant addr d' \<and>
    returned_for {AllocDefault} (direction_from_address addr) b c"
  using assms
  by (cases "direction_from_address addr"; cases "wt_error_from_submit d")
    (auto simp: wt_take_completion_def win_holds_def win_vacant_def overlapped_result_def returned_for_def
      buffer_ok_def buffer_bytes_def buffer_len_def buffer_requested_len_def)

interpretation windows_transfers:
  platform_transfers wt_set_buffer "\<lambda>d. Ret (wt_take_completion overlapped_result d)" "{AllocDefault}"
    "direction_from_address addr" "win_vacant addr" "win_holds addr"
  by unfold_locales (simp_all only: win_set_buffer_holds win_take_holds)

lemma win_holds_error: "win_holds addr b d \<Longrightarrow> win_holds addr b (d\<lparr>wt_error_from_submit := e\<rparr>)"
  by (cases "direction_from_address addr") (simp_all add: win_holds_def)

lemma win_holds_reset: "win_holds addr b d \<Longrightarrow> win_holds addr b (wt_reset d)"
  by (cases "direction_from_address addr") (simp_all add: win_holds_def wt_reset_def)

lemma win_holds_done:
  assumes "win_holds addr b d" 
  shows "win_holds addr b (win_done st data d)"
proof -
  let ?n = "min (length data) (unat (wt_request_len d))"
  have n: "unat (of_nat ?n :: u32) = ?n"
    by (intro unat_of_nat_u32 le_less_trans [OF min.cobounded2 unat_u32_lt])
  show ?thesis
  proof (cases "direction_from_address addr")
    case In
    have "?n \<le> length (wt_buf d)" using assms In by (auto simp: win_holds_def buffer_requested_len_def)
    with assms In n show ?thesis
      by (simp add: win_holds_def win_done_def Let_def list_all_iff buffer_requested_len_def)
  next
    case Out
    with assms show ?thesis by (simp add: win_holds_def win_done_def Let_def)
  qed
qed

section \<open>The endpoint is a queue\<close>

lemma win_refusal_not_pending: "win_refusal e \<noteq> ERROR_IO_PENDING"
  by (simp add: win_refusal_def ERROR_IO_PENDING_def ERROR_GEN_FAILURE_def)

lemma win_accept_inflight:
  "win_accept p k = ((r, err), k') \<Longrightarrow>
    if err = ERROR_IO_PENDING then ts_inflight k' = p # ts_inflight k else ts_inflight k' = ts_inflight k"
  by (auto simp: win_accept_def ts_accept_def win_refusal_not_pending split: list.splits option.splits)

text \<open>A refused submission is completed in place.\<close>

lemma windows_submit_ok:
  assumes good: "win_good addr ep"
    and ok: "qe_ok (win_vacant addr) (win_holds addr) ep h bufs (ts_inflight k)" and b: "buffer_ok b"
  shows "\<exists>ep' h' k'. windows_endpoint_submit win_script b ep h k = Ret (ep', h', k') \<and> qe_same ep ep' \<and>
    qe_ok (win_vacant addr) (win_holds addr) ep' h' (bufs @ [b]) (ts_inflight k')"
proof -
  have new: "win_vacant addr (wt_new (qe_address ep))"
    using good by (simp add: win_vacant_def win_good_def wt_new_def)
  from windows_transfers.make_ok [OF ok [unfolded qe_ok_def] new b] obtain t h1 where
    m: "windows_make_transfer b ep h = Ret (t, h1)"
      "filled_ok (win_holds addr) h1 t b (qe_pending ep) bufs (ts_inflight k)"
    unfolding windows_make_transfer_def by blast
  from windows_transfers.read_filled [OF m(2)] obtain d where d: "idle_deref t h1 = Ret d" by blast
  from windows_transfers.change_filled [where f = wt_reset, OF m(2) win_holds_reset] obtain h2 where
    h2: "idle_deref_mut wt_reset t h1 = Ret h2"
      "filled_ok (win_holds addr) h2 t b (qe_pending ep) bufs (ts_inflight k)" by blast
  let ?q = "qe_pending ep @ [Pending (idle_ptr t)]"
  from windows_transfers.submit_filled [OF h2(2)] obtain h3 where
    h3: "pre_submit t h2 = Ret (Pending (idle_ptr t), h3)"
      "queue_ok (win_vacant addr) (win_holds addr) h3 None ?q (bufs @ [b]) (idle_ptr t # ts_inflight k)" by blast
  obtain r err k1 where k1: "win_accept (idle_ptr t) k = ((r, err), k1)" by (metis prod.exhaust)
  have call: "win_script (case direction_from_address (wt_endpoint d) of
      Out \<Rightarrow> WinUsb_WritePipe (wt_endpoint d) (wt_buf d) (wt_request_len d) (idle_ptr t)
    | In \<Rightarrow> WinUsb_ReadPipe (wt_endpoint d) (wt_buf d) (wt_request_len d) (idle_ptr t))
      (snd (win_script StartThreadpoolIo k)) = ((r, err), k1)"
    using k1 by (cases "direction_from_address (wt_endpoint d)") (simp_all add: win_script_def)
  have run: "windows_submit win_script t (h1, k) =
      omap (\<lambda>s. (Pending (idle_ptr t), s)) (windows_post_submit win_script err (Pending (idle_ptr t)) (h3, k1))"
    using d h2(1) h3(1) call
    by (cases "direction_from_address (wt_endpoint d)") (simp_all add: windows_submit_def Let_def)
  have post: "\<exists>h' k'. windows_post_submit win_script err (Pending (idle_ptr t)) (h3, k1) = Ret (h', k') \<and>
      queue_ok (win_vacant addr) (win_holds addr) h' None ?q (bufs @ [b]) (ts_inflight k')"
  proof (cases "err = ERROR_IO_PENDING")
    case True
    with win_accept_inflight [OF k1] h3(2) show ?thesis by (simp add: windows_post_submit_def)
  next
    case False
    let ?f = "\<lambda>d. d\<lparr>wt_error_from_submit := Inl (submit_error err)\<rparr>"
    from windows_transfers.complete_ok [where f = ?f and p = "idle_ptr t", OF h3(2) _ win_holds_error]
    obtain w h4 where h4: "complete_with ?f (idle_ptr t) h3 = Ret (w, h4)"
      "queue_ok (win_vacant addr) (win_holds addr) h4 None ?q (bufs @ [b]) (ts_inflight k)" by auto
    from h3(2) have hold: "pending_hold (win_holds addr) h3 ?q (bufs @ [b])" by (simp add: queue_ok_def)
    then have "length (qe_pending ep) = length bufs" by (auto dest: pending_hold_length)
    with hold obtain i where i: "th_mem h3 (idle_ptr t) = Some i" "wt_timeout (ti_platform_data i) = None"
      by (auto simp: pending_hold_snoc data_at_Some win_holds_def)
    show ?thesis
      using False h4 i win_accept_inflight [OF k1]
      by (simp add: windows_post_submit_def th_load_def Let_def win_script_def)
  qed
  then obtain h' k' where "windows_post_submit win_script err (Pending (idle_ptr t)) (h3, k1) = Ret (h', k')"
    "queue_ok (win_vacant addr) (win_holds addr) h' None ?q (bufs @ [b]) (ts_inflight k')" by blast
  with m(1) run show ?thesis by (simp add: windows_endpoint_submit_def qe_same_def qe_ok_def)
qed

lemma win_completed_ok:
  assumes ok: "queue_ok (win_vacant addr) (win_holds addr) h idle pending bufs ks" and p: "p \<in> set ks"
  shows "\<exists>h' k'. win_completed st data p (h, k) = Ret (h', k') \<and> ts_inflight k' = ts_inflight k \<and>
    queue_ok (win_vacant addr) (win_holds addr) h' idle pending bufs (remove1 p ks)"
proof -
  from windows_transfers.complete_ok [where f = "win_done st data", OF ok p win_holds_done] obtain w h' where
    c: "complete_with (win_done st data) p h = Ret (w, h')"
      "queue_ok (win_vacant addr) (win_holds addr) h' idle pending bufs (remove1 p ks)" by auto
  then obtain i where i: "th_mem h p = Some i"
    "notify_completion p (th_store p (i\<lparr>ti_platform_data := win_done st data (ti_platform_data i)\<rparr>) h) = Ret (w, h')"
    by (auto simp: complete_with_def th_load_def obind_Ret_iff split: option.splits)
  have k: "ts_inflight (timer_cancel_and_wait win_script n k) = ts_inflight k" for n
    by (simp add: timer_cancel_and_wait_def win_script_def)
  show ?thesis
    using i c(2) k
    by (auto simp: win_completed_def windows_io_callback_def th_load_def th_mem_store Let_def split: option.split)
qed

text \<open>The system after the requests to cancel the pending transfers, the newest first.\<close>

definition win_aborted :: "Pending list \<Rightarrow> tx_script \<Rightarrow> tx_script" where
  "win_aborted ts k = k\<lparr>ts_aborts := map pending_ptr ts @ ts_aborts k\<rparr>"

lemma win_cancel_all_eq: "windows_cancel_all win_script ep k = win_aborted (qe_pending ep) k"
proof -
  have "fold (windows_cancel win_script) ts k = win_aborted (rev ts) k" for ts k
    by (induction ts arbitrary: k) (simp_all add: windows_cancel_def win_script_def win_aborted_def)
  then show ?thesis by (simp add: windows_cancel_all_def)
qed

interpretation windows:
  scripted_endpoint wt_set_buffer "\<lambda>d. Ret (wt_take_completion overlapped_result d)" "{AllocDefault}"
    "direction_from_address addr" "win_vacant addr" "win_holds addr" windows_platform "win_good addr"
proof (unfold_locales, goal_cases)
  case (1 ep ep')
  then show ?case by (simp add: win_good_def qe_same_def)
next
  case (2 ep)
  then show ?case by (simp add: win_good_def)
next
  case (3 ep)
  then show ?case by (simp add: windows_platform_def)
next
  case (4 ep h bufs k b)
  then show ?case by (simp add: windows_platform_def windows_submit_ok)
next
  case (5 ep h bufs ks b)
  then have "win_vacant addr (wt_new (qe_address ep))" by (simp add: win_vacant_def win_good_def wt_new_def)
  from windows_transfers.submit_err_ok [OF 5(2) this 5(3) win_holds_error] show ?case
    by (simp add: windows_platform_def windows_endpoint_submit_err_def)
next
  case (6 h idle pending bufs ks p st data k)
  then show ?case using win_completed_ok [OF 6(1,2)] by (simp add: windows_platform_def)
next
  case (7 ep k)
  then show ?case by (simp add: windows_platform_def win_cancel_all_eq win_aborted_def)
qed

text \<open>An endpoint that has just been opened, on a system with the given script.\<close>

definition windows_open ::
  "u8 \<Rightarrow> nat \<Rightarrow> nat list \<Rightarrow> nat option list \<Rightarrow> (nat \<times> nat \<times> bytes) list \<Rightarrow> (WindowsTransferData, unit) qsys"
where
  "windows_open addr mps sched submits events =
     \<lparr>qs_ep = \<lparr>qe_address = addr, qe_notify = 0, qe_max_packet_size = mps, qe_pending = [],
               qe_idle_transfer = None\<rparr>,
      qs_heap = \<lparr>th_mem = (\<lambda>p. None), th_next = 0, th_notify = (\<lambda>n. NotifyNone)\<rparr>,
      qs_kern = \<lparr>ts_inflight = [], ts_aborts = [], ts_submits = submits, ts_events = events\<rparr>,
      qs_sched = sched, qs_bufs = [], qs_past = []\<rparr>"

lemma windows_open_good: "0 < mps \<Longrightarrow> windows.qs_good addr (windows_open addr mps sched submits events)"
  by (simp add: windows.qs_good_def windows_open_def win_good_def qe_ok_def queue_ok_def own_ok_empty
      pending_hold_def)

lemma windows_open_empty [simp]:
  "qs_bufs (windows_open addr mps sched submits events) = []"
  "qs_past (windows_open addr mps sched submits events) = []"
  by (simp_all add: windows_open_def)

text \<open>
  C10. A Windows endpoint is a FIFO queue of buffers. Open an endpoint and let the caller submit
  well-formed buffers, wait, poll and cancel in any order, on any system that refuses submissions and
  completes transfers as it likes: nothing panics and no freed block or uninitialised byte is
  touched; the completions are those of the oldest buffers, one for each, in the order of submission
  (also those of refused submissions, which are completed in place); each carries a well-formed buffer
  with the capacity it was submitted with, on an IN endpoint with the same requested length and as
  many initialised bytes as the completion reports, on an OUT endpoint with the bytes that were sent;
  what is not returned yet is what \<open>pending\<close> counts. In the state that is reached \<open>cancel_all\<close> asks the
  system to cancel each pending transfer, the newest first, and changes nothing else; dropping the
  endpoint does the same and gives up all of them without touching a transfer the system still has.
\<close>

theorem windows_endpoint_fifo:
  assumes "list_all buffer_ok (op_buffers ops)" "0 < mps"
  shows "\<exists>cs e h. backend_run windows_backend ops (windows_open addr mps sched submits events) = Ret (cs, e) \<and>
    length cs \<le> length (op_buffers ops) \<and>
    list_all2 (returned_for {AllocDefault} (direction_from_address addr))
      (take (length cs) (op_buffers ops)) cs \<and>
    queue_endpoint_pending (qs_ep e) = length (op_buffers ops) - length cs \<and>
    windows_cancel_all win_script (qs_ep e) (qs_kern e) = win_aborted (qe_pending (qs_ep e)) (qs_kern e) \<and>
    windows_endpoint_drop win_script (qs_ep e) (qs_heap e, qs_kern e) =
      Ret (h, win_aborted (qe_pending (qs_ep e)) (qs_kern e)) \<and>
    own_ok h [] [] (ts_inflight (qs_kern e))"
proof -
  let ?e0 = "windows_open addr mps sched submits events"
  from windows.backend.run_fifo [OF windows_open_good [OF assms(2)] assms(1)] obtain cs e where
    r: "backend_run windows_backend ops ?e0 = Ret (cs, e)" "windows.qs_good addr e"
      "length cs \<le> length (op_buffers ops)" "qs_bufs e = drop (length cs) (op_buffers ops)"
      "list_all2 (returned_for {AllocDefault} (direction_from_address addr)) (take (length cs) (op_buffers ops)) cs"
    unfolding windows_backend_def windows_open_empty append_Nil by blast
  have "queue_endpoint_pending (qs_ep e) = length (qs_bufs e)"
    using windows.backend.pending_eq [OF r(2)] by simp
  moreover from windows_transfers.endpoint_drop_ok [OF conjunct2 [OF r(2) [unfolded windows.qs_good_def]],
      of "windows_cancel_all win_script" "qs_kern e"]
  have "\<exists>h. windows_endpoint_drop win_script (qs_ep e) (qs_heap e, qs_kern e) =
        Ret (h, win_aborted (qe_pending (qs_ep e)) (qs_kern e)) \<and>
      own_ok h [] [] (ts_inflight (qs_kern e))"
    unfolding windows_endpoint_drop_def win_cancel_all_eq
    by (cases "qe_pending (qs_ep e) = []") (simp_all add: win_aborted_def)
  moreover note win_cancel_all_eq [of "qs_ep e" "qs_kern e"]
  ultimately show ?thesis using r by auto
qed

theorem windows_endpoint_fifo_witness:
  "let b = \<lparr>buf_mem = replicate 8 None, buf_len = 0, buf_requested_len = 8, buf_capacity = 8,
            buf_allocator = AllocDefault\<rparr>;
       ops = [OpSubmit b, OpSubmit b, OpWait (duration_from_secs 5), OpPoll 0, OpSubmit b];
       e0 = windows_open 0x81 8 [1, 1] [None, Some 22] [(0, 0, [1, 2])]
   in (\<exists>cs e h. backend_run windows_backend ops e0 = Ret (cs, e) \<and>
        length cs \<le> 3 \<and> list_all2 (returned_for {AllocDefault} In) (take (length cs) [b, b, b]) cs \<and>
        queue_endpoint_pending (qs_ep e) = 3 - length cs \<and>
        windows_cancel_all win_script (qs_ep e) (qs_kern e) = win_aborted (qe_pending (qs_ep e)) (qs_kern e) \<and>
        windows_endpoint_drop win_script (qs_ep e) (qs_heap e, qs_kern e) =
          Ret (h, win_aborted (qe_pending (qs_ep e)) (qs_kern e)) \<and>
        own_ok h [] [] (ts_inflight (qs_kern e))) \<and>
      omap (\<lambda>(cs, e). map (\<lambda>c. (buffer_bytes (cmp_buffer c), cmp_status c)) cs)
        (backend_run windows_backend ops e0) = Ret [([1, 2], Inr ()), ([], Inl Disconnected)]"
proof -
  let ?b = "\<lparr>buf_mem = replicate 8 None, buf_len = 0, buf_requested_len = 8, buf_capacity = 8,
            buf_allocator = AllocDefault\<rparr>"
  let ?ops = "[OpSubmit ?b, OpSubmit ?b, OpWait (duration_from_secs 5), OpPoll 0, OpSubmit ?b]"
  let ?e0 = "windows_open 0x81 8 [1, 1] [None, Some 22] [(0, 0, [1, 2])]"
  have ok: "list_all buffer_ok (op_buffers ?ops)" by code_simp
  have dir: "direction_from_address 0x81 = In" by code_simp
  have run: "omap (\<lambda>(cs, e). map (\<lambda>c. (buffer_bytes (cmp_buffer c), cmp_status c)) cs)
      (backend_run windows_backend ?ops ?e0) = Ret [([1, 2], Inr ()), ([], Inl Disconnected)]"
    by code_simp
  have ob: "op_buffers ?ops = [?b, ?b, ?b]" and len: "length [?b, ?b, ?b] = 3" by simp_all
  from windows_endpoint_fifo [OF ok, where addr = "0x81" and mps = 8 and submits = "[None, Some 22]" and
      sched = "[1, 1]" and events = "[(0, 0, [1, 2])]", unfolded ob len dir] run
  show ?thesis unfolding Let_def by (simp del: backend_run.simps replicate.simps)
qed

end
