(* ===== verification/Windows_Timers.thy ===== *)
theory Windows_Timers
  imports Windows_Endpoint_Theorems
begin

text \<open>
  Control transfers of the Windows backend and their timers (\<open>submit_control\<close>, \<open>io_callback\<close> and
  \<open>timer_callback\<close> of src/src/platform/windows_winusb/device.rs). A timer's callback reads the transfer
  it was made for on another thread, so it must not run after the transfer has been freed. The system
  here has timers that are armed, then running, then done, and completes, refuses and times out as a
  history of events tells it.
\<close>

section \<open>A system with timers\<close>

text \<open>
  A timer has a number and the transfer it was made for; when an armed timer expires its callback is
  queued, and runs later.
\<close>

record timer_os =
  to_inflight :: "nat list"
  to_submits :: "nat option list"
  to_next :: nat
  to_timers :: "(nat \<times> nat) list"
  to_armed :: "nat list"
  to_running :: "nat list"

definition to_accept :: "nat \<Rightarrow> timer_os \<Rightarrow> (nat \<times> u32) \<times> timer_os" where
  "to_accept p k =
     (case to_submits k of
        Some e # r \<Rightarrow> ((0, win_refusal e), k\<lparr>to_submits := r\<rparr>)
      | _ \<Rightarrow> ((0, ERROR_IO_PENDING), k\<lparr>to_inflight := p # to_inflight k, to_submits := tl (to_submits k)\<rparr>))"

definition timer_script :: "timer_os win_os" where
  "timer_script call k =
     (case call of
        WinUsb_ControlTransfer pkt m n p \<Rightarrow> to_accept p k
      | CreateThreadpoolTimer p \<Rightarrow>
          ((to_next k, 0), k\<lparr>to_next := to_next k + 1, to_timers := (to_next k, p) # to_timers k\<rparr>)
      | SetThreadpoolTimer t due \<Rightarrow>
          ((1, 0), case due of
                     None \<Rightarrow> k\<lparr>to_armed := removeAll t (to_armed k)\<rparr>
                   | Some _ \<Rightarrow> k\<lparr>to_armed := t # to_armed k\<rparr>)
      | WaitForThreadpoolTimerCallbacks t c \<Rightarrow> ((1, 0), k\<lparr>to_running := removeAll t (to_running k)\<rparr>)
      | CloseThreadpoolTimer t \<Rightarrow> ((1, 0), k\<lparr>to_timers := filter (\<lambda>x. fst x \<noteq> t) (to_timers k)\<rparr>)
      | _ \<Rightarrow> ((1, 0), k))"

section \<open>Histories\<close>

text \<open>
  Requests are made and their futures dropped or taken when they are complete; the system completes a
  transfer with a status and data, a timer expires, a queued callback runs. \<open>n\<close> is the \<open>Notify\<close> object
  of the future.
\<close>

datatype control_event =
    EvControlIn nat ControlIn Duration
  | EvControlOut nat ControlOut Duration
  | EvComplete nat nat bytes
  | EvExpire nat
  | EvCallback nat
  | EvDropFuture nat
  | EvTake nat

record control_sys =
  cy_number :: u8
  cy_heap :: "WindowsTransferData tx_heap"
  cy_os :: timer_os
  cy_futures :: "Pending list"

text \<open>A transfer that has been freed drops its timer.\<close>

definition drop_freed :: "WindowsTransferData \<Rightarrow> nat \<Rightarrow> WindowsTransferData tx_heap \<Rightarrow> timer_os \<Rightarrow> timer_os" where
  "drop_freed d p h k = (if th_mem h p = None then wt_drop timer_script d k else k)"

definition control_made ::
  "control_sys \<Rightarrow> (Pending \<times> WindowsTransferData tx_heap \<times> timer_os) outcome \<Rightarrow> control_sys outcome" where
  "control_made s r =
     omap (\<lambda>(p, h, k). s\<lparr>cy_heap := h, cy_os := k, cy_futures := cy_futures s @ [p]\<rparr>) r"

definition control_complete :: "nat \<Rightarrow> nat \<Rightarrow> bytes \<Rightarrow> control_sys \<Rightarrow> control_sys outcome" where
  "control_complete p status data s =
     obind (th_load (cy_heap s) p) (\<lambda>i.
       let i = i\<lparr>ti_platform_data := win_done status data (ti_platform_data i)\<rparr>;
           k = (cy_os s)\<lparr>to_inflight := remove1 p (to_inflight (cy_os s))\<rparr>
       in omap (\<lambda>(w, h, k). s\<lparr>cy_heap := h, cy_os := drop_freed (ti_platform_data i) p h k\<rparr>)
            (windows_io_callback timer_script p (th_store p i (cy_heap s), k)))"

definition control_callback :: "nat \<Rightarrow> control_sys \<Rightarrow> control_sys outcome" where
  "control_callback t s =
     (case map_of (to_timers (cy_os s)) t of
        None \<Rightarrow> UB
      | Some p \<Rightarrow>
          omap (\<lambda>k. s\<lparr>cy_os := k\<lparr>to_running := removeAll t (to_running k)\<rparr>\<rparr>)
            (windows_timer_callback timer_script p (cy_heap s, cy_os s)))"

definition future_drop :: "Pending \<Rightarrow> control_sys \<Rightarrow> control_sys outcome" where
  "future_drop t s =
     obind (th_load (cy_heap s) (pending_ptr t)) (\<lambda>i.
       omap (\<lambda>h. s\<lparr>cy_heap := h, cy_futures := remove1 t (cy_futures s),
                   cy_os := drop_freed (ti_platform_data i) (pending_ptr t) h (cy_os s)\<rparr>)
         (pending_drop t (cy_heap s)))"

definition future_take :: "Pending \<Rightarrow> control_sys \<Rightarrow> control_sys outcome" where
  "future_take t s =
     obind (take_completed_from_option (Some t) (cy_heap s)) (\<lambda>(r, left).
       case r of
         None \<Rightarrow> Ret s
       | Some d \<Rightarrow>
           obind (idle_deref d (cy_heap s)) (\<lambda>x.
             omap (\<lambda>h. s\<lparr>cy_heap := h, cy_futures := remove1 t (cy_futures s),
                         cy_os := drop_freed x (idle_ptr d) h (cy_os s)\<rparr>)
               (idle_drop d (cy_heap s))))"

definition nth_of :: "nat \<Rightarrow> 'a list \<Rightarrow> 'a option" where
  "nth_of n xs = (if xs = [] then None else Some (xs ! (n mod length xs)))"

definition control_step :: "control_event \<Rightarrow> control_sys \<Rightarrow> control_sys outcome" where
  "control_step e s =
     (case e of
        EvControlIn n data timeout \<Rightarrow>
          control_made s (windows_control_in timer_script (\<lambda>n. n) (cy_number s) n data timeout (cy_heap s, cy_os s))
      | EvControlOut n data timeout \<Rightarrow>
          control_made s (windows_control_out timer_script (cy_number s) n data timeout (cy_heap s, cy_os s))
      | EvComplete ix status data \<Rightarrow>
          (case nth_of ix (to_inflight (cy_os s)) of
             None \<Rightarrow> Ret s | Some p \<Rightarrow> control_complete p status data s)
      | EvExpire t \<Rightarrow>
          Ret (if t \<in> set (to_armed (cy_os s))
               then s\<lparr>cy_os := (cy_os s)\<lparr>to_armed := removeAll t (to_armed (cy_os s)),
                                        to_running := t # to_running (cy_os s)\<rparr>\<rparr>
               else s)
      | EvCallback t \<Rightarrow> if t \<in> set (to_running (cy_os s)) then control_callback t s else Ret s
      | EvDropFuture ix \<Rightarrow> (case nth_of ix (cy_futures s) of None \<Rightarrow> Ret s | Some t \<Rightarrow> future_drop t s)
      | EvTake ix \<Rightarrow> (case nth_of ix (cy_futures s) of None \<Rightarrow> Ret s | Some t \<Rightarrow> future_take t s))"

fun control_run :: "control_event list \<Rightarrow> control_sys \<Rightarrow> control_sys outcome" where
  "control_run [] s = Ret s"
| "control_run (e # es) s = obind (control_step e s) (control_run es)"

definition control_init :: "u8 \<Rightarrow> nat option list \<Rightarrow> control_sys" where
  "control_init number submits =
     \<lparr>cy_number = number,
      cy_heap = \<lparr>th_mem = (\<lambda>p. None), th_next = 0, th_notify = (\<lambda>n. NotifyNone)\<rparr>,
      cy_os = \<lparr>to_inflight = [], to_submits = submits, to_next = 1, to_timers = [], to_armed = [],
               to_running = []\<rparr>,
      cy_futures = []\<rparr>"

fun event_fits :: "control_event \<Rightarrow> bool" where
  "event_fits (EvControlOut n data timeout) \<longleftrightarrow> length (co_data data) < 65536"
| "event_fits _ \<longleftrightarrow> True"

section \<open>The invariant\<close>

text \<open>
  Every timer belongs to a live transfer that has it, and a timer that can still run its callback
  belongs to a transfer the system has.
\<close>

definition timer_at :: "WindowsTransferData tx_heap \<Rightarrow> nat \<Rightarrow> nat option" where
  "timer_at h p = Option.bind (data_at h p) wt_timeout"

definition timers_ok :: "(nat \<Rightarrow> nat option) \<Rightarrow> timer_os \<Rightarrow> bool" where
  "timers_ok timer k \<longleftrightarrow>
     0 < to_next k \<and> distinct (map fst (to_timers k)) \<and>
     (\<forall>t p. (t, p) \<in> set (to_timers k) \<longleftrightarrow> timer p = Some t) \<and>
     (\<forall>t p. timer p = Some t \<longrightarrow> t < to_next k) \<and>
     (\<forall>t \<in> set (to_armed k) \<union> set (to_running k). \<exists>p \<in> set (to_inflight k). timer p = Some t)"

definition control_ok :: "control_sys \<Rightarrow> bool" where
  "control_ok s \<longleftrightarrow>
     own_ok (cy_heap s) [] (cy_futures s) (to_inflight (cy_os s)) \<and>
     timers_ok (timer_at (cy_heap s)) (cy_os s)"

lemma timer_at_store: "timer_at (th_store p i h) = (timer_at h)(p := wt_timeout (ti_platform_data i))"
  by (auto simp: timer_at_def data_at_store)

lemma timer_at_live: "th_mem h p = Some i \<Longrightarrow> timer_at h p = wt_timeout (ti_platform_data i)"
  by (simp add: timer_at_def data_at_def)

lemma timer_at_freed: "th_mem h p = None \<Longrightarrow> timer_at h p = None"
  by (simp add: timer_at_def data_at_def)

lemma timer_at_changed:
  "(\<And>q. q \<noteq> p \<Longrightarrow> th_mem h' q = th_mem h q) \<Longrightarrow> timer_at h' = (timer_at h)(p := timer_at h' p)"
  by (auto simp: timer_at_def data_at_def)

lemma timers_okI:
  assumes "0 < to_next k" "distinct (map fst (to_timers k))"
    "\<And>t p. (t, p) \<in> set (to_timers k) \<longleftrightarrow> timer p = Some t" "\<And>t p. timer p = Some t \<Longrightarrow> t < to_next k"
    "\<And>t. t \<in> set (to_armed k) \<union> set (to_running k) \<Longrightarrow> \<exists>p \<in> set (to_inflight k). timer p = Some t"
  shows "timers_ok timer k"
  using assms by (simp add: timers_ok_def)

lemma timers_okD:
  assumes "timers_ok timer k"
  shows "0 < to_next k" "distinct (map fst (to_timers k))"
    "(t, p) \<in> set (to_timers k) \<longleftrightarrow> timer p = Some t" "timer p = Some t \<Longrightarrow> t < to_next k"
    "t \<in> set (to_armed k) \<union> set (to_running k) \<Longrightarrow> \<exists>p \<in> set (to_inflight k). timer p = Some t"
  using assms unfolding timers_ok_def by blast+

lemma timer_unique: "timers_ok timer k \<Longrightarrow> timer p = Some t \<Longrightarrow> timer q = Some t \<Longrightarrow> p = q"
  using timers_okD(2,3) [of timer k] by (metis eq_key_imp_eq_value)

text \<open>The changes of the timers that the operations make.\<close>

lemma timers_fresh:
  assumes "timers_ok timer k"
  shows "timer p \<noteq> Some (to_next k)" "to_next k \<notin> set (to_armed k) \<union> set (to_running k)"
    "to_next k \<notin> fst ` set (to_timers k)"
proof -
  show n: "timer p \<noteq> Some (to_next k)" for p using timers_okD(4) [OF assms, of p "to_next k"] by blast
  then show "to_next k \<notin> set (to_armed k) \<union> set (to_running k)" using timers_okD(5) [OF assms] by blast
  show "to_next k \<notin> fst ` set (to_timers k)" using n timers_okD(3) [OF assms] by (metis imageE prod.collapse)
qed

lemma timers_new:
  assumes "timers_ok timer k" "timer p = None" "set (to_armed k') \<subseteq> insert (to_next k) (set (to_armed k))"
    "set (to_running k') \<subseteq> set (to_running k)" "set (to_inflight k) \<subseteq> set (to_inflight k')"
    "to_next k' = to_next k + 1" "to_timers k' = (to_next k, p) # to_timers k"
    "to_next k \<in> set (to_armed k') \<Longrightarrow> p \<in> set (to_inflight k')"
  shows "timers_ok (timer(p \<mapsto> to_next k)) k'"
proof (rule timers_okI, goal_cases)
  case 1
  then show ?case using assms(6) by simp
next
  case 2
  then show ?case using timers_okD(2) [OF assms(1)] timers_fresh(3) [OF assms(1)] assms(7) by simp
next
  case (3 t q)
  then show ?case
    using timers_okD(3) [OF assms(1), of t q] timers_okD(3) [OF assms(1), of t p] assms(2,7) by auto
next
  case (4 t q)
  then show ?case
    using timers_okD(4) [OF assms(1), of q t] assms(6) by (auto split: if_splits)
next
  case (5 t)
  show ?case
  proof (cases "t = to_next k")
    case True
    with 5 assms(4,8) timers_fresh(2) [OF assms(1)] show ?thesis by auto
  next
    case False
    with 5 assms(3,4) have "t \<in> set (to_armed k) \<union> set (to_running k)" by auto
    from timers_okD(5) [OF assms(1) this] obtain q where "q \<in> set (to_inflight k)" "timer q = Some t" by blast
    with assms(2,5) show ?thesis by (intro bexI [of _ q]) auto
  qed
qed

text \<open>A transfer leaves the system after its timer is cancelled.\<close>

lemma timers_cancelled:
  assumes ok: "timers_ok timer k" and ks: "set ks = set (to_inflight k) - {p}"
  shows "timers_ok timer
    ((case timer p of None \<Rightarrow> k | Some t \<Rightarrow> timer_cancel_and_wait timer_script t k)\<lparr>to_inflight := ks\<rparr>)"
    (is "timers_ok timer ?k")
proof (rule timers_okI, goal_cases)
  case 1
  then show ?case using timers_okD(1) [OF ok]
    by (simp add: timer_cancel_and_wait_def timer_script_def split: option.split)
next
  case 2
  then show ?case using timers_okD(2) [OF ok]
    by (simp add: timer_cancel_and_wait_def timer_script_def split: option.split)
next
  case (3 t q)
  then show ?case using timers_okD(3) [OF ok, of t q]
    by (simp add: timer_cancel_and_wait_def timer_script_def split: option.split)
next
  case (4 t q)
  then show ?case using timers_okD(4) [OF ok, of q t]
    by (simp add: timer_cancel_and_wait_def timer_script_def split: option.split)
next
  case (5 t)
  then have t: "t \<in> set (to_armed k) \<union> set (to_running k)" "timer p \<noteq> Some t"
    by (auto simp: timer_cancel_and_wait_def timer_script_def split: option.splits)
  from timers_okD(5) [OF ok t(1)] obtain q where q: "q \<in> set (to_inflight k)" "timer q = Some t" by blast
  with t(2) have "q \<in> set ks" using ks by auto
  with q(2) show ?case by auto
qed

text \<open>A freed transfer closes its timer.\<close>

lemma timers_closed:
  assumes ok: "timers_ok timer k" and p: "p \<notin> set (to_inflight k)"
  shows "timers_ok (timer(p := None))
    (case timer p of None \<Rightarrow> k | Some t \<Rightarrow> timer_drop timer_script t k)"
proof (cases "timer p")
  case None
  then have "timer(p := None) = timer" by auto
  with ok None show ?thesis by simp
next
  case (Some u)
  let ?k = "timer_drop timer_script u k"
  have k: "?k = k\<lparr>to_timers := filter (\<lambda>x. fst x \<noteq> u) (to_timers k)\<rparr>"
    by (simp add: timer_drop_def timer_script_def)
  have "timers_ok (timer(p := None)) ?k"
  proof (rule timers_okI, goal_cases)
    case 1
    then show ?case using timers_okD(1) [OF ok] by (simp add: k)
  next
    case 2
    then show ?case using timers_okD(2) [OF ok] by (simp add: k distinct_map_filter)
  next
    case (3 t q)
    have "t \<noteq> u" if "timer q = Some t" "q \<noteq> p" using timer_unique [OF ok Some, of q] that by blast
    with timers_okD(3) [OF ok, of t q] Some show ?case by (cases "q = p") (auto simp: k)
  next
    case (4 t q)
    then show ?case using timers_okD(4) [OF ok, of q t] by (simp add: k split: if_splits)
  next
    case (5 t)
    then have "t \<in> set (to_armed k) \<union> set (to_running k)" by (simp add: k)
    from timers_okD(5) [OF ok this] obtain q where "q \<in> set (to_inflight k)" "timer q = Some t" by blast
    with p show ?case by (intro bexI [of _ q]) (auto simp: k)
  qed
  with Some show ?thesis by simp
qed

section \<open>Requests\<close>

lemma own_queue_perm: "own_ok h ids q ks \<Longrightarrow> distinct q' \<Longrightarrow> set q' = set q \<Longrightarrow> own_ok h ids q' ks"
  by (simp add: own_ok_def sys_ok_def expected_state_def)

text \<open>Changing the one idle transfer.\<close>

lemma idle_change:
  assumes "own_ok h [t] q ks" "th_mem h (idle_ptr t) = Some i"
  shows "idle_deref_mut f t h = Ret (th_store (idle_ptr t) (i\<lparr>ti_platform_data := f (ti_platform_data i)\<rparr>) h)"
    "own_ok (th_store (idle_ptr t) (i\<lparr>ti_platform_data := f (ti_platform_data i)\<rparr>) h) [t] q ks"
  using assms own_store_data [OF assms, of "i\<lparr>ti_platform_data := f (ti_platform_data i)\<rparr>"]
  by (simp_all add: idle_deref_mut_def th_load_def)

text \<open>A transfer that was armed and is then submitted, or refused and completed in place.\<close>

lemma post_submit_ok:
  assumes own: "own_ok h [] (q @ [Pending p]) (p # to_inflight k)"
    and i: "th_mem h p = Some i" "wt_timeout (ti_platform_data i) = Some (to_next k)"
    and ok: "timers_ok timer k" and timer: "timer_at h = timer(p \<mapsto> to_next k)" "timer p = None"
    and k1: "k1 = k\<lparr>to_next := to_next k + 1, to_timers := (to_next k, p) # to_timers k,
      to_armed := to_next k # to_armed k\<rparr>"
    and call: "to_accept p k1 = ((r, err), k2)"
  shows "\<exists>h' k'. windows_post_submit timer_script err (Pending p) (h, k2) = Ret (h', k') \<and>
    own_ok h' [] (q @ [Pending p]) (to_inflight k') \<and> timers_ok (timer_at h') k'"
proof (cases "err = ERROR_IO_PENDING")
  case True
  with call k1 win_refusal_not_pending have k2: "k2 = k1\<lparr>to_inflight := p # to_inflight k, to_submits := tl (to_submits k)\<rparr>"
    by (auto simp: to_accept_def split: list.splits option.splits)
  have "timers_ok (timer_at h) k2"
    unfolding timer(1) by (rule timers_new [OF ok timer(2)]) (auto simp: k1 k2)
  with True own k1 k2 show ?thesis by (simp add: windows_post_submit_def)
next
  case False
  then obtain x where k2: "k2 = k1\<lparr>to_submits := x\<rparr>"
    using call by (auto simp: to_accept_def split: list.splits option.splits)
  let ?d = "(ti_platform_data i)\<lparr>wt_error_from_submit := Inl (submit_error err)\<rparr>"
  let ?h = "th_store p (i\<lparr>ti_platform_data := ?d\<rparr>) h"
  have own1: "own_ok ?h [] (q @ [Pending p]) (p # to_inflight k)" by (rule own_store_data [OF own i(1)]) simp
  from own_complete [OF own1, of p] obtain w h' where
    c: "notify_completion p ?h = Ret (w, h')" "own_ok h' [] (q @ [Pending p]) (to_inflight k)"
      "\<And>r. r \<noteq> p \<Longrightarrow> th_mem h' r = th_mem ?h r"
      "\<exists>j. th_mem ?h p = Some j \<and> th_mem h' p = Some (j\<lparr>ti_state := STATE_IDLE\<rparr>)" by auto
  let ?k = "timer_cancel_and_wait timer_script (to_next k) k2"
  have "timer_at h' p = Some (to_next k)" using c(4) i(2) by (auto simp: timer_at_live th_mem_store)
  with timer_at_changed [where p = p, OF c(3)] timer(1) have t: "timer_at h' = timer(p \<mapsto> to_next k)"
    by (simp add: timer_at_store i(2))
  have k: "?k = k1\<lparr>to_submits := x, to_armed := to_armed k, to_running := to_running k\<rparr>"
    using timers_fresh(2) [OF ok] k1 k2 by (simp add: timer_cancel_and_wait_def timer_script_def)
  have "timers_ok (timer_at h') ?k"
    unfolding t by (rule timers_new [OF ok timer(2)]) (use timers_fresh(2) [OF ok] in \<open>auto simp: k k1\<close>)
  moreover have "windows_post_submit timer_script err (Pending p) (h, k2) = Ret (h', ?k)"
    using False i c(1) by (simp add: windows_post_submit_def complete_with_def th_load_def timer_script_def)
  ultimately show ?thesis using c(2) k k1 by simp
qed

lemma submit_control_ok:
  assumes own: "own_ok h [t] q (to_inflight k)" and d: "data_at h (idle_ptr t) = Some d" "wt_timeout d = None"
    and ok: "timers_ok (timer_at h) k"
  shows "\<exists>p h' k'. windows_submit_control timer_script number pkt idx timeout t (h, k) = Ret (p, h', k') \<and>
    own_ok h' [] (q @ [p]) (to_inflight k') \<and> timers_ok (timer_at h') k'"
proof -
  let ?p = "idle_ptr t"
  from d obtain i where i: "th_mem h ?p = Some i" "wt_timeout (ti_platform_data i) = None"
    by (auto simp: data_at_Some)
  let ?i1 = "i\<lparr>ti_platform_data := wt_reset (ti_platform_data i)\<rparr>"
  let ?h1 = "th_store ?p ?i1 h"
  note r1 = idle_change [OF own i(1), of wt_reset]
  have i1: "th_mem ?h1 ?p = Some ?i1" by (simp add: th_mem_store)
  have t1: "timer_at ?h1 = timer_at h"
    using timer_at_live [OF i(1)] i(2) by (auto simp: timer_at_store wt_reset_def)
  show ?thesis
  proof (cases "hd pkt AND 0x1f = recipient_u8 RecipientInterface \<and> (ucast idx :: u8) \<noteq> number")
    case True
    let ?f = "\<lambda>d. d\<lparr>wt_error_from_submit := Inl InvalidArgument\<rparr>"
    note r2 = idle_change [OF r1(2) i1, of ?f]
    let ?h2 = "th_store ?p (?i1\<lparr>ti_platform_data := ?f (ti_platform_data ?i1)\<rparr>) ?h1"
    have "timer_at ?h2 = timer_at h"
      using timer_at_live [OF i(1)] i(2) t1 by (auto simp: timer_at_store wt_reset_def)
    then show ?thesis
      using True i(1) r1(1) r2(1) own_simulate [OF r2(2), of t] ok
      by (simp add: windows_submit_control_def idle_deref_def th_load_def)
  next
    case False
    let ?f = "\<lambda>d. d\<lparr>wt_timeout := Some (to_next k)\<rparr>"
    note r2 = idle_change [OF r1(2) i1, of ?f]
    let ?i2 = "?i1\<lparr>ti_platform_data := ?f (ti_platform_data ?i1)\<rparr>"
    let ?h2 = "th_store ?p ?i2 ?h1"
    have i2: "th_mem ?h2 ?p = Some ?i2" by (simp add: th_mem_store)
    note r3 = own_submit [OF r2(2) _ i2]
    let ?h3 = "th_store ?p (?i2\<lparr>ti_state := STATE_PENDING\<rparr>) ?h2"
    let ?k1 = "k\<lparr>to_next := to_next k + 1, to_timers := (to_next k, ?p) # to_timers k,
      to_armed := to_next k # to_armed k\<rparr>"
    obtain r err k2 where call: "to_accept ?p ?k1 = ((r, err), k2)" by (metis prod.exhaust)
    have own3: "own_ok ?h3 [] (q @ [Pending ?p]) (?p # to_inflight k)" using r3(2) by simp
    have "timer_at h ?p = None" using timer_at_live [OF i(1)] i(2) by simp
    moreover have "timer_at ?h3 = (timer_at h)(?p \<mapsto> to_next k)" by (simp add: timer_at_store)
    ultimately obtain h' k' where
      s: "windows_post_submit timer_script err (Pending ?p) (?h3, k2) = Ret (h', k')"
        "own_ok h' [] (q @ [Pending ?p]) (to_inflight k')" "timers_ok (timer_at h') k'"
      using post_submit_ok [OF own3 _ _ ok _ _ refl call] by (auto simp: th_mem_store)
    have "timer_new timer_script ?p k = (Inr (to_next k), k\<lparr>to_next := to_next k + 1, to_timers := (to_next k, ?p) # to_timers k\<rparr>)"
      using timers_okD(1) [OF ok] by (simp add: timer_new_def timer_script_def)
    then have "windows_submit_control timer_script number pkt idx timeout t (h, k) = Ret (Pending ?p, h', k')"
      using i(1) r1(1) r2(1) r3(1) s(1) call
      by (simp add: windows_submit_control_def if_not_P [OF False] idle_deref_def th_load_def timer_set_def
          timer_script_def Let_def del: recipient_u8.simps)
    with s(2,3) show ?thesis by blast
  qed
qed

lemma request_ok:
  assumes ok: "control_ok s" and d: "wt_timeout d = None"
  shows "\<exists>s'. control_made s (case idle_new n d (cy_heap s) of (t, h) \<Rightarrow>
      windows_submit_control timer_script number pkt idx timeout t (h, cy_os s)) = Ret s' \<and> control_ok s'"
proof -
  obtain t h where t: "idle_new n d (cy_heap s) = (t, h)" by fastforce
  from ok have own: "own_ok (cy_heap s) [] (cy_futures s) (to_inflight (cy_os s))"
    and tm: "timers_ok (timer_at (cy_heap s)) (cy_os s)" by (simp_all add: control_ok_def)
  note o = own_new [OF own t]
  have at: "data_at h (idle_ptr t) = Some d" using o(2,3) by (simp add: data_at_def th_store_def)
  have "timer_at h = timer_at (cy_heap s)"
  proof
    fix p
    show "timer_at h p = timer_at (cy_heap s) p"
      using o(2,3,4) d by (cases "p = idle_ptr t") (auto simp: timer_at_def data_at_def th_store_def)
  qed
  with tm have tm1: "timers_ok (timer_at h) (cy_os s)" by simp
  from submit_control_ok [OF o(1) at d tm1, of number pkt idx timeout] t show ?thesis
    by (auto simp: control_made_def control_ok_def)
qed

lemma control_in_transfer_ok:
  "\<exists>d. windows_control_in_transfer (\<lambda>n. n) data = Ret d \<and> wt_timeout d = None"
proof -
  have "unat (ci_length data) < 2 ^ 32" using unat_u16_lt [of "ci_length data"] by simp
  then show ?thesis
    by (simp add: windows_control_in_transfer_def buffer_new_def try_u32_def wt_set_buffer_def wt_new_def)
qed

lemma control_out_transfer_ok:
  "length (co_data data) < 65536 \<Longrightarrow> \<exists>d. windows_control_out_transfer data = Ret d \<and> wt_timeout d = None"
  by (simp add: windows_control_out_transfer_def buffer_from_vec_def vec_of_def vec_capacity_def try_u32_def
      wt_set_buffer_def wt_new_def)

section \<open>Completions, callbacks and drops\<close>

lemma drop_freed_ok:
  assumes "timers_ok (timer(p := wt_timeout d)) k" "p \<notin> set (to_inflight k)" "th_mem h p = None"
    "timer_at h = timer(p := None)"
  shows "timers_ok (timer_at h) (drop_freed d p h k)" "to_inflight (drop_freed d p h k) = to_inflight k"
  using timers_closed [OF assms(1,2)] assms(3,4)
  by (simp_all add: drop_freed_def wt_drop_def timer_drop_def timer_script_def cong: option.case_cong
      split: option.split)

lemma control_complete_ok:
  assumes ok: "control_ok s" and p: "p \<in> set (to_inflight (cy_os s))"
  shows "\<exists>s'. control_complete p st data s = Ret s' \<and> control_ok s'"
proof -
  let ?k = "cy_os s" and ?q = "cy_futures s"
  let ?ks = "remove1 p (to_inflight ?k)"
  from ok have own: "own_ok (cy_heap s) [] ?q (to_inflight ?k)"
    and tm: "timers_ok (timer_at (cy_heap s)) ?k" by (simp_all add: control_ok_def)
  from own_kernel [OF own p] obtain i where i: "th_mem (cy_heap s) p = Some i" by metis
  let ?d = "win_done st data (ti_platform_data i)"
  let ?h = "th_store p (i\<lparr>ti_platform_data := ?d\<rparr>) (cy_heap s)"
  have d: "wt_timeout ?d = wt_timeout (ti_platform_data i)"
    by (cases "direction_from_address (wt_endpoint (ti_platform_data i))") (simp_all add: win_done_def Let_def)
  have th: "timer_at ?h = timer_at (cy_heap s)"
    using timer_at_live [OF i] d by (auto simp: timer_at_store)
  have own1: "own_ok ?h [] ?q (to_inflight ?k)" by (rule own_store_data [OF own i]) simp
  from own_complete [OF own1 p] obtain w h' where
    c: "notify_completion p ?h = Ret (w, h')" "own_ok h' [] ?q ?ks" "\<And>r. r \<noteq> p \<Longrightarrow> th_mem h' r = th_mem ?h r"
      "if Pending p \<in> set ?q
       then \<exists>i. th_mem ?h p = Some i \<and> th_mem h' p = Some (i\<lparr>ti_state := STATE_IDLE\<rparr>)
       else th_mem h' p = None" by blast
  have ks: "set ?ks = set (to_inflight ?k) - {p}"
    using own_distinct(3) [OF own] by (simp add: set_remove1_eq)
  let ?k1 = "(case wt_timeout ?d of None \<Rightarrow> ?k | Some t \<Rightarrow> timer_cancel_and_wait timer_script t ?k)
    \<lparr>to_inflight := ?ks\<rparr>"
  have k1: "(case wt_timeout ?d of None \<Rightarrow> ?k\<lparr>to_inflight := ?ks\<rparr>
      | Some t \<Rightarrow> timer_cancel_and_wait timer_script t (?k\<lparr>to_inflight := ?ks\<rparr>)) = ?k1"
    by (simp add: timer_cancel_and_wait_def timer_script_def split: option.split)
  have "timer_at (cy_heap s) p = wt_timeout ?d" using timer_at_live [OF i] d by simp
  with timers_cancelled [OF tm ks] have tm1: "timers_ok (timer_at ?h) ?k1" by (simp add: th)
  have run: "control_complete p st data s = Ret (s\<lparr>cy_heap := h', cy_os := drop_freed ?d p h' ?k1\<rparr>)"
    unfolding control_complete_def
    using i c(1) k1 by (simp add: th_load_def windows_io_callback_def th_mem_store Let_def cong: option.case_cong)
  have "timers_ok (timer_at h') (drop_freed ?d p h' ?k1) \<and> to_inflight (drop_freed ?d p h' ?k1) = ?ks"
  proof (cases "Pending p \<in> set ?q")
    case True
    with c(4) have live: "th_mem h' p \<noteq> None" "timer_at h' p = timer_at ?h p"
      by (auto simp: timer_at_live)
    with timer_at_changed [where p = p, OF c(3)] have "timer_at h' = timer_at ?h" by auto
    with tm1 live show ?thesis by (auto simp: drop_freed_def)
  next
    case False
    with c(4) have freed: "th_mem h' p = None" by simp
    with timer_at_changed [where p = p, OF c(3)] timer_at_freed [OF freed]
    have "timer_at h' = (timer_at ?h)(p := None)" by simp
    moreover have "(timer_at ?h)(p := wt_timeout ?d) = timer_at ?h"
      by (auto simp: timer_at_store)
    ultimately show ?thesis
      using drop_freed_ok [of "timer_at ?h" p ?d ?k1 h'] tm1 ks freed by simp
  qed
  with run c(2) show ?thesis by (simp add: control_ok_def)
qed

text \<open>The callback of a timer finds its transfer.\<close>

lemma control_callback_ok:
  assumes ok: "control_ok s" and t: "t \<in> set (to_running (cy_os s))"
  shows "\<exists>s'. control_callback t s = Ret s' \<and> control_ok s'"
proof -
  from ok have own: "own_ok (cy_heap s) [] (cy_futures s) (to_inflight (cy_os s))"
    and tm: "timers_ok (timer_at (cy_heap s)) (cy_os s)" by (simp_all add: control_ok_def)
  from t have "t \<in> set (to_armed (cy_os s)) \<union> set (to_running (cy_os s))" by simp
  from timers_okD(5) [OF tm this] obtain p where
    p: "p \<in> set (to_inflight (cy_os s))" "timer_at (cy_heap s) p = Some t" by blast
  then have "map_of (to_timers (cy_os s)) t = Some p"
    using timers_okD(2,3) [OF tm] by (simp add: map_of_eq_Some_iff)
  moreover obtain i where "th_mem (cy_heap s) p = Some i" using own_kernel [OF own p(1)] by metis
  moreover have "timers_ok (timer_at (cy_heap s)) ((cy_os s)\<lparr>to_running := removeAll t (to_running (cy_os s))\<rparr>)"
    by (rule timers_okI) (use timers_okD [OF tm] in auto)
  ultimately show ?thesis
    using own by (simp add: control_callback_def windows_timer_callback_def th_load_def timer_script_def control_ok_def)
qed

text \<open>Futures: dropped while in progress or complete, or taken when complete.\<close>

lemma future_split:
  assumes "own_ok h [] q ks" "t \<in> set q"
  shows "own_ok h [] (t # remove1 t q) ks"
proof -
  have "distinct q" by (rule own_distinct(2) [OF assms(1)])
  with assms(2) have "distinct (t # remove1 t q)" "set (t # remove1 t q) = set q"
    by (auto simp: set_remove1_eq)
  with own_queue_perm [OF assms(1)] show ?thesis by blast
qed

lemma freed_ok:
  assumes "timers_ok (timer_at h) k" "th_mem h p = Some i" "p \<notin> set (to_inflight k)" "th_mem h' p = None"
    "\<And>r. r \<noteq> p \<Longrightarrow> th_mem h' r = th_mem h r"
  shows "timers_ok (timer_at h') (drop_freed (ti_platform_data i) p h' k)"
    "to_inflight (drop_freed (ti_platform_data i) p h' k) = to_inflight k"
proof -
  have "timer_at h' = (timer_at h)(p := None)"
    using timer_at_changed [where p = p, OF assms(5)] timer_at_freed [OF assms(4)] by simp
  moreover have "(timer_at h)(p := wt_timeout (ti_platform_data i)) = timer_at h"
    using timer_at_live [OF assms(2)] by auto
  ultimately show "timers_ok (timer_at h') (drop_freed (ti_platform_data i) p h' k)"
    "to_inflight (drop_freed (ti_platform_data i) p h' k) = to_inflight k"
    using drop_freed_ok [of "timer_at h" p "ti_platform_data i" k h'] assms(1,3,4) by simp_all
qed

lemma future_drop_ok:
  assumes ok: "control_ok s" and t: "t \<in> set (cy_futures s)"
  shows "\<exists>s'. future_drop t s = Ret s' \<and> control_ok s'"
proof -
  let ?h = "cy_heap s" and ?k = "cy_os s" and ?p = "pending_ptr t"
  from ok have own: "own_ok ?h [] (cy_futures s) (to_inflight ?k)" and tm: "timers_ok (timer_at ?h) ?k"
    by (simp_all add: control_ok_def)
  from own_queue [OF own t] obtain i where i: "th_mem ?h ?p = Some i" by metis
  from own_drop_pending [OF future_split [OF own t]] obtain h' where
    d: "pending_drop t ?h = Ret h'" "own_ok h' [] (remove1 t (cy_futures s)) (to_inflight ?k)"
      "\<And>r. r \<noteq> ?p \<Longrightarrow> th_mem h' r = th_mem ?h r"
      "if ?p \<in> set (to_inflight ?k)
       then \<exists>i. th_mem ?h ?p = Some i \<and> th_mem h' ?p = Some (i\<lparr>ti_state := STATE_ABANDONED\<rparr>)
       else th_mem h' ?p = None" by blast
  have "timers_ok (timer_at h') (drop_freed (ti_platform_data i) ?p h' ?k) \<and>
      to_inflight (drop_freed (ti_platform_data i) ?p h' ?k) = to_inflight ?k"
  proof (cases "?p \<in> set (to_inflight ?k)")
    case True
    with d(4) have live: "th_mem h' ?p \<noteq> None" "timer_at h' ?p = timer_at ?h ?p" by (auto simp: timer_at_live)
    with timer_at_changed [where p = ?p, OF d(3)] have "timer_at h' = timer_at ?h" by simp
    with tm live show ?thesis by (auto simp: drop_freed_def)
  next
    case False
    with d(4) freed_ok [OF tm i False _ d(3)] show ?thesis by simp
  qed
  with d(1,2) i show ?thesis by (simp add: future_drop_def th_load_def control_ok_def)
qed

lemma future_take_ok:
  assumes ok: "control_ok s" and t: "t \<in> set (cy_futures s)"
  shows "\<exists>s'. future_take t s = Ret s' \<and> control_ok s'"
proof -
  let ?h = "cy_heap s" and ?k = "cy_os s" and ?p = "pending_ptr t"
  from ok have own: "own_ok ?h [] (cy_futures s) (to_inflight ?k)" and tm: "timers_ok (timer_at ?h) ?k"
    by (simp_all add: control_ok_def)
  from own_queue [OF own t] obtain i where i: "th_mem ?h ?p = Some i" by metis
  note tk = own_take [OF future_split [OF own t]]
  show ?thesis
  proof (cases "?p \<in> set (to_inflight ?k)")
    case True
    with own_is_complete [OF own t] ok show ?thesis
      by (simp add: future_take_def take_completed_from_option_def)
  next
    case False
    with own_is_complete [OF own t]
    have r: "take_completed_from_option (Some t) ?h = Ret (Some (Idle ?p), None)"
      by (simp add: take_completed_from_option_def into_idle_def)
    note dr = own_drop_idle [OF tk(2) [OF False], of "Idle ?p", simplified]
    let ?h' = "?h\<lparr>th_mem := (th_mem ?h)(?p := None)\<rparr>"
    from freed_ok [OF tm i False, of ?h'] dr r i show ?thesis
      by (simp add: future_take_def idle_deref_def th_load_def control_ok_def)
  qed
qed

lemma nth_of_in: "nth_of n xs = Some x \<Longrightarrow> x \<in> set xs"
  by (auto simp: nth_of_def split: if_splits)

lemma expire_ok:
  assumes "control_ok s"
  shows "control_ok (if t \<in> set (to_armed (cy_os s))
    then s\<lparr>cy_os := (cy_os s)\<lparr>to_armed := removeAll t (to_armed (cy_os s)), to_running := t # to_running (cy_os s)\<rparr>\<rparr>
    else s)"
proof (cases "t \<in> set (to_armed (cy_os s))")
  case True
  from assms have tm: "timers_ok (timer_at (cy_heap s)) (cy_os s)" by (simp add: control_ok_def)
  have "timers_ok (timer_at (cy_heap s))
    ((cy_os s)\<lparr>to_armed := removeAll t (to_armed (cy_os s)), to_running := t # to_running (cy_os s)\<rparr>)"
    by (rule timers_okI) (use timers_okD [OF tm] True in auto)
  with assms True show ?thesis by (simp add: control_ok_def)
qed (use assms in simp)

lemma control_step_ok:
  assumes ok: "control_ok s" and fits: "event_fits e"
  shows "\<exists>s'. control_step e s = Ret s' \<and> control_ok s'"
proof (cases e)
  case (EvControlIn n data timeout)
  obtain d where "windows_control_in_transfer (\<lambda>n. n) data = Ret d" "wt_timeout d = None"
    using control_in_transfer_ok by blast
  with request_ok [where d = d and n = n, OF ok] EvControlIn show ?thesis by (simp add: control_step_def windows_control_in_def)
next
  case (EvControlOut n data timeout)
  with fits have "length (co_data data) < 65536" by simp
  moreover from control_out_transfer_ok [OF this] obtain d where
    "windows_control_out_transfer data = Ret d" "wt_timeout d = None" by blast
  ultimately show ?thesis
    using request_ok [where d = d and n = n, OF ok] EvControlOut
    by (simp add: control_step_def windows_control_out_def control_out_setup_packet_def try_u16_def)
next
  case (EvComplete ix st data)
  with ok control_complete_ok [OF ok nth_of_in] show ?thesis by (simp add: control_step_def split: option.split)
next
  case (EvExpire t)
  with expire_ok [OF ok, of t] show ?thesis by (simp add: control_step_def)
next
  case (EvCallback t)
  with ok control_callback_ok [OF ok] show ?thesis by (simp add: control_step_def)
next
  case (EvDropFuture ix)
  with ok future_drop_ok [OF ok nth_of_in] show ?thesis by (simp add: control_step_def split: option.split)
next
  case (EvTake ix)
  with ok future_take_ok [OF ok nth_of_in] show ?thesis by (simp add: control_step_def split: option.split)
qed

lemma control_run_ok:
  "control_ok s \<Longrightarrow> list_all event_fits es \<Longrightarrow> \<exists>s'. control_run es s = Ret s' \<and> control_ok s'"
proof (induction es arbitrary: s)
  case (Cons e es)
  then obtain s1 where "control_step e s = Ret s1" "control_ok s1"
    using control_step_ok [of s e] by auto
  with Cons show ?case by simp
qed simp

lemma control_init_ok: "control_ok (control_init number submits)"
  by (simp add: control_ok_def control_init_def own_ok_empty timers_ok_def timer_at_def data_at_def)

text \<open>
  C11. A timer never outlives its control transfer on Windows. Let control requests be made (with data
  that fits the length field), let the system refuse and complete them, let the timers expire and
  their callbacks run at any later moment, and let the futures be dropped or taken at any time:
  nothing panics, and no callback, completion or drop touches a transfer that has been freed; every
  timer that is armed or has a queued callback belongs to a live transfer that the system has; and
  once no transfer is left, no timer is left either.
\<close>

theorem windows_timers_safe:
  assumes "list_all event_fits es"
  shows "\<exists>s. control_run es (control_init number submits) = Ret s \<and>
    (\<forall>t \<in> set (to_armed (cy_os s) @ to_running (cy_os s)).
       \<exists>p d. map_of (to_timers (cy_os s)) t = Some p \<and> p \<in> set (to_inflight (cy_os s)) \<and>
         data_at (cy_heap s) p = Some d \<and> wt_timeout d = Some t) \<and>
    (cy_futures s = [] \<longrightarrow> to_inflight (cy_os s) = [] \<longrightarrow>
       to_timers (cy_os s) = [] \<and> to_armed (cy_os s) = [] \<and> to_running (cy_os s) = [])"
proof -
  from control_run_ok [OF control_init_ok assms] obtain s where
    s: "control_run es (control_init number submits) = Ret s" "control_ok s" by blast
  then have own: "own_ok (cy_heap s) [] (cy_futures s) (to_inflight (cy_os s))"
    and tm: "timers_ok (timer_at (cy_heap s)) (cy_os s)" by (simp_all add: control_ok_def)
  have "\<exists>p d. map_of (to_timers (cy_os s)) t = Some p \<and> p \<in> set (to_inflight (cy_os s)) \<and>
      data_at (cy_heap s) p = Some d \<and> wt_timeout d = Some t"
    if "t \<in> set (to_armed (cy_os s) @ to_running (cy_os s))" for t
  proof -
    from that timers_okD(5) [OF tm, of t] obtain p where
      p: "p \<in> set (to_inflight (cy_os s))" "timer_at (cy_heap s) p = Some t" by auto
    then show ?thesis
      using timers_okD(2,3) [OF tm]
      by (auto simp: map_of_eq_Some_iff timer_at_def bind_eq_Some_conv)
  qed
  moreover have "to_timers (cy_os s) = [] \<and> to_armed (cy_os s) = [] \<and> to_running (cy_os s) = []"
    if "cy_futures s = []" "to_inflight (cy_os s) = []"
  proof -
    have "th_mem (cy_heap s) p = None" for p
      using own that by (metis expected_state_def list.set(1) empty_iff own_ok_def own_sys_sel st_at_None sys_okD(5))
    then have "timer_at (cy_heap s) p = None" for p by (simp add: timer_at_freed)
    then have "x \<notin> set (to_timers (cy_os s))" "t \<notin> set (to_armed (cy_os s))" "t \<notin> set (to_running (cy_os s))"
      for x t using timers_okD(3) [OF tm] timers_okD(5) [OF tm, of t] by (cases x; auto)+
    then show ?thesis by (metis list.set_intros(1) list.exhaust)
  qed
  ultimately show ?thesis using s(1) by blast
qed

theorem windows_timers_safe_witness:
  "let es = [EvControlIn 0 \<lparr>ci_control_type = Vendor, ci_recipient = RecipientDevice, ci_request = 1,
                ci_value = 0, ci_index = 0, ci_length = 4\<rparr> (duration_from_secs 1),
             EvControlOut 1 \<lparr>co_control_type = Vendor, co_recipient = RecipientInterface, co_request = 2,
                co_value = 0, co_index = 1, co_data = [7]\<rparr> (duration_from_secs 1),
             EvExpire 1, EvDropFuture 0, EvCallback 1, EvComplete 0 995 []];
       s0 = control_init 0 []
   in (\<exists>s. control_run es s0 = Ret s \<and>
        (\<forall>t \<in> set (to_armed (cy_os s) @ to_running (cy_os s)).
           \<exists>p d. map_of (to_timers (cy_os s)) t = Some p \<and> p \<in> set (to_inflight (cy_os s)) \<and>
             data_at (cy_heap s) p = Some d \<and> wt_timeout d = Some t) \<and>
        (cy_futures s = [] \<longrightarrow> to_inflight (cy_os s) = [] \<longrightarrow>
           to_timers (cy_os s) = [] \<and> to_armed (cy_os s) = [] \<and> to_running (cy_os s) = [])) \<and>
      omap (\<lambda>s. (to_timers (cy_os s), length (cy_futures s))) (control_run es s0) = Ret ([], 1)"
proof -
  let ?es = "[EvControlIn 0 \<lparr>ci_control_type = Vendor, ci_recipient = RecipientDevice, ci_request = 1,
                ci_value = 0, ci_index = 0, ci_length = 4\<rparr> (duration_from_secs 1),
             EvControlOut 1 \<lparr>co_control_type = Vendor, co_recipient = RecipientInterface, co_request = 2,
                co_value = 0, co_index = 1, co_data = [7]\<rparr> (duration_from_secs 1),
             EvExpire 1, EvDropFuture 0, EvCallback 1, EvComplete 0 995 []]"
  have fits: "list_all event_fits ?es" by simp
  have run: "omap (\<lambda>s. (to_timers (cy_os s), length (cy_futures s))) (control_run ?es (control_init 0 [])) =
      Ret ([], 1)" by code_simp
  from windows_timers_safe [OF fits, of 0 "[]"] run show ?thesis
    unfolding Let_def by (simp del: control_run.simps)
qed

end
