(* ===== verification/Windows_Hotplug.thy ===== *)
theory Windows_Hotplug
  imports Windows_Enumeration
begin

text \<open>
  src/src/platform/windows_winusb/hotplug.rs: the callback that Windows runs on another thread puts
  events into a queue and wakes the task; \<open>poll_next\<close> takes one entry. A callback is
  one step, and so is a poll: the two mutexes of the code are not taken apart. The device tree \<open>W\<close> stays the same
  during a history.
\<close>

section \<open>Operations\<close>

datatype Action = ActionConnect | ActionDisconnect

record HotplugInner =
  hi_waker :: "nat option"
  hi_events :: "(Action \<times> u32) list"

text \<open>\<open>cr\<close> is the result of \<open>CM_Register_Notification\<close>.\<close>

definition windows_hotplug_new :: "u32 \<Rightarrow> nusb_error + HotplugInner" where
  "windows_hotplug_new cr =
     (if cr \<noteq> 0 then Inl (windows_error_new_os KOther ''failed to initialize hotplug notifications'' cr)
      else Inr \<lparr>hi_waker = None, hi_events = []\<rparr>)"

definition windows_hotplug_poll_next ::
  "nat \<Rightarrow> winsys \<Rightarrow> nat \<Rightarrow> HotplugInner \<Rightarrow> ((WindowsDeviceInfo, u32) HotplugEvent option \<times> HotplugInner) outcome"
where
  "windows_hotplug_poll_next n W waker i =
     (let i = i\<lparr>hi_waker := Some waker\<rparr>
      in case hi_events i of
           [] \<Rightarrow> Ret (None, i)
         | (ActionConnect, devinst) # rest \<Rightarrow>
             omap (\<lambda>dev. (map_option ConnectedEvent dev, i\<lparr>hi_events := rest\<rparr>)) (windows_probe_device n W devinst)
         | (ActionDisconnect, devinst) # rest \<Rightarrow>
             Ret (Some (DisconnectedEvent devinst), i\<lparr>hi_events := rest\<rparr>))"

text \<open>\<open>CM_NOTIFY_ACTION\<close>\<close>

definition CM_NOTIFY_ACTION_DEVICEINTERFACEARRIVAL :: nat where
  "CM_NOTIFY_ACTION_DEVICEINTERFACEARRIVAL = 0"

definition CM_NOTIFY_ACTION_DEVICEINTERFACEREMOVAL :: nat where
  "CM_NOTIFY_ACTION_DEVICEINTERFACEREMOVAL = 1"

definition hotplug_action :: "nat \<Rightarrow> Action option" where
  "hotplug_action action =
     (if action = CM_NOTIFY_ACTION_DEVICEINTERFACEARRIVAL then Some ActionConnect
      else if action = CM_NOTIFY_ACTION_DEVICEINTERFACEREMOVAL then Some ActionDisconnect
      else None)"

text \<open>The callback for an interface with the given path; the result is the waker to wake.\<close>

definition hotplug_callback ::
  "winsys \<Rightarrow> nat \<Rightarrow> u16 list \<Rightarrow> HotplugInner \<Rightarrow> (nat option \<times> HotplugInner) outcome" where
  "hotplug_callback W action interface i =
     (case hotplug_action action of
        None \<Rightarrow> Ret (None, i)
      | Some a \<Rightarrow>
          obind (interface_devinst W interface) (\<lambda>r.
            case r of
              None \<Rightarrow> Ret (None, i)
            | Some devinst \<Rightarrow>
                Ret (hi_waker i, i\<lparr>hi_events := hi_events i @ [(a, devinst)], hi_waker := None\<rparr>)))"

section \<open>Histories\<close>

datatype hotplug_op = NotifyOp nat "u16 list" | PollNextOp nat

text \<open>The events that the stream gives and the tasks that are woken, in order.\<close>

fun hotplug_run ::
  "nat \<Rightarrow> winsys \<Rightarrow> hotplug_op list \<Rightarrow> HotplugInner \<Rightarrow>
   ((WindowsDeviceInfo, u32) HotplugEvent list \<times> nat list \<times> HotplugInner) outcome" where
  "hotplug_run n W [] i = Ret ([], [], i)"
| "hotplug_run n W (NotifyOp action interface # ops) i =
     obind (hotplug_callback W action interface i) (\<lambda>(w, i).
     omap (\<lambda>(out, ws, i). (out, (case w of None \<Rightarrow> ws | Some w \<Rightarrow> w # ws), i)) (hotplug_run n W ops i))"
| "hotplug_run n W (PollNextOp waker # ops) i =
     obind (windows_hotplug_poll_next n W waker i) (\<lambda>(r, i).
     omap (\<lambda>(out, ws, i). ((case r of None \<Rightarrow> out | Some e \<Rightarrow> e # out), ws, i)) (hotplug_run n W ops i))"

text \<open>What an entry of the queue means, and what a notification does.\<close>

definition announced :: "nat \<Rightarrow> winsys \<Rightarrow> Action \<times> u32 \<Rightarrow> (WindowsDeviceInfo, u32) HotplugEvent option" where
  "announced n W x =
     (case x of
        (ActionConnect, d) \<Rightarrow> (case windows_probe_device n W d of Ret (Some dev) \<Rightarrow> Some (ConnectedEvent dev) | _ \<Rightarrow> None)
      | (ActionDisconnect, d) \<Rightarrow> Some (DisconnectedEvent d))"

definition notified :: "winsys \<Rightarrow> hotplug_op \<Rightarrow> (Action \<times> u32) option" where
  "notified W op =
     (case op of
        NotifyOp action interface \<Rightarrow>
          (case (hotplug_action action, interface_devinst W interface) of
             (Some a, Ret (Some d)) \<Rightarrow> Some (a, d) | _ \<Rightarrow> None)
      | PollNextOp waker \<Rightarrow> None)"

definition entry_ok :: "nat \<Rightarrow> winsys \<Rightarrow> Action \<times> u32 \<Rightarrow> bool" where
  "entry_ok n W x \<longleftrightarrow> fst x = ActionDisconnect \<or> is_ret (windows_probe_device n W (snd x))"

definition hotplug_op_ok :: "nat \<Rightarrow> winsys \<Rightarrow> hotplug_op \<Rightarrow> bool" where
  "hotplug_op_ok n W op \<longleftrightarrow>
     (case op of
        NotifyOp action interface \<Rightarrow>
          is_ret (interface_devinst W interface) \<and>
          (case notified W op of None \<Rightarrow> True | Some x \<Rightarrow> entry_ok n W x)
      | PollNextOp waker \<Rightarrow> True)"

lemma map_filter_append: "List.map_filter f (xs @ ys) = List.map_filter f xs @ List.map_filter f ys"
  by (induction xs) (auto simp: List.map_filter_simps split: option.split)

lemma hotplug_poll_step:
  assumes "list_all (entry_ok n W) (hi_events i)"
  shows "\<exists>r i'. windows_hotplug_poll_next n W waker i = Ret (r, i') \<and> list_all (entry_ok n W) (hi_events i') \<and>
    (case r of None \<Rightarrow> [] | Some e \<Rightarrow> [e]) @ List.map_filter (announced n W) (hi_events i') =
      List.map_filter (announced n W) (hi_events i)"
proof (cases "hi_events i")
  case Nil
  then show ?thesis by (simp add: windows_hotplug_poll_next_def)
next
  case (Cons x rest)
  obtain a d where x: "x = (a, d)" by fastforce
  show ?thesis
  proof (cases a)
    case ActionConnect
    with assms Cons x obtain dev where "windows_probe_device n W d = Ret dev"
      by (auto simp: entry_ok_def is_ret_iff)
    with assms Cons x ActionConnect show ?thesis
      by (cases dev) (simp_all add: windows_hotplug_poll_next_def announced_def List.map_filter_simps)
  next
    case ActionDisconnect
    with assms Cons x show ?thesis
      by (simp add: windows_hotplug_poll_next_def announced_def List.map_filter_simps)
  qed
qed

lemma hotplug_callback_step:
  assumes "list_all (entry_ok n W) (hi_events i)" "hotplug_op_ok n W (NotifyOp action interface)"
  shows "\<exists>w i'. hotplug_callback W action interface i = Ret (w, i') \<and> list_all (entry_ok n W) (hi_events i') \<and>
    hi_events i' = hi_events i @ List.map_filter (notified W) [NotifyOp action interface]"
proof (cases "hotplug_action action")
  case None
  with assms show ?thesis by (simp add: hotplug_callback_def notified_def List.map_filter_simps)
next
  case (Some a)
  from assms(2) obtain r where r: "interface_devinst W interface = Ret r"
    by (auto simp: hotplug_op_ok_def is_ret_iff)
  with Some assms show ?thesis
    by (cases r) (simp_all add: hotplug_callback_def notified_def hotplug_op_ok_def List.map_filter_simps)
qed

lemma hotplug_run_ok:
  "list_all (entry_ok n W) (hi_events i) \<Longrightarrow> list_all (hotplug_op_ok n W) ops \<Longrightarrow>
    \<exists>out ws i'. hotplug_run n W ops i = Ret (out, ws, i') \<and>
      out @ List.map_filter (announced n W) (hi_events i') =
        List.map_filter (announced n W) (hi_events i @ List.map_filter (notified W) ops)"
proof (induction ops arbitrary: i)
  case Nil
  then show ?case by (simp add: List.map_filter_simps)
next
  case (Cons op ops)
  show ?case
  proof (cases op)
    case (NotifyOp action interface)
    with Cons.prems hotplug_callback_step [of n W i action interface] obtain w i1 where
      c: "hotplug_callback W action interface i = Ret (w, i1)" "list_all (entry_ok n W) (hi_events i1)"
        "hi_events i1 = hi_events i @ List.map_filter (notified W) [NotifyOp action interface]" by auto
    have "List.map_filter (notified W) (op # ops) =
        List.map_filter (notified W) [NotifyOp action interface] @ List.map_filter (notified W) ops"
      unfolding NotifyOp map_filter_append [symmetric] by simp
    with c Cons.IH [OF c(2)] Cons.prems(2) NotifyOp show ?thesis by auto
  next
    case (PollNextOp waker)
    from hotplug_poll_step [OF Cons.prems(1), of waker] obtain r i1 where
      p: "windows_hotplug_poll_next n W waker i = Ret (r, i1)" "list_all (entry_ok n W) (hi_events i1)"
        "(case r of None \<Rightarrow> [] | Some e \<Rightarrow> [e]) @ List.map_filter (announced n W) (hi_events i1) =
          List.map_filter (announced n W) (hi_events i)" by blast
    have "List.map_filter (notified W) (op # ops) = List.map_filter (notified W) ops"
      using PollNextOp by (simp add: notified_def List.map_filter_simps)
    with p Cons.IH [OF p(2)] Cons.prems(2) PollNextOp show ?thesis
      by (cases r) (auto simp: map_filter_append)
  qed
qed

text \<open>
  C24. The Windows hotplug stream delivers what was announced, once and in order. Let notifications
  arrive on the other thread and the stream be polled in any interleaving: what the stream has given
  followed by what is still in the queue are exactly the announced events in their order, a removal
  as a disconnect event and an arrival as a connect event with the device's information, left out
  only when the device cannot be probed.
\<close>

theorem windows_hotplug_in_order:
  assumes "windows_hotplug_new 0 = Inr i0" "list_all (hotplug_op_ok n W) ops"
  shows "\<exists>out ws i. hotplug_run n W ops i0 = Ret (out, ws, i) \<and>
    out @ List.map_filter (announced n W) (hi_events i) =
      List.map_filter (announced n W) (List.map_filter (notified W) ops)"
proof -
  from assms(1) have "i0 = \<lparr>hi_waker = None, hi_events = []\<rparr>" by (auto simp: windows_hotplug_new_def)
  with hotplug_run_ok [of n W i0 ops] assms(2) show ?thesis by simp
qed

definition hotplug_system :: winsys where
  "hotplug_system =
     composite_system\<lparr>ws_interface_property := (\<lambda>i k. Some (PropString [65, 0])), ws_locate := (\<lambda>i. Some 11)\<rparr>"

theorem windows_hotplug_in_order_witness:
  "\<exists>out ws i.
     hotplug_run 5 hotplug_system [PollNextOp 3, NotifyOp 1 [90, 0], NotifyOp 9 [90, 0], PollNextOp 7]
       \<lparr>hi_waker = None, hi_events = []\<rparr> = Ret (out, ws, i) \<and>
     out @ List.map_filter (announced 5 hotplug_system) (hi_events i) = [DisconnectedEvent 11]"
proof -
  let ?ops = "[PollNextOp 3, NotifyOp 1 [90, 0], NotifyOp 9 [90, 0], PollNextOp 7]"
  have new: "windows_hotplug_new 0 = Inr \<lparr>hi_waker = None, hi_events = []\<rparr>" by code_simp
  have dev: "interface_devinst hotplug_system i = Ret (Some 11)" for i
  proof -
    have "interface_devinst hotplug_system [] = Ret (Some 11)" by code_simp
    then show ?thesis by (simp add: interface_devinst_def hotplug_system_def)
  qed
  have act: "hotplug_action (Suc 0) = Some ActionDisconnect" "hotplug_action 9 = None"
    by (simp_all add: hotplug_action_def CM_NOTIFY_ACTION_DEVICEINTERFACEARRIVAL_def
        CM_NOTIFY_ACTION_DEVICEINTERFACEREMOVAL_def)
  have ok: "list_all (hotplug_op_ok 5 hotplug_system) ?ops"
    by (simp add: hotplug_op_ok_def notified_def dev act entry_ok_def)
  from windows_hotplug_in_order [OF new ok] show ?thesis
    by (simp add: notified_def dev act announced_def List.map_filter_simps)
qed

text \<open>
  When a poll of the Windows hotplug stream is not ready, the task is registered and the queue may
  still hold events: this happens exactly when the oldest entry was the arrival of a device that
  cannot be probed. No callback has to come after it, so these events wait for an unrelated one.
\<close>

theorem windows_hotplug_pending:
  "(case windows_hotplug_poll_next n W waker i of
      Ret (None, i') \<Rightarrow>
        hi_waker i' = Some waker \<and> hi_events i' = tl (hi_events i) \<and>
        (hi_events i = [] \<or> (\<exists>d rest. hi_events i = (ActionConnect, d) # rest \<and> windows_probe_device n W d = Ret None))
    | Ret (Some e, i') \<Rightarrow> announced n W (hd (hi_events i)) = Some e \<and> hi_events i' = tl (hi_events i)
    | _ \<Rightarrow> \<exists>d rest. hi_events i = (ActionConnect, d) # rest \<and> \<not> is_ret (windows_probe_device n W d))"
proof (cases "hi_events i")
  case Nil
  then show ?thesis by (simp add: windows_hotplug_poll_next_def)
next
  case (Cons x rest)
  obtain a d where x: "x = (a, d)" by fastforce
  show ?thesis
  proof (cases a)
    case ActionConnect
    with Cons x show ?thesis
      by (cases "windows_probe_device n W d")
        (auto simp: windows_hotplug_poll_next_def announced_def split: option.split)
  next
    case ActionDisconnect
    with Cons x show ?thesis by (simp add: windows_hotplug_poll_next_def announced_def)
  qed
qed

end
