(* ===== verification/Mac_System.thy ===== *)
theory Mac_System
  imports Enumeration Descriptors
begin

unbundle bit_operations_syntax

text \<open>
  What the macOS backend takes from IOKit: its return codes (src/src/platform/macos_iokit/mod.rs and
  iokit.rs) and the pipes of an interface (iokit_usb.rs).
\<close>

section \<open>Return codes\<close>

type_synonym IOReturn = i32

definition kIOReturnSuccess :: IOReturn where "kIOReturnSuccess = 0"
definition kIOReturnNoResources :: IOReturn where "kIOReturnNoResources = 0xE00002BE"
definition kIOReturnNoDevice :: IOReturn where "kIOReturnNoDevice = 0xE00002C0"
definition kIOReturnBadArgument :: IOReturn where "kIOReturnBadArgument = 0xE00002C2"
definition kIOReturnExclusiveAccess :: IOReturn where "kIOReturnExclusiveAccess = 0xE00002C5"
definition kIOReturnUnderrun :: IOReturn where "kIOReturnUnderrun = 0xE00002E7"
definition kIOReturnAborted :: IOReturn where "kIOReturnAborted = 0xE00002EB"
definition kIOReturnNotFound :: IOReturn where "kIOReturnNotFound = 0xE00002F0"
definition kIOUSBPipeStalled :: IOReturn where "kIOUSBPipeStalled = 0xE000404F"
definition kIOUSBTransactionTimeout :: IOReturn where "kIOUSBTransactionTimeout = 0xE0004051"

definition status_to_transfer_result :: "IOReturn \<Rightarrow> TransferError + unit" where
  "status_to_transfer_result status =
     (if status = kIOReturnSuccess \<or> status = kIOReturnUnderrun then Inr ()
      else if status = kIOReturnNoDevice then Inl Disconnected
      else if status = kIOReturnAborted \<or> status = kIOUSBTransactionTimeout then Inl Cancelled
      else if status = kIOUSBPipeStalled then Inl Stall
      else if status = kIOReturnBadArgument then Inl InvalidArgument
      else Inl (UnknownError status))"

definition mac_error_new_os :: "ErrorKind \<Rightarrow> string \<Rightarrow> IOReturn \<Rightarrow> nusb_error" where
  "mac_error_new_os k m code = \<lparr>err_kind = k, err_code = nonzero_u32 code, err_message = m\<rparr>"

definition check_iokit_return :: "IOReturn \<Rightarrow> IOReturn + unit" where
  "check_iokit_return r = (if r = kIOReturnSuccess then Inr () else Inl r)"

text \<open>\<open>{:08x}\<close> and \<open>{:02x}\<close>: at least that many digits.\<close>

definition mac_format_os_error_code :: "u32 \<Rightarrow> string" where
  "mac_format_os_error_code code =
     ''error 0x'' @ pad_zeros 8 (radix_digits 16 (unat code))"

section \<open>Pipes\<close>

text \<open>
  \<open>GetPipeProperties\<close> of a pipe gives its direction and number. The pipes are numbered from 1 to
  \<open>count\<close>; those that cannot be asked are skipped.
\<close>

type_synonym pipe_properties = "u8 \<Rightarrow> IOReturn + u8 \<times> u8"

definition pipe_address :: "u8 \<Rightarrow> u8 \<Rightarrow> u8" where
  "pipe_address direction number = number OR push_bit 7 (if direction \<noteq> 0 then 1 else 0)"

fun find_pipe :: "pipe_properties \<Rightarrow> u8 \<Rightarrow> u8 list \<Rightarrow> u8 option" where
  "find_pipe pipes address [] = None"
| "find_pipe pipes address (r # rs) =
     (case pipes r of
        Inl e \<Rightarrow> find_pipe pipes address rs
      | Inr (direction, number) \<Rightarrow>
          if pipe_address direction number = address then Some r else find_pipe pipes address rs)"

definition find_pipe_ref :: "IOReturn + u8 \<Rightarrow> pipe_properties \<Rightarrow> u8 \<Rightarrow> u8 option" where
  "find_pipe_ref count pipes address =
     (case count of Inl e \<Rightarrow> None | Inr n \<Rightarrow> find_pipe pipes address (map of_nat [1 ..< Suc (unat n)]))"

end
