(* ===== verification/Mac_Enumeration.thy ===== *)
theory Mac_Enumeration
  imports Mac_System
begin

text \<open>
  src/src/platform/macos_iokit/enumeration.rs: devices and buses as the I/O registry shows them. The
  casts of the integer properties keep the low bits.
\<close>

section \<open>The registry\<close>

datatype cf_value = CfNumber "int option" | CfString string | CfData bytes | CfOther

text \<open>A service: its registry entry ID, its properties, its children and what opening it gives.\<close>

datatype IoService =
  IoService (io_registry_id: "u64 option") (io_property: "string \<Rightarrow> cf_value option")
    (io_children: "IOReturn + IoService list")

text \<open>What \<open>IOServiceMatching\<close> and \<open>IOServiceGetMatchingServices\<close> give for a class.\<close>

type_synonym matching = "string \<Rightarrow> (IOReturn + IoService list) option"

definition matching_services :: "matching \<Rightarrow> string \<Rightarrow> nusb_error + IoService list" where
  "matching_services M class =
     (case M class of
        None \<Rightarrow> Inl (error_new KOther ''IOServiceMatching failed'')
      | Some (Inl r) \<Rightarrow> Inl (mac_error_new_os KOther ''failed to create IOKit iterator'' r)
      | Some (Inr ss) \<Rightarrow> Inr ss)"

definition usb_service_iter :: "matching \<Rightarrow> nusb_error + IoService list" where
  "usb_service_iter M = matching_services M ''IOUSBDevice''"

fun controller_class :: "UsbControllerType \<Rightarrow> string" where
  "controller_class XHCI = ''AppleUSBXHCI''"
| "controller_class EHCI = ''AppleUSBEHCI''"
| "controller_class OHCI = ''AppleUSBOHCI''"
| "controller_class UHCI = ''AppleUSBOHCI''"
| "controller_class VHCI = ''AppleUSBVHCI''"

definition usb_controller_service_iter :: "matching \<Rightarrow> UsbControllerType \<Rightarrow> nusb_error + IoService list" where
  "usb_controller_service_iter M t = matching_services M (controller_class t)"

section \<open>Properties\<close>

definition get_string_property :: "IoService \<Rightarrow> string \<Rightarrow> string option" where
  "get_string_property d k = (case io_property d k of Some (CfString s) \<Rightarrow> Some s | _ \<Rightarrow> None)"

definition get_integer_property :: "IoService \<Rightarrow> string \<Rightarrow> int option" where
  "get_integer_property d k = (case io_property d k of Some (CfNumber n) \<Rightarrow> n | _ \<Rightarrow> None)"

text \<open>Bytes as characters, without the NULs.\<close>

definition get_ascii_array_property :: "IoService \<Rightarrow> string \<Rightarrow> string option" where
  "get_ascii_array_property d k =
     (case io_property d k of
        Some (CfData bs) \<Rightarrow> Some (filter (\<lambda>c. c \<noteq> CHR 0x00) (map (\<lambda>b. char_of (unat b)) bs))
      | _ \<Rightarrow> None)"

definition or_else :: "'a option \<Rightarrow> 'a option \<Rightarrow> 'a option" where
  "or_else a b = (case a of None \<Rightarrow> b | Some x \<Rightarrow> Some x)"

section \<open>Decoding\<close>

definition map_speed :: "int \<Rightarrow> Speed option" where
  "map_speed speed =
     (if speed = 0 then Some Low
      else if speed = 1 then Some Full
      else if speed = 2 then Some High
      else if speed = 3 then Some Super
      else if speed = 4 \<or> speed = 5 then Some SuperPlus
      else None)"

text \<open>The loop of \<open>parse_location_id\<close>: the bits that are left have moved up, so the zeros below grow.\<close>

definition low_zeros :: "u32 \<Rightarrow> nat" where
  "low_zeros s = card {n. n < 32 \<and> (\<exists>m \<le> n. bit s m)}"

lemma low_zeros_shift: "s \<noteq> 0 \<Longrightarrow> low_zeros (push_bit 4 s) < low_zeros s"
proof -
  assume "s \<noteq> 0"
  then have ex: "\<exists>m. bit s m" by (metis bit_0_eq bot_apply bot_bool_def bit_eq_iff)
  define l where "l = (LEAST m. bit s m)"
  have l: "bit s l" "\<And>m. bit s m \<Longrightarrow> l \<le> m" using ex by (auto simp: l_def intro: LeastI_ex Least_le)
  have l32: "l < 32" using bit_imp_le_length [OF l(1)] by simp
  have "{n. n < 32 \<and> (\<exists>m \<le> n. bit (push_bit 4 s) m)} \<subset> {n. n < 32 \<and> (\<exists>m \<le> n. bit s m)}"
  proof
    show "{n. n < 32 \<and> (\<exists>m \<le> n. bit (push_bit 4 s) m)} \<subseteq> {n. n < 32 \<and> (\<exists>m \<le> n. bit s m)}"
      by (auto simp: bit_simps intro: le_trans diff_le_self)
    have "l \<notin> {n. n < 32 \<and> (\<exists>m \<le> n. bit (push_bit 4 s) m)}"
      using l(2) by (fastforce simp: bit_simps)
    with l(1) l32 show "{n. n < 32 \<and> (\<exists>m \<le> n. bit (push_bit 4 s) m)} \<noteq> {n. n < 32 \<and> (\<exists>m \<le> n. bit s m)}"
      by blast
  qed
  then show ?thesis unfolding low_zeros_def by (intro psubset_card_mono) simp_all
qed

function location_ports :: "u32 \<Rightarrow> bytes" where
  "location_ports shift =
     (if shift = 0 then [] else ucast (drop_bit 28 shift) # location_ports (push_bit 4 shift))"
  by pat_completeness auto
termination by (relation "measure low_zeros") (simp_all add: low_zeros_shift)

declare location_ports.simps [simp del]

definition parse_location_id :: "u32 \<Rightarrow> bytes" where
  "parse_location_id loc = location_ports (push_bit 8 loc)"

section \<open>Devices and buses\<close>

record MacDeviceInfo = DeviceInfo +
  mdi_registry_id :: u64
  mdi_location_id :: u32

record MacBusInfo = BusInfo +
  mbi_registry_id :: u64
  mbi_location_id :: u32
  mbi_provider_class_name :: string
  mbi_class_name :: string
  mbi_name :: "string option"

text \<open>An integer property with \<open>as\<close>; \<open>?\<close> is \<open>Option.bind\<close>.\<close>

definition int_property :: "IoService \<Rightarrow> string \<Rightarrow> ('a::len) word option" where
  "int_property d k = map_option word_of_int (get_integer_property d k)"

definition location_bus_id :: "u32 \<Rightarrow> string" where
  "location_bus_id loc = pad_zeros 2 (radix_digits 16 (unat (ucast (drop_bit 24 loc) :: u8)))"

definition child_interface :: "IoService \<Rightarrow> InterfaceInfo option" where
  "child_interface child =
     Option.bind (int_property child ''bInterfaceNumber'') (\<lambda>num.
     Option.bind (int_property child ''bInterfaceClass'') (\<lambda>cl.
     Option.bind (int_property child ''bInterfaceSubClass'') (\<lambda>sub.
     Option.bind (int_property child ''bInterfaceProtocol'') (\<lambda>proto.
       Some \<lparr>ii_interface_number = num, ii_class = cl, ii_subclass = sub, ii_protocol = proto,
             ii_interface_string =
               or_else (get_string_property child ''kUSBString'')
                 (get_string_property child ''USB Interface Name'')\<rparr>))))"

definition mac_probe_device :: "IoService \<Rightarrow> MacDeviceInfo option" where
  "mac_probe_device d =
     Option.bind (io_registry_id d) (\<lambda>registry_id.
     Option.bind (int_property d ''locationID'') (\<lambda>loc.
     Option.bind (int_property d ''USB Address'') (\<lambda>address.
     Option.bind (int_property d ''idVendor'') (\<lambda>vendor_id.
     Option.bind (int_property d ''idProduct'') (\<lambda>product_id.
     Option.bind (int_property d ''bcdDevice'') (\<lambda>device_version.
     Option.bind (int_property d ''bcdUSB'') (\<lambda>usb_version.
     Option.bind (int_property d ''bDeviceClass'') (\<lambda>cl.
     Option.bind (int_property d ''bDeviceSubClass'') (\<lambda>sub.
     Option.bind (int_property d ''bDeviceProtocol'') (\<lambda>proto.
       Some
        \<lparr>di_bus_id = location_bus_id loc, di_device_address = address,
         di_port_chain = parse_location_id loc, di_vendor_id = vendor_id, di_product_id = product_id,
         di_device_version = device_version, di_usb_version = usb_version, di_class = cl,
         di_subclass = sub, di_protocol = proto,
         di_speed = Option.bind (get_integer_property d ''Device Speed'') map_speed,
         di_manufacturer_string =
           or_else (get_string_property d ''kUSBVendorString'') (get_string_property d ''USB Vendor Name''),
         di_product_string =
           or_else (get_string_property d ''kUSBProductString'') (get_string_property d ''USB Product Name''),
         di_serial_number =
           or_else (get_string_property d ''kUSBSerialNumberString'')
             (get_string_property d ''USB Serial Number''),
         di_interfaces =
           (case io_children d of Inl r \<Rightarrow> [] | Inr cs \<Rightarrow> List.map_filter child_interface cs),
         mdi_registry_id = registry_id, mdi_location_id = loc\<rparr>))))))))))"

definition mac_probe_bus :: "UsbControllerType \<Rightarrow> IoService \<Rightarrow> MacBusInfo option" where
  "mac_probe_bus host_controller d =
     Option.bind (io_registry_id d) (\<lambda>registry_id.
     Option.bind (int_property d ''locationID'') (\<lambda>loc.
     Option.bind (get_string_property d ''IOProviderClass'') (\<lambda>provider_class_name.
     Option.bind (get_string_property d ''IOClass'') (\<lambda>class_name.
       Some
        \<lparr>bi_driver = get_string_property d ''CFBundleIdentifier'', bi_bus_id = location_bus_id loc,
         bi_controller_type = Some host_controller, mbi_registry_id = registry_id, mbi_location_id = loc,
         mbi_provider_class_name = provider_class_name, mbi_class_name = class_name,
         mbi_name = get_ascii_array_property d ''name''\<rparr>))))"

definition mac_list_devices :: "matching \<Rightarrow> nusb_error + MacDeviceInfo list" where
  "mac_list_devices M = map_sum (\<lambda>e. e) (List.map_filter mac_probe_device) (usb_service_iter M)"

text \<open>A controller class that cannot be listed is left out.\<close>

definition mac_list_buses :: "matching \<Rightarrow> MacBusInfo list" where
  "mac_list_buses M =
     concat (map (\<lambda>t. case usb_controller_service_iter M t of
                         Inl e \<Rightarrow> [] | Inr ss \<Rightarrow> List.map_filter (mac_probe_bus t) ss)
               [XHCI, EHCI, OHCI, VHCI])"

definition service_by_registry_id :: "matching \<Rightarrow> u64 \<Rightarrow> nusb_error + IoService" where
  "service_by_registry_id M registry_id =
     (case usb_service_iter M of
        Inl e \<Rightarrow> Inl e
      | Inr ss \<Rightarrow>
          (case find (\<lambda>d. io_registry_id d = Some registry_id) ss of
             None \<Rightarrow> Inl (error_new KNotFound ''not found by registry id'')
           | Some d \<Rightarrow> Inr d))"

definition device_descriptor_from_properties :: "IoService \<Rightarrow> DeviceDescriptor option" where
  "device_descriptor_from_properties d =
     Option.bind (int_property d ''bcdUSB'') (\<lambda>usb_version.
     Option.bind (int_property d ''bDeviceClass'') (\<lambda>cl.
     Option.bind (int_property d ''bDeviceSubClass'') (\<lambda>sub.
     Option.bind (int_property d ''bDeviceProtocol'') (\<lambda>proto.
     Option.bind (int_property d ''bMaxPacketSize0'') (\<lambda>mps.
     Option.bind (int_property d ''idVendor'') (\<lambda>vendor_id.
     Option.bind (int_property d ''idProduct'') (\<lambda>product_id.
     Option.bind (int_property d ''bcdDevice'') (\<lambda>device_version.
     Option.bind (int_property d ''iManufacturer'') (\<lambda>man.
     Option.bind (int_property d ''iProduct'') (\<lambda>prod.
     Option.bind (int_property d ''iSerialNumber'') (\<lambda>ser.
     Option.bind (int_property d ''bNumConfigurations'') (\<lambda>num.
       Some (device_from_fields usb_version cl sub proto mps vendor_id product_id device_version
               man prod ser num)))))))))))))"

end
