(* ===== verification/Mac_Enumeration_Theorems.thy ===== *)
theory Mac_Enumeration_Theorems
  imports Mac_Enumeration
begin

unbundle bit_operations_syntax

text \<open>
  Enumeration on macOS reads back the device that the I/O registry shows, and rebuilds its device
  descriptor exactly.
\<close>

section \<open>Location IDs\<close>

text \<open>A location ID: the bus, then a digit for each port on the way, the rest zero.\<close>

fun port_bits :: "bytes \<Rightarrow> u32" where
  "port_bits [] = 0"
| "port_bits (p # ps) = push_bit 28 (ucast p) OR drop_bit 4 (port_bits ps)"

definition mac_location_id :: "u8 \<Rightarrow> bytes \<Rightarrow> u32" where
  "mac_location_id bus ports = push_bit 24 (ucast bus) OR drop_bit 8 (port_bits ports)"

definition ports_ok :: "bytes \<Rightarrow> bool" where
  "ports_ok ps \<longleftrightarrow> length ps \<le> 6 \<and> list_all (\<lambda>p. p < 16) ps \<and> (ps = [] \<or> List.last ps \<noteq> 0)"

lemma port_bits_low: "m < 32 - 4 * length ps \<Longrightarrow> \<not> bit (port_bits ps) m"
proof (induction ps arbitrary: m)
  case (Cons p ps)
  then have "\<not> bit (port_bits ps) (4 + m)" by simp
  moreover have "m < 28" using Cons.prems by simp
  ultimately show ?case by (simp add: bit_simps)
qed simp

lemma small_port_bits:
  assumes "p < 16" "bit (p :: u8) m"
  shows "m < 4"
proof -
  have "take_bit 4 p = p" using assms(1) by (simp add: take_bit_eq_mod mod_word_less)
  with assms(2) show ?thesis by (metis bit_take_bit_iff)
qed

lemma port_bits_zero:
  assumes "length ps \<le> 8" "ps \<noteq> []" "List.last ps \<noteq> 0" "list_all (\<lambda>p. p < 16) ps"
  shows "port_bits ps \<noteq> 0"
  using assms
proof (induction ps)
  case (Cons p ps)
  show ?case
  proof (cases "ps = []")
    case True
    with Cons.prems obtain m where m: "bit p m" by (auto simp: bit_eq_iff)
    have "m < 4" using Cons.prems by (intro small_port_bits [OF _ m]) simp
    with m True have "bit (port_bits (p # ps)) (m + 28)" by (simp add: bit_simps)
    then show ?thesis by (metis bit_0_eq bot_apply bot_bool_def)
  next
    case False
    with Cons have "port_bits ps \<noteq> 0" by simp
    then obtain m where m: "bit (port_bits ps) m" by (auto simp: bit_eq_iff)
    with port_bits_low [of m ps] have "32 - 4 * length ps \<le> m" by (meson not_le)
    with Cons.prems(1) have "4 \<le> m" by simp
    with m have "bit (port_bits (p # ps)) (m - 4)" by (simp add: bit_simps)
    then show ?thesis by (metis bit_0_eq bot_apply bot_bool_def)
  qed
qed simp



lemma location_ports_bits:
  assumes "length ps \<le> 7" "list_all (\<lambda>p. p < 16) ps" "ps = [] \<or> List.last ps \<noteq> 0"
  shows "location_ports (port_bits ps) = ps"
  using assms
proof (induction ps)
  case Nil
  then show ?case by (simp add: location_ports.simps)
next
  case (Cons p ps)
  have p: "p < 16" using Cons.prems by simp
  have IH: "location_ports (port_bits ps) = ps" using Cons by (auto split: if_splits)
  have "port_bits (p # ps) \<noteq> 0" using Cons.prems by (intro port_bits_zero) simp_all
  moreover have "ucast (drop_bit 28 (port_bits (p # ps))) = p"
  proof (rule bit_word_eqI)
    fix m assume "m < LENGTH(8)"
    have "\<not> bit (port_bits ps) (m + 32)" by (auto dest: bit_imp_le_length)
    moreover have "bit p m \<Longrightarrow> m < 4" by (rule small_port_bits [OF p])
    ultimately show "bit (ucast (drop_bit 28 (port_bits (p # ps))) :: u8) m \<longleftrightarrow> bit p m"
      using \<open>m < LENGTH(8)\<close> by (auto simp: bit_simps add.commute)
  qed
  moreover have "push_bit 4 (port_bits (p # ps)) = port_bits ps"
  proof (rule bit_word_eqI)
    fix m assume m: "m < LENGTH(32)"
    have "\<not> 28 \<le> m - 4" using m by auto
    moreover have "\<not> bit (port_bits ps) m" if "m < 4"
      using that Cons.prems(1) by (intro port_bits_low) simp
    ultimately show "bit (push_bit 4 (port_bits (p # ps))) m \<longleftrightarrow> bit (port_bits ps) m"
      using m by (cases "m < 4") (auto simp: bit_simps)
  qed
  ultimately show ?case using IH by (subst location_ports.simps) (simp del: port_bits.simps)
qed

lemma location_id_parts:
  assumes "ports_ok ports"
  shows "parse_location_id (mac_location_id bus ports) = ports"
    and "(ucast (drop_bit 24 (mac_location_id bus ports)) :: u8) = bus"
proof -
  have "push_bit 8 (mac_location_id bus ports) = port_bits ports"
  proof (rule bit_word_eqI)
    fix m assume m: "m < LENGTH(32)"
    have "\<not> bit (port_bits ports) m" if "m < 8"
      using that assms by (intro port_bits_low) (auto simp: ports_ok_def)
    then show "bit (push_bit 8 (mac_location_id bus ports)) m \<longleftrightarrow> bit (port_bits ports) m"
      using m by (cases "m < 8") (auto simp: mac_location_id_def bit_simps)
  qed
  with assms show "parse_location_id (mac_location_id bus ports) = ports"
    by (simp add: parse_location_id_def ports_ok_def location_ports_bits)
  show "(ucast (drop_bit 24 (mac_location_id bus ports)) :: u8) = bus"
  proof (rule bit_word_eqI)
    fix m assume "m < LENGTH(8)"
    moreover have "\<not> bit (port_bits ports) (m + 32)" by (auto dest: bit_imp_le_length)
    ultimately show "bit (ucast (drop_bit 24 (mac_location_id bus ports)) :: u8) m \<longleftrightarrow> bit bus m"
      by (auto simp: mac_location_id_def bit_simps add.commute)
  qed
qed

section \<open>Devices\<close>

fun speed_number :: "Speed \<Rightarrow> int" where
  "speed_number Low = 0"
| "speed_number Full = 1"
| "speed_number High = 2"
| "speed_number Super = 3"
| "speed_number SuperPlus = 4"

lemma map_speed_number [simp]: "Option.bind (map_option speed_number s) map_speed = s"
proof (cases s)
  case (Some x)
  then show ?thesis by (cases x) (simp_all add: map_speed_def)
qed simp

definition shows_number :: "IoService \<Rightarrow> string \<Rightarrow> ('a::len) word \<Rightarrow> bool" where
  "shows_number s k w \<longleftrightarrow> get_integer_property s k = Some (uint w)"

lemma shows_number_property: "shows_number s k w \<Longrightarrow> int_property s k = Some w"
  by (simp add: shows_number_def int_property_def)

text \<open>The child service of an interface; a string is under its new or its old key.\<close>

definition shows_interface :: "IoService \<Rightarrow> InterfaceInfo \<Rightarrow> bool" where
  "shows_interface s i \<longleftrightarrow>
     shows_number s ''bInterfaceNumber'' (ii_interface_number i) \<and>
     shows_number s ''bInterfaceClass'' (ii_class i) \<and>
     shows_number s ''bInterfaceSubClass'' (ii_subclass i) \<and>
     shows_number s ''bInterfaceProtocol'' (ii_protocol i) \<and>
     or_else (get_string_property s ''kUSBString'') (get_string_property s ''USB Interface Name'') =
       ii_interface_string i"

definition shows_device :: "IoService \<Rightarrow> u8 \<Rightarrow> MacDeviceInfo \<Rightarrow> bool" where
  "shows_device s bus dev \<longleftrightarrow>
     io_registry_id s = Some (mdi_registry_id dev) \<and>
     di_bus_id dev = pad_zeros 2 (radix_digits 16 (unat bus)) \<and>
     mdi_location_id dev = mac_location_id bus (di_port_chain dev) \<and>
     shows_number s ''locationID'' (mdi_location_id dev) \<and>
     shows_number s ''USB Address'' (di_device_address dev) \<and>
     shows_number s ''idVendor'' (di_vendor_id dev) \<and>
     shows_number s ''idProduct'' (di_product_id dev) \<and>
     shows_number s ''bcdDevice'' (di_device_version dev) \<and>
     shows_number s ''bcdUSB'' (di_usb_version dev) \<and>
     shows_number s ''bDeviceClass'' (di_class dev) \<and>
     shows_number s ''bDeviceSubClass'' (di_subclass dev) \<and>
     shows_number s ''bDeviceProtocol'' (di_protocol dev) \<and>
     get_integer_property s ''Device Speed'' = map_option speed_number (di_speed dev) \<and>
     or_else (get_string_property s ''kUSBVendorString'') (get_string_property s ''USB Vendor Name'') =
       di_manufacturer_string dev \<and>
     or_else (get_string_property s ''kUSBProductString'') (get_string_property s ''USB Product Name'') =
       di_product_string dev \<and>
     or_else (get_string_property s ''kUSBSerialNumberString'') (get_string_property s ''USB Serial Number'') =
       di_serial_number dev \<and>
     (case io_children s of Inl r \<Rightarrow> False | Inr cs \<Rightarrow> list_all2 shows_interface cs (di_interfaces dev))"

lemma child_interfaces: "list_all2 shows_interface cs is \<Longrightarrow> List.map_filter child_interface cs = is"
proof (induction rule: list_all2_induct)
  case (Cons c cs i "is")
  then have "child_interface c = Some i"
    by (auto simp: child_interface_def shows_interface_def dest!: shows_number_property)
  with Cons show ?case by (simp add: List.map_filter_simps)
qed (simp add: List.map_filter_simps)

text \<open>
  C27. Enumeration on macOS reads back exactly the device that the I/O registry shows: its bus and the
  chain of up to six ports from the packed location ID, all numbers at their width, the speed, the
  strings under their new or old keys and the interfaces of its children in order; and the device is
  found again by the registry ID that was read.
\<close>

theorem mac_probe_device_roundtrip:
  assumes "shows_device s bus dev" "ports_ok (di_port_chain dev)"
  shows "mac_probe_device s = Some dev \<and>
    (\<forall>ms ss. usb_service_iter ms = Inr ss \<longrightarrow> s \<in> set ss \<longrightarrow>
      (\<exists>s'. service_by_registry_id ms (mdi_registry_id dev) = Inr s' \<and>
        io_registry_id s' = Some (mdi_registry_id dev)))"
proof
  note parts = location_id_parts [OF assms(2)]
  from assms(1) obtain cs where cs: "io_children s = Inr cs" "list_all2 shows_interface cs (di_interfaces dev)"
    by (auto simp: shows_device_def split: sum.splits)
  then have "List.map_filter child_interface cs = di_interfaces dev" by (simp add: child_interfaces)
  with assms(1) cs(1) show "mac_probe_device s = Some dev"
    by (auto simp: mac_probe_device_def shows_device_def location_bus_id_def parts dest!: shows_number_property)
  show "\<forall>ms ss. usb_service_iter ms = Inr ss \<longrightarrow> s \<in> set ss \<longrightarrow>
      (\<exists>s'. service_by_registry_id ms (mdi_registry_id dev) = Inr s' \<and>
        io_registry_id s' = Some (mdi_registry_id dev))"
  proof (intro allI impI)
    fix ms ss
    assume ss: "usb_service_iter ms = Inr ss" "s \<in> set ss"
    have "io_registry_id s = Some (mdi_registry_id dev)" using assms(1) by (simp add: shows_device_def)
    with ss(2) obtain s' where f: "find (\<lambda>d. io_registry_id d = Some (mdi_registry_id dev)) ss = Some s'"
      by (cases "find (\<lambda>d. io_registry_id d = Some (mdi_registry_id dev)) ss")
        (auto simp: find_None_iff)
    then have "io_registry_id s' = Some (mdi_registry_id dev)" unfolding find_Some_iff by blast
    with ss(1) f show "\<exists>s'. service_by_registry_id ms (mdi_registry_id dev) = Inr s' \<and>
        io_registry_id s' = Some (mdi_registry_id dev)"
      by (simp add: service_by_registry_id_def)
  qed
qed

text \<open>The device of the second case of \<open>test_parse_location_id\<close>.\<close>

definition shown_device :: MacDeviceInfo where
  "shown_device =
     \<lparr>di_bus_id = ''ff'', di_device_address = 3, di_port_chain = [8, 7, 5], di_vendor_id = 0x1209,
      di_product_id = 1, di_device_version = 0x100, di_usb_version = 0x200, di_class = 0xef,
      di_subclass = 2, di_protocol = 1, di_speed = Some High, di_manufacturer_string = None,
      di_product_string = Some ''nusb'', di_serial_number = None,
      di_interfaces = [\<lparr>ii_interface_number = 2, ii_class = 255, ii_subclass = 0, ii_protocol = 0,
                        ii_interface_string = Some ''A''\<rparr>],
      mdi_registry_id = 5, mdi_location_id = 0xff875000\<rparr>"

definition shown_service :: IoService where
  "shown_service =
     IoService (Some 5)
       (map_of
         [(''locationID'', CfNumber (Some 0xff875000)), (''USB Address'', CfNumber (Some 3)),
          (''idVendor'', CfNumber (Some 0x1209)), (''idProduct'', CfNumber (Some 1)),
          (''bcdDevice'', CfNumber (Some 0x100)), (''bcdUSB'', CfNumber (Some 0x200)),
          (''bDeviceClass'', CfNumber (Some 0xef)), (''bDeviceSubClass'', CfNumber (Some 2)),
          (''bDeviceProtocol'', CfNumber (Some 1)), (''Device Speed'', CfNumber (Some 2)),
          (''USB Product Name'', CfString ''nusb'')])
       (Inr [IoService None
         (map_of
           [(''bInterfaceNumber'', CfNumber (Some 2)), (''bInterfaceClass'', CfNumber (Some 255)),
            (''bInterfaceSubClass'', CfNumber (Some 0)), (''bInterfaceProtocol'', CfNumber (Some 0)),
            (''kUSBString'', CfString ''A'')]) (Inr [])])"

theorem mac_probe_device_roundtrip_witness:
  "mac_probe_device shown_service = Some shown_device \<and>
   (\<exists>s'. service_by_registry_id (\<lambda>c. Some (Inr [shown_service])) 5 = Inr s' \<and> io_registry_id s' = Some 5)"
proof -
  have shown: "shows_device shown_service 0xff shown_device" by code_simp
  have ports: "ports_ok (di_port_chain shown_device)" by code_simp
  have iter: "usb_service_iter (\<lambda>c. Some (Inr [shown_service])) = Inr [shown_service]"
    by (simp add: usb_service_iter_def matching_services_def)
  have reg: "mdi_registry_id shown_device = 5" by (simp add: shown_device_def)
  from mac_probe_device_roundtrip [OF shown ports] iter show ?thesis unfolding reg by simp
qed

section \<open>Device descriptors\<close>

text \<open>The properties of a service that come from the device descriptor.\<close>

definition shows_descriptor :: "IoService \<Rightarrow> bytes \<Rightarrow> bool" where
  "shows_descriptor s d \<longleftrightarrow>
     shows_number s ''bcdUSB'' (u16_from_le_bytes (d ! 2) (d ! 3)) \<and>
     shows_number s ''bDeviceClass'' (d ! 4) \<and> shows_number s ''bDeviceSubClass'' (d ! 5) \<and>
     shows_number s ''bDeviceProtocol'' (d ! 6) \<and> shows_number s ''bMaxPacketSize0'' (d ! 7) \<and>
     shows_number s ''idVendor'' (u16_from_le_bytes (d ! 8) (d ! 9)) \<and>
     shows_number s ''idProduct'' (u16_from_le_bytes (d ! 10) (d ! 11)) \<and>
     shows_number s ''bcdDevice'' (u16_from_le_bytes (d ! 12) (d ! 13)) \<and>
     shows_number s ''iManufacturer'' (d ! 14) \<and> shows_number s ''iProduct'' (d ! 15) \<and>
     shows_number s ''iSerialNumber'' (d ! 16) \<and> shows_number s ''bNumConfigurations'' (d ! 17)"

text \<open>
  C28. macOS has no call for the bytes of the device descriptor, but they are rebuilt exactly: from a
  service that shows the fields of a device descriptor of the standard length, as \<open>new\<close> accepts it,
  \<open>device_descriptor_from_fields\<close> gives all of its 18 bytes.
\<close>

theorem mac_descriptor_rebuilt:
  assumes "device_descriptor_new buf = Some d" "d ! 0 = DESCRIPTOR_LEN_DEVICE" "shows_descriptor s d"
  shows "device_descriptor_from_properties s = Some d"
proof -
  from assms(1) have d: "length d = 18" "d ! 1 = DESCRIPTOR_TYPE_DEVICE"
    by (auto simp: device_descriptor_new_def get_range_def descriptor_constants split: option.splits if_splits)
  then have "d = map ((!) d) [0 ..< 18]" by (metis map_nth)
  also have "[0 ..< 18] = [0, 1, 2, 3, 4, 5, 6, 7, 8, 9, 10, 11, 12, 13, 14, 15, 16, 17 :: nat]" by code_simp
  finally have bytes: "d = [d ! 0, d ! 1, d ! 2, d ! 3, d ! 4, d ! 5, d ! 6, d ! 7, d ! 8, d ! 9, d ! 10, d ! 11,
      d ! 12, d ! 13, d ! 14, d ! 15, d ! 16, d ! 17]"
    unfolding list.map .
  have "device_descriptor_from_properties s = Some [d ! 0, d ! 1, d ! 2, d ! 3, d ! 4, d ! 5, d ! 6, d ! 7, d ! 8,
      d ! 9, d ! 10, d ! 11, d ! 12, d ! 13, d ! 14, d ! 15, d ! 16, d ! 17]"
    using assms(2,3) d(2)
    by (auto simp: device_descriptor_from_properties_def shows_descriptor_def
        device_from_fields_def u16_le_bytes_roundtrip dest!: shows_number_property)
  with bytes show ?thesis by simp
qed

theorem mac_descriptor_rebuilt_witness:
  "let d = [18, 1, 0, 2, 239, 2, 1, 64, 9, 18, 1, 0, 0, 1, 1, 2, 3, 1] in
   device_descriptor_new (d @ [9]) = Some d \<and>
   device_descriptor_from_properties
     (IoService (Some 5)
       (map_of (map (\<lambda>(k, n). (k, CfNumber (Some n)))
         [(''bcdUSB'', 0x200), (''bDeviceClass'', 0xef), (''bDeviceSubClass'', 2), (''bDeviceProtocol'', 1),
          (''bMaxPacketSize0'', 64), (''idVendor'', 0x1209), (''idProduct'', 1), (''bcdDevice'', 0x100),
          (''iManufacturer'', 1), (''iProduct'', 2), (''iSerialNumber'', 3), (''bNumConfigurations'', 1)]))
       (Inr [])) = Some d"
proof -
  let ?d = "[18, 1, 0, 2, 239, 2, 1, 64, 9, 18, 1, 0, 0, 1, 1, 2, 3, 1] :: bytes"
  let ?s = "IoService (Some 5)
       (map_of (map (\<lambda>(k, n). (k, CfNumber (Some n)))
         [(''bcdUSB'', 0x200), (''bDeviceClass'', 0xef), (''bDeviceSubClass'', 2), (''bDeviceProtocol'', 1),
          (''bMaxPacketSize0'', 64), (''idVendor'', 0x1209), (''idProduct'', 1), (''bcdDevice'', 0x100),
          (''iManufacturer'', 1), (''iProduct'', 2), (''iSerialNumber'', 3), (''bNumConfigurations'', 1)]))
       (Inr [])"
  have new: "device_descriptor_new (?d @ [9]) = Some ?d" by code_simp
  have len: "?d ! 0 = DESCRIPTOR_LEN_DEVICE" by (simp add: descriptor_constants)
  have shown: "shows_descriptor ?s ?d" by code_simp
  from mac_descriptor_rebuilt [OF new len shown] new show ?thesis unfolding Let_def by blast
qed

end
