(* ===== verification/Mac_Events.thy ===== *)
theory Mac_Events
  imports Prelude
begin

text \<open>
  src/src/platform/macos_iokit/events.rs: the run loop that all devices, interfaces and hotplug watches
  share. It is started with the first event source and stopped with the last; the mutex around
  \<open>EVENT_LOOP\<close> makes each registration and each drop of one a step. A run loop is the list of its
  sources.
\<close>

record EventLoop =
  el_runloop :: "nat list option"
  el_count :: nat

definition event_loop_init :: EventLoop where
  "event_loop_init = \<lparr>el_runloop = None, el_count = 0\<rparr>"

text \<open>An \<open>EventRegistration\<close> is its source.\<close>

definition add_event_source :: "nat \<Rightarrow> EventLoop \<Rightarrow> (nat \<times> EventLoop) outcome" where
  "add_event_source source el =
     (case el_runloop el of
        Some runloop \<Rightarrow>
          (if source \<in> set runloop then Panic
           else Ret (source, el\<lparr>el_runloop := Some (source # runloop), el_count := el_count el + 1\<rparr>))
      | None \<Rightarrow> Ret (source, el\<lparr>el_runloop := Some [source], el_count := 1\<rparr>))"

definition event_registration_drop :: "nat \<Rightarrow> EventLoop \<Rightarrow> EventLoop outcome" where
  "event_registration_drop source el =
     (if el_count el = 0 then Panic
      else
        (let count = el_count el - 1
         in case el_runloop el of
              None \<Rightarrow> Panic
            | Some runloop \<Rightarrow>
                Ret (el\<lparr>el_count := count,
                        el_runloop := (if count = 0 then None else Some (remove1 source runloop))\<rparr>)))"

text \<open>The sources that are registered: each once, and a run loop only while there is one.\<close>

definition loop_ok :: "nat list \<Rightarrow> EventLoop \<Rightarrow> bool" where
  "loop_ok sources el \<longleftrightarrow>
     distinct sources \<and> el_count el = length sources \<and>
     (case el_runloop el of
        None \<Rightarrow> sources = []
      | Some runloop \<Rightarrow> sources \<noteq> [] \<and> distinct runloop \<and> set runloop = set sources)"

lemma loop_ok_init [simp]: "loop_ok [] event_loop_init"
  by (simp add: loop_ok_def event_loop_init_def)

lemma loop_ok_add:
  assumes "loop_ok sources el" "source \<notin> set sources"
  shows "\<exists>el'. add_event_source source el = Ret (source, el') \<and> loop_ok (source # sources) el'"
  using assms by (auto simp: loop_ok_def add_event_source_def split: option.splits)

lemma loop_ok_drop:
  assumes "loop_ok (xs @ source # ys) el"
  shows "\<exists>el'. event_registration_drop source el = Ret el' \<and> loop_ok (xs @ ys) el'"
  using assms by (auto simp: loop_ok_def event_registration_drop_def Let_def split: option.splits)

lemma loop_ok_swap: "loop_ok (xs @ x # ys) el \<longleftrightarrow> loop_ok (x # xs @ ys) el"
  by (auto simp: loop_ok_def split: option.split)

end
