(* ===== verification/Mac_Device.thy ===== *)
theory Mac_Device
  imports Mac_Enumeration Mac_Events Bitset
begin

text \<open>
  Devices and interfaces of the macOS backend: the wrappers of IOKit's device and interface objects
  (src/src/platform/macos_iokit/iokit_usb.rs) and \<open>MacDevice\<close> and \<open>MacInterface\<close> of device.rs. An object
  is a number; what IOKit answers is a parameter, and every release of an object is a call.
\<close>

section \<open>IOKit\<close>

datatype client = DeviceClient | InterfaceClient

text \<open>
  A call gives its return code and what it stores. \<open>IOCreatePlugInInterface\<close> is
  \<open>IOCreatePlugInInterfaceForService\<close>, \<open>ObjectRelease\<close> the \<open>Release\<close> of a device or an interface,
  \<open>CFRelease\<close> that of an event source.
\<close>

datatype mac_call =
    IOCreatePlugInInterface client IoService
  | QueryInterface client nat
  | PlugInRelease nat
  | ObjectRelease client nat
  | CreateAsyncEventSource client nat
  | CFRelease nat
  | USBDeviceOpen nat
  | USBDeviceClose nat
  | SetConfiguration nat u8
  | GetConfiguration nat
  | GetNumberOfConfigurations nat
  | USBDeviceReEnumerate nat u32
  | USBInterfaceOpen nat
  | USBInterfaceClose nat
  | SetAlternateInterface nat u8
  | ClearPipeStallBothEnds nat u8

type_synonym 'k iokit = "mac_call \<Rightarrow> 'k \<Rightarrow> (IOReturn \<times> nat) \<times> 'k"

text \<open>
  What else a device shows: its interfaces, the memory behind the pointers to its configuration
  descriptors, and the pipes of an interface object.
\<close>

record mac_data =
  mk_interfaces :: "IOReturn + IoService list"
  mk_config :: "u8 \<Rightarrow> IOReturn + bytes"
  mk_num_endpoints :: "nat \<Rightarrow> IOReturn + u8"
  mk_pipes :: "nat \<Rightarrow> pipe_properties"

definition iokit_try :: "'k iokit \<Rightarrow> mac_call \<Rightarrow> 'k \<Rightarrow> (IOReturn + nat) \<times> 'k" where
  "iokit_try K c k =
     (case K c k of ((r, v), k) \<Rightarrow> (map_sum (\<lambda>e. e) (\<lambda>_. v) (check_iokit_return r), k))"

text \<open>The methods that only make a call.\<close>

definition iokit_device_open :: "'k iokit \<Rightarrow> nat \<Rightarrow> 'k \<Rightarrow> (IOReturn + nat) \<times> 'k" where
  "iokit_device_open K raw k = iokit_try K (USBDeviceOpen raw) k"

definition iokit_set_configuration :: "'k iokit \<Rightarrow> nat \<Rightarrow> u8 \<Rightarrow> 'k \<Rightarrow> (IOReturn + nat) \<times> 'k" where
  "iokit_set_configuration K raw c k = iokit_try K (SetConfiguration raw c) k"

definition iokit_reset :: "'k iokit \<Rightarrow> nat \<Rightarrow> 'k \<Rightarrow> (IOReturn + nat) \<times> 'k" where
  "iokit_reset K raw k = iokit_try K (USBDeviceReEnumerate raw 0) k"

definition iokit_device_event_source :: "'k iokit \<Rightarrow> nat \<Rightarrow> 'k \<Rightarrow> (IOReturn + nat) \<times> 'k" where
  "iokit_device_event_source K raw k = iokit_try K (CreateAsyncEventSource DeviceClient raw) k"

definition iokit_get_number_of_configurations :: "'k iokit \<Rightarrow> nat \<Rightarrow> 'k \<Rightarrow> (IOReturn + nat) \<times> 'k" where
  "iokit_get_number_of_configurations K raw k = iokit_try K (GetNumberOfConfigurations raw) k"

definition iokit_get_configuration :: "'k iokit \<Rightarrow> nat \<Rightarrow> 'k \<Rightarrow> (IOReturn + nat) \<times> 'k" where
  "iokit_get_configuration K raw k = iokit_try K (GetConfiguration raw) k"

definition iokit_interface_open :: "'k iokit \<Rightarrow> nat \<Rightarrow> 'k \<Rightarrow> (IOReturn + nat) \<times> 'k" where
  "iokit_interface_open K raw k = iokit_try K (USBInterfaceOpen raw) k"

definition iokit_interface_event_source :: "'k iokit \<Rightarrow> nat \<Rightarrow> 'k \<Rightarrow> (IOReturn + nat) \<times> 'k" where
  "iokit_interface_event_source K raw k = iokit_try K (CreateAsyncEventSource InterfaceClient raw) k"

definition iokit_set_alternate_interface :: "'k iokit \<Rightarrow> nat \<Rightarrow> u8 \<Rightarrow> 'k \<Rightarrow> (IOReturn + nat) \<times> 'k" where
  "iokit_set_alternate_interface K raw alt_setting k = iokit_try K (SetAlternateInterface raw alt_setting) k"

definition iokit_clear_pipe_stall_both_ends :: "'k iokit \<Rightarrow> nat \<Rightarrow> u8 \<Rightarrow> 'k \<Rightarrow> (IOReturn + nat) \<times> 'k" where
  "iokit_clear_pipe_stall_both_ends K raw pipe_ref k = iokit_try K (ClearPipeStallBothEnds raw pipe_ref) k"

lemmas iokit_methods [simp] =
  iokit_device_open_def
  iokit_set_configuration_def
  iokit_reset_def
  iokit_device_event_source_def
  iokit_get_number_of_configurations_def
  iokit_get_configuration_def
  iokit_interface_open_def
  iokit_interface_event_source_def
  iokit_set_alternate_interface_def
  iokit_clear_pipe_stall_both_ends_def

text \<open>The loop of \<open>IoKitDevice::new\<close>: \<open>kIOReturnNoResources\<close> is tried again, five times in all.\<close>

fun create_plugin :: "'k iokit \<Rightarrow> IoService \<Rightarrow> nat \<Rightarrow> IOReturn \<times> nat \<Rightarrow> 'k \<Rightarrow> (IOReturn \<times> nat) \<times> 'k" where
  "create_plugin K service 0 prev k = (prev, k)"
| "create_plugin K service (Suc n) prev k =
     (case K (IOCreatePlugInInterface DeviceClient service) k of
        (r, k) \<Rightarrow> if fst r = kIOReturnNoResources then create_plugin K service n r k else (r, k))"

text \<open>What \<open>new\<close> does with the plugin; the \<open>PluginInterface\<close> is released at its end.\<close>

definition plugin_object ::
  "'k iokit \<Rightarrow> client \<Rightarrow> string \<Rightarrow> IOReturn \<times> nat \<Rightarrow> 'k \<Rightarrow> ((nusb_error + nat) \<times> 'k) outcome" where
  "plugin_object K client message r k =
     (if fst r \<noteq> kIOReturnSuccess then Ret (Inl (mac_error_new_os KOther message (fst r)), k)
      else if snd r = 0 then Ret (Inl (error_new KOther ''could not create PlugInInterface''), k)
      else
        (case K (QueryInterface client (snd r)) k of
           ((_, raw), k) \<Rightarrow> rassert (raw \<noteq> 0) (Ret (Inr raw, snd (K (PlugInRelease (snd r)) k)))))"

definition iokit_device_new :: "'k iokit \<Rightarrow> IoService \<Rightarrow> 'k \<Rightarrow> ((nusb_error + nat) \<times> 'k) outcome" where
  "iokit_device_new K service k =
     (case create_plugin K service 5 (0, 0) k of
        (r, k) \<Rightarrow> plugin_object K DeviceClient ''failed to create IOKit PlugInInterface for device'' r k)"

definition iokit_interface_new :: "'k iokit \<Rightarrow> IoService \<Rightarrow> 'k \<Rightarrow> ((nusb_error + nat) \<times> 'k) outcome" where
  "iokit_interface_new K service k =
     (case K (IOCreatePlugInInterface InterfaceClient service) k of
        (r, k) \<Rightarrow> plugin_object K InterfaceClient ''failed to open interface'' r k)"

text \<open>The slice is as long as the descriptor says; it must lie within the memory.\<close>

definition iokit_get_configuration_descriptor :: "mac_data \<Rightarrow> u8 \<Rightarrow> (IOReturn + bytes) outcome" where
  "iokit_get_configuration_descriptor M i =
     (case mk_config M i of
        Inl e \<Rightarrow> Ret (Inl e)
      | Inr mem \<Rightarrow>
          (if length mem < 4 then UB
           else
             (let len = unat (u16_from_le_bytes (mem ! 2) (mem ! 3))
              in if length mem < len then UB else Ret (Inr (take len mem)))))"

definition iokit_find_pipe_ref :: "mac_data \<Rightarrow> nat \<Rightarrow> u8 \<Rightarrow> u8 option" where
  "iokit_find_pipe_ref M raw address = find_pipe_ref (mk_num_endpoints M raw) (mk_pipes M raw) address"

text \<open>The drop of an \<open>EventRegistration\<close>: its \<open>Drop\<close>, then its source.\<close>

definition registration_drop :: "'k iokit \<Rightarrow> nat \<Rightarrow> 'k \<times> EventLoop \<Rightarrow> ('k \<times> EventLoop) outcome" where
  "registration_drop K source s =
     omap (\<lambda>el. (snd (K (CFRelease source) (fst s)), el)) (event_registration_drop source (snd s))"

section \<open>Devices\<close>

record MacDevice =
  mcd_source :: nat
  mcd_raw :: nat
  mcd_device_descriptor :: bytes
  mcd_config_descriptors :: "bytes list"
  mcd_speed :: "Speed option"
  mcd_active_config :: u8
  mcd_is_open_exclusive :: bool
  mcd_claimed_interfaces :: nat

definition guess_active_config :: "bytes list \<Rightarrow> mac_data \<Rightarrow> u8 option" where
  "guess_active_config configs M =
     (if length configs \<noteq> 1 then None
      else
        (case mk_interfaces M of
           Inl e \<Rightarrow> None
         | Inr [] \<Rightarrow> None
         | Inr (i # is) \<Rightarrow> (if 5 < length (hd configs) then Some (hd configs ! 5) else None)))"

fun mac_valid_configs :: "mac_data \<Rightarrow> u8 list \<Rightarrow> bytes list outcome" where
  "mac_valid_configs M [] = Ret []"
| "mac_valid_configs M (i # is) =
     obind (iokit_get_configuration_descriptor M i) (\<lambda>r.
     omap (case r of
             Inl e \<Rightarrow> (\<lambda>ds. ds)
           | Inr d \<Rightarrow> (\<lambda>ds. if config_new d = None then ds else d # ds))
       (mac_valid_configs M is))"

text \<open>An error after the registration drops it, then the device.\<close>

definition device_abandon ::
  "'k iokit \<Rightarrow> nat \<Rightarrow> nat \<Rightarrow> nusb_error \<Rightarrow> 'k \<times> EventLoop \<Rightarrow>
   ((nusb_error + MacDevice) \<times> 'k \<times> EventLoop) outcome" where
  "device_abandon K source raw e s =
     omap (\<lambda>(k, el). (Inl e, snd (K (ObjectRelease DeviceClient raw) k), el)) (registration_drop K source s)"

definition mac_from_device_info ::
  "'k iokit \<Rightarrow> mac_data \<Rightarrow> matching \<Rightarrow> u64 \<Rightarrow> Speed option \<Rightarrow> 'k \<times> EventLoop \<Rightarrow>
   ((nusb_error + MacDevice) \<times> 'k \<times> EventLoop) outcome" where
  "mac_from_device_info K M ms registry_id speed s =
     (case service_by_registry_id ms registry_id of
        Inl e \<Rightarrow> Ret (Inl e, s)
      | Inr service \<Rightarrow>
          obind (iokit_device_new K service (fst s)) (\<lambda>(r, k).
            case r of
              Inl e \<Rightarrow> Ret (Inl e, k, snd s)
            | Inr raw \<Rightarrow>
                (case iokit_device_event_source K raw k of
                   (Inl e, k) \<Rightarrow>
                     Ret (Inl (mac_error_new_os KOther ''failed to create async event source'' e),
                          snd (K (ObjectRelease DeviceClient raw) k), snd s)
                 | (Inr source, k) \<Rightarrow>
                     obind (add_event_source source (snd s)) (\<lambda>(source, el).
                       case iokit_device_open K raw k of
                         (opened, k) \<Rightarrow>
                           (case device_descriptor_from_properties service of
                              None \<Rightarrow>
                                device_abandon K source raw
                                  (error_new KOther ''could not read properties for device descriptor'') (k, el)
                            | Some desc \<Rightarrow>
                                (case iokit_get_number_of_configurations K raw k of
                                   (Inl e, k) \<Rightarrow>
                                     device_abandon K source raw
                                       (mac_error_new_os KOther ''failed to get number of configurations'' e)
                                       (k, el)
                                 | (Inr num, k) \<Rightarrow>
                                     obind (mac_valid_configs M (map of_nat [0 ..< unat (of_nat num :: u8)]))
                                       (\<lambda>configs.
                                         case (case guess_active_config configs M of
                                                 Some c \<Rightarrow> (c, k)
                                               | None \<Rightarrow>
                                                   (case iokit_get_configuration K raw k of
                                                      (Inl e, k) \<Rightarrow> (0, k)
                                                    | (Inr c, k) \<Rightarrow> (of_nat c, k))) of
                                           (active, k) \<Rightarrow>
                                             Ret (Inr
                                               \<lparr>mcd_source = source, mcd_raw = raw,
                                                mcd_device_descriptor = desc,
                                                mcd_config_descriptors = configs, mcd_speed = speed,
                                                mcd_active_config = active,
                                                mcd_is_open_exclusive = (case opened of Inl e \<Rightarrow> False | Inr _ \<Rightarrow> True),
                                                mcd_claimed_interfaces = 0\<rparr>, k, el))))))))"

definition mac_configuration_descriptors :: "MacDevice \<Rightarrow> ConfigurationDescriptor list" where
  "mac_configuration_descriptors d = map config_new_unchecked (mcd_config_descriptors d)"

definition no_device_error :: "string \<Rightarrow> IOReturn \<Rightarrow> nusb_error" where
  "no_device_error message e =
     (if e = kIOReturnNoDevice then mac_error_new_os KDisconnected ''device disconnected'' e
      else mac_error_new_os KOther message e)"

definition require_open_exclusive ::
  "'k iokit \<Rightarrow> MacDevice \<Rightarrow> 'k \<Rightarrow> (nusb_error + unit) \<times> MacDevice \<times> 'k" where
  "require_open_exclusive K d k =
     (case (if mcd_is_open_exclusive d then (Inr 0, k) else iokit_device_open K (mcd_raw d) k) of
        (Inl e, k) \<Rightarrow> (Inl (no_device_error ''could not open device for exclusive access'' e), d, k)
      | (Inr _, k) \<Rightarrow>
          let d = d\<lparr>mcd_is_open_exclusive := True\<rparr>
          in if mcd_claimed_interfaces d \<noteq> 0
             then (Inl (error_new KBusy ''cannot perform this operation while interfaces are claimed''), d, k)
             else (Inr (), d, k))"

definition mac_set_configuration ::
  "'k iokit \<Rightarrow> u8 \<Rightarrow> MacDevice \<Rightarrow> 'k \<Rightarrow> (nusb_error + unit) \<times> MacDevice \<times> 'k" where
  "mac_set_configuration K configuration d k =
     (case require_open_exclusive K d k of
        (Inl e, d, k) \<Rightarrow> (Inl e, d, k)
      | (Inr _, d, k) \<Rightarrow>
          (case iokit_set_configuration K (mcd_raw d) configuration k of
             (Inl e, k) \<Rightarrow>
               (Inl (if e = kIOReturnNotFound then mac_error_new_os KNotFound ''configuration not found'' e
                     else no_device_error ''failed to set configuration'' e), d, k)
           | (Inr _, k) \<Rightarrow> (Inr (), d\<lparr>mcd_active_config := configuration\<rparr>, k)))"

definition mac_reset :: "'k iokit \<Rightarrow> MacDevice \<Rightarrow> 'k \<Rightarrow> (nusb_error + unit) \<times> MacDevice \<times> 'k" where
  "mac_reset K d k =
     (case require_open_exclusive K d k of
        (Inl e, d, k) \<Rightarrow> (Inl e, d, k)
      | (Inr _, d, k) \<Rightarrow>
          (case iokit_reset K (mcd_raw d) k of
             (Inl e, k) \<Rightarrow> (Inl (no_device_error ''failed to reset device'' e), d, k)
           | (Inr _, k) \<Rightarrow> (Inr (), d, k)))"

text \<open>\<open>Drop for MacDevice\<close>, then its fields.\<close>

definition mac_device_drop :: "'k iokit \<Rightarrow> MacDevice \<Rightarrow> 'k \<times> EventLoop \<Rightarrow> ('k \<times> EventLoop) outcome" where
  "mac_device_drop K d s =
     (let k = (if mcd_is_open_exclusive d then snd (K (USBDeviceClose (mcd_raw d)) (fst s)) else fst s)
      in omap (\<lambda>(k, el). (snd (K (ObjectRelease DeviceClient (mcd_raw d)) k), el))
           (registration_drop K (mcd_source d) (k, snd s)))"

section \<open>Interfaces\<close>

record MacInterface =
  mif_interface_number :: u8
  mif_source :: nat
  mif_raw :: nat
  mif_alt_setting :: u8
  mif_endpoints_used :: EndpointBitSet

text \<open>
  The iterator over the interface services and the services themselves are values here; the handles of such
  iterators are followed in Mac_Objects, for the enumeration.
\<close>

definition mac_claim_interface ::
  "'k iokit \<Rightarrow> mac_data \<Rightarrow> u8 \<Rightarrow> MacDevice \<Rightarrow> 'k \<times> EventLoop \<Rightarrow>
   ((nusb_error + MacInterface) \<times> MacDevice \<times> 'k \<times> EventLoop) outcome" where
  "mac_claim_interface K M num d s =
     (case mk_interfaces M of
        Inl e \<Rightarrow> Ret (Inl (mac_error_new_os KOther ''failed to create interface iterator'' e), d, s)
      | Inr services \<Rightarrow>
          (case find (\<lambda>i. get_integer_property i ''bInterfaceNumber'' = Some (uint num)) services of
             None \<Rightarrow> Ret (Inl (error_new KNotFound ''interface not found''), d, s)
           | Some service \<Rightarrow>
               obind (iokit_interface_new K service (fst s)) (\<lambda>(r, k).
                 case r of
                   Inl e \<Rightarrow> Ret (Inl e, d, k, snd s)
                 | Inr raw \<Rightarrow>
                     (case iokit_interface_event_source K raw k of
                        (Inl e, k) \<Rightarrow>
                          Ret (Inl (mac_error_new_os KOther ''failed to create async event source'' e), d,
                               snd (K (ObjectRelease InterfaceClient raw) k), snd s)
                      | (Inr source, k) \<Rightarrow>
                          obind (add_event_source source (snd s)) (\<lambda>(source, el).
                            case iokit_interface_open K raw k of
                              (Inl e, k) \<Rightarrow>
                                omap (\<lambda>(k, el).
                                  (Inl (if e = kIOReturnExclusiveAccess
                                        then mac_error_new_os KBusy
                                          ''could not open interface for exclusive access'' e
                                        else no_device_error ''failed to open interface'' e),
                                   d, snd (K (ObjectRelease InterfaceClient raw) k), el))
                                  (registration_drop K source (k, el))
                            | (Inr _, k) \<Rightarrow>
                                Ret (Inr
                                  \<lparr>mif_interface_number = num, mif_source = source,
                                   mif_raw = raw, mif_alt_setting = 0,
                                   mif_endpoints_used = endpoint_bitset_default\<rparr>,
                                  d\<lparr>mcd_claimed_interfaces := mcd_claimed_interfaces d + 1\<rparr>, k, el))))))"

text \<open>\<open>Drop for MacInterface\<close>, then its fields; \<open>fetch_sub\<close> wraps around.\<close>

definition mac_interface_drop ::
  "'k iokit \<Rightarrow> MacInterface \<Rightarrow> MacDevice \<Rightarrow> 'k \<times> EventLoop \<Rightarrow> (MacDevice \<times> 'k \<times> EventLoop) outcome" where
  "mac_interface_drop K i d s =
     (let k = snd (K (USBInterfaceClose (mif_raw i)) (fst s));
          d = d\<lparr>mcd_claimed_interfaces :=
                 (if mcd_claimed_interfaces d = 0 then usize_max else mcd_claimed_interfaces d - 1)\<rparr>
      in omap (\<lambda>(k, el). (d, snd (K (ObjectRelease InterfaceClient (mif_raw i)) k), el))
           (registration_drop K (mif_source i) (k, snd s)))"

definition mac_set_alt_setting ::
  "'k iokit \<Rightarrow> u8 \<Rightarrow> MacInterface \<Rightarrow> 'k \<Rightarrow> (nusb_error + unit) \<times> MacInterface \<times> 'k" where
  "mac_set_alt_setting K alt_setting i k =
     (if \<not> endpoint_is_empty (mif_endpoints_used i)
      then (Inl (error_new KBusy ''can't change alternate setting while endpoints are in use''), i, k)
      else
        (case iokit_set_alternate_interface K (mif_raw i) alt_setting k of
           (Inl e, k) \<Rightarrow> (Inl (no_device_error ''failed to set alternate interface'' e), i, k)
         | (Inr _, k) \<Rightarrow> (Inr (), i\<lparr>mif_alt_setting := alt_setting\<rparr>, k)))"

definition mac_get_alt_setting :: "MacInterface \<Rightarrow> u8" where
  "mac_get_alt_setting i = mif_alt_setting i"

definition mac_clear_halt :: "'k iokit \<Rightarrow> MacInterface \<Rightarrow> u8 \<Rightarrow> 'k \<Rightarrow> (nusb_error + unit) \<times> 'k" where
  "mac_clear_halt K i pipe_ref k =
     (case iokit_clear_pipe_stall_both_ends K (mif_raw i) pipe_ref k of
        (Inr _, k) \<Rightarrow> (Inr (), k)
      | (Inl e, k) \<Rightarrow> (Inl (no_device_error ''failed to clear halt on endpoint'' e), k))"

end
