(* ===== verification/Mac_Device_Theorems.thy ===== *)
theory Mac_Device_Theorems
  imports Mac_Device Handles
begin

text \<open>
  Opening a macOS device and claiming its interfaces: every object of IOKit is used only while it is
  alive and released exactly once, the run loop runs exactly while something is registered, and the
  count of claimed interfaces is right.
\<close>

section \<open>IOKit with its objects\<close>

datatype mac_kind = HPlugIn | HObject client | HEvent

text \<open>A refusal is not the return code of a success.\<close>

definition mac_answer :: "(u32 + nat) \<times> 's \<Rightarrow> (IOReturn \<times> nat) \<times> 's" where
  "mac_answer x =
     (case x of
        (Inl e, s) \<Rightarrow> ((if e = kIOReturnSuccess then kIOReturnBadArgument else e, 0), s)
      | (Inr v, s) \<Rightarrow> ((kIOReturnSuccess, v), s))"

text \<open>\<open>v\<close> is what the calls store that give a number.\<close>

definition mac_device_call :: "(mac_call \<Rightarrow> nat) \<Rightarrow> client \<Rightarrow> nat \<Rightarrow> mac_call \<Rightarrow> mac_kind handle_os \<Rightarrow>
    (IOReturn \<times> nat) \<times> mac_kind handle_os" where
  "mac_device_call v client raw c s = mac_answer (os_using (HObject client, raw) (os_reply (\<lambda>s. (v c, s))) s)"

fun mac_os :: "(mac_call \<Rightarrow> nat) \<Rightarrow> mac_kind handle_os iokit" where
  "mac_os v (IOCreatePlugInInterface client service) s = mac_answer (os_acquire HPlugIn s)"
| "mac_os v (QueryInterface client p) s =
     mac_answer (os_using (HPlugIn, p) (map_prod Inr (\<lambda>s. s) \<circ> os_fresh (HObject client)) s)"
| "mac_os v (PlugInRelease p) s = mac_answer (os_release (HPlugIn, p) s)"
| "mac_os v (ObjectRelease client raw) s = mac_answer (os_release (HObject client, raw) s)"
| "mac_os v (CreateAsyncEventSource client raw) s =
     mac_answer (os_using (HObject client, raw) (os_acquire HEvent) s)"
| "mac_os v (CFRelease source) s = mac_answer (os_release (HEvent, source) s)"
| "mac_os v (USBDeviceOpen raw) s = mac_device_call v DeviceClient raw (USBDeviceOpen raw) s"
| "mac_os v (USBDeviceClose raw) s = mac_device_call v DeviceClient raw (USBDeviceClose raw) s"
| "mac_os v (SetConfiguration raw c) s = mac_device_call v DeviceClient raw (SetConfiguration raw c) s"
| "mac_os v (GetConfiguration raw) s = mac_device_call v DeviceClient raw (GetConfiguration raw) s"
| "mac_os v (GetNumberOfConfigurations raw) s =
     mac_device_call v DeviceClient raw (GetNumberOfConfigurations raw) s"
| "mac_os v (USBDeviceReEnumerate raw o') s =
     mac_device_call v DeviceClient raw (USBDeviceReEnumerate raw o') s"
| "mac_os v (USBInterfaceOpen raw) s = mac_device_call v InterfaceClient raw (USBInterfaceOpen raw) s"
| "mac_os v (USBInterfaceClose raw) s = mac_device_call v InterfaceClient raw (USBInterfaceClose raw) s"
| "mac_os v (SetAlternateInterface raw a) s =
     mac_device_call v InterfaceClient raw (SetAlternateInterface raw a) s"
| "mac_os v (ClearPipeStallBothEnds raw p) s =
     mac_device_call v InterfaceClient raw (ClearPipeStallBothEnds raw p) s"

lemma mac_answer_simps [simp]:
  "mac_answer (Inr x, s) = ((kIOReturnSuccess, x), s)"
  "fst (fst (mac_answer (Inl e, s))) \<noteq> kIOReturnSuccess"
  "snd (mac_answer (Inl e, s)) = s"
  by (simp_all add: mac_answer_def kIOReturnSuccess_def kIOReturnBadArgument_def)

lemma check_success [simp]: "check_iokit_return kIOReturnSuccess = Inr ()"
  by (simp add: check_iokit_return_def)

lemma iokit_try_cases:
  assumes "K c k = mac_answer (r, k')"
  shows "(\<exists>e. r = Inl e) \<and> (\<exists>e. iokit_try K c k = (Inl e, k')) \<or>
    (\<exists>x. r = Inr x \<and> iokit_try K c k = (Inr x, k'))"
  using assms
  by (cases r) (auto simp: iokit_try_def mac_answer_def check_iokit_return_def kIOReturnSuccess_def
      kIOReturnBadArgument_def)

text \<open>A call on an object that is alive changes no object.\<close>

lemma device_call_ok:
  assumes "os_has H s" "(HObject client, raw) \<in># H" "\<And>s. mac_os v c s = mac_device_call v client raw c s"
  shows "\<exists>r s'. iokit_try (mac_os v) c s = (r, s') \<and> os_has H s'"
    and "\<exists>x s'. mac_os v c s = (x, s') \<and> os_has H s'"
proof -
  from os_reply_unit [OF assms(1), of "v c"] obtain r s' where
    r: "os_reply (\<lambda>s. (v c, s)) s = (r, s')" "os_has H s'" by blast
  then have c: "mac_os v c s = mac_answer (r, s')"
    by (simp add: assms(3) mac_device_call_def os_using_open [OF assms(1,2)])
  from iokit_try_cases [of "mac_os v", OF c] r(2) show "\<exists>r s'. iokit_try (mac_os v) c s = (r, s') \<and> os_has H s'"
    by blast
  from c r(2) show "\<exists>x s'. mac_os v c s = (x, s') \<and> os_has H s'"
    by (metis mac_answer_simps(1,3) old.sum.exhaust prod.collapse snd_conv)
qed

lemma release_object:
  assumes "os_has (add_mset (HObject client, raw) H) s"
  shows "os_has H (snd (mac_os v (ObjectRelease client raw) s))"
  by (rule os_release_open [OF assms]) simp

lemma release_event:
  assumes "os_has (add_mset (HEvent, source) H) s"
  shows "os_has H (snd (mac_os v (CFRelease source) s))"
  by (rule os_release_open [OF assms]) simp

lemma release_plugin:
  assumes "os_has (add_mset (HPlugIn, p) H) s"
  shows "os_has H (snd (mac_os v (PlugInRelease p) s))"
  by (rule os_release_open [OF assms]) simp

lemma event_source_cases:
  assumes "os_has H s" "(HObject client, raw) \<in># H"
  obtains (fails) e s' where "iokit_try (mac_os v) (CreateAsyncEventSource client raw) s = (Inl e, s')" "os_has H s'"
  | (opens) source s' where "iokit_try (mac_os v) (CreateAsyncEventSource client raw) s = (Inr source, s')"
      "os_has (add_mset (HEvent, source) H) s'"
  using assms(1)
proof (cases rule: os_acquire_cases [where kind = HEvent])
  case (fails e s')
  then have "mac_os v (CreateAsyncEventSource client raw) s = mac_answer (Inl e, s')"
    by (simp add: os_using_open [OF assms])
  from iokit_try_cases [of "mac_os v", OF this] fails(2) that(1) show thesis by blast
next
  case (opens h s')
  then have "mac_os v (CreateAsyncEventSource client raw) s = mac_answer (Inr h, s')"
    by (simp add: os_using_open [OF assms])
  from iokit_try_cases [of "mac_os v", OF this] opens(2) that(2) show thesis by blast
qed

section \<open>New objects\<close>

lemma create_plugin_ok:
  assumes "os_has H s" "fst prev \<noteq> kIOReturnSuccess \<or> 0 < n"
  shows "\<exists>r s'. create_plugin (mac_os v) service n prev s = (r, s') \<and>
    (if fst r = kIOReturnSuccess then 0 < snd r \<and> os_has (add_mset (HPlugIn, snd r) H) s' else os_has H s')"
  using assms
proof (induction n arbitrary: prev s)
  case (Suc n)
  from Suc.prems(1) show ?case
  proof (cases rule: os_acquire_cases [where kind = HPlugIn])
    case (fails e s')
    define r where "r = fst (mac_answer (Inl e :: u32 + nat, s'))"
    have c: "mac_os v (IOCreatePlugInInterface DeviceClient service) s = (r, s')"
      using fails by (simp add: mac_answer_def r_def)
    have r: "fst r \<noteq> kIOReturnSuccess" by (simp add: r_def)
    show ?thesis
    proof (cases "fst r = kIOReturnNoResources")
      case True
      with Suc.IH [OF fails(2), of r] c r show ?thesis by (simp del: mac_os.simps)
    next
      case False
      with c r fails(2) show ?thesis by (simp del: mac_os.simps)
    qed
  next
    case (opens h s')
    then show ?thesis by (simp add: kIOReturnSuccess_def kIOReturnNoResources_def)
  qed
qed simp

lemma plugin_object_ok:
  assumes "if fst r = kIOReturnSuccess then 0 < snd r \<and> os_has (add_mset (HPlugIn, snd r) H) s else os_has H s"
  shows "\<exists>x s'. plugin_object (mac_os v) client m r s = Ret (x, s') \<and>
    (case x of Inl e \<Rightarrow> os_has H s' | Inr raw \<Rightarrow> os_has (add_mset (HObject client, raw) H) s')"
proof (cases "fst r = kIOReturnSuccess")
  case True
  with assms have p: "0 < snd r" "os_has (add_mset (HPlugIn, snd r) H) s" by simp_all
  from os_fresh_has [OF p(2)] obtain h s1 where
    h: "os_fresh (HObject client) s = (h, s1)"
      "os_has (add_mset (HObject client, h) (add_mset (HPlugIn, snd r) H)) s1" "0 < h" by blast
  have q: "mac_os v (QueryInterface client (snd r)) s = ((kIOReturnSuccess, h), s1)"
    using h(1) by (simp add: os_using_open [OF p(2)])
  have "os_has (add_mset (HObject client, h) H) (snd (mac_os v (PlugInRelease (snd r)) s1))"
    using h(2) by (intro release_plugin) (simp add: add_mset_commute)
  with True p(1) q h(3) show ?thesis by (simp add: plugin_object_def del: mac_os.simps)
next
  case False
  with assms show ?thesis by (simp add: plugin_object_def)
qed

lemma device_new_cases:
  assumes "os_has H s"
  obtains (fails) e s' where "iokit_device_new (mac_os v) service s = Ret (Inl e, s')" "os_has H s'"
  | (opens) raw s' where "iokit_device_new (mac_os v) service s = Ret (Inr raw, s')"
      "os_has (add_mset (HObject DeviceClient, raw) H) s'"
proof -
  have "fst (0 :: IOReturn, 0 :: nat) \<noteq> kIOReturnSuccess \<or> 0 < (5 :: nat)" by simp
  from create_plugin_ok [OF assms this] obtain r s1 where
    c: "create_plugin (mac_os v) service 5 (0, 0) s = (r, s1)"
      "if fst r = kIOReturnSuccess then 0 < snd r \<and> os_has (add_mset (HPlugIn, snd r) H) s1 else os_has H s1"
    by blast
  from plugin_object_ok [OF c(2)] obtain x s' where
    "plugin_object (mac_os v) DeviceClient ''failed to create IOKit PlugInInterface for device'' r s1 = Ret (x, s')"
    "case x of Inl e \<Rightarrow> os_has H s' | Inr raw \<Rightarrow> os_has (add_mset (HObject DeviceClient, raw) H) s'"
    by blast
  with c(1) that show thesis by (cases x) (simp_all add: iokit_device_new_def del: create_plugin.simps)
qed

lemma interface_new_cases:
  assumes "os_has H s"
  obtains (fails) e s' where "iokit_interface_new (mac_os v) service s = Ret (Inl e, s')" "os_has H s'"
  | (opens) raw s' where "iokit_interface_new (mac_os v) service s = Ret (Inr raw, s')"
      "os_has (add_mset (HObject InterfaceClient, raw) H) s'"
proof -
  obtain r s1 where
    c: "mac_os v (IOCreatePlugInInterface InterfaceClient service) s = (r, s1)"
      "if fst r = kIOReturnSuccess then 0 < snd r \<and> os_has (add_mset (HPlugIn, snd r) H) s1 else os_has H s1"
    using assms
  proof (cases rule: os_acquire_cases [where kind = HPlugIn])
    case (fails e s')
    let ?r = "fst (mac_answer (Inl e :: u32 + nat, s'))"
    have "fst ?r \<noteq> kIOReturnSuccess" by simp
    with fails show thesis by (intro that [of ?r s']) (simp_all add: mac_answer_def)
  next
    case (opens h s')
    then show thesis by (intro that [of "(kIOReturnSuccess, h)" s']) simp_all
  qed
  from plugin_object_ok [OF c(2)] obtain x s' where
    "plugin_object (mac_os v) InterfaceClient ''failed to open interface'' r s1 = Ret (x, s')"
    "case x of Inl e \<Rightarrow> os_has H s' | Inr raw \<Rightarrow> os_has (add_mset (HObject InterfaceClient, raw) H) s'"
    by blast
  with c(1) that show thesis by (cases x) (simp_all add: iokit_interface_new_def)
qed

lemma registration_drop_ok:
  assumes "os_has (add_mset (HEvent, source) H) s" "loop_ok (xs @ source # ys) el"
  shows "\<exists>s' el'. registration_drop (mac_os v) source (s, el) = Ret (s', el') \<and> os_has H s' \<and> loop_ok (xs @ ys) el'"
proof -
  from loop_ok_drop [OF assms(2)] obtain el' where
    "event_registration_drop source el = Ret el'" "loop_ok (xs @ ys) el'" by blast
  with release_event [OF assms(1)] show ?thesis by (simp add: registration_drop_def del: mac_os.simps)
qed

lemma registration_drop_first:
  assumes "os_has (add_mset (HEvent, source) H) s" "loop_ok (source # ys) el"
  shows "\<exists>s' el'. registration_drop (mac_os v) source (s, el) = Ret (s', el') \<and> os_has H s' \<and> loop_ok ys el'"
  using registration_drop_ok [OF assms(1), of "[]" ys el] assms(2) by simp

section \<open>The device and its interfaces\<close>

definition mac_device_handles :: "MacDevice \<Rightarrow> (mac_kind \<times> nat) multiset" where
  "mac_device_handles d = {#(HObject DeviceClient, mcd_raw d), (HEvent, mcd_source d)#}"

definition mac_interface_handles :: "MacInterface \<Rightarrow> (mac_kind \<times> nat) multiset" where
  "mac_interface_handles i = {#(HObject InterfaceClient, mif_raw i), (HEvent, mif_source i)#}"

definition mac_handles :: "MacDevice \<Rightarrow> MacInterface list \<Rightarrow> (mac_kind \<times> nat) multiset" where
  "mac_handles d live = mac_device_handles d + sum_list (map mac_interface_handles live)"

definition mac_sources :: "MacDevice \<Rightarrow> MacInterface list \<Rightarrow> nat list" where
  "mac_sources d live = map mif_source live @ [mcd_source d]"

definition mac_ok :: "MacDevice \<Rightarrow> MacInterface list \<Rightarrow> mac_kind handle_os \<Rightarrow> EventLoop \<Rightarrow> bool" where
  "mac_ok d live s el \<longleftrightarrow>
     os_has (mac_handles d live) s \<and> loop_ok (mac_sources d live) el \<and> mcd_claimed_interfaces d = length live"

lemma mac_handles_sources: "source \<in> set (mac_sources d live) \<Longrightarrow> (HEvent, source) \<in># mac_handles d live"
  by (induction live)
    (auto simp: mac_sources_def mac_handles_def mac_device_handles_def mac_interface_handles_def)

lemma mac_handles_object: "(HObject DeviceClient, mcd_raw d) \<in># mac_handles d live"
  by (simp add: mac_handles_def mac_device_handles_def)

lemma mac_handles_interface: "i \<in> set live \<Longrightarrow> (HObject InterfaceClient, mif_raw i) \<in># mac_handles d live"
  by (induction live) (auto simp: mac_handles_def mac_device_handles_def mac_interface_handles_def)

lemma mac_handles_middle: "mac_handles d (xs @ i # ys) = mac_handles d (xs @ ys) + mac_interface_handles i"
  by (simp add: mac_handles_def ac_simps)

lemma mac_handles_same:
  "mcd_raw d' = mcd_raw d \<Longrightarrow> mcd_source d' = mcd_source d \<Longrightarrow> mac_handles d' live = mac_handles d live"
  "mcd_source d' = mcd_source d \<Longrightarrow> mac_sources d' live = mac_sources d live"
  by (simp_all add: mac_handles_def mac_device_handles_def mac_sources_def)

subsection \<open>Opening\<close>

lemma valid_configs_ret:
  "(\<And>i. is_ret (iokit_get_configuration_descriptor M i)) \<Longrightarrow> is_ret (mac_valid_configs M is)"
proof (induction "is")
  case (Cons i "is")
  from Cons.prems [of i] Cons.IH [OF Cons.prems] show ?case by (auto simp: is_ret_iff)
qed simp

lemma device_abandon_ok:
  assumes "os_has (add_mset (HEvent, source) (add_mset (HObject DeviceClient, raw) H)) s"
    "loop_ok (source # sources) el"
  shows "\<exists>s' el'. device_abandon (mac_os v) source raw e (s, el) = Ret (Inl e, s', el') \<and>
    os_has H s' \<and> loop_ok sources el'"
proof -
  from registration_drop_first [OF assms] obtain s1 el1 where
    "registration_drop (mac_os v) source (s, el) = Ret (s1, el1)"
    "os_has (add_mset (HObject DeviceClient, raw) H) s1" "loop_ok sources el1" by blast
  with release_object [of DeviceClient raw H s1 v] show ?thesis
    by (simp add: device_abandon_def del: mac_os.simps)
qed

lemma open_ok:
  assumes "\<And>i. is_ret (iokit_get_configuration_descriptor M i)" "os_has {#} s" "loop_ok [] el"
  shows "\<exists>r s' el'. mac_from_device_info (mac_os v) M ms reg speed (s, el) = Ret (r, s', el') \<and>
    (case r of Inl e \<Rightarrow> os_has {#} s' \<and> loop_ok [] el' | Inr d \<Rightarrow> mac_ok d [] s' el')"
proof (cases "service_by_registry_id ms reg")
  case (Inl e)
  with assms(2,3) show ?thesis by (simp add: mac_from_device_info_def)
next
  case (Inr service)
  note step = Inr
  show ?thesis
    using assms(2)
  proof (cases rule: device_new_cases [where v = v and service = service])
    case (fails e s1)
    with step assms(3) show ?thesis by (simp add: mac_from_device_info_def)
  next
    case (opens raw s1)
    note new = opens
    have raw: "(HObject DeviceClient, raw) \<in># {#(HObject DeviceClient, raw)#}" by simp
    show ?thesis
      using new(2) raw
    proof (cases rule: event_source_cases [where v = v])
      case (fails e s2)
      with step new(1) assms(3) release_object [OF fails(2)] show ?thesis
        by (simp add: mac_from_device_info_def del: mac_os.simps)
    next
      case (opens source s2)
      note src = opens
      let ?H = "{#(HEvent, source), (HObject DeviceClient, raw)#}"
      from loop_ok_add [OF assms(3), of source] obtain el1 where
        el1: "add_event_source source el = Ret (source, el1)" "loop_ok [source] el1" by auto
      have in_H: "(HObject DeviceClient, raw) \<in># ?H" by simp
      from device_call_ok(1) [OF src(2) in_H, of v "USBDeviceOpen raw"] obtain opened s3 where
        s3: "iokit_try (mac_os v) (USBDeviceOpen raw) s2 = (opened, s3)" "os_has ?H s3" by auto
      note step = step new(1) src(1) el1(1) s3(1)
      have abandon: "\<exists>s' el'. device_abandon (mac_os v) source raw e (s, el1) = Ret (Inl e, s', el') \<and>
          os_has {#} s' \<and> loop_ok [] el'" if "os_has ?H s" for e s
        using device_abandon_ok [of source raw "{#}" s "[]" el1 v e] that el1(2) by simp
      show ?thesis
      proof (cases "device_descriptor_from_properties service")
        case None
        from abandon [OF s3(2)] obtain s' el' where
          "device_abandon (mac_os v) source raw
             (error_new KOther ''could not read properties for device descriptor'') (s3, el1) =
             Ret (Inl (error_new KOther ''could not read properties for device descriptor''), s', el')"
          "os_has {#} s'" "loop_ok [] el'" by blast
        with step None show ?thesis by (simp add: mac_from_device_info_def del: mac_os.simps)
      next
        case (Some desc)
        from device_call_ok(1) [OF s3(2) in_H, of v "GetNumberOfConfigurations raw"] obtain num s4 where
          s4: "iokit_try (mac_os v) (GetNumberOfConfigurations raw) s3 = (num, s4)" "os_has ?H s4" by auto
        note step = step Some s4(1)
        show ?thesis
        proof (cases num)
          case (Inl e)
          let ?e = "mac_error_new_os KOther ''failed to get number of configurations'' e"
          from abandon [OF s4(2), of ?e] obtain s' el' where
            "device_abandon (mac_os v) source raw ?e (s4, el1) = Ret (Inl ?e, s', el')"
            "os_has {#} s'" "loop_ok [] el'" by blast
          with step Inl show ?thesis by (simp add: mac_from_device_info_def del: mac_os.simps)
        next
          case (Inr n)
          from valid_configs_ret [OF assms(1), of "map of_nat [0 ..< unat (of_nat n :: u8)]"]
          obtain configs where
            c: "mac_valid_configs M (map of_nat [0 ..< unat (of_nat n :: u8)]) = Ret configs"
            by (auto simp: is_ret_iff)
          from device_call_ok(1) [OF s4(2) in_H, of v "GetConfiguration raw"] obtain r s5 where
            s5: "iokit_try (mac_os v) (GetConfiguration raw) s4 = (r, s5)" "os_has ?H s5" by auto
          have opened: "mac_ok \<lparr>mcd_source = source, mcd_raw = raw, mcd_device_descriptor = desc,
              mcd_config_descriptors = configs, mcd_speed = speed, mcd_active_config = a,
              mcd_is_open_exclusive = b, mcd_claimed_interfaces = 0\<rparr> [] s' el1" if "os_has ?H s'" for a b s'
            using that el1(2)
            by (simp add: mac_ok_def mac_handles_def mac_device_handles_def mac_sources_def add_mset_commute)
          show ?thesis
            using step Inr c s5 opened [OF s4(2)] opened [OF s5(2)]
            by (cases "guess_active_config configs M"; cases r)
              (simp_all add: mac_from_device_info_def del: mac_os.simps)
        qed
      qed
    qed
  qed
qed

subsection \<open>Claims and drops\<close>

lemma mac_claim_ok:
  assumes ok: "mac_ok d live s el"
  shows "\<exists>r d' s' el'. mac_claim_interface (mac_os v) M num d (s, el) = Ret (r, d', s', el') \<and>
    (case r of Inl e \<Rightarrow> d' = d \<and> mac_ok d live s' el' | Inr i \<Rightarrow> mac_ok d' (i # live) s' el')"
proof (cases "\<exists>services service. mk_interfaces M = Inr services \<and>
    find (\<lambda>i. get_integer_property i ''bInterfaceNumber'' = Some (uint num)) services = Some service")
  case False
  with ok show ?thesis
    by (auto simp: mac_claim_interface_def split: sum.splits option.splits)
next
  case True
  then obtain services service where step: "mk_interfaces M = Inr services"
    "find (\<lambda>i. get_integer_property i ''bInterfaceNumber'' = Some (uint num)) services = Some service" by blast
  let ?H = "mac_handles d live"
  have h: "os_has ?H s" and l: "loop_ok (mac_sources d live) el" using ok by (simp_all add: mac_ok_def)
  show ?thesis
    using h
  proof (cases rule: interface_new_cases [where v = v and service = service])
    case (fails e s1)
    with step ok show ?thesis by (simp add: mac_claim_interface_def mac_ok_def)
  next
    case (opens raw s1)
    note new = opens
    have raw: "(HObject InterfaceClient, raw) \<in># add_mset (HObject InterfaceClient, raw) ?H" by simp
    show ?thesis
      using new(2) raw
    proof (cases rule: event_source_cases [where v = v])
      case (fails e s2)
      with step new(1) ok release_object [OF fails(2)] show ?thesis
        by (simp add: mac_claim_interface_def mac_ok_def del: mac_os.simps)
    next
      case (opens source s2)
      note src = opens
      have "source \<notin> set (mac_sources d live)"
        using os_has_once [OF src(2)] mac_handles_sources [of source d live] by auto
      from loop_ok_add [OF l this] obtain el1 where
        el1: "add_event_source source el = Ret (source, el1)" "loop_ok (source # mac_sources d live) el1" by blast
      have "(HObject InterfaceClient, raw) \<in>#
          add_mset (HEvent, source) (add_mset (HObject InterfaceClient, raw) ?H)" by simp
      from device_call_ok(1) [OF src(2) this, of v "USBInterfaceOpen raw"] obtain r s3 where
        s3: "iokit_try (mac_os v) (USBInterfaceOpen raw) s2 = (r, s3)"
          "os_has (add_mset (HEvent, source) (add_mset (HObject InterfaceClient, raw) ?H)) s3" by auto
      note step = step new(1) src(1) el1(1) s3(1)
      show ?thesis
      proof (cases r)
        case (Inl e)
        from registration_drop_first [OF s3(2) el1(2)] obtain s4 el2 where
          s4: "registration_drop (mac_os v) source (s3, el1) = Ret (s4, el2)"
            "os_has (add_mset (HObject InterfaceClient, raw) ?H) s4" "loop_ok (mac_sources d live) el2" by blast
        with step Inl ok release_object [OF s4(2), of v] show ?thesis
          by (simp add: mac_claim_interface_def mac_ok_def del: mac_os.simps)
      next
        case (Inr x)
        let ?i = "\<lparr>mif_interface_number = num, mif_source = source, mif_raw = raw, mif_alt_setting = 0,
            mif_endpoints_used = endpoint_bitset_default\<rparr>"
        let ?d = "d\<lparr>mcd_claimed_interfaces := mcd_claimed_interfaces d + 1\<rparr>"
        have "mac_handles ?d (?i # live) = add_mset (HEvent, source) (add_mset (HObject InterfaceClient, raw) ?H)"
          by (simp add: mac_handles_def mac_device_handles_def mac_interface_handles_def add_mset_commute)
        with s3(2) el1(2) ok have "mac_ok ?d (?i # live) s3 el1"
          by (simp add: mac_ok_def mac_sources_def)
        with step Inr show ?thesis by (simp add: mac_claim_interface_def del: mac_os.simps)
      qed
    qed
  qed
qed

lemma mac_interface_drop_ok:
  assumes "mac_ok d (xs @ i # ys) s el"
  shows "\<exists>d' s' el'. mac_interface_drop (mac_os v) i d (s, el) = Ret (d', s', el') \<and> mac_ok d' (xs @ ys) s' el'"
proof -
  let ?H = "mac_handles d (xs @ ys)"
  from assms have h: "os_has (mac_handles d (xs @ i # ys)) s"
    and l: "loop_ok (map mif_source xs @ mif_source i # mac_sources d ys) el"
    and n: "mcd_claimed_interfaces d = Suc (length (xs @ ys))"
    by (simp_all add: mac_ok_def mac_sources_def)
  from device_call_ok(2) [OF h mac_handles_interface, of i v "USBInterfaceClose (mif_raw i)"] obtain x s1 where
    s1: "mac_os v (USBInterfaceClose (mif_raw i)) s = (x, s1)" "os_has (mac_handles d (xs @ i # ys)) s1"
    by auto
  from s1(2) have "os_has (add_mset (HEvent, mif_source i) (add_mset (HObject InterfaceClient, mif_raw i) ?H)) s1"
    unfolding mac_handles_middle by (simp add: mac_interface_handles_def add_mset_commute)
  from registration_drop_ok [OF this l] obtain s2 el2 where
    s2: "registration_drop (mac_os v) (mif_source i) (s1, el) = Ret (s2, el2)"
      "os_has (add_mset (HObject InterfaceClient, mif_raw i) ?H) s2"
      "loop_ok (map mif_source xs @ mac_sources d ys) el2" by blast
  with s1(1) n release_object [OF s2(2), of v] show ?thesis
    by (simp add: mac_interface_drop_def mac_ok_def mac_sources_def mac_handles_def mac_device_handles_def
        del: mac_os.simps)
qed

lemma mac_device_drop_ok:
  assumes "mac_ok d [] s el"
  shows "\<exists>s' el'. mac_device_drop (mac_os v) d (s, el) = Ret (s', el') \<and> os_has {#} s' \<and> loop_ok [] el'"
proof -
  from assms have h: "os_has (mac_handles d []) s" and l: "loop_ok [mcd_source d] el"
    by (simp_all add: mac_ok_def mac_sources_def)
  from device_call_ok(2) [OF h mac_handles_object, of v "USBDeviceClose (mcd_raw d)"] obtain x s1 where
    "mac_os v (USBDeviceClose (mcd_raw d)) s = (x, s1)" "os_has (mac_handles d []) s1" by auto
  with h obtain s2 where
    s2: "(if mcd_is_open_exclusive d then snd (mac_os v (USBDeviceClose (mcd_raw d)) s) else s) = s2"
      "os_has (mac_handles d []) s2" by (cases "mcd_is_open_exclusive d") (simp_all del: mac_os.simps)
  from s2(2) have "os_has (add_mset (HEvent, mcd_source d) {#(HObject DeviceClient, mcd_raw d)#}) s2"
    by (simp add: mac_handles_def mac_device_handles_def add_mset_commute)
  from registration_drop_first [OF this l] obtain s3 el3 where
    s3: "registration_drop (mac_os v) (mcd_source d) (s2, el) = Ret (s3, el3)"
      "os_has {#(HObject DeviceClient, mcd_raw d)#} s3" "loop_ok [] el3" by blast
  with s2(1) release_object [OF s3(2), of v] show ?thesis
    by (cases "mcd_is_open_exclusive d") (simp_all add: mac_device_drop_def Let_def del: mac_os.simps)
qed

section \<open>Runs\<close>

datatype mac_event =
    MacClaim mac_data u8
  | MacDrop nat
  | MacSetAlt nat u8
  | MacClearHalt nat u8
  | MacSetConfiguration u8
  | MacReset

type_synonym mac_world = "MacDevice \<times> MacInterface list \<times> mac_kind handle_os \<times> EventLoop"

definition mac_step :: "(mac_call \<Rightarrow> nat) \<Rightarrow> mac_event \<Rightarrow> mac_world \<Rightarrow> mac_world outcome" where
  "mac_step v e w =
     (case w of (d, live, s, el) \<Rightarrow>
        (case e of
           MacClaim M num \<Rightarrow>
             omap (\<lambda>(r, d, s, el). (d, case r of Inl _ \<Rightarrow> live | Inr i \<Rightarrow> i # live, s, el))
               (mac_claim_interface (mac_os v) M num d (s, el))
         | MacDrop j \<Rightarrow>
             (if j < length live
              then omap (\<lambda>(d, s, el). (d, take j live @ drop (Suc j) live, s, el))
                     (mac_interface_drop (mac_os v) (live ! j) d (s, el))
              else Ret w)
         | MacSetAlt j alt \<Rightarrow>
             (if j < length live
              then (case mac_set_alt_setting (mac_os v) alt (live ! j) s of
                      (r, i, s) \<Rightarrow> Ret (d, live[j := i], s, el))
              else Ret w)
         | MacClearHalt j pipe \<Rightarrow>
             (if j < length live
              then (case mac_clear_halt (mac_os v) (live ! j) pipe s of (r, s) \<Rightarrow> Ret (d, live, s, el))
              else Ret w)
         | MacSetConfiguration c \<Rightarrow>
             (case mac_set_configuration (mac_os v) c d s of (r, d, s) \<Rightarrow> Ret (d, live, s, el))
         | MacReset \<Rightarrow> (case mac_reset (mac_os v) d s of (r, d, s) \<Rightarrow> Ret (d, live, s, el))))"

fun mac_run :: "(mac_call \<Rightarrow> nat) \<Rightarrow> mac_event list \<Rightarrow> mac_world \<Rightarrow> mac_world outcome" where
  "mac_run v [] w = Ret w"
| "mac_run v (e # es) w = obind (mac_step v e w) (mac_run v es)"

text \<open>All interfaces are dropped, then the device.\<close>

fun mac_close :: "(mac_call \<Rightarrow> nat) \<Rightarrow> mac_world \<Rightarrow> (mac_kind handle_os \<times> EventLoop) outcome" where
  "mac_close v (d, [], s, el) = mac_device_drop (mac_os v) d (s, el)"
| "mac_close v (d, i # live, s, el) =
     obind (mac_interface_drop (mac_os v) i d (s, el)) (\<lambda>(d, s, el). mac_close v (d, live, s, el))"

lemma mac_ok_update:
  assumes "mac_ok d live s el" "os_has (mac_handles d live) s'"
    "mcd_raw d' = mcd_raw d" "mcd_source d' = mcd_source d"
    "mcd_claimed_interfaces d' = mcd_claimed_interfaces d"
  shows "mac_ok d' live s' el"
  using assms mac_handles_same(1) [OF assms(3,4)] mac_handles_same(2) [OF assms(4)] by (simp add: mac_ok_def)

lemma mac_handles_update:
  assumes "j < length live" "mif_raw i = mif_raw (live ! j)" "mif_source i = mif_source (live ! j)"
  shows "mac_handles d (live[j := i]) = mac_handles d live" "mac_sources d (live[j := i]) = mac_sources d live"
proof -
  have "map mac_interface_handles (live[j := i]) = map mac_interface_handles live"
    using assms by (metis list_update_id map_update mac_interface_handles_def)
  then show "mac_handles d (live[j := i]) = mac_handles d live" by (simp only: mac_handles_def)
  have "map mif_source (live[j := i]) = map mif_source live"
    using assms by (metis list_update_id map_update)
  then show "mac_sources d (live[j := i]) = mac_sources d live" by (simp only: mac_sources_def)
qed

text \<open>Exclusive access first, then the claimed interfaces.\<close>

lemma require_open_ok:
  assumes "mac_ok d live s el"
  shows "\<exists>r d' s'. require_open_exclusive (mac_os v) d s = (r, d', s') \<and> mac_ok d' live s' el \<and>
    mcd_raw d' = mcd_raw d"
proof -
  from assms have h: "os_has (mac_handles d live) s" by (simp add: mac_ok_def)
  from device_call_ok(1) [OF h mac_handles_object, of v "USBDeviceOpen (mcd_raw d)"] obtain r s1 where
    o': "iokit_try (mac_os v) (USBDeviceOpen (mcd_raw d)) s = (r, s1)" "os_has (mac_handles d live) s1" by auto
  show ?thesis
    using o' mac_ok_update [OF assms h] mac_ok_update [OF assms o'(2)]
    by (cases "mcd_is_open_exclusive d"; cases r) (auto simp: require_open_exclusive_def Let_def)
qed

lemma device_request_ok:
  assumes "mac_ok d live s el" "\<And>s. mac_os v c s = mac_device_call v DeviceClient (mcd_raw d) c s"
  shows "\<exists>r s'. iokit_try (mac_os v) c s = (r, s') \<and>
    (\<forall>a. mac_ok (d\<lparr>mcd_active_config := a\<rparr>) live s' el) \<and> mac_ok d live s' el"
proof -
  from assms have h: "os_has (mac_handles d live) s" by (simp add: mac_ok_def)
  from device_call_ok(1) [OF h mac_handles_object assms(2)] obtain r s' where
    "iokit_try (mac_os v) c s = (r, s')" "os_has (mac_handles d live) s'" by blast
  with mac_ok_update [OF assms(1)] show ?thesis by auto
qed

lemma mac_step_ok:
  assumes ok: "mac_ok d live s el"
  shows "\<exists>d' live' s' el'. mac_step v e (d, live, s, el) = Ret (d', live', s', el') \<and> mac_ok d' live' s' el'"
proof (cases e)
  case (MacClaim M num)
  from mac_claim_ok [OF ok, of v M num] obtain r d' s' el' where
    "mac_claim_interface (mac_os v) M num d (s, el) = Ret (r, d', s', el')"
    "case r of Inl e \<Rightarrow> d' = d \<and> mac_ok d live s' el' | Inr i \<Rightarrow> mac_ok d' (i # live) s' el'" by blast
  with MacClaim show ?thesis by (cases r) (simp_all add: mac_step_def)
next
  case (MacDrop j)
  show ?thesis
  proof (cases "j < length live")
    case True
    with ok have "mac_ok d (take j live @ live ! j # drop (Suc j) live) s el" by (simp add: id_take_nth_drop [symmetric])
    from mac_interface_drop_ok [OF this, of v] True MacDrop show ?thesis by (auto simp: mac_step_def)
  qed (use ok MacDrop in \<open>simp add: mac_step_def\<close>)
next
  case (MacSetAlt j alt)
  show ?thesis
  proof (cases "j < length live \<and> endpoint_is_empty (mif_endpoints_used (live ! j))")
    case True
    have i: "live ! j \<in> set live" using True by simp
    from ok have h: "os_has (mac_handles d live) s" by (simp add: mac_ok_def)
    from device_call_ok(1) [OF h mac_handles_interface [OF i], of v "SetAlternateInterface (mif_raw (live ! j)) alt"]
    obtain r s' where
      r: "iokit_try (mac_os v) (SetAlternateInterface (mif_raw (live ! j)) alt) s = (r, s')"
        "os_has (mac_handles d live) s'" by auto
    from mac_ok_update [OF ok r(2)] have "mac_ok d live s' el" by simp
    moreover from this True have "mac_ok d (live[j := (live ! j)\<lparr>mif_alt_setting := alt\<rparr>]) s' el"
      by (simp add: mac_ok_def mac_handles_update)
    ultimately show ?thesis
      using True MacSetAlt r(1) by (cases r) (simp_all add: mac_step_def mac_set_alt_setting_def)
  next
    case False
    with MacSetAlt ok show ?thesis by (auto simp: mac_step_def mac_set_alt_setting_def)
  qed
next
  case (MacClearHalt j pipe)
  show ?thesis
  proof (cases "j < length live")
    case True
    then have i: "live ! j \<in> set live" by simp
    from ok have h: "os_has (mac_handles d live) s" by (simp add: mac_ok_def)
    from device_call_ok(1) [OF h mac_handles_interface [OF i], of v "ClearPipeStallBothEnds (mif_raw (live ! j)) pipe"]
    obtain r s' where
      r: "iokit_try (mac_os v) (ClearPipeStallBothEnds (mif_raw (live ! j)) pipe) s = (r, s')"
        "os_has (mac_handles d live) s'" by auto
    from mac_ok_update [OF ok r(2)] have "mac_ok d live s' el" by simp
    with True MacClearHalt r(1) show ?thesis by (cases r) (simp_all add: mac_step_def mac_clear_halt_def)
  qed (use ok MacClearHalt in \<open>simp add: mac_step_def\<close>)
next
  case (MacSetConfiguration c)
  from require_open_ok [OF ok, of v] obtain r d1 s1 where
    q: "require_open_exclusive (mac_os v) d s = (r, d1, s1)" "mac_ok d1 live s1 el" by blast
  from device_request_ok [OF q(2), of v "SetConfiguration (mcd_raw d1) c"] obtain x s2 where
    "iokit_try (mac_os v) (SetConfiguration (mcd_raw d1) c) s1 = (x, s2)"
    "\<forall>a. mac_ok (d1\<lparr>mcd_active_config := a\<rparr>) live s2 el" "mac_ok d1 live s2 el" by auto
  with MacSetConfiguration q show ?thesis
    by (cases r; cases x) (simp_all add: mac_step_def mac_set_configuration_def)
next
  case MacReset
  from require_open_ok [OF ok, of v] obtain r d1 s1 where
    q: "require_open_exclusive (mac_os v) d s = (r, d1, s1)" "mac_ok d1 live s1 el" by blast
  from device_request_ok [OF q(2), of v "USBDeviceReEnumerate (mcd_raw d1) 0"] obtain x s2 where
    "iokit_try (mac_os v) (USBDeviceReEnumerate (mcd_raw d1) 0) s1 = (x, s2)" "mac_ok d1 live s2 el" by auto
  with MacReset q show ?thesis by (cases r; cases x) (simp_all add: mac_step_def mac_reset_def)
qed

lemma mac_run_ok:
  "mac_ok d live s el \<Longrightarrow>
    \<exists>d' live' s' el'. mac_run v es (d, live, s, el) = Ret (d', live', s', el') \<and> mac_ok d' live' s' el'"
proof (induction es arbitrary: d live s el)
  case (Cons e es)
  from mac_step_ok [OF Cons.prems, of v e] obtain d1 live1 s1 el1 where
    "mac_step v e (d, live, s, el) = Ret (d1, live1, s1, el1)" "mac_ok d1 live1 s1 el1" by blast
  with Cons.IH show ?case by simp
qed simp

lemma mac_close_ok:
  "mac_ok d live s el \<Longrightarrow>
    \<exists>s' el'. mac_close v (d, live, s, el) = Ret (s', el') \<and> os_has {#} s' \<and> loop_ok [] el'"
proof (induction live arbitrary: d s el)
  case Nil
  from mac_device_drop_ok [OF this] show ?case by simp
next
  case (Cons i live)
  then have "mac_ok d ([] @ i # live) s el" by simp
  from mac_interface_drop_ok [OF this, of v] obtain d1 s1 el1 where
    "mac_interface_drop (mac_os v) i d (s, el) = Ret (d1, s1, el1)" "mac_ok d1 live s1 el1" by auto
  with Cons.IH [of d1 s1 el1] show ?case by simp
qed

section \<open>Claims are safe\<close>

definition interfaces_claimed :: nusb_error where
  "interfaces_claimed = error_new KBusy ''cannot perform this operation while interfaces are claimed''"

text \<open>
  What setting the configuration and resetting answer while an interface is claimed: a device that is
  not open exclusively yet is opened first, and nothing else is asked of the system.
\<close>

definition refused_while_claimed ::
  "'k iokit \<Rightarrow> MacDevice \<Rightarrow> 'k \<Rightarrow> (nusb_error + unit) \<times> MacDevice \<times> 'k \<Rightarrow> bool" where
  "refused_while_claimed K d k r \<longleftrightarrow>
     (if mcd_is_open_exclusive d then r = (Inl interfaces_claimed, d, k)
      else case iokit_device_open K (mcd_raw d) k of
             (Inl e, k1) \<Rightarrow> r = (Inl (no_device_error ''could not open device for exclusive access'' e), d, k1)
           | (Inr _, k1) \<Rightarrow> r = (Inl interfaces_claimed, d\<lparr>mcd_is_open_exclusive := True\<rparr>, k1))"

lemma claimed_refuses:
  assumes "mac_ok d live s el" "live \<noteq> []"
  shows "refused_while_claimed K d s (mac_set_configuration K c d s)"
    and "refused_while_claimed K d s (mac_reset K d s)"
proof -
  have "d\<lparr>mcd_is_open_exclusive := True\<rparr> = d" if "mcd_is_open_exclusive d" using that by (cases d) simp
  moreover have "mcd_claimed_interfaces d \<noteq> 0" using assms by (simp add: mac_ok_def)
  ultimately show "refused_while_claimed K d s (mac_set_configuration K c d s)"
    "refused_while_claimed K d s (mac_reset K d s)"
    by (auto simp: refused_while_claimed_def mac_set_configuration_def mac_reset_def require_open_exclusive_def
        interfaces_claimed_def Let_def split: prod.splits sum.splits)
qed

lemma os_has_none: "os_has {#} s \<longleftrightarrow> \<not> os_bad s \<and> os_open s = []"
  by (auto simp: os_has_def)

lemma loop_ok_none: "loop_ok [] el \<longleftrightarrow> el_count el = 0 \<and> el_runloop el = None"
  by (auto simp: loop_ok_def split: option.splits)

text \<open>
  C14. Opening a device and claiming its interfaces is safe on macOS. Whatever IOKit refuses, an open
  that fails leaves no object of IOKit behind and no event loop; after one that succeeds, claim
  interfaces, drop them, change alternate settings, clear halts, set the configuration and reset in
  any order: nothing panics, an object is used only while it is alive and released exactly once, the
  objects alive are those of the device and of the interfaces that are held, the run loop has
  exactly their event sources, and the count of claimed interfaces is right. Setting the configuration
  and resetting are refused while an interface is held, also by a device that is not open exclusively
  before: they open it, which may fail, and ask nothing else of the system. Dropping everything
  releases every object and stops the event loop.
\<close>

theorem mac_claims_safe:
  assumes "\<And>i. is_ret (iokit_get_configuration_descriptor M i)"
  shows "\<exists>r s0 el0. mac_from_device_info (mac_os v) M ms reg speed (os_init answers, event_loop_init) =
      Ret (r, s0, el0) \<and>
    (case r of
       Inl e \<Rightarrow> \<not> os_bad s0 \<and> os_open s0 = [] \<and> el_runloop el0 = None
     | Inr d0 \<Rightarrow>
         \<exists>d live s el s' el'. mac_run v es (d0, [], s0, el0) = Ret (d, live, s, el) \<and> \<not> os_bad s \<and>
           mset (os_open s) = mac_handles d live \<and> mcd_claimed_interfaces d = length live \<and>
           (case el_runloop el of None \<Rightarrow> False | Some rl \<Rightarrow> distinct rl \<and> set rl = set (mac_sources d live)) \<and>
           (live \<noteq> [] \<longrightarrow>
             refused_while_claimed (mac_os v) d s (mac_set_configuration (mac_os v) c d s) \<and>
             refused_while_claimed (mac_os v) d s (mac_reset (mac_os v) d s)) \<and>
           mac_close v (d, live, s, el) = Ret (s', el') \<and> \<not> os_bad s' \<and> os_open s' = [] \<and>
           el_runloop el' = None)"
proof -
  from open_ok [OF assms os_has_init loop_ok_init] obtain r s0 el0 where
    r: "mac_from_device_info (mac_os v) M ms reg speed (os_init answers, event_loop_init) = Ret (r, s0, el0)"
      "case r of Inl e \<Rightarrow> os_has {#} s0 \<and> loop_ok [] el0 | Inr d \<Rightarrow> mac_ok d [] s0 el0" by blast
  show ?thesis
  proof (cases r)
    case (Inl e)
    with r show ?thesis by (simp add: os_has_none loop_ok_none)
  next
    case (Inr d0)
    with r have "mac_ok d0 [] s0 el0" by simp
    from mac_run_ok [OF this, of v es] obtain d live s el where
      w: "mac_run v es (d0, [], s0, el0) = Ret (d, live, s, el)" "mac_ok d live s el" by blast
    from mac_close_ok [OF w(2), of v] obtain s' el' where
      c: "mac_close v (d, live, s, el) = Ret (s', el')" "os_has {#} s'" "loop_ok [] el'" by blast
    from w(2) have os: "\<not> os_bad s" "mset (os_open s) = mac_handles d live" "mcd_claimed_interfaces d = length live"
      and l: "loop_ok (mac_sources d live) el" by (simp_all add: mac_ok_def os_has_def)
    from l have "case el_runloop el of None \<Rightarrow> False | Some rl \<Rightarrow> distinct rl \<and> set rl = set (mac_sources d live)"
      by (auto simp: loop_ok_def mac_sources_def split: option.splits)
    with r(1) Inr w(1) os c claimed_refuses [OF w(2)] show ?thesis
      by (auto simp: os_has_none loop_ok_none)
  qed
qed

text \<open>A device with one configuration and two interfaces.\<close>

definition mac_number_service :: "u64 \<Rightarrow> (string \<times> int) list \<Rightarrow> IoService" where
  "mac_number_service reg ps =
     IoService (Some reg) (\<lambda>k. map_option (CfNumber \<circ> Some) (map_of ps k)) (Inr [])"

definition mac_device_service :: IoService where
  "mac_device_service = mac_number_service 5
     (map (\<lambda>k. (k, 1))
       [''bcdUSB'', ''bDeviceClass'', ''bDeviceSubClass'', ''bDeviceProtocol'', ''bMaxPacketSize0'', ''idVendor'',
        ''idProduct'', ''bcdDevice'', ''iManufacturer'', ''iProduct'', ''iSerialNumber'', ''bNumConfigurations''])"

definition mac_device_data :: mac_data where
  "mac_device_data =
     \<lparr>mk_interfaces = Inr [mac_number_service 6 [(''bInterfaceNumber'', 0)],
                          mac_number_service 7 [(''bInterfaceNumber'', 1)]],
      mk_config = (\<lambda>i. Inl kIOReturnNotFound), mk_num_endpoints = (\<lambda>raw. Inr 0),
      mk_pipes = (\<lambda>raw r. Inl kIOReturnNotFound)\<rparr>"

theorem mac_claims_safe_witness:
  "\<exists>d s el s' el'.
     obind (mac_from_device_info (mac_os (\<lambda>_. 1)) mac_device_data (\<lambda>_. Some (Inr [mac_device_service])) 5 None
         (os_init [Some kIOReturnNoResources], event_loop_init))
       (\<lambda>(r, s, el). case r of
            Inl e \<Rightarrow> Panic
          | Inr d \<Rightarrow> mac_run (\<lambda>_. 1) [MacClaim mac_device_data 1, MacSetAlt 0 1, MacClaim mac_device_data 0,
                      MacDrop 0, MacReset] (d, [], s, el)) = Ret d \<and>
     mac_close (\<lambda>_. 1) d = Ret (s', el') \<and> \<not> os_bad s' \<and> os_open s' = [] \<and> el_runloop el' = None \<and>
     mcd_claimed_interfaces (fst d) = 1"
proof -
  let ?es = "[MacClaim mac_device_data 1, MacSetAlt 0 1, MacClaim mac_device_data 0, MacDrop 0, MacReset]"
  let ?open = "mac_from_device_info (mac_os (\<lambda>_. 1)) mac_device_data (\<lambda>_. Some (Inr [mac_device_service])) 5 None
         (os_init [Some kIOReturnNoResources], event_loop_init)"
  have ret: "is_ret (iokit_get_configuration_descriptor mac_device_data i)" for i
    by (simp add: iokit_get_configuration_descriptor_def mac_device_data_def)
  have run: "omap (\<lambda>(r, s, el). case r of Inl e \<Rightarrow> None
      | Inr d \<Rightarrow> (case mac_run (\<lambda>_. 1) ?es (d, [], s, el) of
                    Ret (d, live, s, el) \<Rightarrow> Some (mcd_claimed_interfaces d) | _ \<Rightarrow> None)) ?open = Ret (Some 1)"
    by code_simp
  from mac_claims_safe [OF ret, of "\<lambda>_. 1" "\<lambda>_. Some (Inr [mac_device_service])" 5 None
      "[Some kIOReturnNoResources]" ?es 0] run
  show ?thesis by (fastforce split: sum.splits)
qed

end
