(* ===== verification/Mac_Endpoint.thy ===== *)
theory Mac_Endpoint
  imports Mac_Device Queue_Endpoint
begin

unbundle bit_operations_syntax

text \<open>
  Transfers of the macOS backend: src/src/platform/macos_iokit/transfer.rs, and the endpoints, control
  transfers and the callback of device.rs. IOKit is a function \<open>K\<close> from a call to its return code and
  the new state of the system.
\<close>

section \<open>Transfers\<close>

record MacTransferData =
  mt_buf :: "u8 option list"
  mt_capacity :: u32
  mt_requested_len :: u32
  mt_actual_len :: u32
  mt_status :: IOReturn

definition mt_new :: MacTransferData where
  "mt_new =
     \<lparr>mt_buf = [], mt_capacity = 0, mt_requested_len = 0, mt_actual_len = 0, mt_status = kIOReturnSuccess\<rparr>"

definition mt_put_buffer :: "Buffer \<Rightarrow> Direction \<Rightarrow> MacTransferData \<Rightarrow> MacTransferData outcome" where
  "mt_put_buffer buffer direction t =
     rassert (mt_capacity t = 0)
       (Ret (t\<lparr>mt_buf := buf_mem buffer, mt_capacity := buf_capacity buffer, mt_actual_len := 0,
               mt_requested_len :=
                 (case direction of Out \<Rightarrow> buf_len buffer | In \<Rightarrow> buf_requested_len buffer)\<rparr>))"

definition mt_take_completion :: "Direction \<Rightarrow> MacTransferData \<Rightarrow> Completion \<times> MacTransferData" where
  "mt_take_completion direction t =
     (\<lparr>cmp_buffer =
         \<lparr>buf_mem = mt_buf t,
          buf_len = (case direction of Out \<Rightarrow> mt_requested_len t | In \<Rightarrow> mt_actual_len t),
          buf_requested_len = mt_requested_len t, buf_capacity = mt_capacity t,
          buf_allocator = AllocDefault\<rparr>,
       cmp_actual_len = unat (mt_actual_len t), cmp_status = status_to_transfer_result (mt_status t)\<rparr>,
      t\<lparr>mt_buf := [], mt_capacity := 0, mt_requested_len := 0, mt_actual_len := 0\<rparr>)"

section \<open>Calls\<close>

text \<open>A transfer is its address, a buffer the memory at its pointer.\<close>

record IOUSBDevRequestTO =
  rq_bmRequestType :: u8
  rq_bRequest :: u8
  rq_wValue :: u16
  rq_wIndex :: u16
  rq_wLength :: u16
  rq_pData :: "u8 option list"
  rq_wLenDone :: u32
  rq_completionTimeout :: u32
  rq_noDataTimeout :: u32

datatype mac_io =
    WritePipeAsync u8 "u8 option list" u32 nat
  | ReadPipeAsync u8 "u8 option list" u32 nat
  | DeviceRequestAsyncTO IOUSBDevRequestTO nat
  | AbortPipe u8

type_synonym 'k mac_pipes = "mac_io \<Rightarrow> 'k \<Rightarrow> IOReturn \<times> 'k"

text \<open>A request that was refused is completed in the place of the callback.\<close>

definition mac_post_submit ::
  "IOReturn \<Rightarrow> Pending \<Rightarrow> MacTransferData tx_heap \<times> 'k \<Rightarrow> (MacTransferData tx_heap \<times> 'k) outcome" where
  "mac_post_submit res p s =
     (if res = kIOReturnSuccess then Ret s
      else omap (\<lambda>(w, h). (h, snd s)) (complete_with (\<lambda>d. d\<lparr>mt_status := res\<rparr>) (pending_ptr p) (fst s)))"

definition mac_submit ::
  "'k mac_pipes \<Rightarrow> u8 \<Rightarrow> u8 \<Rightarrow> Idle \<Rightarrow> MacTransferData tx_heap \<times> 'k \<Rightarrow>
   (Pending \<times> MacTransferData tx_heap \<times> 'k) outcome" where
  "mac_submit K pipe_ref endpoint t s =
     obind (idle_deref t (fst s)) (\<lambda>d.
     obind (pre_submit t (fst s)) (\<lambda>(p, h).
       case K (case direction_from_address endpoint of
                 Out \<Rightarrow> WritePipeAsync pipe_ref (mt_buf d) (mt_requested_len d) (pending_ptr p)
               | In \<Rightarrow> ReadPipeAsync pipe_ref (mt_buf d) (mt_requested_len d) (pending_ptr p)) (snd s) of
         (res, k) \<Rightarrow> omap (\<lambda>s. (p, s)) (mac_post_submit res p (h, k))))"

definition mac_submit_control ::
  "'k mac_pipes \<Rightarrow> IOUSBDevRequestTO \<Rightarrow> Idle \<Rightarrow> MacTransferData tx_heap \<times> 'k \<Rightarrow>
   (Pending \<times> MacTransferData tx_heap \<times> 'k) outcome" where
  "mac_submit_control K req t s =
     obind (idle_deref_mut (\<lambda>d. d\<lparr>mt_actual_len := 0\<rparr>) t (fst s)) (\<lambda>h.
     obind (idle_deref t h) (\<lambda>d.
     rassert (rq_pData req = mt_buf d)
     (obind (pre_submit t h) (\<lambda>(p, h).
       case K (DeviceRequestAsyncTO req (pending_ptr p)) (snd s) of
         (res, k) \<Rightarrow> omap (\<lambda>s. (p, s)) (mac_post_submit res p (h, k))))))"

text \<open>\<open>transfer_callback\<close>: the length comes as a pointer, of which the low bits are taken.\<close>

definition mac_transfer_callback ::
  "nat \<Rightarrow> IOReturn \<Rightarrow> nat \<Rightarrow> MacTransferData tx_heap \<Rightarrow> (NotifyState \<times> MacTransferData tx_heap) outcome" where
  "mac_transfer_callback p result len h =
     complete_with (\<lambda>d. d\<lparr>mt_actual_len := of_nat len, mt_status := result\<rparr>) p h"

section \<open>Endpoints\<close>

record MacEndpoint = QueueEndpoint +
  mep_pipe_ref :: u8

definition mac_interface_endpoint ::
  "mac_data \<Rightarrow> nat \<Rightarrow> EndpointDescriptor \<Rightarrow> MacInterface \<Rightarrow>
   ((nusb_error + MacEndpoint) \<times> MacInterface) outcome" where
  "mac_interface_endpoint M notify descriptor i =
     obind (endpoint_address descriptor) (\<lambda>address.
     obind (endpoint_max_packet_size descriptor) (\<lambda>max_packet_size.
       Ret (case iokit_find_pipe_ref M (mif_raw i) address of
              None \<Rightarrow>
                (Inl (error_new KNotFound ''specified endpoint does not exist on IOKit interface''), i)
            | Some pipe_ref \<Rightarrow>
                (if endpoint_is_set (mif_endpoints_used i) address
                 then (Inl (error_new KBusy ''endpoint already in use''), i)
                 else
                   (Inr \<lparr>qe_address = address, qe_notify = notify, qe_max_packet_size = max_packet_size,
                         qe_pending = [], qe_idle_transfer = None, mep_pipe_ref = pipe_ref\<rparr>,
                    i\<lparr>mif_endpoints_used := endpoint_set (mif_endpoints_used i) address\<rparr>)))))"

text \<open>\<open>Drop for EndpointInner\<close>\<close>

definition mac_endpoint_inner_drop :: "u8 \<Rightarrow> MacInterface \<Rightarrow> MacInterface" where
  "mac_endpoint_inner_drop address i =
     i\<lparr>mif_endpoints_used := endpoint_clear (mif_endpoints_used i) address\<rparr>"

abbreviation mac_dir :: "'m QueueEndpoint_scheme \<Rightarrow> Direction" where
  "mac_dir ep \<equiv> direction_from_address (qe_address ep)"

definition mac_make_transfer ::
  "Buffer \<Rightarrow> MacEndpoint \<Rightarrow> MacTransferData tx_heap \<Rightarrow> (Idle \<times> MacTransferData tx_heap) outcome" where
  "mac_make_transfer buffer ep h =
     queue_make_transfer (\<lambda>b. mt_put_buffer b (mac_dir ep)) mt_new (qe_notify ep) buffer (qe_idle_transfer ep) h"

definition mac_endpoint_submit ::
  "'k mac_pipes \<Rightarrow> Buffer \<Rightarrow> MacEndpoint \<Rightarrow> MacTransferData tx_heap \<Rightarrow> 'k \<Rightarrow>
   (MacEndpoint \<times> MacTransferData tx_heap \<times> 'k) outcome" where
  "mac_endpoint_submit K buffer ep h k =
     obind (mac_make_transfer buffer ep h) (\<lambda>(t, h).
     obind (mac_submit K (mep_pipe_ref ep) (qe_address ep) t (h, k)) (\<lambda>(p, h, k).
       Ret (ep\<lparr>qe_idle_transfer := None, qe_pending := qe_pending ep @ [p]\<rparr>, h, k)))"

definition mac_endpoint_submit_err ::
  "Buffer \<Rightarrow> TransferError \<Rightarrow> MacEndpoint \<Rightarrow> MacTransferData tx_heap \<Rightarrow>
   (MacEndpoint \<times> MacTransferData tx_heap) outcome" where
  "mac_endpoint_submit_err buffer err ep h =
     rassert (err = InvalidArgument)
       (queue_submit_err (\<lambda>b. mt_put_buffer b (mac_dir ep)) mt_new
          (\<lambda>d. d\<lparr>mt_status := kIOReturnBadArgument\<rparr>) buffer ep h)"

definition mac_poll_next_complete ::
  "nat \<Rightarrow> MacEndpoint \<Rightarrow> MacTransferData tx_heap \<Rightarrow>
   (Completion option \<times> MacEndpoint \<times> MacTransferData tx_heap) outcome" where
  "mac_poll_next_complete waker ep h = queue_poll (\<lambda>d. Ret (mt_take_completion (mac_dir ep) d)) waker ep h"

text \<open>\<open>wait_next_complete\<close> while the event thread delivers \<open>n\<close> completions.\<close>

definition mac_wait_next_complete ::
  "(MacTransferData tx_heap \<times> 'k \<Rightarrow> (MacTransferData tx_heap \<times> 'k) outcome) \<Rightarrow> nat \<Rightarrow>
   MacEndpoint \<Rightarrow> MacTransferData tx_heap \<times> 'k \<Rightarrow>
   (Completion option \<times> MacEndpoint \<times> MacTransferData tx_heap \<times> 'k) outcome" where
  "mac_wait_next_complete event n ep = queue_wait (\<lambda>d. Ret (mt_take_completion (mac_dir ep) d)) event n ep"

definition mac_cancel_all :: "'k mac_pipes \<Rightarrow> MacEndpoint \<Rightarrow> 'k \<Rightarrow> 'k" where
  "mac_cancel_all K ep k = snd (K (AbortPipe (mep_pipe_ref ep)) k)"

definition mac_endpoint_drop ::
  "'k mac_pipes \<Rightarrow> MacEndpoint \<Rightarrow> MacTransferData tx_heap \<times> 'k \<Rightarrow> (MacTransferData tx_heap \<times> 'k) outcome" where
  "mac_endpoint_drop K = queue_endpoint_drop (mac_cancel_all K)"

section \<open>Control transfers\<close>

text \<open>\<open>timeout.as_millis().try_into().expect(..)\<close> to 32 bits\<close>

definition mac_timeout :: "Duration \<Rightarrow> u32 outcome" where
  "mac_timeout d = unwrap (try_u32 (unat (dur_secs d) * 1000 + unat (dur_nanos d) div 1000000))"

definition mac_control_request ::
  "u8 \<Rightarrow> u8 \<Rightarrow> u16 \<Rightarrow> u16 \<Rightarrow> u16 \<Rightarrow> u8 option list \<Rightarrow> u32 \<Rightarrow> IOUSBDevRequestTO" where
  "mac_control_request ty request val idx len data timeout =
     \<lparr>rq_bmRequestType = ty, rq_bRequest = request, rq_wValue = val, rq_wIndex = idx,
      rq_wLength = len, rq_pData = data, rq_wLenDone = 0, rq_completionTimeout = timeout,
      rq_noDataTimeout = timeout\<rparr>"

definition mac_control_in ::
  "'k mac_pipes \<Rightarrow> (nat \<Rightarrow> nat) \<Rightarrow> nat \<Rightarrow> ControlIn \<Rightarrow> Duration \<Rightarrow> MacTransferData tx_heap \<times> 'k \<Rightarrow>
   (Pending \<times> MacTransferData tx_heap \<times> 'k) outcome" where
  "mac_control_in K alloc notify data timeout s =
     obind (mac_timeout timeout) (\<lambda>timeout.
     obind (buffer_new alloc (unat (ci_length data))) (\<lambda>b.
     obind (mt_put_buffer b In mt_new) (\<lambda>d.
       case idle_new notify d (fst s) of
         (t, h) \<Rightarrow>
           mac_submit_control K
             (mac_control_request (control_in_request_type data) (ci_request data) (ci_value data)
                (ci_index data) (ci_length data) (mt_buf d) timeout) t (h, snd s))))"

definition mac_control_out ::
  "'k mac_pipes \<Rightarrow> nat \<Rightarrow> ControlOut \<Rightarrow> Duration \<Rightarrow> MacTransferData tx_heap \<times> 'k \<Rightarrow>
   (Pending \<times> MacTransferData tx_heap \<times> 'k) outcome" where
  "mac_control_out K notify data timeout s =
     obind (mac_timeout timeout) (\<lambda>timeout.
     obind (buffer_from_vec (vec_of (co_data data))) (\<lambda>b.
     obind (mt_put_buffer b Out mt_new) (\<lambda>d.
     obind (unwrap (try_u16 (length (co_data data)))) (\<lambda>len.
       case idle_new notify d (fst s) of
         (t, h) \<Rightarrow>
           mac_submit_control K
             (mac_control_request (control_out_request_type data) (co_request data) (co_value data)
                (co_index data) len (mt_buf d) timeout) t (h, snd s)))))"

text \<open>What the finished future gives.\<close>

definition mac_control_in_result :: "MacTransferData \<Rightarrow> (TransferError + rvec) outcome" where
  "mac_control_in_result d =
     (case mt_take_completion In d of
        (c, d) \<Rightarrow>
          (case cmp_status c of Inl e \<Rightarrow> Ret (Inl e) | Inr _ \<Rightarrow> omap Inr (buffer_into_vec (cmp_buffer c))))"

definition mac_control_out_result :: "MacTransferData \<Rightarrow> TransferError + unit" where
  "mac_control_out_result d = cmp_status (fst (mt_take_completion Out d))"

end
