(* ===== verification/Mac_Endpoint_Theorems.thy ===== *)
theory Mac_Endpoint_Theorems
  imports Mac_Endpoint
begin

text \<open>
  A macOS endpoint is a queue of buffers: the contract \<open>endpoint_backend\<close> for the endpoint of
  Mac_Endpoint on every system that keeps its own contract, with the completions delivered by
  \<open>transfer_callback\<close>. Also what a control transfer asks IOKit for.
\<close>

section \<open>A system within its contract\<close>

definition mac_refusal :: "nat \<Rightarrow> IOReturn" where
  "mac_refusal e = (if of_nat e = kIOReturnSuccess then kIOReturnBadArgument else of_nat e)"

definition mac_accept :: "nat \<Rightarrow> tx_script \<Rightarrow> IOReturn \<times> tx_script" where
  "mac_accept p k =
     (case ts_accept p k of
        (None, k) \<Rightarrow> (kIOReturnSuccess, k)
      | (Some e, k) \<Rightarrow> (mac_refusal e, k))"

fun mac_script :: "tx_script mac_pipes" where
  "mac_script (WritePipeAsync r m n p) k = mac_accept p k"
| "mac_script (ReadPipeAsync r m n p) k = mac_accept p k"
| "mac_script (DeviceRequestAsyncTO req p) k = mac_accept p k"
| "mac_script (AbortPipe r) k = (kIOReturnSuccess, k\<lparr>ts_aborts := unat r # ts_aborts k\<rparr>)"

text \<open>What the system writes into the memory of an IN transfer before it calls back.\<close>

definition mac_written :: "u8 \<Rightarrow> bytes \<Rightarrow> MacTransferData \<Rightarrow> MacTransferData" where
  "mac_written addr data d =
     (case direction_from_address addr of
        In \<Rightarrow> (let n = min (length data) (unat (mt_requested_len d))
               in d\<lparr>mt_buf := map Some (take n data) @ drop n (mt_buf d)\<rparr>)
      | Out \<Rightarrow> d)"

definition mac_completed ::
  "u8 \<Rightarrow> nat \<Rightarrow> bytes \<Rightarrow> nat \<Rightarrow> MacTransferData tx_heap \<times> tx_script \<Rightarrow>
   (MacTransferData tx_heap \<times> tx_script) outcome" where
  "mac_completed addr status data p s =
     obind (th_load (fst s) p) (\<lambda>i.
       omap (\<lambda>(w, h). (h, snd s))
         (mac_transfer_callback p (of_nat status)
           (min (length data) (unat (mt_requested_len (ti_platform_data i))))
           (th_store p (i\<lparr>ti_platform_data := mac_written addr data (ti_platform_data i)\<rparr>) (fst s))))"

definition mac_platform :: "u8 \<Rightarrow> (MacTransferData, unit MacEndpoint_ext) platform" where
  "mac_platform addr =
     \<lparr>pf_submit = mac_endpoint_submit mac_script, pf_submit_err = mac_endpoint_submit_err,
      pf_take = (\<lambda>ep d. Ret (mt_take_completion (mac_dir ep) d)), pf_completed = mac_completed addr,
      pf_cancel_all = mac_cancel_all mac_script\<rparr>"

definition mac_backend :: "u8 \<Rightarrow> (MacTransferData, unit MacEndpoint_ext) qsys backend" where
  "mac_backend addr = queue_backend (mac_platform addr)"

section \<open>The laws\<close>

definition mac_vacant :: "MacTransferData \<Rightarrow> bool" where
  "mac_vacant d \<longleftrightarrow> mt_capacity d = 0"

definition mac_holds :: "u8 \<Rightarrow> Buffer \<Rightarrow> MacTransferData \<Rightarrow> bool" where
  "mac_holds addr b d \<longleftrightarrow>
     mt_capacity d = buf_capacity b \<and>
     (case direction_from_address addr of
        In \<Rightarrow> length (mt_buf d) = unat (buf_capacity b) \<and> buffer_requested_len b \<le> length (mt_buf d) \<and>
          mt_requested_len d = buf_requested_len b \<and> unat (mt_actual_len d) \<le> buffer_requested_len b \<and>
          list_all (\<lambda>x. x \<noteq> None) (take (unat (mt_actual_len d)) (mt_buf d))
      | Out \<Rightarrow> mt_requested_len d = buf_len b \<and> mt_buf d = buf_mem b)"

definition mac_good :: "u8 \<Rightarrow> u8 \<Rightarrow> MacEndpoint \<Rightarrow> bool" where
  "mac_good addr pipe ep \<longleftrightarrow> qe_address ep = addr \<and> 0 < qe_max_packet_size ep \<and> mep_pipe_ref ep = pipe"

lemma mac_good_same:
  assumes "mac_good addr pipe ep" "qe_same ep ep'"
  shows "mac_good addr pipe ep'"
proof -
  have "mep_pipe_ref ep' = mep_pipe_ref ep"
    using assms(2) by (cases ep; cases ep') (simp add: qe_same_def)
  with assms show ?thesis by (simp add: mac_good_def qe_same_def)
qed

lemma mac_put_buffer_holds:
  assumes "mac_vacant d" "buffer_ok b"
  shows "\<exists>d'. mt_put_buffer b (direction_from_address addr) d = Ret d' \<and> mac_holds addr b d'"
  using assms
  by (cases "direction_from_address addr")
    (auto simp: mt_put_buffer_def mac_vacant_def mac_holds_def buffer_ok_def buffer_requested_len_def)

lemma mac_take_holds:
  assumes "mac_holds addr b d" "buffer_ok b"
  shows "\<exists>c d'. Ret (mt_take_completion (direction_from_address addr) d) = Ret (c, d') \<and> mac_vacant d' \<and>
    returned_for {AllocDefault} (direction_from_address addr) b c"
  using assms
  by (cases "direction_from_address addr")
    (auto simp: mt_take_completion_def mac_holds_def mac_vacant_def returned_for_def
      buffer_ok_def buffer_bytes_def buffer_len_def buffer_requested_len_def)

interpretation mac_transfers:
  platform_transfers "\<lambda>b. mt_put_buffer b (direction_from_address addr)"
    "\<lambda>d. Ret (mt_take_completion (direction_from_address addr) d)" "{AllocDefault}"
    "direction_from_address addr" mac_vacant "mac_holds addr"
  by unfold_locales (simp_all only: mac_put_buffer_holds mac_take_holds)

lemma mac_holds_status: "mac_holds addr b d \<Longrightarrow> mac_holds addr b (d\<lparr>mt_status := e\<rparr>)"
  by (cases "direction_from_address addr") (simp_all add: mac_holds_def)

text \<open>What is in the transfer once the system has written and \<open>transfer_callback\<close> has stored.\<close>

definition mac_done :: "u8 \<Rightarrow> nat \<Rightarrow> bytes \<Rightarrow> MacTransferData \<Rightarrow> MacTransferData" where
  "mac_done addr status data d =
     (mac_written addr data d)
       \<lparr>mt_actual_len := of_nat (min (length data) (unat (mt_requested_len d))), mt_status := of_nat status\<rparr>"

lemma mac_holds_done:
  assumes "mac_holds addr b d"
  shows "mac_holds addr b (mac_done addr st data d)"
proof -
  let ?n = "min (length data) (unat (mt_requested_len d))"
  have n: "unat (of_nat ?n :: u32) = ?n"
    by (intro unat_of_nat_u32 le_less_trans [OF min.cobounded2 unat_u32_lt])
  show ?thesis
  proof (cases "direction_from_address addr")
    case In
    have "?n \<le> length (mt_buf d)" using assms In by (auto simp: mac_holds_def buffer_requested_len_def)
    with assms In n show ?thesis
      by (simp add: mac_holds_def mac_done_def mac_written_def Let_def list_all_iff buffer_requested_len_def)
  next
    case Out
    with assms show ?thesis by (simp add: mac_holds_def mac_done_def mac_written_def)
  qed
qed

section \<open>The endpoint is a queue\<close>

lemma mac_accept_inflight:
  "mac_accept p k = (res, k') \<Longrightarrow>
    if res = kIOReturnSuccess then ts_inflight k' = p # ts_inflight k else ts_inflight k' = ts_inflight k"
  by (auto simp: mac_accept_def ts_accept_def mac_refusal_def kIOReturnSuccess_def kIOReturnBadArgument_def
      split: list.splits option.splits if_splits)

lemma mac_submit_ok:
  assumes good: "mac_good addr pipe ep"
    and ok: "qe_ok mac_vacant (mac_holds addr) ep h bufs (ts_inflight k)" and b: "buffer_ok b"
  shows "\<exists>ep' h' k'. mac_endpoint_submit mac_script b ep h k = Ret (ep', h', k') \<and> qe_same ep ep' \<and>
    qe_ok mac_vacant (mac_holds addr) ep' h' (bufs @ [b]) (ts_inflight k')"
proof -
  have addr: "qe_address ep = addr" using good by (simp add: mac_good_def)
  have new: "mac_vacant mt_new" by (simp add: mac_vacant_def mt_new_def)
  from mac_transfers.make_ok [OF ok [unfolded qe_ok_def] new b] obtain t h1 where
    m: "mac_make_transfer b ep h = Ret (t, h1)"
      "filled_ok (mac_holds addr) h1 t b (qe_pending ep) bufs (ts_inflight k)"
    unfolding mac_make_transfer_def addr by blast
  from mac_transfers.read_filled [OF m(2)] obtain d where d: "idle_deref t h1 = Ret d" by blast
  let ?q = "qe_pending ep @ [Pending (idle_ptr t)]"
  from mac_transfers.submit_filled [OF m(2)] obtain h3 where
    h3: "pre_submit t h1 = Ret (Pending (idle_ptr t), h3)"
      "queue_ok mac_vacant (mac_holds addr) h3 None ?q (bufs @ [b]) (idle_ptr t # ts_inflight k)" by blast
  obtain res k1 where k1: "mac_accept (idle_ptr t) k = (res, k1)" by (metis prod.exhaust)
  have run: "mac_submit mac_script (mep_pipe_ref ep) (qe_address ep) t (h1, k) =
      omap (\<lambda>s. (Pending (idle_ptr t), s)) (mac_post_submit res (Pending (idle_ptr t)) (h3, k1))"
    using d h3(1) k1 by (cases "direction_from_address (qe_address ep)") (simp_all add: mac_submit_def)
  have post: "\<exists>h' k'. mac_post_submit res (Pending (idle_ptr t)) (h3, k1) = Ret (h', k') \<and>
      queue_ok mac_vacant (mac_holds addr) h' None ?q (bufs @ [b]) (ts_inflight k')"
  proof (cases "res = kIOReturnSuccess")
    case True
    with mac_accept_inflight [OF k1] h3(2) show ?thesis by (simp add: mac_post_submit_def)
  next
    case False
    let ?f = "\<lambda>d. d\<lparr>mt_status := res\<rparr>"
    from mac_transfers.complete_ok [where f = ?f and p = "idle_ptr t", OF h3(2) _ mac_holds_status]
    obtain w h4 where "complete_with ?f (idle_ptr t) h3 = Ret (w, h4)"
      "queue_ok mac_vacant (mac_holds addr) h4 None ?q (bufs @ [b]) (ts_inflight k)" by auto
    with False mac_accept_inflight [OF k1] show ?thesis by (simp add: mac_post_submit_def)
  qed
  then obtain h' k' where "mac_post_submit res (Pending (idle_ptr t)) (h3, k1) = Ret (h', k')"
    "queue_ok mac_vacant (mac_holds addr) h' None ?q (bufs @ [b]) (ts_inflight k')" by blast
  with m(1) run show ?thesis by (simp add: mac_endpoint_submit_def qe_same_def qe_ok_def)
qed

lemma mac_completed_eq:
  "mac_completed addr st data p (h, k) = omap (\<lambda>(w, h). (h, k)) (complete_with (mac_done addr st data) p h)"
  by (cases "th_mem h p")
    (simp_all add: mac_completed_def mac_transfer_callback_def complete_with_def mac_done_def th_load_def
      th_mem_store th_store_def)

lemma mac_completed_ok:
  assumes ok: "queue_ok mac_vacant (mac_holds addr) h idle pending bufs ks" and p: "p \<in> set ks"
  shows "\<exists>h' k'. mac_completed addr st data p (h, k) = Ret (h', k') \<and> ts_inflight k' = ts_inflight k \<and>
    queue_ok mac_vacant (mac_holds addr) h' idle pending bufs (remove1 p ks)"
proof -
  from mac_transfers.complete_ok [where f = "mac_done addr st data", OF ok p mac_holds_done] obtain w h' where
    "complete_with (mac_done addr st data) p h = Ret (w, h')"
    "queue_ok mac_vacant (mac_holds addr) h' idle pending bufs (remove1 p ks)" by auto
  then show ?thesis by (simp add: mac_completed_eq)
qed

interpretation mac:
  scripted_endpoint "\<lambda>b. mt_put_buffer b (direction_from_address addr)"
    "\<lambda>d. Ret (mt_take_completion (direction_from_address addr) d)" "{AllocDefault}"
    "direction_from_address addr" mac_vacant "mac_holds addr" "mac_platform addr" "mac_good addr pipe"
proof (unfold_locales, goal_cases)
  case (1 ep ep')
  then show ?case by (rule mac_good_same)
next
  case (2 ep)
  then show ?case by (simp add: mac_good_def)
next
  case (3 ep)
  then show ?case by (simp add: mac_platform_def mac_good_def)
next
  case (4 ep h bufs k b)
  then show ?case by (simp add: mac_platform_def mac_submit_ok)
next
  case (5 ep h bufs ks b)
  then have "qe_address ep = addr" "mac_vacant mt_new" by (simp_all add: mac_good_def mac_vacant_def mt_new_def)
  with mac_transfers.submit_err_ok [where fail = "\<lambda>d. d\<lparr>mt_status := kIOReturnBadArgument\<rparr>",
      OF 5(2) this(2) 5(3) mac_holds_status] show ?case
    by (simp add: mac_platform_def mac_endpoint_submit_err_def)
next
  case (6 h idle pending bufs ks p st data k)
  then show ?case using mac_completed_ok [OF 6(1,2)] by (simp add: mac_platform_def)
next
  case (7 ep k)
  then show ?case by (simp add: mac_platform_def mac_cancel_all_def)
qed

text \<open>An endpoint that has just been opened, on a system with the given script.\<close>

definition mac_open ::
  "u8 \<Rightarrow> u8 \<Rightarrow> nat \<Rightarrow> nat list \<Rightarrow> nat option list \<Rightarrow> (nat \<times> nat \<times> bytes) list \<Rightarrow>
   (MacTransferData, unit MacEndpoint_ext) qsys"
where
  "mac_open addr pipe mps sched submits events =
     \<lparr>qs_ep = \<lparr>qe_address = addr, qe_notify = 0, qe_max_packet_size = mps, qe_pending = [],
               qe_idle_transfer = None, mep_pipe_ref = pipe\<rparr>,
      qs_heap = \<lparr>th_mem = (\<lambda>p. None), th_next = 0, th_notify = (\<lambda>n. NotifyNone)\<rparr>,
      qs_kern = \<lparr>ts_inflight = [], ts_aborts = [], ts_submits = submits, ts_events = events\<rparr>,
      qs_sched = sched, qs_bufs = [], qs_past = []\<rparr>"

lemma mac_open_good: "0 < mps \<Longrightarrow> mac.qs_good addr pipe (mac_open addr pipe mps sched submits events)"
  by (simp add: mac.qs_good_def mac_open_def mac_good_def qe_ok_def queue_ok_def own_ok_empty pending_hold_def)

lemma mac_open_empty [simp]:
  "qs_bufs (mac_open addr pipe mps sched submits events) = []"
  "qs_past (mac_open addr pipe mps sched submits events) = []"
  by (simp_all add: mac_open_def)

text \<open>The system after a request to abort the pipe.\<close>

definition mac_aborted :: "u8 \<Rightarrow> tx_script \<Rightarrow> tx_script" where
  "mac_aborted pipe k = k\<lparr>ts_aborts := unat pipe # ts_aborts k\<rparr>"

text \<open>
  C13. A macOS endpoint is a FIFO queue of buffers. Open an endpoint and let the caller submit
  well-formed buffers, wait, poll and cancel in any order, on any system that refuses submissions and
  completes transfers as it likes, with \<open>transfer_callback\<close> on the event thread: nothing panics and no
  freed block or uninitialised byte is touched; the completions are those of the oldest buffers, one
  for each, in the order of submission (also those of refused submissions, which are completed in
  place); each carries a well-formed buffer with the capacity it was submitted with, on an IN endpoint
  with the same requested length and exactly the received bytes, on an OUT endpoint with the bytes that
  were sent; what is not returned yet is what \<open>pending\<close> counts; and dropping the endpoint aborts the
  pipe and gives up all of it without touching a transfer the system still has.
\<close>

theorem mac_endpoint_fifo:
  assumes "list_all buffer_ok (op_buffers ops)" "0 < mps"
  shows "\<exists>cs e h. backend_run (mac_backend addr) ops (mac_open addr pipe mps sched submits events) = Ret (cs, e) \<and>
    length cs \<le> length (op_buffers ops) \<and>
    list_all2 (returned_for {AllocDefault} (direction_from_address addr))
      (take (length cs) (op_buffers ops)) cs \<and>
    queue_endpoint_pending (qs_ep e) = length (op_buffers ops) - length cs \<and>
    mac_cancel_all mac_script (qs_ep e) (qs_kern e) = mac_aborted pipe (qs_kern e) \<and>
    mac_endpoint_drop mac_script (qs_ep e) (qs_heap e, qs_kern e) =
      Ret (h, if length cs < length (op_buffers ops) then mac_aborted pipe (qs_kern e) else qs_kern e) \<and>
    own_ok h [] [] (ts_inflight (qs_kern e))"
proof -
  let ?e0 = "mac_open addr pipe mps sched submits events"
  from mac.backend.run_fifo [OF mac_open_good [OF assms(2)] assms(1)] obtain cs e where
    r: "backend_run (mac_backend addr) ops ?e0 = Ret (cs, e)" "mac.qs_good addr pipe e"
      "length cs \<le> length (op_buffers ops)" "qs_bufs e = drop (length cs) (op_buffers ops)"
      "list_all2 (returned_for {AllocDefault} (direction_from_address addr)) (take (length cs) (op_buffers ops)) cs"
    unfolding mac_backend_def mac_open_empty append_Nil by blast
  have pending: "queue_endpoint_pending (qs_ep e) = length (op_buffers ops) - length cs"
    using mac.backend.pending_eq [OF r(2)] r(4) by simp
  then have empty: "qe_pending (qs_ep e) \<noteq> [] \<longleftrightarrow> length cs < length (op_buffers ops)"
    unfolding queue_endpoint_pending_def length_0_conv [symmetric] using r(3) by linarith
  have cancel: "mac_cancel_all mac_script (qs_ep e) (qs_kern e) = mac_aborted pipe (qs_kern e)"
    using r(2) by (simp add: mac.qs_good_def mac_good_def mac_cancel_all_def mac_aborted_def)
  from mac_transfers.endpoint_drop_ok [OF conjunct2 [OF r(2) [unfolded mac.qs_good_def]],
      of "mac_cancel_all mac_script" "qs_kern e"]
  have "\<exists>h. mac_endpoint_drop mac_script (qs_ep e) (qs_heap e, qs_kern e) =
        Ret (h, if length cs < length (op_buffers ops) then mac_aborted pipe (qs_kern e) else qs_kern e) \<and>
      own_ok h [] [] (ts_inflight (qs_kern e))"
    unfolding mac_endpoint_drop_def empty cancel .
  with r pending cancel show ?thesis by blast
qed

theorem mac_endpoint_fifo_witness:
  "let b = \<lparr>buf_mem = map Some [7, 8, 9], buf_len = 3, buf_requested_len = 3, buf_capacity = 3,
            buf_allocator = AllocDefault\<rparr>;
       ops = [OpSubmit b, OpSubmit b, OpWait (duration_from_secs 5), OpPoll 0, OpCancelAll];
       e0 = mac_open 0x02 1 8 [1, 1] [Some 7, None] [(0, 0, [1, 2])]
   in (\<exists>cs e h. backend_run (mac_backend 0x02) ops e0 = Ret (cs, e) \<and>
        length cs \<le> 2 \<and> list_all2 (returned_for {AllocDefault} Out) (take (length cs) [b, b]) cs \<and>
        queue_endpoint_pending (qs_ep e) = 2 - length cs \<and>
        mac_cancel_all mac_script (qs_ep e) (qs_kern e) = mac_aborted 1 (qs_kern e) \<and>
        mac_endpoint_drop mac_script (qs_ep e) (qs_heap e, qs_kern e) =
          Ret (h, if length cs < 2 then mac_aborted 1 (qs_kern e) else qs_kern e) \<and>
        own_ok h [] [] (ts_inflight (qs_kern e))) \<and>
      omap (\<lambda>(cs, e). map (\<lambda>c. (buffer_bytes (cmp_buffer c), cmp_actual_len c, cmp_status c)) cs)
        (backend_run (mac_backend 0x02) ops e0) = Ret [([7, 8, 9], 0, Inl (UnknownError 7)), ([7, 8, 9], 2, Inr ())]"
proof -
  let ?b = "\<lparr>buf_mem = map Some [7, 8, 9], buf_len = 3, buf_requested_len = 3, buf_capacity = 3,
            buf_allocator = AllocDefault\<rparr>"
  let ?ops = "[OpSubmit ?b, OpSubmit ?b, OpWait (duration_from_secs 5), OpPoll 0, OpCancelAll]"
  let ?e0 = "mac_open 0x02 1 8 [1, 1] [Some 7, None] [(0, 0, [1, 2])]"
  have ok: "list_all buffer_ok (op_buffers ?ops)" by code_simp
  have dir: "direction_from_address 0x02 = Out" by code_simp
  have run: "omap (\<lambda>(cs, e). map (\<lambda>c. (buffer_bytes (cmp_buffer c), cmp_actual_len c, cmp_status c)) cs)
      (backend_run (mac_backend 0x02) ?ops ?e0) = Ret [([7, 8, 9], 0, Inl (UnknownError 7)), ([7, 8, 9], 2, Inr ())]"
    by code_simp
  have ob: "op_buffers ?ops = [?b, ?b]" and len: "length [?b, ?b] = 2" by simp_all
  have "(0::nat) < 8" by simp
  from mac_endpoint_fifo [OF ok this, where addr = "0x02" and pipe = 1 and submits = "[Some 7, None]" and
      sched = "[1, 1]" and events = "[(0, 0, [1, 2])]", unfolded ob len dir] run
  show ?thesis unfolding Let_def by (rule conjI)
qed

section \<open>Control requests\<close>

text \<open>The SETUP packet of a request: what the fields mean on the bus.\<close>

definition request_packet :: "IOUSBDevRequestTO \<Rightarrow> bytes" where
  "request_packet rq =
     rq_bmRequestType rq # rq_bRequest rq #
       u16_to_le_bytes (rq_wValue rq) @ u16_to_le_bytes (rq_wIndex rq) @ u16_to_le_bytes (rq_wLength rq)"

lemma u16_bytes_split: "u16_to_le_bytes w = [ucast (w AND 0xFF), ucast (drop_bit 8 w)]"
proof -
  have m: "w AND 0xFF = take_bit 8 w" by (simp add: take_bit_eq_mask mask_numeral)
  have "of_nat (unat w mod 256) = (ucast (w AND 0xFF) :: u8)"
    unfolding m
    by (rule bit_word_eqI) (auto simp: bit_simps take_bit_eq_mod [of 8, simplified, symmetric] bit_unsigned_iff)
  moreover have "of_nat (unat w div 256) = (ucast (drop_bit 8 w) :: u8)"
    by (rule bit_word_eqI) (auto simp: bit_simps drop_bit_eq_div [of 8, simplified, symmetric] bit_unsigned_iff)
  ultimately show ?thesis by (simp add: u16_to_le_bytes_def)
qed

lemma mac_request_packets:
  "request_packet (mac_control_request (control_in_request_type ci) (ci_request ci) (ci_value ci) (ci_index ci)
     (ci_length ci) data timeout) = control_in_setup_packet ci"
  "control_out_setup_packet co = Ret setup \<Longrightarrow>
     \<exists>len. try_u16 (length (co_data co)) = Some len \<and>
       request_packet (mac_control_request (control_out_request_type co) (co_request co) (co_value co)
         (co_index co) len data timeout) = setup"
  by (simp_all add: request_packet_def mac_control_request_def control_in_setup_packet_def pack_setup_def
      control_in_request_type_def control_out_request_type_def u16_bytes_split Let_def
      control_out_setup_packet_def)
    (cases "try_u16 (length (co_data co))", auto simp: u16_bytes_split)

end
