(* ===== verification/Mac_Hotplug.thy ===== *)
theory Mac_Hotplug
  imports Mac_Enumeration Mac_Events
begin

text \<open>
  src/src/platform/macos_iokit/hotplug.rs: a watch has one iterator of IOKit for arrivals and one for
  removals, to which the system appends; its callback wakes the task. The wakers of all watches are
  in a slab behind a mutex, so that a late callback finds no waker of a watch that is gone.
\<close>

section \<open>The slab of wakers\<close>

text \<open>
  \<open>slab::Slab\<close> maps keys to values. Which vacant key \<open>insert\<close> takes is a parameter; indexing and
  \<open>remove\<close> panic on a vacant one.
\<close>

type_synonym wakers = "nat \<rightharpoonup> nat option"

definition slab_waker_new :: "(wakers \<Rightarrow> nat) \<Rightarrow> wakers \<Rightarrow> nat \<times> wakers" where
  "slab_waker_new vacant_key ws = (let key = vacant_key ws in (key, ws(key \<mapsto> None)))"

definition slab_waker_register :: "nat \<Rightarrow> nat \<Rightarrow> wakers \<Rightarrow> wakers outcome" where
  "slab_waker_register key waker ws =
     (case ws key of None \<Rightarrow> Panic | Some _ \<Rightarrow> Ret (ws(key \<mapsto> Some waker)))"

definition slab_waker_drop :: "nat \<Rightarrow> wakers \<Rightarrow> wakers outcome" where
  "slab_waker_drop key ws = (case ws key of None \<Rightarrow> Panic | Some _ \<Rightarrow> Ret (ws(key := None)))"

text \<open>\<open>callback\<close>; the result is the waker to wake.\<close>

definition mac_hotplug_callback :: "nat \<Rightarrow> wakers \<Rightarrow> nat option \<times> wakers" where
  "mac_hotplug_callback key ws =
     (case ws key of
        None \<Rightarrow> (None, ws)
      | Some waker \<Rightarrow> (waker, ws(key \<mapsto> None)))"

section \<open>Watches\<close>

record MacHotplugWatch =
  mhw_waker_id :: nat
  mhw_terminated_iter :: "IoService list"
  mhw_matched_iter :: "IoService list"
  mhw_registration :: nat

text \<open>\<open>while let Some(_) = iter.next() {}\<close>\<close>

fun drain_iter :: "IoService list \<Rightarrow> IoService list" where
  "drain_iter [] = []"
| "drain_iter (s # iter) = drain_iter iter"

text \<open>The argument is what \<open>IOServiceAddMatchingNotification\<close> gives.\<close>

definition register_notification :: "IOReturn + IoService list \<Rightarrow> nusb_error + IoService list" where
  "register_notification r =
     (case r of
        Inl r \<Rightarrow> Inl (mac_error_new_os KOther ''failed to register notification'' r)
      | Inr iter \<Rightarrow> Inr (drain_iter iter))"

text \<open>
  \<open>dictionary\<close> is whether \<open>IOServiceMatching\<close> gives one, \<open>source\<close> the event source of the port. An
  error drops the waker.
\<close>

definition mac_hotplug_new ::
  "(wakers \<Rightarrow> nat) \<Rightarrow> bool \<Rightarrow> IOReturn + IoService list \<Rightarrow> IOReturn + IoService list \<Rightarrow> nat \<Rightarrow>
   wakers \<times> EventLoop \<Rightarrow> ((nusb_error + MacHotplugWatch) \<times> wakers \<times> EventLoop) outcome" where
  "mac_hotplug_new vacant_key dictionary terminated matched source s =
     (case slab_waker_new vacant_key (fst s) of
        (key, ws) \<Rightarrow>
          (case (if dictionary then register_notification terminated
                 else Inl (error_new KOther ''IOServiceMatching failed'')) of
             Inl e \<Rightarrow> omap (\<lambda>ws. (Inl e, ws, snd s)) (slab_waker_drop key ws)
           | Inr terminated_iter \<Rightarrow>
               (case register_notification matched of
                  Inl e \<Rightarrow> omap (\<lambda>ws. (Inl e, ws, snd s)) (slab_waker_drop key ws)
                | Inr matched_iter \<Rightarrow>
                    omap (\<lambda>(registration, el).
                      (Inr \<lparr>mhw_waker_id = key, mhw_terminated_iter = terminated_iter,
                            mhw_matched_iter = matched_iter, mhw_registration = registration\<rparr>, ws, el))
                      (add_event_source source (snd s)))))"

fun next_connected :: "IoService list \<Rightarrow> MacDeviceInfo option \<times> IoService list" where
  "next_connected [] = (None, [])"
| "next_connected (s # iter) =
     (case mac_probe_device s of Some dev \<Rightarrow> (Some dev, iter) | None \<Rightarrow> next_connected iter)"

definition mac_hotplug_poll_next ::
  "nat \<Rightarrow> MacHotplugWatch \<Rightarrow> wakers \<Rightarrow> ((MacDeviceInfo, u64) HotplugEvent option \<times> MacHotplugWatch \<times> wakers) outcome"
where
  "mac_hotplug_poll_next waker w ws =
     obind (slab_waker_register (mhw_waker_id w) waker ws) (\<lambda>ws.
       case next_connected (mhw_matched_iter w) of
         (Some dev, iter) \<Rightarrow> Ret (Some (ConnectedEvent dev), w\<lparr>mhw_matched_iter := iter\<rparr>, ws)
       | (None, iter) \<Rightarrow>
           (let w = w\<lparr>mhw_matched_iter := iter\<rparr>
            in case mhw_terminated_iter w of
                 [] \<Rightarrow> Ret (None, w, ws)
               | s # rest \<Rightarrow>
                   (let w = w\<lparr>mhw_terminated_iter := rest\<rparr>
                    in case io_registry_id s of
                         Some registry_id \<Rightarrow> Ret (Some (DisconnectedEvent registry_id), w, ws)
                       | None \<Rightarrow> Ret (None, w, ws))))"

text \<open>The fields of a watch are dropped in their order.\<close>

definition mac_hotplug_drop :: "MacHotplugWatch \<Rightarrow> wakers \<times> EventLoop \<Rightarrow> (wakers \<times> EventLoop) outcome" where
  "mac_hotplug_drop w s =
     obind (slab_waker_drop (mhw_waker_id w) (fst s)) (\<lambda>ws.
       omap (\<lambda>el. (ws, el)) (event_registration_drop (mhw_registration w) (snd s)))"

section \<open>Histories\<close>

datatype mac_hotplug_op = MatchedOp IoService | TerminatedOp IoService | MacPollOp nat

text \<open>What a step gives the caller and which task it wakes.\<close>

definition mac_hotplug_step ::
  "mac_hotplug_op \<Rightarrow> MacHotplugWatch \<times> wakers \<Rightarrow>
   ((MacDeviceInfo, u64) HotplugEvent option \<times> nat option \<times> MacHotplugWatch \<times> wakers) outcome" where
  "mac_hotplug_step op s =
     (case s of (w, ws) \<Rightarrow>
        (case op of
           MatchedOp d \<Rightarrow>
             (case mac_hotplug_callback (mhw_waker_id w) ws of
                (woken, ws) \<Rightarrow> Ret (None, woken, w\<lparr>mhw_matched_iter := mhw_matched_iter w @ [d]\<rparr>, ws))
         | TerminatedOp d \<Rightarrow>
             (case mac_hotplug_callback (mhw_waker_id w) ws of
                (woken, ws) \<Rightarrow> Ret (None, woken, w\<lparr>mhw_terminated_iter := mhw_terminated_iter w @ [d]\<rparr>, ws))
         | MacPollOp waker \<Rightarrow>
             omap (\<lambda>(e, w, ws). (e, None, w, ws)) (mac_hotplug_poll_next waker w ws)))"

fun mac_hotplug_run ::
  "mac_hotplug_op list \<Rightarrow> MacHotplugWatch \<times> wakers \<Rightarrow>
   ((MacDeviceInfo, u64) HotplugEvent list \<times> MacHotplugWatch \<times> wakers) outcome" where
  "mac_hotplug_run [] s = Ret ([], s)"
| "mac_hotplug_run (op # ops) s =
     obind (mac_hotplug_step op s) (\<lambda>(e, woken, s).
     omap (\<lambda>(es, s). ((case e of None \<Rightarrow> es | Some e \<Rightarrow> e # es), s)) (mac_hotplug_run ops s))"

definition connects :: "('d, 'i) HotplugEvent list \<Rightarrow> 'd list" where
  "connects = List.map_filter (\<lambda>e. case e of ConnectedEvent d \<Rightarrow> Some d | DisconnectedEvent i \<Rightarrow> None)"

definition disconnects :: "('d, 'i) HotplugEvent list \<Rightarrow> 'i list" where
  "disconnects = List.map_filter (\<lambda>e. case e of ConnectedEvent d \<Rightarrow> None | DisconnectedEvent i \<Rightarrow> Some i)"

definition arrivals :: "mac_hotplug_op list \<Rightarrow> IoService list" where
  "arrivals = List.map_filter (\<lambda>op. case op of MatchedOp d \<Rightarrow> Some d | _ \<Rightarrow> None)"

definition removals :: "mac_hotplug_op list \<Rightarrow> IoService list" where
  "removals = List.map_filter (\<lambda>op. case op of TerminatedOp d \<Rightarrow> Some d | _ \<Rightarrow> None)"

lemmas event_filters = connects_def disconnects_def arrivals_def removals_def List.map_filter_simps

lemma next_connected_probes:
  "next_connected iter = (r, rest) \<Longrightarrow>
    List.map_filter mac_probe_device iter =
      (case r of None \<Rightarrow> [] | Some d \<Rightarrow> [d]) @ List.map_filter mac_probe_device rest \<and>
    (r = None \<longrightarrow> rest = [])"
  by (induction iter) (auto simp: List.map_filter_simps split: option.splits)

lemma drain_iter_empty [simp]: "drain_iter iter = []"
  by (induction iter) simp_all

lemma map_filter_snoc: "List.map_filter f (xs @ ys) = List.map_filter f xs @ List.map_filter f ys"
  by (induction xs) (auto simp: List.map_filter_simps split: option.split)

abbreviation opt_list :: "'a option \<Rightarrow> 'a list" where
  "opt_list x \<equiv> case x of None \<Rightarrow> [] | Some y \<Rightarrow> [y]"

lemma opt_cons: "(case e of None \<Rightarrow> es | Some x \<Rightarrow> x # es) = opt_list e @ es"
  by (cases e) simp_all

lemma connects_append: "connects (xs @ ys) = connects xs @ connects ys"
  by (simp add: connects_def map_filter_snoc)

lemma disconnects_append: "disconnects (xs @ ys) = disconnects xs @ disconnects ys"
  by (simp add: disconnects_def map_filter_snoc)

lemma mac_step_ops:
  "arrivals (op # ops) = arrivals [op] @ arrivals ops" "removals (op # ops) = removals [op] @ removals ops"
  by (simp_all add: event_filters split: option.split)

lemma mac_poll_step:
  assumes "mhw_waker_id w \<in> dom ws"
  shows "\<exists>e w'. mac_hotplug_poll_next waker w ws = Ret (e, w', ws(mhw_waker_id w \<mapsto> Some waker)) \<and>
    mhw_waker_id w' = mhw_waker_id w \<and> mhw_registration w' = mhw_registration w \<and>
    connects (opt_list e) @ List.map_filter mac_probe_device (mhw_matched_iter w') =
      List.map_filter mac_probe_device (mhw_matched_iter w) \<and>
    disconnects (opt_list e) @ List.map_filter io_registry_id (mhw_terminated_iter w') =
      List.map_filter io_registry_id (mhw_terminated_iter w)"
proof -
  from assms obtain x where x: "ws (mhw_waker_id w) = Some x" by blast
  obtain r rest where n: "next_connected (mhw_matched_iter w) = (r, rest)" by fastforce
  from x n next_connected_probes [OF n] show ?thesis
    by (cases r; cases "mhw_terminated_iter w")
      (auto simp: mac_hotplug_poll_next_def slab_waker_register_def event_filters split: option.split)
qed

lemma mac_hotplug_step_ok:
  assumes "mhw_waker_id w \<in> dom ws"
  shows "\<exists>e woken w' x. mac_hotplug_step op (w, ws) = Ret (e, woken, w', ws(mhw_waker_id w \<mapsto> x)) \<and>
    mhw_waker_id w' = mhw_waker_id w \<and> mhw_registration w' = mhw_registration w \<and>
    connects (opt_list e) @ List.map_filter mac_probe_device (mhw_matched_iter w') =
      List.map_filter mac_probe_device (mhw_matched_iter w @ arrivals [op]) \<and>
    disconnects (opt_list e) @ List.map_filter io_registry_id (mhw_terminated_iter w') =
      List.map_filter io_registry_id (mhw_terminated_iter w @ removals [op])"
proof (cases op)
  case (MacPollOp waker)
  from mac_poll_step [OF assms, of waker] obtain e w1 where
    "mac_hotplug_poll_next waker w ws = Ret (e, w1, ws(mhw_waker_id w \<mapsto> Some waker))"
    "mhw_waker_id w1 = mhw_waker_id w" "mhw_registration w1 = mhw_registration w"
    "connects (opt_list e) @ List.map_filter mac_probe_device (mhw_matched_iter w1) =
      List.map_filter mac_probe_device (mhw_matched_iter w)"
    "disconnects (opt_list e) @ List.map_filter io_registry_id (mhw_terminated_iter w1) =
      List.map_filter io_registry_id (mhw_terminated_iter w)" by blast
  moreover have "arrivals [op] = []" "removals [op] = []" using MacPollOp by (simp_all add: event_filters)
  ultimately show ?thesis using MacPollOp by (auto simp: mac_hotplug_step_def)
next
  case (MatchedOp d)
  with assms show ?thesis
    by (auto simp: mac_hotplug_step_def mac_hotplug_callback_def event_filters)
next
  case (TerminatedOp d)
  with assms show ?thesis
    by (auto simp: mac_hotplug_step_def mac_hotplug_callback_def event_filters)
qed

lemma mac_hotplug_run_ok:
  "mhw_waker_id w \<in> dom ws \<Longrightarrow>
    \<exists>es w' x. mac_hotplug_run ops (w, ws) = Ret (es, w', ws(mhw_waker_id w \<mapsto> x)) \<and>
      mhw_waker_id w' = mhw_waker_id w \<and> mhw_registration w' = mhw_registration w \<and>
      connects es @ List.map_filter mac_probe_device (mhw_matched_iter w') =
        List.map_filter mac_probe_device (mhw_matched_iter w @ arrivals ops) \<and>
      disconnects es @ List.map_filter io_registry_id (mhw_terminated_iter w') =
        List.map_filter io_registry_id (mhw_terminated_iter w @ removals ops)"
proof (induction ops arbitrary: w ws)
  case Nil
  then obtain x where "ws (mhw_waker_id w) = Some x" by blast
  then have "ws(mhw_waker_id w \<mapsto> x) = ws" by (simp add: fun_upd_idem)
  then show ?case by (intro exI [of _ "[]"] exI [of _ w] exI [of _ x]) (simp add: event_filters)
next
  case (Cons op ops)
  from mac_hotplug_step_ok [OF Cons.prems, of op] obtain e woken w1 x where
    s: "mac_hotplug_step op (w, ws) = Ret (e, woken, w1, ws(mhw_waker_id w \<mapsto> x))"
      "mhw_waker_id w1 = mhw_waker_id w" "mhw_registration w1 = mhw_registration w"
      "connects (opt_list e) @ List.map_filter mac_probe_device (mhw_matched_iter w1) =
        List.map_filter mac_probe_device (mhw_matched_iter w @ arrivals [op])"
      "disconnects (opt_list e) @ List.map_filter io_registry_id (mhw_terminated_iter w1) =
        List.map_filter io_registry_id (mhw_terminated_iter w @ removals [op])" by blast
  have "mhw_waker_id w1 \<in> dom (ws(mhw_waker_id w \<mapsto> x))" using s(2) by simp
  from Cons.IH [OF this, unfolded s(2) fun_upd_upd] obtain es w' y where
    r: "mac_hotplug_run ops (w1, ws(mhw_waker_id w \<mapsto> x)) = Ret (es, w', ws(mhw_waker_id w \<mapsto> y))"
      "mhw_waker_id w' = mhw_waker_id w" "mhw_registration w' = mhw_registration w1"
      "connects es @ List.map_filter mac_probe_device (mhw_matched_iter w') =
        List.map_filter mac_probe_device (mhw_matched_iter w1 @ arrivals ops)"
      "disconnects es @ List.map_filter io_registry_id (mhw_terminated_iter w') =
        List.map_filter io_registry_id (mhw_terminated_iter w1 @ removals ops)" by blast
  have "connects (opt_list e @ es) @ List.map_filter mac_probe_device (mhw_matched_iter w') =
      List.map_filter mac_probe_device (mhw_matched_iter w @ arrivals (op # ops))"
    using r(4) s(4) by (simp add: connects_append map_filter_snoc mac_step_ops(1) [of op ops])
  moreover have "disconnects (opt_list e @ es) @ List.map_filter io_registry_id (mhw_terminated_iter w') =
      List.map_filter io_registry_id (mhw_terminated_iter w @ removals (op # ops))"
    using r(5) s(5) by (simp add: disconnects_append map_filter_snoc mac_step_ops(2) [of op ops])
  moreover have "mac_hotplug_run (op # ops) (w, ws) = Ret (opt_list e @ es, w', ws(mhw_waker_id w \<mapsto> y))"
    using s(1) r(1) by (simp add: opt_cons [of es e] del: fun_upd_apply)
  moreover have "mhw_registration w' = mhw_registration w" using s(3) r(3) by simp
  ultimately show ?case using r(2) by blast
qed

section \<open>The stream\<close>

text \<open>
  C25. A macOS hotplug watch delivers what happens after its start, once. Watch for devices on a free
  slot of the slab, let devices arrive and go and poll in any interleaving: nothing panics; the
  connect events that were given and the arrivals still in the iterator are the arrivals in their
  order, without those that cannot be probed and without the devices that were there before; likewise
  the disconnect events are the removals in their order, by registry ID; no other watch's waker is
  touched; and dropping the watch frees its slot and its place in the event loop, so that a late
  callback wakes nothing.
\<close>

theorem mac_hotplug_streams:
  assumes "mac_hotplug_new vacant_key True (Inr gone) (Inr present) source (ws, el) = Ret (Inr w0, ws0, el0)"
    "vacant_key ws \<notin> dom ws" "loop_ok sources el" "source \<notin> set sources"
  shows "\<exists>es w ws' el'. mac_hotplug_run ops (w0, ws0) = Ret (es, w, ws') \<and>
    connects es @ List.map_filter mac_probe_device (mhw_matched_iter w) =
      List.map_filter mac_probe_device (arrivals ops) \<and>
    disconnects es @ List.map_filter io_registry_id (mhw_terminated_iter w) =
      List.map_filter io_registry_id (removals ops) \<and>
    mac_hotplug_drop w (ws', el0) = Ret (ws, el') \<and> loop_ok sources el' \<and>
    mac_hotplug_callback (mhw_waker_id w) ws = (None, ws)"
proof -
  from loop_ok_add [OF assms(3,4)] obtain el1 where
    el1: "add_event_source source el = Ret (source, el1)" "loop_ok (source # sources) el1" by blast
  let ?key = "vacant_key ws"
  let ?w0 = "\<lparr>mhw_waker_id = ?key, mhw_terminated_iter = [], mhw_matched_iter = [], mhw_registration = source\<rparr>"
  from assms(1) el1(1) have new: "w0 = ?w0" "ws0 = ws(?key \<mapsto> None)" "el0 = el1"
    by (auto simp: mac_hotplug_new_def slab_waker_new_def register_notification_def Let_def)
  have "mhw_waker_id ?w0 \<in> dom (ws(?key \<mapsto> None))" by simp
  from mac_hotplug_run_ok [OF this, of ops] obtain es w x where
    r: "mac_hotplug_run ops (?w0, ws(?key \<mapsto> None)) = Ret (es, w, ws(?key \<mapsto> x))" "mhw_waker_id w = ?key"
      "mhw_registration w = source"
      "connects es @ List.map_filter mac_probe_device (mhw_matched_iter w) =
        List.map_filter mac_probe_device (arrivals ops)"
      "disconnects es @ List.map_filter io_registry_id (mhw_terminated_iter w) =
        List.map_filter io_registry_id (removals ops)"
    by (auto simp del: fun_upd_apply)
  have "loop_ok ([] @ source # sources) el1" using el1(2) by simp
  from loop_ok_drop [OF this] obtain el2 where
    el2: "event_registration_drop source el1 = Ret el2" "loop_ok sources el2" by auto
  have free: "ws ?key = None" using assms(2) by blast
  then have "ws(?key := None) = ws" by (simp add: fun_upd_idem)
  then have "mac_hotplug_drop w (ws(?key \<mapsto> x), el1) = Ret (ws, el2)"
    using r(2,3) el2(1) by (simp add: mac_hotplug_drop_def slab_waker_drop_def)
  moreover have "mac_hotplug_callback (mhw_waker_id w) ws = (None, ws)"
    using r(2) free by (simp add: mac_hotplug_callback_def)
  ultimately show ?thesis using r(1,4,5) el2(2) unfolding new by blast
qed

text \<open>A service of which only the registry ID is known.\<close>

definition bare_service :: "u64 option \<Rightarrow> IoService" where
  "bare_service reg = IoService reg (\<lambda>k. None) (Inr [])"

theorem mac_hotplug_streams_witness:
  "\<exists>w ws'. mac_hotplug_run [MacPollOp 4, TerminatedOp (bare_service (Some 7)), MatchedOp (bare_service (Some 8)),
        TerminatedOp (bare_service (Some 9)), MacPollOp 4]
      (\<lparr>mhw_waker_id = 3, mhw_terminated_iter = [], mhw_matched_iter = [], mhw_registration = 5\<rparr>,
       [3 \<mapsto> None]) = Ret ([DisconnectedEvent 7], w, ws') \<and>
    List.map_filter io_registry_id (mhw_terminated_iter w) = [9]"
proof -
  let ?ops = "[MacPollOp 4, TerminatedOp (bare_service (Some 7)), MatchedOp (bare_service (Some 8)),
        TerminatedOp (bare_service (Some 9)), MacPollOp 4]"
  let ?w0 = "\<lparr>mhw_waker_id = 3, mhw_terminated_iter = [], mhw_matched_iter = [], mhw_registration = 5\<rparr>"
  let ?el = "\<lparr>el_runloop = Some [5], el_count = 1\<rparr>"
  have new: "mac_hotplug_new (\<lambda>ws. 3) True (Inr []) (Inr [bare_service None]) 5 (Map.empty, event_loop_init) =
      Ret (Inr ?w0, [3 \<mapsto> None], ?el)"
    by (simp add: mac_hotplug_new_def slab_waker_new_def register_notification_def add_event_source_def
        event_loop_init_def Let_def)
  have key: "(\<lambda>ws. 3 :: nat) (Map.empty :: wakers) \<notin> dom (Map.empty :: wakers)" by simp
  have source: "(5 :: nat) \<notin> set []" by simp
  from mac_hotplug_streams [OF new key loop_ok_init source, of ?ops] obtain es w ws' where
    r: "mac_hotplug_run ?ops (?w0, [3 \<mapsto> None]) = Ret (es, w, ws')"
      "disconnects es @ List.map_filter io_registry_id (mhw_terminated_iter w) = [7, 9]"
    by (auto simp: removals_def List.map_filter_simps bare_service_def)
  have "\<exists>w ws'. mac_hotplug_run ?ops (?w0, [3 \<mapsto> None]) = Ret ([DisconnectedEvent 7], w, ws')"
    by (simp add: mac_hotplug_step_def mac_hotplug_callback_def mac_hotplug_poll_next_def
        slab_waker_register_def mac_probe_device_def int_property_def get_integer_property_def bare_service_def
        Let_def)
  with r(1) have "es = [DisconnectedEvent 7]" by auto
  with r show ?thesis by (auto simp: disconnects_def List.map_filter_simps)
qed

text \<open>
  When a poll of the macOS stream is not ready, no arrival is left and the task is registered, so
  the callback of the next arrival or removal wakes it. But a removal whose registry ID cannot be read
  ends the poll as not ready while more removals can be in the iterator.
\<close>

theorem mac_hotplug_pending:
  "mhw_waker_id w \<in> dom ws \<Longrightarrow>
    case mac_hotplug_poll_next waker w ws of
      Ret (None, w', ws') \<Rightarrow>
        mhw_matched_iter w' = [] \<and> mhw_terminated_iter w' = tl (mhw_terminated_iter w) \<and>
        fst (mac_hotplug_callback (mhw_waker_id w) ws') = Some waker \<and>
        (mhw_terminated_iter w = [] \<or> io_registry_id (hd (mhw_terminated_iter w)) = None)
    | Ret (Some (ConnectedEvent d), w', ws') \<Rightarrow> d = hd (List.map_filter mac_probe_device (mhw_matched_iter w))
    | Ret (Some (DisconnectedEvent i), w', ws') \<Rightarrow>
        List.map_filter mac_probe_device (mhw_matched_iter w) = [] \<and>
        io_registry_id (hd (mhw_terminated_iter w)) = Some i
    | _ \<Rightarrow> False"
proof -
  assume "mhw_waker_id w \<in> dom ws"
  then obtain x where x: "ws (mhw_waker_id w) = Some x" by blast
  obtain r rest where n: "next_connected (mhw_matched_iter w) = (r, rest)" by fastforce
  from x n next_connected_probes [OF n] show ?thesis
    by (cases r; cases "mhw_terminated_iter w")
      (auto simp: mac_hotplug_poll_next_def slab_waker_register_def mac_hotplug_callback_def Let_def split: option.split)
qed

theorem mac_hotplug_pending_witness:
  "let w = \<lparr>mhw_waker_id = 3, mhw_terminated_iter = [bare_service None, bare_service (Some 9)],
            mhw_matched_iter = [], mhw_registration = 5\<rparr>
   in \<exists>w' ws'. mac_hotplug_poll_next 4 w [3 \<mapsto> None] = Ret (None, w', ws') \<and>
        mhw_terminated_iter w' = [bare_service (Some 9)] \<and>
        fst (mac_hotplug_callback 3 ws') = Some 4"
proof -
  let ?w = "\<lparr>mhw_waker_id = 3, mhw_terminated_iter = [bare_service None, bare_service (Some 9)],
            mhw_matched_iter = [], mhw_registration = 5\<rparr>"
  have key: "mhw_waker_id ?w \<in> dom [3 \<mapsto> None]" by simp
  have poll: "\<exists>w' ws'. mac_hotplug_poll_next 4 ?w [3 \<mapsto> None] = Ret (None, w', ws')"
    by (simp add: mac_hotplug_poll_next_def slab_waker_register_def bare_service_def Let_def)
  from mac_hotplug_pending [OF key, of 4] poll show ?thesis unfolding Let_def by fastforce
qed

end
