(* ===== verification/Web_System.thy ===== *)
theory Web_System
  imports Enumeration Control Errors
begin

unbundle bit_operations_syntax

text \<open>
  What the WebUSB backend takes from the browser: errors, results of transfers, device objects and
  their IDs (src/src/platform/webusb/mod.rs) and how a device object becomes a \<open>DeviceInfo\<close>
  (enumeration.rs). The browser itself is a parameter.
\<close>

section \<open>Errors and results\<close>

text \<open>
  A value that is thrown: the error it is, or \<open>None\<close> for one that is no \<open>js_sys::Error\<close>. A name or a
  message that is not a string is \<open>None\<close>.
\<close>

record js_error =
  je_name :: "string option"
  je_message :: "string option"

type_synonym js_value = "js_error option"

definition js_error_of :: "js_value \<Rightarrow> js_error" where
  "js_error_of v =
     (case v of
        Some e \<Rightarrow> e
      | None \<Rightarrow> \<lparr>je_name = Some ''Error'', je_message = Some ''error could not be constructed''\<rparr>)"

text \<open>The message is only logged.\<close>

definition js_value_to_error :: "js_value \<Rightarrow> nusb_error" where
  "js_value_to_error v = error_new KOther ''WebUSB error (see logs)''"

definition js_value_to_transfer_error :: "js_value \<Rightarrow> TransferError" where
  "js_value_to_transfer_error v =
     (if je_name (js_error_of v) = Some ''NetworkError'' then Disconnected else Fault)"

text \<open>The statuses of WebUSB; the Rust type has more values, of which none is given by a browser.\<close>

datatype UsbTransferStatus = WebOk | WebStall | WebBabble | WebOther

fun webusb_status_to_nusb_transfer_error :: "UsbTransferStatus \<Rightarrow> TransferError + unit" where
  "webusb_status_to_nusb_transfer_error WebOk = Inr ()"
| "webusb_status_to_nusb_transfer_error WebStall = Inl Stall"
| "webusb_status_to_nusb_transfer_error WebBabble = Inl Fault"
| "webusb_status_to_nusb_transfer_error WebOther = Inl (UnknownError 0)"

text \<open>A view of a part of an array buffer.\<close>

record DataView =
  dv_buffer :: bytes
  dv_byte_offset :: nat
  dv_byte_length :: nat

text \<open>The object that a transfer resolves to; only an IN transfer has data, only an OUT transfer a count.\<close>

record UsbTransferResult =
  ur_status :: UsbTransferStatus
  ur_data :: "DataView option"
  ur_bytes_written :: u32

text \<open>\<open>Uint8Array::new(&data.buffer()).to_vec()\<close> is the whole buffer, not the part that is viewed.\<close>

definition data_bytes :: "DataView \<Rightarrow> bytes" where
  "data_bytes data = dv_buffer data"

section \<open>Device objects\<close>

record UsbAlternateInterface =
  ua_interface_class :: u8
  ua_interface_subclass :: u8
  ua_interface_protocol :: u8
  ua_interface_name :: "string option"

record UsbInterface =
  uf_interface_number :: u8
  uf_alternates :: "UsbAlternateInterface list"
  uf_claimed :: bool

record UsbConfiguration =
  uc_configuration_value :: u8
  uc_interfaces :: "UsbInterface list"

text \<open>\<open>ud_object\<close> is the identity of the object.\<close>

record UsbDevice =
  ud_object :: nat
  ud_vendor_id :: u16
  ud_product_id :: u16
  ud_device_version :: "u8 \<times> u8 \<times> u8"
  ud_usb_version :: "u8 \<times> u8 \<times> u8"
  ud_device_class :: u8
  ud_device_subclass :: u8
  ud_device_protocol :: u8
  ud_manufacturer_name :: "string option"
  ud_product_name :: "string option"
  ud_serial_number :: "string option"
  ud_configuration :: "UsbConfiguration option"
  ud_configurations :: nat

record WebDeviceInfo =
  wdi_vendor_id :: u16
  wdi_product_id :: u16
  wdi_device_version :: u16
  wdi_usb_version :: u16
  wdi_class :: u8
  wdi_subclass :: u8
  wdi_protocol :: u8
  wdi_manufacturer_string :: "string option"
  wdi_product_string :: "string option"
  wdi_serial_number :: "string option"
  wdi_interfaces :: "InterfaceInfo list"
  wdi_device :: UsbDevice

text \<open>Major, minor and subminor version.\<close>

definition bcd_version :: "u8 \<times> u8 \<times> u8 \<Rightarrow> u16" where
  "bcd_version v =
     (case v of (major, minor, sub) \<Rightarrow> push_bit 8 (ucast major) OR push_bit 4 (ucast minor) OR ucast sub)"

definition web_interface_info :: "UsbInterface \<Rightarrow> InterfaceInfo option" where
  "web_interface_info i =
     (case uf_alternates i of
        [] \<Rightarrow> None
      | alt # alts \<Rightarrow>
          Some \<lparr>ii_interface_number = uf_interface_number i, ii_class = ua_interface_class alt,
                ii_subclass = ua_interface_subclass alt, ii_protocol = ua_interface_protocol alt,
                ii_interface_string = ua_interface_name alt\<rparr>)"

definition device_to_info :: "UsbDevice \<Rightarrow> WebDeviceInfo" where
  "device_to_info device =
     \<lparr>wdi_vendor_id = ud_vendor_id device, wdi_product_id = ud_product_id device,
      wdi_device_version = bcd_version (ud_device_version device),
      wdi_usb_version = bcd_version (ud_usb_version device), wdi_class = ud_device_class device,
      wdi_subclass = ud_device_subclass device, wdi_protocol = ud_device_protocol device,
      wdi_manufacturer_string = ud_manufacturer_name device, wdi_product_string = ud_product_name device,
      wdi_serial_number = ud_serial_number device,
      wdi_interfaces =
        (case ud_configuration device of
           Some config \<Rightarrow> List.map_filter web_interface_info (uc_interfaces config)
         | None \<Rightarrow> []),
      wdi_device = device\<rparr>"

text \<open>
  \<open>usb\<close>: the global object is a window, a worker or neither, and may have no USB object.
  \<open>get_devices\<close> is what its \<open>getDevices\<close> resolves to.
\<close>

datatype js_global = Window bool | WorkerGlobalScope bool | OtherGlobal

definition web_usb :: "js_global \<Rightarrow> nusb_error + unit" where
  "web_usb global =
     (case (case global of Window usb \<Rightarrow> Some usb | WorkerGlobalScope usb \<Rightarrow> Some usb | OtherGlobal \<Rightarrow> None) of
        None \<Rightarrow> Inl (error_new KUnsupported ''Could not obtain Window or WorkerGlobalScope'')
      | Some usb \<Rightarrow> if usb then Inr () else Inl (error_new KUnsupported ''WebUSB is not available''))"

definition web_list_devices :: "js_global \<Rightarrow> js_value + UsbDevice list \<Rightarrow> nusb_error + WebDeviceInfo list" where
  "web_list_devices global get_devices =
     (case web_usb global of
        Inl e \<Rightarrow> Inl e
      | Inr _ \<Rightarrow> map_sum js_value_to_error (map device_to_info) get_devices)"

section \<open>Device IDs\<close>

text \<open>
  The property \<open>nusbUniqueId\<close> of each device object, and the counter. A number of JavaScript is exact
  up to \<open>2 ^ 53\<close> and a \<open>usize\<close> here has 32 bits, so numbers are kept as they are. \<open>settable\<close> is
  whether the property can be set.
\<close>

record web_ids =
  wid_property :: "nat \<rightharpoonup> nat"
  wid_increment :: nat

definition device_id_from_device :: "(nat \<Rightarrow> bool) \<Rightarrow> UsbDevice \<Rightarrow> web_ids \<Rightarrow> (nat \<times> web_ids) outcome" where
  "device_id_from_device settable device s =
     (case wid_property s (ud_object device) of
        Some device_id \<Rightarrow> Ret (device_id, s)
      | None \<Rightarrow>
          let lock = wid_increment s + 1 in
          rassert (lock < 2 ^ 32)
            (rassert (settable (ud_object device))
               (Ret (lock, s\<lparr>wid_property := (wid_property s)(ud_object device \<mapsto> lock),
                             wid_increment := lock\<rparr>))))"

text \<open>The IDs of a list of devices.\<close>

fun device_ids :: "(nat \<Rightarrow> bool) \<Rightarrow> UsbDevice list \<Rightarrow> web_ids \<Rightarrow> (nat list \<times> web_ids) outcome" where
  "device_ids settable [] s = Ret ([], s)"
| "device_ids settable (d # ds) s =
     obind (device_id_from_device settable d s) (\<lambda>(i, s).
     omap (\<lambda>(is, s). (i # is, s)) (device_ids settable ds s))"

definition web_ids_init :: web_ids where
  "web_ids_init = \<lparr>wid_property = Map.empty, wid_increment = 0\<rparr>"

definition ids_ok :: "web_ids \<Rightarrow> bool" where
  "ids_ok s \<longleftrightarrow> inj_on (wid_property s) (dom (wid_property s)) \<and>
     (\<forall>i \<in> ran (wid_property s). i \<le> wid_increment s)"

lemma device_id_step:
  assumes "ids_ok s" "wid_increment s + 1 < 2 ^ 32" "settable (ud_object d)"
  shows "\<exists>i s'. device_id_from_device settable d s = Ret (i, s') \<and> ids_ok s' \<and>
    wid_property s' (ud_object d) = Some i \<and> wid_property s \<subseteq>\<^sub>m wid_property s' \<and>
    wid_increment s' \<le> wid_increment s + 1"
proof (cases "wid_property s (ud_object d)")
  case (Some i)
  with assms(1) show ?thesis by (simp add: device_id_from_device_def map_le_def)
next
  case None
  let ?n = "wid_increment s + 1"
  let ?s = "s\<lparr>wid_property := (wid_property s)(ud_object d \<mapsto> ?n), wid_increment := ?n\<rparr>"
  have new: "Some ?n \<notin> wid_property s ` dom (wid_property s)"
    using assms(1) by (fastforce simp: ids_ok_def ran_def)
  then have "Some ?n \<notin> wid_property s ` (dom (wid_property s) - {ud_object d})" by blast
  then have "inj_on (wid_property ?s) (dom (wid_property ?s))"
    using assms(1) new None by (simp add: ids_ok_def inj_on_fun_updI)
  moreover have "\<forall>i \<in> ran (wid_property ?s). i \<le> wid_increment ?s"
    using assms(1) None by (auto simp: ids_ok_def)
  ultimately have "ids_ok ?s" by (simp add: ids_ok_def)
  moreover have "wid_property s \<subseteq>\<^sub>m wid_property ?s" using None by (auto simp: map_le_def)
  ultimately show ?thesis using None assms(2,3) by (simp add: device_id_from_device_def Let_def)
qed

lemma device_ids_ok:
  assumes "ids_ok s" "wid_increment s + length ds < 2 ^ 32" "\<forall>d \<in> set ds. settable (ud_object d)"
  shows "\<exists>is s'. device_ids settable ds s = Ret (is, s') \<and> ids_ok s' \<and> wid_property s \<subseteq>\<^sub>m wid_property s' \<and>
    map Some is = map (wid_property s' \<circ> ud_object) ds"
  using assms
proof (induction ds arbitrary: s)
  case Nil
  then show ?case by simp
next
  case (Cons d ds)
  from device_id_step [of s settable d] Cons.prems obtain i s1 where
    s1: "device_id_from_device settable d s = Ret (i, s1)" "ids_ok s1" "wid_property s1 (ud_object d) = Some i"
      "wid_property s \<subseteq>\<^sub>m wid_property s1" "wid_increment s1 \<le> wid_increment s + 1" by auto
  from Cons.IH [OF s1(2)] Cons.prems s1(5) obtain "is" s2 where
    s2: "device_ids settable ds s1 = Ret (is, s2)" "ids_ok s2" "wid_property s1 \<subseteq>\<^sub>m wid_property s2"
      "map Some is = map (wid_property s2 \<circ> ud_object) ds" by auto
  have "wid_property s2 (ud_object d) = Some i" using s2(3) s1(3) by (metis domI map_le_def)
  with s1(1,4) s2 map_le_trans [OF s1(4) s2(3)] show ?case by simp
qed

text \<open>
  Device IDs on WebUSB identify devices: while the page has fewer than \<open>2 ^ 32\<close> of them, asking for
  the IDs of any sequence of device objects does not panic, and two of them get the same ID exactly
  when they are the same object.
\<close>

theorem web_device_ids_identify:
  assumes "length ds < 2 ^ 32"
  shows "\<exists>is s. device_ids (\<lambda>_. True) ds web_ids_init = Ret (is, s) \<and> length is = length ds \<and>
    (\<forall>i j. i < length ds \<and> j < length ds \<longrightarrow>
      (is ! i = is ! j \<longleftrightarrow> ud_object (ds ! i) = ud_object (ds ! j)))"
proof -
  have "ids_ok web_ids_init" by (simp add: ids_ok_def web_ids_init_def)
  from device_ids_ok [OF this, of ds "\<lambda>_. True"] assms obtain "is" s where
    r: "device_ids (\<lambda>_. True) ds web_ids_init = Ret (is, s)" "ids_ok s"
      "map Some is = map (wid_property s \<circ> ud_object) ds" by (auto simp: web_ids_init_def)
  from r(3) have len: "length is = length ds" by (metis length_map)
  have nth: "wid_property s (ud_object (ds ! i)) = Some (is ! i)" if "i < length ds" for i
    using that len arg_cong [OF r(3), of "\<lambda>xs. xs ! i"] by simp
  have "is ! i = is ! j \<longleftrightarrow> ud_object (ds ! i) = ud_object (ds ! j)" if "i < length ds" "j < length ds" for i j
  proof
    assume "is ! i = is ! j"
    with nth that have "wid_property s (ud_object (ds ! i)) = wid_property s (ud_object (ds ! j))" by simp
    moreover have "ud_object (ds ! i) \<in> dom (wid_property s)" "ud_object (ds ! j) \<in> dom (wid_property s)"
      using nth that by auto
    ultimately show "ud_object (ds ! i) = ud_object (ds ! j)" using r(2) by (auto simp: ids_ok_def inj_on_def)
  next
    assume "ud_object (ds ! i) = ud_object (ds ! j)"
    with nth [OF that(1)] nth [OF that(2)] show "is ! i = is ! j" by simp
  qed
  with r(1) len show ?thesis by blast
qed

text \<open>A device object of which little is known.\<close>

definition bare_device :: "nat \<Rightarrow> UsbDevice" where
  "bare_device object =
     \<lparr>ud_object = object, ud_vendor_id = 0x1209, ud_product_id = 1, ud_device_version = (1, 0, 0),
      ud_usb_version = (2, 1, 0), ud_device_class = 0, ud_device_subclass = 0, ud_device_protocol = 0,
      ud_manufacturer_name = None, ud_product_name = None, ud_serial_number = None,
      ud_configuration = None, ud_configurations = 1\<rparr>"

theorem web_device_ids_identify_witness:
  "\<exists>s. device_ids (\<lambda>_. True) [bare_device 7, bare_device 4, bare_device 7] web_ids_init = Ret ([1, 2, 1], s)"
proof -
  let ?ds = "[bare_device 7, bare_device 4, bare_device 7]"
  have "length ?ds < 2 ^ 32" by simp
  from web_device_ids_identify [OF this] obtain "is" s where
    r: "device_ids (\<lambda>_. True) ?ds web_ids_init = Ret (is, s)" by blast
  have "omap fst (device_ids (\<lambda>_. True) ?ds web_ids_init) = Ret [1, 2, 1]"
    by (simp add: device_id_from_device_def web_ids_init_def bare_device_def Let_def)
  with r show ?thesis by simp
qed

end
