(* ===== verification/Web_Device.thy ===== *)
theory Web_Device
  imports Web_System Descriptors Bitset Buffer Backend
begin

unbundle bit_operations_syntax

text \<open>
  Devices, interfaces and endpoints of the WebUSB backend: src/src/platform/webusb/device.rs. An
  \<open>async\<close> block runs up to its next \<open>await\<close> at once; what other tasks do while it waits happens
  between the definitions \<open>_start\<close> and \<open>_finish\<close> where that matters.
\<close>

section \<open>The browser\<close>

datatype UsbRequestType = WebStandard | WebClass | WebVendor
datatype UsbRecipient = WebDevice | WebInterface | WebEndpoint | WebOtherRecipient

fun web_request_type :: "ControlType \<Rightarrow> UsbRequestType" where
  "web_request_type Standard = WebStandard"
| "web_request_type Class = WebClass"
| "web_request_type Vendor = WebVendor"

fun web_recipient :: "Recipient \<Rightarrow> UsbRecipient" where
  "web_recipient RecipientDevice = WebDevice"
| "web_recipient RecipientInterface = WebInterface"
| "web_recipient RecipientEndpoint = WebEndpoint"
| "web_recipient RecipientOther = WebOtherRecipient"

record UsbControlTransferParameters =
  us_index :: u16
  us_recipient :: UsbRecipient
  us_request :: u8
  us_request_type :: UsbRequestType
  us_value :: u16

datatype web_call =
    WebOpen
  | SelectConfiguration u8
  | WebReset
  | ClaimInterface u8
  | ReleaseInterface u8
  | SelectAlternateInterface u8 u8
  | ControlTransferIn UsbControlTransferParameters u16
  | ControlTransferOut UsbControlTransferParameters bytes
  | WebClearHalt Direction u8

text \<open>The device object as it is now, and a call whose promise is awaited at once.\<close>

record 'k browser =
  br_device :: "'k \<Rightarrow> UsbDevice"
  br_call :: "web_call \<Rightarrow> 'k \<Rightarrow> (js_value + UsbTransferResult) \<times> 'k"

definition web_await :: "'k browser \<Rightarrow> web_call \<Rightarrow> 'k \<Rightarrow> (nusb_error + unit) \<times> 'k" where
  "web_await B c k = (case br_call B c k of (r, k) \<Rightarrow> (map_sum js_value_to_error (\<lambda>_. ()) r, k))"

section \<open>Devices\<close>

record WebusbDevice =
  wud_device_descriptor :: bytes
  wud_config_descriptors :: "bytes list"

definition web_get_descriptor :: "'k browser \<Rightarrow> u8 \<Rightarrow> u8 \<Rightarrow> u16 \<Rightarrow> 'k \<Rightarrow> (nusb_error + bytes) \<times> 'k" where
  "web_get_descriptor B desc_type desc_index language_id k =
     (case br_call B (ControlTransferIn
         \<lparr>us_index = language_id, us_recipient = WebDevice, us_request = 0x6, us_request_type = WebStandard,
          us_value = push_bit 8 (ucast desc_type) OR ucast desc_index\<rparr> 4096) k of
        (Inl e, k) \<Rightarrow> (Inl (js_value_to_error e), k)
      | (Inr res, k) \<Rightarrow>
          (case ur_data res of
             None \<Rightarrow> (Inl (error_new KOther ''descriptor transfer returned no data''), k)
           | Some data \<Rightarrow> (Inr (data_bytes data), k)))"

fun extract_descriptors :: "'k browser \<Rightarrow> nat list \<Rightarrow> 'k \<Rightarrow> (nusb_error + bytes list) \<times> 'k" where
  "extract_descriptors B [] k = (Inr [], k)"
| "extract_descriptors B (i # is) k =
     (case web_get_descriptor B DESCRIPTOR_TYPE_CONFIGURATION (of_nat i) 0 k of
        (Inl e, k) \<Rightarrow> (Inl e, k)
      | (Inr data, k) \<Rightarrow>
          (case extract_descriptors B is k of
             (Inl e, k) \<Rightarrow> (Inl e, k)
           | (Inr ds, k) \<Rightarrow> (Inr (if config_new data \<noteq> None then data # ds else ds), k)))"

definition web_from_js :: "'k browser \<Rightarrow> 'k \<Rightarrow> (nusb_error + WebusbDevice) \<times> 'k" where
  "web_from_js B k =
     (case web_await B WebOpen k of
        (Inl e, k) \<Rightarrow> (Inl e, k)
      | (Inr _, k) \<Rightarrow>
          (case web_get_descriptor B DESCRIPTOR_TYPE_DEVICE 0 0 k of
             (Inl e, k) \<Rightarrow> (Inl e, k)
           | (Inr data, k) \<Rightarrow>
               (case device_descriptor_new data of
                  None \<Rightarrow> (Inl (error_new KOther ''invalid device descriptor''), k)
                | Some desc \<Rightarrow>
                    (case extract_descriptors B [0 ..< ud_configurations (br_device B k)] k of
                       (Inl e, k) \<Rightarrow> (Inl e, k)
                     | (Inr configs, k) \<Rightarrow>
                         (Inr \<lparr>wud_device_descriptor = desc, wud_config_descriptors = configs\<rparr>, k)))))"

definition web_configuration_descriptors :: "WebusbDevice \<Rightarrow> ConfigurationDescriptor list" where
  "web_configuration_descriptors d = map config_new_unchecked (wud_config_descriptors d)"

definition web_active_configuration_value :: "UsbDevice \<Rightarrow> u8" where
  "web_active_configuration_value device =
     (case ud_configuration device of None \<Rightarrow> 0 | Some c \<Rightarrow> uc_configuration_value c)"

definition web_set_configuration :: "'k browser \<Rightarrow> u8 \<Rightarrow> 'k \<Rightarrow> (nusb_error + unit) \<times> 'k" where
  "web_set_configuration B configuration k = web_await B (SelectConfiguration configuration) k"

definition web_reset :: "'k browser \<Rightarrow> 'k \<Rightarrow> (nusb_error + unit) \<times> 'k" where
  "web_reset B k = web_await B WebReset k"

text \<open>The timeouts of control transfers are ignored.\<close>

definition web_control_in :: "'k browser \<Rightarrow> ControlIn \<Rightarrow> 'k \<Rightarrow> (TransferError + bytes) \<times> 'k" where
  "web_control_in B control k =
     (case br_call B (ControlTransferIn
         \<lparr>us_index = ci_index control, us_recipient = web_recipient (ci_recipient control),
          us_request = ci_request control, us_request_type = web_request_type (ci_control_type control),
          us_value = ci_value control\<rparr> (ci_length control)) k of
        (Inl e, k) \<Rightarrow> (Inl (js_value_to_transfer_error e), k)
      | (Inr res, k) \<Rightarrow>
          (case webusb_status_to_nusb_transfer_error (ur_status res) of
             Inl e \<Rightarrow> (Inl e, k)
           | Inr _ \<Rightarrow>
               (case ur_data res of
                  None \<Rightarrow> (Inl (UnknownError 0), k)
                | Some data \<Rightarrow> (Inr (data_bytes data), k))))"

definition web_control_out :: "'k browser \<Rightarrow> ControlOut \<Rightarrow> 'k \<Rightarrow> (TransferError + unit) \<times> 'k" where
  "web_control_out B control k =
     (case br_call B (ControlTransferOut
         \<lparr>us_index = co_index control, us_recipient = web_recipient (co_recipient control),
          us_request = co_request control, us_request_type = web_request_type (co_control_type control),
          us_value = co_value control\<rparr> (co_data control)) k of
        (Inl e, k) \<Rightarrow> (Inl (js_value_to_transfer_error e), k)
      | (Inr res, k) \<Rightarrow> (webusb_status_to_nusb_transfer_error (ur_status res), k))"

section \<open>Interfaces\<close>

record WebusbInterface =
  wbi_interface_number :: u8
  wbi_alt_setting :: u8
  wbi_endpoints_used :: EndpointBitSet

definition web_claim_interface ::
  "'k browser \<Rightarrow> u8 \<Rightarrow> 'k \<Rightarrow> (nusb_error + WebusbInterface) \<times> 'k" where
  "web_claim_interface B num k =
     (case ud_configuration (br_device B k) of
        None \<Rightarrow> (Inl (error_new KNotFound ''no active configuration''), k)
      | Some configuration \<Rightarrow>
          (case find (\<lambda>i. uf_interface_number i = num) (uc_interfaces configuration) of
             None \<Rightarrow> (Inl (error_new KNotFound ''interface not found''), k)
           | Some i \<Rightarrow>
               (if uf_claimed i then (Inl (error_new KBusy ''interface already claimed''), k)
                else
                  (case web_await B (ClaimInterface num) k of
                     (Inl e, k) \<Rightarrow> (Inl e, k)
                   | (Inr _, k) \<Rightarrow>
                       (Inr \<lparr>wbi_interface_number = num, wbi_alt_setting = 0,
                             wbi_endpoints_used = endpoint_bitset_default\<rparr>, k)))))"

definition web_detach_and_claim_interface ::
  "'k browser \<Rightarrow> u8 \<Rightarrow> 'k \<Rightarrow> (nusb_error + WebusbInterface) \<times> 'k" where
  "web_detach_and_claim_interface B num k = web_claim_interface B num k"

text \<open>The promise of the release is not awaited.\<close>

definition web_interface_drop :: "'k browser \<Rightarrow> WebusbInterface \<Rightarrow> 'k \<Rightarrow> 'k" where
  "web_interface_drop B i k = snd (br_call B (ReleaseInterface (wbi_interface_number i)) k)"

text \<open>\<open>set_alt_setting\<close> up to its \<open>await\<close>, and after it; the lock is not held in between.\<close>

definition web_set_alt_start :: "u8 \<Rightarrow> WebusbInterface \<Rightarrow> nusb_error + web_call" where
  "web_set_alt_start alternate_setting i =
     (if \<not> endpoint_is_empty (wbi_endpoints_used i)
      then Inl (error_new KBusy ''must drop endpoints before changing alt setting'')
      else Inr (SelectAlternateInterface (wbi_interface_number i) alternate_setting))"

definition web_set_alt_finish ::
  "u8 \<Rightarrow> js_value + UsbTransferResult \<Rightarrow> WebusbInterface \<Rightarrow> (nusb_error + unit) \<times> WebusbInterface" where
  "web_set_alt_finish alternate_setting r i =
     (case r of
        Inl e \<Rightarrow> (Inl (js_value_to_error e), i)
      | Inr _ \<Rightarrow> (Inr (), i\<lparr>wbi_alt_setting := alternate_setting\<rparr>))"

text \<open>The whole of it when nothing else runs.\<close>

definition web_set_alt_setting ::
  "'k browser \<Rightarrow> u8 \<Rightarrow> WebusbInterface \<Rightarrow> 'k \<Rightarrow> (nusb_error + unit) \<times> WebusbInterface \<times> 'k" where
  "web_set_alt_setting B alternate_setting i k =
     (case web_set_alt_start alternate_setting i of
        Inl e \<Rightarrow> (Inl e, i, k)
      | Inr c \<Rightarrow>
          (case br_call B c k of
             (r, k) \<Rightarrow> (case web_set_alt_finish alternate_setting r i of (r, i) \<Rightarrow> (r, i, k))))"

definition web_get_alt_setting :: "WebusbInterface \<Rightarrow> u8" where
  "web_get_alt_setting i = wbi_alt_setting i"

section \<open>Endpoints\<close>

text \<open>An \<open>InFlight\<close> transfer has the number of its promise.\<close>

datatype WebPending = InFlight nat Buffer Direction | Failed Buffer TransferError

record WebusbEndpoint =
  we_address :: u8
  we_max_packet_size :: nat
  we_pending :: "WebPending list"

definition web_interface_endpoint ::
  "EndpointDescriptor \<Rightarrow> WebusbInterface \<Rightarrow> ((nusb_error + WebusbEndpoint) \<times> WebusbInterface) outcome" where
  "web_interface_endpoint descriptor i =
     obind (endpoint_address descriptor) (\<lambda>address.
     obind (endpoint_max_packet_size descriptor) (\<lambda>max_packet_size.
       Ret (if endpoint_is_set (wbi_endpoints_used i) address
            then (Inl (error_new KBusy ''endpoint already in use''), i)
            else
              (Inr \<lparr>we_address = address, we_max_packet_size = max_packet_size, we_pending = []\<rparr>,
               i\<lparr>wbi_endpoints_used := endpoint_set (wbi_endpoints_used i) address\<rparr>))))"

definition web_endpoint_inner_drop :: "u8 \<Rightarrow> WebusbInterface \<Rightarrow> WebusbInterface" where
  "web_endpoint_inner_drop address i =
     i\<lparr>wbi_endpoints_used := endpoint_clear (wbi_endpoints_used i) address\<rparr>"

definition web_endpoint_pending :: "WebusbEndpoint \<Rightarrow> nat" where
  "web_endpoint_pending ep = length (we_pending ep)"

definition web_submit_err :: "Buffer \<Rightarrow> TransferError \<Rightarrow> WebusbEndpoint \<Rightarrow> WebusbEndpoint" where
  "web_submit_err buffer err ep = ep\<lparr>we_pending := we_pending ep @ [Failed buffer err]\<rparr>"

text \<open>
  Transfers of the browser: \<open>transferOut\<close> throws or gives a promise, \<open>transferIn\<close> gives one; a promise
  is polled with a waker and may be settled.
\<close>

record 'k web_transfers =
  wt_transfer_out :: "u8 \<Rightarrow> bytes \<Rightarrow> 'k \<Rightarrow> (js_value + nat) \<times> 'k"
  wt_transfer_in :: "u8 \<Rightarrow> u32 \<Rightarrow> 'k \<Rightarrow> nat \<times> 'k"
  wt_poll :: "nat \<Rightarrow> nat \<Rightarrow> 'k \<Rightarrow> (js_value + UsbTransferResult) option \<times> 'k"

definition web_submit ::
  "'k web_transfers \<Rightarrow> Buffer \<Rightarrow> WebusbEndpoint \<Rightarrow> 'k \<Rightarrow> (WebusbEndpoint \<times> 'k) outcome" where
  "web_submit T buffer ep k =
     (let address = we_address ep;
          direction = direction_from_address address;
          endpoint_number = address AND 0x7F
      in case direction of
           Out \<Rightarrow>
             obind (buffer_deref buffer) (\<lambda>array.
               case wt_transfer_out T endpoint_number array k of
                 (Inr promise, k) \<Rightarrow>
                   Ret (ep\<lparr>we_pending := we_pending ep @ [InFlight promise buffer direction]\<rparr>, k)
               | (Inl e, k) \<Rightarrow> Ret (ep\<lparr>we_pending := we_pending ep @ [Failed buffer Fault]\<rparr>, k))
         | In \<Rightarrow>
             (case wt_transfer_in T endpoint_number (of_nat (buffer_requested_len buffer)) k of
                (promise, k) \<Rightarrow>
                  Ret (ep\<lparr>we_pending := we_pending ep @ [InFlight promise buffer direction]\<rparr>, k)))"

definition complete_transfer ::
  "Buffer \<Rightarrow> Direction \<Rightarrow> js_value + UsbTransferResult \<Rightarrow> Completion outcome" where
  "complete_transfer buffer direction result =
     (case result of
        Inl e \<Rightarrow>
          Ret \<lparr>cmp_buffer = buffer, cmp_actual_len = 0, cmp_status = Inl (js_value_to_transfer_error e)\<rparr>
      | Inr result \<Rightarrow>
          (let status = webusb_status_to_nusb_transfer_error (ur_status result)
           in case direction of
                Out \<Rightarrow>
                  Ret \<lparr>cmp_buffer = buffer, cmp_actual_len = unat (ur_bytes_written result), cmp_status = status\<rparr>
              | In \<Rightarrow>
                  (case ur_data result of
                     None \<Rightarrow> Ret \<lparr>cmp_buffer = buffer, cmp_actual_len = 0, cmp_status = status\<rparr>
                   | Some data \<Rightarrow>
                       (let received = data_bytes data
                        in rassert (length received \<le> unat (buf_capacity buffer))
                             (obind (raw_write (buf_mem buffer) 0 received) (\<lambda>mem.
                                Ret \<lparr>cmp_buffer = buffer\<lparr>buf_mem := mem, buf_len := of_nat (length received)\<rparr>,
                                     cmp_actual_len = length received, cmp_status = status\<rparr>))))))"

definition web_poll_next_complete ::
  "'k web_transfers \<Rightarrow> nat \<Rightarrow> WebusbEndpoint \<Rightarrow> 'k \<Rightarrow> (Completion option \<times> WebusbEndpoint \<times> 'k) outcome" where
  "web_poll_next_complete T waker ep k =
     (case we_pending ep of
        [] \<Rightarrow> Panic
      | Failed buffer error # rest \<Rightarrow>
          Ret (Some \<lparr>cmp_buffer = buffer, cmp_actual_len = 0, cmp_status = Inl error\<rparr>,
               ep\<lparr>we_pending := rest\<rparr>, k)
      | InFlight promise buffer direction # rest \<Rightarrow>
          (case wt_poll T promise waker k of
             (None, k) \<Rightarrow> Ret (None, ep, k)
           | (Some result, k) \<Rightarrow>
               omap (\<lambda>c. (Some c, ep\<lparr>we_pending := rest\<rparr>, k)) (complete_transfer buffer direction result)))"

definition web_clear_halt :: "'k browser \<Rightarrow> u8 \<Rightarrow> 'k \<Rightarrow> (nusb_error + unit) \<times> 'k" where
  "web_clear_halt B endpoint k =
     web_await B (WebClearHalt (direction_from_address endpoint) (endpoint AND 0x7f)) k"

end
