(* ===== verification/Web_Endpoint_Theorems.thy ===== *)
theory Web_Endpoint_Theorems
  imports Web_Device Endpoint Descriptor_Theorems
begin

text \<open>
  A WebUSB endpoint gives the buffers back in the order of submission, on any browser that settles its
  promises as it likes; and the interval of \<open>set_alt_setting\<close> in which other tasks run.
\<close>

section \<open>A browser that follows a script\<close>






definition ws_result :: "nat \<Rightarrow> UsbTransferStatus \<times> bytes option \<times> u32 \<Rightarrow> UsbTransferResult" where
  "ws_result n r =
     (case r of (status, data, written) \<Rightarrow>
        \<lparr>ur_status = status,
         ur_data = map_option
           (\<lambda>d. let d = take n d in \<lparr>dv_buffer = d, dv_byte_offset = 0, dv_byte_length = length d\<rparr>) data,
         ur_bytes_written = written\<rparr>)"


section \<open>Histories\<close>












section \<open>The endpoint is a queue\<close>
















section \<open>Alternate settings\<close>

lemma endpoint_set_used: "\<not> endpoint_is_empty (endpoint_set s a)"
proof -
  have "endpoint_is_set (endpoint_set s a) a" by (simp add: endpoint_keys.is_set_insert)
  then show ?thesis using endpoint_keys.is_empty_iff by blast
qed

lemma endpoint_unused: "endpoint_is_empty s \<Longrightarrow> \<not> endpoint_is_set s a"
  using endpoint_keys.is_empty_iff by blast

text \<open>
  On WebUSB the check that no endpoint is in use does not protect the change of the alternate
  setting: \<open>set_alt_setting\<close> gives up the lock before it awaits the browser. On an interface with no
  endpoint in use it asks the browser for the change; an endpoint that another task opens meanwhile is
  handed out; and when the browser resolves, the alternate setting changes with that endpoint in use.
  With the endpoint opened before, the change is refused as busy.
\<close>

theorem web_set_alt_race:
  assumes "endpoint_is_empty (wbi_endpoints_used i)" "endpoint_address d = Ret a"
    "endpoint_max_packet_size d = Ret m"
  shows "web_set_alt_start alt i = Inr (SelectAlternateInterface (wbi_interface_number i) alt) \<and>
    (\<exists>ep i'. web_interface_endpoint d i = Ret (Inr ep, i') \<and> we_address ep = a \<and>
       \<not> endpoint_is_empty (wbi_endpoints_used i') \<and>
       web_set_alt_finish alt (Inr r) i' = (Inr (), i'\<lparr>wbi_alt_setting := alt\<rparr>) \<and>
       (\<exists>e. web_set_alt_start alt i' = Inl e \<and> err_kind e = KBusy))"
  using assms
  by (simp add: web_set_alt_start_def web_interface_endpoint_def web_set_alt_finish_def endpoint_unused
      endpoint_set_used error_new_def)

theorem web_set_alt_race_witness:
  "let i = \<lparr>wbi_interface_number = 2, wbi_alt_setting = 0, wbi_endpoints_used = endpoint_bitset_default\<rparr>;
       d = [7, 5, 0x81, 2, 64, 0, 0]
   in \<exists>ep i'. web_interface_endpoint d i = Ret (Inr ep, i') \<and> we_address ep = 0x81 \<and>
       \<not> endpoint_is_empty (wbi_endpoints_used i') \<and>
       web_set_alt_finish 1 (Inr (ws_result 0 (WebOk, None, 0))) i' = (Inr (), i'\<lparr>wbi_alt_setting := 1\<rparr>)"
proof -
  let ?i = "\<lparr>wbi_interface_number = 2, wbi_alt_setting = 0, wbi_endpoints_used = endpoint_bitset_default\<rparr>"
  have "endpoint_is_empty (wbi_endpoints_used ?i)" "endpoint_address [7, 5, 0x81, 2, 64, 0, 0] = Ret 0x81"
    "endpoint_max_packet_size [7, 5, 0x81, 2, 64, 0, 0] = Ret 64" by code_simp+
  from web_set_alt_race [OF this, of 1 "ws_result 0 (WebOk, None, 0)"] show ?thesis
    unfolding Let_def by blast
qed

section \<open>Descriptors\<close>

lemma extract_descriptors_ok:
  "extract_descriptors B is k = (Inr ds, k') \<Longrightarrow> list_all (\<lambda>d. config_new d \<noteq> None) ds"
proof (induction "is" arbitrary: k ds k')
  case (Cons i "is")
  from Cons.prems obtain data k1 ds' k2 where
    "extract_descriptors B is k1 = (Inr ds', k2)" "ds = (if config_new data \<noteq> None then data # ds' else ds')"
    by (fastforce split: prod.splits sum.splits)
  with Cons.IH show ?case by auto
qed simp

text \<open>
  C9. The descriptors of a WebUSB device can be read. Whatever the browser answers, when a device is
  opened its device descriptor has the length it needs, and each configuration descriptor that is kept,
  which is the whole answer and may be longer than the configuration, is read by the unchecked accessors
  without a panic, down to the fields of every endpoint.
\<close>

theorem web_descriptors_readable:
  assumes "web_from_js B k = (Inr dev, k')"
  shows "device_descriptor_new (wud_device_descriptor dev) = Some (wud_device_descriptor dev) \<and>
    list_all config_readable (web_configuration_descriptors dev)"
proof -
  have dd: "device_descriptor_new x = Some y \<Longrightarrow> device_descriptor_new y = Some y" for x y
    by (auto simp: device_descriptor_new_def get_range_def DESCRIPTOR_LEN_DEVICE_def split: option.splits if_splits)
  have cr: "config_new x \<noteq> None \<Longrightarrow> config_readable x" for x
    by (rule config_readable_header) (auto simp: header_ok_def config_new_def Let_def DESCRIPTOR_LEN_CONFIGURATION_def not_less
        word_le_nat_alt split: if_splits)
  from assms obtain ds k1 k2 x where
    "extract_descriptors B [0 ..< ud_configurations (br_device B k1)] k1 = (Inr ds, k2)"
    "wud_config_descriptors dev = ds" "device_descriptor_new x = Some (wud_device_descriptor dev)"
    by (auto simp: web_from_js_def split: prod.splits sum.splits option.splits)
  moreover from this(1) have "list_all (\<lambda>d. config_new d \<noteq> None) ds" by (rule extract_descriptors_ok)
  then have "list_all config_readable ds" using cr by (simp only: list_all_iff) blast
  ultimately show ?thesis using dd
    by (simp add: web_configuration_descriptors_def config_new_unchecked_def list_all_iff)
qed

text \<open>A browser with one device, whose configuration descriptor is followed by four bytes.\<close>

definition root_hub_browser :: "unit browser" where
  "root_hub_browser =
     \<lparr>br_device = (\<lambda>_. bare_device 0),
      br_call = (\<lambda>c k.
        (case c of
           ControlTransferIn p n \<Rightarrow>
             (if us_value p = 0x0100 then
                (Inr (ws_result 4096 (WebOk, Some [18, 1, 0, 2, 9, 0, 0, 64, 0x6b, 0x1d, 2, 0, 0, 5, 3, 2, 1, 1], 0)), k)
              else (Inr (ws_result 4096 (WebOk, Some (root_hub_config @ [4, 0x24, 1, 2]), 0)), k))
         | _ \<Rightarrow> (Inr (ws_result 0 (WebOk, None, 0)), k)))\<rparr>"

theorem web_descriptors_readable_witness:
  "\<exists>dev. web_from_js root_hub_browser () = (Inr dev, ()) \<and>
    wud_config_descriptors dev = [root_hub_config @ [4, 0x24, 1, 2]] \<and>
    list_all config_readable (web_configuration_descriptors dev)"
proof -
  have run: "map_sum (\<lambda>e. e) wud_config_descriptors (fst (web_from_js root_hub_browser ())) =
      Inr [root_hub_config @ [4, 0x24, 1, 2]]" by code_simp
  obtain r k where w: "web_from_js root_hub_browser () = (r, k)" by (cases "web_from_js root_hub_browser ()")
  with run obtain dev where dev: "r = Inr dev" "wud_config_descriptors dev = [root_hub_config @ [4, 0x24, 1, 2]]"
    by (cases r) auto
  from web_descriptors_readable [OF w [unfolded dev(1)]] w dev show ?thesis by simp
qed

end
