(* ===== verification/Web_Hotplug.thy ===== *)
theory Web_Hotplug
  imports Web_System
begin

text \<open>
  src/src/platform/webusb/hotplug.rs: the listeners of a watch put events into a queue and wake the
  task; the stream takes them out.
\<close>

section \<open>The queue\<close>

type_synonym web_event = "(WebDeviceInfo, nat) HotplugEvent"

record WebHotplugInner =
  whi_waker :: "nat option"
  whi_events :: "web_event list"

text \<open>\<open>push\<close>; the first result is the waker to wake.\<close>

definition web_hotplug_push :: "web_event \<Rightarrow> WebHotplugInner \<Rightarrow> nat option \<times> WebHotplugInner" where
  "web_hotplug_push event inner =
     (whi_waker inner, inner\<lparr>whi_events := whi_events inner @ [event], whi_waker := None\<rparr>)"

definition web_hotplug_poll_next :: "nat \<Rightarrow> WebHotplugInner \<Rightarrow> web_event option \<times> WebHotplugInner" where
  "web_hotplug_poll_next waker inner =
     (case whi_events inner of
        event # events \<Rightarrow> (Some event, inner\<lparr>whi_events := events\<rparr>)
      | [] \<Rightarrow> (None, inner\<lparr>whi_waker := Some waker\<rparr>))"

text \<open>The two closures.\<close>

definition web_onconnect :: "UsbDevice \<Rightarrow> WebHotplugInner \<Rightarrow> nat option \<times> WebHotplugInner" where
  "web_onconnect device inner = web_hotplug_push (ConnectedEvent (device_to_info device)) inner"

definition web_ondisconnect ::
  "(nat \<Rightarrow> bool) \<Rightarrow> UsbDevice \<Rightarrow> WebHotplugInner \<times> web_ids \<Rightarrow>
   (nat option \<times> WebHotplugInner \<times> web_ids) outcome" where
  "web_ondisconnect settable device s =
     omap (\<lambda>(i, ids). case web_hotplug_push (DisconnectedEvent i) (fst s) of (w, inner) \<Rightarrow> (w, inner, ids))
       (device_id_from_device settable device (snd s))"

section \<open>Watches\<close>

text \<open>
  The listeners that the USB object has, by the watch they belong to. \<open>add\<close> is what each
  \<open>addEventListener\<close> throws, if it throws.
\<close>

datatype web_listener = OnConnect nat | OnDisconnect nat

definition web_add_listener ::
  "(web_listener \<Rightarrow> js_value option) \<Rightarrow> web_listener \<Rightarrow> web_listener list \<Rightarrow> (nusb_error + unit) \<times> web_listener list"
where
  "web_add_listener add l ls =
     (case add l of Some e \<Rightarrow> (Inl (js_value_to_error e), ls) | None \<Rightarrow> (Inr (), l # ls))"

text \<open>An early return drops the closures, but not the listeners that are registered.\<close>

definition web_hotplug_new ::
  "js_global \<Rightarrow> (web_listener \<Rightarrow> js_value option) \<Rightarrow> nat \<Rightarrow> web_listener list \<Rightarrow>
   (nusb_error + WebHotplugInner) \<times> web_listener list" where
  "web_hotplug_new global add watch ls =
     (case web_usb global of
        Inl e \<Rightarrow> (Inl e, ls)
      | Inr _ \<Rightarrow>
          (case web_add_listener add (OnConnect watch) ls of
             (Inl e, ls) \<Rightarrow> (Inl e, ls)
           | (Inr _, ls) \<Rightarrow>
               (case web_add_listener add (OnDisconnect watch) ls of
                  (Inl e, ls) \<Rightarrow> (Inl e, ls)
                | (Inr _, ls) \<Rightarrow> (Inr \<lparr>whi_waker = None, whi_events = []\<rparr>, ls))))"

definition web_hotplug_drop :: "js_global \<Rightarrow> nat \<Rightarrow> web_listener list \<Rightarrow> web_listener list" where
  "web_hotplug_drop global watch ls =
     (case web_usb global of
        Inl e \<Rightarrow> ls
      | Inr _ \<Rightarrow> removeAll (OnDisconnect watch) (removeAll (OnConnect watch) ls))"

section \<open>Histories\<close>

datatype web_hotplug_op = WebConnect UsbDevice | WebDisconnect UsbDevice | WebPollNext nat

definition web_hotplug_step ::
  "web_hotplug_op \<Rightarrow> WebHotplugInner \<times> web_ids \<Rightarrow>
   (web_event option \<times> nat option \<times> WebHotplugInner \<times> web_ids) outcome" where
  "web_hotplug_step op s =
     (case op of
        WebConnect d \<Rightarrow> (case web_onconnect d (fst s) of (w, inner) \<Rightarrow> Ret (None, w, inner, snd s))
      | WebDisconnect d \<Rightarrow> omap (\<lambda>r. (None, r)) (web_ondisconnect (\<lambda>_. True) d s)
      | WebPollNext waker \<Rightarrow>
          (case web_hotplug_poll_next waker (fst s) of (e, inner) \<Rightarrow> Ret (e, None, inner, snd s)))"

fun web_hotplug_run ::
  "web_hotplug_op list \<Rightarrow> WebHotplugInner \<times> web_ids \<Rightarrow> (web_event list \<times> WebHotplugInner \<times> web_ids) outcome"
where
  "web_hotplug_run [] s = Ret ([], s)"
| "web_hotplug_run (op # ops) s =
     obind (web_hotplug_step op s) (\<lambda>(e, woken, s).
     omap (\<lambda>(es, s). ((case e of None \<Rightarrow> es | Some e \<Rightarrow> e # es), s)) (web_hotplug_run ops s))"

text \<open>What the operations announce, with the IDs that the devices have.\<close>

definition web_announced :: "(nat \<rightharpoonup> nat) \<Rightarrow> web_hotplug_op list \<Rightarrow> web_event option list" where
  "web_announced ids ops = concat (map (\<lambda>op. case op of
     WebConnect d \<Rightarrow> [Some (ConnectedEvent (device_to_info d))]
   | WebDisconnect d \<Rightarrow> [map_option DisconnectedEvent (ids (ud_object d))]
   | WebPollNext w \<Rightarrow> []) ops)"

lemma web_announced_simps [simp]:
  "web_announced ids [] = []"
  "web_announced ids (WebConnect d # ops) = Some (ConnectedEvent (device_to_info d)) # web_announced ids ops"
  "web_announced ids (WebDisconnect d # ops) =
     map_option DisconnectedEvent (ids (ud_object d)) # web_announced ids ops"
  "web_announced ids (WebPollNext w # ops) = web_announced ids ops"
  by (simp_all add: web_announced_def)

text \<open>An event of a device keeps its meaning when more devices get an ID.\<close>

lemma web_hotplug_step_ok:
  assumes "ids_ok (snd s)" "wid_increment (snd s) + 1 < 2 ^ 32"
  shows "\<exists>e woken s'. web_hotplug_step op s = Ret (e, woken, s') \<and> ids_ok (snd s') \<and>
    wid_increment (snd s') \<le> wid_increment (snd s) + 1 \<and>
    wid_property (snd s) \<subseteq>\<^sub>m wid_property (snd s') \<and>
    (\<forall>ids. wid_property (snd s') \<subseteq>\<^sub>m ids \<longrightarrow>
      map Some ((case e of None \<Rightarrow> [] | Some e \<Rightarrow> [e]) @ whi_events (fst s')) =
      map Some (whi_events (fst s)) @ web_announced ids [op])"
proof (cases op)
  case (WebConnect d)
  with assms show ?thesis by (simp add: web_hotplug_step_def web_onconnect_def web_hotplug_push_def)
next
  case (WebPollNext w)
  with assms show ?thesis
    by (cases "whi_events (fst s)") (simp_all add: web_hotplug_step_def web_hotplug_poll_next_def)
next
  case (WebDisconnect d)
  from device_id_step [OF assms, of "\<lambda>_. True" d] obtain i s' where
    i: "device_id_from_device (\<lambda>_. True) d (snd s) = Ret (i, s')" "ids_ok s'"
      "wid_property s' (ud_object d) = Some i" "wid_property (snd s) \<subseteq>\<^sub>m wid_property s'"
      "wid_increment s' \<le> wid_increment (snd s) + 1" by auto
  have "ids (ud_object d) = Some i" if "wid_property s' \<subseteq>\<^sub>m ids" for ids
    using that i(3) by (metis domI map_le_def)
  then have "\<forall>ids. wid_property s' \<subseteq>\<^sub>m ids \<longrightarrow>
      Some (DisconnectedEvent i) = map_option DisconnectedEvent (ids (ud_object d))"
    by (metis option.map(2))
  with i WebDisconnect show ?thesis
    by (simp add: web_hotplug_step_def web_ondisconnect_def web_hotplug_push_def)
qed

lemma web_hotplug_run_ok:
  assumes "ids_ok (snd s)" "wid_increment (snd s) + length ops < 2 ^ 32"
  shows "\<exists>es s'. web_hotplug_run ops s = Ret (es, s') \<and> ids_ok (snd s') \<and>
    wid_property (snd s) \<subseteq>\<^sub>m wid_property (snd s') \<and>
    (\<forall>ids. wid_property (snd s') \<subseteq>\<^sub>m ids \<longrightarrow>
      map Some (es @ whi_events (fst s')) = map Some (whi_events (fst s)) @ web_announced ids ops)"
  using assms
proof (induction ops arbitrary: s)
  case Nil
  then show ?case by simp
next
  case (Cons op ops)
  from Cons.prems(2) have "wid_increment (snd s) + 1 < 2 ^ 32" by simp
  from web_hotplug_step_ok [OF Cons.prems(1) this, of op] obtain e woken s1 where
    s1: "web_hotplug_step op s = Ret (e, woken, s1)" "ids_ok (snd s1)"
      "wid_increment (snd s1) \<le> wid_increment (snd s) + 1" "wid_property (snd s) \<subseteq>\<^sub>m wid_property (snd s1)"
      "\<forall>ids. wid_property (snd s1) \<subseteq>\<^sub>m ids \<longrightarrow>
        map Some ((case e of None \<Rightarrow> [] | Some e \<Rightarrow> [e]) @ whi_events (fst s1)) =
        map Some (whi_events (fst s)) @ web_announced ids [op]" by blast
  from s1(3) Cons.prems(2) have "wid_increment (snd s1) + length ops < 2 ^ 32" by simp
  from Cons.IH [OF s1(2) this] obtain es s2 where
    s2: "web_hotplug_run ops s1 = Ret (es, s2)" "ids_ok (snd s2)" "wid_property (snd s1) \<subseteq>\<^sub>m wid_property (snd s2)"
      "\<forall>ids. wid_property (snd s2) \<subseteq>\<^sub>m ids \<longrightarrow>
        map Some (es @ whi_events (fst s2)) = map Some (whi_events (fst s1)) @ web_announced ids ops" by blast
  let ?es = "case e of None \<Rightarrow> es | Some e \<Rightarrow> e # es"
  have "map Some (?es @ whi_events (fst s2)) = map Some (whi_events (fst s)) @ web_announced ids (op # ops)"
    if "wid_property (snd s2) \<subseteq>\<^sub>m ids" for ids
  proof -
    from s2(3) that have "wid_property (snd s1) \<subseteq>\<^sub>m ids" by (rule map_le_trans)
    with s1(5) have a: "map Some ((case e of None \<Rightarrow> [] | Some e \<Rightarrow> [e]) @ whi_events (fst s1)) =
        map Some (whi_events (fst s)) @ web_announced ids [op]" by blast
    have b: "web_announced ids (op # ops) = web_announced ids [op] @ web_announced ids ops" by (cases op) simp_all
    from s2(4) that have "map Some (es @ whi_events (fst s2)) =
        map Some (whi_events (fst s1)) @ web_announced ids ops" by blast
    with a show ?thesis unfolding b append_assoc [symmetric] a [symmetric] by (cases e) simp_all
  qed
  with s1(1) s2(1,2) map_le_trans [OF s1(4) s2(3)] show ?case by auto
qed

text \<open>
  C26. The WebUSB hotplug stream delivers what the browser announces, once and in order. Let devices
  connect and disconnect and poll the stream in any interleaving, while the page has given out fewer than
  \<open>2 ^ 32\<close> device IDs: nothing panics; the events that were given followed by those in the queue are the
  announced ones in their order, a connection with the information of its device, a disconnection with
  the ID that the device object has at the end (and keeps), which is also the one of its information.
\<close>

theorem web_hotplug_in_order:
  assumes "ids_ok ids" "wid_increment ids + length ops < 2 ^ 32"
    "web_hotplug_new global add watch ls = (Inr inner, ls')"
  shows "\<exists>es inner' ids'. web_hotplug_run ops (inner, ids) = Ret (es, inner', ids') \<and>
    map Some (es @ whi_events inner') = web_announced (wid_property ids') ops \<and>
    wid_property ids \<subseteq>\<^sub>m wid_property ids'"
proof -
  have "inner = \<lparr>whi_waker = None, whi_events = []\<rparr>"
    using assms(3) by (auto simp: web_hotplug_new_def split: prod.splits sum.splits)
  with web_hotplug_run_ok [of "(inner, ids)" ops] assms(1,2) show ?thesis by auto
qed

text \<open>
  A WebUSB hotplug stream that has nothing to give is woken. When a poll is not ready, the queue is
  empty and the task is registered; however many polls with the same task follow, the first event of the
  browser wakes it, and the next poll then gives an event.
\<close>

theorem web_hotplug_wakes:
  assumes "web_hotplug_poll_next waker inner = (None, inner')" "list_all (\<lambda>op. op = WebPollNext waker) polls"
    "\<forall>w. op \<noteq> WebPollNext w" "wid_increment ids + 1 < 2 ^ 32"
  shows "web_hotplug_run polls (inner', ids) = Ret ([], inner', ids) \<and>
    (\<exists>inner2 ids2 e inner3. web_hotplug_step op (inner', ids) = Ret (None, Some waker, inner2, ids2) \<and>
       web_hotplug_poll_next waker inner2 = (Some e, inner3))"
proof -
  have inner: "whi_events inner' = []" "whi_waker inner' = Some waker"
    using assms(1) by (auto simp: web_hotplug_poll_next_def split: list.splits)
  then have "web_hotplug_step (WebPollNext waker) (inner', ids) = Ret (None, None, inner', ids)"
    by (cases inner') (simp add: web_hotplug_step_def web_hotplug_poll_next_def)
  then have "web_hotplug_run polls (inner', ids) = Ret ([], inner', ids)" using assms(2)
    by (induction polls) simp_all
  moreover have "\<exists>i ids2. device_id_from_device (\<lambda>_. True) d ids = Ret (i, ids2)" for d
    using assms(4) by (auto simp: device_id_from_device_def rassert_def Let_def split: option.split)
  then have "\<exists>inner2 ids2 e inner3. web_hotplug_step op (inner', ids) = Ret (None, Some waker, inner2, ids2) \<and>
       web_hotplug_poll_next waker inner2 = (Some e, inner3)"
  proof (cases op)
    case (WebDisconnect d)
    from \<open>\<And>d. \<exists>i ids2. device_id_from_device (\<lambda>_. True) d ids = Ret (i, ids2)\<close> obtain i ids2 where
      "device_id_from_device (\<lambda>_. True) d ids = Ret (i, ids2)" by blast
    with WebDisconnect inner show ?thesis
      by (simp add: web_hotplug_step_def web_ondisconnect_def web_hotplug_push_def web_hotplug_poll_next_def)
  qed (use inner assms(3) in \<open>simp_all add: web_hotplug_step_def web_onconnect_def web_hotplug_push_def
      web_hotplug_poll_next_def\<close>)
  ultimately show ?thesis by blast
qed

text \<open>
  Dropping a watch takes both listeners away; but when the second one cannot be added, the first one
  stays registered although its closure is gone.
\<close>

lemma web_hotplug_drop_clean:
  assumes "web_hotplug_new global add watch ls = (Inr inner, ls')" "OnConnect watch \<notin> set ls" "OnDisconnect watch \<notin> set ls"
  shows "web_hotplug_drop global watch ls' = ls"
  using assms
  by (auto simp: web_hotplug_new_def web_hotplug_drop_def web_add_listener_def split: sum.splits option.splits)

lemma web_hotplug_new_leaves_listener:
  assumes "web_usb global = Inr ()" "add (OnConnect watch) = None" "add (OnDisconnect watch) = Some e"
  shows "web_hotplug_new global add watch ls = (Inl (js_value_to_error e), OnConnect watch # ls)"
  using assms by (simp add: web_hotplug_new_def web_add_listener_def)

theorem web_hotplug_in_order_witness:
  "(\<exists>es inner ids. web_hotplug_run
        [WebConnect (bare_device 7), WebPollNext 0, WebDisconnect (bare_device 4), WebDisconnect (bare_device 7), WebPollNext 0]
        (\<lparr>whi_waker = None, whi_events = []\<rparr>, web_ids_init) = Ret (es, inner, ids) \<and>
      map Some (es @ whi_events inner) = web_announced (wid_property ids)
        [WebConnect (bare_device 7), WebPollNext 0, WebDisconnect (bare_device 4), WebDisconnect (bare_device 7), WebPollNext 0]) \<and>
    omap (\<lambda>(es, inner, ids). (es, whi_events inner)) (web_hotplug_run
        [WebConnect (bare_device 7), WebPollNext 0, WebDisconnect (bare_device 4), WebDisconnect (bare_device 7), WebPollNext 0]
        (\<lparr>whi_waker = None, whi_events = []\<rparr>, web_ids_init)) =
      Ret ([ConnectedEvent (device_to_info (bare_device 7)), DisconnectedEvent 1], [DisconnectedEvent 2])"
proof -
  let ?ops = "[WebConnect (bare_device 7), WebPollNext 0, WebDisconnect (bare_device 4), WebDisconnect (bare_device 7),
    WebPollNext 0]"
  have ok: "ids_ok web_ids_init" by (simp add: ids_ok_def web_ids_init_def)
  have n: "wid_increment web_ids_init + length ?ops < 2 ^ 32" by (simp add: web_ids_init_def)
  have new: "web_hotplug_new (Window True) (\<lambda>_. None) 3 [] =
      (Inr \<lparr>whi_waker = None, whi_events = []\<rparr>, [OnDisconnect 3, OnConnect 3])"
    by (simp add: web_hotplug_new_def web_usb_def web_add_listener_def)
  have run: "omap (\<lambda>(es, inner, ids). (es, whi_events inner)) (web_hotplug_run ?ops
        (\<lparr>whi_waker = None, whi_events = []\<rparr>, web_ids_init)) =
      Ret ([ConnectedEvent (device_to_info (bare_device 7)), DisconnectedEvent 1], [DisconnectedEvent 2])"
    by (simp add: web_hotplug_step_def web_onconnect_def web_ondisconnect_def web_hotplug_push_def
        web_hotplug_poll_next_def device_id_from_device_def web_ids_init_def Let_def bare_device_def)
  from web_hotplug_in_order [OF ok n new] run show ?thesis by blast
qed

theorem web_hotplug_wakes_witness:
  "web_hotplug_run [WebPollNext 4, WebPollNext 4] (\<lparr>whi_waker = Some 4, whi_events = []\<rparr>, web_ids_init) =
      Ret ([], \<lparr>whi_waker = Some 4, whi_events = []\<rparr>, web_ids_init) \<and>
    (\<exists>inner2 ids2 e inner3.
       web_hotplug_step (WebDisconnect (bare_device 7)) (\<lparr>whi_waker = Some 4, whi_events = []\<rparr>, web_ids_init) =
         Ret (None, Some 4, inner2, ids2) \<and>
       web_hotplug_poll_next 4 inner2 = (Some e, inner3))"
proof -
  have p: "web_hotplug_poll_next 4 \<lparr>whi_waker = Some 9, whi_events = []\<rparr> = (None, \<lparr>whi_waker = Some 4, whi_events = []\<rparr>)"
    by (simp add: web_hotplug_poll_next_def)
  show ?thesis
    by (rule web_hotplug_wakes [OF p]) (simp_all add: web_ids_init_def)
qed

end
