(* ===== verification/Device_Session.thy ===== *)
theory Device_Session
  imports Device Endpoint Linux_Endpoint_Theorems
begin

text \<open>
  The public endpoint of src/src/device.rs from its opening on: what \<open>Interface::endpoint\<close> hands out is
  what the calls of \<open>Endpoint\<close> then work on.
\<close>

section \<open>Calls that the backend answers\<close>

definition ep_address :: "'e backend \<Rightarrow> 'e \<Rightarrow> u8" where
  "ep_address B e = be_address B e"

definition ep_max_packet_size :: "'e backend \<Rightarrow> 'e \<Rightarrow> nat" where
  "ep_max_packet_size B e = be_max_packet_size B e"

definition ep_pending :: "'e backend \<Rightarrow> 'e \<Rightarrow> nat" where
  "ep_pending B e = be_pending B e"

definition ep_cancel_all :: "'e backend \<Rightarrow> 'e \<Rightarrow> 'e outcome" where
  "ep_cancel_all B e = be_cancel_all B e"

definition ep_poll_next_complete :: "'e backend \<Rightarrow> nat \<Rightarrow> 'e \<Rightarrow> (Completion option \<times> 'e) outcome" where
  "ep_poll_next_complete B waker e = be_poll B waker e"

definition ep_wait_next_complete :: "'e backend \<Rightarrow> Duration \<Rightarrow> 'e \<Rightarrow> (Completion option \<times> 'e) outcome" where
  "ep_wait_next_complete B timeout e = be_wait B timeout e"

section \<open>Histories of calls\<close>

datatype ep_call = CallSubmit Buffer | CallWait Duration | CallPoll nat | CallCancelAll

fun call_buffers :: "ep_call list \<Rightarrow> Buffer list" where
  "call_buffers [] = []"
| "call_buffers (CallSubmit b # calls) = b # call_buffers calls"
| "call_buffers (c # calls) = call_buffers calls"

text \<open>A caller that waits only while transfers are pending.\<close>

definition ep_call_step :: "'e backend \<Rightarrow> Direction \<Rightarrow> ep_call \<Rightarrow> 'e \<Rightarrow> (Completion list \<times> 'e) outcome" where
  "ep_call_step B dir c e =
     (case c of
        CallSubmit b \<Rightarrow> omap (\<lambda>e. ([], e)) (ep_submit B dir b e)
      | CallWait timeout \<Rightarrow>
          if ep_pending B e = 0 then Ret ([], e)
          else omap (\<lambda>(r, e). (case r of None \<Rightarrow> [] | Some c \<Rightarrow> [c], e)) (ep_wait_next_complete B timeout e)
      | CallPoll waker \<Rightarrow>
          if ep_pending B e = 0 then Ret ([], e)
          else omap (\<lambda>(r, e). (case r of None \<Rightarrow> [] | Some c \<Rightarrow> [c], e)) (ep_poll_next_complete B waker e)
      | CallCancelAll \<Rightarrow> omap (\<lambda>e. ([], e)) (ep_cancel_all B e))"

fun ep_run :: "'e backend \<Rightarrow> Direction \<Rightarrow> ep_call list \<Rightarrow> 'e \<Rightarrow> (Completion list \<times> 'e) outcome" where
  "ep_run B dir [] e = Ret ([], e)"
| "ep_run B dir (c # calls) e =
     obind (ep_call_step B dir c e) (\<lambda>(cs, e). omap (\<lambda>(cs', e). (cs @ cs', e)) (ep_run B dir calls e))"

text \<open>The public calls are calls of the backend: an IN buffer with a bad length goes to \<open>submit_err\<close>.\<close>

lemma omap_obind: "omap f m = obind m (\<lambda>x. Ret (f x))"
  by (cases m) simp_all

context endpoint_backend begin

lemma call_is_op:
  assumes "ok e"
  shows "\<exists>op. ep_call_step B dir c e = backend_step B op e \<and> op_buffers [op] = call_buffers [c]"
proof (cases c)
  case (CallSubmit b)
  show ?thesis
  proof (cases "dir = In \<and> \<not> (0 < buffer_requested_len b \<and> be_max_packet_size B e dvd buffer_requested_len b)")
    case True
    with CallSubmit show ?thesis
      by (intro exI [of _ "OpSubmitErr b"])
        (simp add: ep_call_step_def backend_step_def ep_submit_eq [OF assms] omap_obind)
  next
    case False
    with CallSubmit show ?thesis
      by (intro exI [of _ "OpSubmit b"])
        (auto simp: ep_call_step_def backend_step_def ep_submit_eq [OF assms] omap_obind)
  qed
next
  case (CallWait t)
  then show ?thesis
    by (intro exI [of _ "OpWait t"])
      (simp add: ep_call_step_def backend_step_def ep_pending_def ep_wait_next_complete_def omap_obind case_prod_unfold)
next
  case (CallPoll w)
  then show ?thesis
    by (intro exI [of _ "OpPoll w"])
      (simp add: ep_call_step_def backend_step_def ep_pending_def ep_poll_next_complete_def omap_obind case_prod_unfold)
next
  case CallCancelAll
  then show ?thesis
    by (intro exI [of _ OpCancelAll])
      (simp add: ep_call_step_def backend_step_def ep_cancel_all_def omap_obind)
qed

lemma calls_are_ops:
  assumes "ok e" "list_all buffer_ok (call_buffers calls)"
  shows "\<exists>ops. ep_run B dir calls e = backend_run B ops e \<and> op_buffers ops = call_buffers calls"
  using assms
proof (induction calls arbitrary: e)
  case Nil
  show ?case by (intro exI [of _ "[]"]) simp
next
  case (Cons c calls)
  have split: "call_buffers (c # calls) = call_buffers [c] @ call_buffers calls" by (cases c) simp_all
  from call_is_op [OF Cons.prems(1)] obtain op where
    op: "ep_call_step B dir c e = backend_step B op e" "op_buffers [op] = call_buffers [c]" by blast
  have "list_all buffer_ok (op_buffers [op])" using op(2) Cons.prems(2) split by simp
  from step_fifo [OF Cons.prems(1) this] obtain cs e1 where s: "backend_step B op e = Ret (cs, e1)" "ok e1" by blast
  from Cons.IH [OF s(2)] Cons.prems(2) split obtain ops where
    ops: "ep_run B dir calls e1 = backend_run B ops e1" "op_buffers ops = call_buffers calls" by auto
  have "op_buffers (op # ops) = call_buffers (c # calls)" using op(2) ops(2) split by (cases op) simp_all
  then show ?case using op(1) s(1) ops(1) by (intro exI [of _ "op # ops"]) (simp add: omap_obind case_prod_unfold)
qed

lemma calls_fifo:
  assumes "ok e" "queue e = []" "list_all buffer_ok (call_buffers calls)"
  shows "\<exists>cs e'. ep_run B dir calls e = Ret (cs, e') \<and> ok e' \<and> length cs \<le> length (call_buffers calls) \<and>
    list_all2 (returned_for A D) (take (length cs) (call_buffers calls)) cs \<and>
    ep_pending B e' = length (call_buffers calls) - length cs"
proof -
  from calls_are_ops [OF assms(1,3)] obtain ops where
    ops: "ep_run B dir calls e = backend_run B ops e" "op_buffers ops = call_buffers calls" by blast
  from run_fifo [OF assms(1), of ops] assms(2,3) ops(2) obtain cs e' where
    "backend_run B ops e = Ret (cs, e')" "ok e'" "length cs \<le> length (call_buffers calls)"
    "queue e' = drop (length cs) (call_buffers calls)"
    "list_all2 (returned_for A D) (take (length cs) (call_buffers calls)) cs" by auto
  moreover from this have "ep_pending B e' = length (call_buffers calls) - length cs"
    by (simp add: ep_pending_def pending_eq)
  ultimately show ?thesis using ops(1) by auto
qed

end

section \<open>From opening to completions\<close>

text \<open>The endpoint on its device, with the script of the system.\<close>

definition session_start ::
  "LinuxEndpoint \<Rightarrow> LinuxDevice \<Rightarrow> nat list list \<Rightarrow> nat option list \<Rightarrow> (nat \<times> nat \<times> bytes \<times> nat) list \<Rightarrow> ep_sys" where
  "session_start ep d sched submits reaps =
     \<lparr>es_ep = ep,
      es_lx = \<lparr>lx_dev = d, lx_heap = \<lparr>th_mem = (\<lambda>p. None), th_next = 0, th_notify = (\<lambda>n. NotifyNone)\<rparr>,
               lx_kern = \<lparr>us_inflight = [], us_submits = submits, us_reaps = reaps, us_discards = []\<rparr>\<rparr>,
      es_sched = sched, es_mmap = (\<lambda>_ _. True), es_bufs = [], es_past = []\<rparr>"

lemma session_start_good:
  assumes "le_pending ep = []" "le_idle_transfer ep = None" "0 < le_max_packet_size ep"
  shows "es_good (direction_from_address (le_address ep)) (session_start ep d sched submits reaps)"
  using assms
  by (simp add: es_good_def session_start_def es_ok_def es_dir_def ep_inv_def own_ok_empty idles_of_def blocks_ok_def)

lemma ofind_Some: "ofind p xs = Ret (Some x) \<Longrightarrow> p x = Ret True"
  by (induction xs) (auto simp: obind_Ret_iff split: if_splits)

lemma open_endpoint_result:
  assumes "open_endpoint fs notify ty dir address i d = Ret (Inr ep, i', d')"
  shows "le_idle_transfer ep = None" "le_pending ep = []" "le_address ep = address"
    "direction_from_address address = dir" "le_ep_type ep = ty"
    "ifs_endpoints (li_state i') = endpoint_set (ifs_endpoints (li_state i)) address"
proof -
  let ?search = "ofind (\<lambda>ep. omap (\<lambda>a. a = address) (endpoint_address ep))"
  let ?find = "\<lambda>g. case g of None \<Rightarrow> Ret None | Some desc \<Rightarrow> obind (interface_endpoints desc) ?search"
  obtain g d1 where g: "interface_descriptor fs i d = Ret (g, d1)"
    by (cases "interface_descriptor fs i d") (use assms in \<open>auto simp: open_endpoint_def\<close>)
  obtain r where r: "?find g = Ret r" by (cases "?find g") (use assms g in \<open>auto simp: open_endpoint_def\<close>)
  with assms g obtain desc where desc: "r = Some desc" by (cases r) (auto simp: open_endpoint_def)
  with assms g r have d: "address AND direction_mask = direction_u8 dir" "endpoint_transfer_type desc = Ret ty"
      "interface_endpoint notify desc i = Ret (Inr ep, i')"
    by (auto simp: open_endpoint_def obind_Ret_iff omap_Ret_iff split: if_splits)
  from r desc have f: "?find g = Ret (Some desc)" by simp
  from f have a: "endpoint_address desc = Ret address"
    by (auto simp: obind_Ret_iff omap_Ret_iff dest!: ofind_Some split: option.splits)
  show "direction_from_address address = dir"
    using d(1) by (cases dir) (simp_all add: direction_from_address_def)
  from d(2,3) a show "le_idle_transfer ep = None" "le_pending ep = []" "le_address ep = address" "le_ep_type ep = ty"
    "ifs_endpoints (li_state i') = endpoint_set (ifs_endpoints (li_state i)) address"
    by (auto simp: interface_endpoint_def obind_Ret_iff split: if_splits)
qed

lemma open_endpoint_again:
  assumes "device_descriptor_new (ld_descriptors d) = Some dd"
    "open_endpoint fs notify ty dir address i d = Ret (Inr ep, i', d')"
  shows "\<exists>e d2. open_endpoint fs notify' ty' dir' address i' d' = Ret (Inl e, i', d2)"
proof -
  obtain v d1 where v: "active_configuration_value fs d = (v, d1)" by fastforce
  from open_endpoint_checked [OF assms(1) v, where notify = notify and ty = ty and dir = dir and
      address = address and i = i] assms(2) have d1: "d1 = d'" by auto
  have new: "device_descriptor_new (ld_descriptors d') = Some dd"
    using active_configuration_value_frame(1) [OF v] assms(1) d1 by simp
  obtain v2 d2 where v2: "active_configuration_value fs d' = (v2, d2)" by fastforce
  have used: "endpoint_is_set (ifs_endpoints (li_state i')) address"
    by (simp add: open_endpoint_result(6) [OF assms(2)] endpoint_keys.is_set_insert)
  from open_endpoint_checked [OF new v2, where notify = notify' and ty = ty' and dir = dir' and
      address = address and i = i'] obtain r i2 where
    r: "open_endpoint fs notify' ty' dir' address i' d' = Ret (r, i2, d2)"
      "case find (\<lambda>e. endpoint_address e = Ret address) (current_endpoints v2 i' d') of
         None \<Rightarrow> i2 = i' \<and> (\<exists>m. r = Inl (error_new KNotFound m))
       | Some e \<Rightarrow>
           if address AND 0x80 \<noteq> direction_u8 dir' \<or> endpoint_transfer_type e \<noteq> Ret ty'
           then i2 = i' \<and> (\<exists>m. r = Inl (error_new KOther m))
           else if endpoint_is_set (ifs_endpoints (li_state i')) address
           then i2 = i' \<and> (\<exists>m. r = Inl (error_new KBusy m))
           else \<exists>ep. r = Inr ep \<and> le_address ep = address \<and> le_ep_type ep = ty' \<and>
             endpoint_max_packet_size e = Ret (le_max_packet_size ep) \<and> le_pending ep = []" by blast
  from r(2) used have "i2 = i' \<and> (\<exists>e. r = Inl e)" by (auto split: option.splits if_splits)
  with r(1) show ?thesis by blast
qed

text \<open>
  C2. From a device to its transfers. On a Linux device whose descriptors were accepted, let an endpoint
  be opened, with a direction and type, an address and whatever else is open. Then it is the endpoint of
  that address, that direction and that type, with nothing pending. If its packet size is not zero (a
  descriptor that says zero is accepted, and the first IN submission then divides by it), the caller may
  submit well-formed buffers of any length, wait, poll and cancel in any order, with any schedule of the
  event thread and any kernel: nothing panics; the completions are those of the oldest buffers, one for
  each in the order of submission, also of IN buffers whose length is refused, each with what the
  direction asked for promises; the rest is what \<open>pending\<close> counts. And as long as the endpoint is not
  dropped, its address cannot be opened again.
\<close>

theorem opened_endpoint_session:
  assumes "device_descriptor_new (ld_descriptors d) = Some dd"
    "open_endpoint fs notify ty dir address i d = Ret (Inr ep, i', d')"
    "0 < le_max_packet_size ep" "list_all buffer_ok (call_buffers calls)"
  shows "ep_address linux_backend (session_start ep d' sched submits reaps) = address \<and>
    direction_from_address (le_address ep) = dir \<and> le_ep_type ep = ty \<and> le_pending ep = [] \<and>
    (\<exists>cs e. ep_run linux_backend dir calls (session_start ep d' sched submits reaps) = Ret (cs, e) \<and>
      length cs \<le> length (call_buffers calls) \<and>
      list_all2 (returned_for UNIV dir) (take (length cs) (call_buffers calls)) cs \<and>
      ep_pending linux_backend e = length (call_buffers calls) - length cs) \<and>
    (\<exists>e d2. open_endpoint fs notify' ty' dir' address i' d' = Ret (Inl e, i', d2))"
proof -
  note o = open_endpoint_result [OF assms(2)]
  have "es_good dir (session_start ep d' sched submits reaps)"
    using session_start_good [OF o(2,1) assms(3), of d' sched submits reaps] o(3,4) by simp
  from linux.calls_fifo [OF this _ assms(4)]
  have "\<exists>cs e. ep_run linux_backend dir calls (session_start ep d' sched submits reaps) = Ret (cs, e) \<and>
      length cs \<le> length (call_buffers calls) \<and>
      list_all2 (returned_for UNIV dir) (take (length cs) (call_buffers calls)) cs \<and>
      ep_pending linux_backend e = length (call_buffers calls) - length cs"
    by (simp add: session_start_def) blast
  moreover have "ep_address linux_backend (session_start ep d' sched submits reaps) = address"
    using o(3) by (simp add: ep_address_def session_start_def)
  ultimately show ?thesis using open_endpoint_again [OF assms(1,2)] o(2-5) by simp
qed

definition root_hub_device :: LinuxDevice where
  "root_hub_device =
     \<lparr>ld_events_id = 0,
      ld_descriptors = [18, 1, 0, 2, 9, 0, 0, 64, 0x6b, 0x1d, 2, 0, 0x10, 5, 3, 2, 1, 1] @ root_hub_config,
      ld_sysfs = None, ld_active_config = 1, ld_timeouts = [], ld_timer = TIMESPEC_ZERO\<rparr>"

theorem opened_endpoint_session_witness:
  "let b = (\<lambda>n. \<lparr>buf_mem = replicate 8 None, buf_len = 0, buf_requested_len = n, buf_capacity = 8,
            buf_allocator = AllocDefault\<rparr>);
       i = \<lparr>li_interface_number = 0, li_reattach = False, li_state = interface_state_default\<rparr>;
       calls = [CallSubmit (b 8), CallSubmit (b 5), CallWait (duration_from_secs 5), CallPoll 3]
   in \<exists>ep i'. open_endpoint no_sysfs 0 TInterrupt In 0x81 i root_hub_device = Ret (Inr ep, i', root_hub_device) \<and>
        le_address ep = 0x81 \<and> le_ep_type ep = TInterrupt \<and>
        (\<exists>cs e. ep_run linux_backend In calls (session_start ep root_hub_device [[1], [2, 3]] [] [(0, 0, [1, 2], 0)]) =
           Ret (cs, e) \<and> length cs \<le> 2 \<and> list_all2 (returned_for UNIV In) (take (length cs) [b 8, b 5]) cs) \<and>
        (\<exists>e d2. open_endpoint no_sysfs 0 TInterrupt In 0x81 i' root_hub_device = Ret (Inl e, i', d2))"
proof -
  let ?b = "\<lambda>n. \<lparr>buf_mem = replicate 8 None, buf_len = 0, buf_requested_len = n, buf_capacity = 8,
            buf_allocator = AllocDefault\<rparr>"
  let ?i = "\<lparr>li_interface_number = 0, li_reattach = False, li_state = interface_state_default\<rparr>"
  let ?calls = "[CallSubmit (?b 8), CallSubmit (?b 5), CallWait (duration_from_secs 5), CallPoll 3]"
  let ?open = "open_endpoint no_sysfs 0 TInterrupt In 0x81 ?i root_hub_device"
  have new: "device_descriptor_new (ld_descriptors root_hub_device) =
      Some [18, 1, 0, 2, 9, 0, 0, 64, 0x6b, 0x1d, 2, 0, 0x10, 5, 3, 2, 1, 1]" by code_simp
  have "omap (\<lambda>(r, i', d'). (map_sum (\<lambda>_. ()) le_max_packet_size r, d')) ?open = Ret (Inr 4, root_hub_device)"
    by code_simp
  then obtain r i' where r: "?open = Ret (r, i', root_hub_device)" "map_sum (\<lambda>_. ()) le_max_packet_size r = Inr 4"
    by (auto simp: omap_Ret_iff)
  then obtain ep where ep: "r = Inr ep" "le_max_packet_size ep = 4" by (cases r) auto
  have ok: "list_all buffer_ok (call_buffers ?calls)" by code_simp
  have cb: "call_buffers ?calls = [?b 8, ?b 5]" and len: "length [?b 8, ?b 5] = 2" by simp_all
  have "0 < (4::nat)" by simp
  note session = opened_endpoint_session [OF new r(1) [unfolded ep(1)] _ ok, where notify' = 0 and ty' = TInterrupt and
      dir' = In and sched = "[[1], [2, 3]]" and submits = "[]" and reaps = "[(0, 0, [1, 2], 0)]",
      unfolded cb len ep(2), OF this]
  have a: "le_address ep = 0x81" "le_ep_type ep = TInterrupt"
    using conjunct1 [OF session] conjunct1 [OF conjunct2 [OF conjunct2 [OF session]]]
    by (simp_all add: ep_address_def session_start_def)
  from conjunct2 [OF conjunct2 [OF conjunct2 [OF conjunct2 [OF session]]]]
  obtain cs e where run: "ep_run linux_backend In ?calls (session_start ep root_hub_device [[1], [2, 3]] []
      [(0, 0, [1, 2], 0)]) = Ret (cs, e)" "length cs \<le> 2"
      "list_all2 (returned_for UNIV In) (take (length cs) [?b 8, ?b 5]) cs"
    and again: "\<exists>e d2. open_endpoint no_sysfs 0 TInterrupt In 0x81 i' root_hub_device = Ret (Inl e, i', d2)"
    by blast
  show ?thesis unfolding Let_def
    by (intro exI [of _ ep] exI [of _ i'] conjI, fact r(1) [unfolded ep(1)], fact a(1), fact a(2),
        intro exI [of _ cs] exI [of _ e] conjI, (fact run)+, fact again)
qed

end
