(* ===== verification/Windows_Registry.thy ===== *)
theory Windows_Registry
  imports Windows_System
begin

text \<open>
  src/src/platform/windows_winusb/registry.rs: reading a GUID from a value of a registry key. The system
  writes the value into a block of memory of the size it gave before, which is then read as a string
  that ends in a zero.
\<close>

section \<open>The system\<close>

definition REG_SZ :: u32 where "REG_SZ = 1"
definition REG_MULTI_SZ :: u32 where "REG_MULTI_SZ = 7"

text \<open>
  The first \<open>RegQueryValueExW\<close> gives an error code or the type and the size in bytes, the second one an
  error code or what it writes into a block of that size; \<open>rg_iid\<close> is \<open>IIDFromString\<close> on the units in front
  of the zero; \<open>rg_last_error\<close> is \<open>GetLastError\<close>. The values may change between the calls.
\<close>

record 'k registry =
  rg_size :: "u16 list \<Rightarrow> 'k \<Rightarrow> (u32 + u32 \<times> u32) \<times> 'k"
  rg_data :: "u16 list \<Rightarrow> u32 \<Rightarrow> 'k \<Rightarrow> (u32 + bytes) \<times> 'k"
  rg_iid :: "u16 list \<Rightarrow> Guid option"
  rg_last_error :: "'k \<Rightarrow> u32"

section \<open>Reading a GUID\<close>

text \<open>The units up to the first zero, in memory of which only a part may be initialised.\<close>

fun read_wide :: "u8 option list \<Rightarrow> u16 list outcome" where
  "read_wide (Some a # Some b # m) =
     (let w = u16_from_le_bytes a b in if w = 0 then Ret [] else omap (\<lambda>ws. w # ws) (read_wide m))"
| "read_wide m = UB"

text \<open>
  \<open>query_value_guid\<close>; the first component of the state counts the blocks that are allocated. \<open>alloc\<close> must
  not be asked for a block of size zero. Running out of memory is not modelled.
\<close>

definition alloc_bytes :: "u32 \<Rightarrow> nat \<Rightarrow> (u8 option list \<times> nat) outcome" where
  "alloc_bytes n blocks = (if n = 0 then UB else Ret (replicate (unat n) None, blocks + 1))"

definition dealloc_bytes :: "nat \<Rightarrow> nat outcome" where
  "dealloc_bytes blocks = (if blocks = 0 then UB else Ret (blocks - 1))"

definition write_value :: "bytes \<Rightarrow> u8 option list \<Rightarrow> u8 option list outcome" where
  "write_value data buf = (if length data \<le> length buf then Ret (map Some data @ drop (length data) buf) else UB)"

definition query_value_guid ::
  "'k registry \<Rightarrow> string \<Rightarrow> nat \<times> 'k \<Rightarrow> ((nusb_error + Guid) \<times> nat \<times> 'k) outcome" where
  "query_value_guid R value_name s =
     (let name = wc_from_os (map of_char value_name)
      in case rg_size R name (snd s) of
           (Inl r, k) \<Rightarrow>
             Ret (Inl (windows_error_new_os KOther ''failed to read registry value'' (rg_last_error R k)), fst s, k)
         | (Inr (ty, sz), k) \<Rightarrow>
             if ty \<noteq> REG_MULTI_SZ \<and> ty \<noteq> REG_SZ
             then Ret (Inl (windows_error_new_os KOther ''failed to read registry value: expected string''
                        (rg_last_error R k)), fst s, k)
             else
               obind (alloc_bytes sz (fst s)) (\<lambda>(buf, blocks).
                 case rg_data R name sz k of
                   (Inl r, k) \<Rightarrow>
                     obind (dealloc_bytes blocks) (\<lambda>blocks.
                       Ret (Inl (windows_error_new_os KOther ''failed to read registry value data''
                              (rg_last_error R k)), blocks, k))
                 | (Inr data, k) \<Rightarrow>
                     obind (obind (write_value data buf) read_wide) (\<lambda>str.
                     obind (dealloc_bytes blocks) (\<lambda>blocks.
                       Ret (case rg_iid R str of
                              Some guid \<Rightarrow> Inr guid
                            | None \<Rightarrow> Inl (error_new KOther ''failed to parse GUID from registry value''),
                            blocks, k)))))"

text \<open>\<open>get_usbccgp_winusb_device_path\<close> of enumeration.rs asks for one of two values.\<close>

definition missing_guid :: nusb_error where
  "missing_guid = error_new KUnsupported
     ''Could not find DeviceInterfaceGUIDs in registry. WinUSB driver may not be correctly installed for this interface.''"

definition interface_guid ::
  "'k registry \<Rightarrow> nat \<times> 'k \<Rightarrow> ((nusb_error + Guid) \<times> nat \<times> 'k) outcome" where
  "interface_guid R s =
     obind (query_value_guid R ''DeviceInterfaceGUIDs'' s) (\<lambda>(r, s).
       case r of
         Inr guid \<Rightarrow> Ret (Inr guid, s)
       | Inl e \<Rightarrow>
           omap (\<lambda>(r, s). (case r of Inr guid \<Rightarrow> Inr guid | Inl f \<Rightarrow> Inl missing_guid, s))
             (query_value_guid R ''DeviceInterfaceGUID'' s))"

section \<open>A registry at rest\<close>

text \<open>
  A key with the given values, each with its type and its units; \<open>iid\<close> is the parser of the system. The
  code of an error is the result of the call; the last error of the thread is not set by these calls.
\<close>

definition stored_registry ::
  "(u16 list \<Rightarrow> Guid option) \<Rightarrow> u32 \<Rightarrow> (string \<rightharpoonup> u32 \<times> u16 list) \<Rightarrow> unit registry" where
  "stored_registry iid last_error vals =
     (let value = (\<lambda>name. vals (map (\<lambda>u. char_of (unat u)) (butlast name)))
      in \<lparr>rg_size = (\<lambda>name k.
            (case value name of
               None \<Rightarrow> (Inl 2, k)
             | Some (ty, units) \<Rightarrow> (Inr (ty, of_nat (2 * length units)), k))),
          rg_data = (\<lambda>name n k.
            (case value name of
               None \<Rightarrow> (Inl 2, k)
             | Some (ty, units) \<Rightarrow> (Inr (concat (map u16_to_le_bytes units)), k))),
          rg_iid = iid,
          rg_last_error = (\<lambda>k. last_error)\<rparr>)"

lemma read_wide_units:
  "read_wide (map Some (concat (map u16_to_le_bytes units))) =
    (if 0 \<in> set units then Ret (takeWhile (\<lambda>u. u \<noteq> 0) units) else UB)"
proof (induction units)
  case (Cons u units)
  obtain a b where ab: "u16_to_le_bytes u = [a, b]" by (simp add: u16_to_le_bytes_def)
  from u16_le_roundtrip [of u] ab have "u16_from_le_bytes a b = u" by simp
  with Cons ab show ?case by (auto simp: Let_def)
qed simp

lemma length_units_bytes: "length (concat (map u16_to_le_bytes units)) = 2 * length units"
  by (induction units) simp_all

lemma unat_of_char_u16 [simp]: "unat (of_char c :: u16) = of_char c"
proof -
  have "(of_char c :: u16) = of_nat (of_char c)" by (cases c) (simp add: of_char_def)
  moreover have "(of_char c :: nat) < 2 ^ 16" by (rule less_trans [OF nat_of_char_less_256]) simp
  ultimately show ?thesis by (metis unat_of_nat_u16)
qed

lemma value_name_back: "map (\<lambda>u. char_of (unat u)) (butlast (wc_from_os (map of_char s))) = s"
  by (simp add: wc_from_os_def butlast_append o_def)

text \<open>What reading a value gives when the registry does not change.\<close>

definition value_guid ::
  "(u16 list \<Rightarrow> Guid option) \<Rightarrow> u32 \<Rightarrow> (u32 \<times> u16 list) option \<Rightarrow> (nusb_error + Guid) outcome" where
  "value_guid iid last_error v =
     (case v of
        None \<Rightarrow> Ret (Inl (windows_error_new_os KOther ''failed to read registry value'' last_error))
      | Some (ty, units) \<Rightarrow>
          if ty \<noteq> REG_MULTI_SZ \<and> ty \<noteq> REG_SZ
          then Ret (Inl (windows_error_new_os KOther ''failed to read registry value: expected string'' last_error))
          else if 0 \<notin> set units then UB
          else Ret (case iid (takeWhile (\<lambda>u. u \<noteq> 0) units) of
                      Some guid \<Rightarrow> Inr guid
                    | None \<Rightarrow> Inl (error_new KOther ''failed to parse GUID from registry value'')))"

lemma query_stored:
  assumes "\<And>ty units. vals name = Some (ty, units) \<Longrightarrow> 2 * length units < 2 ^ 32"
  shows "query_value_guid (stored_registry iid last_error vals) name (n, ()) =
    omap (\<lambda>r. (r, n, ())) (value_guid iid last_error (vals name))"
proof (cases "vals name")
  case None
  then show ?thesis
    by (simp add: query_value_guid_def stored_registry_def value_guid_def value_name_back Let_def)
next
  case (Some v)
  obtain ty units where v: "v = (ty, units)" by (cases v)
  from assms [OF Some [unfolded v]] have u: "unat (of_nat (2 * length units) :: u32) = 2 * length units"
    by (rule unat_of_nat_u32)
  then have z: "(of_nat (2 * length units) :: u32) = 0 \<longleftrightarrow> units = []"
    by (metis length_0_conv mult_eq_0_iff numeral_eq_one_iff of_nat_0 unat_0 zero_neq_numeral)
  show ?thesis
  proof (cases "(ty \<noteq> REG_MULTI_SZ \<and> ty \<noteq> REG_SZ) \<or> units = []")
    case True
    with Some v z show ?thesis
      by (auto simp: query_value_guid_def stored_registry_def value_guid_def value_name_back Let_def alloc_bytes_def)
  next
    case False
    with Some v z u show ?thesis
      by (auto simp: query_value_guid_def stored_registry_def value_guid_def value_name_back Let_def alloc_bytes_def
          write_value_def length_units_bytes read_wide_units dealloc_bytes_def simp del: of_nat_mult)
  qed
qed

text \<open>
  C30. Reading the interface GUID from the registry. On a key that does not change, whose values are
  smaller than 4 GiB: the value \<open>DeviceInterfaceGUIDs\<close> is used when it is there, has a string type and
  its first string parses, otherwise \<open>DeviceInterfaceGUID\<close> decides; the result is what the system makes
  of the units before the first zero, or one error when neither gives a GUID; and no block of memory is
  leaked or freed twice. The memory accesses are defined exactly when each value that is read as a string
  contains a zero: the string type of the registry does not guarantee it.
\<close>

theorem interface_guid_read:
  assumes "\<forall>v \<in> ran vals. 2 * length (snd v) < 2 ^ 32"
  shows "interface_guid (stored_registry iid last_error vals) (n, ()) =
    omap (\<lambda>r. (r, n, ()))
      (obind (value_guid iid last_error (vals ''DeviceInterfaceGUIDs'')) (\<lambda>r.
         case r of
           Inr guid \<Rightarrow> Ret (Inr guid)
         | Inl e \<Rightarrow>
             omap (\<lambda>r. case r of Inr guid \<Rightarrow> Inr guid | Inl f \<Rightarrow> Inl missing_guid)
               (value_guid iid last_error (vals ''DeviceInterfaceGUID''))))"
proof -
  have q: "query_value_guid (stored_registry iid last_error vals) name (m, ()) =
      omap (\<lambda>r. (r, m, ())) (value_guid iid last_error (vals name))" for name m
    by (rule query_stored) (use assms in \<open>force simp: ran_def\<close>)
  show ?thesis
    by (cases "value_guid iid last_error (vals ''DeviceInterfaceGUIDs'')";
        cases "value_guid iid last_error (vals ''DeviceInterfaceGUID'')")
      (simp_all add: interface_guid_def q split: sum.split)
qed

theorem interface_guid_read_witness:
  "let vals = [''DeviceInterfaceGUIDs'' \<mapsto> (REG_MULTI_SZ, [123, 125, 0, 65, 0, 0]),
                 ''DeviceInterfaceGUID'' \<mapsto> (REG_SZ, [123, 125])];
       R = (\<lambda>iid. stored_registry iid 5 vals)
   in interface_guid (R (\<lambda>s. if s = [123, 125] then Some (OtherGuid 4) else None)) (0, ()) =
        Ret (Inr (OtherGuid 4), 0, ()) \<and>
      interface_guid (R (\<lambda>s. None)) (0, ()) = UB"
proof -
  let ?vals = "[''DeviceInterfaceGUIDs'' \<mapsto> (REG_MULTI_SZ, [123, 125, 0, 65, 0, 0]),
                 ''DeviceInterfaceGUID'' \<mapsto> (REG_SZ, [123, 125])]"
  have small: "\<forall>v \<in> ran ?vals. 2 * length (snd v) < 2 ^ 32" by (auto simp: ran_def split: if_splits)
  show ?thesis unfolding Let_def
    by (simp add: interface_guid_read [OF small] value_guid_def)
qed

end
