(* ===== verification/Linux_Control.thy ===== *)
theory Linux_Control
  imports Linux_Device_Theorems Linux_Transfer_Theorems
begin

text \<open>
  A control transfer on Linux from its submission to its result: \<open>control_in\<close> of
  src/src/platform/linux_usbfs/device.rs as it is awaited, with the event loop between the polls.
\<close>

section \<open>Submission\<close>

text \<open>The transfer as the kernel gets it.\<close>

definition in_flight :: "nat \<Rightarrow> nat \<Rightarrow> TransferData \<Rightarrow> TransferData" where
  "in_flight p deadline t =
     t\<lparr>td_deadline := Some deadline, td_urb := (td_urb t)\<lparr>urb_usercontext := Some p\<rparr>\<rparr>"

definition flying_block :: "nat \<Rightarrow> nat \<Rightarrow> nat \<Rightarrow> TransferData \<Rightarrow> TransferData TransferInner" where
  "flying_block n p deadline t =
     \<lparr>ti_platform_data = in_flight p deadline t, ti_state = STATE_PENDING, ti_notify = n\<rparr>"

lemma submit_timeout_accepted:
  assumes "now + timeout \<le> instant_max"
    "K (USBDEVFS_SUBMITURB (th_next h) (td_urb (in_flight (th_next h) (now + timeout) t))) (lx_kern s) = (Inr r, k)"
    "idle_new n t h = (idle, h1)"
  shows "\<exists>h2. submit_timeout K now idle timeout (s\<lparr>lx_heap := h1\<rparr>) =
      Ret (Pending (th_next h), NotifyNone,
        s\<lparr>lx_heap := h2, lx_kern := k,
          lx_dev := (lx_dev s)
            \<lparr>ld_timeouts := btree_insert (TimeoutEntry (now + timeout) (th_next h)) () (ld_timeouts (lx_dev s)),
             ld_timer := update_timeouts
               (btree_insert (TimeoutEntry (now + timeout) (th_next h)) () (ld_timeouts (lx_dev s))) now\<rparr>\<rparr>) \<and>
    th_mem h2 (th_next h) = Some (flying_block n (th_next h) (now + timeout) t) \<and>
    th_notify h2 = th_notify h"
proof -
  let ?p = "th_next h"
  let ?b = "\<lambda>d st. \<lparr>ti_platform_data = d, ti_state = st, ti_notify = n\<rparr>"
  have h1: "idle = Idle ?p" "th_mem h1 ?p = Some (?b t STATE_IDLE)" "th_notify h1 = th_notify h"
    using assms(3) by (auto simp: idle_new_def th_store_def)
  let ?h2 = "th_store ?p (flying_block n ?p (now + timeout) t) h1"
  have "usbfs_submit_urb K ?p (td_urb (in_flight ?p (now + timeout) t)) (lx_kern s) = (None, k)"
    using assms(2) by (simp add: usbfs_submit_urb_def ioctl_unit_def)
  with assms(1) h1 have "submit_timeout K now idle timeout (s\<lparr>lx_heap := h1\<rparr>) =
      Ret (Pending ?p, NotifyNone,
        s\<lparr>lx_heap := ?h2, lx_kern := k,
          lx_dev := (lx_dev s)
            \<lparr>ld_timeouts := btree_insert (TimeoutEntry (now + timeout) ?p) () (ld_timeouts (lx_dev s)),
             ld_timer := update_timeouts
               (btree_insert (TimeoutEntry (now + timeout) ?p) () (ld_timeouts (lx_dev s))) now\<rparr>\<rparr>)"
    by (simp add: submit_timeout_def idle_deref_mut_def th_load_def th_mem_store device_submit_def pre_submit_def
        state_swap_def rassert_def Let_def urb_modify_eq flying_block_def in_flight_def is_complete_def state_defs)
  then show ?thesis using h1(3) by (intro exI [of _ ?h2]) (simp add: th_mem_store th_store_def)
qed

section \<open>Completion\<close>

lemma handle_events_flying:
  assumes "th_mem (lx_heap s) p = Some (flying_block n p deadline t)"
    "R (lx_kern s) = (Inr (p, u), k)" "urb_usercontext u = Some p"
  shows "\<exists>s'. handle_events R now s = Ret (False, th_notify (lx_heap s) n, s') \<and>
    th_mem (lx_heap s') p = Some \<lparr>ti_platform_data = (in_flight p deadline t)\<lparr>td_urb := u\<rparr>, ti_state = STATE_IDLE,
      ti_notify = n\<rparr> \<and>
    ld_timeouts (lx_dev s') = btree_remove (TimeoutEntry deadline p) (ld_timeouts (lx_dev s)) \<and> lx_kern s' = k"
proof -
  let ?i = "\<lparr>ti_platform_data = (in_flight p deadline t)\<lparr>td_urb := u\<rparr>, ti_state = STATE_PENDING, ti_notify = n\<rparr>"
  let ?h = "th_store p ?i (lx_heap s)"
  have m: "urb_modify p (\<lambda>_. u) (lx_heap s) = Ret ?h"
    using assms(1) by (simp add: urb_modify_eq flying_block_def)
  have l: "th_load ?h p = Ret ?i" and nt: "th_notify ?h = th_notify (lx_heap s)"
    by (simp_all add: th_load_def th_mem_store th_store_def)
  have c: "notify_completion p ?h = Ret (th_notify (lx_heap s) n,
      ?h\<lparr>th_mem := (th_mem ?h)(p := Some (?i\<lparr>ti_state := STATE_IDLE\<rparr>)),
         th_notify := (th_notify ?h)(n := NotifyNone)\<rparr>)"
    by (simp add: notify_completion_eq th_mem_store nt)
  show ?thesis using assms(2,3) m l c
    by (simp add: handle_events_def usbfs_reap_urb_ndelay_def rassert_def Let_def in_flight_def)
qed

section \<open>The future\<close>

lemma poll_flying:
  assumes "tf_transfer fut = Some (Pending p)" "th_mem h p = Some (flying_block n p deadline t)"
  shows "transfer_future_poll waker fut h = Ret (None, fut, notify_subscribe (tf_notify fut) waker h)"
  using assms
  by (simp add: transfer_future_poll_def take_completed_from_option_def is_complete_def th_load_def
      notify_subscribe_def flying_block_def state_defs)

lemma poll_done:
  assumes "tf_transfer fut = Some (Pending p)" "th_mem h p = Some i" "ti_state i = STATE_IDLE"
  shows "transfer_future_poll waker fut h =
    Ret (Some (Idle p), fut\<lparr>tf_transfer := None\<rparr>, notify_subscribe (tf_notify fut) waker h)"
  using assms
  by (simp add: transfer_future_poll_def take_completed_from_option_def is_complete_def into_idle_def th_load_def
      notify_subscribe_def rassert_def state_defs)

lemma finish_done:
  assumes "th_mem h p = Some i" "ti_platform_data i = (in_flight p deadline t)\<lparr>td_urb := urb_done st 8 data
      (td_urb (in_flight p deadline t))\<rparr>"
    "td_control_in_data (t\<lparr>td_urb := urb_done st 8 data (td_urb t)\<rparr>) = Ret data"
    "from_raw_ok from_raw" "errno_range st"
  shows "control_in_finish from_raw (Idle p) h =
    Ret (if st = 0 then Inr data else Inl (errno_to_transfer_error (i32_magnitude st)))"
proof -
  let ?d = "ti_platform_data i"
  have "td_control_in_data ?d = Ret data"
    using assms(3) by (simp add: assms(2) td_control_in_data_def urb_done_def in_flight_def)
  moreover have "urb_status (td_urb ?d) = st" by (simp add: assms(2) urb_done_def)
  ultimately show ?thesis
    using assms(1) td_status_ok [OF assms(4), of ?d] assms(5)
    by (simp add: control_in_finish_def idle_deref_def th_load_def)
qed

text \<open>
  C7. An awaited control IN transfer gives what the device sent. On any Linux device, with any transfers
  pending, let the kernel accept the request and complete it later with a status and any number of bytes
  up to the length asked for. Then building and submitting it does not panic; the kernel is asked for the
  SETUP packet of the request followed by room for the data; the first poll is not ready; the event loop,
  when it reaps the transfer, wakes exactly the task that polled and takes the timeout back; the next
  poll is ready; and the result is the bytes that were received, or the error of the status.
\<close>

theorem control_in_awaited:
  assumes "8 + unat (ci_length ctl) \<le> alloc (8 + unat (ci_length ctl))"
    "alloc (8 + unat (ci_length ctl)) < 2 ^ 32" "length data \<le> unat (ci_length ctl)"
    "now + timeout \<le> instant_max" "from_raw_ok from_raw" "errno_range st"
    "\<forall>p u. \<exists>r k. K (USBDEVFS_SUBMITURB p u) (lx_kern s) = (Inr r, k) \<and> R k = (Inr (p, urb_done st 8 data u), k2)"
  shows "\<exists>fut s1 u h1 s2 t fut2 h2.
    control_in_submit K alloc now n ctl timeout s = Ret (fut, s1) \<and>
    lx_kern s1 = snd (K (USBDEVFS_SUBMITURB (idle_ptr t) u) (lx_kern s)) \<and>
    take 8 (urb_buffer u) = map Some (control_in_setup_packet ctl) \<and>
    urb_buffer_length u = of_nat (8 + unat (ci_length ctl)) \<and>
    transfer_future_poll waker fut (lx_heap s1) = Ret (None, fut, h1) \<and>
    handle_events R now' (s1\<lparr>lx_heap := h1\<rparr>) = Ret (False, NotifyWaker waker, s2) \<and>
    btree_get (ld_timeouts (lx_dev s2)) (TimeoutEntry (now + timeout) (idle_ptr t)) = None \<and>
    transfer_future_poll waker' fut (lx_heap s2) = Ret (Some t, fut2, h2) \<and>
    control_in_finish from_raw t h2 =
      Ret (if st = 0 then Inr data else Inl (errno_to_transfer_error (i32_magnitude st)))"
proof -
  from control_in_reads_data [of ctl alloc data, OF assms(1-3), of st] obtain t where
    t: "new_control_in alloc ctl = Ret t" "urb_buffer_length (td_urb t) = of_nat (8 + unat (ci_length ctl))"
      "take 8 (urb_buffer (td_urb t)) = map Some (control_in_setup_packet ctl)"
      "td_control_in_data (t\<lparr>td_urb := urb_done st 8 data (td_urb t)\<rparr>) = Ret data" by blast
  let ?h = "(lx_heap s)\<lparr>th_notify := (th_notify (lx_heap s))(n := NotifyNone)\<rparr>"
  let ?p = "th_next ?h"
  let ?u = "td_urb (in_flight ?p (now + timeout) t)"
  let ?fut = "\<lparr>tf_transfer = Some (Pending ?p), tf_notify = n\<rparr>"
  obtain idle h0 where new: "idle_new n t ?h = (idle, h0)" by fastforce
  from assms(7) obtain r k where k: "K (USBDEVFS_SUBMITURB ?p ?u) (lx_kern s) = (Inr r, k)"
    "R k = (Inr (?p, urb_done st 8 data ?u), k2)" by blast
  from submit_timeout_accepted [where K = K and s = s and h = ?h and t = t and n = n, OF assms(4) k(1) new] obtain h1 where
    sub: "submit_timeout K now idle timeout (s\<lparr>lx_heap := h0\<rparr>) =
      Ret (Pending ?p, NotifyNone,
        s\<lparr>lx_heap := h1, lx_kern := k,
          lx_dev := (lx_dev s)
            \<lparr>ld_timeouts := btree_insert (TimeoutEntry (now + timeout) ?p) () (ld_timeouts (lx_dev s)),
             ld_timer := update_timeouts
               (btree_insert (TimeoutEntry (now + timeout) ?p) () (ld_timeouts (lx_dev s))) now\<rparr>\<rparr>)"
      "th_mem h1 ?p = Some (flying_block n ?p (now + timeout) t)" by blast
  obtain s1 where s1: "control_in_submit K alloc now n ctl timeout s = Ret (?fut, s1)"
    "lx_heap s1 = h1" "lx_kern s1 = k"
    using t(1) new sub(1) by (simp add: control_in_submit_def)
  let ?h1 = "notify_subscribe n waker h1"
  have p1: "transfer_future_poll waker ?fut (lx_heap s1) = Ret (None, ?fut, ?h1)"
    using poll_flying [of ?fut ?p h1 n "now + timeout" t waker] sub(2) s1(2) by simp
  have m1: "th_mem (lx_heap (s1\<lparr>lx_heap := ?h1\<rparr>)) ?p = Some (flying_block n ?p (now + timeout) t)"
    using sub(2) by (simp add: notify_subscribe_def)
  have uc: "urb_usercontext (urb_done st 8 data ?u) = Some ?p" by (simp add: urb_done_def in_flight_def)
  from handle_events_flying [OF m1 _ uc, where R = R and k = k2] k(2) s1(3) obtain s2 where
    s2: "handle_events R now' (s1\<lparr>lx_heap := ?h1\<rparr>) = Ret (False, th_notify ?h1 n, s2)"
      "th_mem (lx_heap s2) ?p = Some \<lparr>ti_platform_data = (in_flight ?p (now + timeout) t)
         \<lparr>td_urb := urb_done st 8 data ?u\<rparr>, ti_state = STATE_IDLE, ti_notify = n\<rparr>"
      "ld_timeouts (lx_dev s2) = btree_remove (TimeoutEntry (now + timeout) ?p) (ld_timeouts (lx_dev s1))"
    by auto
  have w: "th_notify ?h1 n = NotifyWaker waker" by (simp add: notify_subscribe_def)
  let ?h2 = "notify_subscribe n waker' (lx_heap s2)"
  have p2: "transfer_future_poll waker' ?fut (lx_heap s2) = Ret (Some (Idle ?p), ?fut\<lparr>tf_transfer := None\<rparr>, ?h2)"
    using poll_done [of ?fut ?p "lx_heap s2", OF _ s2(2), of waker'] by simp
  have m2: "th_mem ?h2 ?p = Some \<lparr>ti_platform_data = (in_flight ?p (now + timeout) t)
         \<lparr>td_urb := urb_done st 8 data ?u\<rparr>, ti_state = STATE_IDLE, ti_notify = n\<rparr>"
    using s2(2) by (simp add: notify_subscribe_def)
  have f: "control_in_finish from_raw (Idle ?p) ?h2 =
      Ret (if st = 0 then Inr data else Inl (errno_to_transfer_error (i32_magnitude st)))"
    by (rule finish_done [OF m2 _ t(4) assms(5,6)]) simp
  have tm: "btree_get (ld_timeouts (lx_dev s2)) (TimeoutEntry (now + timeout) ?p) = None"
    by (simp add: s2(3) btree_get_remove)
  have u: "take 8 (urb_buffer ?u) = map Some (control_in_setup_packet ctl)"
      "urb_buffer_length ?u = of_nat (8 + unat (ci_length ctl))"
    using t(2,3) by (simp_all add: in_flight_def)
  show ?thesis
    by (rule exI [of _ ?fut], rule exI [of _ s1], rule exI [of _ ?u], rule exI [of _ ?h1], rule exI [of _ s2],
        rule exI [of _ "Idle ?p"], rule exI [of _ "?fut\<lparr>tf_transfer := None\<rparr>"], rule exI [of _ ?h2])
      (use s1(1,3) k(1) u p1 s2(1) [unfolded w] tm p2 f in \<open>simp del: of_nat_add\<close>)
qed

text \<open>A kernel that keeps the transfers it is given and answers each with two bytes.\<close>

definition echo_kernel :: "(nat \<times> Urb) list kernel" where
  "echo_kernel req k = (case req of USBDEVFS_SUBMITURB p u \<Rightarrow> (Inr 0, [(p, u)]) | _ \<Rightarrow> (Inl EINVAL, k))"

definition echo_reaper :: "(nat \<times> Urb) list reaper" where
  "echo_reaper k =
     (case k of [] \<Rightarrow> (Inl EAGAIN, []) | (p, u) # k \<Rightarrow> (Inr (p, urb_done 0 8 [18, 1] u), []))"

definition idle_device :: "(nat \<times> Urb) list lx" where
  "idle_device =
     \<lparr>lx_dev = \<lparr>ld_events_id = 0, ld_descriptors = [], ld_sysfs = None, ld_active_config = 1,
                ld_timeouts = [], ld_timer = TIMESPEC_ZERO\<rparr>,
      lx_heap = \<lparr>th_mem = (\<lambda>p. None), th_next = 0, th_notify = (\<lambda>n. NotifyNone)\<rparr>,
      lx_kern = []\<rparr>"

theorem control_in_awaited_witness:
  "\<exists>fut s1 h1 s2 t fut2 h2.
    control_in_submit echo_kernel (\<lambda>n. n) 100 0 get_device_descriptor_setup 500 idle_device = Ret (fut, s1) \<and>
    transfer_future_poll 7 fut (lx_heap s1) = Ret (None, fut, h1) \<and>
    handle_events echo_reaper 120 (s1\<lparr>lx_heap := h1\<rparr>) = Ret (False, NotifyWaker 7, s2) \<and>
    transfer_future_poll 7 fut (lx_heap s2) = Ret (Some t, fut2, h2) \<and>
    control_in_finish Ret t h2 = Ret (Inr [18, 1])"
proof -
  have l: "unat (ci_length get_device_descriptor_setup) = 18" by (simp add: get_device_descriptor_setup_def)
  have r: "from_raw_ok Ret" "errno_range 0" by (simp_all add: from_raw_ok_def errno_range_def)
  have n: "100 + 500 \<le> instant_max" by (simp add: instant_max_def nanos_per_sec_def)
  have k: "\<forall>p u. \<exists>r k. echo_kernel (USBDEVFS_SUBMITURB p u) (lx_kern idle_device) = (Inr r, k) \<and>
      echo_reaper k = (Inr (p, urb_done 0 8 [18, 1] u), [])" by (simp add: echo_kernel_def echo_reaper_def)
  have a: "8 + unat (ci_length get_device_descriptor_setup) \<le>
        (\<lambda>n. n) (8 + unat (ci_length get_device_descriptor_setup))"
      "(\<lambda>n. n) (8 + unat (ci_length get_device_descriptor_setup)) < 2 ^ 32"
      "length [18, 1 :: u8] \<le> unat (ci_length get_device_descriptor_setup)" by (simp_all add: l)
  from control_in_awaited [of get_device_descriptor_setup "\<lambda>n. n" "[18, 1]" 100 500 Ret 0 echo_kernel idle_device
      echo_reaper "[]", OF a n r k, where n = 0 and waker = 7 and waker' = 7 and now' = 120]
  show ?thesis by auto
qed

end
