(* ===== verification/Portable_Streams.thy ===== *)
theory Portable_Streams
  imports Reader_Stream Writer_Stream Windows_Endpoint_Theorems Mac_Endpoint_Theorems
begin

text \<open>
  The readers and writers of src/src/io on the Windows and the macOS backend: the results of Reader_Stream
  and Writer_Stream hold on every backend that keeps the contract.
\<close>

section \<open>On a backend that keeps its contract\<close>

text \<open>
  The stream of a reader, as for Linux: the history panics exactly when a call consumes too much;
  otherwise it returns the bytes of the completions, in order, up to those that are still buffered, which
  any \<open>fill_buf\<close> then shows. \<open>past\<close> are the completions that the endpoint has given back.
\<close>

definition reads_stream ::
  "(nat \<Rightarrow> nat) \<Rightarrow> 'e backend \<Rightarrow> ('e \<Rightarrow> Completion list) \<Rightarrow> nat \<Rightarrow> nat \<Rightarrow> nat \<Rightarrow> read_op list \<Rightarrow> 'e EndpointRead \<Rightarrow> bool"
where
  "reads_stream alloc B past fuel rounds cx ops r0 \<longleftrightarrow>
     (if overconsumes alloc B fuel ops r0 then read_run alloc B fuel ops r0 = Panic
      else \<exists>out r. read_run alloc B fuel ops r0 = Ret (out, r) \<and> out @ unread r = received (past (er_endpoint r)) \<and>
        shows_unread (omap polled_result (fill_buf alloc B rounds r)) \<and>
        shows_unread (omap polled_result (short_fill_buf alloc B rounds r)) \<and>
        shows_unread (poll_fill_buf alloc B rounds cx r) \<and> shows_unread (short_poll_fill_buf alloc B rounds cx r))"

text \<open>
  The stream of a writer, without debug assertions and with them; \<open>queue\<close> are the buffers that the
  endpoint holds.
\<close>

definition writes_stream ::
  "(nat \<Rightarrow> nat) \<Rightarrow> 'e backend \<Rightarrow> ('e \<Rightarrow> Buffer list) \<Rightarrow> ('e \<Rightarrow> Completion list) \<Rightarrow> nat \<Rightarrow> write_op list \<Rightarrow>
   'e EndpointWrite \<Rightarrow> bool" where
  "writes_stream alloc B queue past fuel ops w0 \<longleftrightarrow>
     (if list_all keeps_transfers ops
      then \<exists>taken w. write_run False alloc B fuel ops w0 = Ret (taken, w) \<and>
        taken = sent (past (ew_endpoint w)) (queue (ew_endpoint w)) @ buffered w
      else write_run False alloc B fuel ops w0 = Panic) \<and>
     (write_run True alloc B fuel ops w0 = write_run False alloc B fuel ops w0 \<or>
      write_run True alloc B fuel ops w0 = Panic \<and> \<not> exact_alloc alloc (ew_transfer_size w0))"

text \<open>A history that returns has its stream.\<close>

lemma reads_streamD:
  assumes "reads_stream alloc B past fuel rounds cx ops r0" "omap fst (read_run alloc B fuel ops r0) = Ret bs"
  shows "\<exists>out r. read_run alloc B fuel ops r0 = Ret (out, r) \<and> out @ unread r = received (past (er_endpoint r))"
  using assms by (auto simp: reads_stream_def split: if_splits)

lemma new_streams_packet:
  "reader_new B e n = Ret r0 \<Longrightarrow> 0 < be_max_packet_size B e"
  "writer_new B e n = Ret w0 \<Longrightarrow> 0 < be_max_packet_size B e"
  by (auto simp: reader_new_def writer_new_def round_up_transfer_size_def split: if_splits)

context in_backend begin

lemma new_reader_stream:
  assumes "ok e" "past e = []" "reader_new B e n = Ret r0" "size_ok alloc (er_transfer_size r0)"
  shows "reads_stream alloc B past fuel rounds cx ops r0"
proof -
  have r0: "er_endpoint r0 = e" "er_reading r0 = None"
    using assms(3) by (auto simp: reader_new_def obind_Ret_iff)
  then have "rd_ok alloc r0" "rd_past r0 = []" "unread r0 = []"
    using assms(1,2,4) by (simp_all add: rd_ok_def rd_past_def unread_def)
  from read_run_stream [OF this, of fuel ops rounds cx] show ?thesis
    unfolding reads_stream_def rd_past_def .
qed

end

context out_backend begin

lemma new_writer_stream:
  assumes "ok e" "past e = []" "queue e = []" "writer_new B e n = Ret w0" "size_ok alloc (ew_transfer_size w0)"
    "size_ok alloc 0"
  shows "writes_stream alloc B queue past fuel ops w0"
proof -
  have w0: "ew_endpoint w0 = e" "ew_writing w0 = None" "0 < ew_num_transfers w0" "0 < ew_transfer_size w0"
    using assms(4) packet_pos [OF assms(1)]
    by (auto simp: writer_new_def obind_Ret_iff round_up_transfer_size_def Let_def split: if_splits)
  then have ok: "wr_ok False alloc w0" "exact_alloc alloc (ew_transfer_size w0) \<Longrightarrow> wr_ok True alloc w0"
    and start: "wr_sent w0 = []" "buffered w0 = []"
    using assms(1-3,5,6) by (simp_all add: wr_ok_def wr_sent_def buffered_def sent_def)
  have "if list_all keeps_transfers ops
      then \<exists>taken w. write_run False alloc B fuel ops w0 = Ret (taken, w) \<and>
        taken = sent (past (ew_endpoint w)) (queue (ew_endpoint w)) @ buffered w
      else write_run False alloc B fuel ops w0 = Panic"
    using write_run_outcome [OF ok(1), of ops fuel] start by (auto simp: took_def wr_sent_def split: if_splits)
  moreover have "write_run True alloc B fuel ops w0 = write_run False alloc B fuel ops w0 \<or>
      write_run True alloc B fuel ops w0 = Panic \<and> \<not> exact_alloc alloc (ew_transfer_size w0)"
    using debug_write_run [of alloc B fuel ops w0] write_run_outcome [OF ok(2), of ops fuel]
      write_run_outcome [OF ok(1), of ops fuel]
    by (cases "exact_alloc alloc (ew_transfer_size w0)") (auto simp: or_panics_def split: if_splits)
  ultimately show ?thesis unfolding writes_stream_def by blast
qed

end

section \<open>Windows and macOS\<close>

text \<open>The backends as sources and as sinks, by the address of the endpoint.\<close>

lemma windows_source: "direction_from_address addr = In \<Longrightarrow>
    in_backend {AllocDefault} windows_backend (windows.qs_good addr) qs_bufs qs_past"
  using windows.backend.endpoint_backend_axioms [of addr] by (simp add: in_backend.intro windows_backend_def)

lemma windows_sink: "direction_from_address addr = Out \<Longrightarrow>
    out_backend {AllocDefault} windows_backend (windows.qs_good addr) qs_bufs qs_past"
  using windows.backend.endpoint_backend_axioms [of addr] by (simp add: out_backend.intro windows_backend_def)

lemma mac_source: "direction_from_address addr = In \<Longrightarrow>
    in_backend {AllocDefault} (mac_backend addr) (mac.qs_good addr pipe) qs_bufs qs_past"
  using mac.backend.endpoint_backend_axioms [of addr pipe] by (simp add: in_backend.intro mac_backend_def)

lemma mac_sink: "direction_from_address addr = Out \<Longrightarrow>
    out_backend {AllocDefault} (mac_backend addr) (mac.qs_good addr pipe) qs_bufs qs_past"
  using mac.backend.endpoint_backend_axioms [of addr pipe] by (simp add: out_backend.intro mac_backend_def)

lemma open_packet:
  "be_max_packet_size windows_backend (windows_open addr mps sched submits events) = mps"
  "be_max_packet_size (mac_backend addr) (mac_open addr pipe mps sched submits events) = mps"
  by (simp_all add: windows_backend_def mac_backend_def windows_open_def mac_open_def)

text \<open>
  C5. The streams of Linux hold on Windows and macOS, on any system that refuses and completes transfers
  as it likes, with an allocator that gives at least what is asked and less than 4 GiB. A reader on an IN
  endpoint that has just been opened panics exactly when a call consumes more than is buffered, or
  anything through the \<open>BufRead\<close> of the adapter, and otherwise returns the received bytes exactly once
  and in order. A writer on an OUT endpoint sends the bytes it accepts; without debug assertions it
  panics exactly when the number of transfers is set to zero, and with them it does the same if the
  allocator gives exactly what is asked, and the same or panics if it gives more.
\<close>

theorem portable_streams:
  assumes "direction_from_address src = In" "direction_from_address dst = Out"
  shows "(\<forall>r0. reader_new windows_backend (windows_open src mps sched submits events) n = Ret r0 \<and>
        size_ok alloc (er_transfer_size r0) \<longrightarrow>
      reads_stream alloc windows_backend qs_past fuel rounds cx rops r0) \<and>
    (\<forall>r0. reader_new (mac_backend src) (mac_open src pipe mps sched submits events) n = Ret r0 \<and>
        size_ok alloc (er_transfer_size r0) \<longrightarrow>
      reads_stream alloc (mac_backend src) qs_past fuel rounds cx rops r0) \<and>
    (\<forall>w0. writer_new windows_backend (windows_open dst mps sched submits events) n = Ret w0 \<and>
        size_ok alloc (ew_transfer_size w0) \<and> size_ok alloc 0 \<longrightarrow>
      writes_stream alloc windows_backend qs_bufs qs_past fuel wops w0) \<and>
    (\<forall>w0. writer_new (mac_backend dst) (mac_open dst pipe mps sched submits events) n = Ret w0 \<and>
        size_ok alloc (ew_transfer_size w0) \<and> size_ok alloc 0 \<longrightarrow>
      writes_stream alloc (mac_backend dst) qs_bufs qs_past fuel wops w0)"
proof (intro conjI allI impI, goal_cases)
  case (1 r0)
  then have mps: "0 < mps" using new_streams_packet(1) open_packet(1) by metis
  show ?case
    by (rule in_backend.new_reader_stream [OF windows_source [OF assms(1)] windows_open_good [OF mps]
        windows_open_empty(2) conjunct1 [OF 1] conjunct2 [OF 1]])
next
  case (2 r0)
  then have mps: "0 < mps" using new_streams_packet(1) open_packet(2) by metis
  show ?case
    by (rule in_backend.new_reader_stream [OF mac_source [OF assms(1)] mac_open_good [OF mps]
        mac_open_empty(2) conjunct1 [OF 2] conjunct2 [OF 2]])
next
  case (3 w0)
  then have mps: "0 < mps" using new_streams_packet(2) open_packet(1) by metis
  show ?case
    by (rule out_backend.new_writer_stream [OF windows_sink [OF assms(2)] windows_open_good [OF mps]
        windows_open_empty(2,1) conjunct1 [OF 3] conjunct1 [OF conjunct2 [OF 3]] conjunct2 [OF conjunct2 [OF 3]]])
next
  case (4 w0)
  then have mps: "0 < mps" using new_streams_packet(2) open_packet(2) by metis
  show ?case
    by (rule out_backend.new_writer_stream [OF mac_sink [OF assms(2)] mac_open_good [OF mps]
        mac_open_empty(2,1) conjunct1 [OF 4] conjunct1 [OF conjunct2 [OF 4]] conjunct2 [OF conjunct2 [OF 4]]])
qed

theorem portable_streams_witness:
  "\<exists>r0 w0. reader_new windows_backend (windows_open 0x81 4 [1, 1] [] [(0, 0, [1, 2]), (0, 0, [3])]) 4 = Ret r0 \<and>
      writer_new (mac_backend 0x02) (mac_open 0x02 1 4 [1, 1] [] [(0, 0, [1, 2]), (0, 0, [3])]) 4 = Ret w0 \<and>
      (\<exists>out r. read_run id windows_backend 5 [ReadOp 1, FillBufOp, ConsumeOp 1, ReadOp 7] r0 = Ret (out, r) \<and>
        out @ unread r = received (qs_past (er_endpoint r))) \<and>
      omap fst (read_run id windows_backend 5 [ReadOp 1, FillBufOp, ConsumeOp 1, ReadOp 7] r0) = Ret [1, 2, 3] \<and>
      (\<exists>taken w. write_run False id (mac_backend 0x02) 5 [WriteOp [1, 2, 3], WriteOp [4, 5]] w0 = Ret (taken, w) \<and>
        taken = sent (qs_past (ew_endpoint w)) (qs_bufs (ew_endpoint w)) @ buffered w)"
proof -
  let ?e = "[(0, 0, [1, 2]), (0, 0, [3])]"
  let ?r0 = "reader_new windows_backend (windows_open 0x81 4 [1, 1] [] ?e) 4"
  let ?w0 = "writer_new (mac_backend 0x02) (mac_open 0x02 1 4 [1, 1] [] ?e) 4"
  let ?rops = "[ReadOp 1, FillBufOp, ConsumeOp 1, ReadOp 7]"
  let ?wops = "[WriteOp [1, 2, 3], WriteOp [4, 5]]"
  have "omap er_transfer_size ?r0 = Ret 4" "omap ew_transfer_size ?w0 = Ret 4" by code_simp+
  then obtain r0 w0 where r0: "?r0 = Ret r0" "er_transfer_size r0 = 4" and w0: "?w0 = Ret w0" "ew_transfer_size w0 = 4"
    by (auto simp: omap_Ret_iff)
  have "obind ?r0 (\<lambda>r. omap fst (read_run id windows_backend 5 ?rops r)) = Ret [1, 2, 3]" by code_simp
  with r0(1) have out: "omap fst (read_run id windows_backend 5 ?rops r0) = Ret [1, 2, 3]" by simp
  have p: "direction_from_address 0x81 = In" "direction_from_address 0x02 = Out" "list_all keeps_transfers ?wops"
      "size_ok id (er_transfer_size r0)" "size_ok id (ew_transfer_size w0)" "size_ok id 0"
    by (simp_all add: size_ok_def keeps_transfers_def direction_from_address_def direction_mask_def r0(2) w0(2))
  note s = portable_streams [OF p(1,2), where sched = "[1, 1]" and submits = "[]" and events = ?e and n = 4 and
      mps = 4 and fuel = 5 and rops = ?rops and wops = ?wops and pipe = 1 and alloc = id]
  have "reads_stream id windows_backend qs_past 5 0 0 ?rops r0" using s [where rounds = 0 and cx = 0] r0(1) p(4) by blast
  from reads_streamD [OF this out] have "\<exists>out r. read_run id windows_backend 5 ?rops r0 = Ret (out, r) \<and>
      out @ unread r = received (qs_past (er_endpoint r))" .
  moreover have "writes_stream id (mac_backend 0x02) qs_bufs qs_past 5 ?wops w0" using s w0(1) p(5,6) by blast
  then have "\<exists>taken w. write_run False id (mac_backend 0x02) 5 ?wops w0 = Ret (taken, w) \<and>
      taken = sent (qs_past (ew_endpoint w)) (qs_bufs (ew_endpoint w)) @ buffered w"
    using p(3) unfolding writes_stream_def by simp
  ultimately show ?thesis using r0(1) w0(1) out by blast
qed

end
