(* ===== verification/Mac_Objects.thy ===== *)
theory Mac_Objects
  imports Mac_Hotplug
begin

text \<open>
  src/src/platform/macos_iokit/iokit.rs and enumeration.rs with the handles of IOKit: every service and
  every iterator is an object that is released once. The enumeration over handles gives what
  \<open>Mac_Enumeration\<close> gives over values, however far its iterators are read, and keeps no handle.
\<close>

section \<open>Objects of IOKit\<close>

datatype io_object = ServiceObject IoService | IteratorObject "IoService list"

text \<open>Handles are not given twice and not 0; \<open>ik_bad\<close> is set by a call on a handle that is not alive.\<close>

record io_store =
  ik_last :: nat
  ik_objects :: "nat \<rightharpoonup> io_object"
  ik_bad :: bool

definition io_store_init :: io_store where
  "io_store_init = \<lparr>ik_last = 0, ik_objects = Map.empty, ik_bad = False\<rparr>"

text \<open>Exactly the objects \<open>A\<close> are alive, and all calls so far were right.\<close>

definition ik_ok :: "(nat \<rightharpoonup> io_object) \<Rightarrow> io_store \<Rightarrow> bool" where
  "ik_ok A s \<longleftrightarrow> \<not> ik_bad s \<and> ik_objects s = A \<and> (\<forall>h \<in> dom A. 0 < h \<and> h \<le> ik_last s)"

text \<open>An action: \<open>None\<close> if it does not return.\<close>

type_synonym 'a io = "io_store \<Rightarrow> ('a \<times> io_store) option"

definition io_return :: "'a \<Rightarrow> 'a io" where
  "io_return x s = Some (x, s)"

definition io_bind :: "'a io \<Rightarrow> ('a \<Rightarrow> 'b io) \<Rightarrow> 'b io" where
  "io_bind m f s = Option.bind (m s) (\<lambda>(x, s). f x s)"

text \<open>The operator \<open>?\<close> on an option.\<close>

definition io_try :: "'a option io \<Rightarrow> ('a \<Rightarrow> 'b option io) \<Rightarrow> 'b option io" where
  "io_try m f = io_bind m (\<lambda>r. case r of None \<Rightarrow> io_return None | Some x \<Rightarrow> f x)"

definition io_create :: "io_object \<Rightarrow> nat io" where
  "io_create obj s =
     (let h = ik_last s + 1
      in Some (h, s\<lparr>ik_last := h, ik_objects := (ik_objects s)(h \<mapsto> obj)\<rparr>))"

text \<open>\<open>IOObjectRelease\<close>, which is \<open>drop\<close> of \<open>IoObject\<close>.\<close>

definition io_release :: "nat \<Rightarrow> unit io" where
  "io_release h s =
     (case ik_objects s h of
        None \<Rightarrow> Some ((), s\<lparr>ik_bad := True\<rparr>)
      | Some obj \<Rightarrow> Some ((), s\<lparr>ik_objects := (ik_objects s)(h := None)\<rparr>))"

text \<open>\<open>IOIteratorNext\<close>: the handle of the next service, which belongs to the caller, or 0.\<close>

definition io_iterator_next :: "nat \<Rightarrow> nat io" where
  "io_iterator_next it s =
     (case ik_objects s it of
        Some (IteratorObject []) \<Rightarrow> Some (0, s)
      | Some (IteratorObject (d # ds)) \<Rightarrow>
          io_create (ServiceObject d) (s\<lparr>ik_objects := (ik_objects s)(it \<mapsto> IteratorObject ds)\<rparr>)
      | _ \<Rightarrow> Some (0, s\<lparr>ik_bad := True\<rparr>))"

text \<open>\<open>next\<close> of \<open>IoServiceIterator\<close>.\<close>

definition io_service_next :: "nat \<Rightarrow> nat option io" where
  "io_service_next it =
     io_bind (io_iterator_next it) (\<lambda>handle. io_return (if handle \<noteq> 0 then Some handle else None))"

definition io_read :: "(IoService \<Rightarrow> 'a option) \<Rightarrow> nat \<Rightarrow> 'a option io" where
  "io_read f h s =
     (case ik_objects s h of
        Some (ServiceObject d) \<Rightarrow> Some (f d, s)
      | _ \<Rightarrow> Some (None, s\<lparr>ik_bad := True\<rparr>))"

text \<open>\<open>IORegistryEntryGetChildIterator\<close>.\<close>

definition io_child_iterator :: "nat \<Rightarrow> (IOReturn + nat) io" where
  "io_child_iterator h s =
     (case ik_objects s h of
        Some (ServiceObject d) \<Rightarrow>
          (case io_children d of
             Inl r \<Rightarrow> Some (Inl r, s)
           | Inr cs \<Rightarrow> io_bind (io_create (IteratorObject cs)) (\<lambda>it. io_return (Inr it)) s)
      | _ \<Rightarrow> Some (Inl kIOReturnBadArgument, s\<lparr>ik_bad := True\<rparr>))"

text \<open>\<open>IOServiceMatching\<close> and \<open>IOServiceGetMatchingServices\<close>.\<close>

definition io_matching_services :: "matching \<Rightarrow> string \<Rightarrow> (nusb_error + nat) io" where
  "io_matching_services M class =
     (case M class of
        None \<Rightarrow> io_return (Inl (error_new KOther ''IOServiceMatching failed''))
      | Some (Inl r) \<Rightarrow> io_return (Inl (mac_error_new_os KOther ''failed to create IOKit iterator'' r))
      | Some (Inr ss) \<Rightarrow> io_bind (io_create (IteratorObject ss)) (\<lambda>it. io_return (Inr it)))"

section \<open>Adapters of iterators\<close>

text \<open>\<open>next\<close> of \<open>filter_map\<close> (and of \<open>flat_map\<close> with options); \<open>f\<close> gets the service by value.\<close>

partial_function (option) io_filter_next :: "(nat \<Rightarrow> 'a option io) \<Rightarrow> nat \<Rightarrow> 'a option io" where
  [code]: "io_filter_next f it s =
     Option.bind (io_service_next it s) (\<lambda>(r, s).
       case r of
         None \<Rightarrow> Some (None, s)
       | Some h \<Rightarrow> Option.bind (f h s) (\<lambda>(r, s).
           case r of None \<Rightarrow> io_filter_next f it s | Some x \<Rightarrow> Some (Some x, s)))"

text \<open>\<open>collect\<close>.\<close>

partial_function (option) io_collect :: "(nat \<Rightarrow> 'a option io) \<Rightarrow> nat \<Rightarrow> 'a list io" where
  [code]: "io_collect f it s =
     Option.bind (io_filter_next f it s) (\<lambda>(r, s).
       case r of
         None \<Rightarrow> Some ([], s)
       | Some x \<Rightarrow> Option.bind (io_collect f it s) (\<lambda>(xs, s). Some (x # xs, s)))"

text \<open>A caller that takes at most \<open>n\<close> items and then drops the iterator.\<close>

fun io_take :: "nat \<Rightarrow> (nat \<Rightarrow> 'a option io) \<Rightarrow> nat \<Rightarrow> 'a list io" where
  "io_take 0 f it = io_bind (io_release it) (\<lambda>_. io_return [])"
| "io_take (Suc n) f it =
     io_bind (io_filter_next f it) (\<lambda>r.
       case r of
         None \<Rightarrow> io_bind (io_release it) (\<lambda>_. io_return [])
       | Some x \<Rightarrow> io_bind (io_take n f it) (\<lambda>xs. io_return (x # xs)))"

section \<open>Enumeration\<close>

definition io_get_registry_id :: "nat \<Rightarrow> u64 option io" where
  "io_get_registry_id h = io_read io_registry_id h"

definition io_get_property :: "nat \<Rightarrow> string \<Rightarrow> cf_value option io" where
  "io_get_property h k = io_read (\<lambda>d. io_property d k) h"

definition io_string_property :: "nat \<Rightarrow> string \<Rightarrow> string option io" where
  "io_string_property h k =
     io_bind (io_get_property h k) (\<lambda>v. io_return (case v of Some (CfString x) \<Rightarrow> Some x | _ \<Rightarrow> None))"

definition io_integer_property :: "nat \<Rightarrow> string \<Rightarrow> int option io" where
  "io_integer_property h k =
     io_bind (io_get_property h k) (\<lambda>v. io_return (case v of Some (CfNumber n) \<Rightarrow> n | _ \<Rightarrow> None))"

definition io_ascii_array_property :: "nat \<Rightarrow> string \<Rightarrow> string option io" where
  "io_ascii_array_property h k =
     io_bind (io_get_property h k) (\<lambda>v. io_return
       (case v of
          Some (CfData bs) \<Rightarrow> Some (filter (\<lambda>c. c \<noteq> CHR 0x00) (map (\<lambda>b. char_of (unat b)) bs))
        | _ \<Rightarrow> None))"

text \<open>With the cast that follows.\<close>

definition io_int_property :: "nat \<Rightarrow> string \<Rightarrow> ('a::len) word option io" where
  "io_int_property h k = io_bind (io_integer_property h k) (\<lambda>v. io_return (map_option word_of_int v))"

text \<open>The old key is read only when the new one has no string.\<close>

definition io_string_or :: "nat \<Rightarrow> string \<Rightarrow> string \<Rightarrow> string option io" where
  "io_string_or h k k' =
     io_bind (io_string_property h k) (\<lambda>v.
       case v of None \<Rightarrow> io_string_property h k' | Some x \<Rightarrow> io_return (Some x))"

text \<open>The end of a body that owns a service: it is released on every return.\<close>

definition io_owning :: "nat \<Rightarrow> 'a io \<Rightarrow> 'a io" where
  "io_owning h m = io_bind m (\<lambda>x. io_bind (io_release h) (\<lambda>_. io_return x))"

definition io_child_interface :: "nat \<Rightarrow> InterfaceInfo option io" where
  "io_child_interface h = io_owning h
     (io_try (io_int_property h ''bInterfaceNumber'') (\<lambda>num.
      io_try (io_int_property h ''bInterfaceClass'') (\<lambda>cl.
      io_try (io_int_property h ''bInterfaceSubClass'') (\<lambda>sub.
      io_try (io_int_property h ''bInterfaceProtocol'') (\<lambda>proto.
      io_bind (io_string_or h ''kUSBString'' ''USB Interface Name'') (\<lambda>str.
        io_return (Some
          \<lparr>ii_interface_number = num, ii_class = cl, ii_subclass = sub, ii_protocol = proto,
           ii_interface_string = str\<rparr>)))))))"

definition io_interfaces :: "nat \<Rightarrow> InterfaceInfo list io" where
  "io_interfaces h =
     io_bind (io_child_iterator h) (\<lambda>r.
       case r of
         Inl e \<Rightarrow> io_return []
       | Inr it \<Rightarrow> io_owning it (io_collect io_child_interface it))"

definition io_probe_device :: "nat \<Rightarrow> MacDeviceInfo option io" where
  "io_probe_device h = io_owning h
     (io_try (io_get_registry_id h) (\<lambda>registry_id.
      io_try (io_int_property h ''locationID'') (\<lambda>loc.
      io_try (io_int_property h ''USB Address'') (\<lambda>address.
      io_try (io_int_property h ''idVendor'') (\<lambda>vendor_id.
      io_try (io_int_property h ''idProduct'') (\<lambda>product_id.
      io_try (io_int_property h ''bcdDevice'') (\<lambda>device_version.
      io_try (io_int_property h ''bcdUSB'') (\<lambda>usb_version.
      io_try (io_int_property h ''bDeviceClass'') (\<lambda>cl.
      io_try (io_int_property h ''bDeviceSubClass'') (\<lambda>sub.
      io_try (io_int_property h ''bDeviceProtocol'') (\<lambda>proto.
      io_bind (io_integer_property h ''Device Speed'') (\<lambda>speed.
      io_bind (io_string_or h ''kUSBVendorString'' ''USB Vendor Name'') (\<lambda>man.
      io_bind (io_string_or h ''kUSBProductString'' ''USB Product Name'') (\<lambda>prod.
      io_bind (io_string_or h ''kUSBSerialNumberString'' ''USB Serial Number'') (\<lambda>ser.
      io_bind (io_interfaces h) (\<lambda>interfaces.
        io_return (Some
          \<lparr>di_bus_id = location_bus_id loc, di_device_address = address,
           di_port_chain = parse_location_id loc, di_vendor_id = vendor_id, di_product_id = product_id,
           di_device_version = device_version, di_usb_version = usb_version, di_class = cl,
           di_subclass = sub, di_protocol = proto, di_speed = Option.bind speed map_speed,
           di_manufacturer_string = man, di_product_string = prod, di_serial_number = ser,
           di_interfaces = interfaces,
           mdi_registry_id = registry_id, mdi_location_id = loc\<rparr>)))))))))))))))))"

definition io_probe_bus :: "UsbControllerType \<Rightarrow> nat \<Rightarrow> MacBusInfo option io" where
  "io_probe_bus host_controller h = io_owning h
     (io_try (io_get_registry_id h) (\<lambda>registry_id.
      io_try (io_int_property h ''locationID'') (\<lambda>loc.
      io_bind (io_ascii_array_property h ''name'') (\<lambda>name.
      io_bind (io_string_property h ''CFBundleIdentifier'') (\<lambda>driver.
      io_try (io_string_property h ''IOProviderClass'') (\<lambda>provider_class_name.
      io_try (io_string_property h ''IOClass'') (\<lambda>class_name.
        io_return (Some
          \<lparr>bi_driver = driver, bi_bus_id = location_bus_id loc,
           bi_controller_type = Some host_controller, mbi_registry_id = registry_id,
           mbi_location_id = loc, mbi_provider_class_name = provider_class_name,
           mbi_class_name = class_name, mbi_name = name\<rparr>))))))))"

text \<open>The result is the iterator over which \<open>probe_device\<close> is mapped.\<close>

definition io_list_devices :: "matching \<Rightarrow> (nusb_error + nat) io" where
  "io_list_devices M = io_matching_services M ''IOUSBDevice''"

text \<open>A caller of \<open>list_devices\<close> that takes at most \<open>n\<close> devices and drops the iterator.\<close>

definition io_take_devices :: "matching \<Rightarrow> nat \<Rightarrow> (nusb_error + MacDeviceInfo list) io" where
  "io_take_devices M n =
     io_bind (io_list_devices M) (\<lambda>r.
       case r of
         Inl e \<Rightarrow> io_return (Inl e)
       | Inr it \<Rightarrow> io_bind (io_take n io_probe_device it) (\<lambda>ds. io_return (Inr ds)))"

text \<open>\<open>find\<close> in \<open>service_by_registry_id\<close>: a service that does not match is dropped.\<close>

definition io_has_registry_id :: "u64 \<Rightarrow> nat \<Rightarrow> nat option io" where
  "io_has_registry_id registry_id h =
     io_bind (io_get_registry_id h) (\<lambda>r.
       if r = Some registry_id then io_return (Some h)
       else io_bind (io_release h) (\<lambda>_. io_return None))"

definition io_service_by_registry_id :: "matching \<Rightarrow> u64 \<Rightarrow> (nusb_error + nat) io" where
  "io_service_by_registry_id M registry_id =
     io_bind (io_matching_services M ''IOUSBDevice'') (\<lambda>r.
       case r of
         Inl e \<Rightarrow> io_return (Inl e)
       | Inr it \<Rightarrow>
           io_bind (io_owning it (io_filter_next (io_has_registry_id registry_id) it)) (\<lambda>found.
             io_return
               (case found of
                  None \<Rightarrow> Inl (error_new KNotFound ''not found by registry id'')
                | Some h \<Rightarrow> Inr h)))"

definition io_device_descriptor_from_fields :: "nat \<Rightarrow> DeviceDescriptor option io" where
  "io_device_descriptor_from_fields h =
     io_try (io_int_property h ''bcdUSB'') (\<lambda>usb_version.
     io_try (io_int_property h ''bDeviceClass'') (\<lambda>cl.
     io_try (io_int_property h ''bDeviceSubClass'') (\<lambda>sub.
     io_try (io_int_property h ''bDeviceProtocol'') (\<lambda>proto.
     io_try (io_int_property h ''bMaxPacketSize0'') (\<lambda>mps.
     io_try (io_int_property h ''idVendor'') (\<lambda>vendor_id.
     io_try (io_int_property h ''idProduct'') (\<lambda>product_id.
     io_try (io_int_property h ''bcdDevice'') (\<lambda>device_version.
     io_try (io_int_property h ''iManufacturer'') (\<lambda>man.
     io_try (io_int_property h ''iProduct'') (\<lambda>prod.
     io_try (io_int_property h ''iSerialNumber'') (\<lambda>ser.
     io_try (io_int_property h ''bNumConfigurations'') (\<lambda>num.
       io_return (Some (device_from_fields usb_version cl sub proto mps vendor_id product_id
         device_version man prod ser num))))))))))))))"

text \<open>
  The iterator of \<open>list_buses\<close>: the controller types left and the iterator of the present one, which
  is dropped at its end. A type that cannot be listed is left out.
\<close>

type_synonym bus_iter = "UsbControllerType list \<times> (UsbControllerType \<times> nat) option"

partial_function (option) io_bus_next :: "matching \<Rightarrow> bus_iter \<Rightarrow> (MacBusInfo option \<times> bus_iter) io" where
  [code]: "io_bus_next M b s =
     (case b of
        (ts, Some (t, it)) \<Rightarrow>
          Option.bind (io_filter_next (io_probe_bus t) it s) (\<lambda>(r, s).
            case r of
              Some bus \<Rightarrow> Some ((Some bus, b), s)
            | None \<Rightarrow> Option.bind (io_release it s) (\<lambda>(_, s). io_bus_next M (ts, None) s))
      | ([], None) \<Rightarrow> Some ((None, b), s)
      | (t # ts, None) \<Rightarrow>
          Option.bind (io_matching_services M (controller_class t) s) (\<lambda>(r, s).
            case r of
              Inl e \<Rightarrow> io_bus_next M (ts, None) s
            | Inr it \<Rightarrow> io_bus_next M (ts, Some (t, it)) s))"

definition io_list_buses :: bus_iter where
  "io_list_buses = ([XHCI, EHCI, OHCI, VHCI], None)"

definition io_drop_buses :: "bus_iter \<Rightarrow> unit io" where
  "io_drop_buses b = (case snd b of None \<Rightarrow> io_return () | Some (t, it) \<Rightarrow> io_release it)"

fun io_take_buses :: "matching \<Rightarrow> nat \<Rightarrow> bus_iter \<Rightarrow> MacBusInfo list io" where
  "io_take_buses M 0 b = io_bind (io_drop_buses b) (\<lambda>_. io_return [])"
| "io_take_buses M (Suc n) b =
     io_bind (io_bus_next M b) (\<lambda>(r, b).
       case r of
         None \<Rightarrow> io_bind (io_drop_buses b) (\<lambda>_. io_return [])
       | Some bus \<Rightarrow> io_bind (io_take_buses M n b) (\<lambda>buses. io_return (bus # buses)))"

section \<open>Hotplug\<close>

text \<open>\<open>poll_next\<close> after the waker is registered, on the handles of the two iterators.\<close>

definition io_hotplug_next :: "nat \<Rightarrow> nat \<Rightarrow> (MacDeviceInfo, u64) HotplugEvent option io" where
  "io_hotplug_next matched terminated =
     io_bind (io_filter_next io_probe_device matched) (\<lambda>r.
       case r of
         Some dev \<Rightarrow> io_return (Some (ConnectedEvent dev))
       | None \<Rightarrow>
           io_bind (io_service_next terminated) (\<lambda>r.
             case r of
               None \<Rightarrow> io_return None
             | Some h \<Rightarrow> io_owning h
                 (io_bind (io_get_registry_id h) (\<lambda>r. io_return (map_option DisconnectedEvent r)))))"

text \<open>\<open>while let Some(_) = iter.next() {}\<close>\<close>

definition io_drain :: "nat \<Rightarrow> unit io" where
  "io_drain it = io_bind (io_filter_next (\<lambda>h. io_owning h (io_return (None :: unit option))) it) (\<lambda>_. io_return ())"

end
