(* ===== verification/Mac_Objects_Theorems.thy ===== *)
theory Mac_Objects_Theorems
  imports Mac_Objects Mac_Enumeration_Theorems
begin

text \<open>
  The enumeration over handles refines the enumeration over values and keeps no object of IOKit alive.
\<close>

section \<open>Triples\<close>

text \<open>With the objects \<open>A\<close> alive, an action returns; \<open>Q\<close> holds of the result and the objects left.\<close>

definition ends :: "(nat \<rightharpoonup> io_object) \<Rightarrow> 'a io \<Rightarrow> ('a \<Rightarrow> (nat \<rightharpoonup> io_object) \<Rightarrow> bool) \<Rightarrow> bool" where
  "ends A m Q \<longleftrightarrow> (\<forall>s. ik_ok A s \<longrightarrow> (\<exists>x s' B. m s = Some (x, s') \<and> ik_ok B s' \<and> Q x B))"

text \<open>It returns \<open>x\<close> and leaves the objects \<open>B\<close>.\<close>

definition gives :: "(nat \<rightharpoonup> io_object) \<Rightarrow> 'a io \<Rightarrow> 'a \<Rightarrow> (nat \<rightharpoonup> io_object) \<Rightarrow> bool" where
  "gives A m x B \<longleftrightarrow> ends A m (\<lambda>y C. y = x \<and> C = B)"

lemma gives_iff: "gives A m x B \<longleftrightarrow> (\<forall>s. ik_ok A s \<longrightarrow> (\<exists>s'. m s = Some (x, s') \<and> ik_ok B s'))"
  by (simp add: gives_def ends_def)

lemma endsD: "ends A m Q \<Longrightarrow> ik_ok A s \<Longrightarrow> \<exists>x s' B. m s = Some (x, s') \<and> ik_ok B s' \<and> Q x B"
  by (simp add: ends_def)

lemma givesD: "gives A m x B \<Longrightarrow> ik_ok A s \<Longrightarrow> \<exists>s'. m s = Some (x, s') \<and> ik_ok B s'"
  by (simp add: gives_iff)

lemma ends_bind:
  assumes "ends A m Q" "\<And>x B. Q x B \<Longrightarrow> ends B (f x) R"
  shows "ends A (io_bind m f) R"
  unfolding ends_def
proof (intro allI impI)
  fix s assume "ik_ok A s"
  from endsD [OF assms(1) this] obtain x s' B where x: "m s = Some (x, s')" "ik_ok B s'" "Q x B" by blast
  from endsD [OF assms(2) [OF x(3)] x(2)] x(1)
  show "\<exists>y s' C. io_bind m f s = Some (y, s') \<and> ik_ok C s' \<and> R y C" by (simp add: io_bind_def)
qed

lemma ends_return: "Q x A \<Longrightarrow> ends A (io_return x) Q"
  by (auto simp: ends_def io_return_def)

lemma ends_gives_bind: "gives A m x B \<Longrightarrow> ends B (f x) R \<Longrightarrow> ends A (io_bind m f) R"
  unfolding gives_def by (erule ends_bind) simp

lemma gives_return [simp, intro]: "gives A (io_return x) x A"
  unfolding gives_def by (rule ends_return) simp

lemma gives_bind: "gives A m x B \<Longrightarrow> gives B (f x) y C \<Longrightarrow> gives A (io_bind m f) y C"
  unfolding gives_def [of A "io_bind m f"] gives_def [of B "f x"] by (rule ends_gives_bind)

lemma gives_try:
  assumes "gives A m r A" "\<And>x. r = Some x \<Longrightarrow> gives A (f x) (g x) A"
  shows "gives A (io_try m f) (Option.bind r g) A"
  unfolding io_try_def using assms by (cases r) (auto intro: gives_bind)

lemma gives_read: "A h = Some (ServiceObject d) \<Longrightarrow> gives A (io_read f h) (f d) A"
  by (auto simp: gives_iff io_read_def ik_ok_def)

lemma gives_release: "h \<in> dom A \<Longrightarrow> gives A (io_release h) () (A(h := None))"
  by (auto simp: gives_iff io_release_def ik_ok_def)

lemma gives_owning: "gives A m x B \<Longrightarrow> h \<in> dom B \<Longrightarrow> gives A (io_owning h m) x (B(h := None))"
  unfolding io_owning_def by (blast intro: gives_bind gives_release gives_return)

lemma ik_ok_create:
  assumes "ik_ok A s"
  obtains h s' where "io_create obj s = Some (h, s')" "ik_ok (A(h \<mapsto> obj)) s'" "h \<notin> dom A" "0 < h"
proof
  let ?h = "ik_last s + 1"
  show "io_create obj s = Some (?h, s\<lparr>ik_last := ?h, ik_objects := (ik_objects s)(?h \<mapsto> obj)\<rparr>)"
    by (simp add: io_create_def Let_def)
  show "ik_ok (A(?h \<mapsto> obj)) (s\<lparr>ik_last := ?h, ik_objects := (ik_objects s)(?h \<mapsto> obj)\<rparr>)"
    using assms by (auto simp: ik_ok_def dom_def le_Suc_eq)
  have "?h \<le> ik_last s" if "?h \<in> dom A" using assms that unfolding ik_ok_def by blast
  then show "?h \<notin> dom A" by linarith
qed simp

lemma ends_create: "ends A (io_create obj) (\<lambda>h B. h \<notin> dom A \<and> B = A(h \<mapsto> obj))"
  unfolding ends_def by (meson ik_ok_create)

lemma fresh_remove [simp]: "h \<notin> dom A \<Longrightarrow> A(h := None) = A"
  by (auto simp: fun_eq_iff)

section \<open>Iterators\<close>

text \<open>The step of an iterator that a body follows.\<close>

lemma gives_service_next_end:
  "A it = Some (IteratorObject []) \<Longrightarrow> gives A (io_service_next it) None A"
  by (auto simp: gives_iff io_service_next_def io_bind_def io_iterator_next_def io_return_def ik_ok_def)

lemma ends_service_next:
  assumes "A it = Some (IteratorObject (d # ds))"
  shows "ends A (io_service_next it)
    (\<lambda>r B. \<exists>h. r = Some h \<and> h \<notin> dom A \<and> B = A(it \<mapsto> IteratorObject ds, h \<mapsto> ServiceObject d))"
  unfolding ends_def
proof (intro allI impI)
  fix s assume s: "ik_ok A s"
  let ?s = "s\<lparr>ik_objects := (ik_objects s)(it \<mapsto> IteratorObject ds)\<rparr>"
  have "ik_ok (A(it \<mapsto> IteratorObject ds)) ?s" using s assms(1) by (auto simp: ik_ok_def)
  then obtain h s' where
    h: "io_create (ServiceObject d) ?s = Some (h, s')"
      "ik_ok (A(it \<mapsto> IteratorObject ds, h \<mapsto> ServiceObject d)) s'" "h \<notin> dom (A(it \<mapsto> IteratorObject ds))" "0 < h"
    by (rule ik_ok_create)
  have "io_iterator_next it s = Some (h, s')"
    using h(1) s assms(1) by (simp add: io_iterator_next_def ik_ok_def)
  with h(4) have "io_service_next it s = Some (Some h, s')"
    by (simp add: io_service_next_def io_bind_def io_return_def)
  moreover have "h \<notin> dom A" using h(3) by auto
  ultimately show "\<exists>r s' B. io_service_next it s = Some (r, s') \<and> ik_ok B s' \<and>
      (\<exists>h. r = Some h \<and> h \<notin> dom A \<and> B = A(it \<mapsto> IteratorObject ds, h \<mapsto> ServiceObject d))"
    using h(2) by blast
qed

lemma gives_service_next_bind:
  assumes "A it = Some (IteratorObject (d # ds))"
    "\<And>h. h \<notin> dom A \<Longrightarrow> gives (A(it \<mapsto> IteratorObject ds, h \<mapsto> ServiceObject d)) (f (Some h)) x B"
  shows "gives A (io_bind (io_service_next it) f) x B"
  unfolding gives_def
  by (rule ends_bind [OF ends_service_next [where d = d and ds = ds]])
    (use assms in \<open>auto simp: gives_def simp del: fun_upd_apply\<close>)

lemma io_filter_next_bind:
  "io_filter_next f it =
     io_bind (io_service_next it) (\<lambda>r.
       case r of
         None \<Rightarrow> io_return None
       | Some h \<Rightarrow> io_bind (f h) (\<lambda>r. case r of None \<Rightarrow> io_filter_next f it | Some x \<Rightarrow> io_return (Some x)))"
  by (rule ext, subst io_filter_next.simps)
    (auto simp: io_bind_def io_return_def fun_eq_iff intro!: Option.bind_cong split: option.splits)

lemma io_collect_bind:
  "io_collect f it =
     io_bind (io_filter_next f it) (\<lambda>r.
       case r of
         None \<Rightarrow> io_return []
       | Some x \<Rightarrow> io_bind (io_collect f it) (\<lambda>xs. io_return (x # xs)))"
  by (rule ext, subst io_collect.simps)
    (auto simp: io_bind_def io_return_def fun_eq_iff intro!: Option.bind_cong split: option.splits)

fun first_of :: "('d \<Rightarrow> 'a option) \<Rightarrow> 'd list \<Rightarrow> 'a option \<times> 'd list" where
  "first_of F [] = (None, [])"
| "first_of F (d # ds) = (case F d of Some x \<Rightarrow> (Some x, ds) | None \<Rightarrow> first_of F ds)"

lemma first_of_map_filter:
  "List.map_filter F ds =
     (case first_of F ds of (None, r) \<Rightarrow> [] | (Some x, r) \<Rightarrow> x # List.map_filter F r)"
  by (induction ds) (auto simp: List.map_filter_simps split: option.splits)

lemma first_of_None: "first_of F ds = (None, r) \<Longrightarrow> r = []"
  by (induction ds) (auto split: option.splits)

lemma first_of_length: "first_of F ds = (Some x, r) \<Longrightarrow> length r < length ds"
  by (induction ds) (auto split: option.splits)

text \<open>
  What an iterator adapter needs of the closure \<open>f\<close>: it takes the service over, releases it and
  nothing else, and gives what \<open>F\<close> says of the service.
\<close>

locale service_consumer =
  fixes f :: "nat \<Rightarrow> 'a option io" and F :: "IoService \<Rightarrow> 'a option"
  assumes consumes: "h \<notin> dom A \<Longrightarrow> gives (A(h \<mapsto> ServiceObject d)) (f h) (F d) A"
begin

lemma filter_next:
  assumes "A it = Some (IteratorObject ds)"
  shows "gives A (io_filter_next f it) (fst (first_of F ds)) (A(it \<mapsto> IteratorObject (snd (first_of F ds))))"
  using assms
proof (induction ds arbitrary: A)
  case Nil
  then have "A(it \<mapsto> IteratorObject []) = A" by (simp add: fun_upd_idem)
  with Nil show ?case
    by (subst io_filter_next_bind) (auto intro: gives_bind gives_service_next_end)
next
  case (Cons d ds)
  let ?A = "A(it \<mapsto> IteratorObject ds)"
  show ?case
  proof (subst io_filter_next_bind, rule gives_service_next_bind [where ds = ds and d = d])
    fix h assume h: "h \<notin> dom A"
    with Cons.prems have "h \<notin> dom ?A" by auto
    note c = consumes [OF this, of d]
    have IH: "gives ?A (io_filter_next f it) (fst (first_of F ds)) (A(it \<mapsto> IteratorObject (snd (first_of F ds))))"
      by (rule Cons.IH [of ?A, OF fun_upd_same, unfolded fun_upd_upd])
    show "gives (?A(h \<mapsto> ServiceObject d))
        (case Some h of None \<Rightarrow> io_return None
         | Some h \<Rightarrow> io_bind (f h) (\<lambda>r. case r of None \<Rightarrow> io_filter_next f it | Some x \<Rightarrow> io_return (Some x)))
        (fst (first_of F (d # ds))) (A(it \<mapsto> IteratorObject (snd (first_of F (d # ds)))))"
      unfolding option.case
      by (rule gives_bind [OF c], cases "F d") (simp_all only: first_of.simps option.case IH fst_conv snd_conv gives_return)
  qed (rule Cons.prems)
qed

lemma filter_next_cases:
  assumes "A it = Some (IteratorObject ds)"
  obtains (none) "gives A (io_filter_next f it) None (A(it \<mapsto> IteratorObject []))" "List.map_filter F ds = []"
  | (some) x ds' where "gives A (io_filter_next f it) (Some x) (A(it \<mapsto> IteratorObject ds'))"
      "List.map_filter F ds = x # List.map_filter F ds'" "length ds' < length ds"
proof -
  obtain r ds' where r: "first_of F ds = (r, ds')" by force
  have n: "gives A (io_filter_next f it) r (A(it \<mapsto> IteratorObject ds'))"
    using filter_next [of A it ds, OF assms] unfolding r fst_conv snd_conv .
  show thesis
  proof (cases r)
    case None
    with n r first_of_None [of F ds ds'] first_of_map_filter [of F ds] none show thesis by simp
  next
    case (Some x)
    with n r first_of_length [of F ds x ds'] first_of_map_filter [of F ds] some [of x ds'] show thesis by simp
  qed
qed

lemma collects:
  assumes "A it = Some (IteratorObject ds)"
  shows "gives A (io_collect f it) (List.map_filter F ds) (A(it \<mapsto> IteratorObject []))"
  using assms
proof (induction "length ds" arbitrary: ds A rule: less_induct)
  case less
  from less.prems show ?case
  proof (cases rule: filter_next_cases)
    case none
    show ?thesis
      unfolding none(2) by (subst io_collect_bind, rule gives_bind [OF none(1)]) (simp only: option.case gives_return)
  next
    case (some x ds')
    have "gives (A(it \<mapsto> IteratorObject ds')) (io_collect f it) (List.map_filter F ds') (A(it \<mapsto> IteratorObject []))"
      by (rule less.hyps [OF some(3), of "A(it \<mapsto> IteratorObject ds')", OF fun_upd_same, unfolded fun_upd_upd])
    then show ?thesis
      unfolding some(2)
      by (subst io_collect_bind, intro gives_bind [OF some(1)], unfold option.case) (rule gives_bind, assumption, rule gives_return)
  qed
qed

lemma takes:
  assumes "A it = Some (IteratorObject ds)"
  shows "gives A (io_take n f it) (take n (List.map_filter F ds)) (A(it := None))"
  using assms
proof (induction n arbitrary: ds A)
  case 0
  then have "gives A (io_release it) () (A(it := None))" by (intro gives_release) auto
  then show ?case unfolding io_take.simps take_0 by (rule gives_bind) (rule gives_return)
next
  case (Suc n)
  from Suc.prems show ?case
  proof (cases rule: filter_next_cases)
    case none
    have "gives (A(it \<mapsto> IteratorObject [])) (io_release it) () (A(it := None))"
      using gives_release [of it "A(it \<mapsto> IteratorObject [])"] unfolding fun_upd_upd by simp
    then show ?thesis
      unfolding io_take.simps none(2) take_Nil
      by (intro gives_bind [OF none(1)], unfold option.case) (rule gives_bind, assumption, rule gives_return)
  next
    case (some x ds')
    have "gives (A(it \<mapsto> IteratorObject ds')) (io_take n f it) (take n (List.map_filter F ds')) (A(it := None))"
      by (rule Suc.IH [of "A(it \<mapsto> IteratorObject ds')" ds', OF fun_upd_same, unfolded fun_upd_upd])
    then show ?thesis
      unfolding io_take.simps some(2) take_Suc_Cons
      by (intro gives_bind [OF some(1)], unfold option.case) (rule gives_bind, assumption, rule gives_return)
  qed
qed

end

section \<open>Reading a service\<close>

named_theorems gives_intros

lemmas [gives_intros] = gives_return gives_try

lemma gives_bind_same: "gives A m x A \<Longrightarrow> gives A (f x) y C \<Longrightarrow> gives A (io_bind m f) y C"
  by (rule gives_bind)

lemma gives_registry_id [gives_intros]:
  "A h = Some (ServiceObject d) \<Longrightarrow> gives A (io_get_registry_id h) (io_registry_id d) A"
  unfolding io_get_registry_id_def by (rule gives_read)

lemma gives_property:
  "A h = Some (ServiceObject d) \<Longrightarrow> gives A (io_get_property h k) (io_property d k) A"
  unfolding io_get_property_def by (rule gives_read)

lemma gives_string [gives_intros]:
  "A h = Some (ServiceObject d) \<Longrightarrow> gives A (io_string_property h k) (get_string_property d k) A"
  unfolding io_string_property_def get_string_property_def by (rule gives_bind, erule gives_property) (rule gives_return)

lemma gives_integer [gives_intros]:
  "A h = Some (ServiceObject d) \<Longrightarrow> gives A (io_integer_property h k) (get_integer_property d k) A"
  unfolding io_integer_property_def get_integer_property_def
  by (rule gives_bind, erule gives_property) (rule gives_return)

lemma gives_ascii_array [gives_intros]:
  "A h = Some (ServiceObject d) \<Longrightarrow> gives A (io_ascii_array_property h k) (get_ascii_array_property d k) A"
  unfolding io_ascii_array_property_def get_ascii_array_property_def
  by (rule gives_bind, erule gives_property) (rule gives_return)

lemma gives_int [gives_intros]:
  "A h = Some (ServiceObject d) \<Longrightarrow> gives A (io_int_property h k) (int_property d k) A"
  unfolding io_int_property_def int_property_def by (rule gives_bind, erule gives_integer) (rule gives_return)

lemma gives_string_or [gives_intros]:
  assumes "A h = Some (ServiceObject d)"
  shows "gives A (io_string_or h k k') (or_else (get_string_property d k) (get_string_property d k')) A"
  unfolding io_string_or_def
  by (rule gives_bind, rule gives_string, rule assms, cases "get_string_property d k")
    (simp_all add: or_else_def gives_string assms)

text \<open>A body that owns a fresh service leaves nothing behind.\<close>

lemma gives_owning_service:
  assumes "h \<notin> dom A"
    and "\<And>B. B h = Some (ServiceObject d) \<Longrightarrow> gives B m x B"
  shows "gives (A(h \<mapsto> ServiceObject d)) (io_owning h m) x A"
proof -
  have "gives (A(h \<mapsto> ServiceObject d)) m x (A(h \<mapsto> ServiceObject d))" by (intro assms(2)) simp
  from gives_owning [OF this, of h] assms(1) show ?thesis by simp
qed

lemma child_interface_consumed:
  "h \<notin> dom A \<Longrightarrow> gives (A(h \<mapsto> ServiceObject d)) (io_child_interface h) (child_interface d) A"
  unfolding io_child_interface_def child_interface_def
  by (rule gives_owning_service, assumption) ((rule gives_bind_same gives_intros | assumption)+)

interpretation child: service_consumer io_child_interface child_interface
  by unfold_locales (rule child_interface_consumed)

lemma gives_interfaces [gives_intros]:
  assumes "A h = Some (ServiceObject d)"
  shows "gives A (io_interfaces h)
    (case io_children d of Inl r \<Rightarrow> [] | Inr cs \<Rightarrow> List.map_filter child_interface cs) A"
proof (cases "io_children d")
  case (Inl r)
  with assms show ?thesis
    by (auto simp: gives_iff ik_ok_def io_interfaces_def io_bind_def io_child_iterator_def io_return_def)
next
  case (Inr cs)
  have "gives A (io_bind (io_create (IteratorObject cs)) (\<lambda>it. io_owning it (io_collect io_child_interface it)))
      (List.map_filter child_interface cs) A"
  unfolding gives_def
  proof (rule ends_bind [OF ends_create], elim conjE, simp only: gives_def [symmetric])
    fix it assume it: "it \<notin> dom A"
    have "gives (A(it \<mapsto> IteratorObject cs)) (io_collect io_child_interface it)
        (List.map_filter child_interface cs) (A(it \<mapsto> IteratorObject []))"
      by (rule child.collects [of "A(it \<mapsto> IteratorObject cs)", OF fun_upd_same, unfolded fun_upd_upd])
    from gives_owning [OF this, of it] it
    show "gives (A(it \<mapsto> IteratorObject cs)) (io_owning it (io_collect io_child_interface it))
        (List.map_filter child_interface cs) A"
      by simp
  qed
  moreover have "io_interfaces h s =
      io_bind (io_create (IteratorObject cs)) (\<lambda>it. io_owning it (io_collect io_child_interface it)) s"
    if "ik_ok A s" for s
    using that assms Inr by (simp add: ik_ok_def io_interfaces_def io_bind_def io_child_iterator_def io_return_def
        io_create_def Let_def)
  ultimately show ?thesis using Inr by (simp add: gives_iff)
qed

lemma probe_device_consumed:
  "h \<notin> dom A \<Longrightarrow> gives (A(h \<mapsto> ServiceObject d)) (io_probe_device h) (mac_probe_device d) A"
  unfolding io_probe_device_def mac_probe_device_def
  by (rule gives_owning_service, assumption) ((rule gives_bind_same gives_intros | assumption)+)

interpretation device: service_consumer io_probe_device mac_probe_device
  by unfold_locales (rule probe_device_consumed)

lemma probe_bus_consumed:
  "h \<notin> dom A \<Longrightarrow> gives (A(h \<mapsto> ServiceObject d)) (io_probe_bus t h) (mac_probe_bus t d) A"
  unfolding io_probe_bus_def mac_probe_bus_def
  by (rule gives_owning_service, assumption) ((rule gives_bind_same gives_intros | assumption)+)

interpretation bus: service_consumer "io_probe_bus t" "mac_probe_bus t" for t
  by unfold_locales (rule probe_bus_consumed)

section \<open>Matching services\<close>

lemma ends_matching:
  "ends A (io_matching_services M c)
    (\<lambda>r B. case matching_services M c of
        Inl e \<Rightarrow> r = Inl e \<and> B = A
      | Inr ds \<Rightarrow> \<exists>it. r = Inr it \<and> it \<notin> dom A \<and> B = A(it \<mapsto> IteratorObject ds))"
proof (cases "matching_services M c")
  case (Inl e)
  then have "io_matching_services M c = io_return (Inl e)"
    by (auto simp: matching_services_def io_matching_services_def split: option.splits sum.splits)
  with Inl show ?thesis by (auto intro: ends_return)
next
  case (Inr ds)
  then have "io_matching_services M c = io_bind (io_create (IteratorObject ds)) (\<lambda>it. io_return (Inr it))"
    by (auto simp: matching_services_def io_matching_services_def split: option.splits sum.splits)
  moreover have "ends A (io_bind (io_create (IteratorObject ds)) (\<lambda>it. io_return (Inr it)))
      (\<lambda>r B. \<exists>it. r = Inr it \<and> it \<notin> dom A \<and> B = A(it \<mapsto> IteratorObject ds))"
    by (rule ends_bind [OF ends_create]) (rule ends_return, simp)
  ultimately show ?thesis using Inr by simp
qed

lemma ends_matching_bind:
  assumes "\<And>e. matching_services M c = Inl e \<Longrightarrow> ends A (f (Inl e)) Q"
    and "\<And>ds it. matching_services M c = Inr ds \<Longrightarrow> it \<notin> dom A \<Longrightarrow>
      ends (A(it \<mapsto> IteratorObject ds)) (f (Inr it)) Q"
  shows "ends A (io_bind (io_matching_services M c) f) Q"
  by (rule ends_bind [OF ends_matching], cases "matching_services M c")
    (use assms in \<open>auto simp del: fun_upd_apply\<close>)

lemma gives_take_devices:
  "gives A (io_take_devices M n) (map_sum (\<lambda>e. e) (take n) (mac_list_devices M)) A"
  unfolding io_take_devices_def io_list_devices_def gives_def
proof (rule ends_matching_bind)
  fix e assume "matching_services M ''IOUSBDevice'' = Inl e"
  then show "ends A (case Inl e of Inl e \<Rightarrow> io_return (Inl e)
        | Inr it \<Rightarrow> io_bind (io_take n io_probe_device it) (\<lambda>ds. io_return (Inr ds)))
      (\<lambda>y C. y = map_sum (\<lambda>e. e) (take n) (mac_list_devices M) \<and> C = A)"
    by (simp add: mac_list_devices_def usb_service_iter_def ends_return)
next
  fix ds it assume ds: "matching_services M ''IOUSBDevice'' = Inr ds" and it: "it \<notin> dom A"
  have "gives (A(it \<mapsto> IteratorObject ds)) (io_take n io_probe_device it)
      (take n (List.map_filter mac_probe_device ds)) A"
    using device.takes [of "A(it \<mapsto> IteratorObject ds)", OF fun_upd_same, of n] it by simp
  then show "ends (A(it \<mapsto> IteratorObject ds)) (case Inr it of Inl e \<Rightarrow> io_return (Inl e)
        | Inr it \<Rightarrow> io_bind (io_take n io_probe_device it) (\<lambda>ds. io_return (Inr ds)))
      (\<lambda>y C. y = map_sum (\<lambda>e. e) (take n) (mac_list_devices M) \<and> C = A)"
    unfolding sum.case by (rule ends_gives_bind)
      (simp add: ds mac_list_devices_def usb_service_iter_def ends_return)
qed

section \<open>A service by its registry ID\<close>

lemma has_registry_id_found:
  assumes "B h = Some (ServiceObject d)" "io_registry_id d = Some registry_id"
  shows "gives B (io_has_registry_id registry_id h) (Some h) B"
  unfolding io_has_registry_id_def
  by (rule gives_bind, rule gives_registry_id, rule assms(1)) (simp add: assms(2))

lemma has_registry_id_dropped:
  assumes "h \<notin> dom B" "io_registry_id d \<noteq> Some registry_id"
  shows "gives (B(h \<mapsto> ServiceObject d)) (io_has_registry_id registry_id h) None B"
proof -
  have "gives (B(h \<mapsto> ServiceObject d)) (io_release h) () B"
    using gives_release [of h "B(h \<mapsto> ServiceObject d)"] assms(1) by simp
  then have "gives (B(h \<mapsto> ServiceObject d)) (io_bind (io_release h) (\<lambda>_. io_return None)) None B"
    by (rule gives_bind) (rule gives_return)
  then show ?thesis
    unfolding io_has_registry_id_def
    by (intro gives_bind [OF gives_registry_id [of "B(h \<mapsto> ServiceObject d)" h d]]) (simp_all add: assms(2))
qed

text \<open>The iterator alone is left next to the service that was found.\<close>

lemma find_registry_id:
  assumes "A it = Some (IteratorObject ds)"
  shows "ends A (io_filter_next (io_has_registry_id registry_id) it)
    (\<lambda>r B. \<exists>ds'. case find (\<lambda>d. io_registry_id d = Some registry_id) ds of
        None \<Rightarrow> r = None \<and> B = A(it \<mapsto> IteratorObject ds')
      | Some d \<Rightarrow> \<exists>h. r = Some h \<and> h \<notin> dom A \<and> B = A(it \<mapsto> IteratorObject ds', h \<mapsto> ServiceObject d))"
  using assms
proof (induction ds arbitrary: A)
  case Nil
  then have "A(it \<mapsto> IteratorObject []) = A" by (simp add: fun_upd_idem)
  with Nil show ?case
    by (subst io_filter_next_bind, intro ends_gives_bind [OF gives_service_next_end])
      (auto intro!: ends_return exI [of _ "[]"])
next
  case (Cons d ds)
  let ?Q = "\<lambda>r B. \<exists>ds'. case find (\<lambda>d. io_registry_id d = Some registry_id) (d # ds) of
        None \<Rightarrow> r = None \<and> B = A(it \<mapsto> IteratorObject ds')
      | Some d \<Rightarrow> \<exists>h. r = Some h \<and> h \<notin> dom A \<and> B = A(it \<mapsto> IteratorObject ds', h \<mapsto> ServiceObject d)"
  let ?A = "A(it \<mapsto> IteratorObject ds)"
  let ?f = "\<lambda>r. case r of None \<Rightarrow> io_return None
    | Some h \<Rightarrow> io_bind (io_has_registry_id registry_id h) (\<lambda>r. case r of
        None \<Rightarrow> io_filter_next (io_has_registry_id registry_id) it | Some x \<Rightarrow> io_return (Some x))"
  have "ends (?A(h \<mapsto> ServiceObject d)) (?f (Some h)) ?Q" if h: "h \<notin> dom A" for h
  proof (cases "io_registry_id d = Some registry_id")
    case True
    have "gives (?A(h \<mapsto> ServiceObject d)) (io_has_registry_id registry_id h) (Some h) (?A(h \<mapsto> ServiceObject d))"
      by (rule has_registry_id_found [OF fun_upd_same True])
    with True h show ?thesis
      unfolding option.case by (elim ends_gives_bind) (auto intro!: ends_return exI [of _ ds])
  next
    case False
    from h Cons.prems have "h \<notin> dom ?A" by auto
    note d = has_registry_id_dropped [OF this False]
    have dom: "dom ?A = dom A" using Cons.prems by auto
    have "ends ?A (io_filter_next (io_has_registry_id registry_id) it) ?Q"
      using Cons.IH [of ?A, OF fun_upd_same] False unfolding fun_upd_upd dom by (simp del: fun_upd_apply)
    then show ?thesis unfolding option.case by (intro ends_gives_bind [OF d]) simp
  qed
  then show ?case
    by (subst io_filter_next_bind, intro ends_bind [OF ends_service_next [of A it d ds, OF Cons.prems]]) blast
qed

lemma ends_service_by_registry_id:
  "ends A (io_service_by_registry_id M registry_id)
    (\<lambda>r B. case service_by_registry_id M registry_id of
        Inl e \<Rightarrow> r = Inl e \<and> B = A
      | Inr d \<Rightarrow> \<exists>h. r = Inr h \<and> h \<notin> dom A \<and> B = A(h \<mapsto> ServiceObject d))"
  (is "ends A _ ?Q")
  unfolding io_service_by_registry_id_def
proof (rule ends_matching_bind)
  fix e assume "matching_services M ''IOUSBDevice'' = Inl e"
  then show "ends A (case Inl e of Inl e \<Rightarrow> io_return (Inl e) | Inr it \<Rightarrow>
      io_bind (io_owning it (io_filter_next (io_has_registry_id registry_id) it)) (\<lambda>found. io_return
        (case found of None \<Rightarrow> Inl (error_new KNotFound ''not found by registry id'') | Some h \<Rightarrow> Inr h))) ?Q"
    by (simp add: service_by_registry_id_def usb_service_iter_def ends_return)
next
  fix ds it assume ds: "matching_services M ''IOUSBDevice'' = Inr ds" and it: "it \<notin> dom A"
  let ?A = "A(it \<mapsto> IteratorObject ds)"
  have release: "gives B (io_release it) () (B(it := None))" if "it \<in> dom B" for B
    using that by (rule gives_release)
  have "ends ?A (io_owning it (io_filter_next (io_has_registry_id registry_id) it))
      (\<lambda>r B. case find (\<lambda>d. io_registry_id d = Some registry_id) ds of
          None \<Rightarrow> r = None \<and> B = A
        | Some d \<Rightarrow> \<exists>h. r = Some h \<and> h \<notin> dom A \<and> B = A(h \<mapsto> ServiceObject d))"
    unfolding io_owning_def
    using it
    by (intro ends_bind [OF find_registry_id [of ?A it ds, OF fun_upd_same]])
      (auto split: option.split_asm option.split intro!: ends_gives_bind [OF release] ends_return
        simp: fun_upd_twist fun_upd_idem)
  then show "ends ?A (case Inr it of Inl e \<Rightarrow> io_return (Inl e) | Inr it \<Rightarrow>
      io_bind (io_owning it (io_filter_next (io_has_registry_id registry_id) it)) (\<lambda>found. io_return
        (case found of None \<Rightarrow> Inl (error_new KNotFound ''not found by registry id'') | Some h \<Rightarrow> Inr h))) ?Q"
    unfolding sum.case using ds
    by (elim ends_bind) (auto intro!: ends_return split: option.split_asm
        simp: service_by_registry_id_def usb_service_iter_def simp del: fun_upd_apply)
qed

section \<open>Buses\<close>

definition buses_left :: "matching \<Rightarrow> UsbControllerType list \<Rightarrow> MacBusInfo list" where
  "buses_left M ts =
     concat (map (\<lambda>t. case usb_controller_service_iter M t of
                         Inl e \<Rightarrow> [] | Inr ss \<Rightarrow> List.map_filter (mac_probe_bus t) ss) ts)"

lemma buses_left_Cons:
  "buses_left M (t # ts) =
     (case matching_services M (controller_class t) of
        Inl e \<Rightarrow> buses_left M ts
      | Inr ss \<Rightarrow> List.map_filter (mac_probe_bus t) ss @ buses_left M ts)"
  by (simp add: buses_left_def usb_controller_service_iter_def split: sum.split)

text \<open>Beside the objects \<open>A\<close>, the iterator \<open>b\<close> owns what \<open>C\<close> has more, and the buses \<open>L\<close> are left.\<close>

fun bus_iter_owns ::
  "matching \<Rightarrow> (nat \<rightharpoonup> io_object) \<Rightarrow> bus_iter \<Rightarrow> (nat \<rightharpoonup> io_object) \<Rightarrow> MacBusInfo list \<Rightarrow> bool" where
  "bus_iter_owns M A (ts, None) C L \<longleftrightarrow> C = A \<and> L = buses_left M ts"
| "bus_iter_owns M A (ts, Some (t, it)) C L \<longleftrightarrow>
     (\<exists>ds. it \<notin> dom A \<and> C = A(it \<mapsto> IteratorObject ds) \<and>
       L = List.map_filter (mac_probe_bus t) ds @ buses_left M ts)"

definition bus_taken :: "matching \<Rightarrow> (nat \<rightharpoonup> io_object) \<Rightarrow> MacBusInfo list \<Rightarrow>
    MacBusInfo option \<times> bus_iter \<Rightarrow> (nat \<rightharpoonup> io_object) \<Rightarrow> bool" where
  "bus_taken M A L r C \<longleftrightarrow>
     (case L of
        [] \<Rightarrow> fst r = None \<and> bus_iter_owns M A (snd r) C []
      | x # L' \<Rightarrow> fst r = Some x \<and> bus_iter_owns M A (snd r) C L')"

lemma io_bus_next_bind:
  "io_bus_next M ([], None) = io_return (None, ([], None))"
  "io_bus_next M (t # ts, None) =
     io_bind (io_matching_services M (controller_class t)) (\<lambda>r.
       case r of
         Inl e \<Rightarrow> io_bus_next M (ts, None)
       | Inr it \<Rightarrow> io_bus_next M (ts, Some (t, it)))"
  "io_bus_next M (ts, Some (t, it)) =
     io_bind (io_filter_next (io_probe_bus t) it) (\<lambda>r.
       case r of
         Some bus \<Rightarrow> io_return (Some bus, (ts, Some (t, it)))
       | None \<Rightarrow> io_bind (io_release it) (\<lambda>_. io_bus_next M (ts, None)))"
  by (rule ext, subst io_bus_next.simps,
      auto simp: io_bind_def io_return_def intro!: Option.bind_cong split: option.splits sum.splits list.split)+

lemma bus_next_current:
  assumes "\<And>L. bus_iter_owns M A (ts, None) A L \<Longrightarrow> ends A (io_bus_next M (ts, None)) (bus_taken M A L)"
    and "bus_iter_owns M A (ts, Some (t, it)) C L"
  shows "ends C (io_bus_next M (ts, Some (t, it))) (bus_taken M A L)"
proof -
  from assms(2) obtain ds where it: "it \<notin> dom A" and C: "C = A(it \<mapsto> IteratorObject ds)"
    and L: "L = List.map_filter (mac_probe_bus t) ds @ buses_left M ts" by auto
  have "C it = Some (IteratorObject ds)" by (simp add: C)
  then show ?thesis
  proof (cases rule: bus.filter_next_cases [of _ _ _ t])
    case none
    have "gives (C(it \<mapsto> IteratorObject [])) (io_release it) () A"
      using gives_release [of it "C(it \<mapsto> IteratorObject [])"] it by (simp add: C)
    with none show ?thesis
      unfolding io_bus_next_bind(3) by (intro ends_gives_bind [OF none(1)], unfold option.case, elim ends_gives_bind)
        (simp add: L assms(1))
  next
    case (some x ds')
    then show ?thesis
      unfolding io_bus_next_bind(3)
      by (intro ends_gives_bind [OF some(1)], unfold option.case, intro ends_return)
        (use it in \<open>auto simp: bus_taken_def L C intro!: exI [of _ ds'] simp del: fun_upd_apply\<close>)
  qed
qed

lemma bus_next_types:
  "bus_iter_owns M A (ts, None) A L \<Longrightarrow> ends A (io_bus_next M (ts, None)) (bus_taken M A L)"
proof (induction ts arbitrary: L)
  case Nil
  then show ?case by (auto simp: io_bus_next_bind bus_taken_def buses_left_def intro!: ends_return)
next
  case (Cons t ts)
  note current = bus_next_current [of M A ts t, OF Cons.IH]
  show ?case
    unfolding io_bus_next_bind(2)
    by (rule ends_matching_bind)
      (use Cons.prems in \<open>auto simp: buses_left_Cons intro!: Cons.IH current simp del: fun_upd_apply\<close>)
qed

lemma bus_next_taken:
  assumes "bus_iter_owns M A b C L"
  shows "ends C (io_bus_next M b) (bus_taken M A L)"
proof (cases b)
  case (Pair ts cur)
  show ?thesis
  proof (cases cur)
    case None
    with Pair assms have "C = A" by simp
    with Pair None assms show ?thesis by (auto intro: bus_next_types)
  next
    case (Some c)
    with Pair assms show ?thesis by (cases c) (auto intro!: bus_next_current bus_next_types simp del: fun_upd_apply)
  qed
qed

lemma bus_iter_dropped: "bus_iter_owns M A b C L \<Longrightarrow> gives C (io_drop_buses b) () A"
proof (cases b; cases "snd b")
  fix ts cur c assume b: "b = (ts, cur)" "snd b = Some c" and owns: "bus_iter_owns M A b C L"
  obtain t it where c: "c = (t, it)" by force
  with b owns obtain ds where "it \<notin> dom A" "C = A(it \<mapsto> IteratorObject ds)" by auto
  with b c show "gives C (io_drop_buses b) () A"
    using gives_release [of it C] by (simp add: io_drop_buses_def)
qed (auto simp: io_drop_buses_def)

lemma gives_take_buses: "bus_iter_owns M A b C L \<Longrightarrow> gives C (io_take_buses M n b) (take n L) A"
proof (induction n arbitrary: b C L)
  case 0
  then show ?case by (auto intro: gives_bind bus_iter_dropped)
next
  case (Suc n)
  have "ends C (io_bind (io_bus_next M b) (\<lambda>(r, b). case r of
            None \<Rightarrow> io_bind (io_drop_buses b) (\<lambda>_. io_return [])
          | Some bus \<Rightarrow> io_bind (io_take_buses M n b) (\<lambda>buses. io_return (bus # buses))))
      (\<lambda>y B. y = take (Suc n) L \<and> B = A)"
  proof (rule ends_bind [OF bus_next_taken [OF Suc.prems]])
    fix rb D assume taken: "bus_taken M A L rb D"
    obtain r b' where rb: "rb = (r, b')" by (cases rb)
    have "gives D (case r of
            None \<Rightarrow> io_bind (io_drop_buses b') (\<lambda>_. io_return [])
          | Some bus \<Rightarrow> io_bind (io_take_buses M n b') (\<lambda>buses. io_return (bus # buses))) (take (Suc n) L) A"
      using taken rb by (cases L)
        (auto simp: bus_taken_def intro!: gives_bind [OF bus_iter_dropped] gives_bind [OF Suc.IH])
    then show "ends D (case rb of (r, b) \<Rightarrow> case r of
            None \<Rightarrow> io_bind (io_drop_buses b) (\<lambda>_. io_return [])
          | Some bus \<Rightarrow> io_bind (io_take_buses M n b) (\<lambda>buses. io_return (bus # buses)))
        (\<lambda>y B. y = take (Suc n) L \<and> B = A)"
      by (simp add: gives_def rb)
  qed
  then show ?case by (simp add: gives_def)
qed

lemma buses_left_all: "buses_left M [XHCI, EHCI, OHCI, VHCI] = mac_list_buses M"
  by (simp add: buses_left_def mac_list_buses_def)

section \<open>Descriptors and hotplug\<close>

lemma gives_device_descriptor:
  "A h = Some (ServiceObject d) \<Longrightarrow>
   gives A (io_device_descriptor_from_fields h) (device_descriptor_from_properties d) A"
  unfolding io_device_descriptor_from_fields_def device_descriptor_from_properties_def
  by ((rule gives_bind_same gives_intros | assumption)+)

lemma next_connected_first: "next_connected ds = first_of mac_probe_device ds"
  by (induction ds) (auto split: option.splits)

lemma registry_id_consumed:
  assumes "h \<notin> dom A"
  shows "gives (A(h \<mapsto> ServiceObject d))
    (io_owning h (io_bind (io_get_registry_id h) (\<lambda>r. io_return (map_option DisconnectedEvent r))))
    (map_option DisconnectedEvent (io_registry_id d)) A"
  by (rule gives_owning_service [OF assms]) (rule gives_bind, erule gives_registry_id, rule gives_return)

text \<open>
  A poll over handles gives what the poll over values gives, takes the same services from the two
  iterators and releases every one of them.
\<close>

theorem io_hotplug_next_refines:
  assumes "mac_hotplug_poll_next waker w ws = Ret (e, w', ws')"
    and "m \<noteq> t" "A m = Some (IteratorObject (mhw_matched_iter w))" "A t = Some (IteratorObject (mhw_terminated_iter w))"
  shows "gives A (io_hotplug_next m t) e
    (A(m \<mapsto> IteratorObject (mhw_matched_iter w'), t \<mapsto> IteratorObject (mhw_terminated_iter w')))"
proof -
  obtain ws1 where poll: "slab_waker_register (mhw_waker_id w) waker ws = Ret ws1"
    using assms(1) by (cases "slab_waker_register (mhw_waker_id w) waker ws")
      (auto simp: mac_hotplug_poll_next_def)
  obtain r ms where r: "first_of mac_probe_device (mhw_matched_iter w) = (r, ms)" by force
  note matched = device.filter_next [of A m, OF assms(3), unfolded r fst_conv snd_conv]
  let ?A = "A(m \<mapsto> IteratorObject ms)"
  have t: "?A t = Some (IteratorObject (mhw_terminated_iter w))" using assms(2,4) by simp
  show ?thesis
  proof (cases r)
    case (Some dev)
    with assms(1) poll r have "e = Some (ConnectedEvent dev)" "w' = w\<lparr>mhw_matched_iter := ms\<rparr>"
      by (auto simp: mac_hotplug_poll_next_def next_connected_first)
    moreover have "?A(t \<mapsto> IteratorObject (mhw_terminated_iter w)) = ?A" using t by (rule fun_upd_idem)
    ultimately show ?thesis
      unfolding io_hotplug_next_def using Some by (intro gives_bind [OF matched]) simp
  next
    case None
    show ?thesis
    proof (cases "mhw_terminated_iter w")
      case Nil
      with assms(1) poll r None have "e = None" "w' = w\<lparr>mhw_matched_iter := ms\<rparr>"
        by (auto simp: mac_hotplug_poll_next_def next_connected_first)
      moreover have "?A(t \<mapsto> IteratorObject (mhw_terminated_iter w)) = ?A" using t by (rule fun_upd_idem)
      moreover have "gives ?A (io_service_next t) None ?A"
        using t Nil by (intro gives_service_next_end) simp
      ultimately show ?thesis
        unfolding io_hotplug_next_def using None by (intro gives_bind [OF matched]) (auto intro: gives_bind)
    next
      case (Cons d ds)
      with assms(1) poll r None have e: "e = map_option DisconnectedEvent (io_registry_id d)"
        "w' = w\<lparr>mhw_matched_iter := ms, mhw_terminated_iter := ds\<rparr>"
        by (auto simp: mac_hotplug_poll_next_def next_connected_first Let_def split: option.splits)
      from t Cons have t: "?A t = Some (IteratorObject (d # ds))" by simp
      have "gives ?A (io_bind (io_service_next t) (\<lambda>r. case r of
            None \<Rightarrow> io_return None
          | Some h \<Rightarrow> io_owning h
              (io_bind (io_get_registry_id h) (\<lambda>r. io_return (map_option DisconnectedEvent r))))) e
          (?A(t \<mapsto> IteratorObject ds))"
      proof (rule gives_service_next_bind [of ?A t d ds, OF t], unfold option.case e(1))
        fix h assume "h \<notin> dom ?A"
        with t have "h \<notin> dom (?A(t \<mapsto> IteratorObject ds))" by auto
        then show "gives (?A(t \<mapsto> IteratorObject ds, h \<mapsto> ServiceObject d))
            (io_owning h (io_bind (io_get_registry_id h) (\<lambda>r. io_return (map_option DisconnectedEvent r))))
            (map_option DisconnectedEvent (io_registry_id d)) (?A(t \<mapsto> IteratorObject ds))"
          by (rule registry_id_consumed)
      qed
      with None e(2) show ?thesis unfolding io_hotplug_next_def by (intro gives_bind [OF matched]) simp
    qed
  qed
qed

interpretation drained: service_consumer "\<lambda>h. io_owning h (io_return (None :: unit option))" "\<lambda>d. None"
  by unfold_locales (rule gives_owning_service, assumption, rule gives_return)

lemma gives_drain:
  assumes "A it = Some (IteratorObject ds)"
  shows "gives A (io_drain it) () (A(it \<mapsto> IteratorObject (drain_iter ds)))"
proof -
  have "drain_iter ds = []" by (induction ds) simp_all
  moreover have "first_of (\<lambda>d. None :: unit option) ds = (None, [])" by (induction ds) simp_all
  ultimately show ?thesis
    unfolding io_drain_def using drained.filter_next [of A it ds, OF assms]
    by (auto intro: gives_bind simp del: fun_upd_apply)
qed

section \<open>Nothing is left behind\<close>

text \<open>
  C29. Enumeration on macOS over the handles of IOKit gives what it gives over the services themselves,
  uses no handle that is not alive and releases each once, whatever is alive before: \<open>list_devices\<close> and
  \<open>list_buses\<close> of which a caller takes any number of items before it drops the iterator (with the
  services of devices that cannot be probed and the children of the others), the device descriptor read
  from a service, and \<open>service_by_registry_id\<close>, which leaves exactly the service that it found.
\<close>

theorem mac_objects_released:
  assumes "ik_ok A s"
  shows "(\<exists>s'. io_take_devices M n s = Some (map_sum (\<lambda>e. e) (take n) (mac_list_devices M), s') \<and> ik_ok A s') \<and>
    (\<exists>s'. io_take_buses M n io_list_buses s = Some (take n (mac_list_buses M), s') \<and> ik_ok A s') \<and>
    (case service_by_registry_id M registry_id of
       Inl e \<Rightarrow> \<exists>s'. io_service_by_registry_id M registry_id s = Some (Inl e, s') \<and> ik_ok A s'
     | Inr d \<Rightarrow> \<exists>h s' s''. io_service_by_registry_id M registry_id s = Some (Inr h, s') \<and>
         h \<notin> dom A \<and> ik_ok (A(h \<mapsto> ServiceObject d)) s' \<and>
         io_owning h (io_device_descriptor_from_fields h) s' = Some (device_descriptor_from_properties d, s'') \<and>
         ik_ok A s'')"
proof (intro conjI)
  show "\<exists>s'. io_take_devices M n s = Some (map_sum (\<lambda>e. e) (take n) (mac_list_devices M), s') \<and> ik_ok A s'"
    by (rule givesD [OF gives_take_devices assms])
  have "bus_iter_owns M A io_list_buses A (mac_list_buses M)"
    by (simp add: io_list_buses_def buses_left_all)
  from givesD [OF gives_take_buses [OF this] assms]
  show "\<exists>s'. io_take_buses M n io_list_buses s = Some (take n (mac_list_buses M), s') \<and> ik_ok A s'" .
  note found = endsD [OF ends_service_by_registry_id [of A M registry_id] assms]
  show "case service_by_registry_id M registry_id of
       Inl e \<Rightarrow> \<exists>s'. io_service_by_registry_id M registry_id s = Some (Inl e, s') \<and> ik_ok A s'
     | Inr d \<Rightarrow> \<exists>h s' s''. io_service_by_registry_id M registry_id s = Some (Inr h, s') \<and>
         h \<notin> dom A \<and> ik_ok (A(h \<mapsto> ServiceObject d)) s' \<and>
         io_owning h (io_device_descriptor_from_fields h) s' = Some (device_descriptor_from_properties d, s'') \<and>
         ik_ok A s''"
  proof (cases "service_by_registry_id M registry_id")
    case (Inr d)
    with found obtain h s' where h: "io_service_by_registry_id M registry_id s = Some (Inr h, s')"
      "h \<notin> dom A" "ik_ok (A(h \<mapsto> ServiceObject d)) s'" by auto
    have "gives (A(h \<mapsto> ServiceObject d)) (io_owning h (io_device_descriptor_from_fields h))
        (device_descriptor_from_properties d) A"
      by (rule gives_owning_service [OF h(2)]) (erule gives_device_descriptor)
    from givesD [OF this h(3)] h Inr show ?thesis by (auto simp del: fun_upd_apply)
  qed (use found in auto)
qed

theorem mac_objects_released_witness:
  "(\<exists>s. io_take_devices (\<lambda>c. Some (Inr [shown_service])) 3 io_store_init = Some (Inr [shown_device], s) \<and>
      ik_ok Map.empty s) \<and>
   (\<exists>h s. io_service_by_registry_id (\<lambda>c. Some (Inr [shown_service])) 5 io_store_init = Some (Inr h, s) \<and>
      ik_ok [h \<mapsto> ServiceObject shown_service] s)"
proof -
  let ?M = "\<lambda>c. Some (Inr [shown_service])"
  have init: "ik_ok Map.empty io_store_init" by (simp add: ik_ok_def io_store_init_def)
  have iter: "usb_service_iter ?M = Inr [shown_service]"
    by (simp add: usb_service_iter_def matching_services_def)
  have "mac_probe_device shown_service = Some shown_device" by code_simp
  with iter have devices: "mac_list_devices ?M = Inr [shown_device]"
    by (simp add: mac_list_devices_def List.map_filter_simps)
  have "io_registry_id shown_service = Some 5" by (simp add: shown_service_def)
  with iter have service: "service_by_registry_id ?M 5 = Inr shown_service"
    by (simp add: service_by_registry_id_def)
  from mac_objects_released [OF init, of ?M 3 5] show ?thesis
    by (auto simp: devices service simp del: fun_upd_apply)
qed

end
