(* ===== verification/Reader_Tokio.thy ===== *)
theory Reader_Tokio
  imports Reader Writer
begin

text \<open>
  The traits of tokio for readers and writers (src/src/io/read.rs, src/src/io/write.rs). Its \<open>ReadBuf\<close> has
  bytes that are filled and room for more; \<open>poll_read\<close> appends to it what the trait of smol would
  return for a slice as long as that room.
\<close>

section \<open>ReadBuf\<close>

record ReadBuf =
  rbf_filled :: bytes
  rbf_capacity :: nat

definition rbf_remaining :: "ReadBuf \<Rightarrow> nat" where
  "rbf_remaining b = rbf_capacity b - length (rbf_filled b)"

text \<open>\<open>put_slice\<close> panics if there is no room.\<close>

definition put_slice :: "bytes \<Rightarrow> ReadBuf \<Rightarrow> ReadBuf outcome" where
  "put_slice bs b = rassert (length bs \<le> rbf_remaining b) (Ret (b\<lparr>rbf_filled := rbf_filled b @ bs\<rparr>))"

section \<open>poll_read\<close>

text \<open>The buffer is returned in every case.\<close>

definition tokio_copy_out ::
  "ReadBuf \<Rightarrow> ('e EndpointRead + (io_error + bytes) option \<times> 'e EndpointRead) \<Rightarrow>
   (('e EndpointRead + (io_error + unit) option \<times> 'e EndpointRead) \<times> ReadBuf) outcome" where
  "tokio_copy_out buf x =
     (case x of
        Inl r \<Rightarrow> Ret (Inl r, buf)
      | Inr (None, r) \<Rightarrow> Ret (Inr (None, r), buf)
      | Inr (Some (Inl e), r) \<Rightarrow> Ret (Inr (Some (Inl e), r), buf)
      | Inr (Some (Inr remaining), r) \<Rightarrow>
          (let len = min (length remaining) (rbf_remaining buf) in
           obind (put_slice (take len remaining) buf) (\<lambda>buf.
           obind (reader_consume len r) (\<lambda>r. Ret (Inr (Some (Inr ()), r), buf)))))"

definition tokio_poll_read ::
  "(nat \<Rightarrow> nat) \<Rightarrow> 'e backend \<Rightarrow> nat \<Rightarrow> nat \<Rightarrow> ReadBuf \<Rightarrow> 'e EndpointRead \<Rightarrow>
   (('e EndpointRead + (io_error + unit) option \<times> 'e EndpointRead) \<times> ReadBuf) outcome" where
  "tokio_poll_read alloc B fuel cx buf r = obind (poll_fill_buf alloc B fuel cx r) (tokio_copy_out buf)"

definition tokio_short_poll_read ::
  "(nat \<Rightarrow> nat) \<Rightarrow> 'e backend \<Rightarrow> nat \<Rightarrow> nat \<Rightarrow> ReadBuf \<Rightarrow> 'e EndpointRead \<Rightarrow>
   (('e EndpointRead + (io_error + unit) option \<times> 'e EndpointRead) \<times> ReadBuf) outcome" where
  "tokio_short_poll_read alloc B fuel cx buf r =
     obind (poll_fill_buf_until_short alloc B fuel cx r) (tokio_copy_out buf)"

section \<open>Both traits agree\<close>

text \<open>What \<open>poll_read\<close> of smol returns, put into the buffer.\<close>

definition into_read_buf ::
  "ReadBuf \<Rightarrow> ('e EndpointRead + (io_error + bytes) option \<times> 'e EndpointRead) \<Rightarrow>
   ('e EndpointRead + (io_error + unit) option \<times> 'e EndpointRead) \<times> ReadBuf" where
  "into_read_buf buf x =
     (case x of
        Inl r \<Rightarrow> (Inl r, buf)
      | Inr (res, r) \<Rightarrow>
          (Inr (map_option (map_sum (\<lambda>e. e) (\<lambda>bs. ())) res, r),
           (case res of Some (Inr bs) \<Rightarrow> buf\<lparr>rbf_filled := rbf_filled buf @ bs\<rparr> | _ \<Rightarrow> buf)))"

lemma tokio_copy_out_agrees:
  "tokio_copy_out buf x = omap (into_read_buf buf) (poll_copy_out (rbf_remaining buf) x)"
proof -
  have "tokio_copy_out buf (Inr (Some (Inr remaining), r)) =
      omap (into_read_buf buf) (poll_copy_out (rbf_remaining buf) (Inr (Some (Inr remaining), r)))"
    for remaining and r :: "'e EndpointRead"
    by (cases "reader_consume (min (rbf_remaining buf) (length remaining)) r")
      (auto simp: tokio_copy_out_def poll_copy_out_def into_read_buf_def put_slice_def copy_min_def
        Let_def min.commute)
  then show ?thesis
    by (auto simp: tokio_copy_out_def poll_copy_out_def into_read_buf_def split: sum.splits option.splits)
qed

theorem tokio_poll_read_agrees:
  "tokio_poll_read alloc B fuel cx buf r =
     omap (into_read_buf buf) (reader_poll_read alloc B fuel cx (rbf_remaining buf) r)"
  "tokio_short_poll_read alloc B fuel cx buf r =
     omap (into_read_buf buf) (short_poll_read alloc B fuel cx (rbf_remaining buf) r)"
  unfolding tokio_poll_read_def tokio_short_poll_read_def reader_poll_read_def short_poll_read_def
  by (cases "poll_fill_buf alloc B fuel cx r"; cases "poll_fill_buf_until_short alloc B fuel cx r";
      simp add: tokio_copy_out_agrees)+

section \<open>Writers\<close>

text \<open>\<open>poll_shutdown\<close> of tokio and \<open>poll_close\<close> of smol flush.\<close>

definition writer_poll_close ::
  "bool \<Rightarrow> 'e backend \<Rightarrow> nat \<Rightarrow> 'e EndpointWrite \<Rightarrow> ((io_error + unit) option \<times> 'e EndpointWrite) outcome" where
  "writer_poll_close dbg B cx w = writer_poll_flush dbg B cx w"

end
