(* ===== verification/Spec2Isabelle.thy ===== *)
theory Spec2Isabelle
  imports Descriptor_Theorems Strings Buffer_Theorems Transfer_Theorems Wakeup
    Linux_Transfer_Theorems Linux_Device_Theorems Linux_Endpoint_Theorems
    Device Endpoint_Theorems Reader_Stream Writer_Stream Linux_Enumeration_Theorems Linux_Hotplug
    Linux_Events_Theorems Maybe_Future
    Windows_Device_Theorems Windows_Endpoint_Theorems Windows_Timers Windows_Hotplug
    Mac_Enumeration_Theorems Mac_Device_Theorems Mac_Endpoint_Theorems Mac_Hotplug
    Web_Endpoint_Theorems Web_Hotplug Device_Session Windows_Registry Linux_Control Portable_Streams
    Mac_Objects_Theorems Reader_Tokio
begin

text \<open>
  nusb is a Rust library for USB access without a kernel driver: it lists devices, opens them, claims
  interfaces and moves data through endpoints. It talks to the operating system by a backend per
  platform. This development models the library above the operating system: its shared core, the
  readers and writers on top, and the Linux (usbfs), Windows (WinUSB), macOS (IOKit) and browser (WebUSB)
  backends. The operating system, the browser and the crates the sources depend on are parameters.

  \<^bold>\<open>How code is translated.\<close> A struct is a \<open>record\<close>, an enum a \<open>datatype\<close>, an integer a word of its
  width, \<open>usize\<close> a natural number with its overflow written out. \<open>Result\<close> is a sum with the error on
  the left. A computation that can panic has the type \<open>'a outcome\<close> (theory Prelude): \<open>Ret\<close> a value,
  \<open>Panic\<close>, \<open>UB\<close> for an access to memory that \<open>unsafe\<close> code must not make, or \<open>Diverge\<close>; debug builds
  are modelled, so \<open>debug_assert!\<close> and arithmetic overflow panic. The assertions are proved to hold, so that
  builds without them do the same; the one exception is in the writer, which has the kind of build as a
  parameter. State that threads share is explicit,
  and one step is what a mutex or an atomic operation makes one. A system call is a datatype and the
  system a function from a call and its own state to the result and the new state.

  \<^bold>\<open>Theories, from the bottom up.\<close>

  \<^item> Prelude, Loops, Rust_Text, Handles: outcomes, words, slices, ordered maps; loops; the \<open>str\<close>, \<open>Path\<close>
    and integer parsing of Rust; a system that tracks which of its handles are open.
  \<^item> Errors (error.rs), Bitset (bitset.rs), Control (transfer/control.rs), Enumeration (enumeration.rs):
    the values all backends share.
  \<^item> Descriptors, Descriptor_Debug, Strings with Descriptor_Theorems (descriptors.rs): accessors and \<open>Debug\<close>
    output never panic on what \<open>new\<close> accepts, iterators cut and group descriptors, configurations and
    strings are decoded.
  \<^item> Buffer, Buffer_Theorems (transfer/buffer.rs): a refinement of a byte array with a capacity, with the
    uninitialised bytes visible.
  \<^item> Transfer_State, Transfer_Theorems, Ownership, Wakeup (transfer/internal.rs): the protocol of \<open>Idle\<close>
    and \<open>Pending\<close> handles on an explicit heap as an \<open>inductive\<close> step relation, its invariant, the same
    invariant as ownership rules for the backends, and the interleavings of a waiter with the handler.
  \<^item> Maybe_Future (maybe_future.rs): waiting for an action equals awaiting it.
  \<^item> Backend, Endpoint, Endpoint_Theorems, Device, Device_Session (device.rs): the endpoint interface as a
    record of operations with its contract, the locale \<open>endpoint_backend\<close> (a FIFO queue of buffers), the
    checks of \<open>submit\<close>, blocking transfers, opening endpoints, descriptor requests, and the way from an
    opened endpoint to its completions.
  \<^item> Reader, Reader_Theorems, Reader_Stream (io/read.rs) and Writer, Writer_Theorems, Writer_Stream
    (io/write.rs), Portable_Streams: proved once in \<open>endpoint_backend\<close>, then stated on the Linux, the
    Windows and the macOS backend. Histories have every call of the traits, \<open>BufRead\<close> included, and the
    theorems say exactly which of them panic; the allocator gives at least what is asked, and a debug build
    of the writer is compared with a release build. Reader_Tokio: the traits of tokio give what those of smol give.
  \<^item> Linux_Usbfs, Linux_Transfer, Linux_Device, Linux_Endpoint, Linux_Events, Linux_Enumeration,
    Linux_Hotplug with their theorem theories (platform/linux_usbfs): system calls as data, URBs,
    submission, timeouts, reaping, endpoints, the epoll loop, sysfs and udev. Linux_Control follows an
    awaited control transfer from its submission to its result.
  \<^item> Transfer_Queue, Queue_Endpoint: what the Windows and the macOS endpoint have in common, the locale
    \<open>platform_transfers\<close> (what storing and taking a buffer promise) and \<open>scripted_endpoint\<close> (what a
    platform adds), of which \<open>endpoint_backend\<close> is a \<open>sublocale\<close>.
  \<^item> Windows_Text, Windows_System, Windows_Registry, Windows_Enumeration, Windows_Device, Windows_Endpoint,
    Windows_Timers, Windows_Hotplug with their theorem theories (platform/windows_winusb): wide strings,
    the device tree and the hubs, registry values, claims on shared file handles, overlapped transfers,
    timers and notifications.
  \<^item> Mac_System, Mac_Events, Mac_Enumeration, Mac_Device, Mac_Endpoint, Mac_Hotplug with their theorem
    theories (platform/macos_iokit): return codes, the run loop, the registry, device and interface
    objects, transfers with their callback, hotplug iterators. Mac_Objects has the enumeration again over
    the handles of services and iterators, as iokit.rs owns and releases them; Mac_Objects_Theorems
    shows by triples on the objects alive that it refines the enumeration over values.
  \<^item> Web_System, Web_Device, Web_Endpoint_Theorems, Web_Hotplug (platform/webusb): errors and objects of
    the browser, device IDs, descriptors, claims, transfers as promises, the queue of hotplug events. A
    web endpoint has no blocking calls, and a completion without data keeps the length of its buffer, so
    its queue is stated on its own and not in \<open>endpoint_backend\<close>.

  \<^bold>\<open>How the parts meet.\<close> A backend's endpoint operations (\<open>linux_backend\<close>, \<open>windows_backend\<close>,
  \<open>mac_backend\<close>) are interpreted in \<open>endpoint_backend\<close>, and the results on readers, writers, public calls
  and blocking transfers hold for each. The proofs of the backends rest on the ownership rules, which rest
  on the operations of Transfer_State. Claims on Windows and macOS run against the handle-tracking
  system of Handles.

  \<^bold>\<open>What is shown.\<close> For every backend: buffers come back in order, one completion each, well-formed,
  with nothing freed early or leaked, whatever the system refuses and completes and whenever; the
  scripted systems record the cancellations they are asked for, and the browser script says which bytes,
  count and status each promise gives, so that these are stated too. For wake-ups: every interleaving of a
  waiter with the handler, spurious wake-ups included, and exactly those that lose the wake-up. For
  devices: claims, endpoints and system objects are exclusive and released exactly once. For parsers
  and enumeration: no panic on any input, and what was printed, encoded or shown is read back;
  descriptors are grouped as a reference function on the list of descriptors groups them, and strings are
  the only text their bytes spell in UTF-16. For
  streams: bytes are neither lost nor doubled nor reordered; calls end. For hotplug: events come once
  and in order. Where the code does not do what it means to, the theorem states what it does, such as a
  wake-up that is lost between two atomic steps (Wakeup), the \<open>consume\<close> of the short-packet adapter, the debug
  assertion of the writer on a larger allocation, polls of the Windows and macOS hotplug streams
  that stop early, a change of the alternate setting on WebUSB that overlaps the opening of an endpoint,
  and registry values without a terminating zero.

  \<^bold>\<open>Bounds and fuel.\<close> Structural and measured recursion needs none. The loops of readers and writers
  wait for the device, so they take fuel and return the state when it is used up: each round uses one
  completion, and \<open>writer_calls_terminate\<close> and \<open>read_returns_with_data\<close> say how much is enough. The
  loops over iterators of IOKit are \<open>partial_function\<close>s whose results are proved, so they end. The
  walks over siblings in the Windows device tree take the number of nodes to visit; a run of the epoll
  loop takes the number of its rounds. Schedules and scripts are finite lists, which is every finite run.

  \<^bold>\<open>Not modelled.\<close> Logging and the other \<open>Debug\<close> implementations have no effect on results. The foreign functions of IOKit
  are declarations. Functions of device.rs, hotplug.rs and lib.rs that only forward to a backend are
  modelled in the backends. Examples, tests and fuzz targets use the library. Weak memory is not
  modelled: atomic operations are sequentially consistent. Running out of memory is not modelled.
  The read that resets the timerfd has no effect in the model. Histories of the epoll loop assume that the
  epoll instance can be created and waits fail only with \<open>EINTR\<close>, histories of claims on Windows that the
  look-ups in the device tree return; the code panics otherwise. A poll of the Windows hotplug stream is one
  step, and the device tree stays the same during a history.
\<close>

end
